(* ===== verification/Prelude.thy ===== *)
theory Prelude
  imports Main "HOL-Library.Word" "HOL-Library.AList" "HOL-Library.List_Lexorder"
    "HOL-Library.Char_ord" "HOL-Library.Multiset"
begin

text \<open>
  Shared vocabulary of the development: the Go values every component uses (instants and
  durations, maps, byte strings) and the generic facts about them.

  \<^item> An instant (\<open>time.Time\<close>) is the number of nanoseconds since Go's zero time, so the
    zero value \<open>time.Time{}\<close> is \<open>0\<close> and \<open>IsZero\<close> is equality with it; a duration is a
    number of nanoseconds. Both are unbounded here: the code never computes near the range
    of \<open>time.Time\<close>.
  \<^item> A Go map is an association list without repeated keys. Its order stands for the
    unspecified iteration order of Go, and no result of the development depends on it.
  \<^item> A Go string is the list of its bytes; string comparison is byte-wise lexicographic.
\<close>

section \<open>Named collections\<close>

named_theorems wf_intros \<open>preservation of the components' well-formedness invariants\<close>
named_theorems op_defs \<open>unfolding of the operations that are plain definitions\<close>

section \<open>Instants and durations\<close>

type_synonym instant = int
type_synonym duration = int

definition zero_time :: instant where
  "zero_time = 0"

definition nanosecond :: duration where "nanosecond = 1"
definition millisecond :: duration where "millisecond = 1000000 * nanosecond"
definition second :: duration where "second = 1000 * millisecond"
definition hour :: duration where "hour = 3600 * second"

lemmas time_units = zero_time_def nanosecond_def millisecond_def second_def hour_def

section \<open>Go maps\<close>

type_synonym ('k, 'v) gomap = "('k \<times> 'v) list"

abbreviation mget :: "('k, 'v) gomap \<Rightarrow> 'k \<Rightarrow> 'v option" where
  "mget m k \<equiv> map_of m k"

abbreviation mput :: "'k \<Rightarrow> 'v \<Rightarrow> ('k, 'v) gomap \<Rightarrow> ('k, 'v) gomap" where
  "mput k v m \<equiv> AList.update k v m"

abbreviation mdel :: "'k \<Rightarrow> ('k, 'v) gomap \<Rightarrow> ('k, 'v) gomap" where
  "mdel k m \<equiv> AList.delete k m"

abbreviation mkeys :: "('k, 'v) gomap \<Rightarrow> 'k set" where
  "mkeys m \<equiv> fst ` set m"

definition gomap_ok :: "('k, 'v) gomap \<Rightarrow> bool" where
  "gomap_ok m \<longleftrightarrow> distinct (map fst m)"

lemma gomap_ok_Nil [simp]: "gomap_ok []"
  by (simp add: gomap_ok_def)

lemma gomap_ok_mput [simp]: "gomap_ok m \<Longrightarrow> gomap_ok (mput k v m)"
  by (simp add: gomap_ok_def distinct_update)

lemma gomap_ok_mdel [simp]: "gomap_ok m \<Longrightarrow> gomap_ok (mdel k m)"
  by (simp add: gomap_ok_def distinct_delete)

lemma gomap_ok_filter [simp]: "gomap_ok m \<Longrightarrow> gomap_ok (filter Q m)"
  unfolding gomap_ok_def by (rule distinct_map_filter)

lemma gomap_ok_map_values:
  "gomap_ok (map (\<lambda>(k, v). (k, f k v)) m) = gomap_ok m"
  by (simp add: gomap_ok_def case_prod_beta' comp_def)

lemma mget_mput: "mget (mput k v m) k' = (if k' = k then Some v else mget m k')"
  by (simp add: update_conv')

lemma mget_mdel: "mget (mdel k m) k' = (if k' = k then None else mget m k')"
  by (simp add: delete_conv')

lemma mkeys_mput [simp]: "mkeys (mput k v m) = insert k (mkeys m)"
  using dom_update [of k v m] by auto

lemma mkeys_mdel [simp]: "mkeys (mdel k m) = mkeys m - {k}"
  by (simp add: AList.delete_eq image_iff set_eq_iff) force

lemma mget_None_iff: "mget m k = None \<longleftrightarrow> k \<notin> mkeys m"
  by (simp add: map_of_eq_None_iff)

lemma mget_Some_key: "mget m k = Some v \<Longrightarrow> k \<in> mkeys m"
  by (force dest: map_of_SomeD)

lemma mget_in_set: "gomap_ok m \<Longrightarrow> mget m k = Some v \<longleftrightarrow> (k, v) \<in> set m"
  by (simp add: gomap_ok_def)

lemma length_mput:
  "length (mput k v m) = (if k \<in> mkeys m then length m else Suc (length m))"
  by (induction m) auto

lemma length_mdel:
  "gomap_ok m \<Longrightarrow> length (mdel k m) = (if k \<in> mkeys m then length m - 1 else length m)"
proof (induction m)
  case Nil
  then show ?case by simp
next
  case (Cons p m)
  obtain a b where p: "p = (a, b)" by force
  have ok: "gomap_ok m" and fresh: "a \<notin> mkeys m"
    using Cons.prems p by (auto simp: gomap_ok_def)
  show ?case
  proof (cases "a = k")
    case True
    then have "filter (\<lambda>(k', uu). k \<noteq> k') m = m"
      using fresh by (force intro: filter_True)
    then show ?thesis using True p by (simp add: AList.delete_eq)
  next
    case False
    have "0 < length m" if "k \<in> mkeys m" using that by (cases m) auto
    then show ?thesis using Cons.IH [OF ok] p False by (auto simp: AList.delete_eq)
  qed
qed

lemma length_keys: "gomap_ok m \<Longrightarrow> length m = card (mkeys m)"
  by (metis distinct_card gomap_ok_def length_map list.set_map)

lemmas gomap_simps = mget_mput mget_mdel length_mput length_mdel

section \<open>Byte strings\<close>

fun has_prefix :: "string \<Rightarrow> string \<Rightarrow> bool" where
  "has_prefix s [] = True"
| "has_prefix [] (p # ps) = False"
| "has_prefix (c # s) (p # ps) = (c = p \<and> has_prefix s ps)"

lemma has_prefix_iff: "has_prefix s p \<longleftrightarrow> (\<exists>t. s = p @ t)"
  by (induction s p rule: has_prefix.induct) auto

lemma has_prefix_append [simp]: "has_prefix (p @ t) p"
  by (auto simp: has_prefix_iff)

fun contains :: "string \<Rightarrow> string \<Rightarrow> bool" where
  "contains [] sub = has_prefix [] sub"
| "contains (c # s) sub = (has_prefix (c # s) sub \<or> contains s sub)"

lemma contains_iff: "contains s sub \<longleftrightarrow> (\<exists>u v. s = u @ sub @ v)"
proof (induction s)
  case Nil
  then show ?case by (auto simp: has_prefix_iff)
next
  case (Cons c s)
  have "(\<exists>u v. c # s = u @ sub @ v) \<longleftrightarrow>
      (\<exists>v. c # s = sub @ v) \<or> (\<exists>u v. s = u @ sub @ v)"
    by (metis Cons_eq_append_conv append_Cons append_Nil)
  then show ?case using Cons.IH by (simp add: has_prefix_iff)
qed

lemma contains_trans: "contains s t \<Longrightarrow> contains t u \<Longrightarrow> contains s u"
  unfolding contains_iff by (metis append.assoc)

text \<open>
  \<open>strings.ToLower\<close> restricted to the ASCII letters; bytes of non-ASCII characters are left
  as they are.
\<close>

definition is_upper :: "char \<Rightarrow> bool" where
  "is_upper c \<longleftrightarrow> 65 \<le> (of_char c :: nat) \<and> (of_char c :: nat) \<le> 90"

definition is_lower :: "char \<Rightarrow> bool" where
  "is_lower c \<longleftrightarrow> 97 \<le> (of_char c :: nat) \<and> (of_char c :: nat) \<le> 122"

definition is_digit :: "char \<Rightarrow> bool" where
  "is_digit c \<longleftrightarrow> 48 \<le> (of_char c :: nat) \<and> (of_char c :: nat) \<le> 57"

definition lower_char :: "char \<Rightarrow> char" where
  "lower_char c = (if is_upper c then char_of (of_char c + 32 :: nat) else c)"

definition to_lower :: "string \<Rightarrow> string" where
  "to_lower s = map lower_char s"

lemma lower_char_idem [simp]: "lower_char (lower_char c) = lower_char c"
  by (auto simp: lower_char_def is_upper_def)

lemma to_lower_idem [simp]: "to_lower (to_lower s) = to_lower s"
  by (simp add: to_lower_def comp_def)

lemma length_to_lower [simp]: "length (to_lower s) = length s"
  by (simp add: to_lower_def)

section \<open>Numbers and addresses\<close>

fun digits_value :: "int \<Rightarrow> string \<Rightarrow> int" where
  "digits_value acc [] = acc"
| "digits_value acc (c # s) = digits_value (acc * 10 + (of_char c - 48)) s"

text \<open>\<open>strconv.Atoi\<close>: an optional sign and decimal digits, within the range of a 64-bit \<open>int\<close>.\<close>

definition atoi :: "string \<Rightarrow> int option" where
  "atoi s =
     (let (neg, ds) = (case s of
          [] \<Rightarrow> (False, [])
        | c # cs \<Rightarrow> if c = CHR ''-'' then (True, cs) else if c = CHR ''+'' then (False, cs) else (False, s));
          v = digits_value 0 ds; n = (if neg then - v else v)
      in if ds = [] \<or> \<not> list_all is_digit ds \<or> n < - (2 ^ 63) \<or> 2 ^ 63 \<le> n then None else Some n)"

text \<open>\<open>strings.Index\<close> and \<open>strings.LastIndex\<close> of one byte.\<close>

fun index_byte :: "string \<Rightarrow> char \<Rightarrow> nat option" where
  "index_byte [] b = None"
| "index_byte (c # s) b = (if c = b then Some 0 else map_option Suc (index_byte s b))"

definition last_index_byte :: "string \<Rightarrow> char \<Rightarrow> nat option" where
  "last_index_byte s b = map_option (\<lambda>i. length s - 1 - i) (index_byte (rev s) b)"

lemma index_byte_None [simp]: "index_byte s b = None \<longleftrightarrow> b \<notin> set s"
  by (induction s) auto

lemma index_byte_notin [simp]: "b \<notin> set s \<Longrightarrow> index_byte s b = None"
  by simp

lemma index_byte_append: "b \<notin> set s \<Longrightarrow> index_byte (s @ b # t) b = Some (length s)"
  by (induction s) auto

lemma index_byte_append_None: "b \<notin> set s \<Longrightarrow> b \<notin> set t \<Longrightarrow> index_byte (s @ t) b = None"
  by simp

lemma last_index_byte_append: "b \<notin> set t \<Longrightarrow> last_index_byte (s @ b # t) b = Some (length s)"
  using index_byte_append [of b "rev t" "rev s"] by (simp add: last_index_byte_def)

text \<open>The part of a string before the first occurrence of a byte, as \<open>s[:strings.Index(s, b)]\<close>.\<close>

definition cut_before :: "char \<Rightarrow> string \<Rightarrow> string" where
  "cut_before b s = (case index_byte s b of Some i \<Rightarrow> take i s | None \<Rightarrow> s)"

lemma cut_before_takeWhile: "cut_before b s = takeWhile (\<lambda>c. c \<noteq> b) s"
  by (induction s) (auto simp: cut_before_def split: option.splits)

lemma cut_before_append:
  assumes "b \<notin> set s" and "t = [] \<or> hd t = b"
  shows "cut_before b (s @ t) = s"
proof -
  have "takeWhile (\<lambda>c. c \<noteq> b) (s @ t) = s @ takeWhile (\<lambda>c. c \<noteq> b) t"
    using assms(1) by (induction s) auto
  then show ?thesis using assms(2) by (cases t) (simp_all add: cut_before_takeWhile)
qed

text \<open>\<open>net.SplitHostPort\<close>; every error of it is \<open>None\<close>.\<close>

definition split_host_port :: "string \<Rightarrow> (string \<times> string) option" where
  "split_host_port s =
     (case last_index_byte s CHR '':'' of
        None \<Rightarrow> None
      | Some i \<Rightarrow>
          if hd s = CHR ''['' then
            (case index_byte s CHR '']'' of
               None \<Rightarrow> None
             | Some e \<Rightarrow>
                 if e + 1 \<noteq> i then None
                 else if CHR ''['' \<in> set (drop 1 s) \<or> CHR '']'' \<in> set (drop (e + 1) s) then None
                 else Some (drop 1 (take e s), drop (i + 1) s))
          else if CHR '':'' \<in> set (take i s) then None
          else if CHR ''['' \<in> set s \<or> CHR '']'' \<in> set s then None
          else Some (take i s, drop (i + 1) s))"

lemma split_host_port_plain:
  assumes "set h \<inter> {CHR '':'', CHR ''['', CHR '']''} = {}" and "set p \<inter> {CHR '':'', CHR ''['', CHR '']''} = {}"
  shows "split_host_port (h @ CHR '':'' # p) = Some (h, p)"
  using assms last_index_byte_append [of "CHR '':''" p h]
  by (cases h) (auto simp: split_host_port_def)

text \<open>\<open>strings.TrimPrefix\<close>.\<close>

definition trim_prefix :: "string \<Rightarrow> string \<Rightarrow> string" where
  "trim_prefix s p = (if has_prefix s p then drop (length p) s else s)"

section \<open>Lists\<close>

text \<open>The newest \<open>n\<close> elements of a history.\<close>

definition last_n :: "nat \<Rightarrow> 'a list \<Rightarrow> 'a list" where
  "last_n n xs = drop (length xs - n) xs"

lemma length_last_n [simp]: "length (last_n n xs) = min n (length xs)"
  by (simp add: last_n_def)

lemma last_n_all [simp]: "length xs \<le> n \<Longrightarrow> last_n n xs = xs"
  by (simp add: last_n_def)

lemma last_n_append_last_n: "last_n n (last_n n xs @ ys) = last_n n (xs @ ys)"
proof -
  have "length xs - n + (length xs - (length xs - n) + length ys - n)
      = length xs + length ys - n" if "n \<le> length xs + length ys"
    using that by linarith
  then show ?thesis
    by (cases "n \<le> length xs + length ys") (auto simp: last_n_def drop_append)
qed

lemma last_n_0 [simp]: "last_n 0 xs = []"
  by (simp add: last_n_def)

lemma set_last_n: "set (last_n n xs) \<subseteq> set xs"
  by (simp add: last_n_def set_drop_subset)

text \<open>Go's built-in \<open>copy(dst[off:], src)\<close>: the number of elements copied and the new \<open>dst\<close>.\<close>

definition copy_count :: "'a list \<Rightarrow> nat \<Rightarrow> 'a list \<Rightarrow> nat" where
  "copy_count dst off src = min (length dst - off) (length src)"

definition copy_into :: "'a list \<Rightarrow> nat \<Rightarrow> 'a list \<Rightarrow> 'a list" where
  "copy_into dst off src =
     (let n = copy_count dst off src in take off dst @ take n src @ drop (off + n) dst)"

lemma length_copy_into [simp]: "off \<le> length dst \<Longrightarrow> length (copy_into dst off src) = length dst"
  by (auto simp: copy_into_def copy_count_def Let_def)

lemma nth_copy_into:
  assumes "off \<le> length dst" and "i < length dst"
  shows "copy_into dst off src ! i =
    (if off \<le> i \<and> i < off + copy_count dst off src then src ! (i - off) else dst ! i)"
  using assms by (auto simp: copy_into_def copy_count_def Let_def nth_append min_def)

end
