(* ===== verification/LogRing.thy ===== *)
theory LogRing
  imports Prelude
begin

text \<open>
  The in-memory log of the management UI (\<open>internal/monitor/logbuffer.go\<close>): a ring of fixed
  capacity that keeps the newest bytes written to it. The locale \<open>bounded_log\<close> is what the
  log endpoint relies on; the ring is shown to provide it.
\<close>

section \<open>The ring\<close>

record log_buffer =
  lb_buf :: string
  lb_size :: nat
  lb_start :: nat
  lb_count :: nat

definition new_log_buffer :: "int \<Rightarrow> log_buffer" where
  "new_log_buffer n =
     (let sz = (if n < 0 then 0 else nat n)
      in \<lparr>lb_buf = replicate sz (CHR 0x00), lb_size = sz, lb_start = 0, lb_count = 0\<rparr>)"

definition log_write :: "log_buffer \<Rightarrow> string \<Rightarrow> log_buffer \<times> nat" where
  "log_write lb p =
     (let n = length p in
      if lb_size lb = 0 \<or> n = 0 then (lb, n)
      else if lb_size lb \<le> n then
        (lb\<lparr>lb_buf := copy_into (lb_buf lb) 0 (drop (n - lb_size lb) p),
            lb_start := 0, lb_count := lb_size lb\<rparr>, n)
      else
        let e = (lb_start lb + lb_count lb) mod lb_size lb;
            first = copy_count (lb_buf lb) e p;
            buf1 = copy_into (lb_buf lb) e p;
            buf2 = copy_into buf1 0 (drop first p);
            overflow = int (lb_count lb) + int n - int (lb_size lb)
        in if 0 < overflow
           then (lb\<lparr>lb_buf := buf2,
                    lb_start := (lb_start lb + nat overflow) mod lb_size lb,
                    lb_count := lb_size lb\<rparr>, n)
           else (lb\<lparr>lb_buf := buf2, lb_count := lb_count lb + n\<rparr>, n))"

definition log_content :: "log_buffer \<Rightarrow> string" where
  "log_content lb =
     (if lb_count lb = 0 then []
      else
        let content0 = replicate (lb_count lb) (CHR 0x00);
            first = copy_count content0 0 (drop (lb_start lb) (lb_buf lb));
            content1 = copy_into content0 0 (drop (lb_start lb) (lb_buf lb))
        in copy_into content1 first (take (lb_count lb - first) (lb_buf lb)))"

section \<open>Invariant and abstraction\<close>

definition log_wf :: "log_buffer \<Rightarrow> bool" where
  "log_wf lb \<longleftrightarrow> length (lb_buf lb) = lb_size lb \<and> lb_count lb \<le> lb_size lb
     \<and> (0 < lb_size lb \<longrightarrow> lb_start lb < lb_size lb)"

lemma log_wf_new [wf_intros]: "log_wf (new_log_buffer n)"
  by (simp add: log_wf_def new_log_buffer_def Let_def)

lemma log_wf_write [wf_intros]: "log_wf lb \<Longrightarrow> log_wf (fst (log_write lb p))"
  by (auto simp: log_wf_def log_write_def Let_def)

lemma log_write_size [simp]: "lb_size (fst (log_write lb p)) = lb_size lb"
  by (simp add: log_write_def Let_def)

lemma length_log_content [simp]: "log_wf lb \<Longrightarrow> length (log_content lb) = lb_count lb"
  by (auto simp: log_content_def Let_def copy_count_def log_wf_def)

text \<open>Byte \<open>i\<close> of the content is at offset \<open>start + i\<close> of the ring, modulo the capacity.\<close>

lemma nth_log_content:
  assumes wf: "log_wf lb" and i: "i < lb_count lb"
  shows "log_content lb ! i = lb_buf lb ! ((lb_start lb + i) mod lb_size lb)"
proof -
  from wf i have sz: "0 < lb_size lb" "lb_start lb < lb_size lb"
    "length (lb_buf lb) = lb_size lb" "lb_count lb \<le> lb_size lb"
    by (auto simp: log_wf_def)
  let ?first = "min (lb_count lb) (lb_size lb - lb_start lb)"
  have fc: "copy_count (replicate (lb_count lb) (CHR 0x00)) 0 (drop (lb_start lb) (lb_buf lb)) = ?first"
    using sz by (simp add: copy_count_def)
  show ?thesis
  proof (cases "i < ?first")
    case True
    then have "(lb_start lb + i) mod lb_size lb = lb_start lb + i" using sz by auto
    with True show ?thesis using sz i
      by (auto simp: log_content_def Let_def fc nth_copy_into min_def)
  next
    case False
    then have wrap: "lb_start lb + i \<ge> lb_size lb" "?first = lb_size lb - lb_start lb"
      using i sz by auto
    have "(lb_start lb + i) mod lb_size lb = (lb_start lb + i - lb_size lb) mod lb_size lb"
      using wrap(1) by (simp add: le_mod_geq)
    also have "\<dots> = lb_start lb + i - lb_size lb"
      using sz i by simp
    finally have md: "(lb_start lb + i) mod lb_size lb = lb_start lb + i - lb_size lb" .
    from False wrap show ?thesis using sz i
      by (simp add: log_content_def Let_def fc nth_copy_into md copy_count_def add.commute [of i])
  qed
qed

text \<open>Where byte \<open>i\<close> of the ring ends up when \<open>p\<close>, shorter than the ring, is written at \<open>e\<close>.\<close>

definition ring_put :: "string \<Rightarrow> nat \<Rightarrow> string \<Rightarrow> string" where
  "ring_put buf e p = copy_into (copy_into buf e p) 0 (drop (copy_count buf e p) p)"

lemma length_ring_put [simp]: "e < length buf \<Longrightarrow> length (ring_put buf e p) = length buf"
  by (simp add: ring_put_def)

lemma nth_ring_put_new:
  assumes e: "e < length buf" and p: "length p < length buf" and j: "j < length p"
  shows "ring_put buf e p ! ((e + j) mod length buf) = p ! j"
proof (cases "e + j < length buf")
  case True
  then show ?thesis using e p j
    by (auto simp: ring_put_def nth_copy_into copy_count_def min_def)
next
  case False
  then have "(e + j) mod length buf = e + j - length buf"
    using e p j by (simp add: le_mod_geq)
  then show ?thesis using e p j False
    by (auto simp: ring_put_def nth_copy_into copy_count_def min_def)
qed

lemma nth_ring_put_old:
  assumes e: "e < length buf" and p: "length p < length buf"
    and j: "length p \<le> j" "j < length buf"
  shows "ring_put buf e p ! ((e + j) mod length buf) = buf ! ((e + j) mod length buf)"
proof (cases "e + j < length buf")
  case True
  then show ?thesis using e p j
    by (auto simp: ring_put_def nth_copy_into copy_count_def min_def)
next
  case False
  then have "(e + j) mod length buf = e + j - length buf"
    using e p j by (simp add: le_mod_geq)
  then show ?thesis using e p j False
    by (auto simp: ring_put_def nth_copy_into copy_count_def min_def)
qed

section \<open>The ring keeps the newest bytes\<close>

lemma log_write_long:
  assumes wf: "log_wf lb" and sz: "0 < lb_size lb" and long: "lb_size lb \<le> length p"
  shows "log_content (fst (log_write lb p)) = last_n (lb_size lb) (log_content lb @ p)"
proof (rule nth_equalityI)
  note wf' = log_wf_write [OF wf, of p]
  show "length (log_content (fst (log_write lb p))) = length (last_n (lb_size lb) (log_content lb @ p))"
    using wf wf' assms by (auto simp: log_write_def Let_def)
  fix i assume "i < length (log_content (fst (log_write lb p)))"
  then have i: "i < lb_size lb" using wf' assms by (auto simp: log_write_def Let_def split: if_splits)
  have "log_content (fst (log_write lb p)) ! i = drop (length p - lb_size lb) p ! i"
    using nth_log_content [OF wf', of i] i assms
    by (auto simp: log_write_def Let_def nth_copy_into copy_count_def log_wf_def)
  then show "log_content (fst (log_write lb p)) ! i = last_n (lb_size lb) (log_content lb @ p) ! i"
    using i assms by (auto simp: last_n_def nth_append)
qed

text \<open>What a short write leaves: the ring after \<open>ring_put\<close>, the start moved over what was lost.\<close>

lemma log_write_short_fields:
  assumes "log_wf lb" and "p \<noteq> []" and "length p < lb_size lb"
  defines "over \<equiv> lb_count lb + length p - lb_size lb"
  shows "lb_buf (fst (log_write lb p)) =
      ring_put (lb_buf lb) ((lb_start lb + lb_count lb) mod lb_size lb) p"
    and "lb_start (fst (log_write lb p)) = (lb_start lb + over) mod lb_size lb"
    and "lb_count (fst (log_write lb p)) = lb_count lb + length p - over"
proof -
  have n: "nat (int (lb_count lb) + int (length p) - int (lb_size lb)) = over"
    unfolding over_def by linarith
  have z: "over = 0" "(lb_start lb) mod lb_size lb = lb_start lb"
    if "\<not> 0 < int (lb_count lb) + int (length p) - int (lb_size lb)"
    using that assms by (auto simp: log_wf_def)
  have c: "lb_count lb + length p - over = lb_size lb"
    if "0 < int (lb_count lb) + int (length p) - int (lb_size lb)"
    using that by (simp add: over_def)
  show "lb_buf (fst (log_write lb p)) =
      ring_put (lb_buf lb) ((lb_start lb + lb_count lb) mod lb_size lb) p"
    using assms(2,3) by (simp add: log_write_def Let_def ring_put_def)
  show "lb_start (fst (log_write lb p)) = (lb_start lb + over) mod lb_size lb"
    using assms(2,3) z by (simp add: log_write_def Let_def n del: diff_gt_0_iff_gt)
  show "lb_count (fst (log_write lb p)) = lb_count lb + length p - over"
    using assms(2,3) z c by (simp add: log_write_def Let_def del: diff_gt_0_iff_gt)
qed

lemma ring_index_old:
  fixes st c sz k :: nat
  assumes "c \<le> sz" and "k < c"
  shows "(st + k) mod sz = ((st + c) mod sz + (sz - c + k)) mod sz"
proof -
  have "((st + c) mod sz + (sz - c + k)) mod sz = (st + c + (sz - c + k)) mod sz"
    by (simp add: mod_simps)
  also have "st + c + (sz - c + k) = st + k + sz" using assms by simp
  finally show ?thesis by simp
qed

lemma ring_index_new:
  fixes st c sz k :: nat
  assumes "c \<le> k"
  shows "(st + k) mod sz = ((st + c) mod sz + (k - c)) mod sz"
proof -
  have "st + k = st + c + (k - c)" using assms by simp
  then show ?thesis by (metis mod_add_left_eq)
qed

lemma nth_ring_put_content:
  assumes wf: "log_wf lb" and p: "length p < lb_size lb"
    and k: "k < lb_count lb + length p" "lb_count lb + length p - lb_size lb \<le> k"
  shows "ring_put (lb_buf lb) ((lb_start lb + lb_count lb) mod lb_size lb) p
      ! ((lb_start lb + k) mod lb_size lb) = (log_content lb @ p) ! k"
proof -
  let ?e = "(lb_start lb + lb_count lb) mod lb_size lb"
  have e: "?e < length (lb_buf lb)" and sz: "length (lb_buf lb) = lb_size lb"
    "lb_count lb \<le> lb_size lb"
    using wf p by (auto simp: log_wf_def)
  show ?thesis
  proof (cases "k < lb_count lb")
    case True
    with nth_ring_put_old [OF e, of p "lb_size lb - lb_count lb + k"] show ?thesis
      using wf p k sz ring_index_old [OF sz(2) True, of "lb_start lb"]
      by (simp add: nth_append nth_log_content)
  next
    case False
    with nth_ring_put_new [OF e, of p "k - lb_count lb"] show ?thesis
      using wf p k sz ring_index_new [of "lb_count lb" k "lb_start lb" "lb_size lb"]
      by (simp add: nth_append)
  qed
qed

lemma log_write_short:
  assumes wf: "log_wf lb" and p: "p \<noteq> []" "length p < lb_size lb"
  shows "log_content (fst (log_write lb p)) = last_n (lb_size lb) (log_content lb @ p)"
proof (rule nth_equalityI)
  let ?lb = "fst (log_write lb p)" and ?over = "lb_count lb + length p - lb_size lb"
  note wf' = log_wf_write [OF wf, of p] and fields = log_write_short_fields [OF wf p]
  show "length (log_content ?lb) = length (last_n (lb_size lb) (log_content lb @ p))"
    using wf wf' fields by auto
  fix i assume "i < length (log_content ?lb)"
  then have i: "i < lb_count lb + length p - ?over" using wf' fields by simp
  have "((lb_start lb + ?over) mod lb_size lb + i) mod lb_size lb
      = (lb_start lb + (?over + i)) mod lb_size lb"
    by (simp add: mod_simps add.assoc)
  then have "log_content ?lb ! i = (log_content lb @ p) ! (?over + i)"
    using nth_log_content [OF wf', of i] i fields nth_ring_put_content [OF wf p(2), of "?over + i"]
    by simp
  then show "log_content ?lb ! i = last_n (lb_size lb) (log_content lb @ p) ! i"
    using wf i by (simp add: last_n_def del: drop_append)
qed

lemma log_write_snd [simp]: "snd (log_write lb p) = length p"
  by (simp add: log_write_def Let_def)

lemma log_content_bound: "log_wf lb \<Longrightarrow> length (log_content lb) \<le> lb_size lb"
  by (simp add: log_wf_def)

lemma log_write_content:
  assumes wf: "log_wf lb"
  shows "log_content (fst (log_write lb p)) = last_n (lb_size lb) (log_content lb @ p)"
proof -
  consider "lb_size lb = 0 \<or> p = []" | "0 < lb_size lb" "lb_size lb \<le> length p"
    | "p \<noteq> []" "length p < lb_size lb" by force
  then show ?thesis
  proof cases
    case 1
    then have "log_content (fst (log_write lb p)) = log_content lb"
      by (simp add: log_write_def Let_def)
    with 1 log_content_bound [OF wf] show ?thesis by auto
  qed (simp_all add: log_write_long [OF wf] log_write_short [OF wf])
qed

section \<open>The interface of a bounded log\<close>

locale bounded_log =
  fixes put :: "'b \<Rightarrow> 'a list \<Rightarrow> 'b \<times> nat"
    and content :: "'b \<Rightarrow> 'a list"
    and capacity :: "'b \<Rightarrow> nat"
    and invar :: "'b \<Rightarrow> bool"
  assumes put_content: "invar b \<Longrightarrow> content (fst (put b p)) = last_n (capacity b) (content b @ p)"
    and put_capacity: "capacity (fst (put b p)) = capacity b"
    and put_invar: "invar b \<Longrightarrow> invar (fst (put b p))"
    and put_length: "snd (put b p) = length p"
begin

definition puts :: "'b \<Rightarrow> 'a list list \<Rightarrow> 'b" where
  "puts b ps = foldl (\<lambda>b p. fst (put b p)) b ps"

lemma puts_capacity: "capacity (puts b ps) = capacity b"
  unfolding puts_def by (induction ps arbitrary: b) (auto simp: put_capacity)

lemma puts_content:
  "invar b \<Longrightarrow> length (content b) \<le> capacity b \<Longrightarrow>
    content (puts b ps) = last_n (capacity b) (content b @ concat ps)"
proof (induction ps arbitrary: b)
  case Nil
  then show ?case by (simp add: puts_def)
next
  case (Cons p ps)
  have "content (puts (fst (put b p)) ps)
      = last_n (capacity b) (last_n (capacity b) (content b @ p) @ concat ps)"
    using Cons.prems Cons.IH [of "fst (put b p)"]
    by (simp add: put_content put_capacity put_invar)
  then show ?case by (simp add: puts_def last_n_append_last_n)
qed

end

interpretation log_ring: bounded_log log_write log_content lb_size log_wf
  by unfold_locales (simp_all add: log_write_content log_wf_write)

definition log_write_all :: "log_buffer \<Rightarrow> string list \<Rightarrow> log_buffer" where
  "log_write_all lb ps = foldl (\<lambda>b p. fst (log_write b p)) lb ps"

lemma log_write_all_eq: "log_write_all = log_ring.puts"
  by (simp add: fun_eq_iff log_write_all_def log_ring.puts_def)

text \<open>
  whatever sequence of writes a log buffer of size \<open>n\<close> receives, of whatever lengths and
  wherever the ring wraps, its content is exactly the newest \<open>n\<close> bytes written (all of them
  while there are at most \<open>n\<close>); a negative size behaves as \<open>0\<close>.
\<close>

lemma log_content_newest:
  "log_content (log_write_all (new_log_buffer n) ps) = last_n (nat n) (concat ps)"
proof -
  have "lb_size (new_log_buffer n) = nat n" and "log_content (new_log_buffer n) = []"
    by (simp_all add: new_log_buffer_def log_content_def Let_def)
  then show ?thesis
    using log_ring.puts_content [OF log_wf_new, of n ps]
    by (simp add: log_write_all_eq)
qed

end
