(* ===== verification/MonitorEntry.thy ===== *)
theory MonitorEntry
  imports Prelude
begin

text \<open>
  One node as the monitor sees it (the \<open>entry\<close> of \<open>internal/monitor/manager.go\<close>): its counters,
  its bounded timeline, its ban and availability flags, and the snapshot the dashboard reads.
  Every operation is one critical section of the entry's mutex and takes the instant it reads
  from the clock. Callbacks are data: what the pool's closures capture (\<open>SetRelease\<close>,
  \<open>SetBlacklistFn\<close>, \<open>SetProbe\<close>).
\<close>

section \<open>Data\<close>

record node_info =
  ni_tag :: string
  ni_name :: string
  ni_uri :: string
  ni_mode :: string
  ni_listen_address :: string
  ni_port :: "16 word"
  ni_region :: string
  ni_country :: string

record timeline_event =
  te_time :: instant
  te_success :: bool
  te_latency_ms :: int
  te_error :: string

definition max_timeline_size :: nat where "max_timeline_size = 20"

datatype release_fn =
    ReleaseTag string          \<comment> \<open>\<open>makeReleaseByTagFunc\<close>: looks the tag up when called\<close>
  | ReleaseShared "nat option" \<comment> \<open>\<open>makeReleaseFunc\<close>: the member's shared state\<close>

datatype probe_fn =
    ProbeTag nat string        \<comment> \<open>\<open>makeProbeByTagFunc\<close>: pool and tag\<close>
  | ProbeMember nat nat        \<comment> \<open>\<open>makeProbeFunc\<close>: pool and member\<close>

text \<open>The error of a probe: its text, and whether it is \<open>context.Canceled\<close>.\<close>

record probe_error =
  er_text :: string
  er_canceled :: bool

record probe_run =
  pr_generation :: "64 word"
  pr_result :: "(duration \<times> probe_error option) option" \<comment> \<open>\<open>Some\<close> once \<open>done\<close> is closed\<close>

record entry =
  e_info :: node_info
  e_failure :: int
  e_success :: int
  e_timeline :: "timeline_event list"
  e_blacklist :: bool
  e_until :: instant
  e_last_error :: string
  e_last_fail :: instant
  e_last_ok :: instant
  e_last_probe :: duration
  e_active :: "32 word"
  e_probe :: "probe_fn option"
  e_probe_run :: "nat option"
  e_probe_generation :: "64 word"
  e_release :: "release_fn option"
  e_blacklist_fn :: "string option"
  e_initial_check_done :: bool
  e_available :: bool

definition new_entry :: "node_info \<Rightarrow> entry" where
  "new_entry info = \<lparr>e_info = info, e_failure = 0, e_success = 0, e_timeline = [],
     e_blacklist = False, e_until = zero_time, e_last_error = [], e_last_fail = zero_time,
     e_last_ok = zero_time, e_last_probe = 0, e_active = 0, e_probe = None, e_probe_run = None,
     e_probe_generation = 0, e_release = None, e_blacklist_fn = None,
     e_initial_check_done = False, e_available = False\<rparr>"

section \<open>Operations\<close>

text \<open>\<open>time.Duration.Milliseconds\<close> divides towards zero.\<close>

definition milliseconds :: "duration \<Rightarrow> int" where
  "milliseconds d = (if d < 0 then - ((- d) div millisecond) else d div millisecond)"

definition append_timeline_locked :: "bool \<Rightarrow> int \<Rightarrow> string \<Rightarrow> instant \<Rightarrow> entry \<Rightarrow> entry" where
  "append_timeline_locked ok ms err now e =
     (let evt = \<lparr>te_time = now, te_success = ok, te_latency_ms = ms, te_error = err\<rparr>;
          tl = e_timeline e
      in if max_timeline_size \<le> length tl
         then let shifted = copy_into tl 0 (drop 1 tl)
              in e\<lparr>e_timeline := shifted[length shifted - 1 := evt]\<rparr>
         else e\<lparr>e_timeline := tl @ [evt]\<rparr>)"

definition record_failure :: "string \<Rightarrow> instant \<Rightarrow> entry \<Rightarrow> entry" where
  "record_failure err now e =
     append_timeline_locked False 0 err now
       (e\<lparr>e_failure := e_failure e + 1, e_last_error := err, e_last_fail := now\<rparr>)"

definition record_success :: "instant \<Rightarrow> entry \<Rightarrow> entry" where
  "record_success now e =
     append_timeline_locked True 0 [] now
       (e\<lparr>e_success := e_success e + 1, e_last_ok := now, e_last_error := []\<rparr>)"

definition record_success_with_latency :: "duration \<Rightarrow> instant \<Rightarrow> entry \<Rightarrow> entry" where
  "record_success_with_latency latency now e =
     (let ms = (if milliseconds latency = 0 \<and> latency > 0 then 1 else milliseconds latency)
      in append_timeline_locked True ms [] now
           (e\<lparr>e_success := e_success e + 1, e_last_ok := now, e_last_error := [],
              e_last_probe := latency\<rparr>))"

definition blacklist_until :: "instant \<Rightarrow> entry \<Rightarrow> entry" where
  "blacklist_until t e = e\<lparr>e_blacklist := True, e_until := t\<rparr>"

definition clear_blacklist :: "entry \<Rightarrow> entry" where
  "clear_blacklist e = e\<lparr>e_blacklist := False, e_until := zero_time\<rparr>"

definition entry_inc_active :: "entry \<Rightarrow> entry" where
  "entry_inc_active e = e\<lparr>e_active := e_active e + 1\<rparr>"

definition entry_dec_active :: "entry \<Rightarrow> entry" where
  "entry_dec_active e = e\<lparr>e_active := e_active e - 1\<rparr>"

definition set_probe :: "probe_fn option \<Rightarrow> entry \<Rightarrow> entry" where
  "set_probe fn e = e\<lparr>e_probe := fn\<rparr>"

definition set_release :: "release_fn option \<Rightarrow> entry \<Rightarrow> entry" where
  "set_release fn e = e\<lparr>e_release := fn\<rparr>"

definition set_blacklist_fn :: "string option \<Rightarrow> entry \<Rightarrow> entry" where
  "set_blacklist_fn fn e = e\<lparr>e_blacklist_fn := fn\<rparr>"

definition mark_initial_check_done :: "bool \<Rightarrow> entry \<Rightarrow> entry" where
  "mark_initial_check_done ok e = e\<lparr>e_initial_check_done := True, e_available := ok\<rparr>"

definition mark_available :: "bool \<Rightarrow> entry \<Rightarrow> entry" where
  "mark_available ok e = e\<lparr>e_available := ok\<rparr>"

definition last_latency :: "entry \<Rightarrow> duration" where
  "last_latency e = (if e_available e then e_last_probe e else 0)"

lemmas entry_op_defs = append_timeline_locked_def record_failure_def record_success_def
  record_success_with_latency_def blacklist_until_def clear_blacklist_def entry_inc_active_def
  entry_dec_active_def set_probe_def set_release_def set_blacklist_fn_def
  mark_initial_check_done_def mark_available_def

section \<open>Snapshot\<close>

record snapshot =
  sn_info :: node_info
  sn_failure_count :: int
  sn_success_count :: int
  sn_blacklisted :: bool
  sn_blacklisted_until :: instant
  sn_active_connections :: "32 word"
  sn_last_error :: string
  sn_last_failure :: instant
  sn_last_success :: instant
  sn_last_probe_latency :: duration
  sn_last_latency_ms :: int
  sn_available :: bool
  sn_initial_check_done :: bool
  sn_timeline :: "timeline_event list"

definition entry_snapshot :: "instant \<Rightarrow> entry \<Rightarrow> snapshot" where
  "entry_snapshot now e =
     (let ms = (if e_last_probe e > 0
                then (if milliseconds (e_last_probe e) = 0 then 1 else milliseconds (e_last_probe e))
                else - 1)
      in \<lparr>sn_info = e_info e, sn_failure_count = e_failure e, sn_success_count = e_success e,
          sn_blacklisted = (e_blacklist e \<and> (e_until e = zero_time \<or> now < e_until e)),
          sn_blacklisted_until = e_until e, sn_active_connections = e_active e,
          sn_last_error = e_last_error e, sn_last_failure = e_last_fail e,
          sn_last_success = e_last_ok e, sn_last_probe_latency = e_last_probe e,
          sn_last_latency_ms = ms, sn_available = e_available e,
          sn_initial_check_done = e_initial_check_done e, sn_timeline = e_timeline e\<rparr>)"

section \<open>The timeline is a bounded log\<close>

text \<open>
  The events an operation reports; the specification of a timeline is the list of all events
  ever reported, of which the entry keeps the newest.
\<close>

datatype report = Failed string instant | Worked instant | Measured duration instant

primrec apply_report :: "report \<Rightarrow> entry \<Rightarrow> entry" where
  "apply_report (Failed err now) = record_failure err now"
| "apply_report (Worked now) = record_success now"
| "apply_report (Measured d now) = record_success_with_latency d now"

primrec report_event :: "report \<Rightarrow> timeline_event" where
  "report_event (Failed err now) = \<lparr>te_time = now, te_success = False, te_latency_ms = 0, te_error = err\<rparr>"
| "report_event (Worked now) = \<lparr>te_time = now, te_success = True, te_latency_ms = 0, te_error = []\<rparr>"
| "report_event (Measured d now) = \<lparr>te_time = now, te_success = True,
     te_latency_ms = (if 0 < d \<and> d < millisecond then 1 else milliseconds d), te_error = []\<rparr>"

definition is_failure :: "report \<Rightarrow> bool" where
  "is_failure r = (case r of Failed _ _ \<Rightarrow> True | _ \<Rightarrow> False)"

definition report_all :: "report list \<Rightarrow> entry \<Rightarrow> entry" where
  "report_all rs e = fold apply_report rs e"

lemma shift_append:
  assumes "xs \<noteq> []"
  shows "(copy_into xs 0 (drop 1 xs))[length xs - 1 := x] = drop 1 xs @ [x]"
  using assms by (cases xs rule: rev_cases)
    (auto simp: copy_into_def copy_count_def Let_def list_update_append drop_append)

lemma append_timeline_locked_tl:
  assumes "length (e_timeline e) \<le> max_timeline_size"
  shows "e_timeline (append_timeline_locked ok ms err now e) = last_n max_timeline_size
    (e_timeline e @ [\<lparr>te_time = now, te_success = ok, te_latency_ms = ms, te_error = err\<rparr>])"
proof (cases "length (e_timeline e) = max_timeline_size")
  case True
  then have "e_timeline e \<noteq> []" by (auto simp: max_timeline_size_def)
  from shift_append [OF this] show ?thesis using True
    by (simp add: append_timeline_locked_def Let_def last_n_def max_timeline_size_def)
next
  case False
  then show ?thesis using assms by (simp add: append_timeline_locked_def Let_def)
qed

lemma append_timeline_locked_fields [simp]:
  "e_failure (append_timeline_locked ok ms err now e) = e_failure e"
  "e_success (append_timeline_locked ok ms err now e) = e_success e"
  by (simp_all add: append_timeline_locked_def Let_def)

lemma apply_report_tl:
  assumes "length (e_timeline e) \<le> max_timeline_size"
  shows "e_timeline (apply_report r e) = last_n max_timeline_size (e_timeline e @ [report_event r])"
proof -
  have ms: "milliseconds d = 0 \<and> 0 < d \<longleftrightarrow> 0 < d \<and> d < millisecond" for d
    by (auto simp: milliseconds_def millisecond_def nanosecond_def div_pos_pos_trivial zdiv_eq_0_iff)
  show ?thesis using assms
    by (cases r)
      (simp_all add: record_failure_def record_success_def record_success_with_latency_def Let_def
        append_timeline_locked_tl ms)
qed

lemma apply_report_counts:
  "e_failure (apply_report r e) = e_failure e + of_bool (is_failure r)"
  "e_success (apply_report r e) = e_success e + of_bool (\<not> is_failure r)"
  by (cases r; simp add: record_failure_def record_success_def record_success_with_latency_def
      is_failure_def Let_def)+

lemma report_all_tl:
  "length (e_timeline e) \<le> max_timeline_size \<Longrightarrow>
    e_timeline (report_all rs e) = last_n max_timeline_size (e_timeline e @ map report_event rs)"
proof (induction rs arbitrary: e)
  case Nil
  then show ?case by (simp add: report_all_def)
next
  case (Cons r rs)
  then show ?case
    using Cons.IH [of "apply_report r e"]
    by (simp add: report_all_def apply_report_tl last_n_append_last_n)
qed

lemma report_all_counts:
  "e_failure (report_all rs e) = e_failure e + int (length (filter is_failure rs))"
  "e_success (report_all rs e) = e_success e + int (length (filter (\<lambda>r. \<not> is_failure r) rs))"
  by (induction rs arbitrary: e) (simp_all add: report_all_def apply_report_counts)

text \<open>
  the debug timeline of a node holds exactly the newest 20 of all the usage events ever
  reported for it, oldest first, and the two counters count every event, the ones that left the
  timeline included.
\<close>

lemma timeline_newest_events:
  "let s = entry_snapshot now (report_all rs (new_entry info)) in
     sn_timeline s = last_n 20 (map report_event rs)
     \<and> sn_failure_count s = int (length (filter is_failure rs))
     \<and> sn_failure_count s + sn_success_count s = int (length rs)"
  using report_all_tl [of "new_entry info" rs] report_all_counts [of rs "new_entry info"]
    sum_length_filter_compl [of is_failure rs]
  by (simp add: entry_snapshot_def Let_def new_entry_def max_timeline_size_def)

end
