(* ===== verification/MonitorManager.thy ===== *)
theory MonitorManager
  imports MonitorEntry "HOL-Library.Product_Lexorder"
begin

text \<open>
  The node registry of the monitor (\<open>Manager\<close> of \<open>internal/monitor/manager.go\<close>): registration
  across reloads, the probe target derived from the settings, and the sorted snapshots the
  dashboard and the export read. Entries are shared by handles, so they live in a heap and the
  \<open>nodes\<close> map holds their addresses: a handle kept across \<open>ClearNodes\<close> still reaches its entry.
\<close>

section \<open>State\<close>

record monitor =
  m_entries :: "nat \<Rightarrow> entry"
  m_next :: nat
  m_nodes :: "(string, nat) gomap"
  m_probe_dst :: "string \<times> 16 word"
  m_probe_host :: string
  m_probe_tls :: bool
  m_probe_ready :: bool
  m_probe_concurrency :: int

section \<open>Settings\<close>

definition clamp_probe_concurrency :: "int \<Rightarrow> int" where
  "clamp_probe_concurrency n0 =
     (let n1 = (if n0 \<le> 0 then 32 else n0);
          n2 = (if n1 < 8 then 8 else n1)
      in if n2 > 1024 then 1024 else n2)"

definition parse_port :: "string \<Rightarrow> 16 word" where
  "parse_port value =
     (case atoi value of
        None \<Rightarrow> 80
      | Some p \<Rightarrow> if p \<le> 0 \<or> p > 65535 then 80 else word_of_int p)"

text \<open>
  The destination is the pair of host and port that \<open>M.ParseSocksaddrHostPort\<close> is given; the
  results are destination, host, strict TLS, ready.
\<close>

definition resolve_probe_target ::
  "string \<Rightarrow> bool \<Rightarrow> (string \<times> 16 word) \<times> string \<times> bool \<times> bool" where
  "resolve_probe_target probe_target skip_cert_verify =
     (if probe_target = [] then (([], 0), [], False, False)
      else
        let is_https = has_prefix probe_target ''https://'';
            t1 = (if is_https then trim_prefix probe_target ''https://''
                  else if has_prefix probe_target ''http://'' then trim_prefix probe_target ''http://''
                  else probe_target);
            t2 = cut_before CHR ''/'' t1;
            (h, port) = (case split_host_port t2 of
                Some hp \<Rightarrow> hp
              | None \<Rightarrow> (t2, if is_https then ''443'' else ''80''))
        in ((h, parse_port port), h, is_https \<and> \<not> skip_cert_verify, True))"

definition set_probe_target :: "string \<Rightarrow> bool \<Rightarrow> monitor \<Rightarrow> monitor" where
  "set_probe_target probe_target skip m =
     (let (dst, host, tls, ready) = resolve_probe_target probe_target skip
      in m\<lparr>m_probe_dst := dst, m_probe_host := host, m_probe_tls := tls, m_probe_ready := ready\<rparr>)"

definition set_probe_concurrency :: "int \<Rightarrow> monitor \<Rightarrow> monitor" where
  "set_probe_concurrency n m = m\<lparr>m_probe_concurrency := clamp_probe_concurrency n\<rparr>"

definition new_manager :: "string \<Rightarrow> bool \<Rightarrow> int \<Rightarrow> monitor" where
  "new_manager probe_target skip concurrency =
     set_probe_target probe_target skip
       \<lparr>m_entries = (\<lambda>_. new_entry \<lparr>ni_tag = [], ni_name = [], ni_uri = [], ni_mode = [],
            ni_listen_address = [], ni_port = 0, ni_region = [], ni_country = []\<rparr>),
        m_next = 0, m_nodes = [], m_probe_dst = ([], 0), m_probe_host = [], m_probe_tls = False,
        m_probe_ready = False, m_probe_concurrency = clamp_probe_concurrency concurrency\<rparr>"

definition destination_for_probe :: "monitor \<Rightarrow> (string \<times> 16 word) \<times> string \<times> bool \<times> bool" where
  "destination_for_probe m =
     (if \<not> m_probe_ready m then (([], 0), [], False, False)
      else (m_probe_dst m, m_probe_host m, m_probe_tls m, True))"

section \<open>Registry\<close>

definition upd_entry :: "nat \<Rightarrow> (entry \<Rightarrow> entry) \<Rightarrow> monitor \<Rightarrow> monitor" where
  "upd_entry a f m = m\<lparr>m_entries := (m_entries m)(a := f (m_entries m a))\<rparr>"

definition register_node :: "node_info \<Rightarrow> monitor \<Rightarrow> nat \<times> monitor" where
  "register_node info m =
     (case mget (m_nodes m) (ni_tag info) of
        None \<Rightarrow> (m_next m, m\<lparr>m_entries := (m_entries m)(m_next m := new_entry info),
             m_nodes := mput (ni_tag info) (m_next m) (m_nodes m), m_next := Suc (m_next m)\<rparr>)
      | Some a \<Rightarrow> (a, upd_entry a (\<lambda>e. e\<lparr>e_info := info\<rparr>) m))"

definition clear_nodes :: "monitor \<Rightarrow> monitor" where
  "clear_nodes m = m\<lparr>m_nodes := []\<rparr>"

definition find_entry :: "string \<Rightarrow> monitor \<Rightarrow> nat option" where
  "find_entry tag m = mget (m_nodes m) tag"

section \<open>Sorted snapshots\<close>

definition snap_less :: "snapshot \<Rightarrow> snapshot \<Rightarrow> bool" where
  "snap_less a b =
     (let la = sn_last_latency_ms a; lb = sn_last_latency_ms b;
          by_name = (if ni_name (sn_info a) = ni_name (sn_info b)
                     then ni_tag (sn_info a) < ni_tag (sn_info b)
                     else ni_name (sn_info a) < ni_name (sn_info b))
      in if la < 0 \<and> lb < 0 then by_name
         else if la < 0 then False
         else if lb < 0 then True
         else if la = lb then by_name
         else la < lb)"

text \<open>
  \<open>sort.Slice\<close> by a comparison: an insertion sort. That the sorted order does not depend on the
  algorithm, nor on the iteration order of the map, is part of what is proved.
\<close>

fun insert_by :: "('a \<Rightarrow> 'a \<Rightarrow> bool) \<Rightarrow> 'a \<Rightarrow> 'a list \<Rightarrow> 'a list" where
  "insert_by lt x [] = [x]"
| "insert_by lt x (y # ys) = (if lt y x then y # insert_by lt x ys else x # y # ys)"

definition sort_slice :: "('a \<Rightarrow> 'a \<Rightarrow> bool) \<Rightarrow> 'a list \<Rightarrow> 'a list" where
  "sort_slice lt xs = foldr (insert_by lt) xs []"

definition snapshot_filtered :: "bool \<Rightarrow> instant \<Rightarrow> monitor \<Rightarrow> snapshot list" where
  "snapshot_filtered only_available now m =
     (let snaps = map (\<lambda>(tag, a). entry_snapshot now (m_entries m a)) (m_nodes m);
          kept = filter (\<lambda>s. \<not> (only_available
                   \<and> (\<not> sn_initial_check_done s \<or> \<not> sn_available s \<or> sn_blacklisted s))) snaps
      in sort_slice snap_less kept)"

section \<open>Registry invariant\<close>

definition monitor_wf :: "monitor \<Rightarrow> bool" where
  "monitor_wf m \<longleftrightarrow> gomap_ok (m_nodes m)
     \<and> (\<forall>tag a. mget (m_nodes m) tag = Some a \<longrightarrow> a < m_next m \<and> ni_tag (e_info (m_entries m a)) = tag)"

lemma monitor_wf_new: "monitor_wf (new_manager t s n)"
  by (simp add: monitor_wf_def new_manager_def set_probe_target_def gomap_ok_def split: prod.splits)

lemma monitor_wf_upd_entry:
  "monitor_wf m \<Longrightarrow> (\<And>e. ni_tag (e_info (f e)) = ni_tag (e_info e)) \<Longrightarrow> monitor_wf (upd_entry a f m)"
  by (simp add: monitor_wf_def upd_entry_def)

lemma monitor_wf_clear: "monitor_wf (clear_nodes m)"
  by (simp add: monitor_wf_def clear_nodes_def gomap_ok_def)

lemma monitor_wf_register:
  assumes "monitor_wf m" and "register_node info m = (a, m')"
  shows "monitor_wf m'" "mget (m_nodes m') (ni_tag info) = Some a" "e_info (m_entries m' a) = info"
proof -
  have "monitor_wf m' \<and> mget (m_nodes m') (ni_tag info) = Some a \<and> e_info (m_entries m' a) = info"
  proof (cases "mget (m_nodes m) (ni_tag info)")
    case None
    then have m': "a = m_next m" "m_nodes m' = mput (ni_tag info) (m_next m) (m_nodes m)"
      "m_entries m' = (m_entries m)(m_next m := new_entry info)" "m_next m' = Suc (m_next m)"
      using assms(2) by (auto simp: register_node_def)
    have "b < m_next m' \<and> ni_tag (e_info (m_entries m' b)) = k" if "mget (m_nodes m') k = Some b" for k b
    proof (cases "k = ni_tag info")
      case True
      then show ?thesis using that m' by (simp add: mget_mput new_entry_def)
    next
      case False
      then have "mget (m_nodes m) k = Some b" using that m' by (simp add: mget_mput)
      then have "b < m_next m \<and> ni_tag (e_info (m_entries m b)) = k" using assms(1) by (simp add: monitor_wf_def)
      then show ?thesis using m' by auto
    qed
    then show ?thesis using assms(1) m' by (simp add: monitor_wf_def mget_mput new_entry_def)
  next
    case (Some b)
    then have m': "a = b" "m' = upd_entry a (\<lambda>e. e\<lparr>e_info := info\<rparr>) m"
      using assms(2) by (auto simp: register_node_def)
    have "ni_tag (e_info (m_entries m a)) = ni_tag info" using assms(1) Some m' by (simp add: monitor_wf_def)
    moreover have "ni_tag (e_info (m_entries m c)) = k \<and> c < m_next m" if "mget (m_nodes m) k = Some c" for k c
      using assms(1) that by (simp add: monitor_wf_def)
    ultimately show ?thesis using assms(1) Some m' by (fastforce simp: monitor_wf_def upd_entry_def)
  qed
  then show "monitor_wf m'" "mget (m_nodes m') (ni_tag info) = Some a" "e_info (m_entries m' a) = info"
    by simp_all
qed

section \<open>The snapshot order\<close>

definition snap_key :: "snapshot \<Rightarrow> bool \<times> int \<times> string \<times> string" where
  "snap_key s = (sn_last_latency_ms s < 0, max (- 1) (sn_last_latency_ms s),
     ni_name (sn_info s), ni_tag (sn_info s))"

lemma snap_less_key: "snap_less a b \<longleftrightarrow> snap_key a < snap_key b"
  by (auto simp: snap_less_def snap_key_def Let_def less_prod_def)

lemma set_insert_by [simp]: "set (insert_by lt x ys) = insert x (set ys)"
  by (induction ys) auto

lemma mset_insert_by [simp]: "mset (insert_by lt x ys) = add_mset x (mset ys)"
  by (induction ys) auto

lemma mset_sort_slice [simp]: "mset (sort_slice lt xs) = mset xs"
  by (induction xs) (simp_all add: sort_slice_def)

lemma insert_by_key:
  assumes "\<And>a b. lt a b \<longleftrightarrow> (f a :: 'k :: linorder) < f b"
  shows "insert_by lt = insort_key f"
proof (intro ext)
  fix x ys show "insert_by lt x ys = insort_key f x ys"
    by (induction ys) (auto simp: assms)
qed

lemma sort_slice_key:
  assumes "\<And>a b. lt a b \<longleftrightarrow> (f a :: 'k :: linorder) < f b"
  shows "sort_slice lt xs = sort_key f xs"
  by (simp add: sort_slice_def sort_key_def insert_by_key [OF assms])

lemma monitor_wf_entry:
  "monitor_wf m \<Longrightarrow> (tag, a) \<in> set (m_nodes m) \<Longrightarrow> ni_tag (e_info (m_entries m a)) = tag"
  by (auto simp: monitor_wf_def mget_in_set)

lemma snap_key_inj:
  assumes "monitor_wf m"
  shows "inj_on snap_key ((\<lambda>(tag, a). entry_snapshot now (m_entries m a)) ` set (m_nodes m))"
proof (rule inj_onI, clarify)
  fix tag a tag' b
  assume in1: "(tag, a) \<in> set (m_nodes m)" and in2: "(tag', b) \<in> set (m_nodes m)"
    and "snap_key (entry_snapshot now (m_entries m a)) = snap_key (entry_snapshot now (m_entries m b))"
  then have "ni_tag (e_info (m_entries m a)) = ni_tag (e_info (m_entries m b))"
    by (simp add: snap_key_def entry_snapshot_def Let_def)
  then have "tag = tag'" using monitor_wf_entry [OF assms] in1 in2 by metis
  then have "a = b" using in1 in2 assms by (auto simp: monitor_wf_def simp flip: mget_in_set)
  then show "entry_snapshot now (m_entries m a) = entry_snapshot now (m_entries m b)" by simp
qed

lemma monitor_wf_snapshots_distinct:
  assumes "monitor_wf m"
  shows "distinct (map (\<lambda>(tag, a). entry_snapshot now (m_entries m a)) (m_nodes m))"
proof -
  let ?f = "\<lambda>(tag, a). entry_snapshot now (m_entries m a)"
  have "map (\<lambda>s. ni_tag (sn_info s)) (map ?f (m_nodes m)) = map fst (m_nodes m)"
    using monitor_wf_entry [OF assms] by (auto simp: entry_snapshot_def Let_def)
  then have "distinct (map (\<lambda>s. ni_tag (sn_info s)) (map ?f (m_nodes m)))"
    using assms by (simp only: monitor_wf_def gomap_ok_def)
  then show ?thesis unfolding distinct_map by blast
qed

lemma sorted_wrt_snap_less:
  assumes "inj_on snap_key (set ys)" and "distinct ys"
  shows "sorted_wrt snap_less ys \<longleftrightarrow> sorted (map snap_key ys)"
proof -
  have "sorted_wrt snap_less ys \<longleftrightarrow> sorted_wrt (<) (map snap_key ys)"
    unfolding sorted_wrt_map by (simp add: snap_less_key [abs_def])
  also have "\<dots> \<longleftrightarrow> sorted (map snap_key ys)"
    using assms by (simp add: strict_sorted_iff distinct_map)
  finally show ?thesis .
qed

text \<open>
  the node list of the dashboard and of the export is a function of the nodes alone. It
  holds each registered node once (of the checked, available and unbanned ones only when asked
  so), in the display order, and any sorting algorithm run over any iteration order of Go's map
  would give the same list.
\<close>

lemma snapshot_filtered_unique:
  assumes "monitor_wf m"
  shows "mset ys = mset (filter (\<lambda>s. only \<longrightarrow> sn_initial_check_done s \<and> sn_available s \<and> \<not> sn_blacklisted s)
        (map (\<lambda>(tag, a). entry_snapshot now (m_entries m a)) (m_nodes m)))
      \<and> sorted_wrt snap_less ys \<longleftrightarrow> ys = snapshot_filtered only now m"
proof -
  let ?all = "map (\<lambda>(tag, a). entry_snapshot now (m_entries m a)) (m_nodes m)"
  let ?xs = "filter (\<lambda>s. only \<longrightarrow> sn_initial_check_done s \<and> sn_available s \<and> \<not> sn_blacklisted s) ?all"
  have inj: "inj_on snap_key (set ?xs)"
    by (rule inj_on_subset [OF snap_key_inj [OF assms, of now]]) auto
  have d: "distinct ?xs" using monitor_wf_snapshots_distinct [OF assms] by simp
  have eq: "snapshot_filtered only now m = sort_key snap_key ?xs"
    unfolding snapshot_filtered_def Let_def sort_slice_key [OF snap_less_key]
    by (rule arg_cong [where f = "sort_key snap_key"], rule filter_cong) auto
  have le: "sorted_wrt snap_less zs \<longleftrightarrow> sorted (map snap_key zs)" if "mset zs = mset ?xs" for zs
    using sorted_wrt_snap_less [of zs] inj d mset_eq_setD [OF that] mset_eq_imp_distinct_iff [OF that] by metis
  show ?thesis
  proof
    assume "mset ys = mset ?xs \<and> sorted_wrt snap_less ys"
    then show "ys = snapshot_filtered only now m"
      using le [of ys] sort_key_inj_key_eq [OF _ inj, of ys] eq by auto
  next
    assume "ys = snapshot_filtered only now m"
    then have "mset ys = mset ?xs" "sorted (map snap_key ys)" by (simp_all only: eq mset_sort sorted_sort_key)
    then show "mset ys = mset ?xs \<and> sorted_wrt snap_less ys" using le by blast
  qed
qed

definition sample_info :: "string \<Rightarrow> string \<Rightarrow> node_info" where
  "sample_info tag name = \<lparr>ni_tag = tag, ni_name = name, ni_uri = [], ni_mode = ''pool'',
     ni_listen_address = [], ni_port = 0, ni_region = [], ni_country = []\<rparr>"

definition sample_monitor :: monitor where
  "sample_monitor =
     upd_entry 1 (record_success_with_latency 5000000 1)
       (snd (register_node (sample_info ''t2'' ''x'')
         (snd (register_node (sample_info ''t1'' ''x'') (new_manager ''h:81'' False 0)))))"

lemma sample_monitor_wf: "monitor_wf sample_monitor"
  unfolding sample_monitor_def
  by (intro monitor_wf_upd_entry monitor_wf_register(1) [OF _ surjective_pairing] monitor_wf_new)
    (simp add: record_success_with_latency_def append_timeline_locked_def Let_def)

lemma snapshot_filtered_unique_example:
  "map (\<lambda>s. ni_tag (sn_info s)) (snapshot_filtered False 2 sample_monitor) = [''t2'', ''t1'']"
proof -
  let ?s = "\<lambda>a. entry_snapshot 2 (m_entries sample_monitor a)"
  have nodes: "m_nodes sample_monitor = [(''t1'', 0), (''t2'', 1)]"
    by code_simp
  have info: "ni_tag (sn_info (?s 1)) = ''t2''" "ni_tag (sn_info (?s 0)) = ''t1''" "snap_less (?s 1) (?s 0)"
    by code_simp+
  have "map (\<lambda>(tag, a). ?s a) (m_nodes sample_monitor) = [?s 0, ?s 1]" by (simp only: nodes list.map prod.case)
  then have "mset [?s 1, ?s 0] = mset (filter (\<lambda>s. False \<longrightarrow> sn_initial_check_done s \<and> sn_available s
      \<and> \<not> sn_blacklisted s) (map (\<lambda>(tag, a). ?s a) (m_nodes sample_monitor)))"
    by (simp only: simp_thms filter_True) simp
  moreover have "sorted_wrt snap_less [?s 1, ?s 0]" using info(3) by simp
  ultimately have "[?s 1, ?s 0] = snapshot_filtered False 2 sample_monitor"
    by (intro snapshot_filtered_unique [OF sample_monitor_wf, THEN iffD1] conjI)
  from this [symmetric] show ?thesis by (simp only: list.map info)
qed

section \<open>The probe target\<close>

text \<open>
  of a probe target \<open>scheme://host[:port][/path]\<close> the probe dials that host and port (the
  scheme's default port when none is given), names that host to the TLS handshake, and verifies
  certificates exactly when the scheme is https and verification has not been switched off.
\<close>

lemma resolve_probe_target_parts:
  assumes "scheme = ''https://'' \<or> scheme = ''http://''"
    and "set host \<inter> {CHR ''/'', CHR '':'', CHR ''['', CHR '']''} = {}"
    and "set port \<inter> {CHR ''/'', CHR '':'', CHR ''['', CHR '']''} = {}"
    and "path = [] \<or> hd path = CHR ''/''"
  shows "resolve_probe_target (scheme @ host @ CHR '':'' # port @ path) skip
      = ((host, parse_port port), host, scheme = ''https://'' \<and> \<not> skip, True)
    \<and> resolve_probe_target (scheme @ host @ path) skip
      = ((host, if scheme = ''https://'' then 443 else 80), host, scheme = ''https://'' \<and> \<not> skip, True)"
proof -
  have trim: "has_prefix (''https://'' @ t) ''https://''" "\<not> has_prefix (''http://'' @ t) ''https://''"
    "has_prefix (''http://'' @ t) ''http://''"
    "trim_prefix (''https://'' @ t) ''https://'' = t" "trim_prefix (''http://'' @ t) ''http://'' = t" for t
    by (simp_all add: trim_prefix_def)
  have cut: "cut_before CHR ''/'' (host @ CHR '':'' # port @ path) = host @ CHR '':'' # port"
    using cut_before_append [of "CHR ''/''" "host @ CHR '':'' # port" path] assms by auto
  have cut': "cut_before CHR ''/'' (host @ path) = host"
    using cut_before_append [of "CHR ''/''" host path] assms by auto
  have split: "split_host_port (host @ CHR '':'' # port) = Some (host, port)" "split_host_port host = None"
  proof -
    show "split_host_port (host @ CHR '':'' # port) = Some (host, port)"
      by (rule split_host_port_plain) (use assms in auto)
    have "CHR '':'' \<notin> set (rev host)" using assms by auto
    then show "split_host_port host = None" by (simp add: split_host_port_def last_index_byte_def)
  qed
  have ports: "parse_port ''443'' = 443" "parse_port ''80'' = 80" by code_simp+
  show ?thesis
    using assms(1) cut cut' split ports
    by (elim disjE) (simp_all add: resolve_probe_target_def Let_def trim
        del: append.simps trim_prefix_def has_prefix.simps)
qed

lemma resolve_probe_target_parts_witness:
  "resolve_probe_target ''https://www.gstatic.com/generate_204'' False
     = ((''www.gstatic.com'', 443), ''www.gstatic.com'', True, True)"
  using resolve_probe_target_parts [of "''https://''" "''www.gstatic.com''" "''1''" "''/generate_204''" False]
  by simp

end
