(* ===== verification/NodeHealth.thy ===== *)
theory NodeHealth
  imports MonitorManager
begin

text \<open>
  The health of a node as the pools share it (\<open>internal/outbound/pool/shared_state.go\<close>): failure
  classification, the failure threshold, cooldowns, bans and their release. The first half works
  on one \<open>sharedMemberState\<close> and models the critical section of each method; the second half adds
  the process-wide registry of states, the monitor entry each state reports to, and the dialer
  registry of \<open>dialer_registry.go\<close>. One method call reads the clock once.
\<close>

section \<open>Failure classification\<close>

datatype failure_kind = FaultPermanent | FaultTransient | FaultRateLimit

text \<open>
  Matching of \<open>(^|[^0-9:.])CODE([^0-9]|$)\<close> anywhere in a message; \<open>prev\<close> is the byte before the
  current position.
\<close>

definition code_boundary :: "char option \<Rightarrow> bool" where
  "code_boundary prev = (case prev of None \<Rightarrow> True | Some c \<Rightarrow> \<not> (is_digit c \<or> c = CHR '':'' \<or> c = CHR ''.''))"

definition code_end :: "string \<Rightarrow> bool" where
  "code_end s = (case s of [] \<Rightarrow> True | c # _ \<Rightarrow> \<not> is_digit c)"

fun code_match :: "string \<Rightarrow> char option \<Rightarrow> string \<Rightarrow> bool" where
  "code_match code prev s =
     ((code_boundary prev \<and> has_prefix s code \<and> code_end (drop (length code) s))
      \<or> (case s of [] \<Rightarrow> False | c # s' \<Rightarrow> code_match code (Some c) s'))"

definition rate_limit_words :: "string list" where
  "rate_limit_words = [''too many requests'', ''rate limit'', ''ratelimit'', ''rate-limit'']"

definition transient_words :: "string list" where
  "transient_words = [''timeout'', ''deadline exceeded'', ''connection reset'', ''reset by peer'',
     ''temporarily'', ''try again'', ''service unavailable'']"

definition classify_failure :: "string option \<Rightarrow> failure_kind" where
  "classify_failure err =
     (case err of
        None \<Rightarrow> FaultPermanent
      | Some e \<Rightarrow>
          let msg = to_lower e in
          if code_match ''429'' None msg \<or> list_ex (contains msg) rate_limit_words then FaultRateLimit
          else if list_ex (contains msg) transient_words \<or> code_match ''503'' None msg then FaultTransient
          else FaultPermanent)"

section \<open>Failure policy\<close>

record failure_policy =
  fp_threshold :: int
  fp_blacklist_duration :: duration
  fp_transient_cooldown :: duration
  fp_rate_limit_cooldown :: duration

definition default_transient_cooldown :: duration where
  "default_transient_cooldown = 60 * second"

definition cooldown_for :: "failure_policy \<Rightarrow> failure_kind \<Rightarrow> duration" where
  "cooldown_for p kind =
     (let transient = (if fp_transient_cooldown p \<le> 0 then default_transient_cooldown
                       else fp_transient_cooldown p)
      in if kind = FaultRateLimit
         then (if fp_rate_limit_cooldown p > 0 then fp_rate_limit_cooldown p else transient)
         else transient)"

section \<open>One shared state\<close>

record health =
  h_failures :: int
  h_blacklisted :: bool
  h_until :: instant
  h_is_cooldown :: bool
  h_manual_until :: instant
  h_entry :: "nat option"
  h_active :: "32 word"

definition new_health :: health where
  "new_health = \<lparr>h_failures = 0, h_blacklisted = False, h_until = zero_time, h_is_cooldown = False,
     h_manual_until = zero_time, h_entry = None, h_active = 0\<rparr>"

text \<open>The result of a failure: permanent-failure count, whether the threshold was reached, the
  effective end of the ban (zero when there is none) and the kind.\<close>

type_synonym failure_result = "int \<times> bool \<times> instant \<times> failure_kind"

definition health_record_failure ::
  "string option \<Rightarrow> failure_policy \<Rightarrow> instant \<Rightarrow> health \<Rightarrow> failure_result \<times> health" where
  "health_record_failure cause policy now h =
     (let kind = classify_failure cause;
          (count, triggered, until, h1) =
            (if kind = FaultPermanent
             then let n = h_failures h + 1 in
               (if n \<ge> fp_threshold policy
                then (n, True, now + fp_blacklist_duration policy, h\<lparr>h_failures := 0\<rparr>)
                else (n, False, zero_time, h\<lparr>h_failures := n\<rparr>))
             else (h_failures h, False, now + cooldown_for policy kind, h));
          (until', h2) =
            (if until \<noteq> zero_time
             then let (u, cd) = (if h_blacklisted h1 \<and> until < h_until h1
                                 then (h_until h1, h_is_cooldown h1)
                                 else (until, kind \<noteq> FaultPermanent))
                  in (u, h1\<lparr>h_blacklisted := True, h_until := u, h_is_cooldown := cd\<rparr>)
             else (until, h1))
      in ((count, triggered, until', kind), h2))"

definition health_blacklist_now :: "failure_policy \<Rightarrow> instant \<Rightarrow> health \<Rightarrow> instant \<times> health" where
  "health_blacklist_now policy now h =
     (let until = now + fp_blacklist_duration policy;
          u = (if h_blacklisted h \<and> until < h_until h then h_until h else until)
      in (u, h\<lparr>h_blacklisted := True, h_until := u, h_is_cooldown := False, h_failures := 0\<rparr>))"

definition health_record_success :: "health \<Rightarrow> health" where
  "health_record_success h = h\<lparr>h_failures := 0\<rparr>"

text \<open>The flag returned, whether an expired ban was cleared, and the state.\<close>

definition health_is_blacklisted :: "instant \<Rightarrow> health \<Rightarrow> (bool \<times> bool) \<times> health" where
  "health_is_blacklisted now h =
     (let expired = h_blacklisted h \<and> \<not> now < h_until h;
          h' = (if expired then h\<lparr>h_blacklisted := False, h_until := zero_time,
                  h_is_cooldown := False, h_manual_until := zero_time\<rparr> else h)
      in ((h_blacklisted h', expired), h'))"

definition blacklist_remaining :: "instant \<Rightarrow> health \<Rightarrow> duration" where
  "blacklist_remaining now h =
     (if \<not> h_blacklisted h then 0
      else let remaining = h_until h - now in if remaining < 0 then 0 else remaining)"

definition health_clear :: "health \<Rightarrow> health" where
  "health_clear h = h\<lparr>h_failures := 0, h_blacklisted := False, h_until := zero_time,
     h_is_cooldown := False, h_manual_until := zero_time\<rparr>"

definition health_release_if_permanent :: "instant \<Rightarrow> health \<Rightarrow> bool \<times> health" where
  "health_release_if_permanent now h =
     (if now < h_manual_until h \<or> (h_blacklisted h \<and> h_is_cooldown h \<and> now < h_until h)
      then (False, h) else (True, health_clear h))"

definition health_manual_blacklist :: "duration \<Rightarrow> instant \<Rightarrow> health \<Rightarrow> health" where
  "health_manual_blacklist d now h =
     h\<lparr>h_blacklisted := True, h_until := now + d, h_is_cooldown := False,
       h_manual_until := now + d, h_failures := 0\<rparr>"

section \<open>The registries\<close>

record world =
  w_mon :: monitor
  w_shared :: "(string, nat) gomap"
  w_health :: "nat \<Rightarrow> health"
  w_next :: nat
  w_dialers :: "(string, nat) gomap"  \<comment> \<open>tag to pool\<close>

definition upd_health :: "nat \<Rightarrow> (health \<Rightarrow> health) \<Rightarrow> world \<Rightarrow> world" where
  "upd_health a f w = w\<lparr>w_health := (w_health w)(a := f (w_health w a))\<rparr>"

text \<open>The report of a state to its monitor entry, if one is attached.\<close>

definition notify :: "nat \<Rightarrow> (entry \<Rightarrow> entry) \<Rightarrow> world \<Rightarrow> world" where
  "notify a f w = (case h_entry (w_health w a) of
       None \<Rightarrow> w | Some e \<Rightarrow> w\<lparr>w_mon := upd_entry e f (w_mon w)\<rparr>)"

definition acquire_shared_state :: "string \<Rightarrow> world \<Rightarrow> nat \<times> world" where
  "acquire_shared_state tag w =
     (case mget (w_shared w) tag of
        Some a \<Rightarrow> (a, w)
      | None \<Rightarrow> (w_next w, w\<lparr>w_health := (w_health w)(w_next w := new_health),
                  w_shared := mput tag (w_next w) (w_shared w), w_next := Suc (w_next w)\<rparr>))"

definition lookup_shared_state :: "string \<Rightarrow> world \<Rightarrow> nat option" where
  "lookup_shared_state tag w = mget (w_shared w) tag"

definition reset_dialer_registry :: "world \<Rightarrow> world" where
  "reset_dialer_registry w = w\<lparr>w_dialers := []\<rparr>"

definition reset_shared_state_store :: "world \<Rightarrow> world" where
  "reset_shared_state_store w = reset_dialer_registry (w\<lparr>w_shared := []\<rparr>)"

definition attach_entry :: "nat \<Rightarrow> nat option \<Rightarrow> world \<Rightarrow> world" where
  "attach_entry a e w = (if e = None then w else upd_health a (\<lambda>h. h\<lparr>h_entry := e\<rparr>) w)"

definition shared_record_failure ::
  "string \<Rightarrow> failure_policy \<Rightarrow> instant \<Rightarrow> nat \<Rightarrow> world \<Rightarrow> failure_result \<times> world" where
  "shared_record_failure cause policy now a w =
     (let ((count, triggered, until, kind), h') = health_record_failure (Some cause) policy now (w_health w a)
      in ((count, triggered, until, kind),
          notify a (\<lambda>e. let e1 = record_failure cause now e
                        in if until \<noteq> zero_time then blacklist_until until e1 else e1)
            (upd_health a (\<lambda>_. h') w)))"

definition shared_blacklist_now ::
  "string option \<Rightarrow> failure_policy \<Rightarrow> instant \<Rightarrow> nat \<Rightarrow> world \<Rightarrow> instant \<times> world" where
  "shared_blacklist_now cause policy now a w =
     (let (until, h') = health_blacklist_now policy now (w_health w a)
      in (until,
          notify a (\<lambda>e. blacklist_until until (case cause of None \<Rightarrow> e | Some c \<Rightarrow> record_failure c now e))
            (upd_health a (\<lambda>_. h') w)))"

definition shared_record_success :: "instant \<Rightarrow> nat \<Rightarrow> world \<Rightarrow> world" where
  "shared_record_success now a w = notify a (record_success now) (upd_health a health_record_success w)"

definition shared_is_blacklisted :: "instant \<Rightarrow> nat \<Rightarrow> world \<Rightarrow> bool \<times> world" where
  "shared_is_blacklisted now a w =
     (let ((blacklisted, expired), h') = health_is_blacklisted now (w_health w a);
          w1 = upd_health a (\<lambda>_. h') w
      in (blacklisted, if expired then notify a clear_blacklist w1 else w1))"

definition shared_force_release :: "nat \<Rightarrow> world \<Rightarrow> world" where
  "shared_force_release a w = notify a clear_blacklist (upd_health a health_clear w)"

definition shared_release_if_permanent :: "instant \<Rightarrow> nat \<Rightarrow> world \<Rightarrow> bool \<times> world" where
  "shared_release_if_permanent now a w =
     (let (released, h') = health_release_if_permanent now (w_health w a)
      in if released then (True, notify a clear_blacklist (upd_health a (\<lambda>_. h') w)) else (False, w))"

definition shared_inc_active :: "nat \<Rightarrow> world \<Rightarrow> world" where
  "shared_inc_active a w =
     notify a entry_inc_active (upd_health a (\<lambda>h. h\<lparr>h_active := h_active h + 1\<rparr>) w)"

definition shared_dec_active :: "nat \<Rightarrow> world \<Rightarrow> world" where
  "shared_dec_active a w =
     notify a entry_dec_active (upd_health a (\<lambda>h. h\<lparr>h_active := h_active h - 1\<rparr>) w)"

definition active_count :: "nat \<Rightarrow> world \<Rightarrow> 32 word" where
  "active_count a w = h_active (w_health w a)"

definition release_shared_member :: "string \<Rightarrow> world \<Rightarrow> world" where
  "release_shared_member tag w =
     (case lookup_shared_state tag w of None \<Rightarrow> w | Some a \<Rightarrow> shared_force_release a w)"

definition blacklist_shared_member :: "string \<Rightarrow> duration \<Rightarrow> instant \<Rightarrow> world \<Rightarrow> world" where
  "blacklist_shared_member tag d now w =
     (case lookup_shared_state tag w of
        None \<Rightarrow> w | Some a \<Rightarrow> upd_health a (health_manual_blacklist d now) w)"

subsection \<open>Dialer registry\<close>

definition register_dialer :: "string \<Rightarrow> nat \<Rightarrow> world \<Rightarrow> world" where
  "register_dialer tag p w = w\<lparr>w_dialers := mput tag p (w_dialers w)\<rparr>"

definition get_dialer :: "string \<Rightarrow> world \<Rightarrow> nat option" where
  "get_dialer tag w = mget (w_dialers w) tag"

definition unregister_dialer :: "string \<Rightarrow> nat \<Rightarrow> world \<Rightarrow> world" where
  "unregister_dialer tag p w =
     (if mget (w_dialers w) tag = Some p then w\<lparr>w_dialers := mdel tag (w_dialers w)\<rparr> else w)"

subsection \<open>The operator's requests, through the monitor\<close>

datatype manager_error = NodeNotFound | ReleaseUnavailable

definition run_release :: "release_fn \<Rightarrow> world \<Rightarrow> world" where
  "run_release fn w = (case fn of
       ReleaseTag tag \<Rightarrow> release_shared_member tag w
     | ReleaseShared None \<Rightarrow> w
     | ReleaseShared (Some a) \<Rightarrow> shared_force_release a w)"

definition manager_release :: "string \<Rightarrow> world \<Rightarrow> manager_error + world" where
  "manager_release tag w =
     (case find_entry tag (w_mon w) of
        None \<Rightarrow> Inl NodeNotFound
      | Some e \<Rightarrow> (case e_release (m_entries (w_mon w) e) of
            None \<Rightarrow> Inl ReleaseUnavailable
          | Some fn \<Rightarrow> Inr (run_release fn w)))"

definition manager_manual_blacklist ::
  "string \<Rightarrow> duration \<Rightarrow> instant \<Rightarrow> world \<Rightarrow> manager_error + world" where
  "manager_manual_blacklist tag d now w =
     (case find_entry tag (w_mon w) of
        None \<Rightarrow> Inl NodeNotFound
      | Some e \<Rightarrow>
          let w1 = (case e_blacklist_fn (m_entries (w_mon w) e) of
                      None \<Rightarrow> w | Some t \<Rightarrow> blacklist_shared_member t d now w)
          in Inr (w1\<lparr>w_mon := upd_entry e (blacklist_until (now + d)) (w_mon w1)\<rparr>))"

section \<open>What the classification recognises\<close>

declare code_match.simps [simp del]

lemma code_match_Nil: "code_match code prev [] \<longleftrightarrow> (code_boundary prev \<and> code = [])"
  by (subst code_match.simps) (auto simp: has_prefix_iff code_end_def)

lemma code_match_Cons: "code_match code prev (c # s) \<longleftrightarrow>
    (\<exists>v. c # s = code @ v \<and> code_boundary prev \<and> code_end v) \<or> code_match code (Some c) s"
  by (subst code_match.simps) (auto simp: has_prefix_iff)

lemma code_match_iff:
  "code_match code prev s \<longleftrightarrow>
     (\<exists>u v. s = u @ code @ v \<and> code_boundary (if u = [] then prev else Some (last u)) \<and> code_end v)"
proof (induction s arbitrary: prev)
  case Nil
  then show ?case by (auto simp: code_match_Nil code_end_def)
next
  case (Cons c s)
  have "(\<exists>u v. c # s = u @ code @ v \<and> code_boundary (if u = [] then prev else Some (last u)) \<and> code_end v)
      \<longleftrightarrow> (\<exists>v. c # s = code @ v \<and> code_boundary prev \<and> code_end v)
        \<or> (\<exists>u v. s = u @ code @ v \<and> code_boundary (if u = [] then Some c else Some (last u)) \<and> code_end v)"
    (is "?L = (?A \<or> ?B)")
  proof
    assume ?L
    then obtain u v where uv: "c # s = u @ code @ v"
      "code_boundary (if u = [] then prev else Some (last u))" "code_end v" by blast
    show "?A \<or> ?B"
    proof (cases u)
      case Nil
      then show ?thesis using uv by auto
    next
      case (Cons c' u')
      then have "?B" using uv by (intro exI [of _ u'] exI [of _ v]) (auto split: if_splits)
      then show ?thesis ..
    qed
  next
    assume "?A \<or> ?B"
    then show ?L
    proof
      assume ?A
      then show ?L by force
    next
      assume ?B
      then obtain u v where "s = u @ code @ v" "code_boundary (if u = [] then Some c else Some (last u))"
        "code_end v" by blast
      then show ?L by (intro exI [of _ "c # u"] exI [of _ v]) auto
    qed
  qed
  then show ?case unfolding code_match_Cons Cons.IH by blast
qed

text \<open>
  a failure counts as a rate limit exactly when its lower-cased message has one of the
  rate-limit phrases or the code 429 standing alone, not preceded by a digit, a colon or a dot
  and not followed by a digit, so that the port of \<open>203.0.113.5:44290\<close> is none; this holds whatever
  timeout words the message also has. Among the rest, the transient phrases and a lone 503 are
  transient, and everything else counts towards the blacklist threshold.
\<close>

lemma classify_failure_spec:
  "classify_failure (Some e) =
     (let msg = to_lower e;
          lone = (\<lambda>code. \<exists>u v. msg = u @ code @ v
             \<and> \<not> (u \<noteq> [] \<and> (is_digit (last u) \<or> last u = CHR '':'' \<or> last u = CHR ''.''))
             \<and> \<not> (v \<noteq> [] \<and> is_digit (hd v)));
          has = (\<lambda>ws. \<exists>x u v. x \<in> set ws \<and> msg = u @ x @ v)
      in if lone ''429'' \<or> has rate_limit_words then FaultRateLimit
         else if lone ''503'' \<or> has transient_words then FaultTransient
         else FaultPermanent)"
proof -
  have lone: "code_match code None msg \<longleftrightarrow> (\<exists>u v. msg = u @ code @ v
       \<and> \<not> (u \<noteq> [] \<and> (is_digit (last u) \<or> last u = CHR '':'' \<or> last u = CHR ''.''))
       \<and> \<not> (v \<noteq> [] \<and> is_digit (hd v)))" for code msg
    unfolding code_match_iff
    by (intro ex_cong1) (auto simp: code_boundary_def code_end_def split: list.splits)
  have has: "list_ex (contains msg) ws \<longleftrightarrow> (\<exists>x u v. x \<in> set ws \<and> msg = u @ x @ v)" for msg ws
    by (auto simp: list_ex_iff contains_iff)
  show ?thesis
    unfolding classify_failure_def Let_def option.case lone has by (simp only: disj_commute)
qed

section \<open>Bans under the automatic operations\<close>

text \<open>What dials, probes and selection do to a state without any operator.\<close>

datatype auto_op =
    OnFailure string      \<comment> \<open>a dial failed\<close>
  | OnPinFailure          \<comment> \<open>a session's pinned dial failed on a permanent fault\<close>
  | OnSuccess             \<comment> \<open>a dial succeeded\<close>
  | OnRelease             \<comment> \<open>a probe passed, or every member of a pool is banned\<close>
  | OnCheck               \<comment> \<open>a selection asks whether the node is banned\<close>

primrec apply_auto :: "failure_policy \<Rightarrow> auto_op \<Rightarrow> instant \<Rightarrow> health \<Rightarrow> health" where
  "apply_auto p (OnFailure cause) now h = snd (health_record_failure (Some cause) p now h)"
| "apply_auto p OnPinFailure now h = snd (health_blacklist_now p now h)"
| "apply_auto p OnSuccess now h = health_record_success h"
| "apply_auto p OnRelease now h = snd (health_release_if_permanent now h)"
| "apply_auto p OnCheck now h = snd (health_is_blacklisted now h)"

definition run_auto :: "failure_policy \<Rightarrow> (auto_op \<times> instant) list \<Rightarrow> health \<Rightarrow> health" where
  "run_auto p ops h = fold (\<lambda>(op, now). apply_auto p op now) ops h"

text \<open>An invariant of single operations before an instant carries over to runs before it.\<close>

lemma run_auto_invariant:
  assumes "\<And>op now h. now < t \<Longrightarrow> ok op \<Longrightarrow> I h \<Longrightarrow> I (apply_auto p op now h)"
    and "\<forall>(op, now) \<in> set ops. now < t \<and> ok op" and "I h"
  shows "I (run_auto p ops h)"
  using assms(2,3) unfolding run_auto_def
  by (induction ops arbitrary: h) (auto intro: assms(1))

lemma health_record_failure_ban:
  assumes "h_blacklisted h" and "u \<le> h_until h"
  shows "let h' = snd (health_record_failure cause p now h) in
    h_blacklisted h' \<and> u \<le> h_until h' \<and> h_manual_until h' = h_manual_until h"
  using assms by (auto simp: health_record_failure_def Let_def)

definition held :: "instant \<Rightarrow> health \<Rightarrow> bool" where
  "held t h \<longleftrightarrow> h_blacklisted h \<and> t \<le> h_until h \<and> h_manual_until h = t"

lemma held_auto:
  assumes "now < t" and "held t h"
  shows "held t (apply_auto p op now h)"
proof (cases op)
  case (OnFailure cause)
  then show ?thesis using assms health_record_failure_ban [of h t "Some cause" p now]
    by (simp add: held_def Let_def)
qed (use assms in \<open>auto simp: held_def health_blacklist_now_def Let_def health_record_success_def
    health_release_if_permanent_def health_is_blacklisted_def\<close>)

text \<open>
  a ban issued by the operator is never cut short. Whatever dials fail, sessions lose their
  pins, probes pass and pools recover before its end, the node stays banned until then.
\<close>

lemma manual_ban_survives:
  assumes "\<forall>(op, now) \<in> set ops. now < t0 + d" and "t < t0 + d"
  shows "fst (health_is_blacklisted t (run_auto p ops (health_manual_blacklist d t0 h))) = (True, False)"
proof -
  have "held (t0 + d) (run_auto p ops (health_manual_blacklist d t0 h))"
  proof (rule run_auto_invariant [where ok = "\<lambda>_. True" and t = "t0 + d"])
    show "held (t0 + d) (health_manual_blacklist d t0 h)"
      by (simp add: held_def health_manual_blacklist_def)
  qed (use assms(1) held_auto in auto)
  then show ?thesis using assms(2) by (auto simp: held_def health_is_blacklisted_def Let_def)
qed

definition sample_policy :: failure_policy where
  "sample_policy = \<lparr>fp_threshold = 3, fp_blacklist_duration = 24 * hour,
     fp_transient_cooldown = 60 * second, fp_rate_limit_cooldown = hour\<rparr>"

lemma manual_ban_survives_example:
  "fst (health_is_blacklisted 90 (run_auto sample_policy [(OnPinFailure, 10), (OnRelease, 20), (OnFailure ''429'', 30)]
     (health_manual_blacklist 100 0 new_health))) = (True, False)"
  by (rule manual_ban_survives) simp_all

definition cooling :: "instant \<Rightarrow> health \<Rightarrow> bool" where
  "cooling t h \<longleftrightarrow> h_blacklisted h \<and> h_is_cooldown h \<and> t \<le> h_until h"

text \<open>The operations that say nothing permanent about the node.\<close>

definition passing :: "auto_op \<Rightarrow> bool" where
  "passing op = (case op of OnFailure cause \<Rightarrow> classify_failure (Some cause) \<noteq> FaultPermanent
     | OnPinFailure \<Rightarrow> False | _ \<Rightarrow> True)"

lemma cooling_auto:
  assumes "now < t" and "passing op" and "cooling t h"
  shows "cooling t (apply_auto p op now h)"
  using assms by (cases op)
    (auto simp: cooling_def passing_def health_record_failure_def health_record_success_def
      health_release_if_permanent_def health_is_blacklisted_def Let_def)

text \<open>
  a cooldown is served in full. After a timeout or a rate limit, passed probes, all-banned
  recoveries, successes of connections that were under way and further passing faults leave the
  node parked until the cooldown the first fault earned has run out.
\<close>

lemma cooldown_survives:
  assumes "classify_failure (Some cause) = kind" and "kind \<noteq> FaultPermanent"
    and "t0 + cooldown_for p kind \<noteq> zero_time"
    and "\<not> h_blacklisted h \<or> h_until h \<le> t0 + cooldown_for p kind"
    and "\<forall>(op, now) \<in> set ops. now < t0 + cooldown_for p kind \<and> passing op"
    and "t < t0 + cooldown_for p kind"
  shows "fst (health_is_blacklisted t
    (run_auto p ops (snd (health_record_failure (Some cause) p t0 h)))) = (True, False)"
proof -
  let ?u = "t0 + cooldown_for p kind"
  have "cooling ?u (run_auto p ops (snd (health_record_failure (Some cause) p t0 h)))"
  proof (rule run_auto_invariant [where ok = passing and t = ?u])
    show "cooling ?u (snd (health_record_failure (Some cause) p t0 h))"
      using assms(1-4) by (auto simp: cooling_def health_record_failure_def Let_def)
  qed (use assms(5) cooling_auto in auto)
  then show ?thesis using assms(6) by (auto simp: cooling_def health_is_blacklisted_def Let_def)
qed

lemma cooldown_survives_example:
  "fst (health_is_blacklisted 3000 (run_auto sample_policy [(OnRelease, 20), (OnSuccess, 30)]
     (snd (health_record_failure (Some ''HTTP 429: retry after timeout'') sample_policy 1 new_health)))) = (True, False)"
proof (rule cooldown_survives)
  show "classify_failure (Some ''HTTP 429: retry after timeout'') = FaultRateLimit" by code_simp
qed (simp_all add: sample_policy_def cooldown_for_def time_units new_health_def passing_def)

text \<open>
  what a cooldown does not survive. A ban that a session's pin failure puts over a running
  cooldown, longer than it, takes over its nature, so the next passed probe releases the node
  while the cooldown it had earned is still running.
\<close>

lemma cooldown_lost_under_pin_ban:
  assumes "cooling u h" and "h_until h = u" and "now < u" and "u \<le> now + fp_blacklist_duration p"
    and "\<not> t < h_manual_until h"
  shows "fst (health_is_blacklisted t (run_auto p [(OnPinFailure, now), (OnRelease, t)] h)) = (False, False)"
  using assms
  by (auto simp: run_auto_def cooling_def health_blacklist_now_def health_release_if_permanent_def
      health_clear_def health_is_blacklisted_def Let_def)

lemma cooldown_lost_under_pin_ban_witness:
  "fst (health_is_blacklisted 20 (run_auto sample_policy [(OnPinFailure, 10), (OnRelease, 20)]
     (snd (health_record_failure (Some ''too many requests'') sample_policy 1 new_health)))) = (False, False)"
proof (rule cooldown_lost_under_pin_ban)
  have "classify_failure (Some ''too many requests'') = FaultRateLimit" by code_simp
  then have run: "snd (health_record_failure (Some ''too many requests'') sample_policy 1 new_health)
      = new_health\<lparr>h_blacklisted := True, h_until := 1 + hour, h_is_cooldown := True\<rparr>" (is "?h = _")
    by (simp add: health_record_failure_def Let_def sample_policy_def cooldown_for_def time_units new_health_def)
  show "cooling (1 + hour) ?h" "h_until ?h = 1 + hour" "(10 :: int) < 1 + hour"
    "1 + hour \<le> 10 + fp_blacklist_duration sample_policy" "\<not> (20 :: int) < h_manual_until ?h"
    unfolding run by (simp_all add: cooling_def sample_policy_def time_units new_health_def)
qed

section \<open>The failure threshold\<close>

definition permanent :: "string \<Rightarrow> bool" where
  "permanent cause \<longleftrightarrow> classify_failure (Some cause) = FaultPermanent"

definition run_failures :: "failure_policy \<Rightarrow> (string \<times> instant) list \<Rightarrow> health \<Rightarrow> health" where
  "run_failures p fs h = fold (\<lambda>(cause, now) h. snd (health_record_failure (Some cause) p now h)) fs h"

lemma mod_next:
  fixes n t :: int
  assumes "0 < t"
  shows "n mod t + 1 = t \<longleftrightarrow> t dvd n + 1"
proof -
  have r: "0 \<le> n mod t" "n mod t < t" using assms by simp_all
  have "(n + 1) mod t = (n mod t + 1) mod t" by (simp add: mod_simps)
  also have "\<dots> = (if n mod t + 1 = t then 0 else n mod t + 1)"
    using r by (simp add: mod_pos_pos_trivial)
  finally show ?thesis using r by (simp only: dvd_eq_mod_eq_0) (simp split: if_splits)
qed

lemma record_failure_count:
  assumes "h_failures h = k" and "0 \<le> k" and "k < fp_threshold p"
  shows "h_failures (snd (health_record_failure (Some cause) p now h))
      = (k + of_bool (permanent cause)) mod fp_threshold p"
    and "fst (snd (fst (health_record_failure (Some cause) p now h)))
      \<longleftrightarrow> permanent cause \<and> k + 1 = fp_threshold p"
proof -
  have "h_failures (snd (health_record_failure (Some cause) p now h))
      = (if permanent cause then if fp_threshold p \<le> k + 1 then 0 else k + 1 else k)"
    using assms(1) by (simp add: health_record_failure_def permanent_def Let_def)
  moreover have "(k + 1) mod fp_threshold p = (if fp_threshold p \<le> k + 1 then 0 else k + 1)"
    using assms(2,3) by (cases "k + 1 = fp_threshold p") simp_all
  ultimately show "h_failures (snd (health_record_failure (Some cause) p now h))
      = (k + of_bool (permanent cause)) mod fp_threshold p"
    using assms(2,3) by simp
  show "fst (snd (fst (health_record_failure (Some cause) p now h)))
      \<longleftrightarrow> permanent cause \<and> k + 1 = fp_threshold p"
    using assms by (auto simp: health_record_failure_def permanent_def Let_def)
qed

lemma run_failures_count:
  assumes "0 < fp_threshold p" and "h_failures h = n mod fp_threshold p"
  shows "h_failures (run_failures p fs h)
    = (n + int (length (filter (\<lambda>(cause, now). permanent cause) fs))) mod fp_threshold p"
  using assms(2)
proof (induction fs arbitrary: h n)
  case Nil
  then show ?case by (simp add: run_failures_def)
next
  case (Cons f fs)
  obtain cause now where f: "f = (cause, now)" by force
  let ?h = "snd (health_record_failure (Some cause) p now h)"
  have "h_failures ?h = (n + of_bool (permanent cause)) mod fp_threshold p"
    using record_failure_count(1) [of h "n mod fp_threshold p" p cause now] Cons.prems assms(1)
    by (simp add: mod_simps)
  from Cons.IH [OF this] show ?case
    by (simp add: run_failures_def f add.assoc)
qed

text \<open>
  of the failures since the last success (or release), the ones that are permanent are
  counted and no others: timeouts and rate limits between them neither add to the count nor
  reset it, and the threshold ban falls on every \<open>T\<close>-th permanent failure exactly.
\<close>

lemma threshold_counts_permanent:
  assumes "0 < fp_threshold p"
  shows "let h' = run_failures p fs (health_record_success h);
             n = int (length (filter (\<lambda>(cause, now). permanent cause) fs))
    in h_failures h' = n mod fp_threshold p
      \<and> (fst (snd (fst (health_record_failure (Some cause) p now h')))
          \<longleftrightarrow> permanent cause \<and> fp_threshold p dvd n + 1)"
proof -
  let ?n = "int (length (filter (\<lambda>(cause, now). permanent cause) fs))"
  have count: "h_failures (run_failures p fs (health_record_success h)) = ?n mod fp_threshold p"
    using run_failures_count [OF assms, of "health_record_success h" 0 fs]
    by (simp add: health_record_success_def)
  note mod_next [OF assms, of ?n]
  moreover have "fst (snd (fst (health_record_failure (Some cause) p now (run_failures p fs (health_record_success h)))))
      \<longleftrightarrow> permanent cause \<and> ?n mod fp_threshold p + 1 = fp_threshold p"
    by (rule record_failure_count(2) [OF count]) (use assms in simp_all)
  ultimately show ?thesis unfolding Let_def using count by blast
qed

lemma threshold_counts_permanent_example:
  "h_failures (run_failures sample_policy [(''tls: bad certificate'', 1), (''i/o timeout'', 2), (''404'', 3)]
     (health_record_success new_health)) = 2"
proof -
  have "permanent ''tls: bad certificate''" "\<not> permanent ''i/o timeout''" "permanent ''404''"
    by code_simp+
  then show ?thesis
    using threshold_counts_permanent [of sample_policy
        "[(''tls: bad certificate'', 1), (''i/o timeout'', 2), (''404'', 3)]" new_health "[]" 0]
    by (simp add: sample_policy_def Let_def)
qed

section \<open>Selection sees a ban exactly until its end\<close>

definition banned :: "instant \<Rightarrow> nat \<Rightarrow> world \<Rightarrow> bool" where
  "banned now a w \<longleftrightarrow> h_blacklisted (w_health w a) \<and> now < h_until (w_health w a)"

lemma w_health_notify [simp]: "w_health (notify a f w) = w_health w"
  by (simp add: notify_def split: option.splits)

lemma w_health_upd [simp]: "w_health (upd_health a f w) b = (if b = a then f (w_health w a) else w_health w b)"
  by (simp add: upd_health_def)

lemma world_frame [simp]:
  "w_shared (notify a f w) = w_shared w" "w_next (notify a f w) = w_next w"
  "w_dialers (notify a f w) = w_dialers w" "w_shared (upd_health a g w) = w_shared w"
  "w_next (upd_health a g w) = w_next w" "w_dialers (upd_health a g w) = w_dialers w"
  "w_mon (upd_health a g w) = w_mon w"
  by (simp_all add: notify_def upd_health_def split: option.splits)

lemma shared_is_blacklisted_result: "fst (shared_is_blacklisted now a w) = banned now a w"
  by (auto simp: shared_is_blacklisted_def health_is_blacklisted_def banned_def Let_def)

lemma shared_is_blacklisted_banned: "banned now b (snd (shared_is_blacklisted now a w)) = banned now b w"
  by (auto simp: shared_is_blacklisted_def health_is_blacklisted_def banned_def Let_def)

lemma shared_is_blacklisted_frame:
  "h_active (w_health (snd (shared_is_blacklisted now a w)) b) = h_active (w_health w b)"
  "h_entry (w_health (snd (shared_is_blacklisted now a w)) b) = h_entry (w_health w b)"
  "h_failures (w_health (snd (shared_is_blacklisted now a w)) b) = h_failures (w_health w b)"
  by (auto simp: shared_is_blacklisted_def health_is_blacklisted_def Let_def)

section \<open>The dashboard shows the ban that routing applies\<close>

text \<open>The entry a state reports to carries the state's ban.\<close>

definition mirrors :: "health \<Rightarrow> entry \<Rightarrow> bool" where
  "mirrors h e \<longleftrightarrow> e_blacklist e = h_blacklisted h \<and> e_until e = h_until h
     \<and> (\<not> h_blacklisted h \<longrightarrow> h_until h = zero_time)"

definition ban_shown :: "nat \<Rightarrow> world \<Rightarrow> bool" where
  "ban_shown a w = (case h_entry (w_health w a) of
       None \<Rightarrow> True | Some e \<Rightarrow> mirrors (w_health w a) (m_entries (w_mon w) e))"

lemma record_ops_ban [simp]:
  "e_blacklist (record_failure c now e) = e_blacklist e" "e_until (record_failure c now e) = e_until e"
  "e_blacklist (record_success now e) = e_blacklist e" "e_until (record_success now e) = e_until e"
  "e_blacklist (entry_inc_active e) = e_blacklist e" "e_until (entry_inc_active e) = e_until e"
  "e_blacklist (entry_dec_active e) = e_blacklist e" "e_until (entry_dec_active e) = e_until e"
  by (simp_all add: entry_op_defs Let_def)

lemma ban_shown_notify:
  assumes "ban_shown a w" and "h_entry (g (w_health w a)) = h_entry (w_health w a)"
    and "\<And>e. mirrors (w_health w a) e \<Longrightarrow> mirrors (g (w_health w a)) (f e)"
  shows "ban_shown a (notify a f (upd_health a g w))"
  using assms by (auto simp: ban_shown_def notify_def upd_entry_def split: option.splits)

text \<open>
  after every operation of the pools on a node, failures, pin failures, successes, expiry,
  releases of either kind and connection counting, the ban the dashboard shows for it is the
  ban that routing applies, with the same end.
\<close>

lemma dashboard_tracks_bans:
  assumes "ban_shown a w"
  shows "ban_shown a (snd (shared_record_failure c p now a w))
    \<and> ban_shown a (snd (shared_blacklist_now cause p now a w))
    \<and> ban_shown a (shared_record_success now a w)
    \<and> ban_shown a (snd (shared_is_blacklisted now a w))
    \<and> ban_shown a (shared_force_release a w)
    \<and> ban_shown a (snd (shared_release_if_permanent now a w))
    \<and> ban_shown a (shared_inc_active a w) \<and> ban_shown a (shared_dec_active a w)"
proof (intro conjI)
  show "ban_shown a (snd (shared_record_failure c p now a w))"
    unfolding shared_record_failure_def Let_def case_prod_beta' snd_conv
    by (rule ban_shown_notify [OF assms])
      (auto simp: health_record_failure_def mirrors_def blacklist_until_def Let_def)
  show "ban_shown a (snd (shared_blacklist_now cause p now a w))"
    unfolding shared_blacklist_now_def Let_def case_prod_beta' snd_conv
    by (rule ban_shown_notify [OF assms])
      (auto simp: health_blacklist_now_def mirrors_def blacklist_until_def Let_def)
  show "ban_shown a (snd (shared_is_blacklisted now a w))"
  proof (cases "snd (fst (health_is_blacklisted now (w_health w a)))")
    case True
    then show ?thesis
      unfolding shared_is_blacklisted_def Let_def case_prod_beta' snd_conv if_True
      by (simp add: case_prod_beta', intro ban_shown_notify [OF assms])
        (auto simp: health_is_blacklisted_def mirrors_def clear_blacklist_def Let_def)
  next
    case False
    then have "snd (health_is_blacklisted now (w_health w a)) = w_health w a"
      by (auto simp: health_is_blacklisted_def Let_def)
    then show ?thesis using False assms
      by (simp add: shared_is_blacklisted_def Let_def case_prod_beta' ban_shown_def split: option.splits)
  qed
  show "ban_shown a (snd (shared_release_if_permanent now a w))"
  proof (cases "fst (health_release_if_permanent now (w_health w a))")
    case True
    then have "snd (shared_release_if_permanent now a w) = notify a clear_blacklist
        (upd_health a (\<lambda>_. snd (health_release_if_permanent now (w_health w a))) w)"
      by (simp add: shared_release_if_permanent_def Let_def case_prod_beta')
    then show ?thesis using True
      by (auto simp: health_release_if_permanent_def mirrors_def clear_blacklist_def health_clear_def
          intro!: ban_shown_notify [OF assms] split: if_splits)
  next
    case False
    then show ?thesis using assms by (simp add: shared_release_if_permanent_def Let_def case_prod_beta')
  qed
qed (auto simp: shared_record_success_def shared_force_release_def shared_inc_active_def
    shared_dec_active_def health_record_success_def health_clear_def mirrors_def clear_blacklist_def
    intro!: ban_shown_notify [OF assms])

definition sample_world :: world where
  "sample_world = \<lparr>w_mon = upd_entry 0 (set_release (Some (ReleaseTag ''t1'')) \<circ> set_blacklist_fn (Some ''t1'')) sample_monitor,
     w_shared = [(''t1'', 0)], w_health = (\<lambda>_. new_health\<lparr>h_entry := Some 0\<rparr>), w_next = 1, w_dialers = []\<rparr>"

lemma sample_world_shown: "ban_shown 0 sample_world"
  by code_simp

lemma dashboard_tracks_bans_example:
  "e_blacklist (m_entries (w_mon (snd (shared_blacklist_now None sample_policy 5 0 sample_world))) 0)"
proof -
  have "ban_shown 0 (snd (shared_blacklist_now None sample_policy 5 0 sample_world))"
    using dashboard_tracks_bans [OF sample_world_shown] by blast
  moreover have "h_entry (w_health (snd (shared_blacklist_now None sample_policy 5 0 sample_world)) 0) = Some 0"
    "h_blacklisted (w_health (snd (shared_blacklist_now None sample_policy 5 0 sample_world)) 0)"
    by code_simp+
  ultimately show ?thesis by (simp add: ban_shown_def mirrors_def)
qed

text \<open>
  the operator's two buttons do what they say. For a node whose monitor entry and shared
  state a pool has connected, a manual ban is in force for routing and on the dashboard until
  its end, and a release, whatever ban or cooldown is running, frees the node for routing, shows
  it free and restarts its failure count.
\<close>

lemma operator_requests_take_effect:
  assumes "find_entry tag (w_mon w) = Some e" and "mget (w_shared w) tag = Some a"
    and "h_entry (w_health w a) = Some e"
    and "e_release (m_entries (w_mon w) e) \<in> {Some (ReleaseTag tag), Some (ReleaseShared (Some a))}"
    and "e_blacklist_fn (m_entries (w_mon w) e) = Some tag"
  shows "(\<exists>w'. manager_release tag w = Inr w' \<and> (\<forall>now. \<not> banned now a w')
        \<and> \<not> sn_blacklisted (entry_snapshot now (m_entries (w_mon w') e)) \<and> h_failures (w_health w' a) = 0)
    \<and> (\<exists>w'. manager_manual_blacklist tag d t0 w = Inr w' \<and> (\<forall>now. banned now a w' = (now < t0 + d))
        \<and> e_blacklist (m_entries (w_mon w') e) \<and> e_until (m_entries (w_mon w') e) = t0 + d)"
proof
  let ?w = "shared_force_release a w"
  have "manager_release tag w = Inr ?w"
    using assms by (auto simp: manager_release_def run_release_def release_shared_member_def lookup_shared_state_def)
  moreover have "\<not> banned t a ?w" for t
    by (simp add: banned_def shared_force_release_def health_clear_def)
  moreover have "m_entries (w_mon ?w) e = clear_blacklist (m_entries (w_mon w) e)"
    using assms(3) by (simp add: shared_force_release_def notify_def upd_entry_def health_clear_def)
  then have "\<not> sn_blacklisted (entry_snapshot now (m_entries (w_mon ?w) e))"
    by (simp add: entry_snapshot_def clear_blacklist_def Let_def)
  moreover have "h_failures (w_health ?w a) = 0" by (simp add: shared_force_release_def health_clear_def)
  ultimately show "\<exists>w'. manager_release tag w = Inr w' \<and> (\<forall>now. \<not> banned now a w')
        \<and> \<not> sn_blacklisted (entry_snapshot now (m_entries (w_mon w') e)) \<and> h_failures (w_health w' a) = 0"
    by blast
  show "\<exists>w'. manager_manual_blacklist tag d t0 w = Inr w' \<and> (\<forall>now. banned now a w' = (now < t0 + d))
        \<and> e_blacklist (m_entries (w_mon w') e) \<and> e_until (m_entries (w_mon w') e) = t0 + d"
    using assms(1,2,5)
    by (simp add: manager_manual_blacklist_def blacklist_shared_member_def lookup_shared_state_def
        banned_def health_manual_blacklist_def upd_entry_def blacklist_until_def)
qed

lemma operator_requests_take_effect_witness:
  "\<exists>w'. manager_manual_blacklist ''t1'' 100 5 sample_world = Inr w' \<and> (\<forall>now. banned now 0 w' = (now < 105))"
proof -
  have "find_entry ''t1'' (w_mon sample_world) = Some 0" "mget (w_shared sample_world) ''t1'' = Some 0"
    "h_entry (w_health sample_world 0) = Some 0"
    "e_release (m_entries (w_mon sample_world) 0) = Some (ReleaseTag ''t1'')"
    "e_blacklist_fn (m_entries (w_mon sample_world) 0) = Some ''t1''"
    by code_simp+
  then show ?thesis
    using operator_requests_take_effect [of "''t1''" sample_world 0 0 0 100 5] by auto
qed

text \<open>
  closing a pool takes down its own dialer and no other: when a replacement has registered
  the same tag, lookups keep finding the replacement, and other tags are not touched.
\<close>

lemma unregister_keeps_replacement:
  "get_dialer tag (unregister_dialer tag p (register_dialer tag q w)) = (if p = q then None else Some q)
    \<and> (tag' = tag \<or> get_dialer tag' (unregister_dialer tag p w) = get_dialer tag' w)"
  by (auto simp: get_dialer_def unregister_dialer_def register_dialer_def mget_mput mget_mdel)

section \<open>The interface selection relies on\<close>

text \<open>
  A check that may update the state as it goes, but answers a question about it that no check
  changes.
\<close>

locale member_check =
  fixes check :: "nat \<Rightarrow> 'w \<Rightarrow> bool \<times> 'w"
    and out :: "nat \<Rightarrow> 'w \<Rightarrow> bool"
  assumes check_result: "fst (check a w) = out a w"
    and check_keeps: "out b (snd (check a w)) = out b w"
begin

definition scan :: "('m \<Rightarrow> nat option) \<Rightarrow> ('m \<Rightarrow> bool) \<Rightarrow> 'm list \<Rightarrow> 'w \<Rightarrow> 'm list \<times> 'w" where
  "scan addr keep ms w = fold (\<lambda>m (acc, w).
     case addr m of
       None \<Rightarrow> (if keep m then acc @ [m] else acc, w)
     | Some a \<Rightarrow> (let (b, w') = check a w
                  in if b then (acc, w') else (if keep m then acc @ [m] else acc, w'))) ms ([], w)"

definition is_out :: "('m \<Rightarrow> nat option) \<Rightarrow> 'w \<Rightarrow> 'm \<Rightarrow> bool" where
  "is_out addr w m = (case addr m of None \<Rightarrow> False | Some a \<Rightarrow> out a w)"

lemma scan_from:
  "fst (fold (\<lambda>m (acc, w).
     case addr m of
       None \<Rightarrow> (if keep m then acc @ [m] else acc, w)
     | Some a \<Rightarrow> (let (b, w') = check a w
                  in if b then (acc, w') else (if keep m then acc @ [m] else acc, w'))) ms (acc, w))
   = acc @ filter (\<lambda>m. \<not> is_out addr w m \<and> keep m) ms"
proof (induction ms arbitrary: acc w)
  case Nil
  then show ?case by simp
next
  case (Cons m ms)
  have same: "is_out addr (snd (check a w)) = is_out addr w" for a
    by (simp add: is_out_def fun_eq_iff check_keeps split: option.splits)
  show ?case
    using check_result Cons.IH same
    by (cases "addr m") (auto simp: is_out_def [of addr w m] Let_def case_prod_beta')
qed

lemma scan_filter: "fst (scan addr keep ms w) = filter (\<lambda>m. \<not> is_out addr w m \<and> keep m) ms"
  by (simp add: scan_def scan_from)

lemma scan_invariant:
  assumes "\<And>a w. I w \<Longrightarrow> I (snd (check a w))" and "I w"
  shows "I (snd (scan addr keep ms w))"
proof -
  have "I (snd (fold (\<lambda>m (acc, w).
     case addr m of
       None \<Rightarrow> (if keep m then acc @ [m] else acc, w)
     | Some a \<Rightarrow> (let (b, w') = check a w
                  in if b then (acc, w') else (if keep m then acc @ [m] else acc, w'))) ms (acc, w)))" for acc
    using assms(2)
  proof (induction ms arbitrary: acc w)
    case (Cons m ms)
    then show ?case by (cases "addr m") (simp_all add: Let_def case_prod_beta' assms(1))
  qed simp
  then show ?thesis by (simp add: scan_def)
qed

lemma scan_keeps: "out b (snd (scan addr keep ms w)) = out b w"
  by (rule scan_invariant [where I = "\<lambda>w'. out b w' = out b w"]) (simp_all add: check_keeps)

end

interpretation bans: member_check "shared_is_blacklisted now" "banned now" for now
  by unfold_locales (simp_all add: shared_is_blacklisted_result shared_is_blacklisted_banned)

end
