(* ===== verification/PoolState.thy ===== *)
theory PoolState
  imports NodeHealth
begin

text \<open>
  The pool outbound (\<open>internal/outbound/pool/pool.go\<close>), first part: options and their
  normalisation, the pool's state, registration with the monitor when it is built, and the
  initialisation of its members. The outbound manager of sing-box is a parameter: the networks
  of the outbound it knows under a tag, if it knows one.
\<close>

section \<open>Options\<close>

record member_meta =
  mm_identity :: string
  mm_name :: string
  mm_uri :: string
  mm_mode :: string
  mm_listen_address :: string
  mm_port :: "16 word"
  mm_region :: string
  mm_country :: string

definition no_meta :: member_meta where
  "no_meta = \<lparr>mm_identity = [], mm_name = [], mm_uri = [], mm_mode = [], mm_listen_address = [],
     mm_port = 0, mm_region = [], mm_country = []\<rparr>"

record pool_options =
  po_mode :: string
  po_members :: "string list"
  po_failure_threshold :: int
  po_blacklist_duration :: duration
  po_transient_cooldown :: duration
  po_rate_limit_cooldown :: duration
  po_retry_enabled :: bool
  po_blacklist_failed_pin :: "bool option"
  po_retry_attempts :: int
  po_metadata :: "(string, member_meta) gomap"
  po_sticky :: bool
  po_session_routing :: bool

definition mode_sequential :: string where "mode_sequential = ''sequential''"
definition mode_random :: string where "mode_random = ''random''"
definition mode_balance :: string where "mode_balance = ''balance''"
definition mode_latency :: string where "mode_latency = ''latency''"

lemmas mode_defs = mode_sequential_def mode_random_def mode_balance_def mode_latency_def

definition normalize_mode :: "string \<Rightarrow> string" where
  "normalize_mode mode =
     (let m = to_lower mode
      in if m = mode_random then mode_random
         else if m = mode_balance then mode_balance
         else if m = mode_latency then mode_latency
         else mode_sequential)"

definition normalize_options :: "pool_options \<Rightarrow> pool_options" where
  "normalize_options o0 =
     (let o1 = o0\<lparr>po_failure_threshold :=
            if po_failure_threshold o0 \<le> 0 then 3 else po_failure_threshold o0\<rparr>;
          o2 = o1\<lparr>po_blacklist_duration :=
            if po_blacklist_duration o1 \<le> 0 then 24 * hour else po_blacklist_duration o1\<rparr>;
          o3 = o2\<lparr>po_transient_cooldown :=
            if po_transient_cooldown o2 \<le> 0 then default_transient_cooldown else po_transient_cooldown o2\<rparr>;
          o4 = o3\<lparr>po_rate_limit_cooldown :=
            if po_rate_limit_cooldown o3 \<le> 0 then po_transient_cooldown o3 else po_rate_limit_cooldown o3\<rparr>;
          o5 = o4\<lparr>po_retry_attempts :=
            if po_retry_attempts o4 \<le> 0 then 3 else po_retry_attempts o4\<rparr>
      in o5\<lparr>po_mode := normalize_mode (po_mode o5)\<rparr>)"

definition meta_of :: "pool_options \<Rightarrow> string \<Rightarrow> member_meta" where
  "meta_of opts tag = (case mget (po_metadata opts) tag of None \<Rightarrow> no_meta | Some m \<Rightarrow> m)"

section \<open>State\<close>

record member =
  mb_tag :: string
  mb_networks :: "string list"   \<comment> \<open>\<open>outbound.Network()\<close>\<close>
  mb_entry :: "nat option"
  mb_shared :: "nat option"

record pool =
  p_id :: nat
  p_tag :: string
  p_options :: pool_options
  p_mode :: string
  p_members :: "member list"
  p_members_by_id :: "(string, member list) gomap option"
  p_rr_counter :: "32 word"
  p_monitor :: bool
  p_sticky :: bool
  p_sticky_map :: "(string, string) gomap"

definition member_identity :: "pool \<Rightarrow> member \<Rightarrow> string" where
  "member_identity p m =
     (let identity = mm_identity (meta_of (p_options p) (mb_tag m))
      in if identity \<noteq> [] then identity else mb_tag m)"

definition index_members_locked :: "pool \<Rightarrow> pool" where
  "index_members_locked p = p\<lparr>p_members_by_id := Some (foldl (\<lambda>ix m.
       let i = member_identity p m
       in mput i ((case mget ix i of None \<Rightarrow> [] | Some ms \<Rightarrow> ms) @ [m]) ix) [] (p_members p))\<rparr>"

definition failure_policy_of :: "pool \<Rightarrow> failure_policy" where
  "failure_policy_of p = \<lparr>fp_threshold = po_failure_threshold (p_options p),
     fp_blacklist_duration = po_blacklist_duration (p_options p),
     fp_transient_cooldown = po_transient_cooldown (p_options p),
     fp_rate_limit_cooldown = po_rate_limit_cooldown (p_options p)\<rparr>"

definition blacklist_failed_pin :: "pool \<Rightarrow> bool" where
  "blacklist_failed_pin p = (case po_blacklist_failed_pin (p_options p) of None \<Rightarrow> True | Some b \<Rightarrow> b)"

definition max_attempts :: "pool \<Rightarrow> int" where
  "max_attempts p =
     (if \<not> po_retry_enabled (p_options p) then 1
      else if po_retry_attempts (p_options p) < 1 then 1
      else po_retry_attempts (p_options p))"

section \<open>Registration and initialisation\<close>

definition node_info_of :: "pool_options \<Rightarrow> string \<Rightarrow> node_info" where
  "node_info_of opts tag = (let m = meta_of opts tag in
     \<lparr>ni_tag = tag, ni_name = mm_name m, ni_uri = mm_uri m, ni_mode = mm_mode m,
      ni_listen_address = mm_listen_address m, ni_port = mm_port m, ni_region = mm_region m,
      ni_country = mm_country m\<rparr>)"

definition probe_configured :: "world \<Rightarrow> bool" where
  "probe_configured w = (let (dst, host, tls, ok) = destination_for_probe (w_mon w) in ok)"

text \<open>
  What the pool does with the monitor entry of one member: attach it to the shared state and set
  the three callbacks (\<open>SetProbe\<close> only when a probe target is configured).
\<close>

definition connect_entry :: "nat \<Rightarrow> nat \<Rightarrow> release_fn \<Rightarrow> string \<Rightarrow> probe_fn \<Rightarrow> world \<Rightarrow> world" where
  "connect_entry a e release tag probe w =
     (let w1 = attach_entry a (Some e) w;
          set = (\<lambda>f w. w\<lparr>w_mon := upd_entry e f (w_mon w)\<rparr>);
          w2 = set (set_release (Some release)) w1;
          w3 = set (set_blacklist_fn (Some tag)) w2
      in if probe_configured w3 then set (set_probe (Some probe)) w3 else w3)"

definition register_member :: "nat \<Rightarrow> pool_options \<Rightarrow> string \<Rightarrow> world \<Rightarrow> world" where
  "register_member pid opts tag w =
     (let (a, w1) = acquire_shared_state tag w;
          (e, mon) = register_node (node_info_of opts tag) (w_mon w1)
      in connect_entry a e (ReleaseTag tag) tag (ProbeTag pid tag) (w1\<lparr>w_mon := mon\<rparr>))"

datatype pool_error =
    NoMembers
  | NoManager
  | MemberNotFound string
  | NoHealthyProxy
  | NilMember                               \<comment> \<open>a nil member, which the caller would dereference\<close>
  | StorePanic                              \<comment> \<open>a panic inside the session store\<close>
  | Cancelled string                        \<comment> \<open>the context's error\<close>
  | AfterAttempts pool_error int string     \<comment> \<open>error, attempts made, last dial error\<close>
  | DialFailed int string                   \<comment> \<open>attempts allowed, last dial error\<close>

definition new_pool ::
  "nat \<Rightarrow> string \<Rightarrow> bool \<Rightarrow> bool \<Rightarrow> pool_options \<Rightarrow> world \<Rightarrow> pool_error + pool \<times> world" where
  "new_pool pid tag has_manager has_monitor options w =
     (if po_members options = [] then Inl NoMembers
      else if \<not> has_manager then Inl NoManager
      else
        let opts = normalize_options options;
            p = \<lparr>p_id = pid, p_tag = tag, p_options = opts, p_mode = po_mode opts, p_members = [],
                 p_members_by_id = None, p_rr_counter = 0, p_monitor = has_monitor,
                 p_sticky = po_sticky opts, p_sticky_map = []\<rparr>;
            w1 = (if has_monitor then fold (register_member pid opts) (po_members opts) w else w)
        in Inr (p, register_dialer tag pid w1))"

definition init_member :: "pool \<Rightarrow> nat \<Rightarrow> string \<Rightarrow> string list \<Rightarrow> world \<Rightarrow> member \<times> world" where
  "init_member p i tag networks w =
     (let (a, w1) = acquire_shared_state tag w;
          m = \<lparr>mb_tag = tag, mb_networks = networks, mb_entry = h_entry (w_health w1 a), mb_shared = Some a\<rparr>
      in if p_monitor p
         then let (e, mon) = register_node (node_info_of (p_options p) tag) (w_mon w1)
              in (m\<lparr>mb_entry := Some e\<rparr>,
                  connect_entry a e (ReleaseShared (Some a)) tag (ProbeMember (p_id p) i) (w1\<lparr>w_mon := mon\<rparr>))
         else (m, w1))"

fun init_members ::
  "(string \<Rightarrow> string list option) \<Rightarrow> pool \<Rightarrow> string list \<Rightarrow> member list \<Rightarrow> world \<Rightarrow> (pool_error + member list) \<times> world" where
  "init_members outbounds p [] ms w = (Inr ms, w)"
| "init_members outbounds p (tag # tags) ms w =
     (case outbounds tag of
        None \<Rightarrow> (Inl (MemberNotFound tag), w)
      | Some networks \<Rightarrow>
          let (m, w') = init_member p (length ms) tag networks w
          in init_members outbounds p tags (ms @ [m]) w')"

definition initialize_members_locked ::
  "(string \<Rightarrow> string list option) \<Rightarrow> pool \<Rightarrow> world \<Rightarrow> (pool_error + pool) \<times> world" where
  "initialize_members_locked outbounds p w =
     (if p_members p \<noteq> [] then (Inr p, w)
      else case init_members outbounds p (po_members (p_options p)) [] w of
        (Inl e, w') \<Rightarrow> (Inl e, w')
      | (Inr ms, w') \<Rightarrow> (Inr (index_members_locked (p\<lparr>p_members := ms\<rparr>)), w'))"

definition close_pool :: "pool \<Rightarrow> world \<Rightarrow> world" where
  "close_pool p w = unregister_dialer (p_tag p) (p_id p) w"

section \<open>Normalised options\<close>

lemma normalize_mode_range: "normalize_mode m \<in> {mode_sequential, mode_random, mode_balance, mode_latency}"
  by (simp add: normalize_mode_def Let_def)

lemma normalize_mode_fixed:
  "normalize_mode mode_sequential = mode_sequential" "normalize_mode mode_random = mode_random"
  "normalize_mode mode_balance = mode_balance" "normalize_mode mode_latency = mode_latency"
  by code_simp+

lemma normalize_mode_idem [simp]: "normalize_mode (normalize_mode m) = normalize_mode m"
  using normalize_mode_range [of m] normalize_mode_fixed by auto

text \<open>
  normalised options are always usable: a threshold and a retry budget of at least one,
  positive ban and cooldowns, the rate-limit cooldown falling back to the transient one, and one
  of the four scheduling modes; options that are already in range are kept, and normalising
  twice changes nothing.
\<close>

lemma normalize_options_usable:
  "let n = normalize_options opts in
     0 < po_failure_threshold n \<and> 0 < po_blacklist_duration n \<and> 0 < po_transient_cooldown n
     \<and> 0 < po_rate_limit_cooldown n \<and> 0 < po_retry_attempts n
     \<and> po_mode n \<in> {mode_sequential, mode_random, mode_balance, mode_latency}
     \<and> po_rate_limit_cooldown n = (if po_rate_limit_cooldown opts \<le> 0 then po_transient_cooldown n
                                   else po_rate_limit_cooldown opts)
     \<and> normalize_options n = n"
proof -
  let ?n = "normalize_options opts"
  have pos: "0 < default_transient_cooldown" "0 < hour"
    by (simp_all add: default_transient_cooldown_def time_units)
  have fields: "0 < po_failure_threshold ?n" "0 < po_blacklist_duration ?n" "0 < po_transient_cooldown ?n"
    "0 < po_rate_limit_cooldown ?n" "0 < po_retry_attempts ?n"
    "po_mode ?n = normalize_mode (po_mode opts)"
    "po_rate_limit_cooldown ?n = (if po_rate_limit_cooldown opts \<le> 0 then po_transient_cooldown ?n
       else po_rate_limit_cooldown opts)"
    using pos by (simp_all add: normalize_options_def Let_def)
  then have "normalize_options ?n = ?n"
    by (simp add: normalize_options_def [of ?n] Let_def)
  with fields normalize_mode_range [of "po_mode opts"] show ?thesis by (simp add: Let_def)
qed

end
