(* ===== verification/PoolSelect.thy ===== *)
theory PoolSelect
  imports PoolState
begin

text \<open>
  Selection of a pool member (\<open>pickMemberFor\<close> and what it calls in
  \<open>internal/outbound/pool/pool.go\<close>): the available members, the recovery of a pool whose members
  are all banned, the named-session pin, stickiness and the four scheduling modes. A selection
  takes the instant it reads and the number \<open>Intn\<close> draws for it; what a lost lock between its
  critical sections lets in is not modelled: a selection runs as one step.
\<close>

section \<open>Scheduling modes\<close>

text \<open>\<open>int(p.rrCounter.Add(1)-1)\<close>: the old value of the 32-bit counter as a non-negative \<open>int\<close>.\<close>

definition next_turn :: "pool \<Rightarrow> nat \<times> pool" where
  "next_turn p = (unat (p_rr_counter p + 1 - 1), p\<lparr>p_rr_counter := p_rr_counter p + 1\<rparr>)"

definition member_active :: "world \<Rightarrow> member \<Rightarrow> int" where
  "member_active w m = (case mb_shared m of None \<Rightarrow> 0 | Some a \<Rightarrow> sint (active_count a w))"

text \<open>One pass over the candidates: the minimum so far, how many have it, and the first that had it.\<close>

definition balance_scan :: "world \<Rightarrow> member list \<Rightarrow> int \<times> nat \<times> member option" where
  "balance_scan w cs = foldl (\<lambda>(min_active, tied, selected) m.
       let active = member_active w m
       in if tied = 0 \<or> active < min_active then (active, 1, Some m)
          else if active = min_active then (min_active, Suc tied, selected)
          else (min_active, tied, selected)) (0, 0, None) cs"

fun balance_choose :: "world \<Rightarrow> int \<Rightarrow> nat \<Rightarrow> member option \<Rightarrow> member list \<Rightarrow> member option" where
  "balance_choose w min_active choice selected [] = selected"
| "balance_choose w min_active choice selected (m # ms) =
     (if member_active w m = min_active
      then if choice = 0 then Some m else balance_choose w min_active (choice - 1) selected ms
      else balance_choose w min_active choice selected ms)"

definition latency_scan :: "world \<Rightarrow> member list \<Rightarrow> (member \<times> duration) option" where
  "latency_scan w cs = foldl (\<lambda>best m.
       case mb_entry m of
         None \<Rightarrow> best
       | Some e \<Rightarrow>
           let latency = last_latency (m_entries (w_mon w) e)
           in if latency \<le> 0 then best
              else (case best of
                  None \<Rightarrow> Some (m, latency)
                | Some (m0, l0) \<Rightarrow> if latency < l0 then Some (m, latency) else best)) None cs"

definition select_round_robin :: "member list \<Rightarrow> pool \<Rightarrow> member option \<times> pool" where
  "select_round_robin cs p =
     (let (turn, p') = next_turn p in (Some (cs ! (turn mod length cs)), p'))"

definition select_by_mode :: "nat \<Rightarrow> world \<Rightarrow> member list \<Rightarrow> pool \<Rightarrow> member option \<times> pool" where
  "select_by_mode rand w cs p =
     (if p_mode p = mode_random then (Some (cs ! (rand mod length cs)), p)
      else if p_mode p = mode_balance then
        let (min_active, tied, selected) = balance_scan w cs;
            (turn, p') = next_turn p
        in (balance_choose w min_active (turn mod tied) selected cs, p')
      else if p_mode p = mode_latency then
        (case latency_scan w cs of
           Some (m, l) \<Rightarrow> (Some m, p)
         | None \<Rightarrow> select_round_robin cs p)
      else select_round_robin cs p)"

section \<open>Stickiness\<close>

definition sticky_fallback_key :: string where "sticky_fallback_key = ''_global_''"

text \<open>The source address of the connection, when the context has a valid one.\<close>

definition sticky_key_from_ctx :: "string option \<Rightarrow> pool \<Rightarrow> string" where
  "sticky_key_from_ctx source p =
     (if \<not> p_sticky p then []
      else case source of Some addr \<Rightarrow> addr | None \<Rightarrow> sticky_fallback_key)"

definition select_sticky :: "nat \<Rightarrow> world \<Rightarrow> member list \<Rightarrow> string \<Rightarrow> pool \<Rightarrow> member option \<times> pool" where
  "select_sticky rand w cs key p =
     (let pin = mget (p_sticky_map p) key;
          pinned = (case pin of None \<Rightarrow> None | Some tag \<Rightarrow> find (\<lambda>m. mb_tag m = tag) cs)
      in case pinned of
          Some m \<Rightarrow> (Some m, p)
        | None \<Rightarrow>
            let p1 = (case pin of None \<Rightarrow> p | Some tag \<Rightarrow> p\<lparr>p_sticky_map := mdel key (p_sticky_map p)\<rparr>);
                (member, p2) = select_by_mode rand w cs p1
            in case member of
                 None \<Rightarrow> (None, p2)
               | Some m \<Rightarrow> (Some m, p2\<lparr>p_sticky_map := mput key (mb_tag m) (p_sticky_map p2)\<rparr>))"

definition select_member :: "nat \<Rightarrow> world \<Rightarrow> member list \<Rightarrow> string \<Rightarrow> pool \<Rightarrow> member option \<times> pool" where
  "select_member rand w cs key p =
     (if key \<noteq> [] then select_sticky rand w cs key p else select_by_mode rand w cs p)"

section \<open>Availability\<close>

definition speaks :: "string \<Rightarrow> member \<Rightarrow> bool" where
  "speaks network m \<longleftrightarrow> network = [] \<or> network \<in> set (mb_networks m)"

definition available_members_locked :: "instant \<Rightarrow> string \<Rightarrow> pool \<Rightarrow> world \<Rightarrow> member list \<times> world" where
  "available_members_locked now network p w =
     fold (\<lambda>m (result, w).
       case mb_shared m of
         None \<Rightarrow> (if speaks network m then result @ [m] else result, w)
       | Some a \<Rightarrow>
           (let (out, w') = shared_is_blacklisted now a w
            in if out then (result, w')
               else (if speaks network m then result @ [m] else result, w'))) (p_members p) ([], w)"

fun all_blacklisted :: "instant \<Rightarrow> member list \<Rightarrow> world \<Rightarrow> bool \<times> world" where
  "all_blacklisted now [] w = (True, w)"
| "all_blacklisted now (m # ms) w =
     (case mb_shared m of
        None \<Rightarrow> (False, w)
      | Some a \<Rightarrow> let (out, w') = shared_is_blacklisted now a w
                  in if out then all_blacklisted now ms w' else (False, w'))"

definition release_members :: "instant \<Rightarrow> member list \<Rightarrow> world \<Rightarrow> nat \<times> world" where
  "release_members now ms w = fold (\<lambda>m (released, w).
     case mb_shared m of
       None \<Rightarrow> (released, w)
     | Some a \<Rightarrow> (let (ok, w') = shared_release_if_permanent now a w
                  in (if ok then Suc released else released, w'))) ms (0, w)"

definition release_if_all_blacklisted_locked :: "instant \<Rightarrow> pool \<Rightarrow> world \<Rightarrow> bool \<times> world" where
  "release_if_all_blacklisted_locked now p w =
     (if p_members p = [] then (False, w)
      else let (all_out, w1) = all_blacklisted now (p_members p) w
        in if \<not> all_out then (False, w1)
           else let (released, w2) = release_members now (p_members p) w1
             in (released \<noteq> 0, w2))"

section \<open>Picking a member\<close>

text \<open>The set of tags tried in a request; \<open>None\<close> is a nil map.\<close>

type_synonym tried = "string list option"

definition was_tried :: "tried \<Rightarrow> string \<Rightarrow> bool" where
  "was_tried tried tag = (case tried of None \<Rightarrow> False | Some ts \<Rightarrow> tag \<in> set ts)"

text \<open>The pinned fast path: the first member of the identity that is untried, speaks the network
  and is not banned.\<close>

fun first_usable :: "instant \<Rightarrow> string \<Rightarrow> tried \<Rightarrow> member list \<Rightarrow> world \<Rightarrow> member option \<times> world" where
  "first_usable now network tried [] w = (None, w)"
| "first_usable now network tried (m # ms) w =
     (if \<not> was_tried tried (mb_tag m) \<and> speaks network m
      then (case mb_shared m of
          None \<Rightarrow> (Some m, w)
        | Some a \<Rightarrow> let (out, w') = shared_is_blacklisted now a w
                    in if out then first_usable now network tried ms w' else (Some m, w'))
      else first_usable now network tried ms w)"

record pick_env =
  pe_now :: instant
  pe_rand :: nat
  pe_outbounds :: "string \<Rightarrow> string list option"

definition available_or_recovered ::
  "instant \<Rightarrow> string \<Rightarrow> pool \<Rightarrow> world \<Rightarrow> member list \<times> world" where
  "available_or_recovered now network p w =
     (let (cs, w1) = available_members_locked now network p w
      in if cs = []
         then let (released, w2) = release_if_all_blacklisted_locked now p w1
              in if released then available_members_locked now network p w2 else (cs, w2)
         else (cs, w1))"

definition pick_ready ::
  "pick_env \<Rightarrow> string \<Rightarrow> tried \<Rightarrow> string \<Rightarrow> string \<Rightarrow> pool \<Rightarrow> world \<Rightarrow> (pool_error + member) \<times> pool \<times> world" where
  "pick_ready env network tried sticky_key node_id p1 w1 =
     (let now = pe_now env;
          p2 = (if node_id \<noteq> [] \<and> p_members_by_id p1 = None then index_members_locked p1 else p1);
          (pinned, w2) = (if node_id = [] then (None, w1)
            else first_usable now network tried
              (case mget (case p_members_by_id p2 of None \<Rightarrow> [] | Some ix \<Rightarrow> ix) node_id of
                 None \<Rightarrow> [] | Some ms \<Rightarrow> ms) w1)
      in case pinned of
          Some m \<Rightarrow> (Inr m, p2, w2)
        | None \<Rightarrow>
            let (cs, w3) = available_or_recovered now network p2 w2
            in if cs = [] then (Inl NoHealthyProxy, p2, w3)
               else
                 let fresh = filter (\<lambda>m. \<not> was_tried tried (mb_tag m)) cs;
                     cs' = (if tried \<noteq> None \<and> tried \<noteq> Some [] \<and> fresh \<noteq> [] then fresh else cs)
                 in case (if node_id = [] then None
                          else find (\<lambda>m. member_identity p2 m = node_id) cs') of
                      Some m \<Rightarrow> (Inr m, p2, w3)
                    | None \<Rightarrow>
                        let (choice, p3) = select_member (pe_rand env) w3 cs' sticky_key p2
                        in (case choice of Some m \<Rightarrow> Inr m | None \<Rightarrow> Inl NilMember, p3, w3))"

definition pick_member_for ::
  "pick_env \<Rightarrow> string \<Rightarrow> tried \<Rightarrow> string \<Rightarrow> string \<Rightarrow> pool \<Rightarrow> world \<Rightarrow> (pool_error + member) \<times> pool \<times> world" where
  "pick_member_for env network tried sticky_key node_id p w =
     (case (if p_members p = [] then initialize_members_locked (pe_outbounds env) p w else (Inr p, w)) of
        (Inl e, w1) \<Rightarrow> (Inl e, p, w1)
      | (Inr p1, w1) \<Rightarrow> pick_ready env network tried sticky_key node_id p1 w1)"

definition pick_member_filtered ::
  "pick_env \<Rightarrow> string \<Rightarrow> tried \<Rightarrow> string \<Rightarrow> pool \<Rightarrow> world \<Rightarrow> (pool_error + member) \<times> pool \<times> world" where
  "pick_member_filtered env network tried sticky_key = pick_member_for env network tried sticky_key []"

definition pick_member_for_session ::
  "pick_env \<Rightarrow> string \<Rightarrow> tried \<Rightarrow> string \<Rightarrow> pool \<Rightarrow> world \<Rightarrow> (pool_error + member) \<times> pool \<times> world" where
  "pick_member_for_session env network tried node_id = pick_member_for env network tried [] node_id"

section \<open>The scheduling modes select among the candidates\<close>

lemma foldl_invariant:
  "I s \<Longrightarrow> (\<And>s x. x \<in> set xs \<Longrightarrow> I s \<Longrightarrow> I (f s x)) \<Longrightarrow> I (foldl f s xs)"
  by (induction xs arbitrary: s) auto

definition least_loaded :: "world \<Rightarrow> member list \<Rightarrow> member list" where
  "least_loaded w cs = filter (\<lambda>m. \<forall>m' \<in> set cs. member_active w m \<le> member_active w m') cs"

text \<open>The scan's three results, for candidates whose minimum is \<open>k\<close>.\<close>

lemma balance_scan_snoc:
  "balance_scan w (cs @ [m]) = (let (min_active, tied, selected) = balance_scan w cs;
       active = member_active w m
     in if tied = 0 \<or> active < min_active then (active, 1, Some m)
        else if active = min_active then (min_active, Suc tied, selected)
        else (min_active, tied, selected))"
  by (simp add: balance_scan_def Let_def split: prod.splits)

lemma balance_scan_spec:
  "cs \<noteq> [] \<Longrightarrow> \<exists>k s. balance_scan w cs = (k, length (filter (\<lambda>m. member_active w m = k) cs), s)
     \<and> (\<exists>m \<in> set cs. member_active w m = k) \<and> (\<forall>m \<in> set cs. k \<le> member_active w m)"
proof (induction cs rule: rev_induct)
  case (snoc m cs)
  show ?case
  proof (cases "cs = []")
    case True
    then show ?thesis by (simp add: balance_scan_def)
  next
    case False
    then obtain k s where ih: "balance_scan w cs = (k, length (filter (\<lambda>m. member_active w m = k) cs), s)"
      "\<exists>m \<in> set cs. member_active w m = k" "\<forall>m \<in> set cs. k \<le> member_active w m"
      using snoc.IH by blast
    have pos: "length (filter (\<lambda>m. member_active w m = k) cs) \<noteq> 0"
      using ih(2) by (auto simp: filter_empty_conv)
    consider "member_active w m < k" | "member_active w m = k" | "k < member_active w m" by linarith
    then show ?thesis
    proof cases
      case 1
      then have none: "filter (\<lambda>m'. member_active w m' = member_active w m) cs = []"
        using ih(3) by (fastforce simp: filter_empty_conv)
      show ?thesis
        using 1 ih(3) none by (simp add: balance_scan_snoc ih(1)) fastforce
    next
      case 2
      then show ?thesis using ih(2,3) pos by (simp add: balance_scan_snoc ih(1))
    next
      case 3
      then show ?thesis using ih(2,3) pos by (simp add: balance_scan_snoc ih(1))
    qed
  qed
qed simp

lemma balance_choose_nth:
  "n < length (filter (\<lambda>m. member_active w m = k) cs) \<Longrightarrow>
    balance_choose w k n s cs = Some (filter (\<lambda>m. member_active w m = k) cs ! n)"
proof (induction cs arbitrary: n)
  case (Cons m cs)
  then show ?case by (cases n) auto
qed simp

lemma balance_selection:
  assumes "cs \<noteq> []" and "p_mode p = mode_balance"
  shows "select_by_mode rand w cs p = (Some (least_loaded w cs ! (unat (p_rr_counter p) mod length (least_loaded w cs))),
      p\<lparr>p_rr_counter := p_rr_counter p + 1\<rparr>)" and "least_loaded w cs \<noteq> []"
proof -
  obtain k s where k: "balance_scan w cs = (k, length (filter (\<lambda>m. member_active w m = k) cs), s)"
    "\<exists>m \<in> set cs. member_active w m = k" "\<forall>m \<in> set cs. k \<le> member_active w m"
    using balance_scan_spec [OF assms(1)] by blast
  have ll: "least_loaded w cs = filter (\<lambda>m. member_active w m = k) cs"
    unfolding least_loaded_def by (rule filter_cong) (use k in force)+
  show ne: "least_loaded w cs \<noteq> []" using k(2) by (auto simp: ll filter_empty_conv)
  then have "unat (p_rr_counter p) mod length (least_loaded w cs) < length (least_loaded w cs)" by simp
  then show "select_by_mode rand w cs p = (Some (least_loaded w cs ! (unat (p_rr_counter p) mod length (least_loaded w cs))),
      p\<lparr>p_rr_counter := p_rr_counter p + 1\<rparr>)"
    using assms(2) balance_choose_nth [of _ w k cs s] k(1)
    by (simp add: select_by_mode_def next_turn_def mode_defs ll)
qed

definition measured :: "world \<Rightarrow> member \<Rightarrow> duration option" where
  "measured w m = (case mb_entry m of
       None \<Rightarrow> None
     | Some e \<Rightarrow> let l = last_latency (m_entries (w_mon w) e) in if l \<le> 0 then None else Some l)"

lemma latency_scan_snoc:
  "latency_scan w (cs @ [m]) = (case measured w m of
       None \<Rightarrow> latency_scan w cs
     | Some l \<Rightarrow> (case latency_scan w cs of
           None \<Rightarrow> Some (m, l)
         | Some (m0, l0) \<Rightarrow> if l < l0 then Some (m, l) else Some (m0, l0)))"
  by (auto simp: latency_scan_def measured_def Let_def split: option.splits)

lemma latency_scan_spec:
  "case latency_scan w cs of
     None \<Rightarrow> \<forall>m \<in> set cs. measured w m = None
   | Some (m, l) \<Rightarrow> m \<in> set cs \<and> measured w m = Some l \<and> (\<forall>m' \<in> set cs. \<forall>l'. measured w m' = Some l' \<longrightarrow> l \<le> l')"
proof (induction cs rule: rev_induct)
  case Nil
  then show ?case by (simp add: latency_scan_def)
next
  case (snoc m cs)
  then show ?case
    by (cases "measured w m"; cases "latency_scan w cs") (fastforce simp: latency_scan_snoc)+
qed

lemma round_robin_selection:
  "cs \<noteq> [] \<Longrightarrow> select_round_robin cs p =
    (Some (cs ! (unat (p_rr_counter p) mod length cs)), p\<lparr>p_rr_counter := p_rr_counter p + 1\<rparr>)"
  by (simp add: select_round_robin_def next_turn_def)

lemma select_by_mode_candidate:
  assumes "cs \<noteq> []"
  shows "\<exists>m p'. select_by_mode rand w cs p = (Some m, p') \<and> m \<in> set cs
    \<and> (p' = p \<or> p' = p\<lparr>p_rr_counter := p_rr_counter p + 1\<rparr>)"
proof (cases "p_mode p = mode_balance")
  case True
  have "least_loaded w cs ! (unat (p_rr_counter p) mod length (least_loaded w cs)) \<in> set (least_loaded w cs)"
    using balance_selection(2) [OF assms True, where w = w] by simp
  then show ?thesis
    using balance_selection(1) [OF assms True, where rand = rand and w = w] by (auto simp: least_loaded_def)
next
  case False
  have len: "n mod length cs < length cs" for n using assms by simp
  show ?thesis
  proof (cases "p_mode p = mode_latency")
    case True
    then show ?thesis
      using latency_scan_spec [of cs w] round_robin_selection [OF assms, of p] len False
      by (auto simp: select_by_mode_def mode_defs split: option.splits)
  next
    case nl: False
    then show ?thesis
      using round_robin_selection [OF assms, of p] len False by (auto simp: select_by_mode_def)
  qed
qed

lemma select_member_candidate:
  assumes "cs \<noteq> []"
  shows "\<exists>m p'. select_member rand w cs key p = (Some m, p') \<and> m \<in> set cs"
proof (cases "key = []")
  case True
  then show ?thesis using select_by_mode_candidate [OF assms, of rand w p] by (auto simp: select_member_def)
next
  case False
  let ?pinned = "case mget (p_sticky_map p) key of None \<Rightarrow> None | Some tag \<Rightarrow> find (\<lambda>m. mb_tag m = tag) cs"
  show ?thesis
  proof (cases ?pinned)
    case None
    let ?p1 = "case mget (p_sticky_map p) key of None \<Rightarrow> p | Some tag \<Rightarrow> p\<lparr>p_sticky_map := mdel key (p_sticky_map p)\<rparr>"
    obtain m p' where sel: "select_by_mode rand w cs ?p1 = (Some m, p')" "m \<in> set cs"
      using select_by_mode_candidate [OF assms, of rand w ?p1] by blast
    have "select_member rand w cs key p = (Some m, p'\<lparr>p_sticky_map := mput key (mb_tag m) (p_sticky_map p')\<rparr>)"
      unfolding select_member_def select_sticky_def Let_def None sel(1) using False by simp
    then show ?thesis using sel(2) by blast
  next
    case (Some m)
    then have "m \<in> set cs" by (auto simp: find_Some_iff split: option.splits)
    then show ?thesis using Some False by (simp add: select_member_def select_sticky_def Let_def)
  qed
qed

text \<open>
  each scheduling mode keeps its promise on any non-empty list of candidates. Balance picks
  among the members with the fewest connections only, taking turns between them, whatever busier
  members stand around them; latency picks a member whose measured latency no other candidate's
  undercuts, and only falls back to taking turns when none has been measured; every mode picks a
  candidate.
\<close>

lemma modes_keep_their_promise:
  assumes "cs \<noteq> []"
  shows "(p_mode p = mode_balance \<longrightarrow> fst (select_by_mode rand w cs p)
        = Some (least_loaded w cs ! (unat (p_rr_counter p) mod length (least_loaded w cs))) \<and> least_loaded w cs \<noteq> [])
    \<and> (p_mode p = mode_latency \<longrightarrow> (if \<forall>m \<in> set cs. measured w m = None
        then fst (select_by_mode rand w cs p) = Some (cs ! (unat (p_rr_counter p) mod length cs))
        else \<exists>m l. fst (select_by_mode rand w cs p) = Some m \<and> m \<in> set cs \<and> measured w m = Some l
          \<and> (\<forall>m' \<in> set cs. \<forall>l'. measured w m' = Some l' \<longrightarrow> l \<le> l')))
    \<and> (\<exists>m. fst (select_by_mode rand w cs p) = Some m \<and> m \<in> set cs)"
proof (intro conjI impI)
  show "fst (select_by_mode rand w cs p) =
      Some (least_loaded w cs ! (unat (p_rr_counter p) mod length (least_loaded w cs)))"
    "least_loaded w cs \<noteq> []" if "p_mode p = mode_balance"
    using balance_selection [OF assms that] by simp_all
  show "if \<forall>m \<in> set cs. measured w m = None
        then fst (select_by_mode rand w cs p) = Some (cs ! (unat (p_rr_counter p) mod length cs))
        else \<exists>m l. fst (select_by_mode rand w cs p) = Some m \<and> m \<in> set cs \<and> measured w m = Some l
          \<and> (\<forall>m' \<in> set cs. \<forall>l'. measured w m' = Some l' \<longrightarrow> l \<le> l')"
    if "p_mode p = mode_latency"
    using that latency_scan_spec [of cs w] round_robin_selection [OF assms, of p]
    by (cases "latency_scan w cs") (auto simp: select_by_mode_def mode_defs)
  show "\<exists>m. fst (select_by_mode rand w cs p) = Some m \<and> m \<in> set cs"
    using select_by_mode_candidate [OF assms, where rand = rand and w = w and p = p] by auto
qed

section \<open>Taking turns is fair\<close>

text \<open>A number of selections in a row from the same candidates.\<close>

fun picks :: "nat \<Rightarrow> world \<Rightarrow> member list \<Rightarrow> pool \<Rightarrow> member option list" where
  "picks 0 w cs p = []"
| "picks (Suc n) w cs p = (let (m, p') = select_by_mode 0 w cs p in m # picks n w cs p')"

lemma sequential_selection:
  "p_mode p = mode_sequential \<Longrightarrow> select_by_mode rand w cs p = select_round_robin cs p"
  by (simp add: select_by_mode_def mode_defs)

lemma picks_turns:
  "cs \<noteq> [] \<Longrightarrow> p_mode p = mode_sequential \<Longrightarrow> unat (p_rr_counter p) + n \<le> 2 ^ 32 \<Longrightarrow>
    picks n w cs p = map (\<lambda>i. Some (cs ! ((unat (p_rr_counter p) + i) mod length cs))) [0..<n]"
proof (induction n arbitrary: p)
  case (Suc n)
  have step: "unat (p_rr_counter p + 1) = Suc (unat (p_rr_counter p)) \<or> n = 0"
  proof (cases "unat (p_rr_counter p) + 1 < 2 ^ 32")
    case True
    then show ?thesis by (simp add: unat_word_ariths)
  qed (use Suc.prems in simp)
  have "picks (Suc n) w cs p = Some (cs ! (unat (p_rr_counter p) mod length cs))
      # picks n w cs (p\<lparr>p_rr_counter := p_rr_counter p + 1\<rparr>)"
    using round_robin_selection [OF Suc.prems(1)] Suc.prems(2) by (simp add: sequential_selection)
  also have "picks n w cs (p\<lparr>p_rr_counter := p_rr_counter p + 1\<rparr>)
      = map (\<lambda>i. Some (cs ! ((unat (p_rr_counter p) + Suc i) mod length cs))) [0..<n]"
    using step Suc.IH [of "p\<lparr>p_rr_counter := p_rr_counter p + 1\<rparr>"] Suc.prems by auto
  finally show ?case by (simp add: upt_conv_Cons map_Suc_upt [symmetric] comp_def del: upt_Suc map_Suc_upt)
qed simp

text \<open>
  the sequential mode is fair: over as many selections in a row as there are candidates, starting
  anywhere short of the 32-bit counter's wrap, the candidates are served once each, in their
  order from the current turn on.
\<close>

lemma round_robin_fair:
  assumes "cs \<noteq> []" and "p_mode p = mode_sequential" and "unat (p_rr_counter p) + length cs \<le> 2 ^ 32"
  shows "picks (length cs) w cs p = map Some (rotate (unat (p_rr_counter p)) cs)"
proof -
  have "rotate (unat (p_rr_counter p)) cs
      = map (\<lambda>i. cs ! ((unat (p_rr_counter p) + i) mod length cs)) [0..<length cs]"
    by (rule nth_equalityI) (simp_all add: nth_rotate)
  then show ?thesis using picks_turns [OF assms] by (simp add: comp_def)
qed

definition sample_member :: "string \<Rightarrow> nat \<Rightarrow> member" where
  "sample_member tag a = \<lparr>mb_tag = tag, mb_networks = [''tcp''], mb_entry = None, mb_shared = Some a\<rparr>"

definition sample_options :: pool_options where
  "sample_options = normalize_options \<lparr>po_mode = ''sequential'', po_members = [''t1'', ''t2''],
     po_failure_threshold = 0, po_blacklist_duration = 0, po_transient_cooldown = 0,
     po_rate_limit_cooldown = 0, po_retry_enabled = True, po_blacklist_failed_pin = None,
     po_retry_attempts = 0, po_metadata = [], po_sticky = False, po_session_routing = True\<rparr>"

definition sample_pool :: "string \<Rightarrow> pool" where
  "sample_pool mode = \<lparr>p_id = 0, p_tag = ''proxy-pool'', p_options = sample_options, p_mode = mode,
     p_members = [sample_member ''t1'' 0, sample_member ''t2'' 1], p_members_by_id = None,
     p_rr_counter = 7, p_monitor = True, p_sticky = False, p_sticky_map = []\<rparr>"

definition busy_world :: world where
  "busy_world = sample_world\<lparr>w_shared := [(''t1'', 0), (''t2'', 1)], w_next := 2,
     w_health := (\<lambda>_. new_health)(0 := new_health\<lparr>h_active := 2, h_entry := Some 0\<rparr>)\<rparr>"

lemma modes_keep_their_promise_example:
  "fst (select_by_mode 0 busy_world [sample_member ''t1'' 0, sample_member ''t2'' 1] (sample_pool mode_balance))
     = Some (sample_member ''t2'' 1)"
proof -
  have "least_loaded busy_world [sample_member ''t1'' 0, sample_member ''t2'' 1] = [sample_member ''t2'' 1]"
    by code_simp
  then show ?thesis
    using modes_keep_their_promise [of "[sample_member ''t1'' 0, sample_member ''t2'' 1]" "sample_pool mode_balance" 0 busy_world]
    by (simp add: sample_pool_def)
qed

lemma round_robin_fair_example:
  "picks 2 busy_world [sample_member ''t1'' 0, sample_member ''t2'' 1] (sample_pool mode_sequential)
     = [Some (sample_member ''t2'' 1), Some (sample_member ''t1'' 0)]"
proof -
  let ?cs = "[sample_member ''t1'' 0, sample_member ''t2'' 1]"
  have "picks (length ?cs) busy_world ?cs (sample_pool mode_sequential) = map Some (rotate 7 ?cs)"
    using round_robin_fair [of ?cs "sample_pool mode_sequential" busy_world] by (simp add: sample_pool_def del: picks.simps)
  moreover have "rotate 7 ?cs = [sample_member ''t2'' 1, sample_member ''t1'' 0]"
    by code_simp
  ultimately show ?thesis by (simp add: numeral_2_eq_2 del: picks.simps)
qed

section \<open>Stickiness\<close>

lemma select_sticky_pinned:
  assumes "mget (p_sticky_map p) key = Some tag" and "\<exists>m \<in> set cs. mb_tag m = tag"
  shows "\<exists>m. select_sticky rand w cs key p = (Some m, p) \<and> mb_tag m = tag"
proof -
  obtain m where "find (\<lambda>m. mb_tag m = tag) cs = Some m"
    using assms(2) by (cases "find (\<lambda>m. mb_tag m = tag) cs") (auto simp: find_None_iff)
  moreover from this have "mb_tag m = tag" by (auto simp: find_Some_iff)
  ultimately show ?thesis using assms(1) by (simp add: select_sticky_def Let_def)
qed

lemma select_sticky_other:
  assumes "select_sticky rand w cs key' p = (r, p')" and "key \<noteq> key'" and "cs \<noteq> []"
  shows "mget (p_sticky_map p') key = mget (p_sticky_map p) key"
proof -
  have mode: "mget (p_sticky_map (snd (select_by_mode rand w cs q))) key = mget (p_sticky_map q) key" for q
    using select_by_mode_candidate [OF assms(3), where rand = rand and w = w and p = q] by auto
  show ?thesis
    using assms(1,2) mode
    by (auto simp: select_sticky_def Let_def mget_mput mget_mdel case_prod_beta' split: option.splits)
qed

lemma select_sticky_pins:
  assumes "cs \<noteq> []"
  shows "\<exists>m p'. select_sticky rand w cs key p = (Some m, p') \<and> m \<in> set cs
    \<and> mget (p_sticky_map p') key = Some (mb_tag m)"
proof (cases "case mget (p_sticky_map p) key of None \<Rightarrow> None | Some tag \<Rightarrow> find (\<lambda>m. mb_tag m = tag) cs")
  case (Some m)
  then show ?thesis by (auto simp: select_sticky_def Let_def find_Some_iff split: option.splits)
next
  case None
  let ?p1 = "case mget (p_sticky_map p) key of None \<Rightarrow> p | Some tag \<Rightarrow> p\<lparr>p_sticky_map := mdel key (p_sticky_map p)\<rparr>"
  obtain m p' where sel: "select_by_mode rand w cs ?p1 = (Some m, p')" "m \<in> set cs"
    using select_by_mode_candidate [OF assms, of rand w ?p1] by blast
  have "select_sticky rand w cs key p = (Some m, p'\<lparr>p_sticky_map := mput key (mb_tag m) (p_sticky_map p')\<rparr>)"
    unfolding select_sticky_def Let_def None sel(1) by simp
  then show ?thesis using sel(2) by (simp add: mget_mput)
qed

text \<open>A run of sticky selections by different clients, each on the candidates of its moment.\<close>

definition sticky_run :: "(nat \<times> world \<times> member list \<times> string) list \<Rightarrow> pool \<Rightarrow> pool" where
  "sticky_run steps p = fold (\<lambda>(rand, w, cs, key) p. snd (select_sticky rand w cs key p)) steps p"

lemma sticky_run_keeps:
  assumes "mget (p_sticky_map p) key = Some tag"
    and "\<forall>(rand, w, cs, key') \<in> set steps. cs \<noteq> [] \<and> (key' = key \<longrightarrow> tag \<in> mb_tag ` set cs)"
  shows "mget (p_sticky_map (sticky_run steps p)) key = Some tag"
  using assms
proof (induction steps arbitrary: p)
  case Nil
  then show ?case by (simp add: sticky_run_def)
next
  case (Cons s steps)
  obtain rand w cs key' where s: "s = (rand, w, cs, key')" by (cases s)
  let ?p = "snd (select_sticky rand w cs key' p)"
  have "mget (p_sticky_map ?p) key = Some tag"
  proof (cases "key' = key")
    case True
    then have "\<exists>m \<in> set cs. mb_tag m = tag" using Cons.prems(2) s by auto
    from select_sticky_pinned [OF Cons.prems(1) this, of rand w] True Cons.prems(1) show ?thesis by auto
  next
    case False
    have "cs \<noteq> []" using Cons.prems(2) s by simp
    with select_sticky_other [of rand w cs key' p "fst (select_sticky rand w cs key' p)" ?p key] False
    show ?thesis using Cons.prems(1) by simp
  qed
  with Cons.IH [of ?p] Cons.prems(2) show ?case by (simp add: sticky_run_def s)
qed

text \<open>
  a client is pinned to one member: whatever other clients select in between and whatever
  the scheduling mode draws, as long as the member first chosen for a client stays among its
  candidates, every later selection for that client gives a member of the same tag.
\<close>

lemma sticky_client_keeps_member:
  assumes "cs \<noteq> []" and "select_sticky rand w cs key p = (Some m, p')"
    and "\<forall>(r, v, ds, key') \<in> set steps. ds \<noteq> [] \<and> (key' = key \<longrightarrow> mb_tag m \<in> mb_tag ` set ds)"
    and "mb_tag m \<in> mb_tag ` set ds"
  shows "\<exists>m'. fst (select_sticky rand' w' ds key (sticky_run steps p')) = Some m' \<and> mb_tag m' = mb_tag m"
proof -
  have "mget (p_sticky_map p') key = Some (mb_tag m)"
    using select_sticky_pins [OF assms(1), of rand w key p] assms(2) by auto
  from sticky_run_keeps [OF this assms(3)] have "mget (p_sticky_map (sticky_run steps p')) key = Some (mb_tag m)" .
  moreover have "\<exists>m' \<in> set ds. mb_tag m' = mb_tag m" using assms(4) by auto
  ultimately obtain m' where "select_sticky rand' w' ds key (sticky_run steps p') = (Some m', sticky_run steps p')"
    "mb_tag m' = mb_tag m" using select_sticky_pinned by blast
  then show ?thesis by simp
qed

lemma sticky_client_keeps_member_example:
  "\<exists>m'. fst (select_sticky 9 busy_world [sample_member ''t1'' 0, sample_member ''t2'' 1] ''10.0.0.1''
       (sticky_run [(5, busy_world, [sample_member ''t1'' 0], ''10.0.0.2'')]
         (snd (select_sticky 3 busy_world [sample_member ''t1'' 0, sample_member ''t2'' 1] ''10.0.0.1''
           (sample_pool mode_random))))) = Some m' \<and> mb_tag m' = ''t2''"
proof -
  have "select_sticky 3 busy_world [sample_member ''t1'' 0, sample_member ''t2'' 1] ''10.0.0.1'' (sample_pool mode_random)
    = (Some (sample_member ''t2'' 1), (sample_pool mode_random)\<lparr>p_sticky_map := [(''10.0.0.1'', ''t2'')]\<rparr>)"
    by (simp add: select_sticky_def sample_pool_def select_by_mode_def mode_defs sample_member_def
      numeral_2_eq_2 [symmetric])
  from sticky_client_keeps_member [OF _ this, of "[(5, busy_world, [sample_member ''t1'' 0], ''10.0.0.2'')]"
      "[sample_member ''t1'' 0, sample_member ''t2'' 1]" 9 busy_world] this
  show ?thesis by (simp add: sample_member_def)
qed

end
