(* ===== verification/PoolPick.thy ===== *)
theory PoolPick
  imports PoolSelect
begin

text \<open>
  What a pick returns (\<open>pickMemberFor\<close> of \<open>internal/outbound/pool/pool.go\<close>): lemmas and properties
  of availability, of the recovery of a fully banned pool and of the pick as a whole. There are
  no definitions of code in this theory.
\<close>

section \<open>Availability is a filter\<close>

definition usable :: "instant \<Rightarrow> string \<Rightarrow> world \<Rightarrow> member \<Rightarrow> bool" where
  "usable now network w m \<longleftrightarrow> \<not> bans.is_out now mb_shared w m \<and> speaks network m"

lemma usable_iff: "usable now network w m \<longleftrightarrow> (\<forall>a. mb_shared m = Some a \<longrightarrow> \<not> banned now a w) \<and> speaks network m"
  by (auto simp: usable_def bans.is_out_def split: option.splits)

lemma available_scan:
  "available_members_locked now network p w = bans.scan now mb_shared (speaks network) (p_members p) w"
  by (simp add: available_members_locked_def bans.scan_def)

lemma available_fst: "fst (available_members_locked now network p w) = filter (usable now network w) (p_members p)"
  by (simp add: available_scan bans.scan_filter usable_def [abs_def])

text \<open>A release is refused while a cooldown or an operator's ban runs.\<close>

definition refuses :: "instant \<Rightarrow> nat \<Rightarrow> world \<Rightarrow> bool" where
  "refuses now a w \<longleftrightarrow> now < h_manual_until (w_health w a)
     \<or> (h_blacklisted (w_health w a) \<and> h_is_cooldown (w_health w a) \<and> now < h_until (w_health w a))"

definition parked :: "instant \<Rightarrow> nat \<Rightarrow> world \<Rightarrow> bool" where
  "parked now a w \<longleftrightarrow> banned now a w \<and> refuses now a w"

text \<open>What checks preserve: every ban in force and its nature.\<close>

definition same_bans :: "instant \<Rightarrow> world \<Rightarrow> world \<Rightarrow> bool" where
  "same_bans now w w' \<longleftrightarrow> (\<forall>b. banned now b w' = banned now b w
     \<and> (banned now b w \<longrightarrow> w_health w' b = w_health w b))"

lemma same_bans_refl [simp]: "same_bans now w w"
  by (simp add: same_bans_def)

lemma same_bans_trans: "same_bans now w w' \<Longrightarrow> same_bans now w' w'' \<Longrightarrow> same_bans now w w''"
  by (simp add: same_bans_def)

lemma same_bans_check: "same_bans now w (snd (shared_is_blacklisted now a w))"
  by (auto simp: same_bans_def shared_is_blacklisted_def health_is_blacklisted_def banned_def Let_def)

lemma same_bans_available: "same_bans now w (snd (available_members_locked now network p w))"
  unfolding available_scan
  by (rule bans.scan_invariant) (auto intro: same_bans_trans same_bans_check)

lemma same_bans_usable: "same_bans now w w' \<Longrightarrow> usable now network w' = usable now network w"
  by (simp add: usable_iff same_bans_def fun_eq_iff)

lemma same_bans_parked: "same_bans now w w' \<Longrightarrow> parked now a w' = parked now a w"
  by (auto simp: parked_def same_bans_def refuses_def)

lemma same_bans_refuses: "same_bans now w w' \<Longrightarrow> banned now a w \<Longrightarrow> refuses now a w' = refuses now a w"
  by (simp add: same_bans_def refuses_def)

lemma all_blacklisted_spec:
  "fst (all_blacklisted now ms w) \<longleftrightarrow> (\<forall>m \<in> set ms. \<exists>a. mb_shared m = Some a \<and> banned now a w)"
  "same_bans now w (snd (all_blacklisted now ms w))"
proof (induction ms arbitrary: w)
  case (Cons m ms)
  note s = same_bans_check [of now]
  { case 1
    then show ?case
      using Cons.IH(1)
      by (cases "mb_shared m")
        (auto simp: Let_def case_prod_beta' shared_is_blacklisted_result shared_is_blacklisted_banned)
  next
    case 2
    then show ?case
      by (cases "mb_shared m") (auto simp: Let_def case_prod_beta' intro: same_bans_trans [OF s Cons.IH(2)] s)
  }
qed simp_all

definition addresses :: "member list \<Rightarrow> nat set" where
  "addresses ms = {a. \<exists>m \<in> set ms. mb_shared m = Some a}"

lemma release_if_permanent_spec:
  "fst (shared_release_if_permanent now a w) \<longleftrightarrow> \<not> refuses now a w"
  "w_health (snd (shared_release_if_permanent now a w)) b
    = (if b = a \<and> \<not> refuses now a w then health_clear (w_health w a) else w_health w b)"
  by (auto simp: shared_release_if_permanent_def health_release_if_permanent_def refuses_def Let_def)

lemma health_clear_idem [simp]: "health_clear (health_clear h) = health_clear h"
  by (simp add: health_clear_def)

definition release_run :: "instant \<Rightarrow> member list \<Rightarrow> nat \<Rightarrow> world \<Rightarrow> nat \<times> world" where
  "release_run now ms n w = fold (\<lambda>m (released, w).
     case mb_shared m of
       None \<Rightarrow> (released, w)
     | Some a \<Rightarrow> (let (ok, w') = shared_release_if_permanent now a w
                  in (if ok then Suc released else released, w'))) ms (n, w)"

lemma release_members_from:
  shows "w_health (snd (release_run now ms n w)) b
      = (if b \<in> addresses ms \<and> \<not> refuses now b w then health_clear (w_health w b) else w_health w b)"
    and "n \<le> fst (release_run now ms n w)" and "fst (release_run now ms n w) = n \<longleftrightarrow> (\<forall>b \<in> addresses ms. refuses now b w)"
proof (induction ms arbitrary: n w)
  case Nil
  { case 1 show ?case by (simp add: release_run_def addresses_def)
  next case 2 show ?case by (simp add: release_run_def)
  next case 3 show ?case by (simp add: release_run_def addresses_def) }
next
  case (Cons m ms)
  have none: "release_run now (m # ms) n w = release_run now ms n w" "addresses (m # ms) = addresses ms"
    if "mb_shared m = None" for n w
    using that by (auto simp: release_run_def addresses_def)
  have some: "release_run now (m # ms) n w = release_run now ms (if refuses now a w then n else Suc n)
      (snd (shared_release_if_permanent now a w))"
    "addresses (m # ms) = insert a (addresses ms)" if "mb_shared m = Some a" for a n w
    using that release_if_permanent_spec(1) [of now a w]
    by (auto simp: release_run_def addresses_def Let_def case_prod_beta')
  have ref: "refuses now b (snd (shared_release_if_permanent now a w)) = refuses now b w"
    if "refuses now a w \<or> b \<noteq> a" for a b w
  proof -
    have "w_health (snd (shared_release_if_permanent now a w)) b = w_health w b" using that by (auto simp: release_if_permanent_spec(2))
    then show ?thesis by (simp add: refuses_def)
  qed
  { case 1
    let ?w' = "\<lambda>a. snd (shared_release_if_permanent now a w)"
    show ?case
    proof (cases "mb_shared m")
      case None
      then show ?thesis by (simp add: none Cons.IH(1))
    next
      case (Some a)
      have ih: "w_health (snd (release_run now ms (if refuses now a w then n else Suc n) (?w' a))) b
          = (if b \<in> addresses ms \<and> \<not> refuses now b (?w' a) then health_clear (w_health (?w' a) b) else w_health (?w' a) b)"
        by (rule Cons.IH(1))
      show ?thesis
        unfolding some [OF Some] ih release_if_permanent_spec(2)
        using ref [of a w b] by (cases "b = a") auto
    qed
  next
    case 2
    let ?w' = "\<lambda>a. snd (shared_release_if_permanent now a w)"
    show ?case
    proof (cases "mb_shared m")
      case None
      then show ?thesis by (simp add: none Cons.IH(2))
    next
      case (Some a)
      show ?thesis unfolding some [OF Some] using Cons.IH(2) [of "Suc n" "?w' a"] Cons.IH(2) [of n "?w' a"] by auto
    qed
  next
    case 3
    let ?w' = "\<lambda>a. snd (shared_release_if_permanent now a w)"
    show ?case
    proof (cases "mb_shared m")
      case None
      then show ?thesis by (simp add: none Cons.IH(3))
    next
      case (Some a)
      show ?thesis
      proof (cases "refuses now a w")
        case True
        then have "refuses now b (?w' a) = refuses now b w" for b by (rule ref [OF disjI1])
        then show ?thesis unfolding some [OF Some] using Cons.IH(3) [of n "?w' a"] True by simp
      next
        case False
        then show ?thesis unfolding some [OF Some] using Cons.IH(2) [of "Suc n" "?w' a"] by auto
      qed
    qed
  }
qed

lemma release_members_spec:
  "w_health (snd (release_members now ms w)) b
    = (if b \<in> addresses ms \<and> \<not> refuses now b w then health_clear (w_health w b) else w_health w b)"
  "fst (release_members now ms w) = 0 \<longleftrightarrow> (\<forall>b \<in> addresses ms. refuses now b w)"
  using release_members_from(1,3) [of now ms 0 w] unfolding release_members_def release_run_def by blast+

section \<open>Recovery of a fully banned pool\<close>

definition all_out :: "instant \<Rightarrow> pool \<Rightarrow> world \<Rightarrow> bool" where
  "all_out now p w \<longleftrightarrow> (\<forall>m \<in> set (p_members p). \<exists>a. mb_shared m = Some a \<and> banned now a w)"

text \<open>The members a recovery makes available.\<close>

definition recoverable :: "instant \<Rightarrow> string \<Rightarrow> world \<Rightarrow> member \<Rightarrow> bool" where
  "recoverable now network w m \<longleftrightarrow> speaks network m \<and> (\<forall>a. mb_shared m = Some a \<longrightarrow> \<not> refuses now a w)"

lemma addresses_members: "all_out now p w \<Longrightarrow> a \<in> addresses (p_members p) \<Longrightarrow> banned now a w"
  by (auto simp: all_out_def addresses_def)

lemma recovery_spec:
  assumes "p_members p \<noteq> []"
  shows "fst (release_if_all_blacklisted_locked now p w)
      \<longleftrightarrow> all_out now p w \<and> (\<exists>a \<in> addresses (p_members p). \<not> refuses now a w)"
    and "\<not> all_out now p w \<Longrightarrow> same_bans now w (snd (release_if_all_blacklisted_locked now p w))"
    and "all_out now p w \<Longrightarrow> a \<in> addresses (p_members p) \<Longrightarrow>
      banned now a (snd (release_if_all_blacklisted_locked now p w)) = refuses now a w"
    and "banned now a w \<Longrightarrow> refuses now a w \<Longrightarrow>
      w_health (snd (release_if_all_blacklisted_locked now p w)) a = w_health w a"
proof -
  let ?ms = "p_members p"
  let ?w1 = "snd (all_blacklisted now ?ms w)"
  have all: "fst (all_blacklisted now ?ms w) = all_out now p w" and same: "same_bans now w ?w1"
    using all_blacklisted_spec [where now = now and ms = ?ms and w = w] by (simp_all add: all_out_def)
  have run: "release_if_all_blacklisted_locked now p w =
      (if all_out now p w then (fst (release_members now ?ms ?w1) \<noteq> 0, snd (release_members now ?ms ?w1))
       else (False, ?w1))"
    using assms all by (simp add: release_if_all_blacklisted_locked_def Let_def case_prod_beta')
  have ref: "refuses now b ?w1 = refuses now b w" "w_health ?w1 b = w_health w b" if "banned now b w" for b
    using same that by (auto simp: same_bans_def refuses_def)
  show "fst (release_if_all_blacklisted_locked now p w)
      \<longleftrightarrow> all_out now p w \<and> (\<exists>a \<in> addresses ?ms. \<not> refuses now a w)"
    using ref(1) addresses_members unfolding run by (auto simp: release_members_spec(2))
  show "\<not> all_out now p w \<Longrightarrow> same_bans now w (snd (release_if_all_blacklisted_locked now p w))"
    using same run by simp
  show "banned now a (snd (release_if_all_blacklisted_locked now p w)) = refuses now a w"
    if out: "all_out now p w" and a: "a \<in> addresses ?ms"
  proof -
    note b = addresses_members [OF out a]
    show ?thesis
      using b ref [OF b] a out
      by (simp add: run banned_def release_members_spec(1) health_clear_def)
  qed
  show "w_health (snd (release_if_all_blacklisted_locked now p w)) a = w_health w a"
    if "banned now a w" "refuses now a w"
    using ref [OF that(1)] that(2) by (simp add: run release_members_spec(1))
qed

lemma available_or_recovered_spec:
  assumes "p_members p \<noteq> []"
  shows "fst (available_or_recovered now network p w) =
      (if \<exists>m \<in> set (p_members p). usable now network w m then filter (usable now network w) (p_members p)
       else if all_out now p w then filter (recoverable now network w) (p_members p) else [])"
    and "\<exists>m \<in> set (p_members p). usable now network w m \<Longrightarrow>
      same_bans now w (snd (available_or_recovered now network p w))"
    and "m \<in> set (fst (available_or_recovered now network p w)) \<Longrightarrow>
      usable now network (snd (available_or_recovered now network p w)) m"
    and "banned now a w \<Longrightarrow> refuses now a w \<Longrightarrow> banned now a (snd (available_or_recovered now network p w))"
proof -
  let ?ms = "p_members p" and ?r = "available_or_recovered now network p w"
  let ?w1 = "snd (available_members_locked now network p w)"
  let ?w2 = "snd (release_if_all_blacklisted_locked now p ?w1)"
  have same1: "same_bans now w ?w1" by (rule same_bans_available)
  have ao: "all_out now p ?w1 = all_out now p w" using same1 by (simp add: all_out_def same_bans_def)
  have ref: "refuses now a ?w1 = refuses now a w" if "banned now a w" for a
    using same_bans_refuses [OF same1 that] .
  note rec = recovery_spec [OF assms, where now = now and w = ?w1, unfolded ao]
  show "fst ?r = (if \<exists>m \<in> set ?ms. usable now network w m then filter (usable now network w) ?ms
       else if all_out now p w then filter (recoverable now network w) ?ms else [])" (is ?T1)
    and "\<exists>m \<in> set ?ms. usable now network w m \<Longrightarrow> same_bans now w (snd ?r)" (is "_ \<Longrightarrow> ?T2")
    and "m \<in> set (fst ?r) \<Longrightarrow> usable now network (snd ?r) m" (is "_ \<Longrightarrow> ?T3")
    and "banned now a w \<Longrightarrow> refuses now a w \<Longrightarrow> banned now a (snd ?r)" (is "_ \<Longrightarrow> _ \<Longrightarrow> ?T4")
  proof -
    consider (direct) "\<exists>m \<in> set ?ms. usable now network w m"
      | (released) "\<not> (\<exists>m \<in> set ?ms. usable now network w m)" "fst (release_if_all_blacklisted_locked now p ?w1)"
      | (stuck) "\<not> (\<exists>m \<in> set ?ms. usable now network w m)" "\<not> fst (release_if_all_blacklisted_locked now p ?w1)"
      by blast
    then have "?T1 \<and> ((\<exists>m \<in> set ?ms. usable now network w m) \<longrightarrow> ?T2) \<and> (m \<in> set (fst ?r) \<longrightarrow> ?T3)
      \<and> (banned now a w \<longrightarrow> refuses now a w \<longrightarrow> ?T4)"
    proof cases
      case direct
      then have "filter (usable now network w) ?ms \<noteq> []" by (simp add: filter_empty_conv)
      then have r: "?r = (filter (usable now network w) ?ms, ?w1)"
        using available_fst [of now network p w]
        by (simp add: available_or_recovered_def Let_def case_prod_beta' prod_eq_iff)
      show ?thesis using r direct same1 same_bans_usable [OF same1] by (auto simp: same_bans_def)
    next
      case released
      then have "filter (usable now network w) ?ms = []" by (simp add: filter_empty_conv)
      then have r: "?r = available_members_locked now network p ?w2"
        using available_fst [of now network p w] released(2)
        by (simp add: available_or_recovered_def Let_def case_prod_beta')
      have out: "all_out now p w" using rec(1) released(2) by blast
      have u: "usable now network ?w2 m = recoverable now network w m" if "m \<in> set ?ms" for m
      proof -
        have "a \<in> addresses ?ms" if "mb_shared m = Some a" for a
          using that \<open>m \<in> set ?ms\<close> by (auto simp: addresses_def)
        then show ?thesis
          using rec(3) [OF out] ref addresses_members [OF out] by (auto simp: usable_iff recoverable_def)
      qed
      have "same_bans now ?w2 (snd ?r)" unfolding r by (rule same_bans_available)
      moreover have "banned now a ?w2" if "banned now a w" "refuses now a w"
      proof -
        have "w_health ?w2 a = w_health ?w1 a" "w_health ?w1 a = w_health w a"
          using rec(4) [of a] ref [OF that(1)] that same1 by (simp_all add: same_bans_def)
        then show ?thesis using that by (simp add: banned_def)
      qed
      ultimately show ?thesis
        using released(1) out u r same_bans_usable [of now ?w2 "snd ?r" network]
        by (auto simp: available_fst same_bans_def intro: filter_cong)
    next
      case stuck
      then have "filter (usable now network w) ?ms = []" by (simp add: filter_empty_conv)
      then have r: "?r = ([], ?w2)"
        using available_fst [of now network p w] stuck(2)
        by (simp add: available_or_recovered_def Let_def case_prod_beta')
      have "\<not> recoverable now network w m" if "all_out now p w" "m \<in> set ?ms" for m
      proof -
        obtain a where a: "mb_shared m = Some a" "banned now a w" using \<open>all_out now p w\<close> \<open>m \<in> set ?ms\<close> by (auto simp: all_out_def)
        then have "a \<in> addresses ?ms" using \<open>m \<in> set ?ms\<close> by (auto simp: addresses_def)
        then have "refuses now a ?w1" using rec(1) stuck(2) \<open>all_out now p w\<close> by blast
        then show ?thesis using ref [OF a(2)] a(1) by (auto simp: recoverable_def)
      qed
      moreover have "banned now a ?w2" if "banned now a w" "refuses now a w"
      proof -
        have "w_health ?w2 a = w_health ?w1 a" "w_health ?w1 a = w_health w a"
          using rec(4) [of a] ref [OF that(1)] that same1 by (simp_all add: same_bans_def)
        then show ?thesis using that by (simp add: banned_def)
      qed
      ultimately show ?thesis using stuck(1) r by (auto simp: filter_empty_conv)
    qed
    then show ?T1 "\<exists>m \<in> set ?ms. usable now network w m \<Longrightarrow> ?T2" "m \<in> set (fst ?r) \<Longrightarrow> ?T3"
      "banned now a w \<Longrightarrow> refuses now a w \<Longrightarrow> ?T4" by blast+
  qed
qed

section \<open>The identity index\<close>

definition indexed :: "(string, member list) gomap \<Rightarrow> string \<Rightarrow> member list" where
  "indexed ix i = (case mget ix i of None \<Rightarrow> [] | Some ms \<Rightarrow> ms)"

definition index_ok :: "pool \<Rightarrow> bool" where
  "index_ok p \<longleftrightarrow> (\<forall>ix. p_members_by_id p = Some ix \<longrightarrow>
     (\<forall>i. indexed ix i = filter (\<lambda>m. member_identity p m = i) (p_members p)))"

lemma index_members_fields [simp]:
  "p_members (index_members_locked p) = p_members p" "p_options (index_members_locked p) = p_options p"
  "p_mode (index_members_locked p) = p_mode p" "p_rr_counter (index_members_locked p) = p_rr_counter p"
  "p_sticky_map (index_members_locked p) = p_sticky_map p" "p_sticky (index_members_locked p) = p_sticky p"
  by (simp_all add: index_members_locked_def)

lemma member_identity_index [simp]: "member_identity (index_members_locked p) = member_identity p"
  by (simp add: member_identity_def fun_eq_iff)

lemma index_fold:
  "indexed (foldl (\<lambda>ix m. let i = f m in mput i ((case mget ix i of None \<Rightarrow> [] | Some ms \<Rightarrow> ms) @ [m]) ix) ix ms) i
     = indexed ix i @ filter (\<lambda>m. f m = i) ms"
proof (induction ms arbitrary: ix)
  case (Cons m ms)
  then show ?case by (simp add: Let_def indexed_def mget_mput)
qed simp

lemma index_members_ok: "index_ok (index_members_locked p)"
  by (simp add: index_ok_def) (simp add: index_members_locked_def index_fold, simp add: indexed_def)

section \<open>The pick as a whole\<close>

lemma find_SomeD: "find P xs = Some x \<Longrightarrow> x \<in> set xs \<and> P x"
  by (metis find_Some_iff nth_mem)

lemma first_usable_spec:
  "fst (first_usable now network tried ms w)
     = find (\<lambda>m. \<not> was_tried tried (mb_tag m) \<and> usable now network w m) ms"
  "same_bans now w (snd (first_usable now network tried ms w))"
proof (induction ms arbitrary: w)
  case (Cons m ms)
  note s = same_bans_check [of now]
  have u: "usable now network (snd (shared_is_blacklisted now a v)) = usable now network v" for a v
    by (rule same_bans_usable [OF s])
  { case 1
    show ?case
      using shared_is_blacklisted_result [of now]
      by (cases "mb_shared m") (auto simp: usable_iff [of now network _ m] Let_def case_prod_beta' Cons.IH(1) u)
  next
    case 2
    show ?case
      by (cases "mb_shared m")
        (auto simp: Let_def case_prod_beta' Cons.IH(2) intro: same_bans_trans [OF s Cons.IH(2)] s)
  }
qed simp_all

text \<open>The candidates of a pick: the usable members, or what a recovery frees.\<close>

definition candidates :: "instant \<Rightarrow> string \<Rightarrow> pool \<Rightarrow> world \<Rightarrow> member list" where
  "candidates now network p w =
     (if \<exists>m \<in> set (p_members p). usable now network w m then filter (usable now network w) (p_members p)
      else if all_out now p w then filter (recoverable now network w) (p_members p) else [])"

lemma candidates_same_bans:
  assumes "same_bans now w w'"
  shows "candidates now network p w' = candidates now network p w"
proof -
  have out: "all_out now p w' = all_out now p w" using assms by (simp add: all_out_def same_bans_def)
  have "recoverable now network w' m = recoverable now network w m"
    if ao: "all_out now p w" "m \<in> set (p_members p)" for m
  proof -
    obtain a where "mb_shared m = Some a" "banned now a w" using ao by (auto simp: all_out_def)
    then show ?thesis using same_bans_refuses [OF assms] by (simp add: recoverable_def)
  qed
  then show ?thesis
    by (auto simp: candidates_def same_bans_usable [OF assms] out intro: filter_cong)
qed

lemma pick_ready_cases:
  assumes ready: "p_members p \<noteq> []" "index_ok p"
    and pick: "pick_ready env network tried sk nid p w = (r, p', w')"
  obtains (pinned) m where "r = Inr m" "nid \<noteq> []"
      "find (\<lambda>m. \<not> was_tried tried (mb_tag m) \<and> usable (pe_now env) network w m)
        (filter (\<lambda>m. member_identity p m = nid) (p_members p)) = Some m"
      "same_bans (pe_now env) w w'"
    | (none) "r = Inl NoHealthyProxy" "candidates (pe_now env) network p w = []"
    | (chosen) m where "r = Inr m" "m \<in> set (candidates (pe_now env) network p w)"
      "(\<exists>m' \<in> set (candidates (pe_now env) network p w). \<not> was_tried tried (mb_tag m')) \<longrightarrow> \<not> was_tried tried (mb_tag m)"
      "usable (pe_now env) network w' m"
      "\<And>a. banned (pe_now env) a w \<Longrightarrow> refuses (pe_now env) a w \<Longrightarrow> banned (pe_now env) a w'"
      "nid \<noteq> [] \<longrightarrow> \<not> (\<exists>m' \<in> set (p_members p). member_identity p m' = nid
         \<and> \<not> was_tried tried (mb_tag m') \<and> usable (pe_now env) network w m')"
proof -
  let ?now = "pe_now env"
  let ?p2 = "if nid \<noteq> [] \<and> p_members_by_id p = None then index_members_locked p else p"
  let ?fu = "if nid = [] then (None, w) else first_usable ?now network tried
      (indexed (case p_members_by_id ?p2 of None \<Rightarrow> [] | Some ix \<Rightarrow> ix) nid) w"
  let ?ar = "available_or_recovered ?now network ?p2 (snd ?fu)"
  have p2: "p_members ?p2 = p_members p" "member_identity ?p2 = member_identity p" by simp_all
  have ix: "indexed (case p_members_by_id ?p2 of None \<Rightarrow> [] | Some ix \<Rightarrow> ix) nid
      = filter (\<lambda>m. member_identity p m = nid) (p_members p)" if "nid \<noteq> []"
  proof (cases "p_members_by_id p")
    case None
    obtain ix where ix: "p_members_by_id (index_members_locked p) = Some ix"
      by (simp add: index_members_locked_def)
    then have "indexed ix nid = filter (\<lambda>m. member_identity p m = nid) (p_members p)"
      using index_members_ok [of p] by (simp add: index_ok_def)
    then show ?thesis using None that ix by simp
  next
    case (Some ix)
    then show ?thesis using ready(2) by (simp add: index_ok_def)
  qed
  have fu: "fst ?fu = (if nid = [] then None else find (\<lambda>m. \<not> was_tried tried (mb_tag m) \<and> usable ?now network w m)
      (filter (\<lambda>m. member_identity p m = nid) (p_members p)))" and same: "same_bans ?now w (snd ?fu)"
    using first_usable_spec [where now = ?now and network = network and tried = tried] ix by simp_all
  have all: "all_out ?now ?p2 v = all_out ?now p v" for v by (simp add: all_out_def)
  have ready2: "p_members ?p2 \<noteq> []" using ready(1) by simp
  note ar = available_or_recovered_spec [OF ready2, where now = ?now and network = network and w = "snd ?fu"]
  have "fst ?ar = candidates ?now network p (snd ?fu)" unfolding ar(1) candidates_def p2 all ..
  then have cs: "fst ?ar = candidates ?now network p w" by (simp only: candidates_same_bans [OF same])
  show thesis
  proof (cases "fst ?fu")
    case (Some m)
    then have ne: "nid \<noteq> []" using fu by (auto split: if_splits)
    have "(r, p', w') = (Inr m, ?p2, snd ?fu)"
      using pick Some unfolding pick_ready_def Let_def indexed_def [symmetric]
      by (simp only: case_prod_beta' option.case fst_conv snd_conv)
    then show thesis using pinned [of m] ne fu Some same by simp
  next
    case None
    have nopin: "nid \<noteq> [] \<longrightarrow> \<not> (\<exists>m' \<in> set (p_members p). member_identity p m' = nid
         \<and> \<not> was_tried tried (mb_tag m') \<and> usable ?now network w m')"
      using None fu by (auto simp: find_None_iff)
    let ?fresh = "filter (\<lambda>m. \<not> was_tried tried (mb_tag m)) (fst ?ar)"
    let ?cs = "if tried \<noteq> None \<and> tried \<noteq> Some [] \<and> ?fresh \<noteq> [] then ?fresh else fst ?ar"
    let ?id = "if nid = [] then None else find (\<lambda>m. member_identity ?p2 m = nid) ?cs"
    have run: "(r, p', w') = (if fst ?ar = [] then (Inl NoHealthyProxy, ?p2, snd ?ar)
        else case ?id of Some m \<Rightarrow> (Inr m, ?p2, snd ?ar)
        | None \<Rightarrow> let (choice, p3) = select_member (pe_rand env) (snd ?ar) ?cs sk ?p2
            in (case choice of Some m \<Rightarrow> Inr m | None \<Rightarrow> Inl NilMember, p3, snd ?ar))"
      using pick None unfolding pick_ready_def Let_def indexed_def [symmetric]
      by (simp only: case_prod_beta' option.case fst_conv snd_conv)
    show thesis
    proof (cases "fst ?ar = []")
      case True
      then show thesis using none run cs by simp
    next
      case False
      have sub: "set ?cs \<subseteq> set (fst ?ar)" and ne: "?cs \<noteq> []" using False by auto
      have untried: "(\<exists>m' \<in> set (fst ?ar). \<not> was_tried tried (mb_tag m')) \<longrightarrow> \<not> was_tried tried (mb_tag m)"
        if "m \<in> set ?cs" for m
      proof (cases "tried \<noteq> None \<and> tried \<noteq> Some []")
        case True
        then show ?thesis using that by (cases "?fresh = []") (auto simp: filter_empty_conv)
      next
        case False
        then show ?thesis by (auto simp: was_tried_def)
      qed
      obtain m where m: "r = Inr m" "m \<in> set ?cs" "w' = snd ?ar"
      proof (cases ?id)
        case None
        obtain m p3 where "select_member (pe_rand env) (snd ?ar) ?cs sk ?p2 = (Some m, p3)" "m \<in> set ?cs"
          using select_member_candidate [OF ne] by blast
        then show thesis using that run False None by simp
      next
        case (Some m)
        have "nid \<noteq> []"
        proof
          assume "nid = []"
          then have "?id = None" by (rule if_P)
          then show False using Some by (metis option.distinct(1))
        qed
        then have "?id = find (\<lambda>m. member_identity ?p2 m = nid) ?cs" by (rule if_not_P)
        from this [symmetric] Some have "find (\<lambda>m. member_identity ?p2 m = nid) ?cs = Some m" by (rule trans)
        then have "m \<in> set ?cs" by (blast dest: find_SomeD)
        then show thesis using that [of m] run False Some by simp
      qed
      show thesis
      proof (rule chosen [of m])
        show "usable ?now network w' m" using ar(3) m sub by auto
        show "banned ?now a w'" if "banned ?now a w" "refuses ?now a w" for a
          using ar(4) [of a] that same m(3) same_bans_refuses [OF same that(1)] by (simp add: same_bans_def)
      qed (use m sub untried [OF m(2)] cs nopin in auto)
    qed
  qed
qed

lemma pick_member_for_ready:
  "p_members p \<noteq> [] \<Longrightarrow> pick_member_for env network tried sk nid p w = pick_ready env network tried sk nid p w"
  by (simp add: pick_member_for_def)

lemma candidates_members: "m \<in> set (candidates now network p w) \<Longrightarrow> m \<in> set (p_members p) \<and> speaks network m"
  by (auto simp: candidates_def usable_iff recoverable_def split: if_splits)

lemma candidates_not_parked:
  "m \<in> set (candidates now network p w) \<Longrightarrow> mb_shared m = Some a \<Longrightarrow> \<not> parked now a w"
  by (auto simp: candidates_def usable_iff recoverable_def parked_def split: if_splits)

text \<open>
  C3: a pick is sound. The member it returns is one of the pool's, carries the network asked
  for, is not banned once the pick is over, and was not serving a cooldown or an operator's ban
  when the pick began, however many members were banned; and the only error of a pool whose
  members are set up is that no healthy proxy is available.
\<close>

theorem pick_sound:
  assumes "p_members p \<noteq> []" "index_ok p"
    and "pick_member_for env network tried sk nid p w = (r, p', w')"
  shows "case r of
      Inl e \<Rightarrow> e = NoHealthyProxy
    | Inr m \<Rightarrow> m \<in> set (p_members p) \<and> speaks network m
        \<and> (\<forall>a. mb_shared m = Some a \<longrightarrow> \<not> banned (pe_now env) a w' \<and> \<not> parked (pe_now env) a w)"
proof -
  have pick: "pick_ready env network tried sk nid p w = (r, p', w')"
    using assms(1,3) by (simp add: pick_member_for_ready)
  show ?thesis
  proof (cases rule: pick_ready_cases [OF assms(1,2) pick, case_names pinned none chosen])
    case (pinned m)
    then have "m \<in> set (p_members p)" "usable (pe_now env) network w m" using find_SomeD [OF pinned(3)] by simp_all
    then show ?thesis using pinned by (auto simp: usable_iff same_bans_def parked_def)
  next
    case none
    then show ?thesis by simp
  next
    case (chosen m)
    then show ?thesis
      using candidates_members [OF chosen(2)] candidates_not_parked [OF chosen(2)] by (auto simp: usable_iff)
  qed
qed

text \<open>
  a pick prefers what it should: it returns a usable member whenever there is one, an
  untried one whenever a usable one is untried, and, for a session, a member of the pinned node
  whenever one is usable and untried.
\<close>

lemma pick_prefers:
  assumes "p_members p \<noteq> []" "index_ok p"
    and "pick_member_for env network tried sk nid p w = (r, p', w')"
    and "m0 \<in> set (p_members p)" "usable (pe_now env) network w m0"
  shows "\<exists>m. r = Inr m \<and> usable (pe_now env) network w m
    \<and> (\<not> was_tried tried (mb_tag m0) \<longrightarrow> \<not> was_tried tried (mb_tag m))
    \<and> (\<not> was_tried tried (mb_tag m0) \<longrightarrow> nid \<noteq> [] \<longrightarrow> member_identity p m0 = nid \<longrightarrow> member_identity p m = nid)"
proof -
  have pick: "pick_ready env network tried sk nid p w = (r, p', w')"
    using assms(1,3) by (simp add: pick_member_for_ready)
  have cs: "candidates (pe_now env) network p w = filter (usable (pe_now env) network w) (p_members p)"
    using assms(4,5) by (auto simp: candidates_def)
  show ?thesis
  proof (cases rule: pick_ready_cases [OF assms(1,2) pick, case_names pinned none chosen])
    case (pinned m)
    then have "m \<in> set (p_members p)" "member_identity p m = nid" "\<not> was_tried tried (mb_tag m)"
      "usable (pe_now env) network w m" using find_SomeD [OF pinned(3)] by simp_all
    then show ?thesis using pinned(1) by blast
  next
    case none
    then show ?thesis using assms(4,5) by (simp add: cs filter_empty_conv)
  next
    case (chosen m)
    then show ?thesis using assms(4,5) by (auto simp: cs)
  qed
qed

text \<open>
  C26: a pick fails exactly when it must: no member is usable, and either some member that does
  not carry the network is unbanned, so that nothing is released, or every member that carries it
  serves a cooldown or an operator's ban, which no recovery touches.
\<close>

theorem pick_fails_iff:
  assumes "p_members p \<noteq> []" "index_ok p"
    and "pick_member_for env network tried sk nid p w = (r, p', w')"
  shows "r = Inl NoHealthyProxy \<longleftrightarrow>
    (\<forall>m \<in> set (p_members p). \<not> usable (pe_now env) network w m)
    \<and> ((\<exists>m \<in> set (p_members p). \<not> bans.is_out (pe_now env) mb_shared w m)
      \<or> (\<forall>m \<in> set (p_members p). speaks network m \<longrightarrow> (\<exists>a. mb_shared m = Some a \<and> parked (pe_now env) a w)))"
proof -
  let ?now = "pe_now env"
  have pick: "pick_ready env network tried sk nid p w = (r, p', w')"
    using assms(1,3) by (simp add: pick_member_for_ready)
  have "r = Inl NoHealthyProxy \<longleftrightarrow> candidates ?now network p w = []"
  proof (cases rule: pick_ready_cases [OF assms(1,2) pick, case_names pinned none chosen])
    case (pinned m)
    then have "m \<in> set (p_members p)" "usable ?now network w m" using find_SomeD [OF pinned(3)] by simp_all
    then show ?thesis using pinned(1) by (auto simp: candidates_def filter_empty_conv)
  qed auto
  also have "\<dots> \<longleftrightarrow> (\<forall>m \<in> set (p_members p). \<not> usable ?now network w m)
      \<and> (\<not> all_out ?now p w \<or> (\<forall>m \<in> set (p_members p). \<not> recoverable ?now network w m))"
    by (auto simp: candidates_def filter_empty_conv)
  also have "all_out ?now p w \<longleftrightarrow> \<not> (\<exists>m \<in> set (p_members p). \<not> bans.is_out ?now mb_shared w m)"
    by (auto simp: all_out_def bans.is_out_def split: option.splits)
  finally show ?thesis
    by (fastforce simp: recoverable_def parked_def bans.is_out_def split: option.splits)
qed

definition pick_env0 :: pick_env where
  "pick_env0 = \<lparr>pe_now = 5, pe_rand = 0, pe_outbounds = (\<lambda>_. Some [''tcp''])\<rparr>"

definition banned_world :: world where
  "banned_world = busy_world\<lparr>w_health := (\<lambda>_. new_health\<lparr>h_blacklisted := True, h_until := 100, h_is_cooldown := True\<rparr>)\<rparr>"

lemma sample_pool_ready: "p_members (sample_pool m) \<noteq> []" "index_ok (sample_pool m)"
  by (simp_all add: sample_pool_def index_ok_def)

theorem pick_sound_witness:
  "\<exists>m p' w'. pick_member_for pick_env0 ''tcp'' None [] ''t2'' (sample_pool mode_random) busy_world = (Inr m, p', w')
     \<and> speaks ''tcp'' m"
proof -
  have "case fst (pick_member_for pick_env0 ''tcp'' None [] ''t2'' (sample_pool mode_random) busy_world) of
      Inl e \<Rightarrow> False | Inr m \<Rightarrow> True" by code_simp
  then obtain m p' w' where
    run: "pick_member_for pick_env0 ''tcp'' None [] ''t2'' (sample_pool mode_random) busy_world = (Inr m, p', w')"
    by (cases "pick_member_for pick_env0 ''tcp'' None [] ''t2'' (sample_pool mode_random) busy_world")
      (auto split: sum.splits)
  from pick_sound [OF sample_pool_ready run] run show ?thesis by auto
qed

lemma pick_prefers_example:
  "\<exists>m p' w'. pick_member_for pick_env0 ''tcp'' None [] ''t2'' (sample_pool mode_random) busy_world = (Inr m, p', w')
     \<and> member_identity (sample_pool mode_random) m = ''t2''"
proof -
  obtain r p' w' where
    run: "pick_member_for pick_env0 ''tcp'' None [] ''t2'' (sample_pool mode_random) busy_world = (r, p', w')"
    by (metis prod_cases3)
  have "sample_member ''t2'' 1 \<in> set (p_members (sample_pool mode_random))"
    "usable (pe_now pick_env0) ''tcp'' busy_world (sample_member ''t2'' 1)"
    "member_identity (sample_pool mode_random) (sample_member ''t2'' 1) = ''t2''"
    by (simp_all add: sample_pool_def sample_member_def usable_iff speaks_def banned_def busy_world_def
        new_health_def member_identity_def meta_of_def sample_options_def normalize_options_def Let_def no_meta_def)
  from pick_prefers [OF sample_pool_ready run this(1,2)] this(3) run show ?thesis
    by (auto simp: was_tried_def)
qed

theorem pick_fails_iff_witness:
  "fst (pick_member_for pick_env0 ''tcp'' None [] [] (sample_pool mode_balance) banned_world) = Inl NoHealthyProxy"
proof -
  obtain r p' w' where
    run: "pick_member_for pick_env0 ''tcp'' None [] [] (sample_pool mode_balance) banned_world = (r, p', w')"
    by (metis prod_cases3)
  have "parked (pe_now pick_env0) a banned_world" "banned (pe_now pick_env0) a banned_world" for a
    by (simp_all add: parked_def banned_def refuses_def pick_env0_def banned_world_def)
  with pick_fails_iff [OF sample_pool_ready run] have "r = Inl NoHealthyProxy"
    by (auto simp: sample_pool_def sample_member_def usable_iff)
  then show ?thesis using run by simp
qed

end
