(* ===== verification/SessionStore.thy ===== *)
theory SessionStore
  imports Prelude "HOL-Library.Monad_Syntax"
begin

text \<open>
  The named-session binding cache (\<open>internal/routing/store.go\<close>): a map from session keys to
  the node last dialled for them, bounded by an idle time-to-live and by least-recently-used
  eviction. Every operation takes the value of \<open>s.now()\<close> it reads. \<open>None\<close> is a panic: a nil
  list element or a nil entry that the code would dereference. Gates (the per-key tokens) are
  part of the state; the blocking protocol over them is in \<open>SessionGates\<close>.
\<close>

section \<open>State\<close>

record binding =
  b_id :: string
  b_node_id :: string
  b_node_tag :: string
  b_node_name :: string
  b_created_at :: instant
  b_last_seen :: instant
  b_expires_at :: instant
  b_switch_count :: "64 word"
  b_last_reason :: string

definition no_binding :: binding where
  "no_binding = \<lparr>b_id = [], b_node_id = [], b_node_tag = [], b_node_name = [],
     b_created_at = zero_time, b_last_seen = zero_time, b_expires_at = zero_time,
     b_switch_count = 0, b_last_reason = []\<rparr>"

record session_gate =
  g_token :: bool
  g_refs :: int
  g_version :: "64 word"

record session_store =
  st_entries :: "(string, binding) gomap"
  st_lru :: "string list"
  st_gates :: "(string, nat) gomap"
  st_heap :: "nat \<Rightarrow> session_gate"
  st_next :: nat
  st_max :: int
  st_ttl :: duration
  st_epoch :: "64 word"

definition default_max_bindings :: int where "default_max_bindings = 10000"
definition default_idle_ttl :: duration where "default_idle_ttl = 24 * hour"

record lease =
  l_key :: string
  l_gate :: nat
  l_version :: "64 word"
  l_epoch :: "64 word"
  l_released :: bool

section \<open>Operations\<close>

definition remove_locked :: "string \<Rightarrow> session_store \<Rightarrow> session_store" where
  "remove_locked key s = s\<lparr>st_entries := mdel key (st_entries s), st_lru := remove1 key (st_lru s)\<rparr>"

lemma length_remove1_last: "xs \<noteq> [] \<Longrightarrow> length (remove1 (last xs) xs) < length xs"
  by (simp add: length_remove1)

function prune_locked :: "instant \<Rightarrow> session_store \<Rightarrow> session_store option" where
  "prune_locked now s =
     (if st_lru s = [] then Some s
      else let key = last (st_lru s) in
        case mget (st_entries s) key of
          None \<Rightarrow> None
        | Some b \<Rightarrow> if now < b_expires_at b then Some s else prune_locked now (remove_locked key s))"
  by pat_completeness auto
termination
  by (relation "measure (\<lambda>(now, s). length (st_lru s))")
    (auto simp: remove_locked_def length_remove1_last)

function enforce_capacity_locked :: "session_store \<Rightarrow> session_store option" where
  "enforce_capacity_locked s =
     (if int (length (st_entries s)) \<le> st_max s then Some s
      else if st_lru s = [] then None
      else let key = last (st_lru s) in
        case mget (st_entries s) key of
          None \<Rightarrow> None
        | Some b \<Rightarrow> enforce_capacity_locked (remove_locked key s))"
  by pat_completeness auto
termination
  by (relation "measure (\<lambda>s. length (st_lru s))") (auto simp: remove_locked_def length_remove1_last)

declare prune_locked.simps [simp del] enforce_capacity_locked.simps [simp del]

definition configure :: "int \<Rightarrow> duration \<Rightarrow> instant \<Rightarrow> session_store \<Rightarrow> session_store option" where
  "configure maxb ttl now s =
     (let maxb' = (if maxb \<le> 0 then default_max_bindings else maxb);
          ttl' = (if ttl \<le> 0 then default_idle_ttl else ttl)
      in do {
        s1 \<leftarrow> prune_locked now s;
        s2 \<leftarrow> Some (s1\<lparr>st_max := maxb', st_ttl := ttl',
               st_entries := map (\<lambda>(k, b). (k, b\<lparr>b_expires_at := b_last_seen b + ttl'\<rparr>))
                               (st_entries s1)\<rparr>);
        s3 \<leftarrow> prune_locked now s2;
        enforce_capacity_locked s3
      })"

definition empty_store :: session_store where
  "empty_store = \<lparr>st_entries = [], st_lru = [], st_gates = [],
     st_heap = (\<lambda>_. \<lparr>g_token = False, g_refs = 0, g_version = 0\<rparr>), st_next = 0,
     st_max = 0, st_ttl = 0, st_epoch = 0\<rparr>"

definition new_store :: "int \<Rightarrow> duration \<Rightarrow> instant \<Rightarrow> session_store option" where
  "new_store maxb ttl now = configure maxb ttl now empty_store"

definition list_bindings :: "instant \<Rightarrow> session_store \<Rightarrow> (binding list \<times> session_store) option" where
  "list_bindings now s = do {
     s1 \<leftarrow> prune_locked now s;
     Some (sort_key b_id (map snd (st_entries s1)), s1)
   }"

definition bump_gate :: "string \<Rightarrow> session_store \<Rightarrow> session_store" where
  "bump_gate key s =
     (case mget (st_gates s) key of
        None \<Rightarrow> s
      | Some g \<Rightarrow> s\<lparr>st_heap := (st_heap s)(g := (st_heap s g)\<lparr>g_version := g_version (st_heap s g) + 1\<rparr>)\<rparr>)"

definition delete_binding :: "string \<Rightarrow> instant \<Rightarrow> session_store \<Rightarrow> (bool \<times> session_store) option" where
  "delete_binding key now s = do {
     s1 \<leftarrow> prune_locked now s;
     s2 \<leftarrow> Some (bump_gate key s1);
     (case mget (st_entries s2) key of
        None \<Rightarrow> Some (False, s2)
      | Some b \<Rightarrow> Some (True, remove_locked key s2))
   }"

definition clear_store :: "session_store \<Rightarrow> session_store" where
  "clear_store s = s\<lparr>st_entries := [], st_lru := [], st_epoch := st_epoch s + 1\<rparr>"

definition lease_stale :: "lease \<Rightarrow> session_store \<Rightarrow> bool" where
  "lease_stale l s \<longleftrightarrow> l_released l \<or> l_epoch l \<noteq> st_epoch s
     \<or> l_version l \<noteq> g_version (st_heap s (l_gate l))"

definition lease_binding :: "lease \<Rightarrow> instant \<Rightarrow> session_store \<Rightarrow> (binding \<times> bool) \<times> session_store" where
  "lease_binding l now s =
     (if lease_stale l s then ((no_binding, False), s)
      else case mget (st_entries s) (l_key l) of
        None \<Rightarrow> ((no_binding, False), s)
      | Some b \<Rightarrow>
          if \<not> now < b_expires_at b then ((no_binding, False), remove_locked (l_key l) s)
          else ((b, True), s))"

definition lease_bind ::
  "lease \<Rightarrow> string \<Rightarrow> string \<Rightarrow> string \<Rightarrow> string \<Rightarrow> instant \<Rightarrow> session_store \<Rightarrow> session_store option" where
  "lease_bind l node_id node_tag node_name reason now s =
     (if lease_stale l s then Some s
      else do {
        s1 \<leftarrow> prune_locked now s;
        (b, s2) \<leftarrow> Some (case mget (st_entries s1) (l_key l) of
            None \<Rightarrow> (no_binding\<lparr>b_id := l_key l, b_created_at := now, b_last_reason := ''initial''\<rparr>,
                     s1\<lparr>st_lru := l_key l # st_lru s1\<rparr>)
          | Some b \<Rightarrow>
              (if b_node_id b \<noteq> node_id
               then b\<lparr>b_switch_count := b_switch_count b + 1,
                      b_last_reason := (if reason = [] then ''node_unavailable'' else reason)\<rparr>
               else b, s1));
        b' \<leftarrow> Some (b\<lparr>b_node_id := node_id, b_node_tag := node_tag, b_node_name := node_name,
                     b_last_seen := now, b_expires_at := now + st_ttl s2\<rparr>);
        enforce_capacity_locked
          (s2\<lparr>st_entries := mput (l_key l) b' (st_entries s2),
              st_lru := l_key l # remove1 (l_key l) (st_lru s2)\<rparr>)
      })"

section \<open>Invariant\<close>

definition seen :: "session_store \<Rightarrow> string \<Rightarrow> instant" where
  "seen s k = (case mget (st_entries s) k of None \<Rightarrow> 0 | Some b \<Rightarrow> b_last_seen b)"

text \<open>
  Keys of the list and of the map agree, every entry carries its own key and expires a
  time-to-live after it was last seen, and the list is in order of last use.
\<close>

definition store_wf :: "session_store \<Rightarrow> bool" where
  "store_wf s \<longleftrightarrow> gomap_ok (st_entries s) \<and> distinct (st_lru s) \<and> set (st_lru s) = mkeys (st_entries s)
     \<and> (\<forall>k b. mget (st_entries s) k = Some b \<longrightarrow> b_id b = k \<and> b_expires_at b = b_last_seen b + st_ttl s)
     \<and> sorted_wrt (\<lambda>k k'. seen s k' \<le> seen s k) (st_lru s)"

definition store_bounded :: "session_store \<Rightarrow> bool" where
  "store_bounded s \<longleftrightarrow> 0 < st_max s \<and> 0 < st_ttl s \<and> int (length (st_entries s)) \<le> st_max s"

definition not_before :: "session_store \<Rightarrow> instant \<Rightarrow> bool" where
  "not_before s now \<longleftrightarrow> (\<forall>k b. mget (st_entries s) k = Some b \<longrightarrow> b_last_seen b \<le> now)"

lemma store_wf_keys: "store_wf s \<Longrightarrow> k \<in> set (st_lru s) \<longleftrightarrow> k \<in> mkeys (st_entries s)"
  by (simp add: store_wf_def)

lemma store_wf_entry:
  "store_wf s \<Longrightarrow> mget (st_entries s) k = Some b \<Longrightarrow> b_id b = k \<and> b_expires_at b = b_last_seen b + st_ttl s"
  by (simp add: store_wf_def)

lemma store_wf_lookup:
  assumes "store_wf s" and "k \<in> set (st_lru s)"
  shows "\<exists>b. mget (st_entries s) k = Some b"
proof (cases "mget (st_entries s) k")
  case None
  then have "k \<notin> mkeys (st_entries s)" by (simp add: mget_None_iff)
  with assms show ?thesis by (simp add: store_wf_def)
qed simp

lemma store_wf_last:
  assumes "store_wf s" and "st_lru s \<noteq> []"
  obtains b where "mget (st_entries s) (last (st_lru s)) = Some b"
  using store_wf_lookup [OF assms(1) last_in_set [OF assms(2)]] that by blast

section \<open>Restricting a store to some keys\<close>

text \<open>
  Pruning and eviction both remove entries and keep the order of the rest: they are
  restrictions of the store to a set of keys.
\<close>

definition keep :: "(string \<Rightarrow> bool) \<Rightarrow> session_store \<Rightarrow> session_store" where
  "keep P s = s\<lparr>st_entries := filter (\<lambda>(k, b). P k) (st_entries s), st_lru := filter P (st_lru s)\<rparr>"

lemma keep_fields [simp]:
  "st_gates (keep P s) = st_gates s" "st_heap (keep P s) = st_heap s" "st_next (keep P s) = st_next s"
  "st_max (keep P s) = st_max s" "st_ttl (keep P s) = st_ttl s" "st_epoch (keep P s) = st_epoch s"
  "st_lru (keep P s) = filter P (st_lru s)"
  by (simp_all add: keep_def)

lemma mget_filter_key: "mget (filter (\<lambda>(k, b). P k) m) k = (if P k then mget m k else None)"
  by (induction m) auto

lemma mget_keep [simp]: "mget (st_entries (keep P s)) k = (if P k then mget (st_entries s) k else None)"
  by (simp add: keep_def mget_filter_key)

lemma seen_keep [simp]: "P k \<Longrightarrow> seen (keep P s) k = seen s k"
  by (simp add: seen_def)

lemma mkeys_filter_key: "mkeys (filter (\<lambda>(k, b). P k) m) = {k \<in> mkeys m. P k}"
  by (induction m) auto

lemma mkeys_keep [simp]: "mkeys (st_entries (keep P s)) = {k \<in> mkeys (st_entries s). P k}"
  by (simp add: keep_def mkeys_filter_key del: set_filter)

lemma keep_keep: "keep P (keep Q s) = keep (\<lambda>k. Q k \<and> P k) s"
  by (simp add: keep_def case_prod_unfold conj_commute)

lemma keep_wf [wf_intros]:
  assumes wf: "store_wf s"
  shows "store_wf (keep P s)"
  unfolding store_wf_def
proof (intro conjI)
  show "gomap_ok (st_entries (keep P s))"
    using wf by (simp add: store_wf_def keep_def gomap_ok_filter)
  show "distinct (st_lru (keep P s))" and "set (st_lru (keep P s)) = mkeys (st_entries (keep P s))"
    using wf unfolding keep_fields mkeys_keep by (auto simp: store_wf_def)
  show "\<forall>k b. mget (st_entries (keep P s)) k = Some b \<longrightarrow>
      b_id b = k \<and> b_expires_at b = b_last_seen b + st_ttl (keep P s)"
    using wf by (simp add: store_wf_def)
  have "sorted_wrt (\<lambda>k k'. seen s k' \<le> seen s k) (filter P (st_lru s))"
    using wf by (simp add: store_wf_def sorted_wrt_filter)
  then show "sorted_wrt (\<lambda>k k'. seen (keep P s) k' \<le> seen (keep P s) k) (st_lru (keep P s))"
    unfolding keep_fields by (rule sorted_wrt_mono_rel [rotated]) simp
qed

lemma keep_cong:
  assumes "store_wf s" and "\<And>k. k \<in> set (st_lru s) \<Longrightarrow> P k = Q k"
  shows "keep P s = keep Q s"
proof -
  have "P k = Q k" if "(k, b) \<in> set (st_entries s)" for k b
    using that assms(2) store_wf_keys [OF assms(1), of k] by force
  then have "filter (\<lambda>(k, b). P k) (st_entries s) = filter (\<lambda>(k, b). Q k) (st_entries s)"
    by (intro filter_cong [OF refl]) auto
  moreover have "filter P (st_lru s) = filter Q (st_lru s)"
    by (rule filter_cong) (use assms in auto)
  ultimately show ?thesis by (simp add: keep_def)
qed

lemma keep_all:
  assumes "store_wf s" and "\<And>k. k \<in> set (st_lru s) \<Longrightarrow> P k"
  shows "keep P s = s"
proof -
  have "keep P s = keep (\<lambda>_. True) s" by (rule keep_cong) (use assms in auto)
  then show ?thesis by (simp add: keep_def)
qed

lemma remove_locked_keep: "store_wf s \<Longrightarrow> remove_locked k s = keep (\<lambda>k'. k' \<noteq> k) s"
  by (auto simp: store_wf_def remove_locked_def keep_def AList.delete_eq distinct_remove1_removeAll
      removeAll_filter_not_eq intro!: session_store.equality filter_cong)

lemma length_entries_lru:
  assumes "store_wf s"
  shows "length (st_entries s) = length (st_lru s)"
proof -
  have "length (st_entries s) = card (mkeys (st_entries s))"
    using assms by (simp add: store_wf_def length_keys)
  also have "\<dots> = length (st_lru s)"
    using assms by (simp add: store_wf_def flip: distinct_card)
  finally show ?thesis .
qed

lemma sorted_wrt_last:
  assumes "sorted_wrt R xs" and "xs \<noteq> []" and "x \<in> set xs"
  shows "x = last xs \<or> R x (last xs)"
proof -
  have "sorted_wrt R (butlast xs @ [last xs])" and "x \<in> set (butlast xs @ [last xs])"
    using assms by simp_all
  then show ?thesis by (auto simp: sorted_wrt_append)
qed

text \<open>The least recently seen key is at the back, so it is the first to expire.\<close>

lemma seen_last_le:
  assumes "store_wf s" and "k \<in> set (st_lru s)"
  shows "seen s (last (st_lru s)) \<le> seen s k"
  using assms sorted_wrt_last [of "\<lambda>k k'. seen s k' \<le> seen s k" "st_lru s" k]
  by (cases "st_lru s = []") (auto simp: store_wf_def)

section \<open>Pruning and eviction compute what a full scan would\<close>

lemma prune_locked_keep:
  "store_wf s \<Longrightarrow> prune_locked now s = Some (keep (\<lambda>k. now < seen s k + st_ttl s) s)"
proof (induction now s rule: prune_locked.induct)
  case (1 now s)
  show ?case
  proof (cases "st_lru s = []")
    case True
    then show ?thesis using keep_all [OF "1.prems"] by (simp add: prune_locked.simps [of now s])
  next
    case False
    let ?k = "last (st_lru s)"
    obtain b where b: "mget (st_entries s) ?k = Some b"
      using "1.prems" False store_wf_last by blast
    then have exp: "b_expires_at b = seen s ?k + st_ttl s"
      using store_wf_entry [OF "1.prems"] by (simp add: seen_def)
    show ?thesis
    proof (cases "now < b_expires_at b")
      case True
      then show ?thesis
        using keep_all [OF "1.prems", of "\<lambda>k. now < seen s k + st_ttl s"]
          seen_last_le [OF "1.prems"] exp b False
        by (force simp: prune_locked.simps [of now s])
    next
      case dead: False
      let ?s = "keep (\<lambda>k'. k' \<noteq> ?k) s"
      have "prune_locked now s = prune_locked now ?s"
        using dead b False remove_locked_keep [OF "1.prems", of ?k]
        by (simp add: prune_locked.simps [of now s])
      also have "\<dots> = Some (keep (\<lambda>k. now < seen ?s k + st_ttl ?s) ?s)"
        using "1.IH" [OF False refl b dead] "1.prems" remove_locked_keep [OF "1.prems", of ?k] keep_wf
        by simp
      also have "keep (\<lambda>k. now < seen ?s k + st_ttl ?s) ?s = keep (\<lambda>k. now < seen s k + st_ttl s) s"
      proof (unfold keep_keep, rule keep_cong [OF "1.prems"])
        fix k
        show "(k \<noteq> ?k \<and> now < seen ?s k + st_ttl ?s) = (now < seen s k + st_ttl s)"
          using dead exp by (cases "k = ?k") auto
      qed
      finally show ?thesis .
    qed
  qed
qed

lemma take_butlast_le: "n < length xs \<Longrightarrow> take n (butlast xs) = take n xs"
  by (simp add: butlast_conv_take)

lemma filter_distinct_last: "distinct xs \<Longrightarrow> xs \<noteq> [] \<Longrightarrow> filter (\<lambda>x. x \<noteq> last xs) xs = butlast xs"
  by (induction xs rule: rev_induct) (auto simp: filter_id_conv)

lemma enforce_capacity_locked_keep:
  "store_wf s \<Longrightarrow> 0 \<le> st_max s \<Longrightarrow>
    enforce_capacity_locked s = Some (keep (\<lambda>k. k \<in> set (take (nat (st_max s)) (st_lru s))) s)"
proof (induction s rule: enforce_capacity_locked.induct)
  case (1 s)
  show ?case
  proof (cases "int (length (st_entries s)) \<le> st_max s")
    case True
    then show ?thesis
      using keep_all [OF "1.prems"(1)] length_entries_lru [OF "1.prems"(1)]
      by (simp add: enforce_capacity_locked.simps [of s])
  next
    case False
    have ne: "st_lru s \<noteq> []" and len: "nat (st_max s) < length (st_lru s)"
      using False "1.prems" length_entries_lru [OF "1.prems"(1)] by auto
    let ?k = "last (st_lru s)" and ?s = "keep (\<lambda>k'. k' \<noteq> last (st_lru s)) s"
    obtain b where b: "mget (st_entries s) ?k = Some b"
      using "1.prems"(1) ne store_wf_last by blast
    have lru: "st_lru ?s = butlast (st_lru s)"
      using "1.prems"(1) ne by (simp add: store_wf_def filter_distinct_last)
    have "enforce_capacity_locked s = enforce_capacity_locked ?s"
      using False b ne remove_locked_keep [OF "1.prems"(1), of ?k]
      by (simp add: enforce_capacity_locked.simps [of s])
    also have "\<dots> = Some (keep (\<lambda>k. k \<in> set (take (nat (st_max s)) (butlast (st_lru s)))) ?s)"
      using "1.IH" [OF False ne refl b] "1.prems" remove_locked_keep [OF "1.prems"(1), of ?k] keep_wf lru
      by simp
    also have "keep (\<lambda>k. k \<in> set (take (nat (st_max s)) (butlast (st_lru s)))) ?s
        = keep (\<lambda>k. k \<in> set (take (nat (st_max s)) (st_lru s))) s"
    proof -
      have "?k \<notin> set (butlast (st_lru s))"
        using "1.prems"(1) ne by (metis append_butlast_last_id distinct_append
            disjoint_insert(1) list.set(2) store_wf_def)
      then have "?k \<notin> set (take (nat (st_max s)) (st_lru s))"
        using len in_set_takeD by (metis take_butlast_le)
      then show ?thesis
        unfolding keep_keep take_butlast_le [OF len] by (intro keep_cong [OF "1.prems"(1)]) auto
    qed
    finally show ?thesis .
  qed
qed

section \<open>Changing the limits\<close>

definition retime :: "int \<Rightarrow> duration \<Rightarrow> session_store \<Rightarrow> session_store" where
  "retime m ttl s = s\<lparr>st_max := m, st_ttl := ttl,
     st_entries := map (\<lambda>(k, b). (k, b\<lparr>b_expires_at := b_last_seen b + ttl\<rparr>)) (st_entries s)\<rparr>"

lemma mget_map_values: "mget (map (\<lambda>(k, b). (k, f b)) m) k = map_option f (mget m k)"
  by (induction m) auto

lemma retime_fields [simp]:
  "st_lru (retime m ttl s) = st_lru s" "st_max (retime m ttl s) = m" "st_ttl (retime m ttl s) = ttl"
  "st_gates (retime m ttl s) = st_gates s" "st_heap (retime m ttl s) = st_heap s"
  "st_next (retime m ttl s) = st_next s" "st_epoch (retime m ttl s) = st_epoch s"
  "mget (st_entries (retime m ttl s)) k =
     map_option (\<lambda>b. b\<lparr>b_expires_at := b_last_seen b + ttl\<rparr>) (mget (st_entries s) k)"
  "mkeys (st_entries (retime m ttl s)) = mkeys (st_entries s)"
  "gomap_ok (st_entries (retime m ttl s)) = gomap_ok (st_entries s)"
  "seen (retime m ttl s) k = seen s k"
  by (force simp: retime_def mget_map_values seen_def gomap_ok_map_values split: option.splits)+

lemma retime_wf [wf_intros]: "store_wf s \<Longrightarrow> store_wf (retime m ttl s)"
  by (auto simp: store_wf_def)

lemma configure_keep:
  fixes m :: int and ttl :: duration and now :: instant
  assumes wf: "store_wf s"
  defines "m' \<equiv> (if m \<le> 0 then default_max_bindings else m)"
    and "ttl' \<equiv> (if ttl \<le> 0 then default_idle_ttl else ttl)"
  defines "live \<equiv> keep (\<lambda>k. now < seen s k + st_ttl s \<and> now < seen s k + ttl') s"
  shows "configure m ttl now s =
    Some (keep (\<lambda>k. k \<in> set (take (nat m') (st_lru live))) (retime m' ttl' live))"
proof -
  have m': "0 \<le> m'" by (simp add: m'_def default_max_bindings_def)
  let ?s1 = "keep (\<lambda>k. now < seen s k + st_ttl s) s"
  let ?s3 = "keep (\<lambda>k. now < seen (retime m' ttl' ?s1) k + ttl') (retime m' ttl' ?s1)"
  have wf1: "store_wf (retime m' ttl' ?s1)" by (intro wf_intros wf)
  have "keep (\<lambda>k. now < seen (retime m' ttl' ?s1) k + ttl') (retime m' ttl' ?s1)
      = keep (\<lambda>k. now < seen s k + ttl') (retime m' ttl' ?s1)"
    by (rule keep_cong [OF wf1]) auto
  also have "\<dots> = retime m' ttl' (keep (\<lambda>k. now < seen s k + ttl') ?s1)"
    by (simp add: keep_def retime_def filter_map comp_def case_prod_unfold)
  also have "\<dots> = retime m' ttl' live" by (simp add: live_def keep_keep)
  finally have s3: "?s3 = retime m' ttl' live" .
  have "configure m ttl now s = enforce_capacity_locked ?s3"
    using prune_locked_keep [OF wf, of now] prune_locked_keep [OF wf1, of now]
    unfolding configure_def m'_def [symmetric] ttl'_def [symmetric]
    by (simp add: retime_def)
  then show ?thesis
    unfolding s3 using enforce_capacity_locked_keep [of "retime m' ttl' live"] m' wf
    by (simp add: live_def wf_intros)
qed

lemma set_take_filter_lru:
  "distinct xs \<Longrightarrow> set (filter (\<lambda>k. k \<in> set (take n xs)) xs) = set (take n xs)"
  by (auto dest: in_set_takeD)

lemma length_keep_take:
  assumes "store_wf s" and "0 \<le> m"
  shows "int (length (st_entries (keep (\<lambda>k. k \<in> set (take (nat m) (st_lru s))) s))) \<le> m"
proof -
  let ?s = "keep (\<lambda>k. k \<in> set (take (nat m) (st_lru s))) s"
  have "length (st_entries ?s) = length (filter (\<lambda>k. k \<in> set (take (nat m) (st_lru s))) (st_lru s))"
    using length_entries_lru [OF keep_wf [OF assms(1)]] by simp
  also have "\<dots> = card (set (filter (\<lambda>k. k \<in> set (take (nat m) (st_lru s))) (st_lru s)))"
    by (rule distinct_card [symmetric]) (use assms(1) in \<open>simp add: store_wf_def\<close>)
  also have "\<dots> = card (set (take (nat m) (st_lru s)))"
    using set_take_filter_lru [of "st_lru s" "nat m"] assms(1) by (simp add: store_wf_def del: set_filter)
  also have "\<dots> \<le> length (take (nat m) (st_lru s))" by (rule card_length)
  finally have "length (st_entries ?s) \<le> nat m" by simp
  then show ?thesis using assms(2) by linarith
qed

lemma configure_ok:
  assumes "store_wf s"
  shows "\<exists>s'. configure m ttl now s = Some s' \<and> store_wf s' \<and> store_bounded s'"
proof -
  define m' where "m' = (if m \<le> 0 then default_max_bindings else m)"
  define ttl' where "ttl' = (if ttl \<le> 0 then default_idle_ttl else ttl)"
  define live where "live = keep (\<lambda>k. now < seen s k + st_ttl s \<and> now < seen s k + ttl') s"
  have pos: "0 < m'" "0 < ttl'"
    by (simp_all add: m'_def ttl'_def default_max_bindings_def default_idle_ttl_def time_units)
  have wf: "store_wf (retime m' ttl' live)" unfolding live_def by (intro wf_intros assms)
  show ?thesis
    using configure_keep [OF assms, of m ttl now] keep_wf [OF wf] pos length_keep_take [OF wf, of m']
    by (fold m'_def ttl'_def, fold live_def) (simp add: store_bounded_def)
qed

lemma empty_store_wf: "store_wf empty_store"
  by (simp add: store_wf_def empty_store_def)

section \<open>Committing a binding\<close>

definition touch :: "string \<Rightarrow> binding \<Rightarrow> session_store \<Rightarrow> session_store" where
  "touch key b s = s\<lparr>st_entries := mput key b (st_entries s), st_lru := key # remove1 key (st_lru s)\<rparr>"

lemma touch_fields [simp]:
  "st_max (touch k b s) = st_max s" "st_ttl (touch k b s) = st_ttl s" "st_gates (touch k b s) = st_gates s"
  "st_heap (touch k b s) = st_heap s" "st_epoch (touch k b s) = st_epoch s" "st_next (touch k b s) = st_next s"
  "mget (st_entries (touch k b s)) k' = (if k' = k then Some b else mget (st_entries s) k')"
  "st_lru (touch k b s) = k # remove1 k (st_lru s)"
  by (simp_all add: touch_def mget_mput)

lemma seen_touch: "seen (touch k b s) k' = (if k' = k then b_last_seen b else seen s k')"
  by (simp add: seen_def)

lemma touch_wf:
  assumes wf: "store_wf s" and now: "not_before s (b_last_seen b)"
    and b: "b_id b = k" "b_expires_at b = b_last_seen b + st_ttl s"
  shows "store_wf (touch k b s)"
proof -
  have rem: "set (remove1 k (st_lru s)) = set (st_lru s) - {k}" "distinct (remove1 k (st_lru s))"
    using wf by (simp_all add: store_wf_def)
  have "seen s k' \<le> b_last_seen b" if k': "k' \<in> set (st_lru s)" for k'
  proof -
    obtain b' where "mget (st_entries s) k' = Some b'"
      using store_wf_lookup [OF wf k'] by blast
    then show ?thesis using now by (simp add: not_before_def seen_def)
  qed
  moreover have "sorted_wrt (\<lambda>k k'. seen s k' \<le> seen s k) (remove1 k (st_lru s))"
    using wf by (simp add: store_wf_def distinct_remove1_removeAll removeAll_filter_not_eq sorted_wrt_filter)
  then have "sorted_wrt (\<lambda>x y. seen (touch k b s) y \<le> seen (touch k b s) x) (remove1 k (st_lru s))"
    by (rule sorted_wrt_mono_rel [rotated]) (auto simp: seen_touch rem)
  moreover have "gomap_ok (st_entries (touch k b s))"
    "mkeys (st_entries (touch k b s)) = insert k (mkeys (st_entries s))"
    using wf by (simp_all add: touch_def store_wf_def)
  ultimately show ?thesis
    using wf b rem by (auto simp: store_wf_def seen_touch)
qed

text \<open>The binding a commit writes, from the one it finds.\<close>

definition next_binding ::
  "binding option \<Rightarrow> string \<Rightarrow> string \<Rightarrow> string \<Rightarrow> string \<Rightarrow> string \<Rightarrow> instant \<Rightarrow> duration \<Rightarrow> binding" where
  "next_binding old key node_id node_tag node_name reason now ttl =
     (let b = (case old of
          None \<Rightarrow> no_binding\<lparr>b_id := key, b_created_at := now, b_last_reason := ''initial''\<rparr>
        | Some b \<Rightarrow> if b_node_id b \<noteq> node_id
             then b\<lparr>b_switch_count := b_switch_count b + 1,
                    b_last_reason := (if reason = [] then ''node_unavailable'' else reason)\<rparr>
             else b)
      in b\<lparr>b_node_id := node_id, b_node_tag := node_tag, b_node_name := node_name,
           b_last_seen := now, b_expires_at := now + ttl\<rparr>)"

lemma next_binding_simps [simp]:
  "b_node_id (next_binding old k n t m r now ttl) = n" "b_node_tag (next_binding old k n t m r now ttl) = t"
  "b_node_name (next_binding old k n t m r now ttl) = m" "b_last_seen (next_binding old k n t m r now ttl) = now"
  "b_expires_at (next_binding old k n t m r now ttl) = now + ttl"
  by (simp_all add: next_binding_def Let_def)

lemma next_binding_id: "(\<And>b. old = Some b \<Longrightarrow> b_id b = k) \<Longrightarrow> b_id (next_binding old k n t m r now ttl) = k"
  by (cases old) (simp_all add: next_binding_def Let_def)

lemma not_before_keep: "not_before s now \<Longrightarrow> not_before (keep P s) now"
  by (simp add: not_before_def)

lemma lease_bind_keep:
  fixes n t m r :: string and now :: instant and l :: lease
  assumes wf: "store_wf s" and bounded: "store_bounded s" and now: "not_before s now"
    and fresh: "\<not> lease_stale l s"
  defines "s1 \<equiv> keep (\<lambda>k. now < seen s k + st_ttl s) s"
  defines "s2 \<equiv> touch (l_key l) (next_binding (mget (st_entries s1) (l_key l)) (l_key l) n t m r now (st_ttl s)) s1"
  shows "lease_bind l n t m r now s = Some (keep (\<lambda>k. k \<in> set (take (nat (st_max s)) (st_lru s2))) s2)"
    and "store_wf s2"
proof -
  have wf1: "store_wf s1" unfolding s1_def by (intro wf_intros wf)
  have now1: "not_before s1 now" and ttl1: "st_ttl s1 = st_ttl s"
    unfolding s1_def by (simp_all add: not_before_keep now)
  have "b_id (next_binding (mget (st_entries s1) (l_key l)) (l_key l) n t m r now (st_ttl s)) = l_key l"
    by (rule next_binding_id) (use store_wf_entry [OF wf1] in blast)
  then show wf2: "store_wf s2"
    unfolding s2_def by (intro touch_wf wf1) (simp_all add: now1 ttl1)
  have prune: "prune_locked now s = Some s1" unfolding s1_def by (rule prune_locked_keep [OF wf])
  have "lease_bind l n t m r now s = enforce_capacity_locked s2"
  proof (cases "mget (st_entries s1) (l_key l)")
    case None
    then have "l_key l \<notin> set (st_lru s1)" using store_wf_keys [OF wf1] mget_None_iff by metis
    with None fresh show ?thesis
      by (simp add: lease_bind_def prune s2_def touch_def next_binding_def Let_def remove1_idem ttl1)
  next
    case (Some b)
    with fresh show ?thesis
      by (simp add: lease_bind_def prune s2_def touch_def next_binding_def Let_def ttl1)
  qed
  moreover have "0 \<le> st_max s2" using bounded by (simp add: s2_def s1_def store_bounded_def)
  ultimately show "lease_bind l n t m r now s =
      Some (keep (\<lambda>k. k \<in> set (take (nat (st_max s)) (st_lru s2))) s2)"
    using enforce_capacity_locked_keep [OF wf2] by (simp add: s2_def s1_def)
qed

lemma store_bounded_keep_take:
  assumes "store_wf s" and "0 < st_max s" and "0 < st_ttl s"
  shows "store_bounded (keep (\<lambda>k. k \<in> set (take (nat (st_max s)) (st_lru s))) s)"
  using length_keep_take [OF assms(1), of "st_max s"] assms by (simp add: store_bounded_def)

lemma lease_bind_ok:
  assumes "store_wf s" and "store_bounded s" and "not_before s now"
  shows "\<exists>s'. lease_bind l n t m r now s = Some s' \<and> store_wf s' \<and> store_bounded s'"
proof (cases "lease_stale l s")
  case True
  then show ?thesis using assms by (simp add: lease_bind_def)
next
  case False
  let ?s1 = "keep (\<lambda>k. now < seen s k + st_ttl s) s"
  let ?s2 = "touch (l_key l) (next_binding (mget (st_entries ?s1) (l_key l)) (l_key l) n t m r now (st_ttl s)) ?s1"
  note bind = lease_bind_keep [OF assms False, of n t m r]
  have "store_bounded (keep (\<lambda>k. k \<in> set (take (nat (st_max s)) (st_lru ?s2))) ?s2)"
    using store_bounded_keep_take [OF bind(2)] assms(2) by (simp add: store_bounded_def)
  with bind keep_wf show ?thesis by blast
qed

text \<open>The binding that a commit finds: the stored one, unless it has expired.\<close>

definition live_binding :: "instant \<Rightarrow> session_store \<Rightarrow> string \<Rightarrow> binding option" where
  "live_binding now s k =
     (case mget (st_entries s) k of None \<Rightarrow> None | Some b \<Rightarrow> if now < b_expires_at b then Some b else None)"

lemma live_binding_keep:
  "store_wf s \<Longrightarrow> mget (st_entries (keep (\<lambda>k. now < seen s k + st_ttl s) s)) k = live_binding now s k"
  using store_wf_entry [of s k] by (auto simp: live_binding_def seen_def split: option.splits)

lemma lease_stale_cong:
  "st_epoch s' = st_epoch s \<Longrightarrow> st_heap s' = st_heap s \<Longrightarrow> lease_stale l s' = lease_stale l s"
  by (simp add: lease_stale_def)

lemma lease_bind_entry:
  assumes "store_wf s" and "store_bounded s" and "not_before s now" and "\<not> lease_stale l s"
    and "lease_bind l n t m r now s = Some s'"
  shows "mget (st_entries s') (l_key l) =
      Some (next_binding (live_binding now s (l_key l)) (l_key l) n t m r now (st_ttl s))"
    and "st_epoch s' = st_epoch s" and "st_heap s' = st_heap s" and "st_ttl s' = st_ttl s"
proof -
  have "0 < nat (st_max s)" using assms(2) by (simp add: store_bounded_def)
  then obtain j where "nat (st_max s) = Suc j" using gr0_conv_Suc by blast
  then show "mget (st_entries s') (l_key l) =
      Some (next_binding (live_binding now s (l_key l)) (l_key l) n t m r now (st_ttl s))"
    "st_epoch s' = st_epoch s" "st_heap s' = st_heap s" "st_ttl s' = st_ttl s"
    using lease_bind_keep [OF assms(1-4), of n t m r] assms(5) live_binding_keep [OF assms(1), of now]
    by auto
qed

section \<open>A small store for the examples\<close>

definition sample_binding :: "string \<Rightarrow> instant \<Rightarrow> binding" where
  "sample_binding k t = no_binding\<lparr>b_id := k, b_node_id := ''n1'', b_last_seen := t, b_expires_at := t + 10\<rparr>"

definition sample_store :: session_store where
  "sample_store = empty_store\<lparr>
     st_entries := [(''b'', sample_binding ''b'' 5), (''a'', sample_binding ''a'' 3)],
     st_lru := [''b'', ''a''], st_gates := [(''c'', 0)], st_next := 1, st_max := 2, st_ttl := 10\<rparr>"

definition sample_lease :: lease where
  "sample_lease = \<lparr>l_key = ''c'', l_gate = 0, l_version = 0, l_epoch = 0, l_released = False\<rparr>"

lemmas sample_defs = sample_store_def sample_binding_def sample_lease_def empty_store_def no_binding_def

lemma sample_ok: "store_wf sample_store" "store_bounded sample_store" "not_before sample_store 6"
  "\<not> lease_stale sample_lease sample_store"
  by (auto simp: sample_defs store_wf_def gomap_ok_def seen_def store_bounded_def not_before_def
      lease_stale_def split: if_splits)

section \<open>Properties of the cache\<close>

text \<open>
  the pruning loop, which stops at the first unexpired entry from the back of the list,
  removes exactly the entries a scan of the whole cache would: those whose expiry has come.
\<close>

lemma prune_locked_scan:
  assumes "store_wf s"
  shows "prune_locked now s = Some
    (s\<lparr>st_entries := filter (\<lambda>(k, b). now < b_expires_at b) (st_entries s),
       st_lru := filter (\<lambda>k. \<exists>b. mget (st_entries s) k = Some b \<and> now < b_expires_at b) (st_lru s)\<rparr>)"
proof -
  have "now < seen s k + st_ttl s \<longleftrightarrow> now < b_expires_at b" if "(k, b) \<in> set (st_entries s)" for k b
  proof -
    have "mget (st_entries s) k = Some b"
      using that assms by (simp add: mget_in_set store_wf_def)
    then show ?thesis using store_wf_entry [OF assms] by (simp add: seen_def)
  qed
  then have "filter (\<lambda>(k, b). now < seen s k + st_ttl s) (st_entries s)
      = filter (\<lambda>(k, b). now < b_expires_at b) (st_entries s)"
    by (intro filter_cong [OF refl]) auto
  moreover have "now < seen s k + st_ttl s \<longleftrightarrow> (\<exists>b. mget (st_entries s) k = Some b \<and> now < b_expires_at b)"
    if "k \<in> set (st_lru s)" for k
    using store_wf_lookup [OF assms that] store_wf_entry [OF assms, of k] by (auto simp: seen_def)
  then have "filter (\<lambda>k. now < seen s k + st_ttl s) (st_lru s)
      = filter (\<lambda>k. \<exists>b. mget (st_entries s) k = Some b \<and> now < b_expires_at b) (st_lru s)"
    by (intro filter_cong [OF refl]) auto
  ultimately show ?thesis
    by (simp add: prune_locked_keep [OF assms] keep_def)
qed

lemma prune_locked_scan_example:
  "prune_locked 14 sample_store = Some (sample_store\<lparr>
     st_entries := [(''b'', sample_binding ''b'' 5)], st_lru := [''b'']\<rparr>)"
  using prune_locked_scan [OF sample_ok(1), of 14] by (simp add: sample_defs)

text \<open>
  a commit through a valid lease is what the session's next request reads, until the
  time-to-live has passed: the same key gives the node just dialled. A switch is counted
  exactly when an unexpired binding named another node, and the reason recorded is then the
  caller's (or \<open>node_unavailable\<close>).
\<close>

lemma bind_then_binding:
  assumes "store_wf s" and "store_bounded s" and "not_before s now" and "\<not> lease_stale l s"
    and "now \<le> now'" and "now' < now + st_ttl s"
  shows "\<exists>s' b. lease_bind l n t m r now s = Some s' \<and> lease_binding l now' s' = ((b, True), s')
    \<and> b_node_id b = n \<and> b_node_tag b = t \<and> b_node_name b = m
    \<and> b_switch_count b = (case live_binding now s (l_key l) of
         None \<Rightarrow> 0
       | Some old \<Rightarrow> if b_node_id old = n then b_switch_count old else b_switch_count old + 1)
    \<and> b_last_reason b = (case live_binding now s (l_key l) of
         None \<Rightarrow> ''initial''
       | Some old \<Rightarrow> if b_node_id old = n then b_last_reason old
                       else if r = [] then ''node_unavailable'' else r)"
proof -
  obtain s' where s': "lease_bind l n t m r now s = Some s'"
    using lease_bind_ok [OF assms(1-3)] by blast
  note entry = lease_bind_entry [OF assms(1-4) s']
  show ?thesis
    using s' entry assms(4-6) lease_stale_cong [OF entry(2,3)]
    by (auto simp: lease_binding_def next_binding_def Let_def no_binding_def split: option.splits)
qed

lemma bind_then_binding_example:
  "\<exists>s' b. lease_bind (sample_lease\<lparr>l_key := ''a''\<rparr>) ''n2'' ''t'' ''m'' [] 6 sample_store = Some s'
     \<and> lease_binding (sample_lease\<lparr>l_key := ''a''\<rparr>) 15 s' = ((b, True), s')
     \<and> b_node_id b = ''n2'' \<and> b_switch_count b = 1 \<and> b_last_reason b = ''node_unavailable''"
proof -
  have "\<not> lease_stale (sample_lease\<lparr>l_key := ''a''\<rparr>) sample_store"
    using sample_ok(4) by (simp add: lease_stale_def sample_lease_def)
  from bind_then_binding [OF sample_ok(1-3) this, of 15 "''n2''" "''t''" "''m''" "[]"] show ?thesis
    by (auto simp: sample_defs live_binding_def)
qed

lemma live_entries:
  assumes "store_wf s"
  shows "b \<in> set (map snd (st_entries (keep (\<lambda>k. now < seen s k + st_ttl s) s)))
    \<longleftrightarrow> live_binding now s (b_id b) = Some b"
proof -
  let ?s = "keep (\<lambda>k. now < seen s k + st_ttl s) s"
  have wf: "store_wf ?s" by (intro wf_intros assms)
  have "gomap_ok (st_entries ?s)" using wf unfolding store_wf_def by blast
  then have "(\<exists>k. mget (st_entries ?s) k = Some b) \<longleftrightarrow> (\<exists>k. (k, b) \<in> set (st_entries ?s))"
    by (simp only: mget_in_set)
  then have "b \<in> set (map snd (st_entries ?s)) \<longleftrightarrow> (\<exists>k. mget (st_entries ?s) k = Some b)"
    by force
  also have "\<dots> \<longleftrightarrow> mget (st_entries ?s) (b_id b) = Some b"
    using store_wf_entry [OF wf] by blast
  finally show ?thesis by (simp only: live_binding_keep [OF assms])
qed

lemma distinct_ids: "store_wf s \<Longrightarrow> distinct (map b_id (map snd (st_entries s)))"
proof -
  assume wf: "store_wf s"
  have "b_id (snd p) = fst p" if "p \<in> set (st_entries s)" for p
    using wf that by (cases p) (auto simp: store_wf_def mget_in_set)
  then have eq: "map b_id (map snd (st_entries s)) = map fst (st_entries s)" by simp
  show ?thesis unfolding eq using wf by (simp add: store_wf_def gomap_ok_def)
qed

text \<open>
  the listing shown to the operator holds exactly the unexpired bindings, in strictly
  increasing order of session key (so its order does not depend on Go's map iteration), and
  taking it neither extends a lifetime nor drops anything unexpired.
\<close>

lemma list_bindings_live:
  assumes "store_wf s"
  shows "\<exists>bs s'. list_bindings now s = Some (bs, s')
    \<and> set bs = {b. live_binding now s (b_id b) = Some b}
    \<and> sorted_wrt (<) (map b_id bs)
    \<and> (\<lambda>k. mget (st_entries s') k) = live_binding now s \<and> store_wf s'"
proof -
  let ?s = "keep (\<lambda>k. now < seen s k + st_ttl s) s"
  let ?bs = "sort_key b_id (map snd (st_entries ?s))"
  have wf: "store_wf ?s" by (intro wf_intros assms)
  have "mset (map b_id ?bs) = mset (map b_id (map snd (st_entries ?s)))"
    by (simp only: mset_map mset_sort)
  then have "distinct (map b_id ?bs)" using distinct_ids [OF wf] mset_eq_imp_distinct_iff by blast
  then have "sorted_wrt (<) (map b_id ?bs)" by (simp add: strict_sorted_iff)
  moreover have "set ?bs = {b. live_binding now s (b_id b) = Some b}"
    unfolding set_sort using live_entries [OF assms, of _ now] by blast
  ultimately show ?thesis
    using wf prune_locked_keep [OF assms, of now] live_binding_keep [OF assms, of now]
    by (auto simp: list_bindings_def fun_eq_iff)
qed

lemma list_bindings_live_witness:
  "\<exists>bs s'. list_bindings 14 sample_store = Some (bs, s') \<and> (\<forall>b. b \<in> set bs \<longrightarrow> b_id b \<noteq> ''a'')"
  using list_bindings_live [OF sample_ok(1), of 14]
  by (force simp: sample_defs live_binding_def)

lemma delete_binding_eq:
  assumes "store_wf s"
  shows "delete_binding key now s =
    Some (live_binding now s key \<noteq> None,
          bump_gate key (keep (\<lambda>k. now < seen s k + st_ttl s \<and> k \<noteq> key) s))"
proof -
  let ?s = "keep (\<lambda>k. now < seen s k + st_ttl s) s"
  have wf: "store_wf ?s" by (intro wf_intros assms)
  have look: "mget (st_entries ?s) key = live_binding now s key"
    by (rule live_binding_keep [OF assms])
  have bump: "st_entries (bump_gate key x) = st_entries x"
    "remove_locked key (bump_gate key x) = bump_gate key (remove_locked key x)" for x
    by (simp_all add: bump_gate_def remove_locked_def split: option.splits)
  have gone: "keep (\<lambda>k. now < seen s k + st_ttl s \<and> k \<noteq> key) s = remove_locked key ?s"
    using remove_locked_keep [OF wf] by (simp add: keep_keep)
  have "remove_locked key ?s = ?s" if "mget (st_entries ?s) key = None"
  proof -
    have "key \<notin> set (st_lru ?s)"
      using that store_wf_keys [OF wf, of key] by (simp only: mget_None_iff) simp
    then show ?thesis unfolding remove_locked_keep [OF wf] by (intro keep_all wf) auto
  qed
  then show ?thesis
    unfolding delete_binding_def gone prune_locked_keep [OF assms]
    by (auto simp: bump look simp del: mget_keep split: option.splits)
qed

text \<open>
  After deleting a key whose gate a valid lease holds, the binding is gone, the lease reads
  none, and the commit of the lease leaves the store as it is.
\<close>

lemma delete_invalidates_lease:
  assumes "store_wf s" and "\<not> lease_stale l s" and "mget (st_gates s) key = Some (l_gate l)"
    and "key = l_key l"
  shows "\<exists>s'. delete_binding key now s = Some (live_binding now s key \<noteq> None, s')
    \<and> mget (st_entries s') key = None
    \<and> lease_bind l n t m r now' s' = Some s' \<and> lease_binding l now' s' = ((no_binding, False), s')"
proof -
  let ?s = "keep (\<lambda>k. now < seen s k + st_ttl s \<and> k \<noteq> key) s"
  have "lease_stale l (bump_gate key ?s)"
    using assms(2,3) by (simp add: lease_stale_def bump_gate_def)
  moreover have "mget (st_entries (bump_gate key ?s)) key = None"
    by (simp add: bump_gate_def split: option.splits)
  ultimately show ?thesis
    by (simp add: delete_binding_eq [OF assms(1)] lease_bind_def lease_binding_def)
qed

text \<open>
  resetting all routes empties the cache and makes every lease taken before it inert,
  whatever its key.
\<close>

lemma clear_invalidates_leases:
  assumes "\<not> lease_stale l s"
  shows "st_entries (clear_store s) = [] \<and> st_lru (clear_store s) = []
    \<and> lease_bind l n t m r now (clear_store s) = Some (clear_store s)
    \<and> lease_binding l now (clear_store s) = ((no_binding, False), clear_store s)"
proof -
  have "lease_stale l (clear_store s)" using assms by (simp add: lease_stale_def clear_store_def)
  then show ?thesis by (simp add: lease_bind_def lease_binding_def clear_store_def)
qed

lemma clear_invalidates_leases_witness:
  "lease_bind sample_lease ''n2'' ''t'' ''m'' [] 6 (clear_store sample_store) = Some (clear_store sample_store)"
  using clear_invalidates_leases [OF sample_ok(4)] by blast

lemma in_take_sorted:
  assumes "sorted_wrt R xs" and "x \<in> set (take n xs)" and "y \<in> set xs" "y \<notin> set (take n xs)"
  shows "R x y"
proof -
  have "y \<in> set (drop n xs)"
    using assms(3,4) by (metis Un_iff append_take_drop_id set_append)
  moreover have "sorted_wrt R (take n xs @ drop n xs)" using assms(1) by simp
  ultimately show ?thesis using assms(2) unfolding sorted_wrt_append by blast
qed

text \<open>
  eviction is least-recently-used and only at capacity. If a commit drops an unexpired
  binding, the cache is full afterwards and every other binding that stays was seen no
  earlier than the dropped one.
\<close>

lemma bind_evicts_lru:
  assumes "store_wf s" and "store_bounded s" and "not_before s now" and "\<not> lease_stale l s"
    and bind: "lease_bind l n t m r now s = Some s'"
    and gone: "live_binding now s k = Some b" "mget (st_entries s') k = None"
  shows "int (length (st_entries s')) = st_max s \<and> k \<noteq> l_key l
    \<and> (\<forall>k' b'. mget (st_entries s') k' = Some b' \<longrightarrow> b_last_seen b \<le> b_last_seen b')"
proof -
  let ?s1 = "keep (\<lambda>k. now < seen s k + st_ttl s) s"
  let ?s2 = "touch (l_key l) (next_binding (mget (st_entries ?s1) (l_key l)) (l_key l) n t m r now (st_ttl s)) ?s1"
  let ?top = "set (take (nat (st_max s)) (st_lru ?s2))"
  note eq = lease_bind_keep [OF assms(1-4), of n t m r]
  have s': "s' = keep (\<lambda>k. k \<in> ?top) ?s2" using bind eq(1) by simp
  have key: "k \<noteq> l_key l" using lease_bind_entry(1) [OF assms(1-4) bind] gone(2) by auto
  have k2: "mget (st_entries ?s2) k = Some b"
    using live_binding_keep [OF assms(1), of now k] gone(1) key by (simp del: mget_keep)
  then have in2: "k \<in> set (st_lru ?s2)" using store_wf_keys [OF eq(2)] mget_Some_key by metis
  have out: "k \<notin> ?top" using gone(2) k2 unfolding s' mget_keep by (simp split: if_splits)
  then have len: "nat (st_max s) < length (st_lru ?s2)"
    using in2 by (metis not_le_imp_less take_all)
  have "store_wf s'" unfolding s' by (intro wf_intros eq(2))
  then have "length (st_entries s') = length (filter (\<lambda>k. k \<in> ?top) (st_lru ?s2))"
    using length_entries_lru [of s'] s' by simp
  also have "\<dots> = card ?top"
  proof -
    have d: "distinct (st_lru ?s2)" using eq(2) unfolding store_wf_def by blast
    have "card ?top = card (set (filter (\<lambda>k. k \<in> ?top) (st_lru ?s2)))"
      using set_take_filter_lru [OF d, of "nat (st_max s)"] by (simp only:)
    also have "\<dots> = length (filter (\<lambda>k. k \<in> ?top) (st_lru ?s2))"
      by (rule distinct_card) (rule distinct_filter [OF d])
    finally show ?thesis by simp
  qed
  also have "\<dots> = nat (st_max s)"
  proof -
    have "distinct (take (nat (st_max s)) (st_lru ?s2))"
      using eq(2) unfolding store_wf_def by (intro distinct_take) blast
    then show ?thesis using len by (simp add: distinct_card del: touch_fields(8))
  qed
  finally have full: "int (length (st_entries s')) = st_max s"
    using assms(2) by (simp add: store_bounded_def)
  have "b_last_seen b \<le> b_last_seen b'" if "mget (st_entries s') k' = Some b'" for k' b'
  proof -
    have k': "k' \<in> ?top" "mget (st_entries ?s2) k' = Some b'"
      using that unfolding s' mget_keep by (auto split: if_splits)
    have "seen ?s2 k \<le> seen ?s2 k'"
      using eq(2) in_take_sorted [of "\<lambda>x y. seen ?s2 y \<le> seen ?s2 x", OF _ k'(1) in2 out]
      unfolding store_wf_def by blast
    then show ?thesis using k2 k'(2) by (simp add: seen_def)
  qed
  with full key show ?thesis by blast
qed

lemma bind_evicts_lru_example:
  "\<exists>s'. lease_bind sample_lease ''n2'' ''t'' ''m'' [] 6 sample_store = Some s'
     \<and> int (length (st_entries s')) = 2 \<and> mget (st_entries s') ''a'' = None"
proof -
  have run: "lease_bind sample_lease ''n2'' ''t'' ''m'' [] 6 sample_store = Some (sample_store\<lparr>
      st_entries := mdel ''a'' (mput ''c'' (next_binding None ''c'' ''n2'' ''t'' ''m'' [] 6 10) (st_entries sample_store)),
      st_lru := [''c'', ''b'']\<rparr>)" (is "_ = Some ?s'")
    by (simp add: lease_bind_def sample_defs next_binding_def lease_stale_def prune_locked.simps
        enforce_capacity_locked.simps remove_locked_def Let_def)
  have "live_binding 6 sample_store ''a'' = Some (sample_binding ''a'' 3)"
    "mget (st_entries ?s') ''a'' = None"
    by (simp_all add: sample_defs live_binding_def mget_mdel)
  from bind_evicts_lru [OF sample_ok(1-4) run this] run this(2) show ?thesis
    by (simp add: sample_store_def)
qed

end
