(* ===== verification/SessionGates.thy ===== *)
theory SessionGates
  imports SessionStore
begin

text \<open>
  Leases under concurrency (\<open>Acquire\<close>, \<open>Release\<close> and \<open>releaseReference\<close> of
  \<open>internal/routing/store.go\<close>). Each goroutine is a client whose phase says which critical
  section or channel operation it runs next; a step runs one of them. The store's other
  operations, administrative ones included, interleave freely, and the clock never goes back.
  The dial between \<open>Acquire\<close> and \<open>Bind\<close> is not a step of the store: it is any delay in phase
  \<open>Leased\<close>.
\<close>

section \<open>Clients\<close>

datatype phase =
    Idle
  | Waiting string nat        \<comment> \<open>holds a reference, in the \<open>select\<close> on the token\<close>
  | GotToken string nat       \<comment> \<open>took the token, before the second context check\<close>
  | Leased lease
  | Releasing lease           \<comment> \<open>lease marked released, reference still held\<close>
  | Returning nat             \<comment> \<open>reference given up, token not yet put back\<close>

definition set_gate :: "nat \<Rightarrow> session_gate \<Rightarrow> session_store \<Rightarrow> session_store" where
  "set_gate g x s = s\<lparr>st_heap := (st_heap s)(g := x)\<rparr>"

definition acquire_enter :: "string \<Rightarrow> session_store \<Rightarrow> nat \<times> session_store" where
  "acquire_enter key s =
     (let (g, s1) = (case mget (st_gates s) key of
          Some g \<Rightarrow> (g, s)
        | None \<Rightarrow> (st_next s,
            (set_gate (st_next s) \<lparr>g_token = True, g_refs = 0, g_version = 0\<rparr> s)
              \<lparr>st_gates := mput key (st_next s) (st_gates s), st_next := Suc (st_next s)\<rparr>))
      in (g, set_gate g ((st_heap s1 g)\<lparr>g_refs := g_refs (st_heap s1 g) + 1\<rparr>) s1))"

definition release_reference :: "string \<Rightarrow> nat \<Rightarrow> session_store \<Rightarrow> session_store" where
  "release_reference key g s =
     (let s1 = set_gate g ((st_heap s g)\<lparr>g_refs := g_refs (st_heap s g) - 1\<rparr>) s
      in if g_refs (st_heap s1 g) = 0 \<and> mget (st_gates s1) key = Some g
         then s1\<lparr>st_gates := mdel key (st_gates s1)\<rparr> else s1)"

definition take_token :: "nat \<Rightarrow> session_store \<Rightarrow> session_store option" where
  "take_token g s =
     (if g_token (st_heap s g) then Some (set_gate g ((st_heap s g)\<lparr>g_token := False\<rparr>) s) else None)"

definition put_token :: "nat \<Rightarrow> session_store \<Rightarrow> session_store" where
  "put_token g s = set_gate g ((st_heap s g)\<lparr>g_token := True\<rparr>) s"

definition make_lease :: "string \<Rightarrow> nat \<Rightarrow> session_store \<Rightarrow> lease" where
  "make_lease key g s = \<lparr>l_key = key, l_gate = g, l_version = g_version (st_heap s g),
     l_epoch = st_epoch s, l_released = False\<rparr>"

record system =
  sys_store :: session_store
  sys_clients :: "phase list"
  sys_now :: instant

section \<open>Steps\<close>

inductive step :: "system \<Rightarrow> system \<Rightarrow> bool" where
  enter: "i < length cs \<Longrightarrow> cs ! i = Idle \<Longrightarrow> acquire_enter key s = (g, s') \<Longrightarrow>
    step \<lparr>sys_store = s, sys_clients = cs, sys_now = now\<rparr>
         \<lparr>sys_store = s', sys_clients = cs[i := Waiting key g], sys_now = now\<rparr>"
| cancel_wait: "i < length cs \<Longrightarrow> cs ! i = Waiting key g \<Longrightarrow>
    step \<lparr>sys_store = s, sys_clients = cs, sys_now = now\<rparr>
         \<lparr>sys_store = release_reference key g s, sys_clients = cs[i := Idle], sys_now = now\<rparr>"
| token: "i < length cs \<Longrightarrow> cs ! i = Waiting key g \<Longrightarrow> take_token g s = Some s' \<Longrightarrow>
    step \<lparr>sys_store = s, sys_clients = cs, sys_now = now\<rparr>
         \<lparr>sys_store = s', sys_clients = cs[i := GotToken key g], sys_now = now\<rparr>"
| cancel_token: "i < length cs \<Longrightarrow> cs ! i = GotToken key g \<Longrightarrow>
    step \<lparr>sys_store = s, sys_clients = cs, sys_now = now\<rparr>
         \<lparr>sys_store = release_reference key g s, sys_clients = cs[i := Returning g], sys_now = now\<rparr>"
| leased: "i < length cs \<Longrightarrow> cs ! i = GotToken key g \<Longrightarrow>
    step \<lparr>sys_store = s, sys_clients = cs, sys_now = now\<rparr>
         \<lparr>sys_store = s, sys_clients = cs[i := Leased (make_lease key g s)], sys_now = now\<rparr>"
| read: "i < length cs \<Longrightarrow> cs ! i = Leased l \<Longrightarrow> lease_binding l now s = (r, s') \<Longrightarrow>
    step \<lparr>sys_store = s, sys_clients = cs, sys_now = now\<rparr>
         \<lparr>sys_store = s', sys_clients = cs, sys_now = now\<rparr>"
| commit: "i < length cs \<Longrightarrow> cs ! i = Leased l \<Longrightarrow> lease_bind l n t m r now s = Some s' \<Longrightarrow>
    step \<lparr>sys_store = s, sys_clients = cs, sys_now = now\<rparr>
         \<lparr>sys_store = s', sys_clients = cs, sys_now = now\<rparr>"
| mark: "i < length cs \<Longrightarrow> cs ! i = Leased l \<Longrightarrow>
    step \<lparr>sys_store = s, sys_clients = cs, sys_now = now\<rparr>
         \<lparr>sys_store = s, sys_clients = cs[i := Releasing (l\<lparr>l_released := True\<rparr>)], sys_now = now\<rparr>"
| unref: "i < length cs \<Longrightarrow> cs ! i = Releasing l \<Longrightarrow>
    step \<lparr>sys_store = s, sys_clients = cs, sys_now = now\<rparr>
         \<lparr>sys_store = release_reference (l_key l) (l_gate l) s,
           sys_clients = cs[i := Returning (l_gate l)], sys_now = now\<rparr>"
| give_back: "i < length cs \<Longrightarrow> cs ! i = Returning g \<Longrightarrow>
    step \<lparr>sys_store = s, sys_clients = cs, sys_now = now\<rparr>
         \<lparr>sys_store = put_token g s, sys_clients = cs[i := Idle], sys_now = now\<rparr>"
| tick: "now \<le> now' \<Longrightarrow>
    step \<lparr>sys_store = s, sys_clients = cs, sys_now = now\<rparr>
         \<lparr>sys_store = s, sys_clients = cs, sys_now = now'\<rparr>"
| unbind: "delete_binding key now s = Some (existed, s') \<Longrightarrow>
    step \<lparr>sys_store = s, sys_clients = cs, sys_now = now\<rparr>
         \<lparr>sys_store = s', sys_clients = cs, sys_now = now\<rparr>"
| reset: "step \<lparr>sys_store = s, sys_clients = cs, sys_now = now\<rparr>
         \<lparr>sys_store = clear_store s, sys_clients = cs, sys_now = now\<rparr>"
| listing: "list_bindings now s = Some (bs, s') \<Longrightarrow>
    step \<lparr>sys_store = s, sys_clients = cs, sys_now = now\<rparr>
         \<lparr>sys_store = s', sys_clients = cs, sys_now = now\<rparr>"
| limits: "configure maxb ttl now s = Some s' \<Longrightarrow>
    step \<lparr>sys_store = s, sys_clients = cs, sys_now = now\<rparr>
         \<lparr>sys_store = s', sys_clients = cs, sys_now = now\<rparr>"

inductive reachable :: "system \<Rightarrow> bool" where
  start: "new_store maxb ttl now = Some s \<Longrightarrow>
    reachable \<lparr>sys_store = s, sys_clients = replicate n Idle, sys_now = now\<rparr>"
| next_step: "reachable x \<Longrightarrow> step x y \<Longrightarrow> reachable y"

section \<open>The cache invariant is kept by every step\<close>

definition cache_inv :: "session_store \<Rightarrow> instant \<Rightarrow> bool" where
  "cache_inv s now \<longleftrightarrow> store_wf s \<and> store_bounded s \<and> not_before s now"

text \<open>The part of the store that the cache invariant reads.\<close>

lemma cache_inv_cong:
  assumes "st_entries s' = st_entries s" "st_lru s' = st_lru s" "st_max s' = st_max s" "st_ttl s' = st_ttl s"
  shows "cache_inv s' now = cache_inv s now"
  using assms by (simp add: cache_inv_def store_wf_def store_bounded_def not_before_def seen_def)

lemma cache_inv_keep:
  assumes "cache_inv s now"
  shows "cache_inv (keep P s) now"
proof -
  have "length (st_entries (keep P s)) \<le> length (st_entries s)" by (simp add: keep_def)
  then show ?thesis
    using assms by (auto simp: cache_inv_def store_bounded_def not_before_keep intro: keep_wf)
qed

lemma gate_ops_cache [simp]:
  "st_entries (release_reference k g s) = st_entries s" "st_lru (release_reference k g s) = st_lru s"
  "st_max (release_reference k g s) = st_max s" "st_ttl (release_reference k g s) = st_ttl s"
  "st_entries (put_token g s) = st_entries s" "st_lru (put_token g s) = st_lru s"
  "st_max (put_token g s) = st_max s" "st_ttl (put_token g s) = st_ttl s"
  "st_entries (bump_gate k s) = st_entries s" "st_lru (bump_gate k s) = st_lru s"
  "st_max (bump_gate k s) = st_max s" "st_ttl (bump_gate k s) = st_ttl s"
  by (simp_all add: release_reference_def put_token_def set_gate_def bump_gate_def Let_def split: option.splits)

lemma gate_ops_inv [simp]:
  "cache_inv (release_reference k g s) now = cache_inv s now"
  "cache_inv (put_token g s) now = cache_inv s now"
  "cache_inv (bump_gate k s) now = cache_inv s now"
  by (rule cache_inv_cong; simp)+

lemma acquire_enter_cache:
  "acquire_enter key s = (g, s') \<Longrightarrow> cache_inv s' now = cache_inv s now"
  by (rule cache_inv_cong)
    (auto simp: acquire_enter_def set_gate_def Let_def split: option.splits)

lemma take_token_cache: "take_token g s = Some s' \<Longrightarrow> cache_inv s' now = cache_inv s now"
  by (rule cache_inv_cong) (auto simp: take_token_def set_gate_def split: if_splits)

lemma lease_binding_cache:
  assumes "cache_inv s now" and "lease_binding l now s = (r, s')"
  shows "cache_inv s' now"
proof -
  have "s' = s \<or> s' = remove_locked (l_key l) s"
    using assms(2) by (auto simp: lease_binding_def split: if_splits option.splits)
  then show ?thesis
    using assms(1) cache_inv_keep [OF assms(1)] remove_locked_keep [of s "l_key l"]
    by (auto simp: cache_inv_def)
qed

lemma lease_bind_cache:
  assumes "cache_inv s now" and "lease_bind l n t m r now s = Some s'"
  shows "cache_inv s' now"
proof (cases "lease_stale l s")
  case True
  then show ?thesis using assms by (simp add: lease_bind_def)
next
  case False
  have inv: "store_wf s" "store_bounded s" "not_before s now" using assms(1) by (simp_all add: cache_inv_def)
  then have "store_wf s' \<and> store_bounded s'" using lease_bind_ok [OF inv, of l n t m r] assms(2) by simp
  moreover have "not_before s' now"
    using lease_bind_keep(1) [OF inv False, of n t m r] assms(2) inv(3) by (auto simp: not_before_def split: if_splits)
  ultimately show ?thesis by (simp add: cache_inv_def)
qed

lemma configure_cache:
  assumes "cache_inv s now" and "configure maxb ttl now s = Some s'"
  shows "cache_inv s' now"
proof -
  have wf: "store_wf s" and nb: "not_before s now" using assms(1) by (simp_all add: cache_inv_def)
  have "not_before s' now"
    using configure_keep [OF wf, of maxb ttl now] assms(2) nb by (auto simp: not_before_def split: if_splits)
  then show ?thesis using configure_ok [OF wf, of maxb ttl now] assms(2) by (simp add: cache_inv_def)
qed

lemma delete_binding_cache:
  assumes "cache_inv s now" and "delete_binding key now s = Some (existed, s')"
  shows "cache_inv s' now"
proof -
  have "s' = bump_gate key (keep (\<lambda>k. now < seen s k + st_ttl s \<and> k \<noteq> key) s)"
    using assms delete_binding_eq [of s key now] by (simp add: cache_inv_def)
  then show ?thesis using cache_inv_keep [OF assms(1)] by simp
qed

lemma list_bindings_cache:
  assumes "cache_inv s now" and "list_bindings now s = Some (bs, s')"
  shows "cache_inv s' now"
proof -
  have "s' = keep (\<lambda>k. now < seen s k + st_ttl s) s"
    using assms prune_locked_keep [of s now] by (auto simp: list_bindings_def cache_inv_def)
  then show ?thesis using cache_inv_keep [OF assms(1)] by simp
qed

lemma clear_cache: "cache_inv s now \<Longrightarrow> cache_inv (clear_store s) now"
  by (simp add: cache_inv_def store_wf_def store_bounded_def not_before_def clear_store_def)

lemma cache_inv_later: "cache_inv s now \<Longrightarrow> now \<le> now' \<Longrightarrow> cache_inv s now'"
  by (fastforce simp: cache_inv_def not_before_def)

lemma step_cache_inv:
  "step x y \<Longrightarrow> cache_inv (sys_store x) (sys_now x) \<Longrightarrow> cache_inv (sys_store y) (sys_now y)"
proof (induction rule: step.induct)
  case (enter i cs key s g s' now)
  then show ?case by (simp add: acquire_enter_cache)
next
  case (token i cs key g s s' now)
  then show ?case by (simp add: take_token_cache)
qed (simp_all, (blast intro: lease_binding_cache lease_bind_cache cache_inv_later delete_binding_cache
    clear_cache list_bindings_cache configure_cache)+)

lemma reachable_cache_inv: "reachable x \<Longrightarrow> cache_inv (sys_store x) (sys_now x)"
proof (induction rule: reachable.induct)
  case (start maxb ttl now s n)
  have nb: "not_before s now"
    using start configure_keep [OF empty_store_wf, of maxb ttl now]
    by (auto simp: new_store_def not_before_def empty_store_def split: if_splits)
  with start configure_ok [OF empty_store_wf, of maxb ttl now] show ?case
    by (simp add: new_store_def cache_inv_def)
next
  case (next_step x y)
  then show ?case by (blast intro: step_cache_inv)
qed

section \<open>The gate invariant\<close>

fun ref_of :: "phase \<Rightarrow> (string \<times> nat) option" where
  "ref_of Idle = None"
| "ref_of (Waiting k g) = Some (k, g)"
| "ref_of (GotToken k g) = Some (k, g)"
| "ref_of (Leased l) = Some (l_key l, l_gate l)"
| "ref_of (Releasing l) = Some (l_key l, l_gate l)"
| "ref_of (Returning g) = None"

fun token_of :: "phase \<Rightarrow> nat option" where
  "token_of Idle = None"
| "token_of (Waiting k g) = None"
| "token_of (GotToken k g) = Some g"
| "token_of (Leased l) = Some (l_gate l)"
| "token_of (Releasing l) = Some (l_gate l)"
| "token_of (Returning g) = Some g"

definition refs_to :: "nat \<Rightarrow> phase \<Rightarrow> bool" where
  "refs_to g p \<longleftrightarrow> map_option snd (ref_of p) = Some g"

definition holds :: "nat \<Rightarrow> phase \<Rightarrow> bool" where
  "holds g p \<longleftrightarrow> token_of p = Some g"

definition count_if :: "('a \<Rightarrow> bool) \<Rightarrow> 'a list \<Rightarrow> int" where
  "count_if P xs = int (length (filter P xs))"

lemma count_if_update:
  "i < length xs \<Longrightarrow> count_if P (xs[i := x]) = count_if P xs - of_bool (P (xs ! i)) + of_bool (P x)"
proof (induction xs arbitrary: i)
  case (Cons y ys)
  then show ?case by (cases i) (auto simp: count_if_def)
qed simp

lemma count_if_nonneg [simp]: "0 \<le> count_if P xs"
  by (simp add: count_if_def)

lemma count_if_pos: "i < length xs \<Longrightarrow> P (xs ! i) \<Longrightarrow> 1 \<le> count_if P xs"
  by (simp add: count_if_def length_filter_conv_card) (metis (no_types, lifting) Suc_leI card_gt_0_iff
      empty_Collect_eq finite_nat_set_iff_bounded mem_Collect_eq)

lemma count_if_two:
  assumes "i < length xs" "j < length xs" "i \<noteq> j" "P (xs ! i)" "P (xs ! j)"
  shows "2 \<le> count_if P xs"
proof -
  have "card {i, j} \<le> card {k. k < length xs \<and> P (xs ! k)}"
    by (rule card_mono) (use assms in auto)
  then show ?thesis using assms(3) by (simp add: count_if_def length_filter_conv_card)
qed

lemma count_if_zero: "(\<And>i. i < length xs \<Longrightarrow> \<not> P (xs ! i)) \<Longrightarrow> count_if P xs = 0"
  by (auto simp: count_if_def filter_empty_conv in_set_conv_nth)

text \<open>
  Every allocated gate has its token exactly once, in the channel or in one client; its
  reference count is the number of clients that refer to it; a client's key leads to the gate
  it refers to; and a gate is in the map only while someone refers to it.
\<close>

definition gate_inv :: "session_store \<Rightarrow> phase list \<Rightarrow> bool" where
  "gate_inv s cs \<longleftrightarrow>
     (\<forall>g < st_next s. of_bool (g_token (st_heap s g)) + count_if (holds g) cs = 1
        \<and> g_refs (st_heap s g) = count_if (refs_to g) cs)
     \<and> (\<forall>i < length cs. \<forall>k g. ref_of (cs ! i) = Some (k, g) \<longrightarrow> mget (st_gates s) k = Some g)
     \<and> (\<forall>i < length cs. \<forall>g. token_of (cs ! i) = Some g \<longrightarrow> g < st_next s)
     \<and> (\<forall>k g. mget (st_gates s) k = Some g \<longrightarrow> g < st_next s \<and> 0 < count_if (refs_to g) cs
        \<and> (\<forall>k'. mget (st_gates s) k' = Some g \<longrightarrow> k' = k))"

lemma gate_inv_ref:
  "gate_inv s cs \<Longrightarrow> i < length cs \<Longrightarrow> ref_of (cs ! i) = Some (k, g) \<Longrightarrow> mget (st_gates s) k = Some g"
  by (simp add: gate_inv_def)

lemma gate_inv_token:
  "gate_inv s cs \<Longrightarrow> i < length cs \<Longrightarrow> token_of (cs ! i) = Some g \<Longrightarrow> g < st_next s"
  by (simp add: gate_inv_def)

lemma gate_inv_map:
  assumes "gate_inv s cs" and "mget (st_gates s) k = Some g"
  shows "g < st_next s" "0 < count_if (refs_to g) cs" "mget (st_gates s) k' = Some g \<Longrightarrow> k' = k"
  using assms unfolding gate_inv_def by blast+

lemma gate_inv_counts:
  assumes "gate_inv s cs" and "g < st_next s"
  shows "of_bool (g_token (st_heap s g)) + count_if (holds g) cs = 1"
    and "g_refs (st_heap s g) = count_if (refs_to g) cs"
  using assms by (simp_all add: gate_inv_def)

text \<open>The part of the store that the gate invariant reads.\<close>

lemma gate_inv_cong:
  assumes "st_gates s' = st_gates s" "st_next s' = st_next s"
    and "\<And>g. g_token (st_heap s' g) = g_token (st_heap s g) \<and> g_refs (st_heap s' g) = g_refs (st_heap s g)"
  shows "gate_inv s' cs = gate_inv s cs"
  using assms by (simp add: gate_inv_def)

lemma gate_inv_fresh:
  assumes "gate_inv s cs" and "st_next s \<le> g"
  shows "count_if (holds g) cs = 0" and "count_if (refs_to g) cs = 0"
proof -
  show "count_if (holds g) cs = 0"
    by (rule count_if_zero) (use assms in \<open>force simp: gate_inv_def holds_def\<close>)
  have "\<not> refs_to g (cs ! i)" if "i < length cs" for i
  proof
    assume "refs_to g (cs ! i)"
    then obtain k where "ref_of (cs ! i) = Some (k, g)" by (auto simp: refs_to_def)
    with assms that have "g < st_next s" unfolding gate_inv_def by blast
    with assms(2) show False by simp
  qed
  then show "count_if (refs_to g) cs = 0" by (rule count_if_zero)
qed

lemmas gate_step_simps = count_if_update refs_to_def holds_def nth_list_update

lemma enter_gate_inv:
  assumes inv: "gate_inv s cs" and i: "i < length cs" "cs ! i = Idle"
    and enter: "acquire_enter key s = (g, s')"
  shows "gate_inv s' (cs[i := Waiting key g])"
proof (cases "mget (st_gates s) key")
  case None
  then have s': "g = st_next s" "st_next s' = Suc g" "st_gates s' = mput key g (st_gates s)"
    "st_heap s' = (st_heap s)(g := \<lparr>g_token = True, g_refs = 1, g_version = 0\<rparr>)"
    using enter by (auto simp: acquire_enter_def set_gate_def)
  have new: "g' < g" "0 < count_if (refs_to g') cs" if "mget (st_gates s) k = Some g'" for k g'
    using inv s'(1) that unfolding gate_inv_def by blast+
  have ref: "ref_of (cs ! j) = Some (k, g') \<Longrightarrow> j < length cs \<Longrightarrow> mget (st_gates s) k = Some g'" for j k g'
    using inv by (simp add: gate_inv_def)
  show ?thesis
    unfolding gate_inv_def
  proof (intro conjI allI impI)
    fix g' assume "g' < st_next s'"
    then have "g' = g \<or> g' < st_next s" using s' by auto
    then show "of_bool (g_token (st_heap s' g')) + count_if (holds g') (cs[i := Waiting key g]) = 1"
      "g_refs (st_heap s' g') = count_if (refs_to g') (cs[i := Waiting key g])"
      using inv i s' gate_inv_fresh [OF inv, of g] by (auto simp: gate_step_simps gate_inv_def)
  next
    fix j k g' assume "j < length (cs[i := Waiting key g])" "ref_of (cs[i := Waiting key g] ! j) = Some (k, g')"
    then show "mget (st_gates s') k = Some g'"
      using ref [of j k g'] None s' by (cases "j = i") (auto simp: mget_mput)
  next
    fix j g' assume "j < length (cs[i := Waiting key g])" "token_of (cs[i := Waiting key g] ! j) = Some g'"
    then show "g' < st_next s'"
      using inv s' by (cases "j = i") (auto simp: gate_inv_def less_SucI)
  next
    fix k g' assume k: "mget (st_gates s') k = Some g'"
    then show "g' < st_next s'"
      using s' by (auto simp: mget_mput dest: new split: if_splits)
    show "0 < count_if (refs_to g') (cs[i := Waiting key g])"
      using k i s' gate_inv_fresh [OF inv, of g] new [of k g']
      by (auto simp: gate_step_simps mget_mput split: if_splits)
    fix k' assume "mget (st_gates s') k' = Some g'"
    then show "k' = k" using k inv s' new by (auto simp: mget_mput gate_inv_def split: if_splits)
  qed
next
  case (Some g0)
  then have s': "g0 = g" "st_next s' = st_next s" "st_gates s' = st_gates s"
    "st_heap s' = (st_heap s)(g := (st_heap s g)\<lparr>g_refs := g_refs (st_heap s g) + 1\<rparr>)"
    using enter by (auto simp: acquire_enter_def set_gate_def)
  have tok: "count_if (holds g') (cs[i := Waiting key g]) = count_if (holds g') cs" for g'
    using i by (simp add: gate_step_simps)
  have ref: "count_if (refs_to g') (cs[i := Waiting key g]) = count_if (refs_to g') cs + of_bool (g' = g)" for g'
    using i by (auto simp: gate_step_simps)
  show ?thesis
    using Some inv i s' unfolding gate_inv_def
    by (auto simp: tok ref nth_list_update add_pos_nonneg)
qed

lemma relabel_gate_inv:
  assumes inv: "gate_inv s cs" and i: "i < length cs"
    and same: "ref_of p = ref_of (cs ! i)" "token_of p = token_of (cs ! i)"
  shows "gate_inv s (cs[i := p])"
proof -
  have "count_if (holds g) (cs[i := p]) = count_if (holds g) cs"
    "count_if (refs_to g) (cs[i := p]) = count_if (refs_to g) cs" for g
    using i same by (simp_all add: gate_step_simps)
  with inv i same show ?thesis unfolding gate_inv_def by (auto simp: nth_list_update)
qed

lemma release_gate_inv:
  assumes inv: "gate_inv s cs" and i: "i < length cs" "ref_of (cs ! i) = Some (key, g)"
    and p: "ref_of p = None" "token_of p = token_of (cs ! i)"
  shows "gate_inv (release_reference key g s) (cs[i := p])"
proof -
  let ?s = "release_reference key g s"
  have key: "mget (st_gates s) key = Some g" using inv i unfolding gate_inv_def by blast
  then have g: "g < st_next s" and uniq: "\<And>k. mget (st_gates s) k = Some g \<Longrightarrow> k = key"
    using inv unfolding gate_inv_def by blast+
  have tok: "count_if (holds g') (cs[i := p]) = count_if (holds g') cs" for g'
    using i p by (simp add: gate_step_simps)
  have ref: "count_if (refs_to g') (cs[i := p]) = count_if (refs_to g') cs - of_bool (g' = g)" for g'
    using i p by (auto simp: gate_step_simps)
  have heap: "g_refs (st_heap ?s g') = g_refs (st_heap s g') - of_bool (g' = g)"
    "g_token (st_heap ?s g') = g_token (st_heap s g')" "st_next ?s = st_next s" for g'
    by (auto simp: release_reference_def set_gate_def Let_def)
  have gates: "st_gates ?s = (if g_refs (st_heap s g) = 1 then mdel key (st_gates s) else st_gates s)"
    using key by (auto simp: release_reference_def set_gate_def Let_def)
  have refs: "g_refs (st_heap s g) = count_if (refs_to g) cs" using inv g unfolding gate_inv_def by blast
  show ?thesis
    unfolding gate_inv_def
  proof (intro conjI allI impI)
    fix g' assume "g' < st_next ?s"
    then show "of_bool (g_token (st_heap ?s g')) + count_if (holds g') (cs[i := p]) = 1"
      "g_refs (st_heap ?s g') = count_if (refs_to g') (cs[i := p])"
      using inv by (simp_all add: gate_inv_def heap tok ref)
  next
    fix j k g' assume j: "j < length (cs[i := p])" "ref_of (cs[i := p] ! j) = Some (k, g')"
    then have j': "j \<noteq> i" "ref_of (cs ! j) = Some (k, g')" using i p by (auto simp: nth_list_update split: if_splits)
    have k: "mget (st_gates s) k = Some g'" using inv j j' by (simp add: gate_inv_def)
    have "k \<noteq> key" if "g_refs (st_heap s g) = 1"
    proof
      assume "k = key"
      then have "refs_to g (cs ! j)" "refs_to g (cs ! i)" using k key j' i by (auto simp: refs_to_def)
      then show False using count_if_two [of j cs i "refs_to g"] j j' i refs that by simp
    qed
    with k show "mget (st_gates ?s) k = Some g'" by (simp add: gates mget_mdel)
  next
    fix j g' assume "j < length (cs[i := p])" "token_of (cs[i := p] ! j) = Some g'"
    then have "token_of (cs ! j) = Some g'" "j < length cs" using p i by (auto simp: nth_list_update split: if_splits)
    then show "g' < st_next ?s" using inv by (auto simp: gate_inv_def heap)
  next
    fix k g' assume "mget (st_gates ?s) k = Some g'"
    then have k: "mget (st_gates s) k = Some g'" "g_refs (st_heap s g) = 1 \<Longrightarrow> k \<noteq> key"
      by (auto simp: gates mget_mdel split: if_splits)
    then have pos: "g' < st_next s" "0 < count_if (refs_to g') cs"
      and u: "\<And>k'. mget (st_gates s) k' = Some g' \<Longrightarrow> k' = k"
      using inv unfolding gate_inv_def by blast+
    show "g' < st_next ?s" using pos by (simp add: heap)
    have "g_refs (st_heap s g) \<noteq> 1" if "g' = g" using k uniq that by blast
    then show "0 < count_if (refs_to g') (cs[i := p])" using pos refs by (auto simp: ref)
    fix k' assume "mget (st_gates ?s) k' = Some g'"
    then show "k' = k" using u by (auto simp: gates mget_mdel split: if_splits)
  qed
qed

lemma set_token_gate_inv:
  assumes inv: "gate_inv s cs" and i: "i < length cs" and g: "g < st_next s"
    and ref: "ref_of p = ref_of (cs ! i)"
    and tok: "token_of p \<in> {None, Some g}" "token_of (cs ! i) \<in> {None, Some g}"
    and one: "of_bool b + count_if (holds g) (cs[i := p]) = 1"
  shows "gate_inv (set_gate g ((st_heap s g)\<lparr>g_token := b\<rparr>) s) (cs[i := p])"
proof -
  let ?s = "set_gate g ((st_heap s g)\<lparr>g_token := b\<rparr>) s"
  have s: "st_next ?s = st_next s" "st_gates ?s = st_gates s"
    "g_refs (st_heap ?s g') = g_refs (st_heap s g')"
    "g_token (st_heap ?s g') = (if g' = g then b else g_token (st_heap s g'))" for g'
    by (simp_all add: set_gate_def)
  have refs: "count_if (refs_to g') (cs[i := p]) = count_if (refs_to g') cs" for g'
    using i ref by (simp add: gate_step_simps)
  have toks: "count_if (holds g') (cs[i := p]) = count_if (holds g') cs" if "g' \<noteq> g" for g'
    using i tok that by (auto simp: gate_step_simps)
  show ?thesis
    unfolding gate_inv_def s refs
  proof (intro conjI allI impI)
    fix g' assume "g' < st_next s"
    then show "of_bool (if g' = g then b else g_token (st_heap s g')) + count_if (holds g') (cs[i := p]) = 1"
      using inv one toks by (auto simp: gate_inv_def)
  next
    fix j g' assume j: "j < length (cs[i := p])" "token_of (cs[i := p] ! j) = Some g'"
    show "g' < st_next s"
    proof (cases "j = i")
      case True
      then show ?thesis using j i tok g by auto
    next
      case False
      then show ?thesis using j inv by (simp add: gate_inv_def)
    qed
  next
    fix j k g' assume j: "j < length (cs[i := p])" "ref_of (cs[i := p] ! j) = Some (k, g')"
    then have "ref_of (cs ! j) = Some (k, g')" using i ref by (cases "j = i") simp_all
    then show "mget (st_gates s) k = Some g'" using j inv by (simp add: gate_inv_def)
  qed (use inv in \<open>auto simp: gate_inv_def\<close>)
qed

lemma take_token_gate_inv:
  assumes inv: "gate_inv s cs" and i: "i < length cs" "cs ! i = Waiting key g"
    and took: "take_token g s = Some s'"
  shows "gate_inv s' (cs[i := GotToken key g])"
proof -
  have "mget (st_gates s) key = Some g" using gate_inv_ref [OF inv i(1)] i(2) by simp
  then have g: "g < st_next s" using gate_inv_map(1) [OF inv] by blast
  have s': "s' = set_gate g ((st_heap s g)\<lparr>g_token := False\<rparr>) s" "g_token (st_heap s g)"
    using took by (auto simp: take_token_def split: if_splits)
  have "count_if (holds g) cs = 0" using gate_inv_counts(1) [OF inv g] s'(2) by simp
  then show ?thesis
    unfolding s'(1) by (intro set_token_gate_inv inv) (simp_all add: i g gate_step_simps)
qed

lemma put_token_gate_inv:
  assumes inv: "gate_inv s cs" and i: "i < length cs" "cs ! i = Returning g"
  shows "gate_inv (put_token g s) (cs[i := Idle])"
proof -
  have g: "g < st_next s" using gate_inv_token [OF inv i(1)] i(2) by simp
  have "1 \<le> count_if (holds g) cs" by (rule count_if_pos [OF i(1)]) (simp add: i holds_def)
  then have "count_if (holds g) cs = 1"
    using gate_inv_counts(1) [OF inv g] by (cases "g_token (st_heap s g)") simp_all
  then show ?thesis
    unfolding put_token_def by (intro set_token_gate_inv inv) (simp_all add: i g gate_step_simps)
qed

text \<open>The operations on the cache leave the gates alone, but for a version.\<close>

lemma keep_gate_inv [simp]: "gate_inv (keep P s) cs = gate_inv s cs"
  by (rule gate_inv_cong) simp_all

lemma bump_gate_inv [simp]: "gate_inv (bump_gate k s) cs = gate_inv s cs"
  by (rule gate_inv_cong) (simp_all add: bump_gate_def split: option.splits)

lemma clear_gate_inv [simp]: "gate_inv (clear_store s) cs = gate_inv s cs"
  by (rule gate_inv_cong) (simp_all add: clear_store_def)

lemma lease_binding_gate_inv:
  "lease_binding l now s = (r, s') \<Longrightarrow> gate_inv s' cs = gate_inv s cs"
  by (rule gate_inv_cong)
    (auto simp: lease_binding_def remove_locked_def split: if_splits option.splits)

lemma lease_bind_gate_inv:
  assumes "cache_inv s now" and "lease_bind l n t m r now s = Some s'"
  shows "gate_inv s' cs = gate_inv s cs"
proof (cases "lease_stale l s")
  case True
  then show ?thesis using assms by (simp add: lease_bind_def)
next
  case False
  then show ?thesis
    using lease_bind_keep(1) [of s now l n t m r] assms
    by (intro gate_inv_cong) (auto simp: cache_inv_def)
qed

lemma configure_gate_inv:
  "cache_inv s now \<Longrightarrow> configure m ttl now s = Some s' \<Longrightarrow> gate_inv s' cs = gate_inv s cs"
  using configure_keep [of s m ttl now] by (intro gate_inv_cong) (auto simp: cache_inv_def)

lemma delete_binding_gate_inv:
  "cache_inv s now \<Longrightarrow> delete_binding key now s = Some (e, s') \<Longrightarrow> gate_inv s' cs = gate_inv s cs"
  using delete_binding_eq [of s key now] by (auto simp: cache_inv_def)

lemma list_bindings_gate_inv:
  "cache_inv s now \<Longrightarrow> list_bindings now s = Some (bs, s') \<Longrightarrow> gate_inv s' cs = gate_inv s cs"
  using prune_locked_keep [of s now] by (auto simp: list_bindings_def cache_inv_def)

lemma step_gate_inv:
  "step x y \<Longrightarrow> cache_inv (sys_store x) (sys_now x) \<Longrightarrow> gate_inv (sys_store x) (sys_clients x) \<Longrightarrow>
    gate_inv (sys_store y) (sys_clients y)"
proof (induction rule: step.induct)
  case (enter i cs key s g s' now)
  then show ?case by (simp add: enter_gate_inv)
next
  case (token i cs key g s s' now)
  then show ?case by (simp add: take_token_gate_inv)
next
  case (read i cs l now s r s')
  then show ?case by (simp add: lease_binding_gate_inv)
next
  case (commit i cs l n t m r now s s')
  then show ?case by (simp add: lease_bind_gate_inv)
next
  case (unbind key now s existed s' cs)
  then show ?case by (simp add: delete_binding_gate_inv)
next
  case (listing now s bs s' cs)
  then show ?case by (simp add: list_bindings_gate_inv)
next
  case (limits maxb ttl now s s' cs)
  then show ?case by (simp add: configure_gate_inv)
qed (simp_all add: release_gate_inv put_token_gate_inv relabel_gate_inv make_lease_def)

lemma start_gate_inv:
  assumes "new_store m ttl now = Some s"
  shows "gate_inv s (replicate n Idle)"
proof -
  have "st_gates s = []" "st_next s = 0"
    using assms configure_keep [OF empty_store_wf, of m ttl now] by (auto simp: new_store_def empty_store_def)
  then show ?thesis by (simp add: gate_inv_def)
qed

lemma reachable_gate_inv: "reachable x \<Longrightarrow> gate_inv (sys_store x) (sys_clients x)"
proof (induction rule: reachable.induct)
  case (start maxb ttl now s n)
  then show ?case by (simp add: start_gate_inv)
next
  case (next_step x y)
  then show ?case using step_gate_inv reachable_cache_inv by blast
qed

section \<open>What reachable systems guarantee\<close>

lemma reachable_holder_unique:
  assumes "reachable x" "i < length (sys_clients x)" "j < length (sys_clients x)"
    and "token_of (sys_clients x ! i) = Some g" "token_of (sys_clients x ! j) = Some g"
  shows "i = j"
proof (rule ccontr)
  assume "i \<noteq> j"
  note inv = reachable_gate_inv [OF assms(1)]
  have "2 \<le> count_if (holds g) (sys_clients x)"
    using count_if_two [of i _ j "holds g"] assms \<open>i \<noteq> j\<close> by (simp add: holds_def)
  with gate_inv_counts(1) [OF inv gate_inv_token [OF inv assms(2,4)]] show False
    by (cases "g_token (st_heap (sys_store x) g)") simp_all
qed

lemma count_if_witness: "0 < count_if P xs \<Longrightarrow> \<exists>i < length xs. P (xs ! i)"
  using count_if_zero [of xs P] by fastforce

inductive_simps step_simps: "step x y"

text \<open>An acquisition that meets no contention, as one move of a client.\<close>

definition grant :: "nat \<Rightarrow> string \<Rightarrow> system \<Rightarrow> system" where
  "grant i key x =
     (let (g, s1) = acquire_enter key (sys_store x);
          s2 = the (take_token g s1)
      in \<lparr>sys_store = s2, sys_clients = (sys_clients x)[i := Leased (make_lease key g s2)],
          sys_now = sys_now x\<rparr>)"

lemma reachable_enter:
  assumes "reachable x" "i < length (sys_clients x)" "sys_clients x ! i = Idle"
    and "acquire_enter key (sys_store x) = (g, s1)"
  shows "reachable \<lparr>sys_store = s1, sys_clients = (sys_clients x)[i := Waiting key g], sys_now = sys_now x\<rparr>"
proof (rule next_step [OF assms(1)])
  show "step x \<lparr>sys_store = s1, sys_clients = (sys_clients x)[i := Waiting key g], sys_now = sys_now x\<rparr>"
    using step.enter [OF assms(2-4), of "sys_now x"] by (cases x) simp
qed

lemma reachable_grant:
  assumes "reachable x" "i < length (sys_clients x)" "sys_clients x ! i = Idle"
    and "acquire_enter key (sys_store x) = (g, s1)" "take_token g s1 = Some s2"
  shows "reachable (grant i key x)"
proof -
  let ?cs = "sys_clients x" and ?now = "sys_now x"
  have "reachable \<lparr>sys_store = s2, sys_clients = ?cs[i := GotToken key g], sys_now = ?now\<rparr>"
    using next_step [OF reachable_enter [OF assms(1-4)]]
      step.token [of i "?cs[i := Waiting key g]" key g s1 s2 ?now] assms by simp
  then have "reachable \<lparr>sys_store = s2, sys_clients = ?cs[i := Leased (make_lease key g s2)], sys_now = ?now\<rparr>"
    using next_step step.leased [of i "?cs[i := GotToken key g]" key g s2 ?now] assms(2) by fastforce
  then show ?thesis by (simp add: grant_def assms(4,5))
qed

lemmas store_run_simps = new_store_def configure_def empty_store_def prune_locked.simps
  enforce_capacity_locked.simps default_max_bindings_def default_idle_ttl_def time_units

lemmas gate_run_simps = grant_def acquire_enter_def take_token_def set_gate_def make_lease_def Let_def

definition demo_start :: system where
  "demo_start = \<lparr>sys_store = the (new_store 1 0 0), sys_clients = [Idle, Idle], sys_now = 0\<rparr>"

lemma demo_start_reachable: "reachable demo_start"
  using reachable.start [of 1 0 0 "the (new_store 1 0 0)" 2]
  by (simp add: demo_start_def store_run_simps numeral_2_eq_2)

lemma demo_leased: "reachable (grant 0 ''a'' demo_start)"
  by (rule reachable_grant [OF demo_start_reachable _ _ surjective_pairing])
    (simp_all add: demo_start_def store_run_simps acquire_enter_def set_gate_def take_token_def)

lemma demo_leased_two: "reachable (grant 1 ''b'' (grant 0 ''a'' demo_start))"
  by (rule reachable_grant [OF demo_leased _ _ surjective_pairing])
    (simp_all add: gate_run_simps demo_start_def store_run_simps)

text \<open>
  C27: the session store never panics and never outgrows its limit: in every reachable state,
  whatever the interleaving of the clients and of the administrative operations, the cache
  invariant holds and each operation of the store returns.
\<close>

theorem reachable_never_panics:
  assumes "reachable x"
  shows "int (length (st_entries (sys_store x))) \<le> st_max (sys_store x)
    \<and> distinct (st_lru (sys_store x)) \<and> set (st_lru (sys_store x)) = mkeys (st_entries (sys_store x))
    \<and> lease_bind l n t m r (sys_now x) (sys_store x) \<noteq> None
    \<and> delete_binding key (sys_now x) (sys_store x) \<noteq> None
    \<and> list_bindings (sys_now x) (sys_store x) \<noteq> None
    \<and> configure maxb ttl (sys_now x) (sys_store x) \<noteq> None"
proof -
  let ?s = "sys_store x" and ?now = "sys_now x"
  have inv: "store_wf ?s" "store_bounded ?s" "not_before ?s ?now"
    using reachable_cache_inv [OF assms] by (simp_all add: cache_inv_def)
  have "configure maxb ttl ?now ?s \<noteq> None" using configure_ok [OF inv(1), of maxb ttl ?now] by auto
  moreover have "lease_bind l n t m r ?now ?s \<noteq> None" using lease_bind_ok [OF inv, of l n t m r] by auto
  moreover have "list_bindings ?now ?s \<noteq> None"
    using prune_locked_keep [OF inv(1), of ?now] by (simp add: list_bindings_def)
  moreover have "delete_binding key ?now ?s \<noteq> None" using delete_binding_eq [OF inv(1)] by simp
  ultimately show ?thesis using inv(1,2) by (simp add: store_wf_def store_bounded_def)
qed

theorem reachable_never_panics_witness:
  "let x = grant 0 ''a'' demo_start; s = sys_store x in
     lease_bind (make_lease ''a'' 0 s) ''n'' ''t'' ''m'' [] (sys_now x) s \<noteq> None
     \<and> list_bindings (sys_now x) s \<noteq> None"
  unfolding Let_def using reachable_never_panics [OF demo_leased] by blast

text \<open>
  C2: leases on one session key are exclusive: two clients never hold the token of the same key
  at once, so of two goroutines that acquired the same session one has released it before the
  other's \<open>Acquire\<close> returns.
\<close>

theorem leases_are_exclusive:
  assumes "reachable x" and "i < length (sys_clients x)" "j < length (sys_clients x)" "i \<noteq> j"
    and "sys_clients x ! i = Leased l" and "sys_clients x ! j = Leased l'"
  shows "l_key l \<noteq> l_key l' \<and> l_gate l \<noteq> l_gate l'"
proof -
  note inv = reachable_gate_inv [OF assms(1)]
  have "l_gate l \<noteq> l_gate l'"
    using reachable_holder_unique [OF assms(1-3), of "l_gate l"] assms(4-6) by auto
  moreover have "mget (st_gates (sys_store x)) (l_key l) = Some (l_gate l)"
    "mget (st_gates (sys_store x)) (l_key l') = Some (l_gate l')"
    using gate_inv_ref [OF inv] assms by simp_all
  ultimately show ?thesis by auto
qed

theorem leases_are_exclusive_witness:
  "let cs = sys_clients (grant 1 ''b'' (grant 0 ''a'' demo_start)) in
     \<exists>l l'. cs = [Leased l, Leased l'] \<and> l_key l = ''a'' \<and> l_gate l \<noteq> l_gate l'"
  using leases_are_exclusive [OF demo_leased_two, of 0 1]
  by (simp add: gate_run_simps demo_start_def store_run_simps)

text \<open>
  an administrative unbind is not undone by a dial that was under way: when a key is deleted
  while a client holds a valid lease on it, the binding is gone, the lease reads none from then
  on, and the client's commit leaves the store as it is.
\<close>

lemma unbind_defeats_commit_in_flight:
  assumes "reachable x" and "i < length (sys_clients x)" and "sys_clients x ! i = Leased l"
    and "\<not> lease_stale l (sys_store x)"
  shows "\<exists>s'. delete_binding (l_key l) now (sys_store x)
        = Some (live_binding now (sys_store x) (l_key l) \<noteq> None, s')
    \<and> mget (st_entries s') (l_key l) = None
    \<and> lease_bind l n t m r now' s' = Some s' \<and> lease_binding l now' s' = ((no_binding, False), s')"
proof -
  have "mget (st_gates (sys_store x)) (l_key l) = Some (l_gate l)"
    using gate_inv_ref [OF reachable_gate_inv [OF assms(1)] assms(2)] assms(3) by simp
  moreover have "store_wf (sys_store x)"
    using reachable_cache_inv [OF assms(1)] by (simp add: cache_inv_def)
  ultimately show ?thesis using delete_invalidates_lease assms(4) by blast
qed

lemma unbind_defeats_commit_in_flight_example:
  "\<exists>s'. delete_binding ''a'' 0 (sys_store (grant 0 ''a'' demo_start)) = Some (False, s')
    \<and> lease_bind (make_lease ''a'' 0 (sys_store (grant 0 ''a'' demo_start))) ''n'' ''t'' ''m'' [] 0 s' = Some s'"
  using unbind_defeats_commit_in_flight [OF demo_leased, of 0
      "make_lease ''a'' 0 (sys_store (grant 0 ''a'' demo_start))" 0 "''n''" "''t''" "''m''" "[]" 0]
  by (auto simp: gate_run_simps demo_start_def store_run_simps lease_stale_def live_binding_def)

text \<open>
  no token is lost: a client that waits can take its token as soon as no other client
  holds it.
\<close>

lemma waiting_client_proceeds:
  assumes "reachable x" and "i < length (sys_clients x)" and "sys_clients x ! i = Waiting key g"
  shows "take_token g (sys_store x) \<noteq> None
    \<longleftrightarrow> \<not> (\<exists>j < length (sys_clients x). token_of (sys_clients x ! j) = Some g)"
proof -
  note inv = reachable_gate_inv [OF assms(1)]
  have "g < st_next (sys_store x)"
    using gate_inv_map(1) [OF inv gate_inv_ref [OF inv assms(2)]] assms(3) by simp
  note one = gate_inv_counts(1) [OF inv this]
  show ?thesis
  proof (cases "g_token (st_heap (sys_store x) g)")
    case True
    then have "count_if (holds g) (sys_clients x) = 0" using one by simp
    then have "\<not> holds g (sys_clients x ! j)" if "j < length (sys_clients x)" for j
      using count_if_pos [OF that, of "holds g"] by fastforce
    then show ?thesis using True by (auto simp: take_token_def holds_def)
  next
    case False
    then have "\<exists>j < length (sys_clients x). holds g (sys_clients x ! j)"
      using one by (intro count_if_witness) simp
    then show ?thesis using False by (auto simp: take_token_def holds_def)
  qed
qed

lemma waiting_client_proceeds_example:
  "take_token 0 (snd (acquire_enter ''a'' (sys_store (grant 0 ''a'' demo_start)))) = None"
proof -
  let ?x = "grant 0 ''a'' demo_start"
  have "reachable \<lparr>sys_store = snd (acquire_enter ''a'' (sys_store ?x)),
      sys_clients = (sys_clients ?x)[1 := Waiting ''a'' 0], sys_now = sys_now ?x\<rparr>"
    by (rule reachable_enter [OF demo_leased]) (simp_all add: gate_run_simps demo_start_def store_run_simps)
  from waiting_client_proceeds [OF this, of 1 "''a''" 0] show ?thesis
    by (simp add: gate_run_simps demo_start_def store_run_simps)
qed

text \<open>
  gates do not leak: a session key is in the gate map exactly while some client refers to it,
  and then it leads to that client's gate.
\<close>

lemma gates_exist_while_referenced:
  assumes "reachable x"
  shows "mget (st_gates (sys_store x)) key = Some g
    \<longleftrightarrow> (\<exists>i < length (sys_clients x). ref_of (sys_clients x ! i) = Some (key, g))"
proof -
  note inv = reachable_gate_inv [OF assms]
  show ?thesis
  proof
    assume m: "mget (st_gates (sys_store x)) key = Some g"
    obtain i where i: "i < length (sys_clients x)" "refs_to g (sys_clients x ! i)"
      using count_if_witness [OF gate_inv_map(2) [OF inv m]] by blast
    then obtain k where k: "ref_of (sys_clients x ! i) = Some (k, g)" by (auto simp: refs_to_def)
    then have "k = key" using gate_inv_map(3) [OF inv m gate_inv_ref [OF inv i(1) k]] by simp
    with i k show "\<exists>i < length (sys_clients x). ref_of (sys_clients x ! i) = Some (key, g)" by blast
  qed (use gate_inv_ref [OF inv] in blast)
qed

lemma gates_exist_while_referenced_witness:
  "mget (st_gates (sys_store (grant 0 ''a'' demo_start))) ''a'' = Some 0"
proof -
  have "ref_of (sys_clients (grant 0 ''a'' demo_start) ! 0) = Some (''a'', 0)
      \<and> 0 < length (sys_clients (grant 0 ''a'' demo_start))"
    by (simp add: gate_run_simps demo_start_def store_run_simps)
  then show ?thesis using gates_exist_while_referenced [OF demo_leased] by blast
qed

end
