(* ===== verification/PoolDial.thy ===== *)
theory PoolDial
  imports PoolPick SessionGates
begin

text \<open>
  Dialling through a pool (\<open>DialContext\<close> and \<open>ListenPacket\<close> of \<open>internal/outbound/pool/pool.go\<close>):
  the session lease, the retry loop with its failed-pin rule, what each outcome records, the
  commit of the binding, and the connection wrapper that gives the connection count back. What
  the outside world decides comes from an environment per attempt: the context's state at the
  four points the code asks for it, the clock, the random draw and the outcome of the dial.
\<close>

section \<open>State and environment\<close>

record pool_sys =
  y_pool :: pool
  y_world :: world
  y_store :: session_store

record attempt_env =
  ae_start_err :: "string option"      \<comment> \<open>\<open>ctx.Err()\<close> at the head of the loop\<close>
  ae_pick :: pick_env
  ae_dial :: "member \<Rightarrow> string option" \<comment> \<open>the dial error; \<open>None\<close> is a connection\<close>
  ae_after_err :: "string option"      \<comment> \<open>\<open>ctx.Err()\<close> after the dial\<close>
  ae_now :: instant                    \<comment> \<open>the clock when the outcome is recorded\<close>
  ae_retry_err :: "string option"      \<comment> \<open>\<open>ctx.Err()\<close> before the next attempt\<close>

record request =
  rq_session :: string                 \<comment> \<open>\<open>SessionFromContext\<close>\<close>
  rq_source :: "string option"
  rq_enter_err :: "string option"      \<comment> \<open>\<open>ctx.Err()\<close> on entry\<close>
  rq_wait_err :: string                \<comment> \<open>the error a wait for another holder's token ends with\<close>
  rq_token_err :: "string option"      \<comment> \<open>\<open>ctx.Err()\<close> once the token is taken\<close>
  rq_now :: instant                    \<comment> \<open>the clock when the binding is read\<close>

section \<open>The session lease\<close>

text \<open>
  \<open>Store.Acquire\<close> as one step: the token is taken when it is there; a wait for another holder
  ends here with the context's error. The interleavings in which the other holder gives the
  token back are those of \<open>SessionGates\<close>.
\<close>

definition acquire_lease :: "request \<Rightarrow> session_store \<Rightarrow> (string + lease) \<times> session_store" where
  "acquire_lease rq s =
     (let key = rq_session rq; (g, s1) = acquire_enter key s
      in case take_token g s1 of
          None \<Rightarrow> (Inl (rq_wait_err rq), release_reference key g s1)
        | Some s2 \<Rightarrow> (case rq_token_err rq of
              Some e \<Rightarrow> (Inl e, put_token g (release_reference key g s2))
            | None \<Rightarrow> (Inr (make_lease key g s2), s2)))"

definition lease_release :: "lease \<Rightarrow> session_store \<Rightarrow> session_store" where
  "lease_release l s = put_token (l_gate l) (release_reference (l_key l) (l_gate l) s)"

definition acquire_session ::
  "request \<Rightarrow> pool \<Rightarrow> session_store \<Rightarrow> (string + lease option \<times> binding) \<times> session_store" where
  "acquire_session rq p s =
     (case rq_enter_err rq of
        Some e \<Rightarrow> (Inl e, s)
      | None \<Rightarrow>
          if \<not> po_session_routing (p_options p) \<or> rq_session rq = [] then (Inr (None, no_binding), s)
          else (case acquire_lease rq s of
              (Inl e, s1) \<Rightarrow> (Inl e, s1)
            | (Inr l, s1) \<Rightarrow>
                let ((b, ok), s2) = lease_binding l (rq_now rq) s1 in (Inr (Some l, b), s2)))"

section \<open>What an outcome records\<close>

definition inc_active :: "member \<Rightarrow> world \<Rightarrow> world" where
  "inc_active m w = (case mb_shared m of None \<Rightarrow> w | Some a \<Rightarrow> shared_inc_active a w)"

definition dec_active :: "member \<Rightarrow> world \<Rightarrow> world" where
  "dec_active m w = (case mb_shared m of None \<Rightarrow> w | Some a \<Rightarrow> shared_dec_active a w)"

definition record_pool_failure :: "pool \<Rightarrow> member \<Rightarrow> string \<Rightarrow> instant \<Rightarrow> world \<Rightarrow> world" where
  "record_pool_failure p m cause now w = (case mb_shared m of
       None \<Rightarrow> w | Some a \<Rightarrow> snd (shared_record_failure cause (failure_policy_of p) now a w))"

definition record_pin_failure :: "pool \<Rightarrow> member \<Rightarrow> string \<Rightarrow> instant \<Rightarrow> world \<Rightarrow> world" where
  "record_pin_failure p m cause now w =
     (case mb_shared m of
        None \<Rightarrow> record_pool_failure p m cause now w
      | Some a \<Rightarrow>
          if \<not> blacklist_failed_pin p \<or> classify_failure (Some cause) \<noteq> FaultPermanent
          then record_pool_failure p m cause now w
          else snd (shared_blacklist_now (Some cause) (failure_policy_of p) now a w))"

definition record_pool_success :: "member \<Rightarrow> instant \<Rightarrow> world \<Rightarrow> world" where
  "record_pool_success m now w = (case mb_shared m of None \<Rightarrow> w | Some a \<Rightarrow> shared_record_success now a w)"

definition drop_failed_pin ::
  "pool \<Rightarrow> string \<Rightarrow> tried \<Rightarrow> int \<Rightarrow> int \<Rightarrow> member \<Rightarrow> bool \<Rightarrow> string \<times> tried \<times> int" where
  "drop_failed_pin p pinned tried max_att attempt m single =
     (if pinned = [] \<or> member_identity p m \<noteq> pinned then (pinned, tried, max_att)
      else if single then ([], tried, max_att)
      else ([], Some (mb_tag m # (case tried of None \<Rightarrow> [] | Some ts \<Rightarrow> ts)),
            if max_att \<le> attempt then attempt + 1 else max_att))"

definition mark_tried :: "member \<Rightarrow> tried \<Rightarrow> tried" where
  "mark_tried m tried = map_option (\<lambda>ts. mb_tag m # ts) tried"

definition network_tcp :: string where "network_tcp = ''tcp''"
definition network_udp :: string where "network_udp = ''udp''"

text \<open>The commit of a successful dial; only TCP dials migrate a binding.\<close>

definition commit_binding ::
  "pool \<Rightarrow> lease option \<Rightarrow> string \<Rightarrow> member \<Rightarrow> bool \<Rightarrow> instant \<Rightarrow> session_store \<Rightarrow> session_store option" where
  "commit_binding p lease network m failed_before now s =
     (case lease of
        None \<Rightarrow> Some s
      | Some l \<Rightarrow>
          if network \<noteq> network_tcp then Some s
          else lease_bind l (member_identity p m) (mb_tag m) (mm_name (meta_of (p_options p) (mb_tag m)))
                 (if failed_before then ''dial_failed'' else ''node_unavailable'') now s)"

section \<open>The retry loop\<close>

record loop_state =
  ls_attempt :: int
  ls_max :: int
  ls_pinned :: string
  ls_tried :: tried
  ls_last_err :: "string option"

definition pick_for_attempt ::
  "lease option \<Rightarrow> string \<Rightarrow> string \<Rightarrow> attempt_env \<Rightarrow> loop_state \<Rightarrow> pool_sys \<Rightarrow> (pool_error + member) \<times> pool_sys" where
  "pick_for_attempt lease network sticky_key ae ls y =
     (let (r, p, w) = (if lease \<noteq> None
            then pick_member_for_session (ae_pick ae) network (ls_tried ls) (ls_pinned ls) (y_pool y) (y_world y)
            else pick_member_filtered (ae_pick ae) network (ls_tried ls) sticky_key (y_pool y) (y_world y))
      in (r, y\<lparr>y_pool := p, y_world := w\<rparr>))"

text \<open>
  What a failed dial leaves: the recorded failure and the loop variables. A packet failure never
  blacklists the pinned node (\<open>packet\<close> is \<open>ListenPacket\<close>).
\<close>

definition failed_dial ::
  "bool \<Rightarrow> lease option \<Rightarrow> member \<Rightarrow> string \<Rightarrow> instant \<Rightarrow> loop_state \<Rightarrow> pool_sys \<Rightarrow> loop_state \<times> pool_sys" where
  "failed_dial packet lease m err now ls y =
     (let p = y_pool y;
          w = (if \<not> packet \<and> lease \<noteq> None \<and> ls_pinned ls \<noteq> [] \<and> member_identity p m = ls_pinned ls
               then record_pin_failure p m err now (y_world y)
               else record_pool_failure p m err now (y_world y));
          tried = mark_tried m (ls_tried ls);
          (pinned, tried', max_att) = (if lease \<noteq> None
            then drop_failed_pin p (ls_pinned ls) tried (ls_max ls) (ls_attempt ls) m
                   (length (po_members (p_options p)) \<le> 1)
            else (ls_pinned ls, tried, ls_max ls))
      in (ls\<lparr>ls_max := max_att, ls_pinned := pinned, ls_tried := tried', ls_last_err := Some err\<rparr>,
          y\<lparr>y_world := w\<rparr>))"

definition upd_world :: "(world \<Rightarrow> world) \<Rightarrow> pool_sys \<Rightarrow> pool_sys" where
  "upd_world f y = y\<lparr>y_world := f (y_world y)\<rparr>"

definition loop_measure :: "loop_state \<Rightarrow> nat" where
  "loop_measure ls = nat (ls_max ls + of_bool (ls_pinned ls \<noteq> []) - ls_attempt ls + 1)"

text \<open>The body of the loop: the function's result, or the state of the next attempt.\<close>

definition one_attempt ::
  "bool \<Rightarrow> lease option \<Rightarrow> string \<Rightarrow> string \<Rightarrow> (int \<Rightarrow> attempt_env) \<Rightarrow> loop_state \<Rightarrow> pool_sys
    \<Rightarrow> (pool_error + member) \<times> pool_sys + loop_state \<times> pool_sys" where
  "one_attempt packet lease network sticky_key envs ls y =
     (let ae = envs (ls_attempt ls)
      in case ae_start_err ae of
          Some e \<Rightarrow> Inl (Inl (Cancelled e), y)
        | None \<Rightarrow>
      (case pick_for_attempt lease network sticky_key ae ls y of
          (Inl e, y1) \<Rightarrow> Inl (Inl (case ls_last_err ls of
              Some le \<Rightarrow> AfterAttempts e (ls_attempt ls - 1) le | None \<Rightarrow> e), y1)
        | (Inr m, y1) \<Rightarrow>
            let y2 = upd_world (inc_active m) y1
            in (case ae_dial ae m of
                Some err \<Rightarrow>
                  let y3 = upd_world (dec_active m) y2
                  in (case ae_after_err ae of
                      Some e \<Rightarrow> Inl (Inl (Cancelled e), y3)
                    | None \<Rightarrow>
                        let (ls', y4) = failed_dial packet lease m err (ae_now ae) ls y3
                        in if ls_attempt ls' < ls_max ls'
                           then (case ae_retry_err ae of
                               Some e \<Rightarrow> Inl (Inl (Cancelled e), y4)
                             | None \<Rightarrow> Inr (ls'\<lparr>ls_attempt := ls_attempt ls' + 1\<rparr>, y4))
                           else Inl (Inl (DialFailed (ls_max ls') err), y4))
              | None \<Rightarrow>
                  (case ae_after_err ae of
                      Some e \<Rightarrow> Inl (Inl (Cancelled e), upd_world (dec_active m) y2)
                    | None \<Rightarrow>
                        let y3 = upd_world (record_pool_success m (ae_now ae)) y2
                        in (case commit_binding (y_pool y3) lease network m (ls_last_err ls \<noteq> None)
                              (ae_now ae) (y_store y3) of
                            None \<Rightarrow> Inl (Inl StorePanic, y3)
                          | Some s \<Rightarrow> Inl (Inr m, y3\<lparr>y_store := s\<rparr>))))))"

function dial_loop ::
  "bool \<Rightarrow> lease option \<Rightarrow> string \<Rightarrow> string \<Rightarrow> (int \<Rightarrow> attempt_env) \<Rightarrow> loop_state \<Rightarrow> pool_sys
    \<Rightarrow> (pool_error + member) \<times> pool_sys" where
  "dial_loop packet lease network sticky_key envs ls y =
     (if ls_max ls < ls_attempt ls
      then (Inl (DialFailed (ls_max ls)
              (case ls_last_err ls of Some e \<Rightarrow> e | None \<Rightarrow> ''no healthy proxy available'')), y)
      else case one_attempt packet lease network sticky_key envs ls y of
          Inl result \<Rightarrow> result
        | Inr (ls', y') \<Rightarrow> dial_loop packet lease network sticky_key envs ls' y')"
  by pat_completeness auto

lemma failed_dial_fields:
  "ls_attempt (fst (failed_dial packet lease m err now ls y)) = ls_attempt ls"
  "lease = None \<Longrightarrow> ls_max (fst (failed_dial packet lease m err now ls y)) = ls_max ls"
  "lease = None \<Longrightarrow> ls_pinned (fst (failed_dial packet lease m err now ls y)) = ls_pinned ls"
  "lease \<noteq> None \<Longrightarrow> (ls_pinned (fst (failed_dial packet lease m err now ls y)),
      ls_tried (fst (failed_dial packet lease m err now ls y)), ls_max (fst (failed_dial packet lease m err now ls y)))
    = drop_failed_pin (y_pool y) (ls_pinned ls) (mark_tried m (ls_tried ls)) (ls_max ls) (ls_attempt ls) m
        (length (po_members (p_options (y_pool y))) \<le> 1)"
  "lease = None \<Longrightarrow> ls_tried (fst (failed_dial packet lease m err now ls y)) = mark_tried m (ls_tried ls)"
  "ls_last_err (fst (failed_dial packet lease m err now ls y)) = Some err"
  "y_pool (snd (failed_dial packet lease m err now ls y)) = y_pool y"
  "y_store (snd (failed_dial packet lease m err now ls y)) = y_store y"
  by (simp_all add: failed_dial_def Let_def case_prod_beta')

lemma drop_failed_pin_budget:
  assumes "drop_failed_pin p pinned tried mx attempt m single = (pinned', tried', mx')" and "attempt \<le> mx"
  shows "mx' + of_bool (pinned' \<noteq> []) \<le> mx + of_bool (pinned \<noteq> [])"
  using assms by (auto simp: drop_failed_pin_def split: if_splits)

lemma failed_dial_budget:
  assumes "ls_attempt ls \<le> ls_max ls"
  shows "ls_max (fst (failed_dial packet lease m err now ls y))
      + of_bool (ls_pinned (fst (failed_dial packet lease m err now ls y)) \<noteq> [])
    \<le> ls_max ls + of_bool (ls_pinned ls \<noteq> [])"
proof (cases "lease = None")
  case True
  then show ?thesis by (simp add: failed_dial_fields)
next
  case False
  from drop_failed_pin_budget [OF failed_dial_fields(4) [OF False, symmetric] assms] show ?thesis .
qed

text \<open>The outcomes of an attempt.\<close>

lemma one_attempt_cases:
  fixes y :: pool_sys
  defines "ae \<equiv> \<lambda>envs ls. envs (ls_attempt ls)"
  obtains
    (stopped) e where "one_attempt packet lease network sk envs ls y = Inl (Inl (Cancelled e), y)"
  | (unpicked) e e' y1 where "pick_for_attempt lease network sk (ae envs ls) ls y = (Inl e, y1)"
      "one_attempt packet lease network sk envs ls y = Inl (Inl e', y1)"
      "e' = (case ls_last_err ls of Some le \<Rightarrow> AfterAttempts e (ls_attempt ls - 1) le | None \<Rightarrow> e)"
  | (cancelled) m y1 e where "pick_for_attempt lease network sk (ae envs ls) ls y = (Inr m, y1)"
      "one_attempt packet lease network sk envs ls y
        = Inl (Inl (Cancelled e), upd_world (dec_active m) (upd_world (inc_active m) y1))"
  | (failed) m y1 err ls' y4 where "pick_for_attempt lease network sk (ae envs ls) ls y = (Inr m, y1)"
      "ae_dial (ae envs ls) m = Some err" "ae_after_err (ae envs ls) = None"
      "failed_dial packet lease m err (ae_now (ae envs ls)) ls
        (upd_world (dec_active m) (upd_world (inc_active m) y1)) = (ls', y4)"
      "one_attempt packet lease network sk envs ls y = (if ls_attempt ls < ls_max ls'
         then case ae_retry_err (ae envs ls) of Some e \<Rightarrow> Inl (Inl (Cancelled e), y4)
              | None \<Rightarrow> Inr (ls'\<lparr>ls_attempt := ls_attempt ls + 1\<rparr>, y4)
         else Inl (Inl (DialFailed (ls_max ls') err), y4))"
  | (connected) m y1 where "pick_for_attempt lease network sk (ae envs ls) ls y = (Inr m, y1)"
      "ae_dial (ae envs ls) m = None" "ae_after_err (ae envs ls) = None"
      "one_attempt packet lease network sk envs ls y =
        (let y3 = upd_world (record_pool_success m (ae_now (ae envs ls))) (upd_world (inc_active m) y1)
         in case commit_binding (y_pool y3) lease network m (ls_last_err ls \<noteq> None) (ae_now (ae envs ls)) (y_store y3) of
              None \<Rightarrow> Inl (Inl StorePanic, y3) | Some s \<Rightarrow> Inl (Inr m, y3\<lparr>y_store := s\<rparr>))"
proof -
  obtain r y1 where pick: "pick_for_attempt lease network sk (envs (ls_attempt ls)) ls y = (r, y1)" by force
  note go = one_attempt_def [of packet lease network sk envs ls y] Let_def pick
  show thesis
  proof (cases "ae_start_err (envs (ls_attempt ls))")
    case (Some e)
    then show thesis by (intro stopped [of e]) (simp add: go)
  next
    case start: None
    show thesis
    proof (cases r)
      case (Inl e)
      show thesis by (rule unpicked) (simp_all add: ae_def go Inl start)
    next
      case (Inr m)
      show thesis
      proof (cases "ae_after_err (envs (ls_attempt ls))")
        case (Some e)
        then show thesis using pick Inr
          by (intro cancelled [of m y1 e]) (simp_all add: ae_def go start split: option.splits)
      next
        case after: None
        show thesis
        proof (cases "ae_dial (envs (ls_attempt ls)) m")
          case None
          then show thesis using pick Inr after
            by (intro connected [of m y1]) (simp_all add: ae_def go start)
        next
          case (Some err)
          obtain ls' y4 where f: "failed_dial packet lease m err (ae_now (envs (ls_attempt ls))) ls
            (upd_world (dec_active m) (upd_world (inc_active m) y1)) = (ls', y4)" by force
          then have "ls_attempt ls' = ls_attempt ls" by (metis failed_dial_fields(1) fst_conv)
          then show thesis using pick Inr after Some f
            by (intro failed [of m y1 err ls' y4])
              (simp_all add: ae_def go start split: option.splits)
        qed
      qed
    qed
  qed
qed

text \<open>What an attempt that is followed by another one has done.\<close>

lemma one_attempt_again:
  assumes "one_attempt packet lease network sk envs ls y = Inr (ls', y')"
  obtains m y1 err ls1 where "pick_for_attempt lease network sk (envs (ls_attempt ls)) ls y = (Inr m, y1)"
    "failed_dial packet lease m err (ae_now (envs (ls_attempt ls))) ls
        (upd_world (dec_active m) (upd_world (inc_active m) y1)) = (ls1, y')"
    "ls' = ls1\<lparr>ls_attempt := ls_attempt ls + 1\<rparr>" "ls_attempt ls < ls_max ls1"
proof (cases rule: one_attempt_cases [where packet = packet and lease = lease and network = network
      and sk = sk and envs = envs and ls = ls and y = y])
  case (failed m y1 err ls1 y4)
  then show thesis using assms by (intro that [of m y1 err ls1]) (auto split: if_splits option.splits)
next
  case (connected m y1)
  then show thesis using assms by (auto simp: Let_def split: option.splits)
qed (use assms in auto)

lemma one_attempt_decreases:
  assumes "ls_attempt ls \<le> ls_max ls" and "one_attempt packet lease network sk envs ls y = Inr (ls', y')"
  shows "ls_attempt ls' = ls_attempt ls + 1" "ls_attempt ls' \<le> ls_max ls'"
    "ls_max ls' + of_bool (ls_pinned ls' \<noteq> []) \<le> ls_max ls + of_bool (ls_pinned ls \<noteq> [])"
    "loop_measure ls' < loop_measure ls"
proof -
  obtain m y1 err ls1 where f: "failed_dial packet lease m err (ae_now (envs (ls_attempt ls))) ls
        (upd_world (dec_active m) (upd_world (inc_active m) y1)) = (ls1, y')"
    and ls': "ls' = ls1\<lparr>ls_attempt := ls_attempt ls + 1\<rparr>" "ls_attempt ls < ls_max ls1"
    using assms(2) by (rule one_attempt_again)
  show att: "ls_attempt ls' = ls_attempt ls + 1" by (simp add: ls'(1))
  show le: "ls_attempt ls' \<le> ls_max ls'" using ls' by simp
  show bud: "ls_max ls' + of_bool (ls_pinned ls' \<noteq> []) \<le> ls_max ls + of_bool (ls_pinned ls \<noteq> [])"
    using failed_dial_budget [OF assms(1), of packet lease m err "ae_now (envs (ls_attempt ls))"
        "upd_world (dec_active m) (upd_world (inc_active m) y1)"] by (simp add: ls'(1) f)
  have "(0 :: int) \<le> of_bool (ls_pinned ls' \<noteq> [])" "(0 :: int) \<le> of_bool (ls_pinned ls \<noteq> [])" by simp_all
  then show "loop_measure ls' < loop_measure ls"
    using att bud le assms(1) unfolding loop_measure_def by linarith
qed

termination dial_loop
proof (relation "measure (\<lambda>(packet, lease, network, sticky_key, envs, ls, y). loop_measure ls)", simp, goal_cases)
  case prems: (1 packet lease network sk envs ls y b x ya)
  then show ?case using one_attempt_decreases(4) [of ls packet lease network sk envs y x ya] by (cases b) simp
qed

declare dial_loop.simps [simp del]

text \<open>Reasoning about the loop: an invariant of the attempts gives a property of the result.\<close>

lemma dial_loop_rule:
  assumes step: "\<And>ls y. I ls y \<Longrightarrow> ls_attempt ls \<le> ls_max ls \<Longrightarrow>
      (case one_attempt packet lease network sk envs ls y of Inl (r, y') \<Rightarrow> Q r y' | Inr (ls', y') \<Rightarrow> I ls' y')"
    and "I ls y" and "ls_attempt ls \<le> ls_max ls"
  shows "Q (fst (dial_loop packet lease network sk envs ls y)) (snd (dial_loop packet lease network sk envs ls y))"
  using assms(2,3)
proof (induction "loop_measure ls" arbitrary: ls y rule: less_induct)
  case less
  have run: "dial_loop packet lease network sk envs ls y = (case one_attempt packet lease network sk envs ls y of
      Inl result \<Rightarrow> result | Inr (ls', y') \<Rightarrow> dial_loop packet lease network sk envs ls' y')"
    using less.prems(2) by (subst dial_loop.simps) simp
  show ?case
  proof (cases "one_attempt packet lease network sk envs ls y")
    case (Inl res)
    then show ?thesis using step [OF less.prems] by (cases res) (simp add: run)
  next
    case (Inr nxt)
    obtain ls' y' where nxt: "nxt = (ls', y')" by force
    then have "I ls' y'" using step [OF less.prems] Inr by simp
    moreover have "ls_attempt ls' \<le> ls_max ls'" "loop_measure ls' < loop_measure ls"
      using one_attempt_decreases [OF less.prems(2)] Inr nxt by simp_all
    ultimately show ?thesis using less.hyps [of ls' y'] by (simp add: run Inr nxt)
  qed
qed

section \<open>The two entry points\<close>

definition start_loop :: "pool \<Rightarrow> string \<Rightarrow> loop_state" where
  "start_loop p pinned =
     (let mx = max_attempts p; single = (length (po_members (p_options p)) \<le> 1)
      in \<lparr>ls_attempt = 1, ls_max = mx, ls_pinned = pinned,
          ls_tried = (if \<not> single \<and> mx > 1 then Some [] else None), ls_last_err = None\<rparr>)"

definition dial_with ::
  "bool \<Rightarrow> string \<Rightarrow> request \<Rightarrow> (int \<Rightarrow> attempt_env) \<Rightarrow> pool_sys \<Rightarrow> (pool_error + member) \<times> pool_sys" where
  "dial_with packet network rq envs y =
     (case acquire_session rq (y_pool y) (y_store y) of
        (Inl e, s) \<Rightarrow> (Inl (Cancelled e), y\<lparr>y_store := s\<rparr>)
      | (Inr (lease, b), s) \<Rightarrow>
          let sticky_key = (if lease \<noteq> None then [] else sticky_key_from_ctx (rq_source rq) (y_pool y));
              (r, y') = dial_loop packet lease network sticky_key envs
                          (start_loop (y_pool y) (b_node_id b)) (y\<lparr>y_store := s\<rparr>)
          in (r, (case lease of None \<Rightarrow> y' | Some l \<Rightarrow> y'\<lparr>y_store := lease_release l (y_store y')\<rparr>)))"

definition dial_context ::
  "string \<Rightarrow> request \<Rightarrow> (int \<Rightarrow> attempt_env) \<Rightarrow> pool_sys \<Rightarrow> (pool_error + member) \<times> pool_sys" where
  "dial_context = dial_with False"

definition listen_packet ::
  "request \<Rightarrow> (int \<Rightarrow> attempt_env) \<Rightarrow> pool_sys \<Rightarrow> (pool_error + member) \<times> pool_sys" where
  "listen_packet = dial_with True network_udp"

section \<open>The wrapped connection\<close>

record tracked_conn =
  tc_member :: member
  tc_done :: bool         \<comment> \<open>\<open>once\<close> has run\<close>

definition wrap_conn :: "member \<Rightarrow> tracked_conn" where
  "wrap_conn m = \<lparr>tc_member = m, tc_done = False\<rparr>"

definition close_conn :: "tracked_conn \<Rightarrow> world \<Rightarrow> tracked_conn \<times> world" where
  "close_conn c w = (if tc_done c then (c, w) else (c\<lparr>tc_done := True\<rparr>, dec_active (tc_member c) w))"

end
