(* ===== verification/PoolSafety.thy ===== *)
theory PoolSafety
  imports PoolDial
begin

text \<open>
  Properties of dialling through a pool, over \<open>PoolDial\<close>: connection counts balance, the number
  of attempts is bounded, a cancelled request blames no node, a session's binding follows the
  dial, and the session's lease is always given back.
\<close>

section \<open>What a pick leaves alone\<close>

lemma pick_result_parts:
  fixes f g :: "'m \<Rightarrow> 'r" and e h :: 'r and a k :: 'p and b d :: 'w
  defines "r \<equiv> \<lambda>x c z. (case x of Some m \<Rightarrow> (f m, a, b)
     | None \<Rightarrow> if c then (e, a, d) else (case z of Some m \<Rightarrow> (g m, a, d) | None \<Rightarrow> (h, k, d)))"
  shows "snd (snd (r x c z)) \<in> {b, d}" and "fst (snd (r x c z)) \<in> {a, k}"
  unfolding r_def by (auto split: option.splits)

text \<open>The worlds and the pools a pick may end with.\<close>

lemma pick_ready_parts:
  fixes env network tried sk nid p w
  defines "p2 \<equiv> if nid \<noteq> [] \<and> p_members_by_id p = None then index_members_locked p else p"
  defines "fu \<equiv> if nid = [] then (None, w) else first_usable (pe_now env) network tried
      (case mget (case p_members_by_id p2 of None \<Rightarrow> [] | Some ix \<Rightarrow> ix) nid of None \<Rightarrow> [] | Some ms \<Rightarrow> ms) w"
  defines "ar \<equiv> available_or_recovered (pe_now env) network p2 (snd fu)"
  shows "snd (snd (pick_ready env network tried sk nid p w)) \<in> {snd fu, snd ar}"
    and "\<exists>cs. fst (snd (pick_ready env network tried sk nid p w))
      \<in> {p2, snd (select_member (pe_rand env) (snd ar) cs sk p2)}"
proof -
  let ?fresh = "filter (\<lambda>m. \<not> was_tried tried (mb_tag m)) (fst ar)"
  let ?cs = "if tried \<noteq> None \<and> tried \<noteq> Some [] \<and> ?fresh \<noteq> [] then ?fresh else fst ar"
  let ?sel = "select_member (pe_rand env) (snd ar) ?cs sk p2"
  have run: "pick_ready env network tried sk nid p w = (case fst fu of Some m \<Rightarrow> (Inr m, p2, snd fu)
      | None \<Rightarrow> if fst ar = [] then (Inl NoHealthyProxy, p2, snd ar)
        else (case (if nid = [] then None else find (\<lambda>m. member_identity p2 m = nid) ?cs) of
            Some m \<Rightarrow> (Inr m, p2, snd ar)
          | None \<Rightarrow> (case fst ?sel of Some m \<Rightarrow> Inr m | None \<Rightarrow> Inl NilMember, snd ?sel, snd ar)))"
    unfolding pick_ready_def Let_def case_prod_beta' fu_def [symmetric] ar_def [symmetric] p2_def [symmetric]
    by (rule refl)
  show "snd (snd (pick_ready env network tried sk nid p w)) \<in> {snd fu, snd ar}"
    unfolding run by (rule pick_result_parts(1))
  show "\<exists>cs. fst (snd (pick_ready env network tried sk nid p w))
      \<in> {p2, snd (select_member (pe_rand env) (snd ar) cs sk p2)}"
    unfolding run by (rule exI, rule pick_result_parts(2))
qed

definition same_active :: "world \<Rightarrow> world \<Rightarrow> bool" where
  "same_active w w' \<longleftrightarrow> (\<forall>b. h_active (w_health w' b) = h_active (w_health w b))"

lemma same_active_refl [simp]: "same_active w w"
  by (simp add: same_active_def)

lemma same_active_trans: "same_active w w' \<Longrightarrow> same_active w' w'' \<Longrightarrow> same_active w w''"
  by (simp add: same_active_def)

lemma same_active_check: "same_active w (snd (shared_is_blacklisted now a w))"
  by (simp add: same_active_def shared_is_blacklisted_frame)

lemma same_active_release: "same_active w (snd (shared_release_if_permanent now a w))"
  by (auto simp: same_active_def release_if_permanent_spec(2) health_clear_def)

text \<open>
  A property of worlds that checks and automatic releases preserve is preserved by a pick. The
  properties used are: same connection counts, and no node worse off.
\<close>

locale pick_invariant =
  fixes inv :: "world \<Rightarrow> bool"
  assumes inv_check: "inv w \<Longrightarrow> inv (snd (shared_is_blacklisted now a w))"
    and inv_release: "inv w \<Longrightarrow> inv (snd (shared_release_if_permanent now a w))"
begin

lemma inv_available: "inv w \<Longrightarrow> inv (snd (available_members_locked now network p w))"
  unfolding available_scan by (rule bans.scan_invariant) (auto intro: inv_check)

lemma inv_all_blacklisted: "inv w \<Longrightarrow> inv (snd (all_blacklisted now ms w))"
proof (induction ms arbitrary: w)
  case (Cons m ms)
  then show ?case by (cases "mb_shared m") (auto simp: Let_def case_prod_beta' intro: inv_check)
qed simp

lemma inv_release_run: "inv w \<Longrightarrow> inv (snd (release_run now ms n w))"
proof (induction ms arbitrary: n w)
  case (Cons m ms)
  then show ?case
    by (cases "mb_shared m") (simp_all add: release_run_def Let_def case_prod_beta' inv_release)
qed (simp add: release_run_def)

lemma inv_release_all: "inv w \<Longrightarrow> inv (snd (release_if_all_blacklisted_locked now p w))"
  using inv_all_blacklisted inv_release_run [of _ now "p_members p" 0]
  by (simp add: release_if_all_blacklisted_locked_def release_members_def release_run_def Let_def case_prod_beta')

lemma inv_candidates: "inv w \<Longrightarrow> inv (snd (available_or_recovered now network p w))"
  using inv_available inv_release_all
  by (simp add: available_or_recovered_def Let_def case_prod_beta')

lemma inv_first_usable: "inv w \<Longrightarrow> inv (snd (first_usable now network tried ms w))"
proof (induction ms arbitrary: w)
  case (Cons m ms)
  then show ?case by (cases "mb_shared m") (auto simp: Let_def case_prod_beta' intro: inv_check)
qed simp

lemma inv_pick_ready: "inv w \<Longrightarrow> inv (snd (snd (pick_ready env network tried sk nid p w)))"
  using pick_ready_parts(1) [of env network tried sk nid p w] inv_first_usable inv_candidates
  by (auto split: if_splits)

end

interpretation active_kept: pick_invariant "same_active w0" for w0
  by unfold_locales (blast intro: same_active_trans same_active_check same_active_release)+

text \<open>A node is no worse off: no failure counted, no ban added or prolonged.\<close>

definition no_worse :: "world \<Rightarrow> world \<Rightarrow> bool" where
  "no_worse w w' \<longleftrightarrow> (\<forall>b. (h_failures (w_health w' b) = h_failures (w_health w b) \<or> h_failures (w_health w' b) = 0)
     \<and> (h_blacklisted (w_health w' b) \<longrightarrow> h_blacklisted (w_health w b) \<and> h_until (w_health w' b) = h_until (w_health w b)))"

lemma no_worse_refl [simp]: "no_worse w w"
  by (simp add: no_worse_def)

lemma no_worse_trans: "no_worse w w' \<Longrightarrow> no_worse w' w'' \<Longrightarrow> no_worse w w''"
  unfolding no_worse_def by metis

lemma no_worse_check: "no_worse w (snd (shared_is_blacklisted now a w))"
  by (auto simp: no_worse_def shared_is_blacklisted_def health_is_blacklisted_def Let_def)

lemma no_worse_release: "no_worse w (snd (shared_release_if_permanent now a w))"
  by (auto simp: no_worse_def release_if_permanent_spec(2) health_clear_def)

interpretation blameless: pick_invariant "no_worse w0" for w0
  by unfold_locales (blast intro: no_worse_trans no_worse_check no_worse_release)+

section \<open>The pool stays set up\<close>

definition pool_ready :: "pool \<Rightarrow> bool" where
  "pool_ready p \<longleftrightarrow> p_members p \<noteq> [] \<and> index_ok p"

definition same_members :: "pool \<Rightarrow> pool \<Rightarrow> bool" where
  "same_members p p' \<longleftrightarrow> p_members p' = p_members p \<and> p_options p' = p_options p
     \<and> p_members_by_id p' = p_members_by_id p"

lemma same_members_select_by_mode: "same_members p (snd (select_by_mode rand w cs p))"
  by (auto simp: same_members_def select_by_mode_def select_round_robin_def next_turn_def Let_def
      case_prod_beta' split: option.splits)

lemma same_members_select: "same_members p (snd (select_member rand w cs key p))"
proof (cases "key = []")
  case True
  then show ?thesis using same_members_select_by_mode [of p] by (simp add: select_member_def)
next
  case False
  show ?thesis
    using same_members_select_by_mode [of p rand w cs]
      same_members_select_by_mode [of "p\<lparr>p_sticky_map := mdel key (p_sticky_map p)\<rparr>" rand w cs] False
    by (auto simp: select_member_def select_sticky_def same_members_def Let_def case_prod_beta'
        split: option.splits)
qed

lemma same_members_ready:
  "same_members p p' \<Longrightarrow> pool_ready p \<Longrightarrow> pool_ready p' \<and> member_identity p' = member_identity p"
  by (simp add: pool_ready_def same_members_def index_ok_def member_identity_def fun_eq_iff)

lemma pick_ready_pool:
  assumes "pool_ready p"
  shows "pool_ready (fst (snd (pick_ready env network tried sk nid p w)))
    \<and> p_options (fst (snd (pick_ready env network tried sk nid p w))) = p_options p"
proof -
  let ?p2 = "if nid \<noteq> [] \<and> p_members_by_id p = None then index_members_locked p else p"
  have p2: "pool_ready ?p2" "p_options ?p2 = p_options p"
    using assms index_members_ok by (auto simp: pool_ready_def)
  have sel: "pool_ready (snd (select_member rand v cs key ?p2)) \<and> p_options (snd (select_member rand v cs key ?p2)) = p_options p"
    for rand v cs key
    using same_members_ready [OF same_members_select p2(1)] same_members_select [of ?p2 rand v cs key] p2(2)
    by (simp add: same_members_def)
  obtain cs where "fst (snd (pick_ready env network tried sk nid p w)) = ?p2 \<or>
      (\<exists>v. fst (snd (pick_ready env network tried sk nid p w)) = snd (select_member (pe_rand env) v cs sk ?p2))"
    using pick_ready_parts(2) [of env network tried sk nid p w] by blast
  then show ?thesis
  proof (elim disjE exE)
    assume "fst (snd (pick_ready env network tried sk nid p w)) = ?p2"
    then show ?thesis by (simp only: p2 simp_thms)
  next
    fix v assume "fst (snd (pick_ready env network tried sk nid p w)) = snd (select_member (pe_rand env) v cs sk ?p2)"
    then show ?thesis by (simp only: sel simp_thms)
  qed
qed

lemma pick_for_attempt_frame:
  assumes "pool_ready (y_pool y)" and "pick_for_attempt lease network sk ae ls y = (r, y1)"
  shows "pool_ready (y_pool y1)" "p_options (y_pool y1) = p_options (y_pool y)" "y_store y1 = y_store y"
    "same_active (y_world y) (y_world y1)" "no_worse (y_world y) (y_world y1)"
proof -
  have ne: "p_members (y_pool y) \<noteq> []" using assms(1) by (simp add: pool_ready_def)
  obtain tried sk' nid where
    run: "pick_for_attempt lease network sk ae ls y = (let (r, p, w) = pick_ready (ae_pick ae) network tried sk' nid (y_pool y) (y_world y)
        in (r, y\<lparr>y_pool := p, y_world := w\<rparr>))"
    using pick_member_for_ready [OF ne]
    by (cases lease) (auto simp: pick_for_attempt_def pick_member_for_session_def pick_member_filtered_def)
  let ?r = "pick_ready (ae_pick ae) network tried sk' nid (y_pool y) (y_world y)"
  have y1: "y1 = y\<lparr>y_pool := fst (snd ?r), y_world := snd (snd ?r)\<rparr>"
    using assms(2) unfolding run by (simp add: Let_def case_prod_beta')
  show "pool_ready (y_pool y1)" "p_options (y_pool y1) = p_options (y_pool y)"
    using pick_ready_pool [OF assms(1)] by (simp_all add: y1)
  show "y_store y1 = y_store y" by (simp add: y1)
  show "same_active (y_world y) (y_world y1)" using active_kept.inv_pick_ready by (simp add: y1)
  show "no_worse (y_world y) (y_world y1)" using blameless.inv_pick_ready by (simp add: y1)
qed

lemma upd_world_fields [simp]:
  "y_pool (upd_world f y) = y_pool y" "y_store (upd_world f y) = y_store y"
  "y_world (upd_world f y) = f (y_world y)"
  by (simp_all add: upd_world_def)

section \<open>Connection counts\<close>

definition active_at :: "nat \<Rightarrow> world \<Rightarrow> 32 word" where
  "active_at b w = h_active (w_health w b)"

lemma active_inc: "active_at b (inc_active m w) = active_at b w + of_bool (mb_shared m = Some b)"
  by (auto simp: active_at_def inc_active_def shared_inc_active_def split: option.splits)

lemma active_dec: "active_at b (dec_active m w) = active_at b w - of_bool (mb_shared m = Some b)"
  by (auto simp: active_at_def dec_active_def shared_dec_active_def split: option.splits)

lemma health_ops_active:
  "h_active (snd (health_record_failure c p now h)) = h_active h"
  "h_active (snd (health_blacklist_now p now h)) = h_active h"
  by (simp_all add: health_record_failure_def health_blacklist_now_def Let_def case_prod_beta')

lemma active_records:
  "active_at b (record_pool_failure p m c now w) = active_at b w"
  "active_at b (record_pin_failure p m c now w) = active_at b w"
  "active_at b (record_pool_success m now w) = active_at b w"
  by (auto simp: active_at_def record_pool_failure_def record_pin_failure_def record_pool_success_def
      shared_record_failure_def shared_blacklist_now_def shared_record_success_def health_record_success_def
      health_ops_active Let_def case_prod_beta' split: option.splits)

lemma active_failed_dial:
  "active_at b (y_world (snd (failed_dial packet lease m err now ls y))) = active_at b (y_world y)"
  by (simp add: failed_dial_def Let_def case_prod_beta' active_records)

lemma same_active_at: "same_active w w' \<Longrightarrow> active_at b w' = active_at b w"
  by (simp add: same_active_def active_at_def)

lemma attempt_active:
  assumes "pool_ready (y_pool y)"
  shows "case one_attempt packet lease network sk envs ls y of
      Inl (Inl e, y') \<Rightarrow> e = StorePanic \<or> active_at b (y_world y') = active_at b (y_world y)
    | Inl (Inr m, y') \<Rightarrow> active_at b (y_world y') = active_at b (y_world y) + of_bool (mb_shared m = Some b)
    | Inr (ls', y') \<Rightarrow> active_at b (y_world y') = active_at b (y_world y) \<and> pool_ready (y_pool y')"
proof -
  note frame = pick_for_attempt_frame [OF assms]
  show ?thesis
  proof (cases rule: one_attempt_cases [where packet = packet and lease = lease and network = network
        and sk = sk and envs = envs and ls = ls and y = y])
    case (failed m y1 err ls' y4)
    then have y4: "y4 = snd (failed_dial packet lease m err (ae_now (envs (ls_attempt ls))) ls
        (upd_world (dec_active m) (upd_world (inc_active m) y1)))" by (metis snd_conv)
    have "active_at b (y_world y4) = active_at b (y_world y)"
      using same_active_at [OF frame(4) [OF failed(1)]] by (simp add: y4 active_failed_dial active_inc active_dec)
    moreover have "pool_ready (y_pool y4)" using frame(1) [OF failed(1)] by (simp add: y4 failed_dial_fields)
    ultimately show ?thesis using failed(5) by (auto split: option.splits)
  next
    case (connected m y1)
    then show ?thesis
      using same_active_at [OF frame(4) [OF connected(1)]]
      by (simp add: Let_def active_records active_inc split: option.splits)
  qed (use frame same_active_at in \<open>auto simp: active_inc active_dec\<close>)
qed

lemma dial_loop_active:
  fixes y :: pool_sys
  assumes "pool_ready (y_pool y)" and "ls_attempt ls \<le> ls_max ls"
  shows "case dial_loop packet lease network sk envs ls y of
      (Inl e, y') \<Rightarrow> e = StorePanic \<or> active_at b (y_world y') = active_at b (y_world y)
    | (Inr m, y') \<Rightarrow> active_at b (y_world y') = active_at b (y_world y) + of_bool (mb_shared m = Some b)"
proof -
  let ?Q = "\<lambda>r y'. case r of Inl e \<Rightarrow> e = StorePanic \<or> active_at b (y_world y') = active_at b (y_world y)
    | Inr m \<Rightarrow> active_at b (y_world y') = active_at b (y_world y) + of_bool (mb_shared m = Some b)"
  let ?I = "\<lambda>(ls :: loop_state) y'. pool_ready (y_pool y') \<and> active_at b (y_world y') = active_at b (y_world y)"
  have "?Q (fst (dial_loop packet lease network sk envs ls y)) (snd (dial_loop packet lease network sk envs ls y))"
  proof (rule dial_loop_rule [where I = ?I and Q = ?Q])
    fix ls and z :: pool_sys assume "?I ls z"
    then show "case one_attempt packet lease network sk envs ls z of
        Inl (r, y') \<Rightarrow> ?Q r y' | Inr (ls', y') \<Rightarrow> ?I ls' y'"
      using attempt_active [where y = z and packet = packet and lease = lease and network = network
          and sk = sk and envs = envs and ls = ls and b = b] by (auto split: sum.splits prod.splits)
  qed (use assms in simp_all)
  then show ?thesis by (simp add: case_prod_beta')
qed

text \<open>A request is the acquisition of its session, the loop and the release of its lease.\<close>

lemma dial_with_run:
  assumes "dial_with packet network rq envs y = (r, y')"
  shows "(\<exists>e s. acquire_session rq (y_pool y) (y_store y) = (Inl e, s)
        \<and> r = Inl (Cancelled e) \<and> y' = y\<lparr>y_store := s\<rparr>)
    \<or> (\<exists>lease bnd s sk y1. acquire_session rq (y_pool y) (y_store y) = (Inr (lease, bnd), s)
        \<and> dial_loop packet lease network sk envs (start_loop (y_pool y) (b_node_id bnd)) (y\<lparr>y_store := s\<rparr>) = (r, y1)
        \<and> y' = (case lease of None \<Rightarrow> y1 | Some l \<Rightarrow> y1\<lparr>y_store := lease_release l (y_store y1)\<rparr>))"
proof (cases "acquire_session rq (y_pool y) (y_store y)")
  case (Pair res s)
  show ?thesis
  proof (cases res)
    case (Inl e)
    then show ?thesis using assms Pair by (auto simp: dial_with_def)
  next
    case (Inr lb)
    obtain lease bnd where lb: "lb = (lease, bnd)" by force
    obtain sk where sk: "sk = (if lease \<noteq> None then [] else sticky_key_from_ctx (rq_source rq) (y_pool y))" by blast
    obtain r1 y1 where run:
      "dial_loop packet lease network sk envs (start_loop (y_pool y) (b_node_id bnd)) (y\<lparr>y_store := s\<rparr>) = (r1, y1)"
      by force
    have "r = r1 \<and> y' = (case lease of None \<Rightarrow> y1 | Some l \<Rightarrow> y1\<lparr>y_store := lease_release l (y_store y1)\<rparr>)"
      using assms unfolding dial_with_def Pair Inr lb prod.case sum.case Let_def sk [symmetric] run by auto
    with run show ?thesis using Pair Inr lb by blast
  qed
qed

lemma start_loop_bounds: "ls_attempt (start_loop p pinned) \<le> ls_max (start_loop p pinned)"
  by (simp add: start_loop_def max_attempts_def Let_def)

lemma close_conn_twice: "close_conn (fst (close_conn c w)) (snd (close_conn c w)) = close_conn c w"
  by (simp add: close_conn_def)

text \<open>
  connection counts balance. A dial that fails, however many members it tried, leaves every
  node's count of connections as it was; a dial that succeeds counts one connection on the node
  it went through; and closing the wrapped connection, once or repeatedly, takes exactly that
  one away.
\<close>

lemma connection_counts_balance:
  assumes "pool_ready (y_pool y)" and "dial_with packet network rq envs y = (r, y')"
  shows "case r of
      Inl e \<Rightarrow> e = StorePanic \<or> (\<forall>b. active_at b (y_world y') = active_at b (y_world y))
    | Inr m \<Rightarrow> (\<forall>b. active_at b (y_world y') = active_at b (y_world y) + of_bool (mb_shared m = Some b))
        \<and> (let (c, w) = close_conn (wrap_conn m) (y_world y') in
            (\<forall>b. active_at b w = active_at b (y_world y)) \<and> snd (close_conn c w) = w)"
proof -
  have counts: "case r of Inl e \<Rightarrow> e = StorePanic \<or> active_at b (y_world y') = active_at b (y_world y)
    | Inr m \<Rightarrow> active_at b (y_world y') = active_at b (y_world y) + of_bool (mb_shared m = Some b)" for b
    using dial_with_run [OF assms(2)]
  proof (elim disjE exE conjE)
    fix e s assume "r = Inl (Cancelled e)" "y' = y\<lparr>y_store := s\<rparr>"
    then show ?thesis by simp
  next
    fix lease bnd s sk y1
    assume run: "dial_loop packet lease network sk envs (start_loop (y_pool y) (b_node_id bnd)) (y\<lparr>y_store := s\<rparr>) = (r, y1)"
      and y': "y' = (case lease of None \<Rightarrow> y1 | Some l \<Rightarrow> y1\<lparr>y_store := lease_release l (y_store y1)\<rparr>)"
    have "pool_ready (y_pool (y\<lparr>y_store := s\<rparr>))" using assms(1) by simp
    from dial_loop_active [OF this start_loop_bounds [of "y_pool y" "b_node_id bnd"],
        where packet = packet and lease = lease and network = network and sk = sk and envs = envs and b = b]
    show ?thesis unfolding run y' by (cases r) (auto split: option.splits)
  qed
  show ?thesis
  proof (cases r)
    case (Inl e)
    then show ?thesis using counts by auto
  next
    case (Inr m)
    then show ?thesis using counts
      by (simp add: wrap_conn_def close_conn_def Let_def active_dec)
  qed
qed

section \<open>Bounded attempts\<close>

lemma dial_loop_cong:
  assumes "\<forall>i. ls_attempt ls \<le> i \<and> i \<le> ls_max ls + of_bool (ls_pinned ls \<noteq> []) \<longrightarrow> envs i = envs' i"
    and "ls_attempt ls \<le> ls_max ls"
  shows "dial_loop packet lease network sk envs ls y = dial_loop packet lease network sk envs' ls y"
  using assms
proof (induction "loop_measure ls" arbitrary: ls y rule: less_induct)
  case less
  have "envs (ls_attempt ls) = envs' (ls_attempt ls)" using less.prems by simp
  then have same: "one_attempt packet lease network sk envs ls y = one_attempt packet lease network sk envs' ls y"
    by (simp add: one_attempt_def)
  show ?case
  proof (cases "one_attempt packet lease network sk envs ls y")
    case (Inl res)
    then show ?thesis using same by (simp add: dial_loop.simps [of _ _ _ _ _ ls])
  next
    case (Inr nxt)
    obtain ls' y' where nxt: "nxt = (ls', y')" by force
    note dec = one_attempt_decreases [OF less.prems(2) Inr [unfolded nxt]]
    have "dial_loop packet lease network sk envs ls' y' = dial_loop packet lease network sk envs' ls' y'"
      by (rule less.hyps [OF dec(4) _ dec(2)]) (use less.prems(1) dec(1,3) in auto)
    then have "(case one_attempt packet lease network sk envs ls y of Inl result \<Rightarrow> result
          | Inr (ls', y') \<Rightarrow> dial_loop packet lease network sk envs ls' y')
        = (case one_attempt packet lease network sk envs' ls y of Inl result \<Rightarrow> result
          | Inr (ls', y') \<Rightarrow> dial_loop packet lease network sk envs' ls' y')"
      unfolding same [symmetric] Inr nxt by simp
    then show ?thesis by (simp only: dial_loop.simps [where packet = packet and lease = lease and network = network and sticky_key = sk and ls = ls and y = y])
  qed
qed

text \<open>
  a request makes a bounded number of attempts: at most the configured budget, and one more
  when the session's pinned node fails, so nothing the world would answer after that many
  attempts has any influence on the result.
\<close>

lemma attempts_bounded:
  assumes "\<forall>i. 1 \<le> i \<and> i \<le> max_attempts (y_pool y) + of_bool (po_session_routing (p_options (y_pool y)))
      \<longrightarrow> envs i = envs' i"
  shows "dial_with packet network rq envs y = dial_with packet network rq envs' y"
proof (cases "acquire_session rq (y_pool y) (y_store y)")
  case (Pair res s)
  have "dial_loop packet lease network sk envs (start_loop (y_pool y) (b_node_id bnd)) z
      = dial_loop packet lease network sk envs' (start_loop (y_pool y) (b_node_id bnd)) z"
    if "res = Inr (lease, bnd)" for lease bnd sk z
  proof (rule dial_loop_cong [OF _ start_loop_bounds])
    have "b_node_id bnd = [] \<or> po_session_routing (p_options (y_pool y))"
      using Pair that by (auto simp: acquire_session_def no_binding_def split: option.splits if_splits)
    then show "\<forall>i. ls_attempt (start_loop (y_pool y) (b_node_id bnd)) \<le> i
        \<and> i \<le> ls_max (start_loop (y_pool y) (b_node_id bnd))
          + of_bool (ls_pinned (start_loop (y_pool y) (b_node_id bnd)) \<noteq> []) \<longrightarrow> envs i = envs' i"
      using assms by (auto simp: start_loop_def Let_def)
  qed
  then show ?thesis using Pair by (cases res) (auto simp: dial_with_def Let_def)
qed

section \<open>Cancelled requests\<close>

lemma no_worse_active [simp]:
  "no_worse w (inc_active m v) = no_worse w v" "no_worse w (dec_active m v) = no_worse w v"
proof -
  have "h_failures (w_health (inc_active m v) b) = h_failures (w_health v b)"
    "h_blacklisted (w_health (inc_active m v) b) = h_blacklisted (w_health v b)"
    "h_until (w_health (inc_active m v) b) = h_until (w_health v b)"
    "h_failures (w_health (dec_active m v) b) = h_failures (w_health v b)"
    "h_blacklisted (w_health (dec_active m v) b) = h_blacklisted (w_health v b)"
    "h_until (w_health (dec_active m v) b) = h_until (w_health v b)" for b
    by (simp_all add: inc_active_def dec_active_def shared_inc_active_def shared_dec_active_def split: option.splits)
  then show "no_worse w (inc_active m v) = no_worse w v" "no_worse w (dec_active m v) = no_worse w v"
    by (simp_all add: no_worse_def)
qed

lemma attempt_cancelled:
  assumes "pool_ready (y_pool y)" and "ae_after_err (envs (ls_attempt ls)) \<noteq> None"
  shows "\<exists>e y'. one_attempt packet lease network sk envs ls y = Inl (Inl e, y') \<and> no_worse (y_world y) (y_world y')"
proof -
  note frame = pick_for_attempt_frame [OF assms(1)]
  show ?thesis
  proof (cases rule: one_attempt_cases [where packet = packet and lease = lease and network = network
        and sk = sk and envs = envs and ls = ls and y = y])
    case (stopped e)
    then show ?thesis by (intro exI conjI, assumption) simp
  next
    case (unpicked e e' y1)
    then show ?thesis using frame(5) by blast
  next
    case (cancelled m y1 e)
    have "no_worse (y_world y) (y_world (upd_world (dec_active m) (upd_world (inc_active m) y1)))"
      using frame(5) [OF cancelled(1)] by simp
    with cancelled(2) show ?thesis by blast
  next
    case (failed m y1 err ls' y4)
    then show ?thesis using assms(2) by simp
  next
    case (connected m y1)
    then show ?thesis using assms(2) by simp
  qed
qed

text \<open>
  a cancelled request blames no node. When the caller's context is over by the time the
  dial returns, whatever the dial's outcome was, no failure is counted and no ban is added or
  prolonged on any node, and the request reports an error.
\<close>

lemma cancelled_request_blames_no_node:
  assumes "pool_ready (y_pool y)" and "\<forall>i. ae_after_err (envs i) \<noteq> None"
    and "dial_with packet network rq envs y = (r, y')"
  shows "no_worse (y_world y) (y_world y') \<and> (\<exists>e. r = Inl e)"
  using dial_with_run [OF assms(3)]
proof (elim disjE exE conjE)
  fix e s assume "r = Inl (Cancelled e)" "y' = y\<lparr>y_store := s\<rparr>"
  then show ?thesis by simp
next
  fix lease bnd s sk y1
  assume run: "dial_loop packet lease network sk envs (start_loop (y_pool y) (b_node_id bnd)) (y\<lparr>y_store := s\<rparr>) = (r, y1)"
    and y': "y' = (case lease of None \<Rightarrow> y1 | Some l \<Rightarrow> y1\<lparr>y_store := lease_release l (y_store y1)\<rparr>)"
  let ?ls = "start_loop (y_pool y) (b_node_id bnd)" and ?y = "y\<lparr>y_store := s\<rparr>"
  have "pool_ready (y_pool ?y)" "ae_after_err (envs (ls_attempt ?ls)) \<noteq> None" using assms(1,2) by simp_all
  then obtain e z where "one_attempt packet lease network sk envs ?ls ?y = Inl (Inl e, z)"
    "no_worse (y_world ?y) (y_world z)" using attempt_cancelled by blast
  then have "r = Inl e" "y1 = z" "no_worse (y_world y) (y_world z)"
    using run start_loop_bounds [of "y_pool y" "b_node_id bnd"]
    by (simp_all add: dial_loop.simps [where ls = ?ls])
  then show ?thesis by (simp add: y' split: option.splits)
qed

section \<open>The session of a request\<close>

lemma acquire_lease_facts:
  assumes "acquire_lease rq s = (Inr l, s')"
  shows "l_key l = rq_session rq" "\<not> lease_stale l s'" "cache_inv s' now = cache_inv s now"
    "st_entries s' = st_entries s"
proof -
  obtain g s1 where enter: "acquire_enter (rq_session rq) s = (g, s1)" by force
  then have take: "take_token g s1 = Some s'" and l: "l = make_lease (rq_session rq) g s'"
    using assms by (auto simp: acquire_lease_def Let_def split: option.splits)
  show "l_key l = rq_session rq" "\<not> lease_stale l s'" by (simp_all add: l make_lease_def lease_stale_def)
  show "cache_inv s' now = cache_inv s now"
    using acquire_enter_cache [OF enter] take_token_cache [OF take] by simp
  show "st_entries s' = st_entries s"
    using enter take by (auto simp: acquire_enter_def take_token_def set_gate_def Let_def split: option.splits if_splits)
qed

lemma lease_binding_facts:
  assumes "lease_binding l now s = (r, s')" and "store_wf s" and "\<not> lease_stale l s"
  shows "\<not> lease_stale l s'" "live_binding now s' = live_binding now s"
proof -
  have s': "s' = s \<or> (s' = remove_locked (l_key l) s \<and> (\<exists>b. mget (st_entries s) (l_key l) = Some b \<and> \<not> now < b_expires_at b))"
    using assms(1) by (auto simp: lease_binding_def split: if_splits option.splits)
  then show "\<not> lease_stale l s'" using assms(3) by (auto simp: lease_stale_def remove_locked_def)
  show "live_binding now s' = live_binding now s"
  proof (cases "s' = s")
    case False
    then obtain b where b: "s' = remove_locked (l_key l) s" "mget (st_entries s) (l_key l) = Some b"
      "\<not> now < b_expires_at b" using s' by blast
    show ?thesis
      unfolding b(1) using b(2,3) by (auto simp: live_binding_def remove_locked_def mget_mdel fun_eq_iff)
  qed simp
qed

lemma acquire_session_facts:
  assumes "acquire_session rq p s = (Inr (Some l, b), s')" and "cache_inv s (rq_now rq)"
  shows "l_key l = rq_session rq" "\<not> lease_stale l s'" "cache_inv s' (rq_now rq)"
    "live_binding (rq_now rq) s' = live_binding (rq_now rq) s"
proof -
  obtain s1 ok where acq: "acquire_lease rq s = (Inr l, s1)" and bnd: "lease_binding l (rq_now rq) s1 = ((b, ok), s')"
    using assms(1)
    by (auto simp: acquire_session_def Let_def case_prod_beta' prod_eq_iff split: option.splits if_splits prod.splits sum.splits)
  note f = acquire_lease_facts [OF acq]
  have inv: "cache_inv s1 (rq_now rq)" using f(3) assms(2) by simp
  then have wf: "store_wf s1" by (simp add: cache_inv_def)
  show "l_key l = rq_session rq" by (rule f(1))
  show "\<not> lease_stale l s'" by (rule lease_binding_facts(1) [OF bnd wf f(2)])
  show "cache_inv s' (rq_now rq)" by (rule lease_binding_cache [OF inv bnd])
  have "live_binding (rq_now rq) s1 = live_binding (rq_now rq) s"
    using f(4) by (simp add: live_binding_def fun_eq_iff)
  then show "live_binding (rq_now rq) s' = live_binding (rq_now rq) s"
    using lease_binding_facts(2) [OF bnd wf f(2)] by simp
qed

lemma acquire_session_refused:
  "acquire_session rq p s = (Inl e, s') \<Longrightarrow> st_entries s' = st_entries s"
  by (auto simp: acquire_session_def acquire_lease_def acquire_enter_def take_token_def set_gate_def Let_def
      split: option.splits if_splits prod.splits sum.splits)

lemma commit_binding_options:
  "p_options p' = p_options p \<Longrightarrow> commit_binding p' lease network m fb now s = commit_binding p lease network m fb now s"
  by (simp add: commit_binding_def member_identity_def split: option.splits)

lemma pick_for_attempt_error:
  assumes "pool_ready (y_pool y)" and "pick_for_attempt lease network sk ae ls y = (Inl e, y1)"
  shows "e = NoHealthyProxy"
proof -
  have ready: "p_members (y_pool y) \<noteq> []" "index_ok (y_pool y)" using assms(1) by (simp_all add: pool_ready_def)
  obtain tried sk' nid where
    "pick_for_attempt lease network sk ae ls y = (let (r, p, w) = pick_ready (ae_pick ae) network tried sk' nid (y_pool y) (y_world y)
        in (r, y\<lparr>y_pool := p, y_world := w\<rparr>))"
    using pick_member_for_ready [OF ready(1)]
    by (cases lease) (auto simp: pick_for_attempt_def pick_member_for_session_def pick_member_filtered_def)
  moreover obtain r p w where pr: "pick_ready (ae_pick ae) network tried sk' nid (y_pool y) (y_world y) = (r, p, w)"
    by (metis prod_cases3)
  ultimately have "r = Inl e" using assms(2) by simp
  then show ?thesis by (cases rule: pick_ready_cases [OF ready pr, case_names pinned none chosen]) auto
qed

text \<open>What an attempt does to the session store: nothing, but for the commit of a success.\<close>

lemma attempt_store:
  assumes "pool_ready (y_pool y)"
  shows "case one_attempt packet lease network sk envs ls y of
      Inl (Inl e, y') \<Rightarrow> y_store y' = y_store y \<and> (e = StorePanic \<longrightarrow>
        (\<exists>m fb i. commit_binding (y_pool y) lease network m fb (ae_now (envs i)) (y_store y) = None))
    | Inl (Inr m, y') \<Rightarrow> (\<exists>fb i. commit_binding (y_pool y) lease network m fb (ae_now (envs i)) (y_store y) = Some (y_store y'))
    | Inr (ls', y') \<Rightarrow> y_store y' = y_store y \<and> pool_ready (y_pool y') \<and> p_options (y_pool y') = p_options (y_pool y)"
proof -
  note frame = pick_for_attempt_frame [OF assms]
  show ?thesis
  proof (cases rule: one_attempt_cases [where packet = packet and lease = lease and network = network
        and sk = sk and envs = envs and ls = ls and y = y])
    case (stopped e)
    then show ?thesis by simp
  next
    case (unpicked e e' y1)
    then show ?thesis
      using frame(3) [OF unpicked(1)] pick_for_attempt_error [OF assms unpicked(1)] by (simp split: option.splits)
  next
    case (cancelled m y1 e)
    then show ?thesis using frame(3) [OF cancelled(1)] by simp
  next
    case (failed m y1 err ls' y4)
    have y4: "y_store y4 = y_store y" "pool_ready (y_pool y4)" "p_options (y_pool y4) = p_options (y_pool y)"
      using frame(1-3) [OF failed(1)] failed_dial_fields(7,8) [of packet lease m err "ae_now (envs (ls_attempt ls))" ls
          "upd_world (dec_active m) (upd_world (inc_active m) y1)"] failed(4) by simp_all
    show ?thesis unfolding failed(5) using y4 by (simp split: option.splits)
  next
    case (connected m y1)
    have "commit_binding (y_pool y1) lease network m fb now s = commit_binding (y_pool y) lease network m fb now s"
      for fb now s by (rule commit_binding_options [OF frame(2) [OF connected(1)]])
    then show ?thesis
      using frame(3) [OF connected(1)] unfolding connected(4) Let_def
      by (simp split: option.splits) blast
  qed
qed

lemma dial_loop_store:
  fixes y :: pool_sys
  assumes "pool_ready (y_pool y)" and "ls_attempt ls \<le> ls_max ls"
  shows "case dial_loop packet lease network sk envs ls y of
      (Inl e, y') \<Rightarrow> y_store y' = y_store y \<and> (e = StorePanic \<longrightarrow>
        (\<exists>m fb i. commit_binding (y_pool y) lease network m fb (ae_now (envs i)) (y_store y) = None))
    | (Inr m, y') \<Rightarrow> \<exists>fb i. commit_binding (y_pool y) lease network m fb (ae_now (envs i)) (y_store y) = Some (y_store y')"
proof -
  let ?Q = "\<lambda>r y'. case r of Inl e \<Rightarrow> y_store y' = y_store y \<and> (e = StorePanic \<longrightarrow>
        (\<exists>m fb i. commit_binding (y_pool y) lease network m fb (ae_now (envs i)) (y_store y) = None))
    | Inr m \<Rightarrow> \<exists>fb i. commit_binding (y_pool y) lease network m fb (ae_now (envs i)) (y_store y) = Some (y_store y')"
  let ?I = "\<lambda>(ls :: loop_state) y'. pool_ready (y_pool y') \<and> p_options (y_pool y') = p_options (y_pool y)
    \<and> y_store y' = y_store y"
  have "?Q (fst (dial_loop packet lease network sk envs ls y)) (snd (dial_loop packet lease network sk envs ls y))"
  proof (rule dial_loop_rule [where I = ?I and Q = ?Q])
    fix ls and z :: pool_sys assume I: "?I ls z"
    have "commit_binding (y_pool z) lease network m fb now s = commit_binding (y_pool y) lease network m fb now s"
      for m fb now s by (rule commit_binding_options) (use I in simp)
    then show "case one_attempt packet lease network sk envs ls z of
        Inl (r, y') \<Rightarrow> ?Q r y' | Inr (ls', y') \<Rightarrow> ?I ls' y'"
      using attempt_store [where y = z and packet = packet and lease = lease and network = network
          and sk = sk and envs = envs and ls = ls] I
      by (simp split: sum.splits prod.splits) blast
  qed (use assms in simp_all)
  then show ?thesis by (simp add: case_prod_beta')
qed

lemma commit_binding_result:
  assumes "cache_inv s now" and "\<not> lease_stale l s"
  shows "\<exists>s'. commit_binding p (Some l) network m fb now s = Some s' \<and> cache_inv s' now
    \<and> (if network = network_tcp
       then \<exists>b. mget (st_entries s') (l_key l) = Some b \<and> b_node_id b = member_identity p m
         \<and> b_node_tag b = mb_tag m \<and> now < b_expires_at b
       else s' = s)"
proof (cases "network = network_tcp")
  case False
  then show ?thesis using assms(1) by (simp add: commit_binding_def)
next
  case True
  let ?n = "member_identity p m" and ?t = "mb_tag m" and ?nm = "mm_name (meta_of (p_options p) (mb_tag m))"
    and ?r = "if fb then ''dial_failed'' else ''node_unavailable''"
  have inv: "store_wf s" "store_bounded s" "not_before s now" using assms(1) by (simp_all add: cache_inv_def)
  obtain s' where s': "lease_bind l ?n ?t ?nm ?r now s = Some s'" using lease_bind_ok [OF inv, of l ?n ?t ?nm ?r] by auto
  note e = lease_bind_entry [OF inv assms(2) s']
  have "cache_inv s' now" by (rule lease_bind_cache [OF assms(1) s'])
  then show ?thesis
    using True s' e(1) inv(2) by (auto simp: commit_binding_def store_bounded_def)
qed

text \<open>
  C1: a named session follows the node its traffic went through. After a successful TCP dial of
  a session its binding names the very member that was dialled; a failed dial, and any UDP
  association, leave every unexpired binding of every session as it was. The session store
  never panics in a dial.
\<close>

theorem session_follows_dial:
  assumes "pool_ready (y_pool y)" and "cache_inv (y_store y) (rq_now rq)"
    and "\<forall>i. rq_now rq \<le> ae_now (envs i)"
    and "po_session_routing (p_options (y_pool y))" and "rq_session rq \<noteq> []"
    and "dial_with packet network rq envs y = (r, y')"
  shows "case r of
      Inl e \<Rightarrow> e \<noteq> StorePanic \<and> live_binding (rq_now rq) (y_store y') = live_binding (rq_now rq) (y_store y)
    | Inr m \<Rightarrow> if network = network_tcp
        then \<exists>b. mget (st_entries (y_store y')) (rq_session rq) = Some b
          \<and> b_node_id b = member_identity (y_pool y) m \<and> b_node_tag b = mb_tag m
        else live_binding (rq_now rq) (y_store y') = live_binding (rq_now rq) (y_store y)"
  using dial_with_run [OF assms(6)]
proof (elim disjE exE conjE)
  fix e s assume "acquire_session rq (y_pool y) (y_store y) = (Inl e, s)" "r = Inl (Cancelled e)" "y' = y\<lparr>y_store := s\<rparr>"
  then show ?thesis using acquire_session_refused by (simp add: live_binding_def fun_eq_iff)
next
  fix lease bnd s sk y1
  assume acq: "acquire_session rq (y_pool y) (y_store y) = (Inr (lease, bnd), s)"
    and run: "dial_loop packet lease network sk envs (start_loop (y_pool y) (b_node_id bnd)) (y\<lparr>y_store := s\<rparr>) = (r, y1)"
    and y': "y' = (case lease of None \<Rightarrow> y1 | Some l \<Rightarrow> y1\<lparr>y_store := lease_release l (y_store y1)\<rparr>)"
  obtain l where l: "lease = Some l"
    using acq assms(4,5) by (auto simp: acquire_session_def Let_def split: option.splits prod.splits sum.splits)
  note f = acquire_session_facts [OF acq [unfolded l] assms(2)]
  have "pool_ready (y_pool (y\<lparr>y_store := s\<rparr>))" using assms(1) by simp
  note st = dial_loop_store [OF this start_loop_bounds [of "y_pool y" "b_node_id bnd"],
      where packet = packet and lease = lease and network = network and sk = sk and envs = envs, unfolded l, unfolded run [unfolded l]]
  have entries: "st_entries (y_store y') = st_entries (y_store y1)"
    by (simp add: y' l lease_release_def)
  have commit: "\<exists>s'. commit_binding (y_pool y) (Some l) network m fb (ae_now (envs i)) s = Some s'
      \<and> (if network = network_tcp
         then \<exists>b. mget (st_entries s') (rq_session rq) = Some b \<and> b_node_id b = member_identity (y_pool y) m
           \<and> b_node_tag b = mb_tag m else s' = s)" for m fb i
  proof -
    have "cache_inv s (ae_now (envs i))" using cache_inv_later [OF f(3)] assms(3) by blast
    from commit_binding_result [OF this f(2), of "y_pool y" network m fb] show ?thesis
      unfolding f(1) by (cases "network = network_tcp") auto
  qed
  show ?thesis
  proof (cases r)
    case (Inl e)
    have never: "commit_binding (y_pool y) (Some l) network m fb (ae_now (envs i)) s \<noteq> None" for m fb i
      using commit [of m fb i] by auto
    have "y_store y1 = s" using st by (simp add: Inl)
    moreover have "e \<noteq> StorePanic"
    proof
      assume "e = StorePanic"
      then have "\<exists>m fb i. commit_binding (y_pool y) (Some l) network m fb (ae_now (envs i)) s = None"
        using st by (simp add: Inl)
      then show False using never by blast
    qed
    ultimately have "y_store y1 = s" "e \<noteq> StorePanic" by simp_all
    then show ?thesis using Inl entries f(4) by (simp add: live_binding_def fun_eq_iff)
  next
    case (Inr m)
    then obtain fb i where c: "commit_binding (y_pool y) (Some l) network m fb (ae_now (envs i)) s = Some (y_store y1)"
      using st by auto
    show ?thesis
      using commit [of m fb i] c entries f(4) by (auto simp: Inr live_binding_def fun_eq_iff)
  qed
qed

section \<open>The lease is given back\<close>

lemma gate_inv_idle: "gate_inv s (cs @ [Idle]) = gate_inv s cs"
proof -
  have c: "count_if (holds g) (cs @ [Idle]) = count_if (holds g) cs"
    "count_if (refs_to g) (cs @ [Idle]) = count_if (refs_to g) cs" for g
    by (simp_all add: count_if_def holds_def refs_to_def)
  have r: "(\<forall>i < length (cs @ [Idle]). \<forall>k g. ref_of ((cs @ [Idle]) ! i) = Some (k, g) \<longrightarrow> P k g)
      \<longleftrightarrow> (\<forall>i < length cs. \<forall>k g. ref_of (cs ! i) = Some (k, g) \<longrightarrow> P k g)" for P
    by (auto simp: nth_append less_Suc_eq)
  have k: "(\<forall>i < length (cs @ [Idle]). \<forall>g. token_of ((cs @ [Idle]) ! i) = Some g \<longrightarrow> P g)
      \<longleftrightarrow> (\<forall>i < length cs. \<forall>g. token_of (cs ! i) = Some g \<longrightarrow> P g)" for P
    by (auto simp: nth_append less_Suc_eq)
  show ?thesis unfolding gate_inv_def c r k ..
qed

lemma end_update: "(cs @ [p])[length cs := q] = cs @ [q]"
  by simp

lemma acquire_lease_gates:
  assumes "gate_inv s cs" and "acquire_lease rq s = (r, s')"
  shows "case r of Inl e \<Rightarrow> gate_inv s' cs | Inr l \<Rightarrow> gate_inv s' (cs @ [Leased l])"
proof -
  let ?i = "length cs"
  obtain g s1 where enter: "acquire_enter (rq_session rq) s = (g, s1)" by force
  have w: "gate_inv s1 (cs @ [Waiting (rq_session rq) g])"
    using enter_gate_inv [of s "cs @ [Idle]" ?i, OF _ _ _ enter] assms(1) by (simp add: gate_inv_idle)
  show ?thesis
  proof (cases "take_token g s1")
    case None
    then have r: "r = Inl (rq_wait_err rq)" "s' = release_reference (rq_session rq) g s1"
      using assms(2) enter by (auto simp: acquire_lease_def Let_def)
    have "gate_inv s' (cs @ [Idle])"
      using release_gate_inv [OF w, of ?i "rq_session rq" g Idle] by (simp add: r(2))
    then show ?thesis by (simp add: r(1) gate_inv_idle)
  next
    case (Some s2)
    have t: "gate_inv s2 (cs @ [GotToken (rq_session rq) g])"
      using take_token_gate_inv [OF w, of ?i "rq_session rq" g s2] Some by simp
    show ?thesis
    proof (cases "rq_token_err rq")
      case None
      then have r: "r = Inr (make_lease (rq_session rq) g s2)" "s' = s2"
        using assms(2) enter Some by (auto simp: acquire_lease_def Let_def)
      have "gate_inv s2 (cs @ [Leased (make_lease (rq_session rq) g s2)])"
        using relabel_gate_inv [OF t, of ?i "Leased (make_lease (rq_session rq) g s2)"] by (simp add: make_lease_def)
      then show ?thesis by (simp add: r)
    next
      case e: (Some e)
      then have r: "r = Inl e" "s' = put_token g (release_reference (rq_session rq) g s2)"
        using assms(2) enter Some by (auto simp: acquire_lease_def Let_def)
      have "gate_inv (release_reference (rq_session rq) g s2) (cs @ [Returning g])"
        using release_gate_inv [OF t, of ?i "rq_session rq" g "Returning g"] by simp
      from put_token_gate_inv [OF this, of ?i g] have "gate_inv s' (cs @ [Idle])" by (simp add: r(2))
      then show ?thesis by (simp add: r(1) gate_inv_idle)
    qed
  qed
qed

lemma lease_release_gates:
  assumes "gate_inv s (cs @ [Leased l])"
  shows "gate_inv (lease_release l s) cs"
proof -
  have "gate_inv (release_reference (l_key l) (l_gate l) s) (cs @ [Returning (l_gate l)])"
    using release_gate_inv [OF assms, of "length cs" "l_key l" "l_gate l" "Returning (l_gate l)"] by simp
  from put_token_gate_inv [OF this, of "length cs" "l_gate l"] have "gate_inv (lease_release l s) (cs @ [Idle])"
    by (simp add: lease_release_def)
  then show ?thesis by (simp add: gate_inv_idle)
qed

text \<open>
  C30: a dial gives its session back on every path. Whatever the outcome, a success, an error, a
  cancellation before or after the token, the token of the session's gate and the reference to it
  are returned exactly once: the gates are as consistent with the other clients alone as they
  were before the dial, and so ready for the next request of the session.
\<close>

theorem dial_returns_the_lease:
  assumes "pool_ready (y_pool y)" and "cache_inv (y_store y) (rq_now rq)"
    and "\<forall>i. rq_now rq \<le> ae_now (envs i)" and "gate_inv (y_store y) cs"
    and "dial_with packet network rq envs y = (r, y')"
  shows "gate_inv (y_store y') cs"
  using dial_with_run [OF assms(5)]
proof (elim disjE exE conjE)
  fix e s assume acq: "acquire_session rq (y_pool y) (y_store y) = (Inl e, s)" and y': "y' = y\<lparr>y_store := s\<rparr>"
  then have "s = y_store y \<or> acquire_lease rq (y_store y) = (Inl e, s)"
    by (auto simp: acquire_session_def Let_def split: option.splits if_splits prod.splits sum.splits)
  then show ?thesis using assms(4) acquire_lease_gates [OF assms(4), of rq "Inl e" s] by (auto simp: y')
next
  fix lease bnd s sk y1
  assume acq: "acquire_session rq (y_pool y) (y_store y) = (Inr (lease, bnd), s)"
    and run: "dial_loop packet lease network sk envs (start_loop (y_pool y) (b_node_id bnd)) (y\<lparr>y_store := s\<rparr>) = (r, y1)"
    and y': "y' = (case lease of None \<Rightarrow> y1 | Some l \<Rightarrow> y1\<lparr>y_store := lease_release l (y_store y1)\<rparr>)"
  have ready: "pool_ready (y_pool (y\<lparr>y_store := s\<rparr>))" using assms(1) by simp
  note st = dial_loop_store [OF ready start_loop_bounds [of "y_pool y" "b_node_id bnd"],
      where packet = packet and lease = lease and network = network and sk = sk and envs = envs, unfolded run]
  show ?thesis
  proof (cases lease)
    case None
    then have "s = y_store y"
      using acq by (auto simp: acquire_session_def Let_def split: option.splits if_splits prod.splits sum.splits)
    moreover have "y_store y1 = s" using st by (cases r) (auto simp: None commit_binding_def)
    ultimately show ?thesis using assms(4) by (simp add: y' None)
  next
    case (Some l)
    obtain s0 ok where s0: "acquire_lease rq (y_store y) = (Inr l, s0)" "lease_binding l (rq_now rq) s0 = ((bnd, ok), s)"
      using acq unfolding Some
      by (auto simp: acquire_session_def Let_def case_prod_beta' prod_eq_iff split: option.splits if_splits prod.splits sum.splits)
    have g: "gate_inv s (cs @ [Leased l])"
      using acquire_lease_gates [OF assms(4) s0(1)] lease_binding_gate_inv [OF s0(2)] by simp
    have inv: "cache_inv s (ae_now (envs i))" for i
      using cache_inv_later acquire_session_facts(3) [OF acq [unfolded Some] assms(2)] assms(3) by blast
    have "gate_inv (y_store y1) (cs @ [Leased l])"
    proof (cases r)
      case (Inl e)
      then show ?thesis using st g by simp
    next
      case (Inr m)
      then obtain fb i where "commit_binding (y_pool y) (Some l) network m fb (ae_now (envs i)) s = Some (y_store y1)"
        using st Some by auto
      then have "y_store y1 = s \<or> (\<exists>n t nm rs. lease_bind l n t nm rs (ae_now (envs i)) s = Some (y_store y1))"
        by (auto simp: commit_binding_def split: if_splits)
      then show ?thesis using g lease_bind_gate_inv [OF inv] by auto
    qed
    then show ?thesis using lease_release_gates by (simp add: y' Some)
  qed
qed

section \<open>A request in full\<close>

definition sample_envs :: "int \<Rightarrow> attempt_env" where
  "sample_envs i = \<lparr>ae_start_err = None, ae_pick = pick_env0,
     ae_dial = (\<lambda>m. if mb_tag m = ''t2'' then Some ''connection refused'' else None),
     ae_after_err = None, ae_now = 10, ae_retry_err = None\<rparr>"

definition sample_request :: request where
  "sample_request = \<lparr>rq_session = ''acct.alice'', rq_source = None, rq_enter_err = None,
     rq_wait_err = ''context canceled'', rq_token_err = None, rq_now = 9\<rparr>"

definition sample_sys :: pool_sys where
  "sample_sys = \<lparr>y_pool = sample_pool mode_sequential,
     y_world = \<lparr>w_mon = new_manager [] False 0, w_shared = [(''t1'', 0), (''t2'', 1)],
       w_health = (\<lambda>_. new_health), w_next = 2, w_dialers = []\<rparr>,
     y_store = \<lparr>st_entries = [], st_lru = [], st_gates = [],
       st_heap = (\<lambda>_. \<lparr>g_token = False, g_refs = 0, g_version = 0\<rparr>), st_next = 0, st_max = 1,
       st_ttl = 86400000000000, st_epoch = 0\<rparr>\<rparr>"

lemma sample_store_new: "new_store 1 0 0 = Some (y_store sample_sys)"
  by (simp add: sample_sys_def store_run_simps)

lemma sample_sys_ok: "pool_ready (y_pool sample_sys)" "cache_inv (y_store sample_sys) (rq_now sample_request)"
    "\<forall>i. rq_now sample_request \<le> ae_now (sample_envs i)" "gate_inv (y_store sample_sys) []"
    "po_session_routing (p_options (y_pool sample_sys))" "rq_session sample_request \<noteq> []"
proof -
  show "pool_ready (y_pool sample_sys)" using sample_pool_ready by (simp add: sample_sys_def pool_ready_def)
  have "sys_store demo_start = y_store sample_sys" by (simp add: demo_start_def sample_store_new)
  then have "cache_inv (y_store sample_sys) 0"
    using reachable_cache_inv [OF demo_start_reachable] by (simp add: demo_start_def)
  then show "cache_inv (y_store sample_sys) (rq_now sample_request)"
    by (rule cache_inv_later) (simp add: sample_request_def)
  show "gate_inv (y_store sample_sys) []"
    using start_gate_inv [OF sample_store_new, of 0] by simp
qed (simp_all add: sample_request_def sample_envs_def sample_sys_def sample_pool_def sample_options_def
    normalize_options_def Let_def)

lemma connection_counts_balance_example:
  "\<exists>r y'. dial_with False ''tcp'' sample_request sample_envs sample_sys = (r, y') \<and> (case r of
      Inl e \<Rightarrow> e = StorePanic \<or> active_at 1 (y_world y') = active_at 1 (y_world sample_sys)
    | Inr m \<Rightarrow> active_at 1 (snd (close_conn (wrap_conn m) (y_world y'))) = active_at 1 (y_world sample_sys))"
proof -
  obtain r y' where run: "dial_with False ''tcp'' sample_request sample_envs sample_sys = (r, y')" by force
  with connection_counts_balance [OF sample_sys_ok(1) run] show ?thesis
    by (cases r) (auto simp: Let_def case_prod_beta')
qed

lemma attempts_bounded_example:
  "dial_with False ''tcp'' sample_request sample_envs sample_sys
     = dial_with False ''tcp'' sample_request (\<lambda>i. if i \<le> 4 then sample_envs i
         else (sample_envs i)\<lparr>ae_start_err := Some ''unreachable''\<rparr>) sample_sys"
  by (rule attempts_bounded)
    (simp add: sample_sys_def sample_pool_def sample_options_def normalize_options_def max_attempts_def Let_def)

lemma cancelled_request_blames_no_node_example:
  "no_worse (y_world sample_sys) (y_world (snd (dial_with False ''tcp'' sample_request
     (\<lambda>i. (sample_envs i)\<lparr>ae_after_err := Some ''context canceled''\<rparr>) sample_sys)))"
  using cancelled_request_blames_no_node [OF sample_sys_ok(1) _ surjective_pairing,
      of "\<lambda>i. (sample_envs i)\<lparr>ae_after_err := Some ''context canceled''\<rparr>" False "''tcp''" sample_request]
  by simp

theorem session_follows_dial_witness:
  "\<exists>r y'. dial_with False ''tcp'' sample_request sample_envs sample_sys = (r, y') \<and> (case r of
      Inl e \<Rightarrow> e \<noteq> StorePanic
    | Inr m \<Rightarrow> \<exists>b. mget (st_entries (y_store y')) ''acct.alice'' = Some b
        \<and> b_node_id b = member_identity (y_pool sample_sys) m)"
proof -
  obtain r y' where run: "dial_with False ''tcp'' sample_request sample_envs sample_sys = (r, y')" by force
  with session_follows_dial [OF sample_sys_ok(1-3,5,6) run] show ?thesis
    by (cases r) (auto simp: network_tcp_def sample_request_def)
qed

theorem dial_returns_the_lease_witness:
  "gate_inv (y_store (snd (dial_with False ''tcp'' sample_request sample_envs sample_sys))) []"
  by (rule dial_returns_the_lease [OF sample_sys_ok(1-4) surjective_pairing])

end
