(* ===== verification/GoBase64.thy ===== *)
theory GoBase64
  imports GoText
begin

text \<open>
  Go's \<open>encoding/base64\<close> with its four standard encodings. The decoder skips line breaks
  everywhere, wants complete quanta with padding for the padded encodings and none for the raw
  ones, and ignores the unused low bits of the last character. What the two alphabets share is
  proved once, in the locale \<open>base64_alphabet\<close>.
\<close>

section \<open>Alphabets and encodings\<close>

definition b64_common :: string where
  "b64_common = ''ABCDEFGHIJKLMNOPQRSTUVWXYZabcdefghijklmnopqrstuvwxyz0123456789''"

definition std_alphabet :: string where "std_alphabet = b64_common @ ''+/''"
definition url_alphabet :: string where "url_alphabet = b64_common @ ''-_''"

datatype b64_encoding = StdEncoding | RawStdEncoding | UrlEncoding | RawUrlEncoding

fun alphabet :: "b64_encoding \<Rightarrow> string" where
  "alphabet StdEncoding = std_alphabet"
| "alphabet RawStdEncoding = std_alphabet"
| "alphabet UrlEncoding = url_alphabet"
| "alphabet RawUrlEncoding = url_alphabet"

fun padded :: "b64_encoding \<Rightarrow> bool" where
  "padded StdEncoding = True"
| "padded RawStdEncoding = False"
| "padded UrlEncoding = True"
| "padded RawUrlEncoding = False"

section \<open>Encoding\<close>

definition byte_of :: "char \<Rightarrow> nat" where
  "byte_of c = of_char c"

definition b64_pad :: "bool \<Rightarrow> nat \<Rightarrow> string" where
  "b64_pad pad n = (if pad then replicate n CHR ''='' else [])"

fun encode_quanta :: "bool \<Rightarrow> string \<Rightarrow> string \<Rightarrow> string" where
  "encode_quanta pad al [] = []"
| "encode_quanta pad al [a] =
     al ! (byte_of a div 4) # al ! (byte_of a mod 4 * 16) # b64_pad pad 2"
| "encode_quanta pad al [a, b] =
     al ! (byte_of a div 4) # al ! (byte_of a mod 4 * 16 + byte_of b div 16)
       # al ! (byte_of b mod 16 * 4) # b64_pad pad 1"
| "encode_quanta pad al (a # b # c # s) =
     al ! (byte_of a div 4) # al ! (byte_of a mod 4 * 16 + byte_of b div 16)
       # al ! (byte_of b mod 16 * 4 + byte_of c div 64) # al ! (byte_of c mod 64)
       # encode_quanta pad al s"

definition b64_encode :: "b64_encoding \<Rightarrow> string \<Rightarrow> string" where
  "b64_encode enc s = encode_quanta (padded enc) (alphabet enc) s"

section \<open>Decoding\<close>

definition byte1 :: "nat \<Rightarrow> nat \<Rightarrow> char" where "byte1 w x = char_of (w * 4 + x div 16)"
definition byte2 :: "nat \<Rightarrow> nat \<Rightarrow> char" where "byte2 x y = char_of (x mod 16 * 16 + y div 4)"
definition byte3 :: "nat \<Rightarrow> nat \<Rightarrow> char" where "byte3 y z = char_of (y mod 4 * 64 + z)"

fun decode_quanta :: "bool \<Rightarrow> string \<Rightarrow> string \<Rightarrow> string option" where
  "decode_quanta pad al [] = Some []"
| "decode_quanta pad al [a] = None"
| "decode_quanta pad al [a, b] =
     (if pad then None
      else case (index_byte al a, index_byte al b) of (Some w, Some x) \<Rightarrow> Some [byte1 w x] | _ \<Rightarrow> None)"
| "decode_quanta pad al [a, b, c] =
     (if pad then None
      else case (index_byte al a, index_byte al b, index_byte al c) of
          (Some w, Some x, Some y) \<Rightarrow> Some [byte1 w x, byte2 x y]
        | _ \<Rightarrow> None)"
| "decode_quanta pad al (a # b # c # d # s) =
     (case (index_byte al a, index_byte al b) of
        (Some w, Some x) \<Rightarrow>
          (case index_byte al c of
             Some y \<Rightarrow>
               (case index_byte al d of
                  Some z \<Rightarrow> map_option (\<lambda>r. byte1 w x # byte2 x y # byte3 y z # r) (decode_quanta pad al s)
                | None \<Rightarrow> if pad \<and> d = CHR ''='' \<and> s = [] then Some [byte1 w x, byte2 x y] else None)
           | None \<Rightarrow> if pad \<and> c = CHR ''='' \<and> d = CHR ''='' \<and> s = [] then Some [byte1 w x] else None)
      | _ \<Rightarrow> None)"

definition line_break :: "char \<Rightarrow> bool" where
  "line_break c \<longleftrightarrow> (of_char c :: nat) = 10 \<or> (of_char c :: nat) = 13"

definition b64_decode :: "b64_encoding \<Rightarrow> string \<Rightarrow> string option" where
  "b64_decode enc s = decode_quanta (padded enc) (alphabet enc) (filter (\<lambda>c. \<not> line_break c) s)"

text \<open>The code often tries several encodings in turn.\<close>

fun first_decoding :: "b64_encoding list \<Rightarrow> string \<Rightarrow> string option" where
  "first_decoding [] s = None"
| "first_decoding (enc # encs) s =
     (case b64_decode enc s of Some r \<Rightarrow> Some r | None \<Rightarrow> first_decoding encs s)"

section \<open>Decoding undoes encoding\<close>

lemma byte_of_bound: "byte_of c < 256"
  by (simp add: byte_of_def)

lemma char_of_byte_of [simp]: "char_of (byte_of c) = c"
  by (simp add: byte_of_def)

lemma index_byte_nth: "distinct al \<Longrightarrow> i < length al \<Longrightarrow> index_byte al (al ! i) = Some i"
proof (induction al arbitrary: i)
  case (Cons a al)
  then show ?case by (cases i) auto
qed simp

lemma byte_div_bounds: "byte_of a div 4 < 64" "byte_of a div 16 < 16" "byte_of a div 64 < 4"
  using byte_of_bound [of a] by (auto intro!: less_mult_imp_div_less)

lemma sextet_joins:
  "(byte_of a mod 4 * 16 + byte_of b div 16) div 16 = byte_of a mod 4"
  "(byte_of a mod 4 * 16 + byte_of b div 16) mod 16 = byte_of b div 16"
  "(byte_of b mod 16 * 4 + byte_of c div 64) div 4 = byte_of b mod 16"
  "(byte_of b mod 16 * 4 + byte_of c div 64) mod 4 = byte_of c div 64"
  using byte_div_bounds [of b] byte_div_bounds [of c] by simp_all

lemma bytes_of_sextets:
  "byte1 (byte_of a div 4) (byte_of a mod 4 * 16 + byte_of b div 16) = a"
  "byte2 (byte_of a mod 4 * 16 + byte_of b div 16) (byte_of b mod 16 * 4 + byte_of c div 64) = b"
  "byte3 (byte_of b mod 16 * 4 + byte_of c div 64) (byte_of c mod 64) = c"
  "byte1 (byte_of a div 4) (byte_of a mod 4 * 16) = a"
  "byte2 (byte_of a mod 4 * 16 + byte_of b div 16) (byte_of b mod 16 * 4) = b"
  using byte_div_bounds [of b] byte_div_bounds [of c]
  by (simp_all add: byte1_def byte2_def byte3_def sextet_joins)

lemma sextet_bounds:
  "byte_of a div 4 < 64" "byte_of a mod 4 * 16 < 64" "byte_of a mod 16 * 4 < 64" "byte_of a mod 64 < 64"
  "byte_of a mod 4 * 16 + byte_of b div 16 < 64" "byte_of a mod 16 * 4 + byte_of b div 64 < 64"
proof -
  have "byte_of a mod 4 < 4" "byte_of a mod 16 < 16" by simp_all
  then show "byte_of a mod 4 * 16 < 64" "byte_of a mod 16 * 4 < 64" "byte_of a mod 4 * 16 + byte_of b div 16 < 64"
    "byte_of a mod 16 * 4 + byte_of b div 64 < 64"
    using byte_div_bounds [of b] by linarith+
qed (simp_all add: byte_div_bounds)

lemma three_at_a_time [case_names none one two more]:
  fixes s :: string
  assumes "P []" and "\<And>a. P [a]" and "\<And>a b. P [a, b]" and "\<And>a b c s. P s \<Longrightarrow> P (a # b # c # s)"
  shows "P s"
  using encode_quanta.induct [of "\<lambda>(_ :: bool) (_ :: string) s. P s"] assms by blast

locale base64_alphabet =
  fixes al :: string
  assumes distinct_al: "distinct al"
    and length_al: "length al = 64"
    and no_pad: "CHR ''='' \<notin> set al"
    and no_break: "c \<in> set al \<Longrightarrow> \<not> line_break c"
begin

lemma index_sextet: "n < 64 \<Longrightarrow> index_byte al (al ! n) = Some n"
  by (rule index_byte_nth [OF distinct_al]) (simp add: length_al)

lemmas index_sextets = sextet_bounds [THEN index_sextet]

lemma index_pad: "index_byte al CHR ''='' = None"
  using no_pad by simp

lemma decode_encode: "decode_quanta pad al (encode_quanta pad al s) = Some s"
  by (induction s rule: three_at_a_time)
    (simp_all add: index_sextets index_pad bytes_of_sextets b64_pad_def numeral_2_eq_2)

lemma encode_chars: "set (encode_quanta pad al s) \<subseteq> set al \<union> {CHR ''=''}"
proof -
  have "al ! n \<in> set al" if "n < 64" for n using that by (simp add: length_al)
  then show ?thesis
    by (induction s rule: three_at_a_time) (auto simp: b64_pad_def sextet_bounds)
qed

lemma encode_raw_chars: "set (encode_quanta False al s) \<subseteq> set al"
proof -
  have "al ! n \<in> set al" if "n < 64" for n using that by (simp add: length_al)
  then show ?thesis
    by (induction s rule: three_at_a_time) (auto simp: b64_pad_def sextet_bounds)
qed

lemma encode_no_break: "filter (\<lambda>c. \<not> line_break c) (encode_quanta pad al s) = encode_quanta pad al s"
proof -
  have "\<not> line_break CHR ''=''" by (simp add: line_break_def)
  then show ?thesis using encode_chars [of pad s] no_break by (auto intro!: filter_True)
qed

end

interpretation std: base64_alphabet std_alphabet
  by unfold_locales (auto simp: std_alphabet_def b64_common_def line_break_def)

interpretation url: base64_alphabet url_alphabet
  by unfold_locales (auto simp: url_alphabet_def b64_common_def line_break_def)

lemma b64_decode_encode: "b64_decode enc (b64_encode enc s) = Some s"
  by (cases enc) (simp_all add: b64_decode_def b64_encode_def std.encode_no_break url.encode_no_break
      std.decode_encode url.decode_encode)

section \<open>Trying several encodings\<close>

text \<open>The alphabets differ only in their last two characters, so two encodings never read the
  same text as different bytes.\<close>

lemma index_byte_append_lt: "index_byte (al @ bs) c = (case index_byte al c of Some i \<Rightarrow> Some i
    | None \<Rightarrow> map_option (\<lambda>i. length al + i) (index_byte bs c))"
proof (induction al)
  case Nil
  then show ?case by (cases "index_byte bs c") auto
next
  case (Cons a al)
  then show ?case by (cases "index_byte al c"; cases "index_byte bs c") auto
qed

lemma alphabets_agree:
  assumes "index_byte (alphabet e1) c = Some i" and "index_byte (alphabet e2) c = Some j"
  shows "i = j"
  using assms
  by (cases e1; cases e2)
    (auto simp: std_alphabet_def url_alphabet_def index_byte_append_lt split: option.splits if_splits)

lemma pad_in_no_alphabet: "index_byte (alphabet e) CHR ''='' = None"
  by (cases e) (simp_all add: std.index_pad url.index_pad)

lemma decode_quanta_agree:
  assumes "decode_quanta p1 (alphabet e1) s = Some r1" and "decode_quanta p2 (alphabet e2) s = Some r2"
  shows "r1 = r2"
  using assms
proof (induction p1 "alphabet e1" s arbitrary: r1 r2 rule: decode_quanta.induct)
  case (5 p1 a b c d s)
  obtain w x where wx: "index_byte (alphabet e1) a = Some w" "index_byte (alphabet e1) b = Some x"
    using 5(2) by (auto split: option.splits)
  obtain w' x' where wx': "index_byte (alphabet e2) a = Some w'" "index_byte (alphabet e2) b = Some x'"
    using 5(3) by (auto split: option.splits)
  have same: "w' = w" "x' = x" using wx wx' alphabets_agree by metis+
  show ?case
  proof (cases "index_byte (alphabet e1) c")
    case None
    then have c: "c = CHR ''=''" "r1 = [byte1 w x]" using 5(2) wx by (auto split: if_splits)
    then have "index_byte (alphabet e2) c = None" by (simp add: pad_in_no_alphabet)
    then show ?thesis using 5(3) wx' c same by (auto split: if_splits)
  next
    case (Some y)
    then have "c \<noteq> CHR ''=''" using pad_in_no_alphabet by force
    then obtain y' where y': "index_byte (alphabet e2) c = Some y'" using 5(3) wx' by (auto split: option.splits if_splits)
    have y: "y' = y" using Some y' alphabets_agree by metis
    show ?thesis
    proof (cases "index_byte (alphabet e1) d")
      case None
      then have d: "d = CHR ''=''" "r1 = [byte1 w x, byte2 x y]" using 5(2) wx Some by (auto split: if_splits)
      then have "index_byte (alphabet e2) d = None" by (simp add: pad_in_no_alphabet)
      then show ?thesis using 5(3) wx' y' y d same by (auto split: if_splits)
    next
      case (Some z)
      note z = this
      then have "d \<noteq> CHR ''=''" using pad_in_no_alphabet by force
      then obtain z' where z': "index_byte (alphabet e2) d = Some z'" using 5(3) wx' y' by (auto split: option.splits if_splits)
      have eq: "z' = z" using z z' alphabets_agree by metis
      obtain q1 where q1: "decode_quanta p1 (alphabet e1) s = Some q1" "r1 = byte1 w x # byte2 x y # byte3 y z # q1"
        using 5(2) wx \<open>index_byte (alphabet e1) c = Some y\<close> z by auto
      obtain q2 where q2: "decode_quanta p2 (alphabet e2) s = Some q2" "r2 = byte1 w x # byte2 x y # byte3 y z # q2"
        using 5(3) wx' y' z' same y eq by auto
      have "q1 = q2" using 5(1) [OF _ wx(1) wx(2)] \<open>index_byte (alphabet e1) c = Some y\<close> z q1(1) q2(1) by auto
      then show ?thesis by (simp add: q1 q2)
    qed
  qed
qed (auto dest: alphabets_agree split: if_splits option.splits)

lemma b64_decode_agree: "b64_decode e1 s = Some r1 \<Longrightarrow> b64_decode e2 s = Some r2 \<Longrightarrow> r1 = r2"
  unfolding b64_decode_def by (rule decode_quanta_agree)

lemma first_decoding_encode:
  assumes "enc \<in> set encs"
  shows "first_decoding encs (b64_encode enc s) = Some s"
  using assms
proof (induction encs)
  case (Cons e encs)
  show ?case
  proof (cases "b64_decode e (b64_encode enc s)")
    case None
    then have "e \<noteq> enc" using b64_decode_encode by force
    then show ?thesis using Cons None by simp
  next
    case (Some r)
    then show ?thesis using b64_decode_agree [OF Some b64_decode_encode] by simp
  qed
qed simp

end
