(* ===== verification/GoUrl.thy ===== *)
theory GoUrl
  imports GoText
begin

text \<open>
  Go's \<open>net/url\<close> as the URI code uses it: percent encoding per URL component, query values,
  parsing and printing of URLs, and the textual IP addresses \<open>net/netip\<close> accepts. An error is
  \<open>None\<close>: no caller looks at what the standard library says about it. Hosts follow the strict rule
  of the Go release the module names: a bracketed host is an IPv6 address, and a host without
  brackets has at most one colon.
\<close>

section \<open>Percent encoding\<close>

datatype url_mode = EncodePath | EncodePathSegment | EncodeHost | EncodeZone
  | EncodeUserPassword | EncodeQueryComponent | EncodeFragment

definition is_alnum :: "char \<Rightarrow> bool" where
  "is_alnum c \<longleftrightarrow> is_upper c \<or> is_lower c \<or> is_digit c"

definition should_escape :: "url_mode \<Rightarrow> char \<Rightarrow> bool" where
  "should_escape mode c =
     (if is_alnum c then False
      else if mode \<in> {EncodeHost, EncodeZone} \<and> c \<in> set ''!$&'' \<union> {CHR 0x27} \<union> set ''()*+,;=:[]<>\"'' then False
      else if c \<in> set ''-_.~'' then False
      else if c \<in> set ''$&+,/:;=?@'' then
        (case mode of
           EncodePath \<Rightarrow> c = CHR ''?''
         | EncodePathSegment \<Rightarrow> c \<in> set ''/;,?''
         | EncodeUserPassword \<Rightarrow> c \<in> set ''@/?:''
         | EncodeQueryComponent \<Rightarrow> True
         | EncodeFragment \<Rightarrow> False
         | _ \<Rightarrow> True)
      else if mode = EncodeFragment \<and> c \<in> set ''!()*'' then False
      else True)"

definition hex_digits :: string where "hex_digits = ''0123456789ABCDEF''"

definition unhex :: "char \<Rightarrow> nat option" where
  "unhex c = (let n = (of_char c :: nat) in
     if 48 \<le> n \<and> n \<le> 57 then Some (n - 48)
     else if 97 \<le> n \<and> n \<le> 102 then Some (n - 87)
     else if 65 \<le> n \<and> n \<le> 70 then Some (n - 55) else None)"

definition percent :: "char \<Rightarrow> string" where
  "percent c = [CHR ''%'', hex_digits ! ((of_char c :: nat) div 16), hex_digits ! ((of_char c :: nat) mod 16)]"

definition escape_char :: "url_mode \<Rightarrow> char \<Rightarrow> string" where
  "escape_char mode c =
     (if should_escape mode c
      then (if c = CHR '' '' \<and> mode = EncodeQueryComponent then ''+'' else percent c)
      else [c])"

definition url_escape :: "url_mode \<Rightarrow> string \<Rightarrow> string" where
  "url_escape mode s = concat (map (escape_char mode) s)"

text \<open>A host may percent-encode only bytes outside ASCII and the percent sign; a zone also spaces
  and whatever a host may contain.\<close>

definition percent_allowed :: "url_mode \<Rightarrow> char \<Rightarrow> char \<Rightarrow> nat \<Rightarrow> nat \<Rightarrow> bool" where
  "percent_allowed mode a b x y =
     (case mode of
        EncodeHost \<Rightarrow> \<not> x < 8 \<or> (a = CHR ''2'' \<and> b = CHR ''5'')
      | EncodeZone \<Rightarrow> (a = CHR ''2'' \<and> b = CHR ''5'') \<or> char_of (x * 16 + y) = CHR '' ''
          \<or> \<not> should_escape EncodeHost (char_of (x * 16 + y))
      | _ \<Rightarrow> True)"

fun url_unescape :: "url_mode \<Rightarrow> string \<Rightarrow> string option" where
  "url_unescape mode [] = Some []"
| "url_unescape mode (c # s) =
     (if c = CHR ''%'' then
        (case s of
           a # b # t \<Rightarrow>
             (case (unhex a, unhex b) of
                (Some x, Some y) \<Rightarrow>
                  if percent_allowed mode a b x y
                  then map_option (\<lambda>r. char_of (x * 16 + y) # r) (url_unescape mode t) else None
              | _ \<Rightarrow> None)
         | _ \<Rightarrow> None)
      else if mode \<in> {EncodeHost, EncodeZone} \<and> (of_char c :: nat) < 128 \<and> should_escape mode c then None
      else map_option (\<lambda>r. (if c = CHR ''+'' \<and> mode = EncodeQueryComponent then CHR '' '' else c) # r)
        (url_unescape mode s))"

abbreviation path_unescape :: "string \<Rightarrow> string option" where
  "path_unescape \<equiv> url_unescape EncodePathSegment"

abbreviation query_unescape :: "string \<Rightarrow> string option" where
  "query_unescape \<equiv> url_unescape EncodeQueryComponent"

section \<open>Query values\<close>

type_synonym url_values = "(string, string list) gomap"

definition values_get :: "url_values \<Rightarrow> string \<Rightarrow> string" where
  "values_get v k = (case mget v k of Some (x # xs) \<Rightarrow> x | _ \<Rightarrow> [])"

definition values_set :: "string \<Rightarrow> string \<Rightarrow> url_values \<Rightarrow> url_values" where
  "values_set k x v = mput k [x] v"

definition values_add :: "string \<Rightarrow> string \<Rightarrow> url_values \<Rightarrow> url_values" where
  "values_add k x v = mput k ((case mget v k of Some xs \<Rightarrow> xs | None \<Rightarrow> []) @ [x]) v"

definition encode_pair :: "string \<times> string \<Rightarrow> string" where
  "encode_pair p = url_escape EncodeQueryComponent (fst p) @ ''='' @ url_escape EncodeQueryComponent (snd p)"

definition values_pairs :: "url_values \<Rightarrow> (string \<times> string) list" where
  "values_pairs v = concat (map (\<lambda>k. map (Pair k) (case mget v k of Some xs \<Rightarrow> xs | None \<Rightarrow> [])) (sort (map fst v)))"

definition values_encode :: "url_values \<Rightarrow> string" where
  "values_encode v = join_with ''&'' (map encode_pair (values_pairs v))"

text \<open>One \<open>&\<close>-separated piece of a query: a bad piece is skipped and sets the error.\<close>

definition query_piece :: "string \<Rightarrow> url_values \<times> bool \<Rightarrow> url_values \<times> bool" where
  "query_piece piece r =
     (if CHR '';'' \<in> set piece then (fst r, False)
      else if piece = [] then r
      else let (k, x, _) = cut_byte CHR ''='' piece in
        case (query_unescape k, query_unescape x) of
          (Some k', Some x') \<Rightarrow> (values_add k' x' (fst r), snd r)
        | _ \<Rightarrow> (fst r, False))"

text \<open>\<open>url.ParseQuery\<close>: the values read, and whether no error occurred.\<close>

definition parse_query :: "string \<Rightarrow> url_values \<times> bool" where
  "parse_query s = fold query_piece (split_byte CHR ''&'' s) ([], True)"

section \<open>Textual IP addresses\<close>

definition is_hex :: "char \<Rightarrow> bool" where
  "is_hex c \<longleftrightarrow> unhex c \<noteq> None"

definition v4_field :: "string \<Rightarrow> bool" where
  "v4_field s \<longleftrightarrow> s \<noteq> [] \<and> list_all is_digit s \<and> digits_value 0 s \<le> 255 \<and> (hd s = CHR ''0'' \<longrightarrow> s = ''0'')"

definition is_ipv4 :: "string \<Rightarrow> bool" where
  "is_ipv4 s \<longleftrightarrow> (let fs = split_byte CHR ''.'' s in length fs = 4 \<and> list_all v4_field fs)"

text \<open>The groups of an IPv6 address from byte \<open>i\<close> on; \<open>ell\<close> says that \<open>::\<close> was seen.\<close>

definition v6_finish :: "nat \<Rightarrow> bool \<Rightarrow> bool" where
  "v6_finish i ell = (if i < 16 then ell else \<not> ell)"

function v6_groups :: "nat \<Rightarrow> bool \<Rightarrow> string \<Rightarrow> bool" where
  "v6_groups i ell s =
     (if 16 \<le> i then s = [] \<and> \<not> ell
      else let ds = takeWhile is_hex s; rest = dropWhile is_hex s in
        if ds = [] \<or> 4 < length ds then False
        else case rest of
            [] \<Rightarrow> v6_finish (i + 2) ell
          | c # rest' \<Rightarrow>
              if c = CHR ''.'' then (ell \<or> i = 12) \<and> i + 4 \<le> 16 \<and> is_ipv4 s \<and> v6_finish (i + 4) ell
              else if c \<noteq> CHR '':'' then False
              else case rest' of
                  [] \<Rightarrow> False
                | d # rest'' \<Rightarrow>
                    if d = CHR '':''
                    then \<not> ell \<and> (if rest'' = [] then v6_finish (i + 2) True else v6_groups (i + 2) True rest'')
                    else v6_groups (i + 2) ell rest')"
  by pat_completeness auto
termination v6_groups
proof (relation "measure (\<lambda>(i, ell, s). 16 - i)")
qed auto

definition is_ipv6 :: "string \<Rightarrow> bool" where
  "is_ipv6 s =
     (let (addr, zone, zoned) = cut_byte CHR ''%'' s
      in \<not> (zoned \<and> zone = []) \<and>
         (if has_prefix addr ''::'' then (drop 2 addr = [] \<or> v6_groups 0 True (drop 2 addr))
          else v6_groups 0 False addr))"

text \<open>\<open>netip.ParseAddr\<close> decides the family by the first of dot, colon and percent sign.\<close>

definition is_ip_literal6 :: "string \<Rightarrow> bool" where
  "is_ip_literal6 s =
     (case dropWhile (\<lambda>c. c \<notin> set ''.:%'') s of c # _ \<Rightarrow> c = CHR '':'' \<and> is_ipv6 s | [] \<Rightarrow> False)"

section \<open>URLs\<close>

record userinfo =
  ui_name :: string
  ui_password :: "string option"

record url =
  u_scheme :: string
  u_opaque :: string
  u_user :: "userinfo option"
  u_host :: string
  u_path :: string
  u_raw_path :: string
  u_force_query :: bool
  u_omit_host :: bool
  u_raw_query :: string
  u_fragment :: string

definition empty_url :: url where
  "empty_url = \<lparr>u_scheme = [], u_opaque = [], u_user = None, u_host = [], u_path = [], u_raw_path = [],
     u_force_query = False, u_omit_host = False, u_raw_query = [], u_fragment = []\<rparr>"

text \<open>\<open>Username\<close> and \<open>Password\<close> are safe on a nil \<open>*Userinfo\<close>.\<close>

definition user_name :: "userinfo option \<Rightarrow> string" where
  "user_name u = (case u of Some ui \<Rightarrow> ui_name ui | None \<Rightarrow> [])"

definition user_password :: "userinfo option \<Rightarrow> string \<times> bool" where
  "user_password u =
     (case u of Some ui \<Rightarrow> (case ui_password ui of Some p \<Rightarrow> (p, True) | None \<Rightarrow> ([], False)) | None \<Rightarrow> ([], False))"

definition url_user :: "string \<Rightarrow> userinfo" where
  "url_user n = \<lparr>ui_name = n, ui_password = None\<rparr>"

definition url_user_password :: "string \<Rightarrow> string \<Rightarrow> userinfo" where
  "url_user_password n p = \<lparr>ui_name = n, ui_password = Some p\<rparr>"

definition userinfo_string :: "userinfo \<Rightarrow> string" where
  "userinfo_string ui = url_escape EncodeUserPassword (ui_name ui)
     @ (case ui_password ui of Some p \<Rightarrow> '':'' @ url_escape EncodeUserPassword p | None \<Rightarrow> [])"

text \<open>\<open>getScheme\<close>: \<open>None\<close> when the scheme is missing before the colon.\<close>

fun scheme_from :: "string \<Rightarrow> string \<Rightarrow> string \<Rightarrow> (string \<times> string) option" where
  "scheme_from raw acc [] = Some ([], raw)"
| "scheme_from raw acc (c # s) =
     (if is_upper c \<or> is_lower c then scheme_from raw (acc @ [c]) s
      else if is_digit c \<or> c \<in> set ''+-.'' then (if acc = [] then Some ([], raw) else scheme_from raw (acc @ [c]) s)
      else if c = CHR '':'' then (if acc = [] then None else Some (acc, s))
      else Some ([], raw))"

definition get_scheme :: "string \<Rightarrow> (string \<times> string) option" where
  "get_scheme raw = scheme_from raw [] raw"

definition valid_optional_port :: "string \<Rightarrow> bool" where
  "valid_optional_port s = (case s of [] \<Rightarrow> True | c # p \<Rightarrow> c = CHR '':'' \<and> list_all is_digit p)"

definition valid_userinfo_char :: "char \<Rightarrow> bool" where
  "valid_userinfo_char c \<longleftrightarrow> is_alnum c \<or> c \<in> set ''-._:~!$&'' \<or> c = CHR 0x27 \<or> c \<in> set ''()*+,;=%@''"

definition parse_ip_host :: "string \<Rightarrow> string option" where
  "parse_ip_host host =
     (case last_index_byte host CHR '']'' of
        None \<Rightarrow> None
      | Some e \<Rightarrow>
          let colon_port = drop (e + 1) host; name = drop 1 (take e host)
          in if \<not> valid_optional_port colon_port then None
             else case (case index_of name ''%25'' of
                 Some z \<Rightarrow> (case (url_unescape EncodeHost (take z name), url_unescape EncodeZone (drop z name)) of
                     (Some h, Some zn) \<Rightarrow> Some (h @ zn) | _ \<Rightarrow> None)
               | None \<Rightarrow> url_unescape EncodeHost name) of
               None \<Rightarrow> None
             | Some addr \<Rightarrow>
                 if is_ip_literal6 addr
                 then map_option (\<lambda>cp. ''['' @ addr @ '']'' @ cp) (url_unescape EncodeHost colon_port) else None)"

definition parse_host :: "string \<Rightarrow> string option" where
  "parse_host host =
     (case last_index_byte host CHR ''['' of
        Some 0 \<Rightarrow> parse_ip_host host
      | Some _ \<Rightarrow> None
      | None \<Rightarrow>
          (case index_byte host CHR '':'' of
             Some i \<Rightarrow> if valid_optional_port (drop i host) then url_unescape EncodeHost host else None
           | None \<Rightarrow> url_unescape EncodeHost host))"

definition parse_userinfo :: "string \<Rightarrow> userinfo option" where
  "parse_userinfo s =
     (if \<not> list_all valid_userinfo_char s then None
      else let (n, p, has) = cut_byte CHR '':'' s
        in if has then (case (url_unescape EncodeUserPassword n, url_unescape EncodeUserPassword p) of
              (Some n', Some p') \<Rightarrow> Some (url_user_password n' p') | _ \<Rightarrow> None)
           else map_option url_user (url_unescape EncodeUserPassword s))"

definition parse_authority :: "string \<Rightarrow> (userinfo option \<times> string) option" where
  "parse_authority a =
     (case last_index_byte a CHR ''@'' of
        None \<Rightarrow> map_option (Pair None) (parse_host a)
      | Some i \<Rightarrow>
          (case parse_host (drop (i + 1) a) of
             None \<Rightarrow> None
           | Some h \<Rightarrow> map_option (\<lambda>u. (Some u, h)) (parse_userinfo (take i a))))"

definition set_path :: "string \<Rightarrow> url \<Rightarrow> url option" where
  "set_path p u = map_option (\<lambda>path. u\<lparr>u_path := path,
       u_raw_path := (if p = url_escape EncodePath path then [] else p)\<rparr>) (url_unescape EncodePath p)"

definition is_ctl :: "char \<Rightarrow> bool" where
  "is_ctl c \<longleftrightarrow> (of_char c :: nat) < 32 \<or> (of_char c :: nat) = 127"

text \<open>The parser after the fragment is cut off.\<close>

definition parse_rest :: "url \<Rightarrow> string \<Rightarrow> url option" where
  "parse_rest u rest =
     (if \<not> has_prefix rest ''/'' \<and> u_scheme u \<noteq> [] then Some (u\<lparr>u_opaque := rest\<rparr>)
      else if \<not> has_prefix rest ''/'' \<and> CHR '':'' \<in> set (cut_before CHR ''/'' rest) then None
      else if (u_scheme u \<noteq> [] \<or> \<not> has_prefix rest ''///'') \<and> has_prefix rest ''//'' then
        (let authority = cut_before CHR ''/'' (drop 2 rest);
             path = drop (length authority) (drop 2 rest)
         in case parse_authority authority of
              None \<Rightarrow> None
            | Some (user, host) \<Rightarrow> set_path path (u\<lparr>u_user := user, u_host := host\<rparr>))
      else set_path rest (u\<lparr>u_omit_host := (u_scheme u \<noteq> [] \<and> has_prefix rest ''/'')\<rparr>))"

definition parse_no_fragment :: "string \<Rightarrow> url option" where
  "parse_no_fragment raw =
     (if list_ex is_ctl raw then None
      else if raw = ''*'' then Some (empty_url\<lparr>u_path := ''*''\<rparr>)
      else case get_scheme raw of
          None \<Rightarrow> None
        | Some (scheme, rest) \<Rightarrow>
            let u = empty_url\<lparr>u_scheme := to_lower scheme\<rparr>
            in if has_suffix rest ''?'' \<and> count_list rest CHR ''?'' = 1
               then parse_rest (u\<lparr>u_force_query := True\<rparr>) (butlast rest)
               else let (path, query, _) = cut_byte CHR ''?'' rest
                 in parse_rest (u\<lparr>u_raw_query := query\<rparr>) path)"

definition url_parse :: "string \<Rightarrow> url option" where
  "url_parse raw =
     (let (head, frag, _) = cut_byte CHR ''#'' raw
      in case parse_no_fragment head of
           None \<Rightarrow> None
         | Some u \<Rightarrow>
             if frag = [] then Some u
             else map_option (\<lambda>f. u\<lparr>u_fragment := f\<rparr>) (url_unescape EncodeFragment frag))"

definition url_query :: "url \<Rightarrow> url_values" where
  "url_query u = fst (parse_query (u_raw_query u))"

text \<open>\<open>Hostname\<close> and \<open>Port\<close>.\<close>

definition split_url_host :: "string \<Rightarrow> string \<times> string" where
  "split_url_host hp =
     (let (h, p) = (case last_index_byte hp CHR '':'' of
          Some i \<Rightarrow> if valid_optional_port (drop i hp) then (take i hp, drop (i + 1) hp) else (hp, [])
        | None \<Rightarrow> (hp, []))
      in (if has_prefix h ''['' \<and> has_suffix h '']'' then drop 1 (butlast h) else h, p))"

definition url_hostname :: "url \<Rightarrow> string" where "url_hostname u = fst (split_url_host (u_host u))"
definition url_port :: "url \<Rightarrow> string" where "url_port u = snd (split_url_host (u_host u))"

text \<open>\<open>net.JoinHostPort\<close>.\<close>

definition join_host_port :: "string \<Rightarrow> string \<Rightarrow> string" where
  "join_host_port h p = (if CHR '':'' \<in> set h then ''['' @ h @ '']:'' @ p else h @ '':'' @ p)"

section \<open>Printing\<close>

definition valid_encoded_path :: "string \<Rightarrow> bool" where
  "valid_encoded_path s = list_all (\<lambda>c. c \<in> set ''!$&()*+,;=:@[]%'' \<or> c = CHR 0x27
     \<or> \<not> should_escape EncodePath c) s"

definition escaped_path :: "url \<Rightarrow> string" where
  "escaped_path u =
     (if u_raw_path u \<noteq> [] \<and> valid_encoded_path (u_raw_path u)
         \<and> url_unescape EncodePath (u_raw_path u) = Some (u_path u) then u_raw_path u
      else if u_path u = ''*'' then ''*''
      else url_escape EncodePath (u_path u))"

definition url_authority :: "url \<Rightarrow> string" where
  "url_authority u =
     (if u_scheme u = [] \<and> u_host u = [] \<and> u_user u = None then []
      else if u_omit_host u \<and> u_host u = [] \<and> u_user u = None then []
      else (if u_host u \<noteq> [] \<or> u_path u \<noteq> [] \<or> u_user u \<noteq> None then ''//'' else [])
        @ (case u_user u of Some ui \<Rightarrow> userinfo_string ui @ ''@'' | None \<Rightarrow> [])
        @ url_escape EncodeHost (u_host u))"

definition url_string :: "url \<Rightarrow> string" where
  "url_string u =
     (let scheme = (if u_scheme u = [] then [] else u_scheme u @ '':'');
          path = escaped_path u;
          front = scheme @ url_authority u
            @ (if path \<noteq> [] \<and> hd path \<noteq> CHR ''/'' \<and> u_host u \<noteq> [] then ''/'' else []);
          hier = (if u_opaque u \<noteq> [] then scheme @ u_opaque u
            else front @ (if front = [] \<and> CHR '':'' \<in> set (cut_before CHR ''/'' path) then ''./'' else []) @ path)
      in hier @ (if u_force_query u \<or> u_raw_query u \<noteq> [] then ''?'' @ u_raw_query u else [])
           @ (if u_fragment u \<noteq> [] then ''#'' @ url_escape EncodeFragment (u_fragment u) else []))"

end
