(* ===== verification/GoUrlFacts.thy ===== *)
theory GoUrlFacts
  imports GoUrl
begin

text \<open>
  Facts about \<open>GoUrl\<close>: unescaping undoes escaping, encoded query values parse back, and a URL made
  of a scheme, an optional user, a host with a port, query values and a fragment, which is what
  the subscription code prints for a node, parses back to its parts.
\<close>

section \<open>Escaping\<close>

lemma byte_div_mod: "(of_char c :: nat) div 16 < 16" "(of_char c :: nat) mod 16 < 16"
  by (simp_all add: less_mult_imp_div_less)

lemma unhex_digit: "n < 16 \<Longrightarrow> unhex (hex_digits ! n) = Some n"
proof -
  assume "n < 16"
  then have "n \<in> set [0..<16]" by simp
  moreover have "\<forall>n\<in>set [0..<16]. unhex (hex_digits ! n) = Some n" by code_simp
  ultimately show ?thesis by blast
qed

lemma hex_digits_alnum: "n < 16 \<Longrightarrow> is_alnum (hex_digits ! n)"
proof -
  assume "n < 16"
  then have "n \<in> set [0..<16]" by simp
  moreover have "\<forall>n\<in>set [0..<16]. is_alnum (hex_digits ! n)" by code_simp
  ultimately show ?thesis by blast
qed

lemma unescape_percent:
  assumes "percent_allowed m (hex_digits ! (of_char c div 16)) (hex_digits ! (of_char c mod 16))
    ((of_char c :: nat) div 16) ((of_char c :: nat) mod 16)"
  shows "url_unescape m (percent c @ t) = map_option (Cons c) (url_unescape m t)"
  using assms by (simp add: percent_def unhex_digit byte_div_mod)

lemma percent_escaped: "should_escape m CHR ''%''"
  by (cases m) (simp_all add: should_escape_def is_alnum_def is_upper_def is_lower_def is_digit_def)

lemma space_escaped: "should_escape m CHR '' ''"
  by (cases m) (simp_all add: should_escape_def is_alnum_def is_upper_def is_lower_def is_digit_def)

lemma url_escape_Cons: "url_escape m (c # s) = escape_char m c @ url_escape m s"
  by (simp add: url_escape_def)

lemma url_escape_Nil [simp]: "url_escape m [] = []"
  by (simp add: url_escape_def)

lemma url_escape_append: "url_escape m (s @ t) = url_escape m s @ url_escape m t"
  by (simp add: url_escape_def)

lemma url_escape_eq_Nil [simp]: "url_escape m s = [] \<longleftrightarrow> s = []"
  by (cases s) (simp_all add: url_escape_Cons escape_char_def percent_def)

lemma unescape_escape:
  assumes "m' \<notin> {EncodeHost, EncodeZone, EncodeQueryComponent}" and "m \<noteq> EncodeQueryComponent"
  shows "url_unescape m' (url_escape m s @ t) = map_option ((@) s) (url_unescape m' t)"
proof (induction s)
  case Nil
  then show ?case by (simp add: option.map_ident)
next
  case (Cons c s)
  have allowed: "percent_allowed m' a b x y" for a b x y
    using assms(1) by (cases m') (simp_all add: percent_allowed_def)
  show ?case
  proof (cases "should_escape m c")
    case True
    then have "url_escape m (c # s) @ t = percent c @ (url_escape m s @ t)"
      using assms(2) by (simp add: url_escape_Cons escape_char_def)
    then show ?thesis using Cons by (simp add: unescape_percent [OF allowed] option.map_comp comp_def)
  next
    case False
    then have "c \<noteq> CHR ''%''" using percent_escaped by metis
    then show ?thesis using False Cons assms by (simp add: url_escape_Cons escape_char_def option.map_comp comp_def)
  qed
qed

lemma unescape_query:
  "query_unescape (url_escape EncodeQueryComponent s @ t) = map_option ((@) s) (query_unescape t)"
proof (induction s)
  case Nil
  then show ?case by (simp add: option.map_ident)
next
  case (Cons c s)
  have allowed: "percent_allowed EncodeQueryComponent a b x y" for a b x y by (simp add: percent_allowed_def)
  have plus: "should_escape EncodeQueryComponent CHR ''+''"
    by (simp add: should_escape_def is_alnum_def is_upper_def is_lower_def is_digit_def)
  show ?case
  proof (cases "should_escape EncodeQueryComponent c \<and> c \<noteq> CHR '' ''")
    case True
    then have "url_escape EncodeQueryComponent (c # s) @ t = percent c @ (url_escape EncodeQueryComponent s @ t)"
      by (simp add: url_escape_Cons escape_char_def)
    then show ?thesis using Cons by (simp add: unescape_percent [OF allowed] option.map_comp comp_def)
  next
    case False
    then have "c = CHR '' '' \<or> (c \<noteq> CHR ''%'' \<and> c \<noteq> CHR ''+'')" using percent_escaped plus by metis
    then show ?thesis using False Cons space_escaped
      by (auto simp: url_escape_Cons escape_char_def option.map_comp comp_def)
  qed
qed

lemmas unescape_escape_all = unescape_escape [where t = "[]", simplified] unescape_query [where t = "[]", simplified]

lemma path_unescape_escape:
  "m \<noteq> EncodeQueryComponent \<Longrightarrow> path_unescape (url_escape m s) = Some s"
  using unescape_escape [of EncodePathSegment m s "[]"] by simp

lemma fragment_unescape_escape: "url_unescape EncodeFragment (url_escape EncodeFragment s) = Some s"
  using unescape_escape [of EncodeFragment EncodeFragment s "[]"] by simp

lemma user_unescape_escape: "url_unescape EncodeUserPassword (url_escape EncodeUserPassword s) = Some s"
  using unescape_escape [of EncodeUserPassword EncodeUserPassword s "[]"] by simp

lemma query_unescape_escape: "query_unescape (url_escape EncodeQueryComponent s) = Some s"
  using unescape_query [of s "[]"] by simp

text \<open>The bytes a host may have: the unreserved ones of the host mode, the percent sign and
  everything outside ASCII.\<close>

definition host_char :: "char \<Rightarrow> bool" where
  "host_char c \<longleftrightarrow> \<not> should_escape EncodeHost c \<or> c = CHR ''%'' \<or> 128 \<le> (of_char c :: nat)"

lemma host_percent_allowed:
  assumes "c = CHR ''%'' \<or> 128 \<le> (of_char c :: nat)"
  shows "percent_allowed EncodeHost (hex_digits ! (of_char c div 16)) (hex_digits ! (of_char c mod 16))
    ((of_char c :: nat) div 16) ((of_char c :: nat) mod 16)"
proof (cases "c = CHR ''%''")
  case True
  then show ?thesis by (simp add: percent_allowed_def hex_digits_def)
next
  case False
  then have "8 \<le> (of_char c :: nat) div 16" using assms by (simp add: less_eq_div_iff_mult_less_eq)
  then show ?thesis by (simp add: percent_allowed_def)
qed

lemma host_unescape_escape:
  "(\<And>c. c \<in> set s \<Longrightarrow> host_char c) \<Longrightarrow> url_unescape EncodeHost (url_escape EncodeHost s) = Some s"
proof (induction s)
  case (Cons c s)
  then have IH: "url_unescape EncodeHost (url_escape EncodeHost s) = Some s" by simp
  show ?case
  proof (cases "should_escape EncodeHost c")
    case True
    then have "c = CHR ''%'' \<or> 128 \<le> (of_char c :: nat)" using Cons.prems [of c] by (simp add: host_char_def)
    then have "url_unescape EncodeHost (percent c @ url_escape EncodeHost s) = Some (c # s)"
      using IH by (simp add: unescape_percent host_percent_allowed)
    then show ?thesis using True by (simp add: url_escape_Cons escape_char_def)
  next
    case False
    then have "c \<noteq> CHR ''%''" using percent_escaped by metis
    then show ?thesis using False IH by (simp add: url_escape_Cons escape_char_def)
  qed
qed simp

text \<open>What the escaped text consists of.\<close>

lemma escape_char_set:
  "c' \<in> set (escape_char m c) \<Longrightarrow> is_alnum c' \<or> c' = CHR ''%'' \<or> c' = CHR ''+'' \<or> (c' = c \<and> \<not> should_escape m c)"
  by (auto simp: escape_char_def percent_def hex_digits_alnum byte_div_mod split: if_splits)

lemma url_escape_set:
  "c \<in> set (url_escape m s) \<Longrightarrow> is_alnum c \<or> c = CHR ''%'' \<or> c = CHR ''+'' \<or> (c \<in> set s \<and> \<not> should_escape m c)"
  unfolding url_escape_def using escape_char_set by fastforce

lemma alnum_simps [simp]:
  "\<not> is_alnum CHR '':''" "\<not> is_alnum CHR ''/''" "\<not> is_alnum CHR ''@''" "\<not> is_alnum CHR ''?''"
  "\<not> is_alnum CHR ''#''" "\<not> is_alnum CHR ''['' " "\<not> is_alnum CHR '']''" "\<not> is_alnum CHR ''&''"
  "\<not> is_alnum CHR ''=''" "\<not> is_alnum CHR '';''" "\<not> is_alnum CHR ''%''" "\<not> is_alnum CHR ''+''"
  "\<not> is_alnum CHR '' ''" "\<not> is_alnum CHR '',''"
  by (simp_all add: is_alnum_def is_upper_def is_lower_def is_digit_def)

lemma query_escape_clean:
  "CHR ''&'' \<notin> set (url_escape EncodeQueryComponent s)" "CHR ''='' \<notin> set (url_escape EncodeQueryComponent s)"
  "CHR '';'' \<notin> set (url_escape EncodeQueryComponent s)" "CHR ''#'' \<notin> set (url_escape EncodeQueryComponent s)"
  "CHR ''?'' \<notin> set (url_escape EncodeQueryComponent s)"
  by (auto dest!: url_escape_set simp: should_escape_def)

lemma user_escape_clean:
  "CHR ''@'' \<notin> set (url_escape EncodeUserPassword s)" "CHR '':'' \<notin> set (url_escape EncodeUserPassword s)"
  "CHR ''/'' \<notin> set (url_escape EncodeUserPassword s)" "CHR ''?'' \<notin> set (url_escape EncodeUserPassword s)"
  "CHR ''#'' \<notin> set (url_escape EncodeUserPassword s)"
  by (auto dest!: url_escape_set simp: should_escape_def)

lemma fragment_escape_clean: "CHR ''#'' \<notin> set (url_escape EncodeFragment s)"
  by (auto dest!: url_escape_set simp: should_escape_def)

lemma host_escape_clean:
  "CHR ''@'' \<notin> set (url_escape EncodeHost s)" "CHR ''/'' \<notin> set (url_escape EncodeHost s)"
  "CHR ''?'' \<notin> set (url_escape EncodeHost s)" "CHR ''#'' \<notin> set (url_escape EncodeHost s)"
  by (auto dest!: url_escape_set simp: should_escape_def)

text \<open>No escaped text has a control byte.\<close>

lemma ctl_escaped: "is_ctl c \<Longrightarrow> should_escape m c"
proof -
  assume ctl: "is_ctl c"
  have "c \<notin> set ''!$&()*+,;=:[]<>\"-_.~/?@'' \<union> {CHR 0x27}"
  proof
    assume "c \<in> set ''!$&()*+,;=:[]<>\"-_.~/?@'' \<union> {CHR 0x27}"
    moreover have "\<forall>c\<in>set ''!$&()*+,;=:[]<>\"-_.~/?@'' \<union> {CHR 0x27}. \<not> is_ctl c" by code_simp
    ultimately show False using ctl by blast
  qed
  moreover have "\<not> is_alnum c" using ctl by (auto simp: is_ctl_def is_alnum_def is_upper_def is_lower_def is_digit_def)
  ultimately show ?thesis by (simp add: should_escape_def)
qed

lemma escape_no_ctl: "c \<in> set (url_escape m s) \<Longrightarrow> \<not> is_ctl c"
  using url_escape_set [of c m s] ctl_escaped [of c m]
  by (auto simp: is_ctl_def is_alnum_def is_upper_def is_lower_def is_digit_def)

section \<open>Query values\<close>

lemma query_piece_pair: "query_piece (encode_pair p) r = (values_add (fst p) (snd p) (fst r), snd r)"
proof -
  have "CHR '';'' \<notin> set (encode_pair p)" using query_escape_clean by (simp add: encode_pair_def)
  moreover have "encode_pair p \<noteq> []" by (simp add: encode_pair_def)
  moreover have "cut_byte CHR ''='' (encode_pair p)
      = (url_escape EncodeQueryComponent (fst p), url_escape EncodeQueryComponent (snd p), True)"
    using cut_byte_append [OF query_escape_clean(2)] by (simp add: encode_pair_def)
  ultimately show ?thesis by (simp add: query_piece_def query_unescape_escape)
qed

lemma encode_pair_clean: "CHR ''&'' \<notin> set (encode_pair p)" "CHR ''#'' \<notin> set (encode_pair p)"
    "CHR ''?'' \<notin> set (encode_pair p)"
  using query_escape_clean by (simp_all add: encode_pair_def)

lemma parse_query_pairs:
  "parse_query (join_with ''&'' (map encode_pair ps)) = (fold (\<lambda>p. values_add (fst p) (snd p)) ps [], True)"
proof (cases "ps = []")
  case True
  then show ?thesis by (simp add: parse_query_def query_piece_def)
next
  case False
  have "fold query_piece (map encode_pair ps) (v, ok) = (fold (\<lambda>p. values_add (fst p) (snd p)) ps v, ok)" for v ok
    by (induction ps arbitrary: v) (simp_all add: query_piece_pair)
  moreover have "split_byte CHR ''&'' (join_with ''&'' (map encode_pair ps)) = map encode_pair ps"
    using False by (intro split_join) (auto simp: encode_pair_clean)
  ultimately show ?thesis by (simp add: parse_query_def)
qed

lemma mget_fold_values_add:
  "mget (fold (\<lambda>p. values_add (fst p) (snd p)) ps v) k =
     (case map snd (filter (\<lambda>p. fst p = k) ps) of [] \<Rightarrow> mget v k
      | x # xs \<Rightarrow> Some ((case mget v k of Some ys \<Rightarrow> ys | None \<Rightarrow> []) @ x # xs))"
proof (induction ps arbitrary: v)
  case (Cons p ps)
  then show ?case
    by (cases "filter (\<lambda>p. fst p = k) ps") (auto simp: values_add_def mget_mput split: option.splits)
qed simp

lemma values_pairs_key:
  assumes "gomap_ok v"
  shows "map snd (filter (\<lambda>p. fst p = k) (values_pairs v)) = (case mget v k of Some xs \<Rightarrow> xs | None \<Rightarrow> [])"
proof -
  let ?xs = "\<lambda>k. case mget v k of Some xs \<Rightarrow> xs | None \<Rightarrow> []"
  have one: "map snd (filter (\<lambda>p. fst p = k) (map (Pair k') xs)) = (if k' = k then xs else [])"
    for k' and xs :: "string list" by (induction xs) auto
  have "map snd (filter (\<lambda>p. fst p = k) (concat (map (\<lambda>k. map (Pair k) (?xs k)) ks))) = (if k \<in> set ks then ?xs k else [])"
    if "distinct ks" for ks
    using that by (induction ks) (auto simp: one)
  moreover have "distinct (sort (map fst v))" using assms by (simp add: gomap_ok_def)
  ultimately have "map snd (filter (\<lambda>p. fst p = k) (values_pairs v)) = (if k \<in> mkeys v then ?xs k else [])"
    unfolding values_pairs_def by simp
  then show ?thesis by (auto simp: mget_None_iff [symmetric])
qed

lemma parse_query_encode_ok: "snd (parse_query (values_encode v))"
  by (simp add: values_encode_def parse_query_pairs)

lemma values_get_encode:
  assumes "gomap_ok v"
  shows "values_get (fst (parse_query (values_encode v))) k = values_get v k"
  using values_pairs_key [OF assms, of k]
  by (simp add: values_encode_def parse_query_pairs values_get_def mget_fold_values_add split: list.splits option.splits)

lemma values_encode_clean: "CHR ''#'' \<notin> set (values_encode v)" "CHR ''?'' \<notin> set (values_encode v)"
  using set_join_with [of "''&''" "map encode_pair (values_pairs v)"] encode_pair_clean
  by (auto simp: values_encode_def)

lemma values_encode_no_ctl: "c \<in> set (values_encode v) \<Longrightarrow> \<not> is_ctl c"
proof -
  assume "c \<in> set (values_encode v)"
  then have "c = CHR ''&'' \<or> (\<exists>p. c \<in> set (encode_pair p))"
    using set_join_with [of "''&''" "map encode_pair (values_pairs v)"] by (auto simp: values_encode_def)
  then show ?thesis using escape_no_ctl [of c EncodeQueryComponent] by (auto simp: encode_pair_def is_ctl_def)
qed

lemma gomap_ok_values_set [simp]: "gomap_ok v \<Longrightarrow> gomap_ok (values_set k x v)"
  by (simp add: values_set_def)

lemma values_get_set [simp]: "values_get (values_set k x v) k' = (if k' = k then x else values_get v k')"
  by (simp add: values_get_def values_set_def mget_mput)

lemma values_get_Nil [simp]: "values_get [] k = []"
  by (simp add: values_get_def)

section \<open>Hosts with a port\<close>

text \<open>The servers a URL carries without loss: names whose bytes a host may have, and IPv6 addresses.\<close>

definition good_server :: "string \<Rightarrow> bool" where
  "good_server s \<longleftrightarrow> s \<noteq> [] \<and> list_all (\<lambda>c. host_char c \<and> c \<noteq> CHR ''['' \<and> c \<noteq> CHR '']'') s \<and>
     (CHR '':'' \<in> set s \<longrightarrow> is_ip_literal6 s \<and> list_all (\<lambda>c. \<not> should_escape EncodeHost c) s)"

lemma good_serverD:
  assumes "good_server s"
  shows "s \<noteq> []" and "c \<in> set s \<Longrightarrow> host_char c" and "CHR ''['' \<notin> set s" and "CHR '']'' \<notin> set s"
    and "CHR '':'' \<in> set s \<Longrightarrow> is_ip_literal6 s"
    and "CHR '':'' \<in> set s \<Longrightarrow> c \<in> set s \<Longrightarrow> \<not> should_escape EncodeHost c"
  using assms by (auto simp: good_server_def list_all_iff)

lemma url_escape_id: "(\<And>c. c \<in> set s \<Longrightarrow> \<not> should_escape m c) \<Longrightarrow> url_escape m s = s"
  by (induction s) (simp_all add: url_escape_Cons escape_char_def)

lemma host_literals:
  "\<not> should_escape EncodeHost CHR '':''" "\<not> should_escape EncodeHost CHR ''[''" "\<not> should_escape EncodeHost CHR '']''"
  by (simp_all add: should_escape_def)

lemma digit_unescaped: "is_digit c \<Longrightarrow> \<not> should_escape m c"
  by (simp add: should_escape_def is_alnum_def)

lemma escape_digits: "list_all is_digit p \<Longrightarrow> url_escape m p = p"
  by (rule url_escape_id) (auto simp: list_all_iff digit_unescaped)

lemma host_port_chars:
  assumes "good_server s" and "list_all is_digit p" and "c \<in> set (join_host_port s p)"
  shows "host_char c"
  using assms(2,3) good_serverD(2) [OF assms(1)]
  by (auto simp: join_host_port_def host_char_def host_literals list_all_iff digit_unescaped split: if_splits)

lemma host_escape_absent:
  assumes "b \<notin> set s" and "\<not> is_alnum b" and "b \<noteq> CHR ''%''" and "b \<noteq> CHR ''+''"
  shows "b \<notin> set (url_escape m s)"
  using assms url_escape_set by blast

lemma not_escaped_index_of: "b \<notin> set s \<Longrightarrow> index_of s (b # t) = None"
  by (induction s) (auto simp: has_prefix_iff)

lemma parse_host_join:
  assumes good: "good_server s" and dig: "list_all is_digit p"
  shows "parse_host (url_escape EncodeHost (join_host_port s p)) = Some (join_host_port s p)"
proof (cases "CHR '':'' \<in> set s")
  case False
  let ?h = "url_escape EncodeHost s @ CHR '':'' # p"
  have esc: "url_escape EncodeHost (join_host_port s p) = ?h"
    using False dig by (simp add: join_host_port_def url_escape_append url_escape_Cons escape_char_def host_literals escape_digits)
  have un: "url_unescape EncodeHost ?h = Some (join_host_port s p)"
    unfolding esc [symmetric] by (rule host_unescape_escape) (rule host_port_chars [OF good dig])
  have "CHR '':'' \<notin> set (url_escape EncodeHost s)" using False by (intro host_escape_absent) simp_all
  then have colon: "index_byte ?h CHR '':'' = Some (length (url_escape EncodeHost s))" by (rule index_byte_append)
  have "CHR ''['' \<notin> set ?h"
    using dig good_serverD(3) [OF good] host_escape_absent [of "CHR ''[''" s EncodeHost]
    by (auto simp: list_all_iff)
  then have "last_index_byte ?h CHR ''['' = None" by (simp add: last_index_byte_def)
  then show ?thesis using colon un dig unfolding esc by (simp add: parse_host_def valid_optional_port_def)
next
  case True
  let ?h = "CHR ''['' # s @ CHR '']'' # CHR '':'' # p"
  have lit: "is_ip_literal6 s" using good_serverD(5) [OF good True] .
  have plain: "\<And>c. c \<in> set s \<Longrightarrow> \<not> should_escape EncodeHost c" using good_serverD(6) [OF good True] .
  have escs: "url_escape EncodeHost s = s" by (rule url_escape_id) (rule plain)
  have esc: "url_escape EncodeHost (join_host_port s p) = ?h"
    using True dig escs
    by (simp add: join_host_port_def url_escape_append url_escape_Cons escape_char_def host_literals escape_digits)
  have "CHR ''['' \<notin> set (s @ CHR '']'' # CHR '':'' # p)"
    using dig good_serverD(3) [OF good] by (auto simp: list_all_iff)
  then have open0: "last_index_byte ?h CHR ''['' = Some 0"
    using last_index_byte_append [of "CHR ''[''" "s @ CHR '']'' # CHR '':'' # p" "[]"] by simp
  have "CHR '']'' \<notin> set (CHR '':'' # p)" using dig by (auto simp: list_all_iff)
  then have close: "last_index_byte ?h CHR '']'' = Some (Suc (length s))"
    using last_index_byte_append [of "CHR '']''" "CHR '':'' # p" "CHR ''['' # s"] by simp
  have "CHR ''%'' \<notin> set s" using plain percent_escaped by blast
  then have zone: "index_of s ''%25'' = None" by (rule not_escaped_index_of)
  have uns: "url_unescape EncodeHost s = Some s"
    using host_unescape_escape [of s] good_serverD(2) [OF good] by (simp add: escs)
  have "url_unescape EncodeHost (url_escape EncodeHost (CHR '':'' # p)) = Some (CHR '':'' # p)"
    using dig by (intro host_unescape_escape) (auto simp: host_char_def host_literals list_all_iff digit_unescaped)
  then have unp: "url_unescape EncodeHost (CHR '':'' # p) = Some (CHR '':'' # p)"
    using dig by (simp add: url_escape_Cons escape_char_def host_literals escape_digits)
  show ?thesis unfolding esc using open0 close zone uns unp lit dig True
    by (simp add: parse_host_def parse_ip_host_def Let_def valid_optional_port_def join_host_port_def
        del: url_unescape.simps)
qed

lemma split_url_host_join:
  assumes good: "good_server s" and dig: "list_all is_digit p"
  shows "split_url_host (join_host_port s p) = (s, p)"
proof -
  have colon: "CHR '':'' \<notin> set p" using dig by (auto simp: list_all_iff)
  have opt: "valid_optional_port (CHR '':'' # p)" using dig by (simp add: valid_optional_port_def)
  show ?thesis
  proof (cases "CHR '':'' \<in> set s")
    case False
    have "\<not> has_prefix s ''[''" using good_serverD(3) [OF good] by (auto simp: has_prefix_iff)
    then show ?thesis using False colon opt last_index_byte_append [OF colon, of s]
      by (simp add: join_host_port_def split_url_host_def)
  next
    case True
    have "has_suffix (CHR ''['' # s @ '']'') '']''" by (simp add: has_suffix_def)
    then show ?thesis using True colon opt last_index_byte_append [OF colon, of "CHR ''['' # s @ '']''"]
      by (simp add: join_host_port_def split_url_host_def)
  qed
qed

section \<open>Node URLs\<close>

definition node_url :: "string \<Rightarrow> userinfo option \<Rightarrow> string \<Rightarrow> string \<Rightarrow> string \<Rightarrow> url" where
  "node_url scheme user host query frag = empty_url\<lparr>u_scheme := scheme, u_user := user, u_host := host,
     u_raw_query := query, u_fragment := frag\<rparr>"

lemma node_url_simps [simp]:
  "u_scheme (node_url sc us h q f) = sc" "u_user (node_url sc us h q f) = us" "u_host (node_url sc us h q f) = h"
  "u_raw_query (node_url sc us h q f) = q" "u_fragment (node_url sc us h q f) = f" "u_path (node_url sc us h q f) = []"
  by (simp_all add: node_url_def empty_url_def)

definition user_prefix :: "userinfo option \<Rightarrow> string" where
  "user_prefix us = (case us of Some ui \<Rightarrow> userinfo_string ui @ ''@'' | None \<Rightarrow> [])"

definition query_suffix :: "string \<Rightarrow> string" where
  "query_suffix q = (if q \<noteq> [] then ''?'' @ q else [])"

definition fragment_suffix :: "string \<Rightarrow> string" where
  "fragment_suffix f = (if f \<noteq> [] then ''#'' @ url_escape EncodeFragment f else [])"

lemma url_string_node:
  assumes "sc \<noteq> []" and "h \<noteq> []"
  shows "url_string (node_url sc us h q f)
    = sc @ ''://'' @ user_prefix us @ url_escape EncodeHost h @ query_suffix q @ fragment_suffix f"
proof -
  have "escaped_path (node_url sc us h q f) = []"
    by (simp add: escaped_path_def node_url_def empty_url_def)
  then show ?thesis using assms
    by (simp add: url_string_def url_authority_def Let_def user_prefix_def query_suffix_def fragment_suffix_def
        node_url_def empty_url_def split: option.split)
qed

definition plain_scheme :: "string \<Rightarrow> bool" where
  "plain_scheme s \<longleftrightarrow> s \<noteq> [] \<and> is_lower (hd s) \<and> list_all (\<lambda>c. is_lower c \<or> is_digit c) s"

lemma scheme_from_plain:
  assumes "list_all (\<lambda>c. is_lower c \<or> is_digit c) s" and "acc \<noteq> [] \<or> (s \<noteq> [] \<and> is_lower (hd s))"
  shows "scheme_from raw acc (s @ CHR '':'' # t) = Some (acc @ s, t)"
  using assms
proof (induction s arbitrary: acc)
  case Nil
  have "\<not> is_upper CHR '':''" "\<not> is_lower CHR '':''" by (simp_all add: is_upper_def is_lower_def)
  then show ?case using Nil by simp
next
  case (Cons c s)
  have "\<not> is_lower c" if "is_digit c" using that by (auto simp: is_digit_def is_lower_def)
  then show ?case using Cons.prems Cons.IH [of "acc @ [c]"] by auto
qed

lemma lower_no_upper: "is_lower c \<or> is_digit c \<Longrightarrow> lower_char c = c"
  by (auto simp: lower_char_def is_lower_def is_digit_def is_upper_def)

lemma plain_scheme_lower: "plain_scheme s \<Longrightarrow> to_lower s = s"
  by (auto simp: plain_scheme_def to_lower_def list_all_iff lower_no_upper intro: map_idI)

lemma plain_scheme_chars:
  assumes "plain_scheme s" and "c \<in> set s"
  shows "is_alnum c"
  using assms by (auto simp: plain_scheme_def list_all_iff is_alnum_def)

lemma alnum_no_ctl: "is_alnum c \<Longrightarrow> \<not> is_ctl c"
  by (auto simp: is_alnum_def is_ctl_def is_upper_def is_lower_def is_digit_def)

lemma user_unescaped_valid:
  assumes ns: "\<not> should_escape EncodeUserPassword c"
  shows "valid_userinfo_char c"
proof (cases "is_alnum c")
  case True
  then show ?thesis by (simp add: valid_userinfo_char_def)
next
  case False
  have "c \<in> set ''-_.~'' \<or> (c \<in> set ''$&+,/:;=?@'' \<and> c \<notin> set ''@/?:'')"
    using ns False
    by (cases "c \<in> set ''-_.~''"; cases "c \<in> set ''$&+,/:;=?@''")
      (simp_all only: should_escape_def if_True if_False url_mode.simps simp_thms insert_iff empty_iff not_False_eq_True)
  then have "c \<in> set ''-._:~!$&'' \<union> set ''()*+,;=%@''" by auto
  then show ?thesis unfolding valid_userinfo_char_def by blast
qed

lemma valid_userinfo_escape: "list_all valid_userinfo_char (url_escape EncodeUserPassword s)"
proof -
  have "valid_userinfo_char CHR ''%''" "valid_userinfo_char CHR ''+''" by (simp_all add: valid_userinfo_char_def)
  moreover have "valid_userinfo_char c" if "is_alnum c" for c using that by (simp add: valid_userinfo_char_def)
  ultimately have "valid_userinfo_char c" if "c \<in> set (url_escape EncodeUserPassword s)" for c
    using url_escape_set [OF that] user_unescaped_valid by blast
  then show ?thesis by (simp add: list_all_iff)
qed

lemma parse_userinfo_string: "parse_userinfo (userinfo_string ui) = Some ui"
proof (cases "ui_password ui")
  case None
  then show ?thesis
    by (simp add: parse_userinfo_def userinfo_string_def valid_userinfo_escape cut_byte_absent user_escape_clean
        user_unescape_escape url_user_def)
next
  case (Some pw)
  have "valid_userinfo_char CHR '':''" by (simp add: valid_userinfo_char_def)
  then show ?thesis using Some
    by (simp add: parse_userinfo_def userinfo_string_def valid_userinfo_escape cut_byte_append user_escape_clean
        user_unescape_escape url_user_password_def)
qed

lemma parse_authority_node:
  assumes "parse_host (url_escape EncodeHost h) = Some h"
  shows "parse_authority (user_prefix us @ url_escape EncodeHost h) = Some (us, h)"
proof (cases us)
  case None
  have "last_index_byte (url_escape EncodeHost h) CHR ''@'' = None"
    using host_escape_clean(1) by (simp add: last_index_byte_def)
  then show ?thesis using None assms by (simp add: user_prefix_def parse_authority_def)
next
  case (Some ui)
  have "last_index_byte (userinfo_string ui @ CHR ''@'' # url_escape EncodeHost h) CHR ''@''
      = Some (length (userinfo_string ui))"
    by (rule last_index_byte_append) (rule host_escape_clean)
  then show ?thesis using Some assms by (simp add: user_prefix_def parse_authority_def parse_userinfo_string)
qed

lemma user_prefix_clean:
  "CHR ''/'' \<notin> set (user_prefix us)" "CHR ''?'' \<notin> set (user_prefix us)" "CHR ''#'' \<notin> set (user_prefix us)"
  using user_escape_clean by (auto simp: user_prefix_def userinfo_string_def split: option.splits)

lemma user_prefix_no_ctl: "c \<in> set (user_prefix us) \<Longrightarrow> \<not> is_ctl c"
  using escape_no_ctl [of c EncodeUserPassword]
  by (auto simp: user_prefix_def userinfo_string_def is_ctl_def split: option.splits)

lemma cut_before_absent: "b \<notin> set s \<Longrightarrow> cut_before b s = s"
  by (simp add: cut_before_def)

lemma url_parse_node:
  assumes sc: "plain_scheme sc" and host: "h \<noteq> []" "parse_host (url_escape EncodeHost h) = Some h"
    and q: "CHR ''#'' \<notin> set q" "CHR ''?'' \<notin> set q" "\<And>c. c \<in> set q \<Longrightarrow> \<not> is_ctl c"
  shows "url_parse (url_string (node_url sc us h q f)) = Some (node_url sc us h q f)"
proof -
  have sc0: "sc \<noteq> []" using sc by (simp add: plain_scheme_def)
  define auth where "auth = user_prefix us @ url_escape EncodeHost h"
  define rest where "rest = ''//'' @ auth @ query_suffix q"
  define head where "head = sc @ CHR '':'' # rest"
  have url: "url_string (node_url sc us h q f) = head @ fragment_suffix f"
    by (simp add: url_string_node [OF sc0 host(1)] head_def rest_def auth_def)
  have auth_clean: "CHR ''/'' \<notin> set auth" "CHR ''?'' \<notin> set auth" "CHR ''#'' \<notin> set auth"
    using user_prefix_clean host_escape_clean by (simp_all add: auth_def)
  have no_hash: "CHR ''#'' \<notin> set head"
  proof -
    have "CHR ''#'' \<notin> set sc" using plain_scheme_chars [OF sc, of "CHR ''#''"] by auto
    then show ?thesis using auth_clean q(1) by (simp add: head_def rest_def query_suffix_def)
  qed
  have "\<not> is_ctl c" if "c \<in> set head" for c
    using that plain_scheme_chars [OF sc] alnum_no_ctl user_prefix_no_ctl escape_no_ctl q(3)
    by (auto simp: head_def rest_def auth_def query_suffix_def is_ctl_def split: if_splits)
  then have no_ctl: "\<not> list_ex is_ctl head" by (auto simp: list_ex_iff)
  have star: "head \<noteq> ''*''" using sc0 by (cases sc) (auto simp: head_def)
  have scheme: "get_scheme head = Some (sc, rest)"
    using sc scheme_from_plain [of sc "[]" head rest] unfolding get_scheme_def
    by (simp add: plain_scheme_def head_def [symmetric])
  have forced: "\<not> (has_suffix rest ''?'' \<and> count_list rest CHR ''?'' = 1)"
  proof (cases "q = []")
    case True
    then have "CHR ''?'' \<notin> set rest" using auth_clean by (simp add: rest_def query_suffix_def)
    then show ?thesis by (simp add: count_list_0_iff)
  next
    case False
    have "hd (rev q) \<in> set q" using False by (simp add: hd_rev)
    then have "hd (rev q) \<noteq> CHR ''?''" using q(2) by metis
    then have "\<not> has_suffix rest ''?''" using False
      by (cases q rule: rev_cases) (auto simp: has_suffix_def rest_def query_suffix_def)
    then show ?thesis by blast
  qed
  have cutq: "cut_byte CHR ''?'' rest = (''//'' @ auth, q, q \<noteq> [])"
  proof (cases "q = []")
    case True
    then show ?thesis using auth_clean by (simp add: rest_def query_suffix_def cut_byte_absent)
  next
    case False
    have "CHR ''?'' \<notin> set (''//'' @ auth)" using auth_clean by simp
    from cut_byte_append [OF this, of q] show ?thesis using False by (simp add: rest_def query_suffix_def)
  qed
  have rest_ok: "parse_rest (empty_url\<lparr>u_scheme := sc, u_raw_query := q\<rparr>) (''//'' @ auth)
      = Some (node_url sc us h q [])"
    using sc0 auth_clean parse_authority_node [OF host(2), of us, folded auth_def]
    by (simp add: parse_rest_def cut_before_absent set_path_def empty_url_def node_url_def)
  have head_ok: "parse_no_fragment head = Some (node_url sc us h q [])"
    using no_ctl star scheme forced cutq rest_ok plain_scheme_lower [OF sc]
    by (auto simp: parse_no_fragment_def Let_def)
  show ?thesis
  proof (cases "f = []")
    case True
    then have "url_parse (head @ fragment_suffix f) = Some (node_url sc us h q [])"
      using no_hash head_ok by (simp add: url_parse_def fragment_suffix_def cut_byte_absent)
    then show ?thesis unfolding url using True by simp
  next
    case False
    then have "url_parse (head @ fragment_suffix f) = Some (node_url sc us h q [] \<lparr>u_fragment := f\<rparr>)"
      using no_hash head_ok
      by (simp add: url_parse_def fragment_suffix_def cut_byte_append fragment_unescape_escape)
    then show ?thesis unfolding url by (simp add: node_url_def)
  qed
qed

end
