(* ===== verification/ClashUri.thy ===== *)
theory ClashUri
  imports GoBase64 GoUrlFacts
begin

text \<open>
  From a Clash proxy entry to a node URI, and from subscription text to nodes: the second half of
  \<open>internal/config/config.go\<close>. One definition per \<open>build...URI\<close> function. The YAML library is a
  parameter: it turns a document into a list of entries, some of which it fails to decode.
\<close>

section \<open>Clash entries\<close>

record ws_options =
  ws_path :: string
  ws_headers :: "(string, string) gomap"

record reality_options =
  ro_public_key :: string
  ro_short_id :: string

record clash_proxy =
  cp_name :: string
  cp_type :: string
  cp_server :: string
  cp_port :: int
  cp_ports :: string
  cp_uuid :: string
  cp_username :: string
  cp_password :: string
  cp_cipher :: string
  cp_alter_id :: int
  cp_network :: string
  cp_tls :: bool
  cp_skip_cert_verify :: bool
  cp_server_name :: string
  cp_sni :: string
  cp_flow :: string
  cp_ws_opts :: "ws_options option"
  cp_grpc_opts :: "string option"     \<comment> \<open>the service name\<close>
  cp_reality_opts :: "reality_options option"
  cp_fingerprint :: string
  cp_obfs :: string
  cp_obfs_password :: string
  cp_alpn :: "string list"
  cp_congestion :: string
  cp_udp_relay_mode :: string
  cp_protocol :: string
  cp_protocol_param :: string
  cp_obfs_param :: string
  cp_auth_str :: string
  cp_auth :: string
  cp_up_mbps :: int
  cp_down_mbps :: int
  cp_peer_sni :: string

definition empty_clash :: clash_proxy where
  "empty_clash = \<lparr>cp_name = [], cp_type = [], cp_server = [], cp_port = 0, cp_ports = [], cp_uuid = [],
     cp_username = [], cp_password = [], cp_cipher = [], cp_alter_id = 0, cp_network = [], cp_tls = False,
     cp_skip_cert_verify = False, cp_server_name = [], cp_sni = [], cp_flow = [], cp_ws_opts = None,
     cp_grpc_opts = None, cp_reality_opts = None, cp_fingerprint = [], cp_obfs = [], cp_obfs_password = [],
     cp_alpn = [], cp_congestion = [], cp_udp_relay_mode = [], cp_protocol = [], cp_protocol_param = [],
     cp_obfs_param = [], cp_auth_str = [], cp_auth = [], cp_up_mbps = 0, cp_down_mbps = 0, cp_peer_sni = []\<rparr>"

text \<open>A port in YAML may be a number or a quoted number.\<close>

datatype yaml_port = YamlInt int | YamlString string | YamlOther

fun unmarshal_flex_int :: "yaml_port \<Rightarrow> int option" where
  "unmarshal_flex_int (YamlInt n) = Some n"
| "unmarshal_flex_int (YamlString s) = atoi s"
| "unmarshal_flex_int YamlOther = None"

section \<open>Query parameters shared by the protocols\<close>

definition set_if :: "bool \<Rightarrow> string \<Rightarrow> string \<Rightarrow> url_values \<Rightarrow> url_values" where
  "set_if c k x v = (if c then values_set k x v else v)"

definition set_sni :: "string \<Rightarrow> clash_proxy \<Rightarrow> url_values \<Rightarrow> url_values" where
  "set_sni k p v =
     (if cp_server_name p \<noteq> [] then values_set k (cp_server_name p) v
      else if cp_sni p \<noteq> [] then values_set k (cp_sni p) v else v)"

definition set_network :: "clash_proxy \<Rightarrow> url_values \<Rightarrow> url_values" where
  "set_network p = set_if (cp_network p \<noteq> [] \<and> cp_network p \<noteq> ''tcp'') ''type'' (cp_network p)"

definition set_transport :: "clash_proxy \<Rightarrow> url_values \<Rightarrow> url_values" where
  "set_transport p v =
     (let v1 = (case cp_ws_opts p of
          None \<Rightarrow> v
        | Some ws \<Rightarrow>
            let v0 = set_if (ws_path ws \<noteq> []) ''path'' (ws_path ws) v
            in (case mget (ws_headers ws) ''Host'' of Some h \<Rightarrow> values_set ''host'' h v0 | None \<Rightarrow> v0))
      in (case cp_grpc_opts p of Some n \<Rightarrow> set_if (n \<noteq> []) ''serviceName'' n v1 | None \<Rightarrow> v1))"

definition set_fingerprint :: "clash_proxy \<Rightarrow> url_values \<Rightarrow> url_values" where
  "set_fingerprint p = set_if (cp_fingerprint p \<noteq> []) ''fp'' (cp_fingerprint p)"

section \<open>One builder per protocol\<close>

definition clash_node_uri :: "string \<Rightarrow> clash_proxy \<Rightarrow> int \<Rightarrow> userinfo option \<Rightarrow> url_values \<Rightarrow> string" where
  "clash_node_uri scheme p port user params =
     url_string (empty_url\<lparr>u_scheme := scheme, u_host := join_host_port (cp_server p) (itoa port),
       u_user := user, u_raw_query := values_encode params, u_fragment := cp_name p\<rparr>)"

definition build_http_proxy_uri :: "clash_proxy \<Rightarrow> string" where
  "build_http_proxy_uri p =
     (let scheme0 = to_lower (cp_type p);
          scheme = (if scheme0 = ''http'' \<and> cp_tls p then ''https'' else scheme0);
          port = (if cp_port p = 0 then (if scheme = ''https'' then 443 else 8080) else cp_port p);
          user = (if cp_password p \<noteq> [] then Some (url_user_password (cp_username p) (cp_password p))
            else if cp_username p \<noteq> [] then Some (url_user (cp_username p)) else None)
      in url_string (empty_url\<lparr>u_scheme := scheme, u_host := join_host_port (cp_server p) (itoa port),
           u_user := user, u_fragment := cp_name p\<rparr>))"

definition vmess_params :: "clash_proxy \<Rightarrow> url_values" where
  "vmess_params p =
     (let v1 = set_if (cp_alter_id p \<noteq> 0) ''alterId'' (itoa (cp_alter_id p)) [];
          v2 = set_if (cp_cipher p \<noteq> []) ''encryption'' (cp_cipher p) v1;
          v3 = set_network p v2;
          v4 = (if cp_tls p then set_sni ''sni'' p (values_set ''security'' ''tls'' v3) else v3)
      in set_fingerprint p (set_transport p v4))"

definition build_vmess_uri :: "clash_proxy \<Rightarrow> string" where
  "build_vmess_uri p = clash_node_uri ''vmess'' p (cp_port p) (Some (url_user (cp_uuid p))) (vmess_params p)"

definition vless_params :: "clash_proxy \<Rightarrow> url_values" where
  "vless_params p =
     (let v1 = values_set ''encryption'' ''none'' [];
          v2 = set_network p v1;
          v3 = set_if (cp_flow p \<noteq> []) ''flow'' (cp_flow p) v2;
          v4 = (if cp_tls p then set_sni ''sni'' p (values_set ''security'' ''tls'' v3) else v3);
          v5 = (case cp_reality_opts p of
              None \<Rightarrow> v4
            | Some r \<Rightarrow> set_if (cp_server_name p \<noteq> []) ''sni'' (cp_server_name p)
                (set_if (ro_short_id r \<noteq> []) ''sid'' (ro_short_id r)
                  (set_if (ro_public_key r \<noteq> []) ''pbk'' (ro_public_key r)
                    (values_set ''security'' ''reality'' v4))))
      in set_fingerprint p (set_transport p v5))"

definition build_vless_uri :: "clash_proxy \<Rightarrow> string" where
  "build_vless_uri p = clash_node_uri ''vless'' p (cp_port p) (Some (url_user (cp_uuid p))) (vless_params p)"

definition trojan_params :: "clash_proxy \<Rightarrow> url_values" where
  "trojan_params p =
     set_fingerprint p (set_transport p (set_network p
       (set_if (cp_skip_cert_verify p) ''allowInsecure'' ''1'' (set_sni ''sni'' p []))))"

definition build_trojan_uri :: "clash_proxy \<Rightarrow> string" where
  "build_trojan_uri p = clash_node_uri ''trojan'' p (cp_port p) (Some (url_user (cp_password p))) (trojan_params p)"

definition anytls_params :: "clash_proxy \<Rightarrow> url_values" where
  "anytls_params p =
     set_fingerprint p (set_if (cp_skip_cert_verify p) ''allowInsecure'' ''1'' (set_sni ''sni'' p []))"

definition build_anytls_uri :: "clash_proxy \<Rightarrow> string" where
  "build_anytls_uri p = clash_node_uri ''anytls'' p (cp_port p) (Some (url_user (cp_password p))) (anytls_params p)"

definition build_shadowsocks_uri :: "clash_proxy \<Rightarrow> string" where
  "build_shadowsocks_uri p =
     clash_node_uri ''ss'' p (cp_port p)
       (Some (url_user (b64_encode RawUrlEncoding (cp_cipher p @ '':'' @ cp_password p)))) []"

text \<open>\<open>a-b\<close> becomes \<open>a:b\<close> in each comma-separated port range.\<close>

definition normalize_port_part :: "string \<Rightarrow> string" where
  "normalize_port_part part =
     (if CHR '':'' \<in> set part then part
      else if count_list part CHR ''-'' = 1
      then (let (a, b, _) = cut_byte CHR ''-'' part in a @ '':'' @ b)
      else part)"

definition normalize_hysteria2_ports :: "string \<Rightarrow> string" where
  "normalize_hysteria2_ports value =
     (let v = trim_space value
      in if v = [] then []
         else join_with '','' (map normalize_port_part
           (filter (\<lambda>part. part \<noteq> []) (map trim_space (split_byte CHR '','' v)))))"

definition hysteria2_params :: "clash_proxy \<Rightarrow> url_values" where
  "hysteria2_params p =
     (let v1 = set_if (cp_skip_cert_verify p) ''insecure'' ''1'' (set_sni ''sni'' p []);
          v2 = (if cp_obfs p \<noteq> []
            then set_if (cp_obfs_password p \<noteq> []) ''obfs-password'' (cp_obfs_password p)
              (values_set ''obfs'' (cp_obfs p) v1)
            else v1)
      in set_if (trim_space (cp_ports p) \<noteq> []) ''ports'' (normalize_hysteria2_ports (trim_space (cp_ports p))) v2)"

definition build_hysteria2_uri :: "clash_proxy \<Rightarrow> string" where
  "build_hysteria2_uri p =
     clash_node_uri ''hysteria2'' p (if cp_port p \<le> 0 then 443 else cp_port p)
       (Some (url_user (cp_password p))) (hysteria2_params p)"

definition tuic_params :: "clash_proxy \<Rightarrow> url_values" where
  "tuic_params p =
     set_if (cp_alpn p \<noteq> []) ''alpn'' (join_with '','' (cp_alpn p))
       (set_if (cp_udp_relay_mode p \<noteq> []) ''udp_relay_mode'' (cp_udp_relay_mode p)
         (set_if (cp_congestion p \<noteq> []) ''congestion_control'' (cp_congestion p)
           (set_if (cp_skip_cert_verify p) ''allowInsecure'' ''1'' (set_sni ''sni'' p []))))"

definition build_tuic_uri :: "clash_proxy \<Rightarrow> string" where
  "build_tuic_uri p =
     clash_node_uri ''tuic'' p (cp_port p) (Some (url_user_password (cp_uuid p) (cp_password p))) (tuic_params p)"

definition default_str :: "string \<Rightarrow> string \<Rightarrow> string" where
  "default_str s fallback = (if s = [] then fallback else s)"

definition ssr_main :: "clash_proxy \<Rightarrow> string" where
  "ssr_main p = join_with '':'' [cp_server p, itoa (cp_port p), default_str (cp_protocol p) ''origin'',
     default_str (cp_cipher p) ''none'', default_str (cp_obfs p) ''plain'', b64_encode UrlEncoding (cp_password p)]"

definition ssr_params :: "clash_proxy \<Rightarrow> string list" where
  "ssr_params p =
     (if cp_obfs_param p \<noteq> [] then [''obfsparam='' @ b64_encode UrlEncoding (cp_obfs_param p)] else []) @
     (if cp_protocol_param p \<noteq> [] then [''protoparam='' @ b64_encode UrlEncoding (cp_protocol_param p)] else []) @
     (if cp_name p \<noteq> [] then [''remarks='' @ b64_encode UrlEncoding (cp_name p)] else [])"

definition build_shadowsocksr_uri :: "clash_proxy \<Rightarrow> string" where
  "build_shadowsocksr_uri p =
     (let payload = ssr_main p @ (if ssr_params p \<noteq> [] then ''/?'' @ join_with ''&'' (ssr_params p) else [])
      in ''ssr://'' @ b64_encode UrlEncoding payload)"

definition hysteria_auth :: "clash_proxy \<Rightarrow> string" where
  "hysteria_auth p =
     (let a1 = cp_auth_str p; a2 = (if a1 = [] then cp_auth p else a1) in if a2 = [] then cp_password p else a2)"

definition hysteria_params :: "clash_proxy \<Rightarrow> url_values" where
  "hysteria_params p =
     (let v1 = values_set ''protocol'' ''udp'' [];
          v2 = set_if (hysteria_auth p \<noteq> []) ''auth'' (hysteria_auth p) v1;
          v3 = (if cp_server_name p \<noteq> [] then values_set ''peer'' (cp_server_name p) v2
            else if cp_sni p \<noteq> [] then values_set ''peer'' (cp_sni p) v2
            else set_if (cp_peer_sni p \<noteq> []) ''peer'' (cp_peer_sni p) v2);
          v4 = set_if (cp_skip_cert_verify p) ''insecure'' ''1'' v3;
          v5 = set_if (cp_up_mbps p > 0) ''upmbps'' (itoa (cp_up_mbps p)) v4;
          v6 = set_if (cp_down_mbps p > 0) ''downmbps'' (itoa (cp_down_mbps p)) v5;
          v7 = set_if (cp_alpn p \<noteq> []) ''alpn'' (join_with '','' (cp_alpn p)) v6
      in if cp_obfs p \<noteq> []
         then set_if (cp_obfs_password p \<noteq> []) ''obfsParam'' (cp_obfs_password p) (values_set ''obfs'' (cp_obfs p) v7)
         else v7)"

definition build_hysteria_uri :: "clash_proxy \<Rightarrow> string" where
  "build_hysteria_uri p = clash_node_uri ''hysteria'' p (cp_port p) None (hysteria_params p)"

definition convert_clash_proxy :: "clash_proxy \<Rightarrow> string" where
  "convert_clash_proxy p =
     (let t = to_lower (cp_type p)
      in if t = ''vmess'' then build_vmess_uri p
         else if t = ''vless'' then build_vless_uri p
         else if t = ''trojan'' then build_trojan_uri p
         else if t = ''anytls'' then build_anytls_uri p
         else if t \<in> {''ss'', ''shadowsocks''} then build_shadowsocks_uri p
         else if t \<in> {''hysteria2'', ''hy2''} then build_hysteria2_uri p
         else if t = ''tuic'' then build_tuic_uri p
         else if t \<in> {''ssr'', ''shadowsocksr''} then build_shadowsocksr_uri p
         else if t = ''hysteria'' then build_hysteria_uri p
         else if t \<in> {''http'', ''https''} then build_http_proxy_uri p
         else [])"

section \<open>Subscription text\<close>

record node_config =
  nc_name :: string
  nc_uri :: string
  nc_port :: "16 word"
  nc_username :: string
  nc_password :: string
  nc_source :: string

definition node_of_uri :: "string \<Rightarrow> string \<Rightarrow> node_config" where
  "node_of_uri name uri = \<lparr>nc_name = name, nc_uri = uri, nc_port = 0, nc_username = [], nc_password = [], nc_source = []\<rparr>"

text \<open>Entries the library could not decode are \<open>None\<close> and are skipped, as unsupported ones are.\<close>

fun clash_nodes :: "clash_proxy option list \<Rightarrow> node_config list" where
  "clash_nodes [] = []"
| "clash_nodes (None # ps) = clash_nodes ps"
| "clash_nodes (Some p # ps) =
     (if convert_clash_proxy p = [] then clash_nodes ps
      else node_of_uri (cp_name p) (convert_clash_proxy p) # clash_nodes ps)"

definition parse_clash_yaml ::
  "(string \<Rightarrow> clash_proxy option list option) \<Rightarrow> string \<Rightarrow> node_config list option" where
  "parse_clash_yaml yaml content = map_option clash_nodes (yaml content)"

definition proxy_schemes :: "string list" where
  "proxy_schemes = [''vmess://'', ''vless://'', ''trojan://'', ''ss://'', ''shadowsocks://'', ''ssr://'',
     ''hysteria://'', ''hysteria2://'', ''hy2://'', ''tuic://'', ''socks5://'', ''socks5h://'', ''socks://'',
     ''http://'', ''https://'', ''anytls://'']"

definition is_proxy_uri :: "string \<Rightarrow> bool" where
  "is_proxy_uri s = list_ex (has_prefix (to_lower s)) proxy_schemes"

definition parse_nodes_from_content :: "string \<Rightarrow> node_config list" where
  "parse_nodes_from_content content =
     map (node_of_uri []) (filter (\<lambda>line. line \<noteq> [] \<and> \<not> has_prefix line ''#'' \<and> is_proxy_uri line)
       (map trim_space (split_byte (char_of (10 :: nat)) content)))"

definition base64_char :: "char \<Rightarrow> bool" where
  "base64_char c \<longleftrightarrow> is_alnum c \<or> c \<in> set ''+/=-_''"

definition is_base64 :: "string \<Rightarrow> bool" where
  "is_base64 s0 =
     (let s = concat (str_fields s0)
      in s \<noteq> [] \<and> \<not> contains s ''://'' \<and> list_all base64_char s \<and> length s mod 4 \<noteq> 1)"

definition decode_proxy_base64 :: "string \<Rightarrow> string option" where
  "decode_proxy_base64 s = first_decoding [StdEncoding, RawStdEncoding, UrlEncoding, RawUrlEncoding] (concat (str_fields s))"

definition parse_subscription_content ::
  "(string \<Rightarrow> clash_proxy option list option) \<Rightarrow> string \<Rightarrow> node_config list option" where
  "parse_subscription_content yaml content0 =
     (let content = trim_space content0
      in if has_prefix content ''proxies:'' \<or> contains content (char_of (10 :: nat) # ''proxies:'')
         then parse_clash_yaml yaml content
         else Some (parse_nodes_from_content
           (if is_base64 content
            then (case decode_proxy_base64 content of Some d \<Rightarrow> d | None \<Rightarrow> content) else content)))"

end
