(* ===== verification/SsUri.thy ===== *)
theory SsUri
  imports GoBase64 GoUrlFacts
begin

text \<open>
  The Shadowsocks URI parser, \<open>internal/ssuri/ssuri.go\<close>: one definition per function, each error
  return a constructor of \<open>ss_error\<close>. The lemmas follow a printed host, user part and payload
  through the parser; the property at the end puts them together.
\<close>

section \<open>The parser\<close>

definition ss_default_port :: int where "ss_default_port = 8388"

record ss_uri =
  ss_method :: string
  ss_password :: string
  ss_server :: string
  ss_port :: int
  ss_query :: url_values
  ss_fragment :: string

datatype ss_error =
    SsMissingScheme | SsUnsupportedScheme string | SsBadQuery | SsMissingPayload | SsNoUserinfo
  | SsBadLegacy | SsLegacyShape | SsUserinfoEscape | SsUserinfoFormat | SsNoMethod | SsNoPassword
  | SsNoHost | SsPath | SsBadIpv6 | SsBadIpv6Port | SsIpv6Brackets | SsNoPort | SsBadPort string
  | SsHostEscape

definition parse_ss_port :: "string \<Rightarrow> ss_error + int" where
  "parse_ss_port text =
     (if text = [] then Inl SsNoPort
      else case atoi text of
          None \<Rightarrow> Inl (SsBadPort text)
        | Some p \<Rightarrow> if p \<le> 0 \<or> p > 65535 then Inl (SsBadPort text) else Inr p)"

text \<open>Host and port before the host is unescaped.\<close>

definition ss_split_host :: "string \<Rightarrow> ss_error + string \<times> int" where
  "ss_split_host hp =
     (if has_prefix hp ''['' then
        (case index_byte hp CHR '']'' of
           None \<Rightarrow> Inl SsBadIpv6
         | Some e \<Rightarrow>
             let host = drop 1 (take e hp); remainder = drop (e + 1) hp
             in if remainder = [] then Inr (host, ss_default_port)
                else if \<not> has_prefix remainder '':'' then Inl SsBadIpv6Port
                else map_sum id (Pair host) (parse_ss_port (drop 1 remainder)))
      else if count_list hp CHR '':'' > 1 then Inl SsIpv6Brackets
      else case split_host_port hp of
          Some (h, p) \<Rightarrow> map_sum id (Pair h) (parse_ss_port p)
        | None \<Rightarrow>
            if CHR '':'' \<in> set hp
            then (let (h, p, _) = cut_byte CHR '':'' hp in map_sum id (Pair h) (parse_ss_port p))
            else Inr (hp, ss_default_port))"

definition parse_host_port :: "string \<Rightarrow> ss_error + string \<times> int" where
  "parse_host_port hp0 =
     (let hp = trim_suffix hp0 ''/''
      in if hp = [] then Inl SsNoHost
         else if CHR ''/'' \<in> set hp then Inl SsPath
         else case ss_split_host hp of
             Inl e \<Rightarrow> Inl e
           | Inr (host, port) \<Rightarrow>
               if host = [] then Inl SsNoHost
               else case path_unescape host of
                   None \<Rightarrow> Inl SsHostEscape
                 | Some h \<Rightarrow> Inr (h, port))"

definition parse_plain_user_info :: "string \<Rightarrow> ss_error + string \<times> string" where
  "parse_plain_user_info s =
     (let (m, p, ok) = cut_byte CHR '':'' s
      in if \<not> ok then Inl SsUserinfoFormat
         else if m = [] then Inl SsNoMethod
         else if p = [] then Inl SsNoPassword
         else Inr (m, p))"

definition decode_base64 :: "string \<Rightarrow> string option" where
  "decode_base64 s =
     (let t = trim_space s
      in if t = [] then None
         else first_decoding [StdEncoding, RawStdEncoding, UrlEncoding, RawUrlEncoding] t)"

definition parse_user_info :: "string \<Rightarrow> ss_error + string \<times> string" where
  "parse_user_info s =
     (let plain = (case path_unescape s of None \<Rightarrow> Inl SsUserinfoEscape | Some t \<Rightarrow> parse_plain_user_info t)
      in case decode_base64 s of
           None \<Rightarrow> plain
         | Some d \<Rightarrow> (case parse_plain_user_info d of Inr mp \<Rightarrow> Inr mp | Inl e \<Rightarrow> plain))"

text \<open>The common ending of both formats.\<close>

definition ss_assemble ::
  "ss_error + string \<times> string \<Rightarrow> string \<Rightarrow> url_values \<Rightarrow> string \<Rightarrow> ss_error + ss_uri" where
  "ss_assemble user hp query fragment =
     (case user of
        Inl e \<Rightarrow> Inl e
      | Inr (m, p) \<Rightarrow>
          (case parse_host_port hp of
             Inl e \<Rightarrow> Inl e
           | Inr (h, port) \<Rightarrow> Inr \<lparr>ss_method = m, ss_password = p, ss_server = h, ss_port = port,
               ss_query = query, ss_fragment = fragment\<rparr>))"

definition parse_sip002 :: "string \<Rightarrow> url_values \<Rightarrow> string \<Rightarrow> ss_error + ss_uri" where
  "parse_sip002 rest query fragment =
     (case last_index_byte rest CHR ''@'' of
        None \<Rightarrow> Inl SsNoUserinfo
      | Some i \<Rightarrow>
          if i = 0 \<or> i = length rest - 1 then Inl SsNoUserinfo
          else ss_assemble (parse_user_info (take i rest)) (drop (i + 1) rest) query fragment)"

definition parse_legacy :: "string \<Rightarrow> url_values \<Rightarrow> string \<Rightarrow> ss_error + ss_uri" where
  "parse_legacy encoded query fragment =
     (case decode_base64 encoded of
        None \<Rightarrow> Inl SsBadLegacy
      | Some d \<Rightarrow>
          (case last_index_byte d CHR ''@'' of
             None \<Rightarrow> Inl SsLegacyShape
           | Some i \<Rightarrow>
               if i = 0 \<or> i = length d - 1 then Inl SsLegacyShape
               else ss_assemble (parse_plain_user_info (take i d)) (drop (i + 1) d) query fragment))"

definition ss_body :: "string \<Rightarrow> url_values \<Rightarrow> string \<Rightarrow> ss_error + ss_uri" where
  "ss_body rest query fragment =
     (if rest = [] then Inl SsMissingPayload
      else if CHR ''@'' \<in> set rest then parse_sip002 rest query fragment
      else parse_legacy rest query fragment)"

definition ss_parse :: "string \<Rightarrow> ss_error + ss_uri" where
  "ss_parse raw =
     (case index_of raw ''://'' of
        None \<Rightarrow> Inl SsMissingScheme
      | Some i \<Rightarrow>
          let scheme = to_lower (take i raw)
          in if scheme \<noteq> ''ss'' \<and> scheme \<noteq> ''shadowsocks'' then Inl (SsUnsupportedScheme (take i raw))
             else let (rest1, frag, _) = cut_byte CHR ''#'' (drop (i + 3) raw);
                      fragment = (case path_unescape frag of Some f \<Rightarrow> f | None \<Rightarrow> []);
                      (rest, q, has_query) = cut_byte CHR ''?'' rest1
                  in if has_query
                     then (let (query, ok) = parse_query q
                           in if ok then ss_body rest query fragment else Inl SsBadQuery)
                     else ss_body rest [] fragment)"

section \<open>A printed host and port\<close>

definition ss_server_ok :: "string \<Rightarrow> bool" where
  "ss_server_ok s \<longleftrightarrow> s \<noteq> [] \<and> CHR ''['' \<notin> set s \<and> CHR '']'' \<notin> set s"

lemma parse_ss_port_itoa: "0 < p \<Longrightarrow> p \<le> 65535 \<Longrightarrow> parse_ss_port (itoa p) = Inr p"
  by (simp add: parse_ss_port_def atoi_itoa)

lemma has_suffix_snoc: "s \<noteq> [] \<Longrightarrow> last s \<noteq> b \<Longrightarrow> \<not> has_suffix s [b]"
  by (cases s rule: rev_cases) (auto simp: has_suffix_def)

lemma last_itoa: "0 \<le> p \<Longrightarrow> is_digit (last (itoa p))"
  using itoa_digits last_in_set [OF itoa_nonempty] by blast

lemma itoa_list_digits: "0 \<le> p \<Longrightarrow> list_all is_digit (itoa p)"
  by (auto simp: list_all_iff itoa_digits)

lemma digits_absent: "0 \<le> p \<Longrightarrow> \<not> is_digit b \<Longrightarrow> b \<notin> set (itoa p)"
  using itoa_digits by blast

text \<open>The host as both printers write it.\<close>

definition printed_host :: "string \<Rightarrow> int \<Rightarrow> string" where
  "printed_host server port = url_escape EncodeHost (join_host_port server (itoa port))"

lemma printed_host_eq:
  assumes "0 \<le> p"
  shows "printed_host s p = (if CHR '':'' \<in> set s
    then CHR ''['' # url_escape EncodeHost s @ CHR '']'' # CHR '':'' # itoa p
    else url_escape EncodeHost s @ CHR '':'' # itoa p)"
  using assms
  by (simp add: printed_host_def join_host_port_def url_escape_append url_escape_Cons escape_char_def host_literals
      escape_digits itoa_list_digits)

lemma printed_host_last: "0 \<le> p \<Longrightarrow> is_digit (last (printed_host s p))"
  by (simp add: printed_host_eq last_itoa)

lemma printed_host_clean:
  assumes "0 \<le> p"
  shows "printed_host s p \<noteq> []" "CHR ''/'' \<notin> set (printed_host s p)" "CHR ''@'' \<notin> set (printed_host s p)"
    "CHR ''#'' \<notin> set (printed_host s p)" "CHR ''?'' \<notin> set (printed_host s p)"
  using assms host_escape_clean [of s] digits_absent [OF assms] by (simp_all add: printed_host_eq)

lemma ss_split_printed_host:
  assumes ok: "ss_server_ok s" and port: "0 < p" "p \<le> 65535"
  shows "ss_split_host (printed_host s p) = Inr (url_escape EncodeHost s, p)"
proof -
  have clean: "CHR ''['' \<notin> set (url_escape EncodeHost s)" "CHR '']'' \<notin> set (url_escape EncodeHost s)"
    using ok host_escape_absent by (simp_all add: ss_server_ok_def)
  have digits: "CHR '':'' \<notin> set (itoa p)" "CHR ''['' \<notin> set (itoa p)" "CHR '']'' \<notin> set (itoa p)"
    using port digits_absent [of p] by simp_all
  show ?thesis
  proof (cases "CHR '':'' \<in> set s")
    case True
    have "index_byte (CHR ''['' # url_escape EncodeHost s @ CHR '']'' # CHR '':'' # itoa p) CHR '']''
        = Some (Suc (length (url_escape EncodeHost s)))"
      using index_byte_append [of "CHR '']''" "CHR ''['' # url_escape EncodeHost s"] clean by simp
    then show ?thesis using True port
      by (simp add: printed_host_eq ss_split_host_def parse_ss_port_itoa)
  next
    case False
    have colon: "CHR '':'' \<notin> set (url_escape EncodeHost s)" using False by (intro host_escape_absent) simp_all
    have "\<not> has_prefix (url_escape EncodeHost s @ CHR '':'' # itoa p) ''[''"
      using clean(1) ok by (cases "url_escape EncodeHost s") (auto simp: ss_server_ok_def)
    moreover have "count_list (url_escape EncodeHost s @ CHR '':'' # itoa p) CHR '':'' = 1"
      using colon digits by (simp add: count_notin)
    moreover have "split_host_port (url_escape EncodeHost s @ CHR '':'' # itoa p) = Some (url_escape EncodeHost s, itoa p)"
      using colon clean digits by (intro split_host_port_plain) auto
    ultimately show ?thesis using False port
      by (simp add: printed_host_eq ss_split_host_def parse_ss_port_itoa)
  qed
qed

lemma parse_printed_host:
  assumes ok: "ss_server_ok s" and port: "0 < p" "p \<le> 65535"
  shows "parse_host_port (printed_host s p) = Inr (s, p)"
proof -
  have p0: "0 \<le> p" using port by simp
  have "last (printed_host s p) \<noteq> CHR ''/''" using printed_host_last [OF p0, of s] by auto
  then have "trim_suffix (printed_host s p) ''/'' = printed_host s p"
    using printed_host_clean(1) [OF p0] by (simp add: trim_suffix_def has_suffix_snoc)
  moreover have "path_unescape (url_escape EncodeHost s) = Some s" by (simp add: path_unescape_escape)
  ultimately show ?thesis
    using ss_split_printed_host [OF ok port] printed_host_clean(1,2) [OF p0, of s] ok
    by (simp add: parse_host_port_def ss_server_ok_def)
qed

section \<open>Printed user parts and payloads\<close>

lemma alphabet_facts:
  "c \<in> set (b64_encode enc s) \<Longrightarrow> c \<notin> set ''@#?: '' \<and> \<not> is_space c"
proof -
  assume "c \<in> set (b64_encode enc s)"
  then have "c \<in> set std_alphabet \<union> set url_alphabet \<union> {CHR ''=''}"
    using std.encode_chars [of "padded enc" s] url.encode_chars [of "padded enc" s]
    by (cases enc) (auto simp: b64_encode_def)
  moreover have "\<forall>c \<in> set std_alphabet \<union> set url_alphabet \<union> {CHR ''=''}. c \<notin> set ''@#?: '' \<and> \<not> is_space c"
    by code_simp
  ultimately show ?thesis by blast
qed

lemma b64_encode_eq_Nil [simp]: "b64_encode enc s = [] \<longleftrightarrow> s = []"
proof -
  have "encode_quanta p al s = [] \<longleftrightarrow> s = []" for p al by (cases "(p, al, s)" rule: encode_quanta.cases) auto
  then show ?thesis by (simp add: b64_encode_def)
qed

lemma decode_base64_encode: "s \<noteq> [] \<Longrightarrow> decode_base64 (b64_encode enc s) = Some s"
proof -
  assume "s \<noteq> []"
  moreover have "trim_space (b64_encode enc s) = b64_encode enc s"
    using alphabet_facts by (intro trim_space_plain) blast
  moreover have "enc \<in> set [StdEncoding, RawStdEncoding, UrlEncoding, RawUrlEncoding]" by (cases enc) simp_all
  ultimately show ?thesis using first_decoding_encode by (simp add: decode_base64_def del: first_decoding.simps)
qed

lemma parse_plain_pair:
  "m \<noteq> [] \<Longrightarrow> CHR '':'' \<notin> set m \<Longrightarrow> p \<noteq> [] \<Longrightarrow> parse_plain_user_info (m @ CHR '':'' # p) = Inr (m, p)"
  by (simp add: parse_plain_user_info_def cut_byte_append)

lemma no_base64_with_colon: "CHR '':'' \<in> set s \<Longrightarrow> decode_base64 s = None"
proof -
  have colon: "index_byte (alphabet e) CHR '':'' = None" for e
    by (cases e) (simp_all add: std_alphabet_def url_alphabet_def b64_common_def)
  have no: "CHR '':'' \<in> set t \<Longrightarrow> decode_quanta p (alphabet e) t = None" for p e t
  proof (induction p "alphabet e" t rule: decode_quanta.induct)
    case (5 p a b c d t)
    then show ?case using colon [of e] by (auto split: option.splits)
  qed (auto simp: colon split: option.splits)
  assume "CHR '':'' \<in> set s"
  then have "CHR '':'' \<in> set (trim_space s)"
  proof -
    have keep: "CHR '':'' \<in> set t \<Longrightarrow> CHR '':'' \<in> set (dropWhile is_space t)" for t
      by (induction t) (auto simp: is_space_def)
    show ?thesis using \<open>CHR '':'' \<in> set s\<close> keep [of s] keep [of "rev (dropWhile is_space s)"]
      by (simp add: trim_space_def)
  qed
  moreover have "\<not> line_break CHR '':''" by (simp add: line_break_def)
  ultimately have none: "b64_decode e (trim_space s) = None" for e by (simp add: b64_decode_def no)
  show ?thesis by (simp add: decode_base64_def Let_def none)
qed

lemma parse_user_info_encoded:
  assumes "m \<noteq> []" "CHR '':'' \<notin> set m" "p \<noteq> []"
  shows "parse_user_info (b64_encode enc (m @ CHR '':'' # p)) = Inr (m, p)"
  using assms by (simp add: parse_user_info_def decode_base64_encode parse_plain_pair)

lemma parse_user_info_escaped:
  assumes "m \<noteq> []" "CHR '':'' \<notin> set m" "p \<noteq> []"
  shows "parse_user_info (url_escape EncodeUserPassword m @ CHR '':'' # url_escape EncodeUserPassword p) = Inr (m, p)"
proof -
  have "path_unescape (url_escape EncodeUserPassword m @ CHR '':'' # url_escape EncodeUserPassword p)
      = Some (m @ CHR '':'' # p)"
    using unescape_escape [of EncodePathSegment EncodeUserPassword m "CHR '':'' # url_escape EncodeUserPassword p"]
    by (simp add: path_unescape_escape)
  then show ?thesis using assms by (simp add: parse_user_info_def no_base64_with_colon parse_plain_pair)
qed

section \<open>The formats\<close>

lemma ss_parse_printed:
  assumes "CHR ''#'' \<notin> set body" and "CHR ''?'' \<notin> set body"
  shows "ss_parse (''ss://'' @ body @ fragment_suffix name) = ss_body body [] name"
proof -
  have scheme: "index_of (''ss://'' @ t) ''://'' = Some 2" for t by simp
  have "cut_byte CHR ''#'' (body @ fragment_suffix name) = (body, url_escape EncodeFragment name, name \<noteq> [])"
    using assms by (auto simp: fragment_suffix_def cut_byte_append cut_byte_absent)
  moreover have "to_lower (take 2 (''ss://'' @ t)) = ''ss''" for t by (simp add: to_lower_def lower_char_def is_upper_def)
  moreover have "path_unescape (url_escape EncodeFragment name) = Some name" by (simp add: path_unescape_escape)
  ultimately show ?thesis using assms scheme [of "body @ fragment_suffix name"]
    by (simp add: ss_parse_def cut_byte_absent Let_def)
qed

text \<open>The writings of one node the parser is meant to accept.\<close>

datatype ss_writing =
    Sip002Encoded b64_encoding   \<comment> \<open>user part in base64\<close>
  | Sip002Plain                  \<comment> \<open>user part percent-encoded\<close>
  | LegacyPayload b64_encoding   \<comment> \<open>everything in base64\<close>

fun ss_write :: "ss_writing \<Rightarrow> string \<Rightarrow> string \<Rightarrow> string \<Rightarrow> int \<Rightarrow> string" where
  "ss_write (Sip002Encoded enc) m p s port = b64_encode enc (m @ CHR '':'' # p) @ CHR ''@'' # printed_host s port"
| "ss_write Sip002Plain m p s port =
     url_escape EncodeUserPassword m @ CHR '':'' # url_escape EncodeUserPassword p @ CHR ''@'' # printed_host s port"
| "ss_write (LegacyPayload enc) m p s port = b64_encode enc (m @ CHR '':'' # p @ CHR ''@'' # printed_host s port)"

lemma ss_sip002:
  assumes u: "parse_user_info u = Inr (m, p)" "u \<noteq> []" and ok: "ss_server_ok s" and port: "0 < port" "port \<le> 65535"
  shows "ss_body (u @ CHR ''@'' # printed_host s port) [] name
    = Inr \<lparr>ss_method = m, ss_password = p, ss_server = s, ss_port = port, ss_query = [], ss_fragment = name\<rparr>"
proof -
  have p0: "0 \<le> port" using port by simp
  have "last_index_byte (u @ CHR ''@'' # printed_host s port) CHR ''@'' = Some (length u)"
    using printed_host_clean(3) [OF p0] by (rule last_index_byte_append)
  then show ?thesis using u printed_host_clean(1) [OF p0, of s] parse_printed_host [OF ok port]
    by (simp add: ss_body_def parse_sip002_def ss_assemble_def)
qed

lemma ss_legacy:
  assumes m: "m \<noteq> []" "CHR '':'' \<notin> set m" and p: "p \<noteq> []" and ok: "ss_server_ok s" and port: "0 < port" "port \<le> 65535"
  shows "ss_body (b64_encode enc (m @ CHR '':'' # p @ CHR ''@'' # printed_host s port)) [] name
    = Inr \<lparr>ss_method = m, ss_password = p, ss_server = s, ss_port = port, ss_query = [], ss_fragment = name\<rparr>"
proof -
  have p0: "0 \<le> port" using port by simp
  let ?d = "m @ CHR '':'' # p @ CHR ''@'' # printed_host s port"
  have "CHR ''@'' \<notin> set (b64_encode enc ?d)" using alphabet_facts [of "CHR ''@''"] by auto
  moreover have "last_index_byte ?d CHR ''@'' = Some (length (m @ CHR '':'' # p))"
    using last_index_byte_append [OF printed_host_clean(3) [OF p0, of s], of "m @ CHR '':'' # p"] by simp
  moreover have "take (length (m @ CHR '':'' # p)) ?d = m @ CHR '':'' # p" by simp
  moreover have "drop (length (m @ CHR '':'' # p) + 1) ?d = printed_host s port" by simp
  ultimately show ?thesis
    using m p printed_host_clean(1) [OF p0, of s] parse_printed_host [OF ok port] parse_plain_pair [OF m p]
    by (simp add: ss_body_def parse_legacy_def ss_assemble_def decode_base64_encode)
qed

section \<open>Properties\<close>

lemma ss_write_clean:
  assumes "0 < port"
  shows "CHR ''#'' \<notin> set (ss_write w m p s port)" and "CHR ''?'' \<notin> set (ss_write w m p s port)"
  using assms printed_host_clean [of port s] user_escape_clean alphabet_facts [of "CHR ''#''"] alphabet_facts [of "CHR ''?''"]
  by (cases w; auto)+

text \<open>
  C29: The two Shadowsocks formats name the same nodes. A method without colon, a password, a
  server without brackets and a port in range, written in the SIP002 form with the user part in any
  of the four base64 variants or percent-encoded, or in the legacy form with everything in base64,
  and with any display name, are parsed back to exactly those fields.
\<close>

theorem ss_writings_parse:
  assumes "m \<noteq> []" and "CHR '':'' \<notin> set m" and "p \<noteq> []" and "ss_server_ok s" and "0 < port" and "port \<le> 65535"
  shows "ss_parse (''ss://'' @ ss_write w m p s port @ fragment_suffix name)
    = Inr \<lparr>ss_method = m, ss_password = p, ss_server = s, ss_port = port, ss_query = [], ss_fragment = name\<rparr>"
proof -
  have "ss_body (ss_write w m p s port) [] name
      = Inr \<lparr>ss_method = m, ss_password = p, ss_server = s, ss_port = port, ss_query = [], ss_fragment = name\<rparr>"
  proof (cases w)
    case (Sip002Encoded enc)
    then show ?thesis using assms ss_sip002 [OF parse_user_info_encoded [of m p enc], of s port name] by simp
  next
    case Sip002Plain
    then show ?thesis using assms ss_sip002 [OF parse_user_info_escaped [of m p], of s port name] by simp
  next
    case (LegacyPayload enc)
    then show ?thesis using assms ss_legacy [of m p s port enc name] by simp
  qed
  then show ?thesis using ss_parse_printed [OF ss_write_clean [OF assms(5)]] by (simp only:)
qed

theorem ss_writings_parse_witness:
  "ss_parse (''ss://'' @ ss_write (LegacyPayload UrlEncoding) ''aes-256-gcm'' ''p@:w'' ''2001:db8::1'' 8388 @ fragment_suffix ''x y'')
    = Inr \<lparr>ss_method = ''aes-256-gcm'', ss_password = ''p@:w'', ss_server = ''2001:db8::1'', ss_port = 8388,
        ss_query = [], ss_fragment = ''x y''\<rparr>"
  by (rule ss_writings_parse) (simp_all add: ss_server_ok_def)

lemma parse_plain_user_info_legal:
  "parse_plain_user_info s = Inr (m, p) \<Longrightarrow> m \<noteq> [] \<and> CHR '':'' \<notin> set m \<and> p \<noteq> []"
proof -
  assume ok: "parse_plain_user_info s = Inr (m, p)"
  show ?thesis
  proof (cases "index_byte s CHR '':''")
    case None
    then show ?thesis using ok by (simp add: parse_plain_user_info_def cut_byte_def)
  next
    case (Some i)
    then have mp: "m = take i s" "p = drop (i + 1) s" "m \<noteq> []" "p \<noteq> []"
      using ok by (auto simp: parse_plain_user_info_def cut_byte_def split: if_splits)
    have "index_byte s b = Some i \<Longrightarrow> b \<notin> set (take i s)" for b by (induction s arbitrary: i) (auto split: if_splits)
    then show ?thesis using Some mp by simp
  qed
qed

lemma parse_user_info_legal: "parse_user_info s = Inr (m, p) \<Longrightarrow> m \<noteq> [] \<and> CHR '':'' \<notin> set m \<and> p \<noteq> []"
  by (auto simp: parse_user_info_def Let_def dest: parse_plain_user_info_legal split: option.splits sum.splits)

lemma parse_ss_port_range: "parse_ss_port t = Inr p \<Longrightarrow> 1 \<le> p \<and> p \<le> 65535"
  by (auto simp: parse_ss_port_def split: if_splits option.splits)

lemma ss_split_host_range: "ss_split_host hp = Inr (h, p) \<Longrightarrow> 1 \<le> p \<and> p \<le> 65535"
proof -
  have sum: "map_sum id (Pair a) r = Inr (h, p) \<Longrightarrow> r = Inr p" for a and r :: "ss_error + int" by (cases r) auto
  assume "ss_split_host hp = Inr (h, p)"
  then show ?thesis
    by (auto simp: ss_split_host_def Let_def ss_default_port_def case_prod_beta' dest!: sum parse_ss_port_range
        split: if_splits option.splits)
qed

lemma url_unescape_nonempty: "url_unescape m s = Some t \<Longrightarrow> s \<noteq> [] \<Longrightarrow> t \<noteq> []"
  by (cases s) (auto split: if_splits list.splits option.splits)

lemma parse_host_port_range: "parse_host_port hp = Inr (h, p) \<Longrightarrow> h \<noteq> [] \<and> 1 \<le> p \<and> p \<le> 65535"
  by (auto simp: parse_host_port_def Let_def dest: ss_split_host_range url_unescape_nonempty
      split: if_splits sum.splits option.splits)

lemma ss_assemble_legal:
  assumes "ss_assemble user hp q f = Inr u" and "\<And>m p. user = Inr (m, p) \<Longrightarrow> m \<noteq> [] \<and> CHR '':'' \<notin> set m \<and> p \<noteq> []"
  shows "ss_method u \<noteq> [] \<and> CHR '':'' \<notin> set (ss_method u) \<and> ss_password u \<noteq> [] \<and> ss_server u \<noteq> []
    \<and> 1 \<le> ss_port u \<and> ss_port u \<le> 65535"
  using assms parse_host_port_range [of hp]
  by (auto simp: ss_assemble_def split: sum.splits)

lemma ss_body_legal:
  assumes "ss_body rest q f = Inr u"
  shows "ss_method u \<noteq> [] \<and> CHR '':'' \<notin> set (ss_method u) \<and> ss_password u \<noteq> [] \<and> ss_server u \<noteq> []
    \<and> 1 \<le> ss_port u \<and> ss_port u \<le> 65535"
proof (cases "CHR ''@'' \<in> set rest")
  case True
  then show ?thesis using assms ss_assemble_legal [OF _ parse_user_info_legal]
    by (auto simp: ss_body_def parse_sip002_def split: if_splits option.splits)
next
  case False
  then show ?thesis using assms ss_assemble_legal [OF _ parse_plain_user_info_legal]
    by (auto simp: ss_body_def parse_legacy_def split: if_splits option.splits)
qed

text \<open>
  C31: Whatever text is parsed, an accepted Shadowsocks URI is usable: it has a method without colon,
  a password, a server, and a port between 1 and 65535.
\<close>

theorem ss_parse_usable:
  assumes "ss_parse raw = Inr u"
  shows "ss_method u \<noteq> [] \<and> CHR '':'' \<notin> set (ss_method u) \<and> ss_password u \<noteq> [] \<and> ss_server u \<noteq> []
    \<and> 1 \<le> ss_port u \<and> ss_port u \<le> 65535"
  using assms ss_body_legal
  by (auto simp: ss_parse_def Let_def case_prod_beta' split: option.splits if_splits)

theorem ss_parse_usable_witness:
  "1 \<le> (8388 :: int) \<and> ss_parse ''ss://bTpw@h'' = Inr \<lparr>ss_method = ''m'', ss_password = ''p'', ss_server = ''h'',
     ss_port = 8388, ss_query = [], ss_fragment = []\<rparr>"
proof -
  have "ss_parse ''ss://bTpw@h'' = Inr \<lparr>ss_method = ''m'', ss_password = ''p'', ss_server = ''h'',
     ss_port = 8388, ss_query = [], ss_fragment = []\<rparr>" by code_simp
  from this ss_parse_usable [OF this] show ?thesis by simp
qed

end
