(* ===== verification/NodeOutbound.thy ===== *)
theory NodeOutbound
  imports SsUri
begin

text \<open>
  From a node URI to the options of an outbound: the URI half of \<open>internal/builder/builder.go\<close>.
  The option records keep the fields the code sets, under the library's names; a pointer is an
  option, and \<open>Enabled\<close>, which the code always sets together with the pointer, is left out of
  uTLS and Reality. The transport names \<open>ws\<close>, \<open>http\<close>, \<open>grpc\<close> and \<open>httpupgrade\<close> are the
  library's constants. Parameters: JSON decoding of a VMess payload and \<open>time.ParseDuration\<close>.
\<close>

section \<open>Options\<close>

record tls_options =
  tls_enabled :: bool
  tls_server_name :: string
  tls_insecure :: bool
  tls_alpn :: "string list"
  tls_fingerprint :: "string option"              \<comment> \<open>\<open>UTLS\<close>\<close>
  tls_reality :: "(string \<times> string) option"       \<comment> \<open>public key and short id\<close>

definition tls_on :: "string \<Rightarrow> bool \<Rightarrow> tls_options" where
  "tls_on name insecure = \<lparr>tls_enabled = True, tls_server_name = name, tls_insecure = insecure, tls_alpn = [],
     tls_fingerprint = None, tls_reality = None\<rparr>"

record transport =
  tr_type :: string
  tr_path :: string
  tr_host :: "string option"
  tr_early_data :: "32 word"
  tr_early_header :: string
  tr_service_name :: string

definition plain_transport :: "string \<Rightarrow> transport" where
  "plain_transport t = \<lparr>tr_type = t, tr_path = [], tr_host = None, tr_early_data = 0, tr_early_header = [],
     tr_service_name = []\<rparr>"

record outbound =
  o_type :: string
  o_tag :: string
  o_server :: string
  o_port :: "16 word"
  o_uuid :: string
  o_username :: string
  o_password :: string
  o_method :: string                 \<comment> \<open>cipher, or VMess security\<close>
  o_flow :: string
  o_packet_encoding :: "string option"
  o_alter_id :: int
  o_version :: string
  o_protocol :: string
  o_protocol_param :: string
  o_obfs :: string
  o_obfs_param :: string             \<comment> \<open>or the obfuscation password\<close>
  o_server_ports :: "string list"
  o_hop_interval :: duration
  o_up_mbps :: int
  o_down_mbps :: int
  o_congestion :: string
  o_udp_relay_mode :: string
  o_tls :: "tls_options option"
  o_transport :: "transport option"

definition new_outbound :: "string \<Rightarrow> string \<Rightarrow> int \<Rightarrow> outbound" where
  "new_outbound type server port = \<lparr>o_type = type, o_tag = [], o_server = server, o_port = of_int port, o_uuid = [],
     o_username = [], o_password = [], o_method = [], o_flow = [], o_packet_encoding = None, o_alter_id = 0,
     o_version = [], o_protocol = [], o_protocol_param = [], o_obfs = [], o_obfs_param = [], o_server_ports = [],
     o_hop_interval = 0, o_up_mbps = 0, o_down_mbps = 0, o_congestion = [], o_udp_relay_mode = [], o_tls = None,
     o_transport = None\<rparr>"

datatype node_error =
    NoUuid | NoPassword | NoAuthentication | NoHost | BadPort | BadFlow string | BadPacketEncoding string
  | BadHopInterval string | NoRealityKey | BadRealityKey | BadTransport string | BadShadowsocks ss_error
  | PluginUnsupported string | BadVmessBase64 | BadVmessJson | NoVmessServer | BadSsrBase64 | BadSsrFields
  | BadSsrPort | BadSsrPassword | BadUri | BadScheme string

section \<open>Host and port\<close>

definition host_port :: "url \<Rightarrow> int \<Rightarrow> node_error + string \<times> int" where
  "host_port u default_port =
     (let host = url_hostname u
      in if host = [] then Inl NoHost
         else let text = (if url_port u = [] then itoa default_port else url_port u)
           in case atoi text of
                None \<Rightarrow> Inl BadPort
              | Some p \<Rightarrow> if p < 1 \<or> p > 65535 then Inl BadPort else Inr (host, p))"

definition hysteria2_host_port :: "url \<Rightarrow> int \<Rightarrow> node_error + string \<times> int \<times> string list" where
  "hysteria2_host_port u default_port =
     (let host = url_hostname u
      in if host = [] then Inl NoHost
         else let raw = trim_space (url_port u)
           in if raw = [] then Inr (host, default_port, [])
              else case atoi raw of
                  Some n \<Rightarrow> if n < 1 \<or> n > 65535 then Inl BadPort else Inr (host, n, [])
                | None \<Rightarrow> Inr (host, default_port, [raw]))"

section \<open>TLS and transport\<close>

definition truthy :: "string \<Rightarrow> bool" where
  "truthy v \<longleftrightarrow> v = ''1'' \<or> equal_fold v ''true''"

text \<open>\<open>allowInsecure\<close> or \<open>insecure\<close>, whichever comes first in the given order; nothing when both are empty.\<close>

definition insecure_flag :: "url_values \<Rightarrow> string \<Rightarrow> string \<Rightarrow> bool \<Rightarrow> bool" where
  "insecure_flag q k1 k2 dflt =
     (let v1 = values_get q k1; v = (if v1 = [] then values_get q k2 else v1)
      in if v \<noteq> [] then truthy v else dflt)"

definition alpn_list :: "string \<Rightarrow> string list" where
  "alpn_list v = (if v \<noteq> [] then split_byte CHR '','' v else [])"

definition hysteria_tls_options :: "string \<Rightarrow> url_values \<Rightarrow> bool \<Rightarrow> tls_options" where
  "hysteria_tls_options host q skip =
     (tls_on (if values_get q ''sni'' \<noteq> [] then values_get q ''sni'' else host)
       (insecure_flag q ''insecure'' ''allowInsecure'' skip))
     \<lparr>tls_alpn := alpn_list (values_get q ''alpn'')\<rparr>"

definition decode_reality_key :: "string \<Rightarrow> string option" where
  "decode_reality_key pbk = first_decoding [RawUrlEncoding, StdEncoding] pbk"

definition build_tls_options :: "url_values \<Rightarrow> bool \<Rightarrow> node_error + tls_options option" where
  "build_tls_options q skip =
     (let security = to_lower (values_get q ''security'')
      in if security = [] \<or> security = ''none'' then Inr None
         else let fp = values_get q ''fp'';
                  base = (tls_on (values_get q ''sni'') (insecure_flag q ''allowInsecure'' ''insecure'' skip))
                    \<lparr>tls_alpn := alpn_list (values_get q ''alpn''), tls_fingerprint := (if fp \<noteq> [] then Some fp else None)\<rparr>
              in if security \<noteq> ''reality'' then Inr (Some base)
                 else let pbk = values_get q ''pbk''
                   in if pbk = [] then Inl NoRealityKey
                      else case decode_reality_key pbk of
                          None \<Rightarrow> Inl BadRealityKey
                        | Some d \<Rightarrow>
                            if length d \<noteq> 32 then Inl BadRealityKey
                            else Inr (Some (base\<lparr>tls_reality := Some (pbk, values_get q ''sid''),
                              tls_fingerprint := Some (if fp = [] then ''chrome'' else fp)\<rparr>)))"

definition build_trojan_tls_options :: "url_values \<Rightarrow> bool \<Rightarrow> tls_options" where
  "build_trojan_tls_options q skip =
     (let sni = values_get q ''sni''; peer = values_get q ''peer''; fp = values_get q ''fp''
      in (tls_on (if peer \<noteq> [] \<and> sni = [] then peer else sni) (insecure_flag q ''allowInsecure'' ''insecure'' skip))
         \<lparr>tls_alpn := alpn_list (values_get q ''alpn''), tls_fingerprint := (if fp \<noteq> [] then Some fp else None)\<rparr>)"

text \<open>\<open>/path?ed=2048\<close>: the path, and the early-data limit when it is a positive number.\<close>

definition split_early_data :: "string \<Rightarrow> string \<times> int option" where
  "split_early_data path =
     (case index_of path ''?ed='' of
        None \<Rightarrow> (path, None)
      | Some i \<Rightarrow>
          (take i path,
           case atoi (cut_before CHR ''&'' (drop (i + 4) path)) of
             Some ed \<Rightarrow> if ed > 0 then Some ed else None
           | None \<Rightarrow> None))"

definition websocket_transport :: "string \<Rightarrow> string \<Rightarrow> transport" where
  "websocket_transport path host =
     (let (p, ed) = split_early_data path;
          t = (plain_transport ''ws'')\<lparr>tr_path := p, tr_host := (if host \<noteq> [] then Some host else None)\<rparr>
      in case ed of
           Some n \<Rightarrow> t\<lparr>tr_early_data := of_int n, tr_early_header := ''Sec-WebSocket-Protocol''\<rparr>
         | None \<Rightarrow> t)"

definition build_v2ray_transport :: "url_values \<Rightarrow> node_error + transport option" where
  "build_v2ray_transport q =
     (let t = to_lower (values_get q ''type''); path = values_get q ''path''; host = values_get q ''host'';
          host_opt = (if host \<noteq> [] then Some host else None)
      in if t = [] \<or> t = ''tcp'' then Inr None
         else if t \<in> {''kcp'', ''raw'', ''quic''} then Inl (BadTransport t)
         else if t = ''ws'' then Inr (Some (websocket_transport path host))
         else if t = ''http'' then Inr (Some ((plain_transport t)\<lparr>tr_path := path, tr_host := host_opt\<rparr>))
         else if t = ''grpc'' then Inr (Some ((plain_transport t)\<lparr>tr_service_name := values_get q ''serviceName''\<rparr>))
         else if t = ''httpupgrade'' then Inr (Some ((plain_transport t)\<lparr>tr_path := path\<rparr>))
         else if t = ''xhttp'' then Inr (Some ((plain_transport ''httpupgrade'')\<lparr>tr_path := path, tr_host := host_opt\<rparr>))
         else Inl (BadTransport t))"

text \<open>Transport first, then TLS, as VLESS, VMess URLs do.\<close>

definition add_transport_tls :: "url_values \<Rightarrow> bool \<Rightarrow> outbound \<Rightarrow> node_error + outbound" where
  "add_transport_tls q skip ob =
     (case build_v2ray_transport q of
        Inl e \<Rightarrow> Inl e
      | Inr tr \<Rightarrow> (case build_tls_options q skip of
          Inl e \<Rightarrow> Inl e
        | Inr tls \<Rightarrow> Inr (ob\<lparr>o_transport := tr, o_tls := tls\<rparr>)))"

section \<open>One function per protocol\<close>

definition unsupported_flows :: "string list" where
  "unsupported_flows = [''xtls-rprx-direct'', ''xtls-rprx-origin'', ''xtls-rprx-splice'']"

definition build_vless_options :: "url \<Rightarrow> bool \<Rightarrow> node_error + outbound" where
  "build_vless_options u skip =
     (let uuid = user_name (u_user u)
      in if uuid = [] then Inl NoUuid
         else case host_port u 443 of
             Inl e \<Rightarrow> Inl e
           | Inr (server, port) \<Rightarrow>
               let q = url_query u; flow = values_get q ''flow''; pe = values_get q ''packetEncoding''
               in if to_lower flow \<in> set unsupported_flows then Inl (BadFlow flow)
                  else if pe \<noteq> [] \<and> pe \<notin> {''packetaddr'', ''xudp''} then Inl (BadPacketEncoding pe)
                  else add_transport_tls q skip ((new_outbound ''vless'' server port)\<lparr>o_uuid := uuid, o_flow := flow,
                    o_packet_encoding := (if pe \<noteq> [] then Some pe else None)\<rparr>))"

definition normalize_port_range :: "string \<Rightarrow> string" where
  "normalize_port_range r =
     (if CHR '':'' \<in> set r then r
      else if count_list r CHR ''-'' = 1 then (let (a, b, _) = cut_byte CHR ''-'' r in a @ '':'' @ b)
      else r)"

definition parse_hysteria2_ports :: "string \<Rightarrow> string list" where
  "parse_hysteria2_ports value =
     (let v = trim_space value
      in if v = [] then []
         else map normalize_port_range (filter (\<lambda>p. p \<noteq> []) (map trim_space (split_byte CHR '','' v))))"

fun append_unique :: "string list \<Rightarrow> string list \<Rightarrow> string list" where
  "append_unique base [] = base"
| "append_unique base (x # xs) =
     (if x = [] \<or> x \<in> set base then append_unique base xs else append_unique (base @ [x]) xs)"

text \<open>The number that \<open>strconv.Atoi\<close> returns where its error is ignored: out of range, it is the nearest 64-bit number.\<close>

definition atoi_value :: "string \<Rightarrow> int" where
  "atoi_value s =
     (case atoi s of
        Some n \<Rightarrow> n
      | None \<Rightarrow>
          let ds = (if has_prefix s ''-'' \<or> has_prefix s ''+'' then drop 1 s else s)
          in if ds = [] \<or> \<not> list_all is_digit ds then 0 else if has_prefix s ''-'' then - (2 ^ 63) else 2 ^ 63 - 1)"

lemma atoi_value_itoa: "- (2 ^ 63) \<le> n \<Longrightarrow> n < 2 ^ 63 \<Longrightarrow> atoi_value (itoa n) = n"
  by (simp add: atoi_value_def atoi_itoa)

definition atoi_default :: "string \<Rightarrow> int" where
  "atoi_default v = atoi_value (trim_suffix (trim_suffix v ''mbps'') ''Mbps'')"

definition hop_interval_of :: "(string \<Rightarrow> duration option) \<Rightarrow> url_values \<Rightarrow> node_error + duration" where
  "hop_interval_of parse_duration q =
     (let a = values_get q ''hop_interval''; b = values_get q ''hopInterval''; v = (if a \<noteq> [] then a else b)
      in if v = [] then Inr 0
         else case parse_duration v of Some d \<Rightarrow> Inr d | None \<Rightarrow> Inl (BadHopInterval v))"

definition build_hysteria2_options :: "(string \<Rightarrow> duration option) \<Rightarrow> url \<Rightarrow> bool \<Rightarrow> node_error + outbound" where
  "build_hysteria2_options parse_duration u skip =
     (if u_user u = None then Inl NoAuthentication
      else let (suffix, present) = user_password (u_user u);
               password = user_name (u_user u) @ (if present then '':'' @ suffix else [])
        in case hysteria2_host_port u 443 of
             Inl e \<Rightarrow> Inl e
           | Inr (server, port, hop0) \<Rightarrow>
               let q = url_query u;
                   hop = append_unique (append_unique (append_unique hop0
                     (parse_hysteria2_ports (values_get q ''ports'')))
                     (parse_hysteria2_ports (values_get q ''server_ports'')))
                     (parse_hysteria2_ports (values_get q ''mport''))
               in case hop_interval_of parse_duration q of
                    Inl e \<Rightarrow> Inl e
                  | Inr d \<Rightarrow>
                      let up = values_get q ''upMbps''; down = values_get q ''downMbps''; obfs = values_get q ''obfs''
                      in Inr ((new_outbound ''hysteria2'' server port)\<lparr>o_password := password, o_server_ports := hop,
                           o_hop_interval := d,
                           o_up_mbps := (if up \<noteq> [] then atoi_default up else 0),
                           o_down_mbps := (if down \<noteq> [] then atoi_default down else 0),
                           o_obfs := obfs,
                           o_obfs_param := (if obfs \<noteq> [] then values_get q ''obfs-password'' else []),
                           o_tls := Some (hysteria_tls_options server q skip)\<rparr>))"

definition normalize_shadowsocks_method :: "string \<Rightarrow> string" where
  "normalize_shadowsocks_method m =
     (let l = to_lower m
      in if l = ''chacha20-poly1305'' then ''chacha20-ietf-poly1305''
         else if l = ''chacha20'' then ''chacha20-ietf''
         else if l = ''auto'' then ''aes-128-gcm''
         else m)"

definition build_shadowsocks_options :: "string \<Rightarrow> node_error + outbound" where
  "build_shadowsocks_options raw =
     (case ss_parse raw of
        Inl e \<Rightarrow> Inl (BadShadowsocks e)
      | Inr s \<Rightarrow>
          let plugin = values_get (ss_query s) ''plugin''
          in if plugin \<noteq> [] then Inl (PluginUnsupported plugin)
             else Inr ((new_outbound ''shadowsocks'' (ss_server s) (ss_port s))
               \<lparr>o_method := normalize_shadowsocks_method (ss_method s), o_password := ss_password s\<rparr>))"

definition build_trojan_options :: "url \<Rightarrow> bool \<Rightarrow> node_error + outbound" where
  "build_trojan_options u skip =
     (let password = user_name (u_user u)
      in if password = [] then Inl NoPassword
         else case host_port u 443 of
             Inl e \<Rightarrow> Inl e
           | Inr (server, port) \<Rightarrow>
               let q = url_query u
               in case build_v2ray_transport q of
                    Inl e \<Rightarrow> Inl e
                  | Inr tr \<Rightarrow> Inr ((new_outbound ''trojan'' server port)\<lparr>o_password := password,
                      o_tls := Some (build_trojan_tls_options q skip), o_transport := tr\<rparr>))"

definition build_anytls_options :: "url \<Rightarrow> bool \<Rightarrow> node_error + outbound" where
  "build_anytls_options u skip =
     (let name = user_name (u_user u); password = (if name = [] then fst (user_password (u_user u)) else name)
      in case host_port u 443 of
           Inl e \<Rightarrow> Inl e
         | Inr (server, port) \<Rightarrow>
             (case build_tls_options (url_query u) skip of
                Inl e \<Rightarrow> Inl e
              | Inr tls \<Rightarrow> Inr ((new_outbound ''anytls'' server port)\<lparr>o_password := password,
                  o_tls := Some (case tls of Some t \<Rightarrow> t | None \<Rightarrow> tls_on server skip)\<rparr>)))"

definition build_tuic_options :: "url \<Rightarrow> bool \<Rightarrow> node_error + outbound" where
  "build_tuic_options u skip =
     (case host_port u 443 of
        Inl e \<Rightarrow> Inl e
      | Inr (server, port) \<Rightarrow>
          let q = url_query u
          in Inr ((new_outbound ''tuic'' server port)\<lparr>o_uuid := user_name (u_user u),
               o_password := fst (user_password (u_user u)),
               o_congestion := values_get q ''congestion_control'',
               o_udp_relay_mode := values_get q ''udp_relay_mode'',
               o_tls := Some ((tls_on (if values_get q ''sni'' \<noteq> [] then values_get q ''sni'' else server)
                 (insecure_flag q ''allowInsecure'' ''insecure'' skip))
                 \<lparr>tls_alpn := alpn_list (values_get q ''alpn'')\<rparr>)\<rparr>))"

text \<open>A JSON value where the code takes a number, cut to an integer, or a string.\<close>

datatype json_value = JsonNumber int | JsonText string | JsonOther

record vmess_json =
  vj_add :: string
  vj_port :: json_value
  vj_id :: string
  vj_aid :: json_value
  vj_scy :: string
  vj_net :: string
  vj_host :: string
  vj_path :: string
  vj_tls :: string
  vj_sni :: string
  vj_alpn :: string
  vj_fp :: string

definition json_int :: "json_value \<Rightarrow> int \<Rightarrow> int" where
  "json_int v dflt =
     (case v of
        JsonNumber n \<Rightarrow> n
      | JsonText s \<Rightarrow> atoi_value s
      | JsonOther \<Rightarrow> dflt)"

definition vmess_get_port :: "vmess_json \<Rightarrow> int" where "vmess_get_port v = json_int (vj_port v) 443"
definition vmess_get_alter_id :: "vmess_json \<Rightarrow> int" where "vmess_get_alter_id v = json_int (vj_aid v) 0"

definition vmess_json_transport :: "vmess_json \<Rightarrow> transport option" where
  "vmess_json_transport v =
     (if vj_net v = [] \<or> vj_net v = ''tcp'' then None
      else Some (if vj_net v = ''ws'' then websocket_transport (vj_path v) (vj_host v)
        else if vj_net v = ''h2'' then (plain_transport ''http'')\<lparr>tr_path := vj_path v,
          tr_host := (if vj_host v \<noteq> [] then Some (vj_host v) else None)\<rparr>
        else if vj_net v = ''grpc'' then (plain_transport ''grpc'')\<lparr>tr_service_name := vj_path v\<rparr>
        else plain_transport (vj_net v)))"

definition vmess_json_tls :: "vmess_json \<Rightarrow> bool \<Rightarrow> tls_options option" where
  "vmess_json_tls v skip =
     (if vj_tls v \<noteq> ''tls'' then None
      else Some ((tls_on (if vj_sni v \<noteq> [] then vj_sni v else vj_host v) skip)
        \<lparr>tls_alpn := alpn_list (vj_alpn v), tls_fingerprint := (if vj_fp v \<noteq> [] then Some (vj_fp v) else None)\<rparr>))"

definition vmess_from_json :: "vmess_json \<Rightarrow> bool \<Rightarrow> node_error + outbound" where
  "vmess_from_json v skip =
     (if vj_add v = [] then Inl NoVmessServer
      else if vj_id v = [] then Inl NoUuid
      else let port = (if vmess_get_port v = 0 then 443 else vmess_get_port v)
        in if port < 1 \<or> port > 65535 then Inl BadPort
           else Inr ((new_outbound ''vmess'' (vj_add v) port)\<lparr>o_uuid := vj_id v, o_alter_id := vmess_get_alter_id v,
             o_method := (if vj_scy v = [] then ''auto'' else vj_scy v),
             o_transport := vmess_json_transport v, o_tls := vmess_json_tls v skip\<rparr>))"

definition build_vmess_from_url :: "string \<Rightarrow> bool \<Rightarrow> node_error + outbound" where
  "build_vmess_from_url raw skip =
     (case url_parse raw of
        None \<Rightarrow> Inl BadUri
      | Some u \<Rightarrow>
          let uuid = user_name (u_user u)
          in if uuid = [] then Inl NoUuid
             else case host_port u 443 of
                 Inl e \<Rightarrow> Inl e
               | Inr (server, port) \<Rightarrow>
                   let q = url_query u; enc = values_get q ''encryption''; aid = values_get q ''alterId''
                   in add_transport_tls q skip ((new_outbound ''vmess'' server port)\<lparr>o_uuid := uuid,
                        o_method := (if enc = [] then ''auto'' else enc),
                        o_alter_id := (if aid \<noteq> [] then atoi_value aid else 0)\<rparr>))"

definition build_vmess_options :: "(string \<Rightarrow> vmess_json option) \<Rightarrow> string \<Rightarrow> bool \<Rightarrow> node_error + outbound" where
  "build_vmess_options json raw skip =
     (let encoded = trim_prefix raw ''vmess://''
      in if CHR ''@'' \<in> set encoded then build_vmess_from_url raw skip
         else case first_decoding [StdEncoding, RawStdEncoding, UrlEncoding, RawUrlEncoding]
             (cut_before CHR ''#'' encoded) of
             None \<Rightarrow> Inl BadVmessBase64
           | Some d \<Rightarrow> (case json d of None \<Rightarrow> Inl BadVmessJson | Some v \<Rightarrow> vmess_from_json v skip))"

definition build_socks_options :: "url \<Rightarrow> node_error + outbound" where
  "build_socks_options u =
     (case host_port u 1080 of
        Inl e \<Rightarrow> Inl e
      | Inr (server, port) \<Rightarrow> Inr ((new_outbound ''socks'' server port)\<lparr>o_version := ''5'',
          o_username := user_name (u_user u), o_password := fst (user_password (u_user u))\<rparr>))"

definition build_http_proxy_options :: "url \<Rightarrow> bool \<Rightarrow> node_error + outbound" where
  "build_http_proxy_options u skip =
     (let https = equal_fold (u_scheme u) ''https''
      in case host_port u (if https then 443 else 8080) of
           Inl e \<Rightarrow> Inl e
         | Inr (server, port) \<Rightarrow> Inr ((new_outbound ''http'' server port)\<lparr>
             o_username := user_name (u_user u), o_password := fst (user_password (u_user u)),
             o_tls := (if https then Some (tls_on (url_hostname u) skip) else None)\<rparr>))"

definition trim_right_byte :: "char \<Rightarrow> string \<Rightarrow> string" where
  "trim_right_byte b s = rev (dropWhile (\<lambda>c. c = b) (rev s))"

definition ssr_base64_decode :: "string \<Rightarrow> string option" where
  "ssr_base64_decode s0 =
     (let s = trim_right_byte CHR ''='' (trim_space s0);
          padded = (if length s mod 4 \<noteq> 0 then s @ replicate (4 - length s mod 4) CHR ''='' else s)
      in case first_decoding [StdEncoding, UrlEncoding] padded of
           Some d \<Rightarrow> Some d
         | None \<Rightarrow> first_decoding [RawStdEncoding, RawUrlEncoding] s)"

definition ssr_optional :: "url_values \<Rightarrow> string \<Rightarrow> string" where
  "ssr_optional q k = (let v = values_get q k
     in if v \<noteq> [] then (case ssr_base64_decode v of Some d \<Rightarrow> d | None \<Rightarrow> []) else [])"

definition ssr_split :: "string \<Rightarrow> string \<times> string" where
  "ssr_split decoded =
     (case index_of decoded ''/?'' of
        Some i \<Rightarrow> (take i decoded, drop (i + 2) decoded)
      | None \<Rightarrow>
          (case index_byte decoded CHR ''/'' of
             Some i \<Rightarrow> if i = length decoded - 1 then (take i decoded, []) else (decoded, [])
           | None \<Rightarrow> (decoded, [])))"

definition build_ssr_fields :: "string \<Rightarrow> string \<Rightarrow> node_error + outbound" where
  "build_ssr_fields main params =
     (let parts = split_byte CHR '':'' main; n = length parts
      in if n < 6 then Inl BadSsrFields
         else let host = join_with '':'' (take (n - 5) parts)
           in case atoi (parts ! (n - 5)) of
                None \<Rightarrow> Inl BadSsrPort
              | Some port \<Rightarrow>
                  if port \<le> 0 \<or> port > 65535 then Inl BadSsrPort
                  else case ssr_base64_decode (parts ! (n - 1)) of
                      None \<Rightarrow> Inl BadSsrPassword
                    | Some password \<Rightarrow>
                        let q = (if params = [] then [] else fst (parse_query params))
                        in Inr ((new_outbound ''shadowsocksr'' host port)\<lparr>o_method := parts ! (n - 3),
                             o_password := password, o_protocol := parts ! (n - 4), o_obfs := parts ! (n - 2),
                             o_obfs_param := ssr_optional q ''obfsparam'',
                             o_protocol_param := ssr_optional q ''protoparam''\<rparr>))"

definition build_shadowsocksr_options :: "string \<Rightarrow> node_error + outbound" where
  "build_shadowsocksr_options raw =
     (let payload = trim_space (cut_before CHR ''#'' (trim_prefix (trim_prefix raw ''ssr://'') ''SSR://''))
      in case ssr_base64_decode payload of
           None \<Rightarrow> Inl BadSsrBase64
         | Some d \<Rightarrow> (let (main, params) = ssr_split d in build_ssr_fields main params))"

definition build_hysteria_options :: "url \<Rightarrow> bool \<Rightarrow> node_error + outbound" where
  "build_hysteria_options u skip =
     (case host_port u 443 of
        Inl e \<Rightarrow> Inl e
      | Inr (server, port) \<Rightarrow>
          let q = url_query u;
              num = (\<lambda>k. case atoi (values_get q k) of Some n \<Rightarrow> n | None \<Rightarrow> 0);
              obfs = values_get q ''obfs'';
              param = (if values_get q ''obfsParam'' \<noteq> [] then values_get q ''obfsParam'' else values_get q ''obfs-password'');
              peer = values_get q ''peer''; sni = values_get q ''sni''
          in Inr ((new_outbound ''hysteria'' server port)\<lparr>o_password := values_get q ''auth'',
               o_up_mbps := num ''upmbps'', o_down_mbps := num ''downmbps'',
               o_obfs := (if obfs = [] then [] else if param \<noteq> [] then param else obfs),
               o_tls := Some ((tls_on (if peer \<noteq> [] then peer else if sni \<noteq> [] then sni else server)
                 (truthy (values_get q ''insecure'') \<or> skip))\<lparr>tls_alpn := alpn_list (values_get q ''alpn'')\<rparr>)\<rparr>))"

section \<open>Port hopping in the authority\<close>

text \<open>\<open>hysteria2://auth@host:1000-2000\<close> is no URL; the ports move into the query.\<close>

definition looks_like_port_set :: "string \<Rightarrow> bool" where
  "looks_like_port_set v \<longleftrightarrow> v \<noteq> [] \<and> list_all (\<lambda>c. is_digit c \<or> c = CHR ''-'' \<or> c = CHR '','') v"

definition normalize_hysteria2_uri :: "string \<Rightarrow> string option" where
  "normalize_hysteria2_uri raw =
     (let lower = to_lower raw
      in if \<not> has_prefix lower ''hysteria2://'' \<and> \<not> has_prefix lower ''hy2://'' then None
         else case index_of raw ''://'' of
             None \<Rightarrow> None
           | Some i \<Rightarrow>
               let rest0 = drop (i + 3) raw;
                   (rest1, frag, has_frag) = cut_byte CHR ''#'' rest0;
                   (rest, raw_query, _) = cut_byte CHR ''?'' rest1
               in case last_index_byte rest CHR ''@'' of
                    None \<Rightarrow> None
                  | Some at \<Rightarrow>
                      let user = take at rest; authority = drop (at + 1) rest
                      in case last_index_byte authority CHR '':'' of
                           None \<Rightarrow> None
                         | Some sep \<Rightarrow>
                             let host = take sep authority; port = trim_space (drop (sep + 1) authority)
                             in if host = [] \<or> port = [] \<or> atoi port \<noteq> None \<or> \<not> looks_like_port_set port then None
                                else let (v, ok) = parse_query raw_query;
                                         v0 = (if ok then v else []);
                                         blank = (\<lambda>k. trim_space (values_get v0 k) = []);
                                         values = (if blank ''ports'' \<and> blank ''server_ports'' \<and> blank ''mport''
                                           then values_set ''ports'' port v0 else v0);
                                         encoded = values_encode values
                                     in Some (take i raw @ ''://'' @ user @ ''@'' @ host @ '':443''
                                          @ (if encoded \<noteq> [] then ''?'' @ encoded else [])
                                          @ (if has_frag then ''#'' @ frag else [])))"

section \<open>Dispatch\<close>

definition is_shadowsocks_uri :: "string \<Rightarrow> bool" where
  "is_shadowsocks_uri raw \<longleftrightarrow> has_prefix (to_lower raw) ''ss://'' \<or> has_prefix (to_lower raw) ''shadowsocks://''"

definition parse_node_uri :: "string \<Rightarrow> url option" where
  "parse_node_uri raw =
     (case url_parse raw of
        Some u \<Rightarrow> Some u
      | None \<Rightarrow> (case normalize_hysteria2_uri raw of None \<Rightarrow> None | Some fixed \<Rightarrow> url_parse fixed))"

definition build_by_scheme ::
  "(string \<Rightarrow> vmess_json option) \<Rightarrow> (string \<Rightarrow> duration option) \<Rightarrow> string \<Rightarrow> url \<Rightarrow> bool \<Rightarrow> node_error + outbound" where
  "build_by_scheme json parse_duration raw u skip =
     (let s = to_lower (u_scheme u)
      in if s = ''vless'' then build_vless_options u skip
         else if s \<in> {''hysteria2'', ''hy2''} then build_hysteria2_options parse_duration u skip
         else if s = ''trojan'' then build_trojan_options u skip
         else if s = ''anytls'' then build_anytls_options u skip
         else if s = ''tuic'' then build_tuic_options u skip
         else if s = ''vmess'' then build_vmess_options json raw skip
         else if s \<in> {''socks5'', ''socks5h'', ''socks''} then build_socks_options u
         else if s \<in> {''http'', ''https''} then build_http_proxy_options u skip
         else if s \<in> {''ssr'', ''shadowsocksr''} then build_shadowsocksr_options raw
         else if s = ''hysteria'' then build_hysteria_options u skip
         else Inl (BadScheme (u_scheme u)))"

definition build_node_outbound ::
  "(string \<Rightarrow> vmess_json option) \<Rightarrow> (string \<Rightarrow> duration option) \<Rightarrow> string \<Rightarrow> string \<Rightarrow> bool \<Rightarrow> node_error + outbound" where
  "build_node_outbound json parse_duration tag raw skip =
     map_sum id (\<lambda>ob. ob\<lparr>o_tag := tag\<rparr>)
       (if is_shadowsocks_uri raw then build_shadowsocks_options raw
        else case parse_node_uri raw of
            None \<Rightarrow> Inl BadUri
          | Some u \<Rightarrow> build_by_scheme json parse_duration raw u skip)"

end
