(* ===== verification/NodeRoundTrip.thy ===== *)
theory NodeRoundTrip
  imports ClashUri NodeOutbound
begin

text \<open>
  The subscription code prints a Clash entry as a URI (\<open>ClashUri\<close>), the builder reads the URI back
  (\<open>SsUri\<close>, \<open>NodeOutbound\<close>). Here the two meet: what the builder recovers of an entry, protocol by
  protocol, and what it does not.
\<close>

section \<open>Reading a printed node URL\<close>

lemma clash_node_uri_url:
  "clash_node_uri sc p port us params
     = url_string (node_url sc us (join_host_port (cp_server p) (itoa port)) (values_encode params) (cp_name p))"
  by (simp add: clash_node_uri_def node_url_def empty_url_def)

lemma join_host_port_nonempty [simp]: "join_host_port h p \<noteq> []"
  by (simp add: join_host_port_def)

lemma url_parse_clash_node:
  assumes "plain_scheme sc" and "good_server (cp_server p)" and "0 < port"
  shows "url_parse (clash_node_uri sc p port us params)
    = Some (node_url sc us (join_host_port (cp_server p) (itoa port)) (values_encode params) (cp_name p))"
  unfolding clash_node_uri_url
  using assms by (intro url_parse_node parse_host_join)
    (auto simp: values_encode_clean itoa_list_digits dest: values_encode_no_ctl)

lemma node_url_host [simp]:
  assumes "good_server s" and "0 < port"
  shows "url_hostname (node_url sc us (join_host_port s (itoa port)) q f) = s"
    and "url_port (node_url sc us (join_host_port s (itoa port)) q f) = itoa port"
  using assms split_url_host_join [of s "itoa port"]
  by (simp_all add: url_hostname_def url_port_def itoa_list_digits)

lemma host_port_node:
  assumes "good_server s" and "0 < port" and "port \<le> 65535"
  shows "host_port (node_url sc us (join_host_port s (itoa port)) q f) d = Inr (s, port)"
  using assms good_serverD(1) [of s] by (simp add: host_port_def Let_def atoi_itoa)

lemma trim_space_digits: "0 < port \<Longrightarrow> trim_space (itoa port) = itoa port"
proof (rule trim_space_plain, rule ballI)
  fix c assume "0 < port" "c \<in> set (itoa port)"
  then have "is_digit c" using itoa_digits [of port c] by simp
  then show "\<not> is_space c" by (auto simp: is_digit_def is_space_def)
qed

lemma hysteria2_host_port_node:
  assumes "good_server s" and "0 < port" and "port \<le> 65535"
  shows "hysteria2_host_port (node_url sc us (join_host_port s (itoa port)) q f) d = Inr (s, port, [])"
  using assms good_serverD(1) [of s] by (simp add: hysteria2_host_port_def Let_def atoi_itoa trim_space_digits)

lemma url_query_node: "gomap_ok params \<Longrightarrow>
  values_get (url_query (node_url sc us h (values_encode params) f)) k = values_get params k"
  by (simp add: url_query_def values_get_encode)

section \<open>Query parameters\<close>

lemma values_get_set_if [simp]:
  "values_get (set_if c k x v) k' = (if c \<and> k' = k then x else values_get v k')"
  "gomap_ok v \<Longrightarrow> gomap_ok (set_if c k x v)"
  by (simp_all add: set_if_def)

definition clash_sni :: "clash_proxy \<Rightarrow> string" where
  "clash_sni p = (if cp_server_name p \<noteq> [] then cp_server_name p else cp_sni p)"

lemma values_get_set_sni [simp]:
  "values_get (set_sni k p v) k' = (if k' = k \<and> clash_sni p \<noteq> [] then clash_sni p else values_get v k')"
  "gomap_ok v \<Longrightarrow> gomap_ok (set_sni k p v)"
  by (simp_all add: set_sni_def clash_sni_def)

lemma values_get_set_network [simp]:
  "values_get (set_network p v) k'
     = (if k' = ''type'' \<and> cp_network p \<noteq> [] \<and> cp_network p \<noteq> ''tcp'' then cp_network p else values_get v k')"
  "gomap_ok v \<Longrightarrow> gomap_ok (set_network p v)"
  by (auto simp: set_network_def)

lemma values_get_set_fingerprint [simp]:
  "values_get (set_fingerprint p v) k' = (if k' = ''fp'' \<and> cp_fingerprint p \<noteq> [] then cp_fingerprint p else values_get v k')"
  "gomap_ok v \<Longrightarrow> gomap_ok (set_fingerprint p v)"
  by (auto simp: set_fingerprint_def)

definition clash_ws_path :: "clash_proxy \<Rightarrow> string" where
  "clash_ws_path p = (case cp_ws_opts p of Some ws \<Rightarrow> ws_path ws | None \<Rightarrow> [])"

definition clash_ws_host :: "clash_proxy \<Rightarrow> string" where
  "clash_ws_host p = (case cp_ws_opts p of
     Some ws \<Rightarrow> (case mget (ws_headers ws) ''Host'' of Some h \<Rightarrow> h | None \<Rightarrow> []) | None \<Rightarrow> [])"

definition clash_service :: "clash_proxy \<Rightarrow> string" where
  "clash_service p = (case cp_grpc_opts p of Some n \<Rightarrow> n | None \<Rightarrow> [])"

lemma gomap_ok_set_transport [simp]: "gomap_ok v \<Longrightarrow> gomap_ok (set_transport p v)"
  by (auto simp: set_transport_def Let_def split: option.splits)

lemma values_get_set_transport:
  assumes "values_get v ''path'' = []" "values_get v ''host'' = []" "values_get v ''serviceName'' = []"
  shows "values_get (set_transport p v) k =
    (if k = ''path'' then clash_ws_path p else if k = ''host'' then clash_ws_host p
     else if k = ''serviceName'' then clash_service p else values_get v k)"
  using assms
  by (auto simp: set_transport_def Let_def clash_ws_path_def clash_ws_host_def clash_service_def split: option.splits)

text \<open>The transport an entry asks for, in the builder's terms.\<close>

definition clash_transport :: "clash_proxy \<Rightarrow> transport option" where
  "clash_transport p =
     (let t = to_lower (cp_network p); host = (if clash_ws_host p \<noteq> [] then Some (clash_ws_host p) else None)
      in if t = ''ws'' then Some (websocket_transport (clash_ws_path p) (clash_ws_host p))
         else if t = ''http'' then Some ((plain_transport t)\<lparr>tr_path := clash_ws_path p, tr_host := host\<rparr>)
         else if t = ''grpc'' then Some ((plain_transport t)\<lparr>tr_service_name := clash_service p\<rparr>)
         else if t = ''httpupgrade'' then Some ((plain_transport t)\<lparr>tr_path := clash_ws_path p\<rparr>)
         else if t = ''xhttp'' then Some ((plain_transport ''httpupgrade'')\<lparr>tr_path := clash_ws_path p, tr_host := host\<rparr>)
         else None)"

definition clash_network_ok :: "clash_proxy \<Rightarrow> bool" where
  "clash_network_ok p \<longleftrightarrow> to_lower (cp_network p) \<in> {[], ''tcp'', ''ws'', ''http'', ''grpc'', ''httpupgrade'', ''xhttp''}"

lemma to_lower_Nil [simp]: "to_lower s = [] \<longleftrightarrow> s = []" "to_lower [] = []"
  by (simp_all add: to_lower_def)

lemma build_v2ray_transport_clash:
  assumes get: "values_get q ''type'' = (if cp_network p \<noteq> [] \<and> cp_network p \<noteq> ''tcp'' then cp_network p else [])"
    "values_get q ''path'' = clash_ws_path p" "values_get q ''host'' = clash_ws_host p"
    "values_get q ''serviceName'' = clash_service p"
    and net: "clash_network_ok p"
  shows "build_v2ray_transport q = Inr (clash_transport p)"
proof -
  have tcp: "to_lower ''tcp'' = ''tcp''" by (simp add: to_lower_def lower_char_def is_upper_def)
  let ?n = "to_lower (cp_network p)"
  show ?thesis
  proof (cases "?n = [] \<or> ?n = ''tcp''")
    case True
    then have "to_lower (values_get q ''type'') = [] \<or> to_lower (values_get q ''type'') = ''tcp''"
      using get(1) by (auto simp: to_lower_def)
    then have "build_v2ray_transport q = Inr None" by (simp add: build_v2ray_transport_def Let_def)
    moreover have "clash_transport p = None" using True by (auto simp: clash_transport_def Let_def)
    ultimately show ?thesis by simp
  next
    case False
    then have type: "values_get q ''type'' = cp_network p" using get(1) tcp by auto
    have "?n = ''ws'' \<or> ?n = ''http'' \<or> ?n = ''grpc'' \<or> ?n = ''httpupgrade'' \<or> ?n = ''xhttp''"
      using net False by (simp add: clash_network_ok_def)
    then show ?thesis
      by (elim disjE) (simp_all add: build_v2ray_transport_def clash_transport_def Let_def type get)
  qed
qed

section \<open>Protocol by protocol\<close>

definition clash_node_ok :: "clash_proxy \<Rightarrow> bool" where
  "clash_node_ok p \<longleftrightarrow> good_server (cp_server p) \<and> 0 < cp_port p \<and> cp_port p \<le> 65535"

lemma clash_node_okD:
  assumes "clash_node_ok p"
  shows "good_server (cp_server p)" and "0 < cp_port p" and "cp_port p \<le> 65535"
  using assms by (simp_all add: clash_node_ok_def)

lemma schemes [simp]:
  "plain_scheme ''trojan''" "plain_scheme ''vless''" "plain_scheme ''vmess''" "plain_scheme ''tuic''"
  "plain_scheme ''anytls''" "plain_scheme ''hysteria2''" "plain_scheme ''hysteria''"
  by (simp_all add: plain_scheme_def is_lower_def is_digit_def)

lemma not_shadowsocks:
  "sc \<in> {''trojan'', ''vless'', ''vmess'', ''tuic'', ''anytls'', ''hysteria2'', ''hysteria''} \<Longrightarrow>
     \<not> is_shadowsocks_uri (sc @ ''://'' @ t)"
  by (auto simp: is_shadowsocks_uri_def to_lower_def lower_char_def is_upper_def)

lemma clash_node_uri_head:
  assumes "sc \<noteq> []"
  shows "\<exists>t. clash_node_uri sc p port us params = sc @ ''://'' @ user_prefix us @ t"
  using assms by (simp add: clash_node_uri_url url_string_node)

lemma build_clash_node:
  assumes ok: "good_server (cp_server p)" "0 < port"
    and sc: "sc \<in> {''trojan'', ''vless'', ''vmess'', ''tuic'', ''anytls'', ''hysteria2'', ''hysteria''}"
  shows "build_node_outbound json pd tag (clash_node_uri sc p port us params) skip =
    map_sum id (\<lambda>ob. ob\<lparr>o_tag := tag\<rparr>) (build_by_scheme json pd (clash_node_uri sc p port us params)
      (node_url sc us (join_host_port (cp_server p) (itoa port)) (values_encode params) (cp_name p)) skip)"
proof -
  have plain: "plain_scheme sc" using sc by auto
  have "sc \<noteq> []" using sc by auto
  then obtain t where "clash_node_uri sc p port us params = sc @ ''://'' @ t"
    using clash_node_uri_head by blast
  moreover have "\<not> is_shadowsocks_uri (sc @ ''://'' @ t)" by (rule not_shadowsocks [OF sc])
  ultimately have "\<not> is_shadowsocks_uri (clash_node_uri sc p port us params)" by (simp only: not_False_eq_True)
  then show ?thesis using url_parse_clash_node [OF plain ok]
    by (simp add: build_node_outbound_def parse_node_uri_def)
qed

lemma user_simps [simp]:
  "user_name (Some (url_user n)) = n" "user_password (Some (url_user n)) = ([], False)"
  "user_name (Some (url_user_password n p)) = n" "user_password (Some (url_user_password n p)) = (p, True)"
  by (simp_all add: user_name_def user_password_def url_user_def url_user_password_def)

lemma truthy_simps [simp]: "truthy ''1''" "\<not> truthy []"
  by (simp_all add: truthy_def equal_fold_def to_lower_def)

lemma to_lower_schemes [simp]:
  "to_lower ''trojan'' = ''trojan''" "to_lower ''vless'' = ''vless''" "to_lower ''vmess'' = ''vmess''"
  "to_lower ''tuic'' = ''tuic''" "to_lower ''anytls'' = ''anytls''" "to_lower ''hysteria2'' = ''hysteria2''"
  "to_lower ''hysteria'' = ''hysteria''" "to_lower ''tls'' = ''tls''" "to_lower ''reality'' = ''reality''"
  "to_lower ''ssr'' = ''ssr''"
  by (simp_all add: to_lower_def lower_char_def is_upper_def)

lemma gomap_ok_if [simp]: "gomap_ok v \<Longrightarrow> gomap_ok w \<Longrightarrow> gomap_ok (if c then v else w)"
  by simp

lemma params_ok [simp]:
  "gomap_ok (trojan_params p)" "gomap_ok (anytls_params p)" "gomap_ok (tuic_params p)"
  by (simp_all add: trojan_params_def anytls_params_def tuic_params_def)

lemma more_params_ok [simp]: "gomap_ok (hysteria2_params p)" "gomap_ok (vmess_params p)" "gomap_ok (hysteria_params p)"
  by (simp_all add: hysteria2_params_def vmess_params_def hysteria_params_def Let_def split del: if_split)

lemma vless_params_ok [simp]: "gomap_ok (vless_params p)"
  by (cases "cp_reality_opts p") (simp_all add: vless_params_def Let_def split del: if_split)

lemma trojan_values:
  "values_get (trojan_params p) ''sni'' = clash_sni p" "values_get (trojan_params p) ''peer'' = []"
  "values_get (trojan_params p) ''allowInsecure'' = (if cp_skip_cert_verify p then ''1'' else [])"
  "values_get (trojan_params p) ''insecure'' = []" "values_get (trojan_params p) ''alpn'' = []"
  "values_get (trojan_params p) ''fp'' = cp_fingerprint p"
  "values_get (trojan_params p) ''type'' = (if cp_network p \<noteq> [] \<and> cp_network p \<noteq> ''tcp'' then cp_network p else [])"
  "values_get (trojan_params p) ''path'' = clash_ws_path p" "values_get (trojan_params p) ''host'' = clash_ws_host p"
  "values_get (trojan_params p) ''serviceName'' = clash_service p"
  by (simp_all add: trojan_params_def values_get_set_transport)

lemma clash_trojan_outbound:
  assumes ok: "clash_node_ok p" and t: "to_lower (cp_type p) = ''trojan''"
    and pw: "cp_password p \<noteq> []" and net: "clash_network_ok p"
  shows "build_node_outbound json pd tag (convert_clash_proxy p) skip
    = Inr ((new_outbound ''trojan'' (cp_server p) (cp_port p))\<lparr>o_tag := tag, o_password := cp_password p,
        o_tls := Some ((tls_on (clash_sni p) (cp_skip_cert_verify p \<or> skip))
          \<lparr>tls_fingerprint := (if cp_fingerprint p \<noteq> [] then Some (cp_fingerprint p) else None)\<rparr>),
        o_transport := clash_transport p\<rparr>)"
proof -
  note okD = clash_node_okD [OF ok]
  have conv: "convert_clash_proxy p
      = clash_node_uri ''trojan'' p (cp_port p) (Some (url_user (cp_password p))) (trojan_params p)"
    by (simp add: convert_clash_proxy_def t build_trojan_uri_def)
  have query: "values_get (url_query (node_url ''trojan'' us h (values_encode (trojan_params p)) f)) k
      = values_get (trojan_params p) k" for us h f k by (simp add: url_query_node)
  have tr: "build_v2ray_transport (url_query (node_url ''trojan'' us h (values_encode (trojan_params p)) f))
      = Inr (clash_transport p)" for us h f
    by (rule build_v2ray_transport_clash [OF _ _ _ _ net]) (simp_all only: query trojan_values)
  show ?thesis unfolding conv
    using okD pw
    by (simp add: build_clash_node build_by_scheme_def build_trojan_options_def host_port_node tr
        build_trojan_tls_options_def query trojan_values Let_def insecure_flag_def alpn_list_def tls_on_def new_outbound_def)
qed

lemma tuic_values:
  "values_get (tuic_params p) ''sni'' = clash_sni p"
  "values_get (tuic_params p) ''allowInsecure'' = (if cp_skip_cert_verify p then ''1'' else [])"
  "values_get (tuic_params p) ''insecure'' = []"
  "values_get (tuic_params p) ''alpn'' = (if cp_alpn p \<noteq> [] then join_with '','' (cp_alpn p) else [])"
  "values_get (tuic_params p) ''congestion_control'' = cp_congestion p"
  "values_get (tuic_params p) ''udp_relay_mode'' = cp_udp_relay_mode p"
  by (simp_all add: tuic_params_def)

definition clash_alpn_ok :: "clash_proxy \<Rightarrow> bool" where
  "clash_alpn_ok p \<longleftrightarrow> list_all (\<lambda>a. a \<noteq> [] \<and> CHR '','' \<notin> set a) (cp_alpn p)"

lemma alpn_list_join:
  assumes "clash_alpn_ok p"
  shows "alpn_list (if cp_alpn p \<noteq> [] then join_with '','' (cp_alpn p) else []) = cp_alpn p"
proof (cases "cp_alpn p")
  case Nil
  then show ?thesis by (simp add: alpn_list_def)
next
  case (Cons a as)
  have "join_with '','' (cp_alpn p) \<noteq> []" using assms Cons by (cases as) (simp_all add: clash_alpn_ok_def)
  moreover have "split_byte CHR '','' (join_with '','' (cp_alpn p)) = cp_alpn p"
    using assms Cons by (intro split_join) (auto simp: clash_alpn_ok_def list_all_iff)
  ultimately show ?thesis using Cons by (simp add: alpn_list_def)
qed

lemma clash_tuic_outbound:
  assumes ok: "clash_node_ok p" and t: "to_lower (cp_type p) = ''tuic''" and alpn: "clash_alpn_ok p"
  shows "build_node_outbound json pd tag (convert_clash_proxy p) skip
    = Inr ((new_outbound ''tuic'' (cp_server p) (cp_port p))\<lparr>o_tag := tag, o_uuid := cp_uuid p,
        o_password := cp_password p, o_congestion := cp_congestion p, o_udp_relay_mode := cp_udp_relay_mode p,
        o_tls := Some ((tls_on (if clash_sni p \<noteq> [] then clash_sni p else cp_server p) (cp_skip_cert_verify p \<or> skip))
          \<lparr>tls_alpn := cp_alpn p\<rparr>)\<rparr>)"
proof -
  note okD = clash_node_okD [OF ok]
  have conv: "convert_clash_proxy p
      = clash_node_uri ''tuic'' p (cp_port p) (Some (url_user_password (cp_uuid p) (cp_password p))) (tuic_params p)"
    by (simp add: convert_clash_proxy_def t build_tuic_uri_def)
  have query: "values_get (url_query (node_url ''tuic'' us h (values_encode (tuic_params p)) f)) k
      = values_get (tuic_params p) k" for us h f k by (simp add: url_query_node)
  show ?thesis unfolding conv
    using okD
    by (simp add: build_clash_node build_by_scheme_def build_tuic_options_def host_port_node
        query tuic_values Let_def insecure_flag_def alpn_list_join [OF alpn, simplified] tls_on_def new_outbound_def)
qed

lemma vmess_values:
  "values_get (vmess_params p) ''alterId'' = (if cp_alter_id p \<noteq> 0 then itoa (cp_alter_id p) else [])"
  "values_get (vmess_params p) ''encryption'' = cp_cipher p"
  "values_get (vmess_params p) ''security'' = (if cp_tls p then ''tls'' else [])"
  "values_get (vmess_params p) ''sni'' = (if cp_tls p then clash_sni p else [])"
  "values_get (vmess_params p) ''allowInsecure'' = []" "values_get (vmess_params p) ''insecure'' = []"
  "values_get (vmess_params p) ''alpn'' = []" "values_get (vmess_params p) ''fp'' = cp_fingerprint p"
  "values_get (vmess_params p) ''type'' = (if cp_network p \<noteq> [] \<and> cp_network p \<noteq> ''tcp'' then cp_network p else [])"
  "values_get (vmess_params p) ''path'' = clash_ws_path p" "values_get (vmess_params p) ''host'' = clash_ws_host p"
  "values_get (vmess_params p) ''serviceName'' = clash_service p"
  by (simp_all add: vmess_params_def Let_def values_get_set_transport)

definition clash_tls :: "clash_proxy \<Rightarrow> bool \<Rightarrow> tls_options option" where
  "clash_tls p skip =
     (if cp_tls p then Some ((tls_on (clash_sni p) skip)
        \<lparr>tls_fingerprint := (if cp_fingerprint p \<noteq> [] then Some (cp_fingerprint p) else None)\<rparr>)
      else None)"

lemma user_prefix_at: "us \<noteq> None \<Longrightarrow> CHR ''@'' \<in> set (user_prefix us)"
  by (auto simp: user_prefix_def)

lemma clash_vmess_outbound:
  assumes ok: "clash_node_ok p" and t: "to_lower (cp_type p) = ''vmess''" and uuid: "cp_uuid p \<noteq> []"
    and net: "clash_network_ok p" and aid: "- (2 ^ 63) \<le> cp_alter_id p" "cp_alter_id p < 2 ^ 63"
  shows "build_node_outbound json pd tag (convert_clash_proxy p) skip
    = Inr ((new_outbound ''vmess'' (cp_server p) (cp_port p))\<lparr>o_tag := tag, o_uuid := cp_uuid p,
        o_method := (if cp_cipher p = [] then ''auto'' else cp_cipher p), o_alter_id := cp_alter_id p,
        o_tls := clash_tls p skip, o_transport := clash_transport p\<rparr>)"
proof -
  note okD = clash_node_okD [OF ok]
  let ?us = "Some (url_user (cp_uuid p))"
  have conv: "convert_clash_proxy p = clash_node_uri ''vmess'' p (cp_port p) ?us (vmess_params p)"
    by (simp add: convert_clash_proxy_def t build_vmess_uri_def)
  have query: "values_get (url_query (node_url ''vmess'' us h (values_encode (vmess_params p)) f)) k
      = values_get (vmess_params p) k" for us h f k by (simp add: url_query_node)
  have tr: "build_v2ray_transport (url_query (node_url ''vmess'' us h (values_encode (vmess_params p)) f))
      = Inr (clash_transport p)" for us h f
    by (rule build_v2ray_transport_clash [OF _ _ _ _ net]) (simp_all only: query vmess_values)
  obtain t where head: "clash_node_uri ''vmess'' p (cp_port p) ?us (vmess_params p) = ''vmess://'' @ user_prefix ?us @ t"
    using clash_node_uri_head [of "''vmess''" p "cp_port p" ?us] by auto
  then have "CHR ''@'' \<in> set (trim_prefix (clash_node_uri ''vmess'' p (cp_port p) ?us (vmess_params p)) ''vmess://'')"
    using user_prefix_at [of ?us] by (simp add: trim_prefix_def)
  moreover have "build_tls_options (url_query (node_url ''vmess'' us h (values_encode (vmess_params p)) f)) skip
      = Inr (clash_tls p skip)" for us h f
    by (simp add: build_tls_options_def query vmess_values Let_def insecure_flag_def alpn_list_def clash_tls_def tls_on_def)
  ultimately show ?thesis unfolding conv
    using okD uuid aid
    by (simp add: build_clash_node build_by_scheme_def build_vmess_options_def build_vmess_from_url_def
        url_parse_clash_node host_port_node tr query vmess_values Let_def add_transport_tls_def atoi_value_itoa new_outbound_def)
qed

definition vless_sni :: "clash_proxy \<Rightarrow> string" where
  "vless_sni p = (if cp_server_name p \<noteq> [] \<and> (cp_tls p \<or> cp_reality_opts p \<noteq> None) then cp_server_name p
     else if cp_tls p then cp_sni p else [])"

definition vless_security :: "clash_proxy \<Rightarrow> string" where
  "vless_security p = (if cp_reality_opts p \<noteq> None then ''reality'' else if cp_tls p then ''tls'' else [])"

lemma vless_values:
  "values_get (vless_params p) ''flow'' = cp_flow p" "values_get (vless_params p) ''packetEncoding'' = []"
  "values_get (vless_params p) ''security'' = vless_security p"
  "values_get (vless_params p) ''sni'' = vless_sni p"
  "values_get (vless_params p) ''allowInsecure'' = []" "values_get (vless_params p) ''insecure'' = []"
  "values_get (vless_params p) ''alpn'' = []" "values_get (vless_params p) ''fp'' = cp_fingerprint p"
  "values_get (vless_params p) ''type'' = (if cp_network p \<noteq> [] \<and> cp_network p \<noteq> ''tcp'' then cp_network p else [])"
  "values_get (vless_params p) ''path'' = clash_ws_path p" "values_get (vless_params p) ''host'' = clash_ws_host p"
  "values_get (vless_params p) ''serviceName'' = clash_service p"
  by (cases "cp_reality_opts p"; simp add: vless_params_def Let_def values_get_set_transport vless_security_def
      vless_sni_def clash_sni_def)+

lemma vless_reality_values:
  assumes "cp_reality_opts p = Some r"
  shows "values_get (vless_params p) ''pbk'' = ro_public_key r" "values_get (vless_params p) ''sid'' = ro_short_id r"
  using assms by (simp_all add: vless_params_def Let_def values_get_set_transport)

definition vless_tls :: "clash_proxy \<Rightarrow> bool \<Rightarrow> tls_options option" where
  "vless_tls p skip =
     (let fp = cp_fingerprint p; base = tls_on (vless_sni p) skip
      in case cp_reality_opts p of
           Some r \<Rightarrow> Some (base\<lparr>tls_fingerprint := Some (if fp = [] then ''chrome'' else fp),
             tls_reality := Some (ro_public_key r, ro_short_id r)\<rparr>)
         | None \<Rightarrow> if cp_tls p then Some (base\<lparr>tls_fingerprint := (if fp \<noteq> [] then Some fp else None)\<rparr>) else None)"

definition reality_ok :: "clash_proxy \<Rightarrow> bool" where
  "reality_ok p = (case cp_reality_opts p of
     None \<Rightarrow> True
   | Some r \<Rightarrow> (case decode_reality_key (ro_public_key r) of Some d \<Rightarrow> length d = 32 | None \<Rightarrow> False))"

lemma decode_reality_key_Nil: "decode_reality_key [] = Some []"
  by (simp add: decode_reality_key_def b64_decode_def)

lemma build_tls_vless:
  assumes "\<And>k. values_get q k = values_get (vless_params p) k" and "reality_ok p"
  shows "build_tls_options q skip = Inr (vless_tls p skip)"
proof (cases "cp_reality_opts p")
  case None
  then show ?thesis
    by (simp add: build_tls_options_def assms(1) vless_values vless_security_def Let_def insecure_flag_def
        alpn_list_def vless_tls_def tls_on_def)
next
  case (Some r)
  then obtain d where d: "decode_reality_key (ro_public_key r) = Some d" "length d = 32"
    using assms(2) by (auto simp: reality_ok_def split: option.splits)
  then have "ro_public_key r \<noteq> []" using decode_reality_key_Nil by force
  then show ?thesis using Some d
    by (simp add: build_tls_options_def assms(1) vless_values vless_reality_values vless_security_def Let_def
        insecure_flag_def alpn_list_def vless_tls_def tls_on_def)
qed

lemma clash_vless_outbound:
  assumes ok: "clash_node_ok p" and t: "to_lower (cp_type p) = ''vless''" and uuid: "cp_uuid p \<noteq> []"
    and net: "clash_network_ok p" and flow: "to_lower (cp_flow p) \<notin> set unsupported_flows" and reality: "reality_ok p"
  shows "build_node_outbound json pd tag (convert_clash_proxy p) skip
    = Inr ((new_outbound ''vless'' (cp_server p) (cp_port p))\<lparr>o_tag := tag, o_uuid := cp_uuid p, o_flow := cp_flow p,
        o_tls := vless_tls p skip, o_transport := clash_transport p\<rparr>)"
proof -
  note okD = clash_node_okD [OF ok]
  let ?us = "Some (url_user (cp_uuid p))"
  have conv: "convert_clash_proxy p = clash_node_uri ''vless'' p (cp_port p) ?us (vless_params p)"
    by (simp add: convert_clash_proxy_def t build_vless_uri_def)
  have query: "values_get (url_query (node_url ''vless'' us h (values_encode (vless_params p)) f)) k
      = values_get (vless_params p) k" for us h f k by (simp add: url_query_node)
  have tr: "build_v2ray_transport (url_query (node_url ''vless'' us h (values_encode (vless_params p)) f))
      = Inr (clash_transport p)" for us h f
    by (rule build_v2ray_transport_clash [OF _ _ _ _ net]) (simp_all only: query vless_values)
  have tls: "build_tls_options (url_query (node_url ''vless'' us h (values_encode (vless_params p)) f)) skip
      = Inr (vless_tls p skip)" for us h f
    by (rule build_tls_vless [OF query reality])
  show ?thesis unfolding conv
    using okD uuid flow
    by (simp add: build_clash_node build_by_scheme_def build_vless_options_def host_port_node tr tls query vless_values
        Let_def add_transport_tls_def new_outbound_def)
qed

lemma anytls_no_security: "values_get (anytls_params p) ''security'' = []"
  by (simp add: anytls_params_def)

text \<open>The AnyTLS URI names no \<open>security\<close>, so the builder takes its default TLS options.\<close>

lemma clash_anytls_outbound:
  assumes ok: "clash_node_ok p" and t: "to_lower (cp_type p) = ''anytls''"
  shows "build_node_outbound json pd tag (convert_clash_proxy p) skip
    = Inr ((new_outbound ''anytls'' (cp_server p) (cp_port p))\<lparr>o_tag := tag, o_password := cp_password p,
        o_tls := Some (tls_on (cp_server p) skip)\<rparr>)"
proof -
  note okD = clash_node_okD [OF ok]
  have conv: "convert_clash_proxy p
      = clash_node_uri ''anytls'' p (cp_port p) (Some (url_user (cp_password p))) (anytls_params p)"
    by (simp add: convert_clash_proxy_def t build_anytls_uri_def)
  have "build_tls_options (url_query (node_url ''anytls'' us h (values_encode (anytls_params p)) f)) skip = Inr None"
    for us h f by (simp add: build_tls_options_def url_query_node anytls_no_security)
  then show ?thesis unfolding conv
    using okD by (simp add: build_clash_node build_by_scheme_def build_anytls_options_def host_port_node Let_def new_outbound_def)
qed

lemma hysteria2_values:
  "values_get (hysteria2_params p) ''sni'' = clash_sni p"
  "values_get (hysteria2_params p) ''insecure'' = (if cp_skip_cert_verify p then ''1'' else [])"
  "values_get (hysteria2_params p) ''allowInsecure'' = []" "values_get (hysteria2_params p) ''alpn'' = []"
  "values_get (hysteria2_params p) ''obfs'' = cp_obfs p"
  "values_get (hysteria2_params p) ''obfs-password'' = (if cp_obfs p \<noteq> [] then cp_obfs_password p else [])"
  "values_get (hysteria2_params p) ''server_ports'' = []" "values_get (hysteria2_params p) ''mport'' = []"
  "values_get (hysteria2_params p) ''ports''
     = (if trim_space (cp_ports p) \<noteq> [] then normalize_hysteria2_ports (trim_space (cp_ports p)) else [])"
  "values_get (hysteria2_params p) ''hop_interval'' = []" "values_get (hysteria2_params p) ''hopInterval'' = []"
  "values_get (hysteria2_params p) ''upMbps'' = []" "values_get (hysteria2_params p) ''downMbps'' = []"
  by (simp_all add: hysteria2_params_def Let_def)

lemma parse_no_ports [simp]: "parse_hysteria2_ports [] = []"
  by (simp add: parse_hysteria2_ports_def trim_space_def)

lemma clash_hysteria2_outbound:
  assumes ok: "clash_node_ok p" and t: "to_lower (cp_type p) \<in> {''hysteria2'', ''hy2''}"
  shows "build_node_outbound json pd tag (convert_clash_proxy p) skip
    = Inr ((new_outbound ''hysteria2'' (cp_server p) (cp_port p))\<lparr>o_tag := tag, o_password := cp_password p,
        o_server_ports := append_unique [] (parse_hysteria2_ports (values_get (hysteria2_params p) ''ports'')),
        o_obfs := cp_obfs p, o_obfs_param := (if cp_obfs p \<noteq> [] then cp_obfs_password p else []),
        o_tls := Some (tls_on (if clash_sni p \<noteq> [] then clash_sni p else cp_server p) (cp_skip_cert_verify p \<or> skip))\<rparr>)"
proof -
  note okD = clash_node_okD [OF ok]
  have conv: "convert_clash_proxy p
      = clash_node_uri ''hysteria2'' p (cp_port p) (Some (url_user (cp_password p))) (hysteria2_params p)"
    using t okD(2) by (auto simp: convert_clash_proxy_def build_hysteria2_uri_def)
  have query: "values_get (url_query (node_url ''hysteria2'' us h (values_encode (hysteria2_params p)) f)) k
      = values_get (hysteria2_params p) k" for us h f k by (simp add: url_query_node)
  show ?thesis unfolding conv
    using okD
    by (simp add: build_clash_node build_by_scheme_def build_hysteria2_options_def hysteria2_host_port_node query
        hysteria2_values Let_def hop_interval_of_def hysteria_tls_options_def insecure_flag_def alpn_list_def tls_on_def
        new_outbound_def)
qed

lemma hysteria_values:
  "values_get (hysteria_params p) ''auth'' = hysteria_auth p"
  "values_get (hysteria_params p) ''peer'' = (if clash_sni p \<noteq> [] then clash_sni p else cp_peer_sni p)"
  "values_get (hysteria_params p) ''sni'' = []"
  "values_get (hysteria_params p) ''insecure'' = (if cp_skip_cert_verify p then ''1'' else [])"
  "values_get (hysteria_params p) ''upmbps'' = (if cp_up_mbps p > 0 then itoa (cp_up_mbps p) else [])"
  "values_get (hysteria_params p) ''downmbps'' = (if cp_down_mbps p > 0 then itoa (cp_down_mbps p) else [])"
  "values_get (hysteria_params p) ''alpn'' = (if cp_alpn p \<noteq> [] then join_with '','' (cp_alpn p) else [])"
  "values_get (hysteria_params p) ''obfs'' = cp_obfs p"
  "values_get (hysteria_params p) ''obfsParam'' = (if cp_obfs p \<noteq> [] then cp_obfs_password p else [])"
  "values_get (hysteria_params p) ''obfs-password'' = []"
  by (simp_all add: hysteria_params_def Let_def clash_sni_def)

lemma atoi_Nil [simp]: "atoi [] = None"
  by (simp add: atoi_def)

lemma clash_hysteria_outbound:
  assumes ok: "clash_node_ok p" and t: "to_lower (cp_type p) = ''hysteria''" and alpn: "clash_alpn_ok p"
    and mbps: "cp_up_mbps p < 2 ^ 63" "cp_down_mbps p < 2 ^ 63"
  shows "build_node_outbound json pd tag (convert_clash_proxy p) skip
    = Inr ((new_outbound ''hysteria'' (cp_server p) (cp_port p))\<lparr>o_tag := tag, o_password := hysteria_auth p,
        o_up_mbps := max 0 (cp_up_mbps p), o_down_mbps := max 0 (cp_down_mbps p),
        o_obfs := (if cp_obfs p \<noteq> [] \<and> cp_obfs_password p \<noteq> [] then cp_obfs_password p else cp_obfs p),
        o_tls := Some ((tls_on (if clash_sni p \<noteq> [] then clash_sni p else if cp_peer_sni p \<noteq> [] then cp_peer_sni p
          else cp_server p) (cp_skip_cert_verify p \<or> skip))\<lparr>tls_alpn := cp_alpn p\<rparr>)\<rparr>)"
proof -
  note okD = clash_node_okD [OF ok]
  have conv: "convert_clash_proxy p = clash_node_uri ''hysteria'' p (cp_port p) None (hysteria_params p)"
    by (simp add: convert_clash_proxy_def t build_hysteria_uri_def)
  have query: "values_get (url_query (node_url ''hysteria'' us h (values_encode (hysteria_params p)) f)) k
      = values_get (hysteria_params p) k" for us h f k by (simp add: url_query_node)
  have up: "(case atoi (if cp_up_mbps p > 0 then itoa (cp_up_mbps p) else []) of Some n \<Rightarrow> n | None \<Rightarrow> 0) = max 0 (cp_up_mbps p)"
    "(case atoi (if cp_down_mbps p > 0 then itoa (cp_down_mbps p) else []) of Some n \<Rightarrow> n | None \<Rightarrow> 0) = max 0 (cp_down_mbps p)"
    using mbps by (simp_all add: atoi_itoa)
  show ?thesis unfolding conv
    using okD
    by (simp add: build_clash_node build_by_scheme_def build_hysteria_options_def host_port_node query hysteria_values
        Let_def up alpn_list_join [OF alpn] tls_on_def new_outbound_def del: if_split)
qed

section \<open>Shadowsocks\<close>

lemma raw_url_unescaped: "c \<in> set (b64_encode RawUrlEncoding s) \<Longrightarrow> \<not> should_escape EncodeUserPassword c"
proof -
  assume "c \<in> set (b64_encode RawUrlEncoding s)"
  then have "c \<in> set url_alphabet" using url.encode_raw_chars by (auto simp: b64_encode_def)
  moreover have "\<forall>c\<in>set url_alphabet. \<not> should_escape EncodeUserPassword c" by code_simp
  ultimately show ?thesis by blast
qed

lemma build_shadowsocks_uri_eq:
  assumes "0 < cp_port p"
  shows "build_shadowsocks_uri p = ''ss://''
    @ ss_write (Sip002Encoded RawUrlEncoding) (cp_cipher p) (cp_password p) (cp_server p) (cp_port p)
    @ fragment_suffix (cp_name p)"
proof -
  have "url_escape EncodeUserPassword (b64_encode RawUrlEncoding x) = b64_encode RawUrlEncoding x" for x
    by (rule url_escape_id) (rule raw_url_unescaped)
  then show ?thesis
    by (simp add: build_shadowsocks_uri_def clash_node_uri_url url_string_node user_prefix_def userinfo_string_def
        url_user_def query_suffix_def printed_host_def values_encode_def values_pairs_def)
qed

definition clash_ss_ok :: "clash_proxy \<Rightarrow> bool" where
  "clash_ss_ok p \<longleftrightarrow> ss_server_ok (cp_server p) \<and> 0 < cp_port p \<and> cp_port p \<le> 65535
     \<and> cp_cipher p \<noteq> [] \<and> CHR '':'' \<notin> set (cp_cipher p) \<and> cp_password p \<noteq> []"

lemma ss_body_clean:
  assumes "0 < port"
  shows "CHR ''#'' \<notin> set (b64_encode enc x @ CHR ''@'' # printed_host s port)"
    and "CHR ''?'' \<notin> set (b64_encode enc x @ CHR ''@'' # printed_host s port)"
  using assms printed_host_clean [of port s] alphabet_facts [of "CHR ''#''" enc x] alphabet_facts [of "CHR ''?''" enc x]
  by auto

lemma parse_built_shadowsocks:
  assumes ok: "clash_ss_ok p"
  shows "ss_parse (build_shadowsocks_uri p) = Inr \<lparr>ss_method = cp_cipher p, ss_password = cp_password p,
    ss_server = cp_server p, ss_port = cp_port p, ss_query = [], ss_fragment = cp_name p\<rparr>"
proof -
  have okD: "ss_server_ok (cp_server p)" "0 < cp_port p" "cp_port p \<le> 65535" "cp_cipher p \<noteq> []"
    "CHR '':'' \<notin> set (cp_cipher p)" "cp_password p \<noteq> []" using ok by (simp_all add: clash_ss_ok_def)
  let ?u = "b64_encode RawUrlEncoding (cp_cipher p @ CHR '':'' # cp_password p)"
  have "build_shadowsocks_uri p = ''ss://'' @ (?u @ CHR ''@'' # printed_host (cp_server p) (cp_port p)) @ fragment_suffix (cp_name p)"
    using build_shadowsocks_uri_eq [OF okD(2)] by simp
  moreover have "ss_body (?u @ CHR ''@'' # printed_host (cp_server p) (cp_port p)) [] (cp_name p)
      = Inr \<lparr>ss_method = cp_cipher p, ss_password = cp_password p,
    ss_server = cp_server p, ss_port = cp_port p, ss_query = [], ss_fragment = cp_name p\<rparr>"
    using okD by (intro ss_sip002 parse_user_info_encoded) simp_all
  ultimately show ?thesis
    using ss_parse_printed [OF ss_body_clean(1) [OF okD(2)] ss_body_clean(2) [OF okD(2)]] by (simp only:)
qed

lemma clash_ss_outbound:
  assumes ok: "clash_ss_ok p" and t: "to_lower (cp_type p) \<in> {''ss'', ''shadowsocks''}"
  shows "build_node_outbound json pd tag (convert_clash_proxy p) skip
    = Inr ((new_outbound ''shadowsocks'' (cp_server p) (cp_port p))\<lparr>o_tag := tag,
        o_method := normalize_shadowsocks_method (cp_cipher p), o_password := cp_password p\<rparr>)"
proof -
  have conv: "convert_clash_proxy p = build_shadowsocks_uri p" using t by (auto simp: convert_clash_proxy_def)
  have "0 < cp_port p" using ok by (simp add: clash_ss_ok_def)
  then have "\<exists>t. build_shadowsocks_uri p = ''ss://'' @ t" by (simp add: build_shadowsocks_uri_eq)
  then have "is_shadowsocks_uri (build_shadowsocks_uri p)"
    by (auto simp: is_shadowsocks_uri_def to_lower_def lower_char_def is_upper_def)
  then show ?thesis unfolding conv
    using parse_built_shadowsocks [OF ok]
    by (simp add: build_node_outbound_def build_shadowsocks_options_def new_outbound_def)
qed

end
