(* ===== verification/SsrRoundTrip.thy ===== *)
theory SsrRoundTrip
  imports NodeRoundTrip
begin

text \<open>
  ShadowsocksR nodes: the URI is one base64 text whose fields are split from the right and whose
  optional parameters are base64 again. The builder recovers a printed entry, IPv6 servers
  included.
\<close>

section \<open>The lenient base64 decoder\<close>

lemma encode_padding:
  "encode_quanta True al s = encode_quanta False al s
     @ replicate ((4 - length (encode_quanta False al s) mod 4) mod 4) CHR ''=''"
proof (induction s rule: three_at_a_time)
  case (one a)
  have "length (encode_quanta False al [a]) = 2" by (simp add: b64_pad_def)
  moreover have "(4 - 2 mod 4) mod 4 = (2 :: nat)" by simp
  ultimately have "(4 - length (encode_quanta False al [a]) mod 4) mod 4 = 2" by presburger
  then show ?case by (simp only:) (simp add: b64_pad_def)
next
  case (two a b)
  have "length (encode_quanta False al [a, b]) = 3" by (simp add: b64_pad_def)
  moreover have "(4 - 3 mod 4) mod 4 = (1 :: nat)" by simp
  ultimately have "(4 - length (encode_quanta False al [a, b]) mod 4) mod 4 = 1" by presburger
  then show ?case by (simp only:) (simp add: b64_pad_def)
next
  case (more a b c s)
  have "length (encode_quanta False al (a # b # c # s)) = length (encode_quanta False al s) + 4" by simp
  then have "length (encode_quanta False al (a # b # c # s)) mod 4 = length (encode_quanta False al s) mod 4"
    by (simp only: mod_add_self2)
  then show ?case using more by (simp only:) simp
qed simp

lemma trim_right_padding:
  assumes "b \<notin> set x"
  shows "trim_right_byte b (x @ replicate n b) = x"
proof -
  have "dropWhile (\<lambda>c. c = b) (replicate n b @ rev x) = rev x"
    using assms by (cases x rule: rev_cases) (auto simp: dropWhile_append)
  then show ?thesis by (simp add: trim_right_byte_def)
qed

lemma ssr_base64_decode_encode: "ssr_base64_decode (b64_encode UrlEncoding s) = Some s"
proof -
  let ?raw = "encode_quanta False url_alphabet s"
  let ?enc = "b64_encode UrlEncoding s"
  have enc: "?enc = ?raw @ replicate ((4 - length ?raw mod 4) mod 4) CHR ''=''"
    unfolding b64_encode_def by (simp add: encode_padding [symmetric])
  have "CHR ''='' \<notin> set ?raw" using url.encode_raw_chars [of s] url.no_pad by blast
  then have "trim_right_byte CHR ''='' ?enc = ?raw" unfolding enc by (rule trim_right_padding)
  moreover have "trim_space ?enc = ?enc" using alphabet_facts by (intro trim_space_plain) blast
  moreover have "(if length ?raw mod 4 \<noteq> 0 then ?raw @ replicate (4 - length ?raw mod 4) CHR ''='' else ?raw) = ?enc"
  proof (cases "length ?raw mod 4 = 0")
    case False
    moreover have "length ?raw mod 4 < 4" by simp
    ultimately have "(4 - length ?raw mod 4) mod 4 = 4 - length ?raw mod 4" by simp
    then show ?thesis using False enc by simp
  qed (simp add: enc)
  moreover have "first_decoding [StdEncoding, UrlEncoding] ?enc = Some s" by (rule first_decoding_encode) simp
  ultimately show ?thesis by (simp add: ssr_base64_decode_def Let_def del: first_decoding.simps)
qed

section \<open>The URI is a URL\<close>

lemma url_enc_unescaped: "c \<in> set (b64_encode UrlEncoding s) \<Longrightarrow> \<not> should_escape EncodeHost c \<and> c \<notin> set ''[:/'' \<and> c \<notin> set ''%+&;''"
proof -
  assume "c \<in> set (b64_encode UrlEncoding s)"
  then have "c \<in> set url_alphabet \<union> {CHR ''=''}" using url.encode_chars [of True s] by (auto simp: b64_encode_def)
  moreover have "\<forall>c\<in>set url_alphabet \<union> {CHR ''=''}. \<not> should_escape EncodeHost c \<and> c \<notin> set ''[:/'' \<and> c \<notin> set ''%+&;''" by code_simp
  ultimately show ?thesis by blast
qed

lemma parse_ssr_url:
  assumes "x \<noteq> []"
  shows "url_parse (''ssr://'' @ b64_encode UrlEncoding x) = Some (node_url ''ssr'' None (b64_encode UrlEncoding x) [] [])"
proof -
  let ?e = "b64_encode UrlEncoding x"
  have esc: "url_escape EncodeHost ?e = ?e" by (rule url_escape_id) (simp add: url_enc_unescaped)
  have un: "url_unescape EncodeHost ?e = Some ?e"
    using host_unescape_escape [of ?e] url_enc_unescaped [of _ x] by (simp add: esc host_char_def)
  have "CHR ''['' \<notin> set ?e" "CHR '':'' \<notin> set ?e" using url_enc_unescaped by fastforce+
  then have host: "parse_host (url_escape EncodeHost ?e) = Some ?e"
    using un by (simp add: esc parse_host_def last_index_byte_def)
  have sc: "plain_scheme ''ssr''" by (simp add: plain_scheme_def is_lower_def is_digit_def)
  have ne: "?e \<noteq> []" using assms by simp
  have "url_string (node_url ''ssr'' None ?e [] []) = ''ssr://'' @ ?e"
    using ne by (simp add: url_string_node esc user_prefix_def query_suffix_def fragment_suffix_def)
  then show ?thesis using url_parse_node [OF sc ne host, of "[]" None "[]"] by simp
qed

section \<open>Fields and parameters\<close>

lemma split_byte_join: "split_byte b (s @ b # t) = split_byte b s @ split_byte b t"
  by (induction s) (auto split: list.splits)

definition ssr_field :: "string \<Rightarrow> bool" where
  "ssr_field s \<longleftrightarrow> CHR '':'' \<notin> set s \<and> CHR ''/'' \<notin> set s"

definition clash_ssr_ok :: "clash_proxy \<Rightarrow> bool" where
  "clash_ssr_ok p \<longleftrightarrow> CHR ''/'' \<notin> set (cp_server p) \<and> 0 < cp_port p \<and> cp_port p \<le> 65535
     \<and> ssr_field (cp_protocol p) \<and> ssr_field (cp_cipher p) \<and> ssr_field (cp_obfs p)"

lemma default_str_field: "ssr_field s \<Longrightarrow> ssr_field d \<Longrightarrow> ssr_field (default_str s d)"
  by (simp add: default_str_def)

lemma ssr_main_parts:
  assumes ok: "clash_ssr_ok p"
  shows "split_byte CHR '':'' (ssr_main p) = split_byte CHR '':'' (cp_server p) @ [itoa (cp_port p),
      default_str (cp_protocol p) ''origin'', default_str (cp_cipher p) ''none'', default_str (cp_obfs p) ''plain'',
      b64_encode UrlEncoding (cp_password p)]"
    and "CHR ''/'' \<notin> set (ssr_main p)"
proof -
  have f: "ssr_field (default_str (cp_protocol p) ''origin'')" "ssr_field (default_str (cp_cipher p) ''none'')"
    "ssr_field (default_str (cp_obfs p) ''plain'')"
    using ok by (auto simp: clash_ssr_ok_def ssr_field_def intro!: default_str_field [unfolded ssr_field_def])
  have port: "0 \<le> cp_port p" using ok by (simp add: clash_ssr_ok_def)
  have pw: "CHR '':'' \<notin> set (b64_encode UrlEncoding (cp_password p))" "CHR ''/'' \<notin> set (b64_encode UrlEncoding (cp_password p))"
    using url_enc_unescaped by fastforce+
  have dig: "CHR '':'' \<notin> set (itoa (cp_port p))" "CHR ''/'' \<notin> set (itoa (cp_port p))"
    using digits_absent [OF port] by simp_all
  show "split_byte CHR '':'' (ssr_main p) = split_byte CHR '':'' (cp_server p) @ [itoa (cp_port p),
      default_str (cp_protocol p) ''origin'', default_str (cp_cipher p) ''none'', default_str (cp_obfs p) ''plain'',
      b64_encode UrlEncoding (cp_password p)]"
    using f dig pw by (simp add: ssr_main_def split_byte_join split_byte_append split_byte_absent ssr_field_def)
  show "CHR ''/'' \<notin> set (ssr_main p)"
    using f dig pw ok by (simp add: ssr_main_def ssr_field_def clash_ssr_ok_def)
qed

lemma query_piece_b64:
  assumes "list_all is_alnum k"
  shows "query_piece (k @ CHR ''='' # b64_encode UrlEncoding x) r
    = (values_add k (b64_encode UrlEncoding x) (fst r), snd r)"
proof -
  let ?e = "b64_encode UrlEncoding x"
  have no: "CHR '';'' \<notin> set ?e" using url_enc_unescaped by fastforce
  have k: "CHR '';'' \<notin> set k" "CHR ''='' \<notin> set k" using assms by (auto simp: list_all_iff)
  have id: "query_unescape s = Some s" if "\<And>c. c \<in> set s \<Longrightarrow> c \<noteq> CHR ''%'' \<and> c \<noteq> CHR ''+''" for s
    using that by (induction s) auto
  have "query_unescape ?e = Some ?e" using url_enc_unescaped by (intro id) fastforce
  moreover have "query_unescape k = Some k" using assms by (intro id) (auto simp: list_all_iff)
  ultimately show ?thesis using no k by (simp add: query_piece_def cut_byte_append)
qed

lemma ssr_keys: "list_all is_alnum ''obfsparam''" "list_all is_alnum ''protoparam''" "list_all is_alnum ''remarks''"
  by (simp_all add: is_alnum_def is_lower_def)

definition ssr_values :: "clash_proxy \<Rightarrow> url_values" where
  "ssr_values p = fst (fold query_piece (ssr_params p) ([], True))"

lemma ssr_piece_clean: "CHR ''&'' \<notin> set (b64_encode UrlEncoding x)"
  using url_enc_unescaped by fastforce

lemma parse_ssr_params:
  assumes "ssr_params p \<noteq> []"
  shows "fst (parse_query (join_with ''&'' (ssr_params p))) = ssr_values p"
proof -
  have "split_byte CHR ''&'' (join_with ''&'' (ssr_params p)) = ssr_params p"
    using assms by (intro split_join) (auto simp: ssr_params_def ssr_piece_clean split: if_splits)
  then show ?thesis by (simp add: parse_query_def ssr_values_def)
qed

lemma ssr_values_get:
  "values_get (ssr_values p) ''obfsparam'' = (if cp_obfs_param p \<noteq> [] then b64_encode UrlEncoding (cp_obfs_param p) else [])"
  "values_get (ssr_values p) ''protoparam'' = (if cp_protocol_param p \<noteq> [] then b64_encode UrlEncoding (cp_protocol_param p) else [])"
  using query_piece_b64 [OF ssr_keys(1)] query_piece_b64 [OF ssr_keys(2)] query_piece_b64 [OF ssr_keys(3)]
  by (simp_all add: ssr_values_def ssr_params_def values_add_def values_get_def mget_mput)

lemma ssr_optional_values:
  "ssr_optional (ssr_values p) ''obfsparam'' = cp_obfs_param p"
  "ssr_optional (ssr_values p) ''protoparam'' = cp_protocol_param p"
  by (simp_all add: ssr_optional_def ssr_values_get ssr_base64_decode_encode)

section \<open>The round trip\<close>

definition ssr_payload :: "clash_proxy \<Rightarrow> string" where
  "ssr_payload p = ssr_main p @ (if ssr_params p \<noteq> [] then ''/?'' @ join_with ''&'' (ssr_params p) else [])"

lemma index_of_first: "CHR ''/'' \<notin> set s \<Longrightarrow> index_of (s @ ''/?'' @ t) ''/?'' = Some (length s)"
  by (induction s) auto

lemma ssr_split_payload:
  assumes "clash_ssr_ok p"
  shows "ssr_split (ssr_payload p) = (ssr_main p, if ssr_params p \<noteq> [] then join_with ''&'' (ssr_params p) else [])"
proof (cases "ssr_params p = []")
  case True
  have no: "CHR ''/'' \<notin> set (ssr_main p)" using ssr_main_parts(2) [OF assms] .
  then have "index_of (ssr_main p) ''/?'' = None" by (rule not_escaped_index_of)
  then show ?thesis using True no by (simp add: ssr_payload_def ssr_split_def)
next
  case False
  show ?thesis using False index_of_first [OF ssr_main_parts(2) [OF assms]]
    by (simp add: ssr_payload_def ssr_split_def)
qed

lemma join_params_nonempty:
  assumes "ssr_params p \<noteq> []"
  shows "join_with ''&'' (ssr_params p) \<noteq> []"
  using assms by (auto simp: ssr_params_def split: if_splits)

lemma build_ssr_fields_main:
  assumes ok: "clash_ssr_ok p"
  shows "build_ssr_fields (ssr_main p) (if ssr_params p \<noteq> [] then join_with ''&'' (ssr_params p) else [])
    = Inr ((new_outbound ''shadowsocksr'' (cp_server p) (cp_port p))\<lparr>o_method := default_str (cp_cipher p) ''none'',
        o_password := cp_password p, o_protocol := default_str (cp_protocol p) ''origin'',
        o_obfs := default_str (cp_obfs p) ''plain'', o_obfs_param := cp_obfs_param p,
        o_protocol_param := cp_protocol_param p\<rparr>)"
proof -
  define hs where "hs = split_byte CHR '':'' (cp_server p)"
  define tail where "tail = [itoa (cp_port p), default_str (cp_protocol p) ''origin'', default_str (cp_cipher p) ''none'',
      default_str (cp_obfs p) ''plain'', b64_encode UrlEncoding (cp_password p)]"
  have parts: "split_byte CHR '':'' (ssr_main p) = hs @ tail" using ssr_main_parts(1) [OF ok] by (simp add: hs_def tail_def)
  have hs: "hs \<noteq> []" "join_with '':'' hs = cp_server p" by (simp_all add: hs_def join_split)
  have len: "length (hs @ tail) = length hs + 5" by (simp add: tail_def)
  have six: "\<not> length (hs @ tail) < 6" using hs(1) len by (cases hs) simp_all
  have nths: "(hs @ tail) ! length hs = itoa (cp_port p)" "(hs @ tail) ! (length hs + 1) = default_str (cp_protocol p) ''origin''"
    "(hs @ tail) ! (length hs + 2) = default_str (cp_cipher p) ''none''"
    "(hs @ tail) ! (length hs + 3) = default_str (cp_obfs p) ''plain''"
    "(hs @ tail) ! (length hs + 4) = b64_encode UrlEncoding (cp_password p)"
    by (simp_all add: nth_append tail_def numeral_eq_Suc)
  have idx: "length (hs @ tail) - 5 = length hs" "length (hs @ tail) - 4 = length hs + 1"
    "length (hs @ tail) - 3 = length hs + 2" "length (hs @ tail) - 2 = length hs + 3" "length (hs @ tail) - 1 = length hs + 4"
    using len by simp_all
  have port: "0 < cp_port p" "cp_port p \<le> 65535" using ok by (simp_all add: clash_ssr_ok_def)
  have q: "(if (if ssr_params p \<noteq> [] then join_with ''&'' (ssr_params p) else []) = [] then []
      else fst (parse_query (if ssr_params p \<noteq> [] then join_with ''&'' (ssr_params p) else []))) = ssr_values p"
    using parse_ssr_params [of p] join_params_nonempty [of p] by (simp add: ssr_values_def)
  show ?thesis
    unfolding build_ssr_fields_def parts Let_def idx nths q
    using six hs(2) port by (simp add: atoi_itoa ssr_base64_decode_encode ssr_optional_values)
qed

lemma ssr_payload_nonempty: "ssr_payload p \<noteq> []"
  by (simp add: ssr_payload_def ssr_main_def)

lemma clash_ssr_outbound:
  assumes ok: "clash_ssr_ok p" and t: "to_lower (cp_type p) \<in> {''ssr'', ''shadowsocksr''}"
  shows "build_node_outbound json pd tag (convert_clash_proxy p) skip
    = Inr ((new_outbound ''shadowsocksr'' (cp_server p) (cp_port p))\<lparr>o_tag := tag,
        o_method := default_str (cp_cipher p) ''none'', o_password := cp_password p,
        o_protocol := default_str (cp_protocol p) ''origin'', o_obfs := default_str (cp_obfs p) ''plain'',
        o_obfs_param := cp_obfs_param p, o_protocol_param := cp_protocol_param p\<rparr>)"
proof -
  let ?e = "b64_encode UrlEncoding (ssr_payload p)"
  have conv: "convert_clash_proxy p = ''ssr://'' @ ?e"
    using t by (auto simp: convert_clash_proxy_def build_shadowsocksr_uri_def ssr_payload_def Let_def)
  have no_ss: "\<not> is_shadowsocks_uri (''ssr://'' @ ?e)"
    by (simp add: is_shadowsocks_uri_def to_lower_def lower_char_def is_upper_def)
  have colon: "CHR '':'' \<notin> set ?e" using url_enc_unescaped by fastforce
  then have "\<not> has_prefix ?e ''SSR://''" by (auto simp: has_prefix_iff)
  then have "trim_prefix (trim_prefix (''ssr://'' @ ?e) ''ssr://'') ''SSR://'' = ?e" by (simp add: trim_prefix_def)
  moreover have "cut_before CHR ''#'' ?e = ?e" using alphabet_facts by (intro cut_before_absent) fastforce
  moreover have "trim_space ?e = ?e" using alphabet_facts by (intro trim_space_plain) blast
  ultimately have "build_shadowsocksr_options (''ssr://'' @ ?e)
      = build_ssr_fields (ssr_main p) (if ssr_params p \<noteq> [] then join_with ''&'' (ssr_params p) else [])"
    by (simp only: build_shadowsocksr_options_def Let_def ssr_base64_decode_encode option.case ssr_split_payload [OF ok]
        case_prod_conv)
  then show ?thesis unfolding conv
    using no_ss parse_ssr_url [OF ssr_payload_nonempty, of p] build_ssr_fields_main [OF ok]
    by (simp add: build_node_outbound_def parse_node_uri_def build_by_scheme_def new_outbound_def)
qed

end
