(* ===== verification/NodeIdentity.thy ===== *)
theory NodeIdentity
  imports SsrRoundTrip
begin

text \<open>
  The properties that span the subscription code and the builder: which parts of a Clash entry
  arrive in the outbound the builder makes from its URI.
\<close>

section \<open>HTTP proxies\<close>

definition http_scheme :: "clash_proxy \<Rightarrow> string" where
  "http_scheme p = (if to_lower (cp_type p) = ''http'' \<and> \<not> cp_tls p then ''http'' else ''https'')"

lemma http_scheme_facts [simp]: "plain_scheme (http_scheme p)" "to_lower (http_scheme p) = http_scheme p"
  "http_scheme p \<noteq> []" "equal_fold (http_scheme p) ''https'' \<longleftrightarrow> http_scheme p = ''https''"
  by (auto simp: http_scheme_def plain_scheme_def is_lower_def is_digit_def to_lower_def lower_char_def is_upper_def
      equal_fold_def)

definition http_user :: "clash_proxy \<Rightarrow> userinfo option" where
  "http_user p = (if cp_password p \<noteq> [] then Some (url_user_password (cp_username p) (cp_password p))
     else if cp_username p \<noteq> [] then Some (url_user (cp_username p)) else None)"

lemma http_user_fields: "user_name (http_user p) = cp_username p" "fst (user_password (http_user p)) = cp_password p"
  by (simp_all add: http_user_def) (simp_all add: user_name_def user_password_def)

lemma clash_http_outbound:
  assumes ok: "clash_node_ok p" and t: "to_lower (cp_type p) \<in> {''http'', ''https''}"
  shows "build_node_outbound json pd tag (convert_clash_proxy p) skip
    = Inr ((new_outbound ''http'' (cp_server p) (cp_port p))\<lparr>o_tag := tag, o_username := cp_username p,
        o_password := cp_password p,
        o_tls := (if http_scheme p = ''https'' then Some (tls_on (cp_server p) skip) else None)\<rparr>)"
proof -
  note okD = clash_node_okD [OF ok]
  let ?h = "join_host_port (cp_server p) (itoa (cp_port p))"
  let ?u = "node_url (http_scheme p) (http_user p) ?h [] (cp_name p)"
  have conv: "convert_clash_proxy p = url_string ?u"
    using t okD(2)
    by (auto simp: convert_clash_proxy_def build_http_proxy_uri_def Let_def http_scheme_def http_user_def node_url_def
        empty_url_def)
  have parse: "url_parse (url_string ?u) = Some ?u"
    using okD by (intro url_parse_node parse_host_join) (simp_all add: itoa_list_digits)
  obtain t where "url_string ?u = http_scheme p @ ''://'' @ t" by (simp add: url_string_node)
  then have no_ss: "\<not> is_shadowsocks_uri (url_string ?u)"
    by (simp add: is_shadowsocks_uri_def to_lower_def lower_char_def is_upper_def http_scheme_def)
  have scheme: "http_scheme p = ''http'' \<or> http_scheme p = ''https''" by (simp add: http_scheme_def)
  have build: "build_by_scheme json pd (url_string ?u) ?u skip = build_http_proxy_options ?u skip"
    using scheme by (elim disjE) (simp_all add: build_by_scheme_def Let_def to_lower_def lower_char_def is_upper_def)
  have "build_http_proxy_options ?u skip = Inr ((new_outbound ''http'' (cp_server p) (cp_port p))
      \<lparr>o_username := cp_username p, o_password := cp_password p,
        o_tls := (if http_scheme p = ''https'' then Some (tls_on (cp_server p) skip) else None)\<rparr>)"
    using okD by (simp add: build_http_proxy_options_def Let_def host_port_node http_user_fields)
  then show ?thesis unfolding conv using no_ss parse build
    by (simp add: build_node_outbound_def parse_node_uri_def new_outbound_def)
qed

section \<open>Which entries convert\<close>

definition vless_entry_ok :: "clash_proxy \<Rightarrow> bool" where
  "vless_entry_ok p \<longleftrightarrow> clash_node_ok p \<and> cp_uuid p \<noteq> [] \<and> clash_network_ok p
     \<and> to_lower (cp_flow p) \<notin> set unsupported_flows \<and> reality_ok p"

definition vmess_entry_ok :: "clash_proxy \<Rightarrow> bool" where
  "vmess_entry_ok p \<longleftrightarrow> clash_node_ok p \<and> cp_uuid p \<noteq> [] \<and> clash_network_ok p
     \<and> - (2 ^ 63) \<le> cp_alter_id p \<and> cp_alter_id p < 2 ^ 63"

definition trojan_entry_ok :: "clash_proxy \<Rightarrow> bool" where
  "trojan_entry_ok p \<longleftrightarrow> clash_node_ok p \<and> cp_password p \<noteq> [] \<and> clash_network_ok p"

definition hysteria_entry_ok :: "clash_proxy \<Rightarrow> bool" where
  "hysteria_entry_ok p \<longleftrightarrow> clash_node_ok p \<and> clash_alpn_ok p \<and> cp_up_mbps p < 2 ^ 63 \<and> cp_down_mbps p < 2 ^ 63"

text \<open>The conditions on an entry, by its type.\<close>

definition clash_convertible :: "clash_proxy \<Rightarrow> bool" where
  "clash_convertible p =
     (let t = to_lower (cp_type p)
      in if t = ''vless'' then vless_entry_ok p
         else if t = ''vmess'' then vmess_entry_ok p
         else if t = ''trojan'' then trojan_entry_ok p
         else if t = ''anytls'' then clash_node_ok p
         else if t = ''tuic'' then clash_node_ok p \<and> clash_alpn_ok p
         else if t \<in> {''hysteria2'', ''hy2''} then clash_node_ok p
         else if t = ''hysteria'' then hysteria_entry_ok p
         else if t \<in> {''ss'', ''shadowsocks''} then clash_ss_ok p
         else if t \<in> {''ssr'', ''shadowsocksr''} then clash_ssr_ok p
         else t \<in> {''http'', ''https''} \<and> clash_node_ok p)"

text \<open>The credentials an entry of each type carries: UUID, user name, password, cipher.\<close>

definition clash_credentials :: "clash_proxy \<Rightarrow> string \<times> string \<times> string \<times> string" where
  "clash_credentials p =
     (let t = to_lower (cp_type p)
      in if t = ''vless'' then (cp_uuid p, [], [], [])
         else if t = ''vmess'' then (cp_uuid p, [], [], if cp_cipher p = [] then ''auto'' else cp_cipher p)
         else if t = ''tuic'' then (cp_uuid p, [], cp_password p, [])
         else if t = ''hysteria'' then ([], [], hysteria_auth p, [])
         else if t \<in> {''ss'', ''shadowsocks''} then ([], [], cp_password p, normalize_shadowsocks_method (cp_cipher p))
         else if t \<in> {''ssr'', ''shadowsocksr''} then ([], [], cp_password p, default_str (cp_cipher p) ''none'')
         else if t \<in> {''http'', ''https''} then ([], cp_username p, cp_password p, [])
         else ([], [], cp_password p, []))"

lemma clash_type_cases:
  assumes "clash_convertible p"
  obtains
    (vless) "to_lower (cp_type p) = ''vless''" "vless_entry_ok p"
  | (vmess) "to_lower (cp_type p) = ''vmess''" "vmess_entry_ok p"
  | (trojan) "to_lower (cp_type p) = ''trojan''" "trojan_entry_ok p"
  | (anytls) "to_lower (cp_type p) = ''anytls''" "clash_node_ok p"
  | (tuic) "to_lower (cp_type p) = ''tuic''" "clash_node_ok p" "clash_alpn_ok p"
  | (hysteria2) "to_lower (cp_type p) \<in> {''hysteria2'', ''hy2''}" "clash_node_ok p"
  | (hysteria) "to_lower (cp_type p) = ''hysteria''" "hysteria_entry_ok p"
  | (ss) "to_lower (cp_type p) \<in> {''ss'', ''shadowsocks''}" "clash_ss_ok p"
  | (ssr) "to_lower (cp_type p) \<in> {''ssr'', ''shadowsocksr''}" "clash_ssr_ok p"
  | (http) "to_lower (cp_type p) \<in> {''http'', ''https''}" "clash_node_ok p"
  using assms unfolding clash_convertible_def Let_def by (metis (no_types, lifting))

lemma new_outbound_fields [simp]:
  "o_tag (new_outbound t s n) = []" "o_server (new_outbound t s n) = s" "o_port (new_outbound t s n) = of_int n"
  "o_uuid (new_outbound t s n) = []" "o_username (new_outbound t s n) = []" "o_password (new_outbound t s n) = []"
  "o_method (new_outbound t s n) = []" "o_tls (new_outbound t s n) = None"
  by (simp_all add: new_outbound_def)

definition outbound_credentials :: "outbound \<Rightarrow> string \<times> string \<times> string \<times> string" where
  "outbound_credentials ob = (o_uuid ob, o_username ob, o_password ob, o_method ob)"

lemma entry_outbounds:
  assumes "clash_convertible p"
  obtains ob where "build_node_outbound json pd tag (convert_clash_proxy p) skip = Inr ob"
    and "o_tag ob = tag" and "o_server ob = cp_server p" and "o_port ob = of_int (cp_port p)"
    and "outbound_credentials ob = clash_credentials p"
    and "\<And>tls. o_tls ob = Some tls \<Longrightarrow> tls_insecure tls
      = ((cp_skip_cert_verify p \<and> to_lower (cp_type p) \<in> {''trojan'', ''tuic'', ''hysteria2'', ''hy2'', ''hysteria''}) \<or> skip)"
    and "to_lower (cp_type p) = ''anytls'' \<Longrightarrow> o_tls ob = Some (tls_on (cp_server p) skip)"
  using assms
proof (cases rule: clash_type_cases)
  case vless
  note ok = vless(2) [unfolded vless_entry_ok_def]
  show ?thesis
    by (rule that [OF clash_vless_outbound]) (use vless(1) ok in \<open>simp_all add: outbound_credentials_def clash_credentials_def
      vless_tls_def tls_on_def Let_def split: option.splits if_splits, auto?\<close>)
next
  case vmess
  note ok = vmess(2) [unfolded vmess_entry_ok_def]
  show ?thesis
    by (rule that [OF clash_vmess_outbound]) (use vmess(1) ok in \<open>simp_all add: outbound_credentials_def clash_credentials_def
      clash_tls_def tls_on_def split: if_splits, auto?\<close>)
next
  case trojan
  note ok = trojan(2) [unfolded trojan_entry_ok_def]
  show ?thesis
    by (rule that [OF clash_trojan_outbound]) (use trojan(1) ok in \<open>simp_all add: outbound_credentials_def clash_credentials_def
      tls_on_def, auto?\<close>)
next
  case anytls
  show ?thesis
    by (rule that [OF clash_anytls_outbound]) (use anytls in \<open>simp_all add: outbound_credentials_def clash_credentials_def
      tls_on_def, auto?\<close>)
next
  case tuic
  show ?thesis
    by (rule that [OF clash_tuic_outbound]) (use tuic in \<open>simp_all add: outbound_credentials_def clash_credentials_def
      tls_on_def, auto?\<close>)
next
  case hysteria2
  show ?thesis
    by (rule that [OF clash_hysteria2_outbound]) (use hysteria2 in \<open>auto simp: outbound_credentials_def clash_credentials_def
      tls_on_def\<close>)
next
  case hysteria
  note ok = hysteria(2) [unfolded hysteria_entry_ok_def]
  show ?thesis
    by (rule that [OF clash_hysteria_outbound]) (use hysteria(1) ok in \<open>simp_all add: outbound_credentials_def
      clash_credentials_def tls_on_def, auto?\<close>)
next
  case ss
  show ?thesis
    by (rule that [OF clash_ss_outbound]) (use ss in \<open>auto simp: outbound_credentials_def clash_credentials_def\<close>)
next
  case ssr
  show ?thesis
    by (rule that [OF clash_ssr_outbound]) (use ssr in \<open>auto simp: outbound_credentials_def clash_credentials_def\<close>)
next
  case http
  show ?thesis
    by (rule that [OF clash_http_outbound]) (use http in \<open>auto simp: outbound_credentials_def clash_credentials_def
      tls_on_def split: if_splits\<close>)
qed

section \<open>The properties\<close>

text \<open>
  C28: A Clash entry keeps its identity on the way through its URI. For each of the ten protocols,
  an entry the URI formats can carry (a server that is a host name or an IPv6 address, a port in
  range, the credentials the protocol demands, a transport and flow the builder supports) is
  converted to a URI from which the builder makes an outbound with the same server, port and
  credentials, whatever bytes the credentials and the display name contain.
\<close>

theorem clash_identity_survives:
  assumes "clash_convertible p"
  shows "\<exists>ob. build_node_outbound json pd tag (convert_clash_proxy p) skip = Inr ob
    \<and> o_tag ob = tag \<and> o_server ob = cp_server p \<and> o_port ob = of_int (cp_port p)
    \<and> outbound_credentials ob = clash_credentials p"
  using assms by (rule entry_outbounds) blast

definition sample_trojan :: clash_proxy where
  "sample_trojan = empty_clash\<lparr>cp_type := ''Trojan'', cp_server := ''a.example'', cp_port := 443,
     cp_password := ''p@s/s word'', cp_name := ''#1 & 2''\<rparr>"

lemma sample_trojan_ok: "clash_convertible sample_trojan"
  by code_simp

theorem clash_identity_survives_witness:
  "\<exists>ob. build_node_outbound (\<lambda>_. None) (\<lambda>_. None) ''t'' (convert_clash_proxy sample_trojan) False = Inr ob
    \<and> o_server ob = ''a.example'' \<and> o_port ob = 443 \<and> o_password ob = ''p@s/s word''"
  using clash_identity_survives [OF sample_trojan_ok, of "\<lambda>_. None" "\<lambda>_. None" "''t''" False]
  by (auto simp: sample_trojan_def empty_clash_def outbound_credentials_def clash_credentials_def to_lower_def
      lower_char_def is_upper_def)

text \<open>
  Which entries keep their own switch for certificate checks. An outbound made from a Clash
  entry skips the check when the global setting says so; the entry's \<open>skip-cert-verify\<close> is honoured
  for Trojan, TUIC and both Hysteria versions only. A VLESS, VMess, AnyTLS or HTTPS entry loses it
  on the way, and an AnyTLS entry loses its server name and fingerprint too: its URI names no
  \<open>security\<close>, so the builder falls back to default TLS options.
\<close>

lemma clash_certificate_check:
  assumes "clash_convertible p" and "build_node_outbound json pd tag (convert_clash_proxy p) skip = Inr ob"
    and "o_tls ob = Some tls"
  shows "tls_insecure tls
      = ((cp_skip_cert_verify p \<and> to_lower (cp_type p) \<in> {''trojan'', ''tuic'', ''hysteria2'', ''hy2'', ''hysteria''}) \<or> skip)
    \<and> (if to_lower (cp_type p) = ''anytls'' then tls = tls_on (cp_server p) skip else True)"
proof -
  obtain ob' where "build_node_outbound json pd tag (convert_clash_proxy p) skip = Inr ob'"
    and insecure: "\<And>tls. o_tls ob' = Some tls \<Longrightarrow> tls_insecure tls
      = ((cp_skip_cert_verify p \<and> to_lower (cp_type p) \<in> {''trojan'', ''tuic'', ''hysteria2'', ''hy2'', ''hysteria''}) \<or> skip)"
    and anytls: "to_lower (cp_type p) = ''anytls'' \<Longrightarrow> o_tls ob' = Some (tls_on (cp_server p) skip)"
    using entry_outbounds [OF assms(1), of json pd tag skip] by blast
  then have "ob' = ob" using assms(2) by simp
  then show ?thesis using insecure [of tls] anytls assms(3) by simp
qed

definition sample_anytls :: clash_proxy where
  "sample_anytls = empty_clash\<lparr>cp_type := ''anytls'', cp_server := ''192.0.2.7'', cp_port := 8443,
     cp_password := ''pw'', cp_sni := ''cdn.example'', cp_skip_cert_verify := True\<rparr>"

lemma sample_anytls_ok: "clash_convertible sample_anytls"
  by code_simp

lemma clash_certificate_check_example:
  "\<exists>ob. build_node_outbound (\<lambda>_. None) (\<lambda>_. None) ''t'' (convert_clash_proxy sample_anytls) False = Inr ob
    \<and> o_tls ob = Some (tls_on ''192.0.2.7'' False) \<and> cp_sni sample_anytls = ''cdn.example''"
proof -
  obtain ob where ob: "build_node_outbound (\<lambda>_. None) (\<lambda>_. None) ''t'' (convert_clash_proxy sample_anytls) False = Inr ob"
    and tls: "to_lower (cp_type sample_anytls) = ''anytls'' \<Longrightarrow> o_tls ob = Some (tls_on (cp_server sample_anytls) False)"
    using entry_outbounds [OF sample_anytls_ok, of "\<lambda>_. None" "\<lambda>_. None" "''t''" False] by blast
  have t: "to_lower (cp_type sample_anytls) = ''anytls''" by (simp add: sample_anytls_def)
  have s: "cp_server sample_anytls = ''192.0.2.7''" by (simp add: sample_anytls_def)
  show ?thesis using ob clash_certificate_check [OF sample_anytls_ok ob tls [OF t]] tls [OF t] s t
    by (simp add: sample_anytls_def)
qed

end
