(* ===== verification/NodeKey.thy ===== *)
theory NodeKey
  imports GoUrlFacts ClashUri
begin

text \<open>
  The identity of a node in \<open>internal/config/config.go\<close>: \<open>stableNodeKey\<close>, which port assignments,
  session bindings and duplicate removal rest on, \<open>ExtractNodeName\<close>, the duplicate filters and
  the redaction of subscription URLs. The JSON decoder and encoder are parameters.
\<close>

section \<open>Keys and names\<close>

text \<open>What the code uses of \<open>encoding/json\<close>: an object's fields with their values left encoded, an
  object printed from its fields, and the text of a \<open>ps\<close> field.\<close>

record json_codec =
  jc_fields :: "string \<Rightarrow> (string, string) gomap option"
  jc_object :: "(string, string) gomap \<Rightarrow> string option"
  jc_ps :: "string \<Rightarrow> string option"

definition key_encodings :: "b64_encoding list" where
  "key_encodings = [StdEncoding, RawStdEncoding, UrlEncoding, RawUrlEncoding]"

fun vmess_canonical :: "json_codec \<Rightarrow> b64_encoding list \<Rightarrow> string \<Rightarrow> string option" where
  "vmess_canonical jc [] payload = None"
| "vmess_canonical jc (enc # encs) payload =
     (case b64_decode enc payload of
        None \<Rightarrow> vmess_canonical jc encs payload
      | Some decoded \<Rightarrow>
          (case jc_fields jc decoded of
             None \<Rightarrow> vmess_canonical jc encs payload
           | Some fs \<Rightarrow>
               if fs = [] then vmess_canonical jc encs payload
               else (case jc_object jc (mdel ''ps'' fs) of
                       None \<Rightarrow> vmess_canonical jc encs payload
                     | Some canonical \<Rightarrow> Some (''vmess://'' @ b64_encode RawUrlEncoding canonical))))"

definition vmess_node_key :: "json_codec \<Rightarrow> string \<Rightarrow> string" where
  "vmess_node_key jc uri0 =
     (let uri = (case index_byte uri0 CHR ''#'' of Some i \<Rightarrow> trim_space (take i uri0) | None \<Rightarrow> uri0)
      in case vmess_canonical jc key_encodings (trim_prefix uri ''vmess://'') of
           Some key \<Rightarrow> key
         | None \<Rightarrow> uri)"

definition url_node_key :: "string \<Rightarrow> string" where
  "url_node_key uri =
     (case url_parse uri of
        None \<Rightarrow> (case last_index_byte uri CHR ''#'' of Some i \<Rightarrow> trim_space (take i uri) | None \<Rightarrow> uri)
      | Some u \<Rightarrow>
          let u1 = u\<lparr>u_fragment := []\<rparr>
          in url_string (if u_raw_query u1 \<noteq> [] then u1\<lparr>u_raw_query := values_encode (url_query u1)\<rparr> else u1))"

definition stable_node_key :: "json_codec \<Rightarrow> string \<Rightarrow> string" where
  "stable_node_key jc uri0 =
     (let uri = trim_space uri0
      in if uri = [] then []
         else if has_prefix uri ''vmess://'' \<and> \<not> contains uri ''@'' then vmess_node_key jc uri
         else url_node_key uri)"

definition node_key :: "json_codec \<Rightarrow> node_config \<Rightarrow> string" where
  "node_key jc n = stable_node_key jc (nc_uri n)"

definition vmess_node_name :: "json_codec \<Rightarrow> string \<Rightarrow> string" where
  "vmess_node_name jc uri =
     (let payload = trim_space (cut_before CHR ''#'' (trim_prefix uri ''vmess://''))
      in case decode_proxy_base64 payload of
           None \<Rightarrow> []
         | Some decoded \<Rightarrow> (case jc_ps jc decoded of Some ps \<Rightarrow> (if ps \<noteq> [] then trim_space ps else []) | None \<Rightarrow> []))"

definition extract_node_name :: "json_codec \<Rightarrow> string \<Rightarrow> string" where
  "extract_node_name jc uri0 =
     (let uri = trim_space uri0
      in if has_prefix uri ''vmess://'' \<and> \<not> contains uri ''@'' then vmess_node_name jc uri
         else case last_index_byte uri CHR ''#'' of
             None \<Rightarrow> []
           | Some i \<Rightarrow>
               if i < length uri - 1
               then (let fragment = drop (i + 1) uri
                     in case path_unescape fragment of
                          Some d \<Rightarrow> (if d \<noteq> [] then trim_space d else trim_space fragment)
                        | None \<Rightarrow> trim_space fragment)
               else [])"

section \<open>Duplicates and redaction\<close>

text \<open>\<open>dedupeSubscriptionURLs\<close>: the URLs kept, and how many repeats were dropped; blank ones are not counted.\<close>

fun dedupe_urls_from :: "string set \<Rightarrow> string list \<Rightarrow> string list \<times> nat" where
  "dedupe_urls_from seen [] = ([], 0)"
| "dedupe_urls_from seen (raw # raws) =
     (let url = trim_space raw
      in if url = [] then dedupe_urls_from seen raws
         else if url \<in> seen then (let (us, n) = dedupe_urls_from seen raws in (us, n + 1))
         else (let (us, n) = dedupe_urls_from (insert url seen) raws in (url # us, n)))"

definition dedupe_subscription_urls :: "string list \<Rightarrow> string list \<times> nat" where
  "dedupe_subscription_urls urls = dedupe_urls_from {} urls"

fun dedupe_nodes_from :: "json_codec \<Rightarrow> string set \<Rightarrow> node_config list \<Rightarrow> node_config list \<times> nat" where
  "dedupe_nodes_from jc seen [] = ([], 0)"
| "dedupe_nodes_from jc seen (n0 # ns) =
     (let n = n0\<lparr>nc_uri := trim_space (nc_uri n0)\<rparr>
      in if nc_uri n = [] then (let (out, k) = dedupe_nodes_from jc seen ns in (out, k + 1))
         else let key = (if node_key jc n = [] then nc_uri n else node_key jc n)
           in if key \<in> seen then (let (out, k) = dedupe_nodes_from jc seen ns in (out, k + 1))
              else (let (out, k) = dedupe_nodes_from jc (insert key seen) ns in (n # out, k)))"

definition dedupe_nodes_by_key :: "json_codec \<Rightarrow> node_config list \<Rightarrow> node_config list \<times> nat" where
  "dedupe_nodes_by_key jc nodes = (if length nodes < 2 then (nodes, 0) else dedupe_nodes_from jc {} nodes)"

definition redact_url :: "string \<Rightarrow> string" where
  "redact_url raw =
     (case url_parse raw of
        None \<Rightarrow> ''<invalid-url>''
      | Some u0 \<Rightarrow>
          let u = u0\<lparr>u_user := None\<rparr>;
              u1 = (if u_path u \<noteq> [] \<and> u_path u \<noteq> ''/'' then u\<lparr>u_path := ''/...'', u_raw_path := []\<rparr> else u);
              u2 = (if u_raw_query u1 \<noteq> [] then u1\<lparr>u_raw_query := ''redacted=1''\<rparr> else u1)
          in url_string (u2\<lparr>u_fragment := []\<rparr>))"

section \<open>What a key depends on\<close>

text \<open>Parameters in the order they are written, and the values each name has.\<close>

type_synonym params = "(string \<times> string) list"

definition params_query :: "params \<Rightarrow> string" where
  "params_query ps = join_with ''&'' (map encode_pair ps)"

definition param_values :: "params \<Rightarrow> string \<Rightarrow> string list" where
  "param_values ps k = map snd (filter (\<lambda>p. fst p = k) ps)"

definition parsed_params :: "params \<Rightarrow> url_values" where
  "parsed_params ps = fold (\<lambda>p. values_add (fst p) (snd p)) ps []"

lemma parse_params: "fst (parse_query (params_query ps)) = parsed_params ps"
  by (simp add: params_query_def parse_query_pairs parsed_params_def)

lemma gomap_ok_values_add [simp]: "gomap_ok v \<Longrightarrow> gomap_ok (values_add k x v)"
  by (simp add: values_add_def)

lemma gomap_ok_parsed_params [simp]: "gomap_ok (parsed_params ps)"
proof -
  have "gomap_ok v \<Longrightarrow> gomap_ok (fold (\<lambda>p. values_add (fst p) (snd p)) ps v)" for v
    by (induction ps arbitrary: v) simp_all
  then show ?thesis by (simp add: parsed_params_def)
qed

lemma mget_parsed_params:
  "mget (parsed_params ps) k = (if param_values ps k = [] then None else Some (param_values ps k))"
  by (simp add: parsed_params_def mget_fold_values_add param_values_def split: list.split)

lemma values_encode_cong:
  assumes "gomap_ok v" "gomap_ok w" and same: "\<And>k. mget v k = mget w k"
  shows "values_encode v = values_encode w"
proof -
  have "mkeys v = mkeys w" using same by (metis mget_None_iff subsetI subset_antisym)
  then have "sort (map fst v) = sort (map fst w)"
    using assms(1,2) by (intro sorted_distinct_set_unique) (simp_all add: gomap_ok_def)
  then show ?thesis using same by (simp add: values_encode_def values_pairs_def)
qed

lemma values_encode_inj:
  assumes "gomap_ok v" "gomap_ok w" and same: "values_encode v = values_encode w"
    and "\<And>k. mget v k \<noteq> Some []" and "\<And>k. mget w k \<noteq> Some []"
  shows "mget v k = mget w k"
proof -
  have parsed: "fst (parse_query (values_encode x)) = parsed_params (values_pairs x)" for x
    using parse_params by (simp add: values_encode_def params_query_def)
  have get: "mget (parsed_params (values_pairs x)) k = mget x k" if "gomap_ok x" "mget x k \<noteq> Some []" for x
    using values_pairs_key [OF that(1), of k] that(2)
    by (auto simp: mget_parsed_params param_values_def split: option.splits)
  show ?thesis using get [OF assms(1,4)] get [OF assms(2,5)] parsed same by metis
qed

lemma params_encode_eq_iff:
  "values_encode (parsed_params ps) = values_encode (parsed_params qs) \<longleftrightarrow> param_values ps = param_values qs"
proof
  assume "values_encode (parsed_params ps) = values_encode (parsed_params qs)"
  then have "mget (parsed_params ps) k = mget (parsed_params qs) k" for k
    using values_encode_inj [of "parsed_params ps" "parsed_params qs" k] by (simp add: mget_parsed_params)
  then show "param_values ps = param_values qs" using mget_parsed_params by (intro ext) (metis option.distinct(1) option.inject)
next
  assume "param_values ps = param_values qs"
  then show "values_encode (parsed_params ps) = values_encode (parsed_params qs)"
    by (intro values_encode_cong) (simp_all add: mget_parsed_params)
qed


section \<open>Keys of printed URIs\<close>

definition node_uri :: "string \<Rightarrow> userinfo option \<Rightarrow> string \<Rightarrow> params \<Rightarrow> string \<Rightarrow> string" where
  "node_uri sc us h ps f = url_string (node_url sc us h (params_query ps) f)"

definition node_uri_ok :: "string \<Rightarrow> userinfo option \<Rightarrow> string \<Rightarrow> bool" where
  "node_uri_ok sc us h \<longleftrightarrow> plain_scheme sc \<and> h \<noteq> [] \<and> parse_host (url_escape EncodeHost h) = Some h \<and>
     (sc = ''vmess'' \<longrightarrow> us \<noteq> None)"

lemma escape_no_space: "c \<in> set (url_escape m s) \<Longrightarrow> \<not> is_space c"
  using url_escape_set [of c m s] escape_no_ctl [of c m s] space_escaped [of m]
  by (auto simp: is_space_def is_ctl_def)

lemma params_query_clean: "CHR ''#'' \<notin> set (params_query ps)" "CHR ''?'' \<notin> set (params_query ps)"
  using set_join_with [of "''&''" "map encode_pair ps"] encode_pair_clean by (auto simp: params_query_def)

lemma params_query_plain: "c \<in> set (params_query ps) \<Longrightarrow> \<not> is_ctl c \<and> \<not> is_space c"
proof -
  assume "c \<in> set (params_query ps)"
  then have "c = CHR ''&'' \<or> (\<exists>p. c \<in> set (encode_pair p))"
    using set_join_with [of "''&''" "map encode_pair ps"] by (auto simp: params_query_def)
  then have "c = CHR ''&'' \<or> c = CHR ''='' \<or> (\<exists>s. c \<in> set (url_escape EncodeQueryComponent s))"
    by (auto simp: encode_pair_def)
  then show ?thesis using escape_no_ctl [of c] escape_no_space [of c] by (auto simp: is_ctl_def is_space_def)
qed

lemma params_query_Nil [simp]: "params_query ps = [] \<longleftrightarrow> ps = []"
  by (cases ps rule: remdups_adj.cases) (simp_all add: params_query_def encode_pair_def)

lemma params_query_Nil' [simp]: "params_query [] = []"
  by simp

lemma node_uri_shape:
  assumes "node_uri_ok sc us h"
  shows "node_uri sc us h ps f = sc @ CHR '':'' # ''//'' @ user_prefix us @ url_escape EncodeHost h
    @ query_suffix (params_query ps) @ fragment_suffix f"
  using assms by (simp add: node_uri_def node_uri_ok_def url_string_node plain_scheme_def)

lemma alnum_not_space: "is_alnum c \<Longrightarrow> \<not> is_space c"
  by (auto simp: is_alnum_def is_space_def is_upper_def is_lower_def is_digit_def)

lemma node_uri_no_space:
  assumes ok: "node_uri_ok sc us h" and c: "c \<in> set (node_uri sc us h ps f)"
  shows "\<not> is_space c"
proof -
  have "plain_scheme sc" using ok by (simp add: node_uri_ok_def)
  then have "c \<in> set sc \<Longrightarrow> \<not> is_space c"
    using plain_scheme_chars alnum_not_space by blast
  moreover have "c \<in> set (user_prefix us) \<Longrightarrow> \<not> is_space c"
    using escape_no_space by (auto simp: user_prefix_def userinfo_string_def is_space_def split: option.splits)
  moreover have "c \<in> set (query_suffix (params_query ps)) \<Longrightarrow> \<not> is_space c"
    using params_query_plain by (auto simp: query_suffix_def is_space_def split: if_splits)
  moreover have "c \<in> set (fragment_suffix f) \<Longrightarrow> \<not> is_space c"
    using escape_no_space by (auto simp: fragment_suffix_def is_space_def split: if_splits)
  ultimately show ?thesis using c escape_no_space by (auto simp: node_uri_shape [OF ok] is_space_def)
qed

lemma prefix_scheme: "CHR '':'' \<notin> set sc \<Longrightarrow> has_prefix (sc @ CHR '':'' # r) (''vmess'' @ '':'' @ t) \<Longrightarrow> sc = ''vmess''"
proof -
  assume a: "CHR '':'' \<notin> set sc" "has_prefix (sc @ CHR '':'' # r) (''vmess'' @ '':'' @ t)"
  then obtain u where "sc @ CHR '':'' # r = ''vmess'' @ CHR '':'' # t @ u" by (auto simp: has_prefix_iff)
  then have "(sc, r, True) = (''vmess'', t @ u, True)"
    using cut_byte_append [OF a(1), of r] cut_byte_append [of "CHR '':''" "''vmess''" "t @ u"] by simp
  then show ?thesis by simp
qed

lemma node_uri_not_encoded:
  assumes ok: "node_uri_ok sc us h"
  shows "\<not> (has_prefix (node_uri sc us h ps f) ''vmess://'' \<and> \<not> contains (node_uri sc us h ps f) ''@'')"
proof
  assume a: "has_prefix (node_uri sc us h ps f) ''vmess://'' \<and> \<not> contains (node_uri sc us h ps f) ''@''"
  have "CHR '':'' \<notin> set sc" using ok plain_scheme_chars [of sc "CHR '':''"] by (auto simp: node_uri_ok_def)
  moreover have "has_prefix (sc @ CHR '':'' # drop (length sc + 1) (node_uri sc us h ps f)) (''vmess'' @ '':'' @ ''//'')"
    using a by (simp add: node_uri_shape [OF ok])
  ultimately have "sc = ''vmess''" by (rule prefix_scheme)
  then obtain ui where "us = Some ui" using ok by (auto simp: node_uri_ok_def)
  then have "node_uri sc us h ps f = (sc @ CHR '':'' # ''//'' @ userinfo_string ui) @ ''@'' @ url_escape EncodeHost h
    @ query_suffix (params_query ps) @ fragment_suffix f"
    unfolding node_uri_shape [OF ok] by (simp add: user_prefix_def)
  then have "contains (node_uri sc us h ps f) ''@''" unfolding contains_iff by blast
  then show False using a by simp
qed

lemma node_url_no_fragment: "(node_url sc us h q f)\<lparr>u_fragment := []\<rparr> = node_url sc us h q []"
  by (simp add: node_url_def empty_url_def)

lemma node_url_query: "(node_url sc us h q f)\<lparr>u_raw_query := q'\<rparr> = node_url sc us h q' f"
  by (simp add: node_url_def empty_url_def)

lemma stable_key_node_uri:
  assumes ok: "node_uri_ok sc us h"
  shows "stable_node_key jc (node_uri sc us h ps f)
    = url_string (node_url sc us h (values_encode (parsed_params ps)) [])"
proof -
  let ?uri = "node_uri sc us h ps f"
  have trim: "trim_space ?uri = ?uri"
    using node_uri_no_space [OF ok] by (intro trim_space_plain) blast
  have "?uri \<noteq> []" by (simp add: node_uri_shape [OF ok])
  then have key: "stable_node_key jc ?uri = url_node_key ?uri"
    using node_uri_not_encoded [OF ok, of ps f] by (auto simp: stable_node_key_def trim Let_def)
  have parse: "url_parse ?uri = Some (node_url sc us h (params_query ps) f)"
    using ok params_query_clean params_query_plain unfolding node_uri_def node_uri_ok_def
    by (intro url_parse_node) auto
  have "values_encode (parsed_params []) = []"
    by (simp add: parsed_params_def values_encode_def values_pairs_def)
  then show ?thesis using parse
    by (simp add: key url_node_key_def Let_def node_url_no_fragment node_url_query url_query_def parse_params)
qed

lemma url_string_inj:
  assumes "node_uri_ok sc us h" "node_uri_ok sc' us' h'"
    and same: "url_string (node_url sc us h (values_encode v) f) = url_string (node_url sc' us' h' (values_encode w) f')"
  shows "sc = sc' \<and> us = us' \<and> h = h' \<and> values_encode v = values_encode w"
proof -
  have parse: "url_parse (url_string (node_url sc us h (values_encode v) f)) = Some (node_url sc us h (values_encode v) f)"
    if "node_uri_ok sc us h" for sc us h v f
  proof -
    have "plain_scheme sc" "h \<noteq> []" "parse_host (url_escape EncodeHost h) = Some h"
      using that unfolding node_uri_ok_def by blast+
    from url_parse_node [OF this values_encode_clean values_encode_no_ctl] show ?thesis .
  qed
  have "node_url sc us h (values_encode v) f = node_url sc' us' h' (values_encode w) f'"
    using arg_cong [OF same, of url_parse] by (simp only: parse [OF assms(1)] parse [OF assms(2)] option.inject)
  then have "u_scheme (node_url sc us h (values_encode v) f) = u_scheme (node_url sc' us' h' (values_encode w) f')"
    "u_user (node_url sc us h (values_encode v) f) = u_user (node_url sc' us' h' (values_encode w) f')"
    "u_host (node_url sc us h (values_encode v) f) = u_host (node_url sc' us' h' (values_encode w) f')"
    "u_raw_query (node_url sc us h (values_encode v) f) = u_raw_query (node_url sc' us' h' (values_encode w) f')"
    by (simp_all only:)
  then show ?thesis unfolding node_url_simps by blast
qed

text \<open>Links whose part after the scheme is an encoded JSON object.\<close>

definition encoded_link :: "b64_encoding \<Rightarrow> string \<Rightarrow> string" where
  "encoded_link enc doc = ''vmess://'' @ b64_encode enc doc"

lemma encoded_link_plain: "c \<in> set (encoded_link enc doc) \<Longrightarrow> c \<noteq> CHR ''@'' \<and> c \<noteq> CHR ''#'' \<and> \<not> is_space c"
proof -
  have letters: "set std_alphabet \<union> set url_alphabet \<subseteq> {c. c \<noteq> CHR ''@'' \<and> c \<noteq> CHR ''#'' \<and> \<not> is_space c}"
    by (auto simp: std_alphabet_def url_alphabet_def b64_common_def is_space_def)
  have "set (b64_encode enc doc) \<subseteq> set std_alphabet \<union> set url_alphabet \<union> {CHR ''=''}"
    using std.encode_chars [of True doc] std.encode_chars [of False doc] url.encode_chars [of True doc] url.encode_chars [of False doc]
    by (cases enc) (auto simp: b64_encode_def)
  then show "c \<in> set (encoded_link enc doc) \<Longrightarrow> c \<noteq> CHR ''@'' \<and> c \<noteq> CHR ''#'' \<and> \<not> is_space c"
    using letters by (fastforce simp: encoded_link_def is_space_def)
qed

lemma vmess_canonical_any:
  assumes "jc_fields jc doc = Some fs" "fs \<noteq> []" "jc_object jc (mdel ''ps'' fs) = Some obj" "enc \<in> set encs"
  shows "vmess_canonical jc encs (b64_encode enc doc) = Some (''vmess://'' @ b64_encode RawUrlEncoding obj)"
  using assms(4)
proof (induction encs)
  case (Cons e encs)
  show ?case
  proof (cases "b64_decode e (b64_encode enc doc)")
    case None
    then have "enc \<noteq> e" using b64_decode_encode by auto
    then show ?thesis using Cons None by simp
  next
    case (Some r)
    then have "r = doc" using b64_decode_agree b64_decode_encode by blast
    then show ?thesis using Some assms(1-3) by simp
  qed
qed simp

lemma encoded_link_key:
  assumes "jc_fields jc doc = Some fs" "fs \<noteq> []" "jc_object jc (mdel ''ps'' fs) = Some obj"
  shows "stable_node_key jc (encoded_link enc doc) = ''vmess://'' @ b64_encode RawUrlEncoding obj"
proof -
  let ?l = "encoded_link enc doc"
  have trim: "trim_space ?l = ?l" using encoded_link_plain by (intro trim_space_plain) blast
  have "CHR ''@'' \<notin> set ?l" "CHR ''#'' \<notin> set ?l" using encoded_link_plain by blast+
  then have no: "\<not> contains ?l ''@''" "index_byte ?l CHR ''#'' = None" by (auto simp: contains_iff)
  have prefix: "has_prefix ?l ''vmess://''" "trim_prefix ?l ''vmess://'' = b64_encode enc doc" "?l \<noteq> []"
    by (simp_all add: encoded_link_def has_prefix_iff trim_prefix_def)
  have "enc \<in> set key_encodings" by (cases enc) (simp_all add: key_encodings_def)
  from vmess_canonical_any [OF assms this] show ?thesis
    by (simp add: stable_node_key_def vmess_node_key_def trim no prefix)
qed

text \<open>C24: Two URIs that are printed from a scheme, user information, server, parameters and a display name, as the code prints the
  nodes of a Clash document, have the same key exactly when they agree on scheme, user information, server and on the
  values of every parameter: the display name and the order of different parameters do not count. Two links that encode a JSON object,
  in whichever of the four encodings, have the same key exactly when the objects are the same without the display name.\<close>

theorem node_key_identity:
  assumes "node_uri_ok sc us h" and "node_uri_ok sc' us' h'"
    and "jc_fields jc doc = Some fs \<and> fs \<noteq> [] \<and> jc_object jc (mdel ''ps'' fs) = Some obj"
    and "jc_fields jc doc' = Some fs' \<and> fs' \<noteq> [] \<and> jc_object jc (mdel ''ps'' fs') = Some obj'"
  shows "(stable_node_key jc (node_uri sc us h ps f) = stable_node_key jc (node_uri sc' us' h' qs g)
      \<longleftrightarrow> sc = sc' \<and> us = us' \<and> h = h' \<and> param_values ps = param_values qs)
    \<and> (stable_node_key jc (encoded_link enc doc) = stable_node_key jc (encoded_link enc' doc') \<longleftrightarrow> obj = obj')"
proof (intro conjI)
  show "stable_node_key jc (node_uri sc us h ps f) = stable_node_key jc (node_uri sc' us' h' qs g)
      \<longleftrightarrow> sc = sc' \<and> us = us' \<and> h = h' \<and> param_values ps = param_values qs"
    using url_string_inj [OF assms(1,2), of "parsed_params ps" "[]" "parsed_params qs" "[]"] params_encode_eq_iff [of ps qs]
    by (auto simp: stable_key_node_uri [OF assms(1)] stable_key_node_uri [OF assms(2)])
  have "obj = obj'" if "b64_encode RawUrlEncoding obj = b64_encode RawUrlEncoding obj'"
    using that by (metis b64_decode_encode option.inject)
  note same = this
  show "stable_node_key jc (encoded_link enc doc) = stable_node_key jc (encoded_link enc' doc') \<longleftrightarrow> obj = obj'"
    unfolding encoded_link_key [OF assms(3) [THEN conjunct1] assms(3) [THEN conjunct2, THEN conjunct1] assms(3) [THEN conjunct2, THEN conjunct2]]
      encoded_link_key [OF assms(4) [THEN conjunct1] assms(4) [THEN conjunct2, THEN conjunct1] assms(4) [THEN conjunct2, THEN conjunct2]]
      same_append_eq by (rule iffI [OF same]) simp_all
qed

definition no_json :: json_codec where
  "no_json = \<lparr>jc_fields = (\<lambda>_. None), jc_object = (\<lambda>_. None), jc_ps = (\<lambda>_. None)\<rparr>"

definition sample_user :: "userinfo option" where "sample_user = Some (url_user ''u1'')"

text \<open>A codec for the example: a document is the text of a field \<open>add\<close> and, after a space, of the name.\<close>

definition toy_json :: json_codec where
  "toy_json = \<lparr>jc_fields = (\<lambda>s. Some [(''add'', cut_before CHR '' '' s), (''ps'', drop (Suc (length (cut_before CHR '' '' s))) s)]),
     jc_object = (\<lambda>fs. mget fs ''add''), jc_ps = (\<lambda>_. None)\<rparr>"

theorem node_key_identity_witness:
  "stable_node_key toy_json (node_uri ''vless'' sample_user ''a.b:443'' [(''type'', ''ws''), (''sni'', ''x'')] ''Old'')
     = stable_node_key toy_json (node_uri ''vless'' sample_user ''a.b:443'' [(''sni'', ''x''), (''type'', ''ws'')] ''New 1'')
   \<and> stable_node_key toy_json (node_uri ''vless'' sample_user ''a.b:443'' [(''sni'', ''x'')] ''N'')
     \<noteq> stable_node_key toy_json (node_uri ''vless'' sample_user ''a.b:443'' [(''sni'', ''y'')] ''N'')
   \<and> stable_node_key toy_json (encoded_link StdEncoding ''host Old'') = stable_node_key toy_json (encoded_link RawUrlEncoding ''host New'')"
proof -
  have ok: "node_uri_ok ''vless'' sample_user ''a.b:443''" 
    unfolding node_uri_ok_def
  proof (intro conjI)
    have "good_server ''a.b''" and "list_all is_digit ''443''"
      by (simp_all add: good_server_def host_char_def should_escape_def is_digit_def is_alnum_def is_lower_def)
    then show "parse_host (url_escape EncodeHost ''a.b:443'') = Some ''a.b:443''"
      using parse_host_join [of "''a.b''" "''443''"] by (simp add: join_host_port_def)
  qed (simp_all add: plain_scheme_def is_lower_def is_digit_def)
  have same: "param_values [(''type'', ''ws''), (''sni'', ''x'')] = param_values [(''sni'', ''x''), (''type'', ''ws'')]"
    by (auto simp: param_values_def)
  have "param_values [(''sni'', ''x'')] ''sni'' \<noteq> param_values [(''sni'', ''y'')] ''sni''"
    by (simp add: param_values_def)
  then have differ: "param_values [(''sni'', ''x'')] \<noteq> param_values [(''sni'', ''y'')]" by metis
  have json: "jc_fields toy_json doc = Some [(''add'', ''host''), (''ps'', n)] \<and> [(''add'', ''host''), (''ps'', n)] \<noteq> []
      \<and> jc_object toy_json (mdel ''ps'' [(''add'', ''host''), (''ps'', n)]) = Some ''host''"
    if "(doc, n) \<in> {(''host Old'', ''Old''), (''host New'', ''New'')}" for doc n
    using that by (auto simp: toy_json_def cut_before_takeWhile)
  have old: "(''host Old'', ''Old'') \<in> {(''host Old'', ''Old''), (''host New'', ''New'')}"
    and new: "(''host New'', ''New'') \<in> {(''host Old'', ''Old''), (''host New'', ''New'')}" by simp_all
  note key = node_key_identity [OF ok ok json [OF old] json [OF new]]
  show ?thesis by (simp only: key [THEN conjunct1] key [THEN conjunct2] same differ simp_thms)
qed

end
