(* ===== verification/ConfigTypes.thy ===== *)
theory ConfigTypes
  imports NodeKey
begin

text \<open>
  The configuration of \<open>internal/config/config.go\<close>: its records, defaults and validation, with
  the parts of \<open>path/filepath\<close> and \<open>net/netip\<close> they use. A pointer that may be unset is an option,
  ports are 16-bit words, durations are integers in nanoseconds.
\<close>

section \<open>Paths\<close>

text \<open>\<open>filepath.Clean\<close> for slash-separated paths: the components kept, last one first.\<close>

fun clean_parts :: "bool \<Rightarrow> string list \<Rightarrow> string list \<Rightarrow> string list" where
  "clean_parts rooted out [] = rev out"
| "clean_parts rooted out (p # ps) =
     (if p = [] \<or> p = ''.'' then clean_parts rooted out ps
      else if p = ''..''
      then (case out of
              [] \<Rightarrow> clean_parts rooted (if rooted then [] else [''..'']) ps
            | q # qs \<Rightarrow> clean_parts rooted (if q = ''..'' then ''..'' # out else qs) ps)
      else clean_parts rooted (p # out) ps)"

definition path_is_abs :: "string \<Rightarrow> bool" where
  "path_is_abs p \<longleftrightarrow> has_prefix p ''/''"

definition path_clean :: "string \<Rightarrow> string" where
  "path_clean p =
     (let r = (if path_is_abs p then ''/'' else []) @ join_with ''/'' (clean_parts (path_is_abs p) [] (split_byte CHR ''/'' p))
      in if r = [] then ''.'' else r)"

definition path_dir :: "string \<Rightarrow> string" where
  "path_dir p = path_clean (case last_index_byte p CHR ''/'' of Some i \<Rightarrow> take (i + 1) p | None \<Rightarrow> [])"

definition path_join :: "string \<Rightarrow> string \<Rightarrow> string" where
  "path_join a b =
     (let parts = filter (\<lambda>s. s \<noteq> []) [a, b] in if parts = [] then [] else path_clean (join_with ''/'' parts))"

section \<open>Records\<close>

record listener_config =
  li_address :: string
  li_port :: "16 word"
  li_username :: string
  li_password :: string

record sticky_config =
  sk_enabled :: bool
  sk_port :: "16 word"
  sk_session_enabled :: "bool option"
  sk_session_ttl :: duration
  sk_max_sessions :: int

record pool_config =
  pl_mode :: string
  pl_failure_threshold :: int
  pl_blacklist_duration :: duration
  pl_transient_cooldown :: duration
  pl_rate_limit_cooldown :: duration
  pl_retry_enabled :: "bool option"
  pl_blacklist_failed_pin :: "bool option"
  pl_retry_attempts :: int

record multi_port_config =
  mp_address :: string
  mp_base_port :: "16 word"
  mp_username :: string
  mp_password :: string

record management_config =
  mg_enabled :: "bool option"
  mg_listen :: string
  mg_probe_target :: string
  mg_password :: string
  mg_probe_concurrency :: int

record refresh_config =
  rf_enabled :: bool
  rf_interval :: duration
  rf_timeout :: duration
  rf_health_check_timeout :: duration
  rf_drain_timeout :: duration
  rf_min_available_nodes :: int
  rf_fetch_concurrency :: int

record geoip_config =
  ge_enabled :: bool
  ge_database_path :: string
  ge_listen :: string
  ge_port :: "16 word"
  ge_auto_update_enabled :: bool
  ge_auto_update_interval :: duration

record log_config =
  lg_output :: string
  lg_file :: string
  lg_max_size :: int
  lg_max_backups :: int
  lg_max_age :: int
  lg_compress :: bool

record config =
  c_mode :: string
  c_listener :: listener_config
  c_multi_port :: multi_port_config
  c_pool :: pool_config
  c_sticky :: sticky_config
  c_management :: management_config
  c_refresh :: refresh_config
  c_geoip :: geoip_config
  c_log :: log_config
  c_nodes :: "node_config list"
  c_nodes_file :: string
  c_subscriptions :: "string list"
  c_external_ip :: string
  c_log_level :: string
  c_skip_cert_verify :: bool
  c_file_path :: string

definition source_inline :: string where "source_inline = ''inline''"
definition source_file :: string where "source_file = ''nodes_file''"
definition source_subscription :: string where "source_subscription = ''subscription''"

datatype config_error =
    UnsupportedMode string | UnsupportedPoolMode | NoNodes | MissingUri nat
  | ListenerConflict string "16 word" | NoPorts "16 word"
  | StickyTtlRange | StickySessionsRange | StickyNoAutoPort | StickyOnListener | StickyOnNode string
  | NodesFileError string | RestorePorts config_error
  | InvalidMode | InvalidAddress string | InvalidManagementListen | NegativePoolCount | NegativePoolDuration
  | ProbeConcurrencyRange | GeoipOnSticky | NilConfig | NoFilePath

section \<open>Small accessors\<close>

definition default_session_ttl :: duration where "default_session_ttl = 24 * hour"
definition default_max_sessions :: int where "default_max_sessions = 10000"
definition max_session_capacity :: int where "max_session_capacity = 100000"
definition max_session_ttl :: duration where "max_session_ttl = 365 * 24 * hour"

definition session_routing_enabled :: "sticky_config \<Rightarrow> bool" where
  "session_routing_enabled s \<longleftrightarrow> (case sk_session_enabled s of None \<Rightarrow> True | Some b \<Rightarrow> b)"

definition session_ttl_or_default :: "sticky_config \<Rightarrow> duration" where
  "session_ttl_or_default s = (if sk_session_ttl s \<le> 0 then default_session_ttl else sk_session_ttl s)"

definition max_sessions_or_default :: "sticky_config \<Rightarrow> int" where
  "max_sessions_or_default s = (if sk_max_sessions s \<le> 0 then default_max_sessions else sk_max_sessions s)"

definition retry_enabled_or_default :: "pool_config \<Rightarrow> bool" where
  "retry_enabled_or_default p \<longleftrightarrow> (case pl_retry_enabled p of None \<Rightarrow> True | Some b \<Rightarrow> b)"

definition blacklist_failed_pin_or_default :: "pool_config \<Rightarrow> bool" where
  "blacklist_failed_pin_or_default p \<longleftrightarrow> (case pl_blacklist_failed_pin p of None \<Rightarrow> True | Some b \<Rightarrow> b)"

definition management_enabled :: "config \<Rightarrow> bool" where
  "management_enabled c \<longleftrightarrow> (case mg_enabled (c_management c) of None \<Rightarrow> True | Some b \<Rightarrow> b)"

definition probe_concurrency_or_default :: "config \<Rightarrow> int" where
  "probe_concurrency_or_default c =
     (let v = mg_probe_concurrency (c_management c) in if v \<le> 0 then 32 else if v > 1024 then 1024 else v)"

definition normalize_fetch_concurrency :: "int \<Rightarrow> int" where
  "normalize_fetch_concurrency v = (if v \<le> 0 then 16 else if v > 32 then 32 else v)"

definition min_duration :: "duration \<Rightarrow> duration \<Rightarrow> duration" where
  "min_duration a b = (if a \<le> 0 then b else if a < b then a else b)"

definition normalize_pool_mode :: "string \<Rightarrow> string option" where
  "normalize_pool_mode mode =
     (let m = to_lower (trim_space mode)
      in if m = [] \<or> m = ''sequential'' \<or> m = ''round-robin'' \<or> m = ''round_robin'' then Some ''sequential''
         else if m = ''random'' then Some ''random''
         else if m = ''balance'' then Some ''balance''
         else if m = ''latency'' then Some ''latency''
         else None)"

section \<open>Defaults\<close>

definition canonical_mode :: "string \<Rightarrow> string" where
  "canonical_mode m = (if m = [] then ''pool'' else if m = ''multi_port'' then ''multi-port'' else m)"

definition per_node_ports :: "config \<Rightarrow> bool" where
  "per_node_ports c \<longleftrightarrow> c_mode c = ''multi-port'' \<or> c_mode c = ''hybrid''"

definition shared_listener :: "config \<Rightarrow> bool" where
  "shared_listener c \<longleftrightarrow> c_mode c = ''pool'' \<or> c_mode c = ''hybrid''"

definition or_text :: "string \<Rightarrow> string \<Rightarrow> string" where
  "or_text s d = (if s = [] then d else s)"

definition or_positive :: "int \<Rightarrow> int \<Rightarrow> int" where
  "or_positive v d = (if v \<le> 0 then d else v)"

definition or_port :: "16 word \<Rightarrow> 16 word \<Rightarrow> 16 word" where
  "or_port p d = (if p = 0 then d else p)"

definition default_pool :: "string \<Rightarrow> pool_config \<Rightarrow> pool_config" where
  "default_pool mode p =
     (let transient = or_positive (pl_transient_cooldown p) (60 * second)
      in p\<lparr>pl_mode := mode,
           pl_failure_threshold := or_positive (pl_failure_threshold p) 3,
           pl_blacklist_duration := or_positive (pl_blacklist_duration p) (24 * hour),
           pl_transient_cooldown := transient,
           pl_rate_limit_cooldown := or_positive (pl_rate_limit_cooldown p) transient,
           pl_retry_attempts := or_positive (pl_retry_attempts p) 3\<rparr>)"

definition default_refresh :: "refresh_config \<Rightarrow> refresh_config" where
  "default_refresh r = r\<lparr>rf_interval := or_positive (rf_interval r) hour,
     rf_timeout := or_positive (rf_timeout r) (30 * second),
     rf_health_check_timeout := or_positive (rf_health_check_timeout r) (60 * second),
     rf_drain_timeout := or_positive (rf_drain_timeout r) (30 * second),
     rf_min_available_nodes := or_positive (rf_min_available_nodes r) 1,
     rf_fetch_concurrency := normalize_fetch_concurrency (rf_fetch_concurrency r)\<rparr>"

text \<open>The checks and defaults that \<open>normalize\<close> and \<open>NormalizeWithPortMap\<close> begin with.\<close>

definition apply_defaults :: "config \<Rightarrow> config_error + config" where
  "apply_defaults c =
     (let mode = canonical_mode (c_mode c)
      in if mode \<notin> {''pool'', ''multi-port'', ''hybrid''} then Inl (UnsupportedMode mode)
         else case normalize_pool_mode (pl_mode (c_pool c)) of
             None \<Rightarrow> Inl UnsupportedPoolMode
           | Some pool_mode \<Rightarrow> Inr (c\<lparr>
               c_mode := mode,
               c_listener := (c_listener c)\<lparr>li_address := or_text (li_address (c_listener c)) ''0.0.0.0'',
                 li_port := or_port (li_port (c_listener c)) 2323\<rparr>,
               c_pool := default_pool pool_mode (c_pool c),
               c_multi_port := (c_multi_port c)\<lparr>mp_address := or_text (mp_address (c_multi_port c)) ''0.0.0.0'',
                 mp_base_port := or_port (mp_base_port (c_multi_port c)) 24000\<rparr>,
               c_management := (c_management c)\<lparr>mg_listen := or_text (mg_listen (c_management c)) ''127.0.0.1:9091'',
                 mg_probe_target := or_text (mg_probe_target (c_management c)) ''www.apple.com:80'',
                 mg_enabled := (case mg_enabled (c_management c) of None \<Rightarrow> Some True | Some b \<Rightarrow> Some b)\<rparr>,
               c_refresh := default_refresh (c_refresh c)\<rparr>))"

definition normalize_log_config :: "config \<Rightarrow> config" where
  "normalize_log_config c =
     (let l = c_log c; file = or_text (lg_file l) ''logs/easy_proxies.log''
      in c\<lparr>c_log := l\<lparr>lg_output := or_text (lg_output l) ''stdout'',
             lg_file := (if c_file_path c \<noteq> [] \<and> \<not> path_is_abs file then path_join (path_dir (c_file_path c)) file else file),
             lg_max_size := or_positive (lg_max_size l) 50,
             lg_max_backups := or_positive (lg_max_backups l) 3,
             lg_max_age := or_positive (lg_max_age l) 7\<rparr>\<rparr>)"

definition normalize_sticky :: "config \<Rightarrow> config_error + config" where
  "normalize_sticky c =
     (let s0 = c_sticky c
      in if sk_session_ttl s0 < 0 \<or> sk_session_ttl s0 > max_session_ttl then Inl StickyTtlRange
         else if sk_max_sessions s0 < 0 \<or> sk_max_sessions s0 > max_session_capacity then Inl StickySessionsRange
         else let s = s0\<lparr>sk_session_ttl := session_ttl_or_default s0, sk_max_sessions := max_sessions_or_default s0\<rparr>
           in if \<not> sk_enabled s then Inr (c\<lparr>c_sticky := s\<rparr>)
              else if \<not> shared_listener c then Inr (c\<lparr>c_sticky := s\<lparr>sk_enabled := False\<rparr>\<rparr>)
              else if sk_port s = 0 \<and> li_port (c_listener c) = 65535 then Inl StickyNoAutoPort
              else let port = (if sk_port s = 0 then li_port (c_listener c) + 1 else sk_port s)
                in if port = li_port (c_listener c) then Inl StickyOnListener
                   else case find (\<lambda>n. nc_port n = port) (c_nodes c) of
                       Some n \<Rightarrow> Inl (StickyOnNode (nc_name n))
                     | None \<Rightarrow> Inr (c\<lparr>c_sticky := s\<lparr>sk_port := port\<rparr>\<rparr>))"

text \<open>\<open>netip.ParseAddr\<close> accepts an IPv4 or IPv6 address.\<close>

definition is_address :: "string \<Rightarrow> bool" where
  "is_address s \<longleftrightarrow> is_ipv4 s \<or> is_ip_literal6 s"

text \<open>The three addresses are checked in the order of a map's keys, so which of several wrong ones is
  reported is open; here the first of this list.\<close>

definition first_bad_address :: "config \<Rightarrow> string option" where
  "first_bad_address c = map_option fst (find (\<lambda>(_, v). v \<noteq> [] \<and> \<not> is_address v)
     [(''listener.address'', li_address (c_listener c)), (''multi_port.address'', mp_address (c_multi_port c)),
      (''geoip.listen'', ge_listen (c_geoip c))])"

definition management_listen_ok :: "string \<Rightarrow> bool" where
  "management_listen_ok l \<longleftrightarrow>
     (case split_host_port l of
        None \<Rightarrow> False
      | Some (_, port) \<Rightarrow> (case atoi port of Some n \<Rightarrow> 1 \<le> n \<and> n \<le> 65535 | None \<Rightarrow> False))"

definition validate_management_settings :: "config \<Rightarrow> config_error option" where
  "validate_management_settings c =
     (if c_mode c \<notin> {[], ''pool'', ''multi-port'', ''multi_port'', ''hybrid''} then Some InvalidMode
      else if normalize_pool_mode (pl_mode (c_pool c)) = None then Some UnsupportedPoolMode
      else case first_bad_address c of
          Some name \<Rightarrow> Some (InvalidAddress name)
        | None \<Rightarrow>
          (let p = c_pool c; s = c_sticky c; lp = or_port (li_port (c_listener c)) 2323
           in if mg_listen (c_management c) \<noteq> [] \<and> \<not> management_listen_ok (mg_listen (c_management c))
              then Some InvalidManagementListen
              else if pl_failure_threshold p < 0 \<or> pl_retry_attempts p < 0 then Some NegativePoolCount
              else if pl_blacklist_duration p < 0 \<or> pl_transient_cooldown p < 0 \<or> pl_rate_limit_cooldown p < 0
              then Some NegativePoolDuration
              else if mg_probe_concurrency (c_management c) < 0 \<or> mg_probe_concurrency (c_management c) > 1024
              then Some ProbeConcurrencyRange
              else if sk_session_ttl s < 0 \<or> sk_session_ttl s > max_session_ttl then Some StickyTtlRange
              else if sk_max_sessions s < 0 \<or> sk_max_sessions s > max_session_capacity then Some StickySessionsRange
              else if sk_enabled s \<and> c_mode c \<in> {''pool'', ''hybrid'', []} \<and> sk_port s \<noteq> 0 \<and> sk_port s = lp
              then Some StickyOnListener
              else if sk_enabled s \<and> c_mode c \<in> {''pool'', ''hybrid'', []} \<and> sk_port s = 0 \<and> lp = 65535
              then Some StickyNoAutoPort
              else if ge_enabled (c_geoip c) \<and> ge_port (c_geoip c) \<noteq> 0 \<and> ge_port (c_geoip c) = sk_port s \<and> sk_enabled s
              then Some GeoipOnSticky
              else None))"

section \<open>Reserved ports\<close>

definition geoip_router_port :: "config \<Rightarrow> 16 word" where
  "geoip_router_port c =
     (let port = or_port (ge_port (c_geoip c)) 1221; lp = li_port (c_listener c)
      in if port = lp then (if lp = 1221 then 1222 else 1221) else port)"

definition sticky_reserved :: "config \<Rightarrow> 16 word set" where
  "sticky_reserved c =
     (let port = (if sk_port (c_sticky c) = 0 \<and> li_port (c_listener c) < 65535 then li_port (c_listener c) + 1
        else sk_port (c_sticky c))
      in if sk_enabled (c_sticky c) \<and> port \<noteq> 0 then {port} else {})"

definition management_reserved :: "config \<Rightarrow> 16 word set" where
  "management_reserved c =
     (case split_host_port (mg_listen (c_management c)) of
        None \<Rightarrow> {}
      | Some (_, port) \<Rightarrow>
          (case atoi port of Some v \<Rightarrow> (if 0 < v \<and> v \<le> 65535 then {of_int v} else {}) | None \<Rightarrow> {}))"

definition reserved_listener_ports :: "config \<Rightarrow> 16 word set" where
  "reserved_listener_ports c =
     (if shared_listener c then insert (li_port (c_listener c)) (sticky_reserved c) else {})
     \<union> (if management_enabled c then insert 9092 (management_reserved c) else {})
     \<union> (if ge_enabled (c_geoip c) then {geoip_router_port c} else {})"

end
