(* ===== verification/PortPlan.thy ===== *)
theory PortPlan
  imports ConfigTypes
begin

text \<open>
  Port assignment: \<open>NormalizeWithPortMap\<close>, \<open>BuildPortMap\<close>, \<open>applyPersistedPorts\<close> and
  \<open>bridgeLegacyPortKeys\<close> of \<open>internal/config/config.go\<close>. Whether the operating system lets a port be
  bound (\<open>IsPortAvailable\<close>) is a parameter. A rejected configuration is an error value; the code has
  then changed a candidate that its callers drop.
\<close>

section \<open>Names and credentials\<close>

definition default_node_name :: "nat \<Rightarrow> string" where
  "default_node_name idx = ''node-'' @ itoa (int idx)"

definition tidy_node :: "json_codec \<Rightarrow> nat \<Rightarrow> node_config \<Rightarrow> config_error + node_config" where
  "tidy_node jc idx n0 =
     (let n = n0\<lparr>nc_name := trim_space (nc_name n0), nc_uri := trim_space (nc_uri n0)\<rparr>
      in if nc_uri n = [] then Inl (MissingUri idx)
         else let name = or_text (nc_name n) (extract_node_name jc (nc_uri n))
           in Inr (n\<lparr>nc_name := or_text name (default_node_name idx)\<rparr>))"

definition apply_credentials :: "config \<Rightarrow> node_config \<Rightarrow> node_config" where
  "apply_credentials c n =
     (if per_node_ports c \<and> nc_username n = []
      then n\<lparr>nc_username := mp_username (c_multi_port c), nc_password := mp_password (c_multi_port c)\<rparr> else n)"

section \<open>The three passes\<close>

type_synonym port_map = "(string, 16 word) gomap"

text \<open>First pass: each node with the mark that its saved port was kept, and the ports used so far.\<close>

definition preserve_node ::
  "json_codec \<Rightarrow> bool \<Rightarrow> port_map \<Rightarrow> 16 word set \<Rightarrow> node_config \<Rightarrow> (node_config \<times> bool) \<times> 16 word set" where
  "preserve_node jc per_node pm used n =
     (case (if per_node then mget pm (node_key jc n) else None) of
        None \<Rightarrow> ((n, False), used)
      | Some p \<Rightarrow>
          if p = 0 then ((n, False), used)
          else if p \<in> used then ((n\<lparr>nc_port := 0\<rparr>, False), used)
          else ((n\<lparr>nc_port := p\<rparr>, True), insert p used))"

fun preserve_ports ::
  "json_codec \<Rightarrow> bool \<Rightarrow> port_map \<Rightarrow> nat \<Rightarrow> 16 word set \<Rightarrow> node_config list
    \<Rightarrow> config_error + (node_config \<times> bool) list \<times> 16 word set" where
  "preserve_ports jc per_node pm idx used [] = Inr ([], used)"
| "preserve_ports jc per_node pm idx used (n0 # ns) =
     (case tidy_node jc idx n0 of
        Inl e \<Rightarrow> Inl e
      | Inr n \<Rightarrow>
          let (m, used') = preserve_node jc per_node pm used n
          in (case preserve_ports jc per_node pm (idx + 1) used' ns of
                Inl e \<Rightarrow> Inl e
              | Inr (ms, u) \<Rightarrow> Inr (m # ms, u)))"

text \<open>Second pass: a port that a node brings along must not be taken.\<close>

fun claim_explicit :: "16 word set \<Rightarrow> (node_config \<times> bool) list \<Rightarrow> config_error + 16 word set" where
  "claim_explicit used [] = Inr used"
| "claim_explicit used ((n, kept) # ns) =
     (if kept \<or> nc_port n = 0 then claim_explicit used ns
      else if nc_port n \<in> used then Inl (ListenerConflict (nc_name n) (nc_port n))
      else claim_explicit (insert (nc_port n) used) ns)"

text \<open>Final pass: the cursor is an integer and stops above 65535.\<close>

function next_free :: "(16 word \<Rightarrow> bool) \<Rightarrow> 16 word set \<Rightarrow> int \<Rightarrow> int option" where
  "next_free available used cursor =
     (if cursor > 65535 then None
      else if of_int cursor \<in> used \<or> \<not> available (of_int cursor) then next_free available used (cursor + 1)
      else Some cursor)"
  by pat_completeness auto
termination next_free
  by (relation "measure (\<lambda>(_, _, cursor). nat (65536 - cursor))") auto

declare next_free.simps [simp del]

fun assign_fresh ::
  "(16 word \<Rightarrow> bool) \<Rightarrow> config \<Rightarrow> 16 word set \<Rightarrow> int \<Rightarrow> node_config list \<Rightarrow> config_error + node_config list" where
  "assign_fresh available c used cursor [] = Inr []"
| "assign_fresh available c used cursor (n # ns) =
     (if nc_port n = 0 \<and> per_node_ports c
      then (case next_free available used cursor of
              None \<Rightarrow> Inl (NoPorts (mp_base_port (c_multi_port c)))
            | Some p \<Rightarrow>
                map_sum id (\<lambda>ms. apply_credentials c (n\<lparr>nc_port := of_int p\<rparr>) # ms)
                  (assign_fresh available c (insert (of_int p) used) (p + 1) ns))
      else if nc_port n = 0 \<and> cursor \<le> 65535
      then map_sum id (\<lambda>ms. apply_credentials c (n\<lparr>nc_port := of_int cursor\<rparr>) # ms)
             (assign_fresh available c used (cursor + 1) ns)
      else map_sum id (\<lambda>ms. apply_credentials c n # ms) (assign_fresh available c used cursor ns))"

definition finish_config :: "config \<Rightarrow> config_error + config" where
  "finish_config c = normalize_sticky (normalize_log_config (c\<lparr>c_log_level := or_text (c_log_level c) ''info''\<rparr>))"

definition assign_ports ::
  "(string \<Rightarrow> 16 word \<Rightarrow> bool) \<Rightarrow> json_codec \<Rightarrow> port_map \<Rightarrow> config \<Rightarrow> config_error + node_config list" where
  "assign_ports available jc pm c =
     (if c_nodes c = [] then Inl NoNodes
      else case preserve_ports jc (per_node_ports c) pm 0 (reserved_listener_ports c) (c_nodes c) of
          Inl e \<Rightarrow> Inl e
        | Inr (marked, used) \<Rightarrow>
            (case (if per_node_ports c then claim_explicit used marked else Inr used) of
               Inl e \<Rightarrow> Inl e
             | Inr used' \<Rightarrow>
                 assign_fresh (available (mp_address (c_multi_port c))) c used' (uint (mp_base_port (c_multi_port c)))
                   (map fst marked)))"

definition normalize_with_port_map ::
  "(string \<Rightarrow> 16 word \<Rightarrow> bool) \<Rightarrow> json_codec \<Rightarrow> port_map \<Rightarrow> config \<Rightarrow> config_error + config" where
  "normalize_with_port_map available jc pm c0 =
     (case apply_defaults c0 of
        Inl e \<Rightarrow> Inl e
      | Inr c \<Rightarrow>
          (case assign_ports available jc pm c of
             Inl e \<Rightarrow> Inl e
           | Inr nodes \<Rightarrow> finish_config (c\<lparr>c_nodes := nodes\<rparr>)))"

section \<open>The saved ports\<close>

definition build_port_map :: "json_codec \<Rightarrow> config \<Rightarrow> port_map" where
  "build_port_map jc c =
     fold (\<lambda>n m. if nc_port n \<noteq> 0 then mput (node_key jc n) (nc_port n) m else m) (c_nodes c) []"

definition port_of :: "port_map \<Rightarrow> string \<Rightarrow> 16 word" where
  "port_of m k = (case mget m k of Some p \<Rightarrow> p | None \<Rightarrow> 0)"

definition legacy_keys :: "node_config \<Rightarrow> string list" where
  "legacy_keys n =
     (let k = trim_space (nc_uri n)
      in k # (case last_index_byte k CHR ''#'' of Some i \<Rightarrow> [take i k] | None \<Rightarrow> []))"

definition bridge_node :: "json_codec \<Rightarrow> node_config \<Rightarrow> port_map \<Rightarrow> port_map" where
  "bridge_node jc n saved =
     (if port_of saved (node_key jc n) > 0 then saved
      else case find (\<lambda>k. port_of saved k > 0) (legacy_keys n) of
          Some k \<Rightarrow> mput (node_key jc n) (port_of saved k) saved
        | None \<Rightarrow> saved)"

definition bridge_alias :: "json_codec \<Rightarrow> string \<Rightarrow> port_map \<Rightarrow> port_map" where
  "bridge_alias jc legacy saved =
     (if mget saved (stable_node_key jc legacy) = None \<and> port_of saved legacy > 0
      then mput (stable_node_key jc legacy) (port_of saved legacy) saved else saved)"

definition bridge_legacy_port_keys :: "json_codec \<Rightarrow> node_config list \<Rightarrow> port_map \<Rightarrow> port_map" where
  "bridge_legacy_port_keys jc nodes saved =
     (let saved1 = fold (bridge_node jc) nodes saved
      in fold (bridge_alias jc) (sort (map fst saved1)) saved1)"

text \<open>\<open>SaveNodePortMap\<close> writes this map, or nothing outside the modes with per-node ports.\<close>

definition port_map_to_save :: "json_codec \<Rightarrow> config \<Rightarrow> port_map option" where
  "port_map_to_save jc c = (if per_node_ports c \<and> c_file_path c \<noteq> [] then Some (build_port_map jc c) else None)"

text \<open>A node keeps its port when the configuration file names one, and loses a provisional port; a
  missing or unreadable file of saved ports is the empty map.\<close>

fun clear_provisional ::
  "json_codec \<Rightarrow> bool list \<Rightarrow> node_config list \<Rightarrow> port_map \<Rightarrow> node_config list \<times> port_map" where
  "clear_provisional jc ex [] saved = ([], saved)"
| "clear_provisional jc ex (n # ns) saved =
     (let explicit = (ex \<noteq> [] \<and> hd ex);
          saved' = (if explicit then mdel (node_key jc n) saved else saved);
          (ns', s) = clear_provisional jc (tl ex) ns saved'
      in ((if explicit then n else n\<lparr>nc_port := 0\<rparr>) # ns', s))"

definition apply_persisted_ports ::
  "(string \<Rightarrow> 16 word \<Rightarrow> bool) \<Rightarrow> json_codec \<Rightarrow> port_map \<Rightarrow> bool list \<Rightarrow> config \<Rightarrow> config_error + config \<times> port_map option" where
  "apply_persisted_ports available jc saved0 explicit c =
     (if \<not> per_node_ports c then Inr (c, None)
      else let saved = (if saved0 \<noteq> [] then bridge_legacy_port_keys jc (c_nodes c) saved0 else saved0);
               (nodes, saved') = clear_provisional jc explicit (c_nodes c) saved
        in case normalize_with_port_map available jc saved' (c\<lparr>c_nodes := nodes\<rparr>) of
             Inl e \<Rightarrow> Inl (RestorePorts e)
           | Inr c' \<Rightarrow> Inr (c', port_map_to_save jc c'))"

end
