(* ===== verification/PortFacts.thy ===== *)
theory PortFacts
  imports PortPlan
begin

text \<open>
  What port assignment guarantees: no two nodes and no listener share a port, saved ports are kept,
  and a reload with the ports of the running configuration moves no surviving node.
\<close>

section \<open>Defaults and the last step\<close>

lemma apply_defaults_facts:
  assumes "apply_defaults c0 = Inr c"
  shows "c_mode c \<in> {''pool'', ''multi-port'', ''hybrid''}" and "mp_base_port (c_multi_port c) \<noteq> 0"
    and "c_nodes c = c_nodes c0"
  using assms by (auto simp: apply_defaults_def Let_def or_port_def split: if_splits option.splits)

lemma normalize_sticky_facts:
  assumes "normalize_sticky c = Inr c'"
  shows "c_nodes c' = c_nodes c \<and> c_mode c' = c_mode c \<and> c_listener c' = c_listener c
    \<and> c_management c' = c_management c \<and> c_geoip c' = c_geoip c"
  using assms by (auto simp: normalize_sticky_def Let_def split: if_splits option.splits)

lemma port_bound: "uint (p :: 16 word) \<le> 65535"
  using uint_bounded [of p] by simp

lemma not_max_port: "(p :: 16 word) < 65535 \<longleftrightarrow> p \<noteq> 65535"
proof -
  have "p \<le> 65535" using port_bound [of p] by (simp add: word_le_def)
  then show ?thesis by (auto simp: order.strict_iff_order)
qed

lemma normalize_sticky_reserved:
  assumes "normalize_sticky c = Inr c'"
  shows "reserved_listener_ports c' = reserved_listener_ports c"
proof -
  note facts = normalize_sticky_facts [OF assms]
  have "sticky_reserved c' = sticky_reserved c" if "shared_listener c"
    using assms that facts
    by (auto simp: normalize_sticky_def sticky_reserved_def Let_def not_max_port split: if_splits option.splits)
  then show ?thesis using facts
    by (simp add: reserved_listener_ports_def shared_listener_def management_enabled_def management_reserved_def
        geoip_router_port_def)
qed

lemma finish_config_facts:
  assumes "finish_config c = Inr c'"
  shows "c_nodes c' = c_nodes c" and "c_mode c' = c_mode c"
    and "reserved_listener_ports c' = reserved_listener_ports c"
proof -
  let ?d = "normalize_log_config (c\<lparr>c_log_level := or_text (c_log_level c) ''info''\<rparr>)"
  have "reserved_listener_ports ?d = reserved_listener_ports c"
    by (simp add: normalize_log_config_def Let_def reserved_listener_ports_def shared_listener_def sticky_reserved_def
        management_enabled_def management_reserved_def geoip_router_port_def)
  moreover have "c_nodes ?d = c_nodes c" "c_mode ?d = c_mode c" by (simp_all add: normalize_log_config_def Let_def)
  ultimately show "c_nodes c' = c_nodes c" "c_mode c' = c_mode c" "reserved_listener_ports c' = reserved_listener_ports c"
    using assms normalize_sticky_facts [of ?d c'] normalize_sticky_reserved [of ?d c'] unfolding finish_config_def by auto
qed

section \<open>The passes\<close>

definition kept_ports :: "(node_config \<times> bool) list \<Rightarrow> 16 word list" where
  "kept_ports ms = map (nc_port \<circ> fst) (filter snd ms)"

definition brought_ports :: "(node_config \<times> bool) list \<Rightarrow> 16 word list" where
  "brought_ports ms = filter (\<lambda>p. p \<noteq> 0) (map (nc_port \<circ> fst) (filter (\<lambda>m. \<not> snd m) ms))"

definition set_ports :: "node_config list \<Rightarrow> 16 word list" where
  "set_ports ns = filter (\<lambda>p. p \<noteq> 0) (map nc_port ns)"

lemma tidy_node_facts:
  "tidy_node jc i n0 = Inr n \<Longrightarrow> nc_uri n = trim_space (nc_uri n0) \<and> nc_port n = nc_port n0"
  by (auto simp: tidy_node_def Let_def split: if_splits)

lemma preserve_portsE:
  assumes "preserve_ports jc pn pm i used (n0 # ns) = Inr (ms, u)"
  obtains n m used' ms' where "tidy_node jc i n0 = Inr n" and "preserve_node jc pn pm used n = (m, used')"
    and "preserve_ports jc pn pm (i + 1) used' ns = Inr (ms', u)" and "ms = m # ms'"
  using assms by (auto split: sum.splits prod.splits)

lemma preserve_node_kept:
  assumes "preserve_node jc pn pm used n = (m, used')"
  shows "if snd m then nc_port (fst m) \<noteq> 0 \<and> nc_port (fst m) \<notin> used \<and> used' = insert (nc_port (fst m)) used
    else used' = used"
  using assms by (auto simp: preserve_node_def split: option.splits if_splits)

lemma preserve_ports_kept:
  "preserve_ports jc pn pm i used ns = Inr (ms, u) \<Longrightarrow>
     distinct (kept_ports ms) \<and> set (kept_ports ms) \<inter> used = {} \<and> u = used \<union> set (kept_ports ms) \<and> 0 \<notin> set (kept_ports ms)"
proof (induction ns arbitrary: i used ms u)
  case (Cons n0 ns)
  from preserve_portsE [OF Cons.prems] obtain n m used' ms'
    where *: "preserve_node jc pn pm used n = (m, used')" "preserve_ports jc pn pm (i + 1) used' ns = Inr (ms', u)"
      "ms = m # ms'" by metis
  show ?case using preserve_node_kept [OF *(1)] Cons.IH [OF *(2)] *(3) by (cases "snd m") (auto simp: kept_ports_def)
qed (simp add: kept_ports_def)

lemma claim_explicit_ports:
  "claim_explicit u ms = Inr u' \<Longrightarrow>
     distinct (brought_ports ms) \<and> set (brought_ports ms) \<inter> u = {} \<and> u' = u \<union> set (brought_ports ms)"
proof (induction ms arbitrary: u)
  case (Cons m ms)
  obtain n k where m: "m = (n, k)" by (cases m)
  show ?case
  proof (cases "k \<or> nc_port n = 0")
    case True
    then show ?thesis using Cons m by (auto simp: brought_ports_def)
  next
    case False
    then have "nc_port n \<notin> u" "claim_explicit (insert (nc_port n) u) ms = Inr u'"
      using Cons.prems m by (simp_all split: if_splits)
    then show ?thesis using Cons.IH [of "insert (nc_port n) u"] False m by (auto simp: brought_ports_def)
  qed
qed (simp add: brought_ports_def)

lemma set_ports_marked:
  assumes "distinct (kept_ports ms)" "distinct (brought_ports ms)" "set (kept_ports ms) \<inter> set (brought_ports ms) = {}"
    and "0 \<notin> set (kept_ports ms)"
  shows "distinct (set_ports (map fst ms)) \<and> set (set_ports (map fst ms)) = set (kept_ports ms) \<union> set (brought_ports ms)"
  using assms
proof (induction ms)
  case (Cons m ms)
  obtain n k where "m = (n, k)" by (cases m)
  then show ?case using Cons
    by (cases k; cases "nc_port n = 0") (auto simp: kept_ports_def brought_ports_def set_ports_def)
qed (simp add: kept_ports_def brought_ports_def set_ports_def)

lemma next_free_SomeD:
  "next_free av used cur = Some p \<Longrightarrow> cur \<le> p \<and> p \<le> 65535 \<and> of_int p \<notin> used \<and> av (of_int p)"
  by (induction av used cur rule: next_free.induct) (subst (asm) (2) next_free.simps, auto split: if_splits)

lemma of_int_port_nonzero: "0 < p \<Longrightarrow> p \<le> 65535 \<Longrightarrow> (of_int p :: 16 word) \<noteq> 0"
proof
  assume p: "0 < p" "p \<le> 65535" and "(of_int p :: 16 word) = 0"
  then have "uint (of_int p :: 16 word) = 0" by simp
  then show False using p by (simp add: uint_word_of_int)
qed

lemma apply_credentials_simps [simp]:
  "nc_port (apply_credentials c n) = nc_port n" "nc_uri (apply_credentials c n) = nc_uri n"
  by (simp_all add: apply_credentials_def)

lemma assign_fresh_ports:
  assumes "per_node_ports c"
  shows "assign_fresh av c used cur ns = Inr out \<Longrightarrow> 0 < cur \<Longrightarrow> distinct (set_ports ns) \<Longrightarrow>
     set (set_ports ns) \<subseteq> used \<Longrightarrow>
     distinct (map nc_port out) \<and> 0 \<notin> set (map nc_port out)
     \<and> set (map nc_port out) \<inter> (used - set (set_ports ns)) = {}
     \<and> list_all2 (\<lambda>n m. nc_uri m = nc_uri n \<and> (nc_port n \<noteq> 0 \<longrightarrow> nc_port m = nc_port n)) ns out"
proof (induction ns arbitrary: used cur out)
  case (Cons n ns)
  show ?case
  proof (cases "nc_port n = 0")
    case True
    then obtain p ms where p: "next_free av used cur = Some p"
      and ms: "assign_fresh av c (insert (of_int p) used) (p + 1) ns = Inr ms"
      and out: "out = apply_credentials c (n\<lparr>nc_port := of_int p\<rparr>) # ms"
      using Cons.prems(1) assms by (auto split: option.splits simp: map_sum_def split: sum.splits)
    have same: "set_ports (n # ns) = set_ports ns" using True by (simp add: set_ports_def)
    have "0 < p" "p \<le> 65535" "of_int p \<notin> used" using next_free_SomeD [OF p] Cons.prems(2) by auto
    then have IH: "distinct (map nc_port ms) \<and> 0 \<notin> set (map nc_port ms)
        \<and> set (map nc_port ms) \<inter> (insert (of_int p) used - set (set_ports ns)) = {}
        \<and> list_all2 (\<lambda>n m. nc_uri m = nc_uri n \<and> (nc_port n \<noteq> 0 \<longrightarrow> nc_port m = nc_port n)) ns ms"
      using Cons.IH [OF ms] Cons.prems(3,4) same by auto
    have "of_int p \<notin> set (set_ports ns)" using Cons.prems(4) same \<open>of_int p \<notin> used\<close> by auto
    then show ?thesis using IH True same out of_int_port_nonzero [OF \<open>0 < p\<close> \<open>p \<le> 65535\<close>] \<open>of_int p \<notin> used\<close> by auto
  next
    case False
    then obtain ms where ms: "assign_fresh av c used cur ns = Inr ms" and out: "out = apply_credentials c n # ms"
      using Cons.prems(1) by (auto simp: map_sum_def split: sum.splits)
    have split: "set_ports (n # ns) = nc_port n # set_ports ns" using False by (simp add: set_ports_def)
    then show ?thesis using Cons.IH [OF ms Cons.prems(2)] Cons.prems(3,4) out False by auto
  qed
qed (simp add: set_ports_def)

section \<open>No two listeners on one port\<close>

definition ports_separate :: "config \<Rightarrow> bool" where
  "ports_separate c \<longleftrightarrow> distinct (map nc_port (c_nodes c)) \<and> 0 \<notin> set (map nc_port (c_nodes c))
     \<and> set (map nc_port (c_nodes c)) \<inter> reserved_listener_ports c = {}"

lemma assign_ports_passes:
  assumes "assign_ports av jc pm c = Inr out" and per: "per_node_ports c" and base: "mp_base_port (c_multi_port c) \<noteq> 0"
  obtains ms u where "preserve_ports jc True pm 0 (reserved_listener_ports c) (c_nodes c) = Inr (ms, u)"
    and "distinct (map nc_port out) \<and> 0 \<notin> set (map nc_port out)
      \<and> set (map nc_port out) \<inter> reserved_listener_ports c = {}"
    and "list_all2 (\<lambda>n m. nc_uri m = nc_uri n \<and> (nc_port n \<noteq> 0 \<longrightarrow> nc_port m = nc_port n)) (map fst ms) out"
proof -
  let ?r = "reserved_listener_ports c" and ?b = "uint (mp_base_port (c_multi_port c))"
  obtain ms u u' where pres: "preserve_ports jc True pm 0 ?r (c_nodes c) = Inr (ms, u)"
    and claim: "claim_explicit u ms = Inr u'"
    and fresh: "assign_fresh (av (mp_address (c_multi_port c))) c u' ?b (map fst ms) = Inr out"
    using assms(1) per by (auto simp: assign_ports_def split: if_splits sum.splits prod.splits)
  have k: "distinct (kept_ports ms)" "set (kept_ports ms) \<inter> ?r = {}" "u = ?r \<union> set (kept_ports ms)" "0 \<notin> set (kept_ports ms)"
    using preserve_ports_kept [OF pres] by auto
  have e: "distinct (brought_ports ms)" "set (brought_ports ms) \<inter> u = {}" "u' = u \<union> set (brought_ports ms)"
    using claim_explicit_ports [OF claim] by auto
  have "set (kept_ports ms) \<inter> set (brought_ports ms) = {}" using e(2) k(3) by auto
  then have s: "distinct (set_ports (map fst ms))" "set (set_ports (map fst ms)) = set (kept_ports ms) \<union> set (brought_ports ms)"
    using set_ports_marked [OF k(1) e(1) _ k(4)] by blast+
  have "?b \<noteq> 0" using base by (simp add: uint_0_iff)
  then have pos: "0 < ?b" using uint_ge_0 [of "mp_base_port (c_multi_port c)"] by linarith
  have "set (set_ports (map fst ms)) \<subseteq> u'" unfolding s(2) k(3) e(3) by blast
  then have out: "distinct (map nc_port out) \<and> 0 \<notin> set (map nc_port out)
      \<and> set (map nc_port out) \<inter> (u' - set (set_ports (map fst ms))) = {}
      \<and> list_all2 (\<lambda>n m. nc_uri m = nc_uri n \<and> (nc_port n \<noteq> 0 \<longrightarrow> nc_port m = nc_port n)) (map fst ms) out"
    using assign_fresh_ports [OF per fresh pos s(1)] by blast
  moreover have "?r \<subseteq> u' - set (set_ports (map fst ms))" using s(2) k e by auto
  ultimately have "set (map nc_port out) \<inter> ?r = {}" by blast
  then show thesis using that pres out by blast
qed


lemma normalizeE:
  assumes "normalize_with_port_map av jc pm c0 = Inr c"
  obtains d out where "apply_defaults c0 = Inr d" and "assign_ports av jc pm d = Inr out"
    and "c_nodes c = out" and "c_mode c = c_mode d" and "reserved_listener_ports c = reserved_listener_ports d"
proof -
  obtain d out where d: "apply_defaults c0 = Inr d" and out: "assign_ports av jc pm d = Inr out"
    and fin: "finish_config (d\<lparr>c_nodes := out\<rparr>) = Inr c"
    using assms by (auto simp: normalize_with_port_map_def split: sum.splits)
  have "reserved_listener_ports (d\<lparr>c_nodes := out\<rparr>) = reserved_listener_ports d"
    by (simp add: reserved_listener_ports_def shared_listener_def sticky_reserved_def management_enabled_def
        management_reserved_def geoip_router_port_def)
  then show thesis using that [OF d out] finish_config_facts [OF fin] by simp
qed

lemma ports_kept_apart:
  assumes "normalize_with_port_map available jc pm c0 = Inr c" and "per_node_ports c"
  shows "ports_separate c"
proof -
  obtain d out where *: "apply_defaults c0 = Inr d" "assign_ports available jc pm d = Inr out" "c_nodes c = out"
    "c_mode c = c_mode d" "reserved_listener_ports c = reserved_listener_ports d"
    using normalizeE [OF assms(1)] by metis
  have "per_node_ports d" using assms(2) *(4) by (simp add: per_node_ports_def)
  from assign_ports_passes [OF *(2) this apply_defaults_facts(2) [OF *(1)]]
  show ?thesis unfolding ports_separate_def *(3,5) by blast
qed

text \<open>C21: After \<open>NormalizeWithPortMap\<close> accepts a configuration with per-node ports, every node has a port, no
  two nodes share one, and none is the port of the shared listener, the sticky entry, the management
  server, its traffic controller or the region router.\<close>

theorem ports_never_collide:
  assumes "normalize_with_port_map available jc pm c0 = Inr c" and "per_node_ports c"
  shows "ports_separate c"
  using assms by (rule ports_kept_apart)

section \<open>Saved ports are kept\<close>

definition saved_port :: "json_codec \<Rightarrow> port_map \<Rightarrow> node_config \<Rightarrow> 16 word" where
  "saved_port jc pm n = port_of pm (node_key jc n)"

lemma node_key_cong: "trim_space (nc_uri n) = trim_space (nc_uri m) \<Longrightarrow> node_key jc n = node_key jc m"
  by (simp add: node_key_def stable_node_key_def)

lemma dropWhile_idem: "dropWhile P (dropWhile P xs) = dropWhile P xs"
  by (induction xs) auto

lemma trim_space_idem [simp]: "trim_space (trim_space s) = trim_space s"
proof (cases "trim_space s = []")
  case False
  have *: "dropWhile is_space (rev (trim_space s)) = rev (trim_space s)" for s
    by (simp add: trim_space_def dropWhile_idem)
  have "\<not> is_space (hd (trim_space s))"
  proof
    assume sp: "is_space (hd (trim_space s))"
    let ?d = "dropWhile is_space s"
    obtain u where u: "?d = trim_space s @ u"
    proof -
      have "rev ?d = takeWhile is_space (rev ?d) @ dropWhile is_space (rev ?d)" by simp
      then have "?d = rev (dropWhile is_space (rev ?d)) @ rev (takeWhile is_space (rev ?d))"
        by (metis rev_append rev_rev_ident)
      then show thesis using that by (simp add: trim_space_def)
    qed
    then have "hd ?d = hd (trim_space s)" "?d \<noteq> []" using False by simp_all
    then show False using hd_dropWhile [of is_space s] sp by simp
  qed
  then have "dropWhile is_space (trim_space s) = trim_space s" by (simp add: dropWhile_eq_self_iff)
  then show ?thesis using * [of s] by (simp add: trim_space_def)
next
  case True
  have "trim_space [] = []" by (simp add: trim_space_def)
  then show ?thesis using True by simp
qed

lemma port_of_Some: "port_of pm k = p \<Longrightarrow> p \<noteq> 0 \<Longrightarrow> mget pm k = Some p"
  by (simp add: port_of_def split: option.splits)

lemma preserve_ports_saved:
  assumes "preserve_ports jc True pm i used ns = Inr (ms, u)" and "k < length ns" and "saved_port jc pm (ns ! k) = p"
    and "p \<noteq> 0" and "p \<notin> used" and "\<And>j. j < k \<Longrightarrow> saved_port jc pm (ns ! j) \<noteq> p"
  shows "ms ! k = (fst (ms ! k), True) \<and> nc_port (fst (ms ! k)) = p"
  using assms
proof (induction ns arbitrary: i used ms u k)
  case (Cons n0 ns)
  from preserve_portsE [OF Cons.prems(1)] obtain n m used' ms'
    where *: "tidy_node jc i n0 = Inr n" "preserve_node jc True pm used n = (m, used')"
      "preserve_ports jc True pm (i + 1) used' ns = Inr (ms', u)" "ms = m # ms'" by metis
  have key: "node_key jc n = node_key jc n0" using tidy_node_facts [OF *(1)] by (intro node_key_cong) simp
  show ?case
  proof (cases k)
    case 0
    then have "port_of pm (node_key jc n) = p" using Cons.prems(3) key by (simp add: saved_port_def)
    from port_of_Some [OF this Cons.prems(4)] have "m = (n\<lparr>nc_port := p\<rparr>, True)"
      using *(2) Cons.prems(4,5) by (simp add: preserve_node_def)
    then show ?thesis using *(4) 0 by simp
  next
    case (Suc k')
    have "saved_port jc pm n0 \<noteq> p" using Cons.prems(6) [of 0] Suc by simp
    then have "mget pm (node_key jc n) \<noteq> Some p" using key by (auto simp: saved_port_def port_of_def)
    then have "p \<notin> used'" using *(2) Cons.prems(5) by (auto simp: preserve_node_def split: option.splits if_splits)
    moreover have "saved_port jc pm (ns ! j) \<noteq> p" if "j < k'" for j using Cons.prems(6) [of "Suc j"] Suc that by simp
    ultimately have "ms' ! k' = (fst (ms' ! k'), True) \<and> nc_port (fst (ms' ! k')) = p"
      using Cons.IH [OF *(3), of k'] Cons.prems(2-4) Suc by simp
    then show ?thesis using Suc *(4) by simp
  qed
qed simp

lemma preserve_ports_length: "preserve_ports jc pn pm i used ns = Inr (ms, u) \<Longrightarrow> length ms = length ns"
proof (induction ns arbitrary: i used ms u)
  case (Cons n0 ns)
  from preserve_portsE [OF Cons.prems] show ?case by (metis Cons.IH length_Cons)
qed simp


text \<open>A node that has a saved port gets it, whatever its position and display name, unless a listener
  reserves that port or an earlier node of the same identity took it.\<close>

lemma saved_port_stays:
  assumes "normalize_with_port_map available jc pm c0 = Inr c" and "per_node_ports c" and "k < length (c_nodes c0)"
    and "saved_port jc pm (c_nodes c0 ! k) = p" and "p \<noteq> 0" and "p \<notin> reserved_listener_ports c"
    and "\<And>j. j < k \<Longrightarrow> saved_port jc pm (c_nodes c0 ! j) \<noteq> p"
  shows "k < length (c_nodes c) \<and> nc_port (c_nodes c ! k) = p"
proof -
  obtain d out where *: "apply_defaults c0 = Inr d" "assign_ports available jc pm d = Inr out" "c_nodes c = out"
    "c_mode c = c_mode d" "reserved_listener_ports c = reserved_listener_ports d"
    using normalizeE [OF assms(1)] by metis
  have nodes: "c_nodes d = c_nodes c0" by (rule apply_defaults_facts(3) [OF *(1)])
  have "per_node_ports d" using assms(2) *(4) by (simp add: per_node_ports_def)
  then obtain ms u where pres: "preserve_ports jc True pm 0 (reserved_listener_ports d) (c_nodes d) = Inr (ms, u)"
      and rel: "list_all2 (\<lambda>n m. nc_uri m = nc_uri n \<and> (nc_port n \<noteq> 0 \<longrightarrow> nc_port m = nc_port n)) (map fst ms) out"
    using assign_ports_passes [OF *(2) _ apply_defaults_facts(2) [OF *(1)]] by blast
  have len: "k < length ms" using preserve_ports_length [OF pres] nodes assms(3) by simp
  have "nc_port (fst (ms ! k)) = p"
    using preserve_ports_saved [OF pres, of k p] assms(3-7) unfolding nodes *(5) by blast
  then show ?thesis using list_all2_nthD [OF rel, of k] list_all2_lengthD [OF rel] len assms(5) *(3) by simp
qed


section \<open>A reload moves no surviving node\<close>

lemma mget_port_map_fold:
  "distinct (map (node_key jc) ns) \<Longrightarrow>
     mget (fold (\<lambda>n m. if nc_port n \<noteq> 0 then mput (node_key jc n) (nc_port n) m else m) ns m0) k =
     (case find (\<lambda>n. node_key jc n = k \<and> nc_port n \<noteq> 0) ns of Some n \<Rightarrow> Some (nc_port n) | None \<Rightarrow> mget m0 k)"
proof (induction ns arbitrary: m0)
  case (Cons n ns)
  show ?case
  proof (cases "node_key jc n = k \<and> nc_port n \<noteq> 0")
    case True
    then have "find (\<lambda>n. node_key jc n = k \<and> nc_port n \<noteq> 0) ns = None"
      using Cons.prems unfolding find_None_iff by (metis distinct.simps(2) image_eqI list.map(2) list.set_map)
    then show ?thesis using Cons True by (simp add: mget_mput)
  next
    case False
    then show ?thesis using Cons by (auto simp: mget_mput split: option.split)
  qed
qed simp

lemma build_port_map_of:
  assumes "distinct (map (node_key jc) (c_nodes c))" and "n \<in> set (c_nodes c)" and "nc_port n \<noteq> 0"
  shows "mget (build_port_map jc c) (node_key jc n) = Some (nc_port n)"
proof -
  obtain m where m: "find (\<lambda>m. node_key jc m = node_key jc n \<and> nc_port m \<noteq> 0) (c_nodes c) = Some m"
    using assms(2,3) by (cases "find (\<lambda>m. node_key jc m = node_key jc n \<and> nc_port m \<noteq> 0) (c_nodes c)")
      (auto simp: find_None_iff)
  then have "m \<in> set (c_nodes c)" "node_key jc m = node_key jc n" by (auto simp: find_Some_iff)
  then have "m = n" using assms(1,2) by (meson distinct_map inj_onD)
  then show ?thesis using m by (simp add: build_port_map_def mget_port_map_fold [OF assms(1)])
qed

lemma build_port_map_from:
  assumes "distinct (map (node_key jc) (c_nodes c))" and "mget (build_port_map jc c) k = Some p"
  shows "\<exists>n\<in>set (c_nodes c). node_key jc n = k \<and> nc_port n = p"
  using assms(2) nth_mem [of _ "c_nodes c"]
  by (fastforce simp: build_port_map_def mget_port_map_fold [OF assms(1)] find_Some_iff split: option.splits)

text \<open>C6: A reload that hands over the port map of the running configuration leaves every node of it on its
  port: nodes may be renamed, reordered, added or removed, and only a listener that newly reserves the
  port takes it away. Both configurations list each identity once.\<close>

theorem reload_keeps_ports:
  assumes old: "ports_separate old" "distinct (map (node_key jc) (c_nodes old))" "m \<in> set (c_nodes old)"
    and new: "normalize_with_port_map available jc (build_port_map jc old) c0 = Inr c" "per_node_ports c"
      "distinct (map (node_key jc) (c_nodes c0))"
    and k: "k < length (c_nodes c0)" "node_key jc (c_nodes c0 ! k) = node_key jc m"
    and free: "nc_port m \<notin> reserved_listener_ports c"
  shows "k < length (c_nodes c) \<and> nc_port (c_nodes c ! k) = nc_port m"
proof (rule saved_port_stays [OF new(1,2) k(1) _ _ free])
  show m0: "nc_port m \<noteq> 0" using old(1,3) by (force simp: ports_separate_def)
  show "saved_port jc (build_port_map jc old) (c_nodes c0 ! k) = nc_port m"
    using build_port_map_of [OF old(2,3) m0] k(2) by (simp add: saved_port_def port_of_def)
  show "saved_port jc (build_port_map jc old) (c_nodes c0 ! j) \<noteq> nc_port m" if "j < k" for j
  proof
    assume "saved_port jc (build_port_map jc old) (c_nodes c0 ! j) = nc_port m"
    then have "mget (build_port_map jc old) (node_key jc (c_nodes c0 ! j)) = Some (nc_port m)"
      using m0 by (intro port_of_Some) (simp add: saved_port_def)
    from build_port_map_from [OF old(2) this] obtain n
      where n: "n \<in> set (c_nodes old)" "node_key jc n = node_key jc (c_nodes c0 ! j)" "nc_port n = nc_port m" by blast
    have "n = m" using old(1,3) n(1,3) by (meson distinct_map inj_onD ports_separate_def)
    then have "map (node_key jc) (c_nodes c0) ! j = map (node_key jc) (c_nodes c0) ! k" using n(2) k that by simp
    then show False using nth_eq_iff_index_eq [OF new(3)] that k(1) by simp
  qed
qed


section \<open>What assignment leaves alone\<close>

lemma apply_defaults_settings:
  "apply_defaults c = Inr d \<Longrightarrow> c_nodes d = c_nodes c \<and> c_subscriptions d = c_subscriptions c
     \<and> c_refresh d = default_refresh (c_refresh c)"
  by (auto simp: apply_defaults_def Let_def split: if_splits option.splits)

lemma normalize_sticky_settings:
  "normalize_sticky c = Inr d \<Longrightarrow> c_nodes d = c_nodes c \<and> c_subscriptions d = c_subscriptions c \<and> c_refresh d = c_refresh c"
  by (auto simp: normalize_sticky_def Let_def split: if_splits option.splits)

lemma finish_config_settings:
  assumes "finish_config c = Inr d"
  shows "c_nodes d = c_nodes c \<and> c_subscriptions d = c_subscriptions c \<and> c_refresh d = c_refresh c"
proof -
  have "c_nodes (normalize_log_config x) = c_nodes x \<and> c_subscriptions (normalize_log_config x) = c_subscriptions x
      \<and> c_refresh (normalize_log_config x) = c_refresh x" for x
    by (simp add: normalize_log_config_def Let_def)
  then show ?thesis using normalize_sticky_settings [OF assms [unfolded finish_config_def]] by simp
qed

text \<open>What a node is, whatever its name, port and credentials: where it comes from and its trimmed URI.\<close>

definition node_origin :: "node_config \<Rightarrow> string \<times> string" where
  "node_origin n = (nc_source n, trim_space (nc_uri n))"

lemma tidy_node_origin: "tidy_node jc i n = Inr m \<Longrightarrow> node_origin m = node_origin n"
  by (auto simp: tidy_node_def node_origin_def Let_def split: if_splits)

lemma preserve_node_origin: "preserve_node jc pn pm used n = (m, u) \<Longrightarrow> node_origin (fst m) = node_origin n"
  by (auto simp: preserve_node_def node_origin_def split: option.splits if_splits)

lemma preserve_ports_origin:
  "preserve_ports jc pn pm i used ns = Inr (ms, u) \<Longrightarrow> map (node_origin \<circ> fst) ms = map node_origin ns"
proof (induction ns arbitrary: i used ms u)
  case (Cons n0 ns)
  from preserve_portsE [OF Cons.prems] obtain n m used' ms'
    where *: "tidy_node jc i n0 = Inr n" "preserve_node jc pn pm used n = (m, used')"
      "preserve_ports jc pn pm (i + 1) used' ns = Inr (ms', u)" "ms = m # ms'" by metis
  then show ?case using Cons.IH [OF *(3)] tidy_node_origin [OF *(1)] preserve_node_origin [OF *(2)] by simp
qed simp

lemma apply_credentials_origin [simp]: "node_origin (apply_credentials c n) = node_origin n"
  by (simp add: apply_credentials_def node_origin_def)

lemma node_origin_port [simp]: "node_origin (n\<lparr>nc_port := p\<rparr>) = node_origin n"
  by (simp add: node_origin_def)

lemma assign_fresh_origin: "assign_fresh av c used cur ns = Inr ms \<Longrightarrow> map node_origin ms = map node_origin ns"
proof (induction ns arbitrary: used cur ms)
  case (Cons n ns)
  then show ?case by (auto simp: map_sum_def split: if_splits option.splits sum.splits)
qed simp

lemma assign_ports_origin: "assign_ports av jc pm c = Inr ms \<Longrightarrow> map node_origin ms = map node_origin (c_nodes c)"
  by (auto simp: assign_ports_def dest!: assign_fresh_origin preserve_ports_origin split: if_splits sum.splits prod.splits)

lemma normalize_settings:
  assumes "normalize_with_port_map av jc pm c0 = Inr c"
  shows "c_subscriptions c = c_subscriptions c0" and "c_refresh c = default_refresh (c_refresh c0)"
    and "map node_origin (c_nodes c) = map node_origin (c_nodes c0)"
proof -
  obtain d out where d: "apply_defaults c0 = Inr d" and out: "assign_ports av jc pm d = Inr out"
    and fin: "finish_config (d\<lparr>c_nodes := out\<rparr>) = Inr c"
    using assms by (auto simp: normalize_with_port_map_def split: sum.splits)
  show "c_subscriptions c = c_subscriptions c0" "c_refresh c = default_refresh (c_refresh c0)"
    "map node_origin (c_nodes c) = map node_origin (c_nodes c0)"
    using apply_defaults_settings [OF d] finish_config_settings [OF fin] assign_ports_origin [OF out] by simp_all
qed

section \<open>Example\<close>

definition sample_config :: "node_config list \<Rightarrow> config" where
  "sample_config ns = \<lparr>c_mode = ''hybrid'',
     c_listener = \<lparr>li_address = [], li_port = 24000, li_username = [], li_password = []\<rparr>,
     c_multi_port = \<lparr>mp_address = [], mp_base_port = 0, mp_username = ''u'', mp_password = ''p''\<rparr>,
     c_pool = \<lparr>pl_mode = [], pl_failure_threshold = 0, pl_blacklist_duration = 0, pl_transient_cooldown = 0,
       pl_rate_limit_cooldown = 0, pl_retry_enabled = None, pl_blacklist_failed_pin = None, pl_retry_attempts = 0\<rparr>,
     c_sticky = \<lparr>sk_enabled = True, sk_port = 0, sk_session_enabled = None, sk_session_ttl = 0, sk_max_sessions = 0\<rparr>,
     c_management = \<lparr>mg_enabled = None, mg_listen = [], mg_probe_target = [], mg_password = [], mg_probe_concurrency = 0\<rparr>,
     c_refresh = \<lparr>rf_enabled = False, rf_interval = 0, rf_timeout = 0, rf_health_check_timeout = 0, rf_drain_timeout = 0,
       rf_min_available_nodes = 0, rf_fetch_concurrency = 0\<rparr>,
     c_geoip = \<lparr>ge_enabled = False, ge_database_path = [], ge_listen = [], ge_port = 0, ge_auto_update_enabled = False,
       ge_auto_update_interval = 0\<rparr>,
     c_log = \<lparr>lg_output = [], lg_file = [], lg_max_size = 0, lg_max_backups = 0, lg_max_age = 0, lg_compress = False\<rparr>,
     c_nodes = ns, c_nodes_file = [], c_subscriptions = [], c_external_ip = [], c_log_level = [],
     c_skip_cert_verify = False, c_file_path = []\<rparr>"

definition all_available :: "string \<Rightarrow> 16 word \<Rightarrow> bool" where "all_available a p = True"

definition sample_running :: config where
  "sample_running = sample_config [(node_of_uri [] ''a'')\<lparr>nc_port := 24005\<rparr>, (node_of_uri [] ''b'')\<lparr>nc_port := 24002\<rparr>]"

definition sample_next :: config where
  "sample_next = sample_config [node_of_uri [] ''c'', node_of_uri ''B'' ''b#new name'']"

lemma sample_port_map: "build_port_map no_json sample_running = [(''a'', 24005), (''b'', 24002)]"
  by code_simp

lemma sample_normalized:
  "case normalize_with_port_map all_available no_json [(''a'', 24005), (''b'', 24002)] sample_next of
     Inl _ \<Rightarrow> False
   | Inr c \<Rightarrow> map nc_port (c_nodes c) = [24003, 24002] \<and> c_mode c = ''hybrid'' \<and> 24002 \<notin> reserved_listener_ports c"
  by code_simp

lemma sample_result:
  obtains c where "normalize_with_port_map all_available no_json [(''a'', 24005), (''b'', 24002)] sample_next = Inr c"
    and "map nc_port (c_nodes c) = [24003, 24002]" and "per_node_ports c" and "24002 \<notin> reserved_listener_ports c"
  using sample_normalized by (auto simp: per_node_ports_def split: sum.splits)

theorem ports_never_collide_witness:
  "\<exists>c. normalize_with_port_map all_available no_json [(''a'', 24005), (''b'', 24002)] sample_next = Inr c
     \<and> ports_separate c \<and> map nc_port (c_nodes c) = [24003, 24002]"
proof -
  obtain c where c: "normalize_with_port_map all_available no_json [(''a'', 24005), (''b'', 24002)] sample_next = Inr c"
    "map nc_port (c_nodes c) = [24003, 24002]" "per_node_ports c" "24002 \<notin> reserved_listener_ports c"
    by (rule sample_result)
  show ?thesis by (intro exI [of _ c] conjI c(1,2) ports_never_collide [OF c(1,3)])
qed

lemma sample_keys:
  "map (node_key no_json) (c_nodes sample_running) = [''a'', ''b'']" "map (node_key no_json) (c_nodes sample_next) = [''c'', ''b'']"
  by code_simp+

lemma sample_nodes: "length (c_nodes sample_next) = 2" "c_nodes sample_next ! 0 = node_of_uri [] ''c''"
  "c_nodes sample_next ! 1 = node_of_uri ''B'' ''b#new name''"
  by (simp_all add: sample_next_def sample_config_def)

theorem reload_keeps_ports_witness:
  "\<exists>c. normalize_with_port_map all_available no_json (build_port_map no_json sample_running) sample_next = Inr c
     \<and> nc_port (c_nodes c ! 1) = nc_port (c_nodes sample_running ! 1)"
proof -
  let ?m = "(node_of_uri [] ''b'')\<lparr>nc_port := 24002\<rparr>"
  obtain c where c: "normalize_with_port_map all_available no_json (build_port_map no_json sample_running) sample_next = Inr c"
    "map nc_port (c_nodes c) = [24003, 24002]" "per_node_ports c" "24002 \<notin> reserved_listener_ports c"
    unfolding sample_port_map by (rule sample_result)
  have old: "ports_separate sample_running" by code_simp
  have m: "?m \<in> set (c_nodes sample_running)" "c_nodes sample_running ! 1 = ?m"
    by (simp_all add: sample_running_def sample_config_def)
  have key: "node_key no_json (c_nodes sample_next ! 1) = node_key no_json ?m" unfolding sample_nodes by code_simp
  show ?thesis
    using reload_keeps_ports [OF old _ m(1) c(1,3) _ _ key] sample_keys sample_nodes(1) m(2) c by simp
qed

end
