(* ===== verification/BoxNodes.thy ===== *)
theory BoxNodes
  imports PortFacts
begin

text \<open>
  Node management in \<open>internal/boxmgr/manager.go\<close>: listing, creating, updating and deleting configured
  nodes, and the ports new nodes get. Whether writing the configuration to disk succeeds is a
  parameter. The lock is held throughout, so an operation is one function from the configuration to
  the result and the configuration it leaves.
\<close>

datatype node_op_error = ConfigUnavailable | ContextEnded | NodeNotFound | InvalidNode | NameConflict string | PortConflict "16 word"
  | SaveFailed string

section \<open>Lookups\<close>

fun node_index :: "string \<Rightarrow> node_config list \<Rightarrow> nat option" where
  "node_index name [] = None"
| "node_index name (n # ns) = (if nc_name n = name then Some 0 else map_option Suc (node_index name ns))"

definition port_in_use :: "config \<Rightarrow> 16 word \<Rightarrow> string \<Rightarrow> bool" where
  "port_in_use c port current \<longleftrightarrow>
     port \<noteq> 0 \<and> list_ex (\<lambda>n. nc_name n \<noteq> current \<and> nc_port n = port) (c_nodes c)"

text \<open>The loop of \<open>nextAvailablePortLocked\<close> with its counter \<open>i\<close>.\<close>

function next_port_from :: "16 word set \<Rightarrow> 16 word \<Rightarrow> int \<Rightarrow> 16 word \<Rightarrow> 16 word" where
  "next_port_from used base i port =
     (if 65536 \<le> i then base
      else if port \<notin> used \<and> port \<noteq> 0 then port
      else let next = port + 1 in next_port_from used base (i + 1) (if next = 0 then 1 else next))"
  by pat_completeness auto
termination next_port_from
  by (relation "measure (\<lambda>(_, _, i, _). nat (65536 - i))") auto

declare next_port_from.simps [simp del]

definition next_available_port :: "config \<Rightarrow> 16 word" where
  "next_available_port c =
     (let base = or_port (mp_base_port (c_multi_port c)) 24000;
          used = set (filter (\<lambda>p. p > 0) (map nc_port (c_nodes c)))
      in next_port_from used base 0 base)"

section \<open>Operations\<close>

definition prepare_node :: "json_codec \<Rightarrow> config \<Rightarrow> node_config \<Rightarrow> string \<Rightarrow> node_op_error + node_config" where
  "prepare_node jc c node0 current =
     (let node = node0\<lparr>nc_name := trim_space (nc_name node0), nc_uri := trim_space (nc_uri node0)\<rparr>
      in if nc_uri node = [] then Inl InvalidNode
         else let name1 = (if nc_name node \<noteq> [] then nc_name node
                           else if current \<noteq> [] then current else extract_node_name jc (nc_uri node));
                  name = (if name1 = [] then ''node-'' @ itoa (int (length (c_nodes c)) + 1) else name1);
                  n = node\<lparr>nc_name := name\<rparr>
           in if node_index name (c_nodes c) \<noteq> None \<and> (current = [] \<or> name \<noteq> current) then Inl (NameConflict name)
              else if c_mode c = ''multi-port''
              then (if nc_port n \<noteq> 0 \<and> port_in_use c (nc_port n) current then Inl (PortConflict (nc_port n))
                    else Inr (apply_credentials c (if nc_port n = 0 then n\<lparr>nc_port := next_available_port c\<rparr> else n)))
              else Inr n)"

definition list_config_nodes :: "config option \<Rightarrow> node_op_error + node_config list" where
  "list_config_nodes cfg = (case cfg of None \<Rightarrow> Inl ConfigUnavailable | Some c \<Rightarrow> Inr (c_nodes c))"

definition create_node ::
  "(config \<Rightarrow> string option) \<Rightarrow> json_codec \<Rightarrow> bool \<Rightarrow> node_config \<Rightarrow> config option
    \<Rightarrow> (node_op_error + node_config) \<times> config option" where
  "create_node save jc ended node cfg =
     (if ended then (Inl ContextEnded, cfg)
      else case cfg of
          None \<Rightarrow> (Inl ConfigUnavailable, cfg)
        | Some c \<Rightarrow>
            (case prepare_node jc c node [] of
               Inl e \<Rightarrow> (Inl e, cfg)
             | Inr n0 \<Rightarrow>
                 let n = n0\<lparr>nc_source := source_inline\<rparr>; c' = c\<lparr>c_nodes := c_nodes c @ [n]\<rparr>
                 in case save c' of
                      Some e \<Rightarrow> (Inl (SaveFailed e), Some (c'\<lparr>c_nodes := butlast (c_nodes c')\<rparr>))
                    | None \<Rightarrow> (Inr n, Some c')))"

definition update_node ::
  "(config \<Rightarrow> string option) \<Rightarrow> json_codec \<Rightarrow> bool \<Rightarrow> string \<Rightarrow> node_config \<Rightarrow> config option
    \<Rightarrow> (node_op_error + node_config) \<times> config option" where
  "update_node save jc ended name0 node cfg =
     (let name = trim_space name0
      in if ended then (Inl ContextEnded, cfg)
         else case cfg of
             None \<Rightarrow> (Inl ConfigUnavailable, cfg)
           | Some c \<Rightarrow>
               (case node_index name (c_nodes c) of
                  None \<Rightarrow> (Inl NodeNotFound, cfg)
                | Some idx \<Rightarrow>
                    (case prepare_node jc c node name of
                       Inl e \<Rightarrow> (Inl e, cfg)
                     | Inr n0 \<Rightarrow>
                         let prev = c_nodes c ! idx; n = n0\<lparr>nc_source := nc_source prev\<rparr>;
                             c' = c\<lparr>c_nodes := (c_nodes c)[idx := n]\<rparr>
                         in case save c' of
                              Some e \<Rightarrow> (Inl (SaveFailed e), Some (c'\<lparr>c_nodes := (c_nodes c')[idx := prev]\<rparr>))
                            | None \<Rightarrow> (Inr n, Some c'))))"

definition delete_node ::
  "(config \<Rightarrow> string option) \<Rightarrow> bool \<Rightarrow> string \<Rightarrow> config option \<Rightarrow> node_op_error option \<times> config option" where
  "delete_node save ended name0 cfg =
     (let name = trim_space name0
      in if ended then (Some ContextEnded, cfg)
         else case cfg of
             None \<Rightarrow> (Some ConfigUnavailable, cfg)
           | Some c \<Rightarrow>
               (case node_index name (c_nodes c) of
                  None \<Rightarrow> (Some NodeNotFound, cfg)
                | Some idx \<Rightarrow>
                    let backup = c_nodes c; c' = c\<lparr>c_nodes := take idx (c_nodes c) @ drop (idx + 1) (c_nodes c)\<rparr>
                    in case save c' of
                         Some e \<Rightarrow> (Some (SaveFailed e), Some (c'\<lparr>c_nodes := backup\<rparr>))
                       | None \<Rightarrow> (None, Some c')))"

section \<open>The next free port\<close>

definition port_succ :: "16 word \<Rightarrow> 16 word" where
  "port_succ p = (if p + 1 = 0 then 1 else p + 1)"

lemma uint_succ: "uint (p + 1 :: 16 word) = (uint p + 1) mod 65536"
  by (simp add: uint_word_ariths)

lemma uint_port_succ: "p \<noteq> 0 \<Longrightarrow> uint (port_succ p) = uint p mod 65535 + 1"
proof -
  assume "p \<noteq> 0"
  then have "0 < uint p" using uint_ge_0 [of p] by (simp add: uint_0_iff order.strict_iff_order)
  moreover have "p + 1 = 0 \<longleftrightarrow> uint p = 65535"
    using uint_succ [of p] port_bound [of p] by (auto simp: uint_0_iff [symmetric] dest!: zdvd_imp_le)
  ultimately show ?thesis using uint_succ [of p] port_bound [of p] by (auto simp: port_succ_def)
qed

lemma port_succ_nonzero: "port_succ p \<noteq> 0"
  by (simp add: port_succ_def)

lemma uint_port_succ_pow:
  assumes "p \<noteq> 0"
  shows "uint ((port_succ ^^ i) p) = (uint p - 1 + int i) mod 65535 + 1"
proof (induction i)
  case 0
  have "0 < uint p" using assms uint_ge_0 [of p] by (simp add: uint_0_iff order.strict_iff_order)
  then show ?case using port_bound [of p] by (simp add: mod_pos_pos_trivial)
next
  case (Suc i)
  let ?q = "(port_succ ^^ i) p"
  have "?q \<noteq> 0" using assms port_succ_nonzero by (cases i) simp_all
  then show ?case using uint_port_succ [of ?q] Suc mod_add_right_eq [of 1 "int i + uint p - 1" 65535]
    by (simp add: algebra_simps)
qed

lemma next_port_from_none:
  "p \<noteq> 0 \<Longrightarrow> (\<forall>k. int k < 65536 - i \<longrightarrow> (port_succ ^^ k) p \<in> used) \<or>
     (next_port_from used base i p \<notin> used \<and> next_port_from used base i p \<noteq> 0)"
proof (induction used base i p rule: next_port_from.induct)
  case (1 used base i p)
  show ?case
  proof (cases "65536 \<le> i \<or> p \<notin> used")
    case False
    have step: "next_port_from used base i p = next_port_from used base (i + 1) (port_succ p)"
      using False by (subst next_port_from.simps) (simp add: port_succ_def Let_def)
    have IH: "(\<forall>k. int k < 65536 - (i + 1) \<longrightarrow> (port_succ ^^ k) (port_succ p) \<in> used) \<or>
        (next_port_from used base (i + 1) (port_succ p) \<notin> used \<and> next_port_from used base (i + 1) (port_succ p) \<noteq> 0)"
      using "1.IH" [of "p + 1", folded port_succ_def] False port_succ_nonzero by blast
    have "(port_succ ^^ k) p \<in> used"
      if all: "\<forall>k. int k < 65536 - (i + 1) \<longrightarrow> (port_succ ^^ k) (port_succ p) \<in> used" and k: "int k < 65536 - i" for k
    proof (cases k)
      case (Suc k')
      then have "(port_succ ^^ k') (port_succ p) \<in> used" using all k by simp
      then show ?thesis using Suc by (simp add: funpow_swap1)
    qed (use False in simp)
    then show ?thesis using IH unfolding step by blast
  qed (use "1.prems" in \<open>auto simp: next_port_from.simps\<close>)
qed

lemma every_port_is_visited:
  assumes "p \<noteq> 0" "q \<noteq> 0"
  shows "\<exists>i<65536. (port_succ ^^ i) p = q"
proof -
  let ?i = "nat ((uint q - uint p) mod 65535)"
  have q: "0 < uint q" using assms(2) uint_ge_0 [of q] by (simp add: uint_0_iff order.strict_iff_order)
  have "uint ((port_succ ^^ ?i) p) = (uint p - 1 + (uint q - uint p) mod 65535) mod 65535 + 1"
    using uint_port_succ_pow [OF assms(1), of ?i] by simp
  also have "\<dots> = (uint q - 1) mod 65535 + 1" by (simp add: mod_add_right_eq)
  also have "\<dots> = uint q" using q port_bound [of q] by (simp add: mod_pos_pos_trivial)
  finally have "(port_succ ^^ ?i) p = q" by (simp only: word_uint_eq_iff)
  moreover have "?i < 65536" by (simp add: nat_less_iff order.strict_trans [OF pos_mod_bound])
  ultimately show ?thesis by blast
qed

lemma next_available_port_free:
  assumes "length (c_nodes c) < 65535"
  shows "next_available_port c \<noteq> 0 \<and> next_available_port c \<notin> set (map nc_port (c_nodes c))"
proof -
  define used where "used = set (filter (\<lambda>p. p > 0) (map nc_port (c_nodes c)))"
  define base where "base = or_port (mp_base_port (c_multi_port c)) 24000"
  have base0: "base \<noteq> 0" by (simp add: base_def or_port_def)
  have "card used \<le> length (c_nodes c)" unfolding used_def
    by (rule order.trans [OF card_length]) (rule order.trans [OF length_filter_le], simp)
  moreover have "card (UNIV - {0 :: 16 word}) = 65535" by (simp add: card_Diff_singleton card_word)
  ultimately obtain q where q: "q \<noteq> 0" "q \<notin> used"
    using assms card_mono [of used "UNIV - {0}"] by (metis DiffE UNIV_I card_mono finite_set insertI1 leD le_less_trans subsetI used_def Diff_iff singletonD)
  obtain i where i: "i < 65536" "(port_succ ^^ i) base = q" using every_port_is_visited [OF base0 q(1)] by blast
  then have "\<not> (\<forall>k. int k < 65536 - 0 \<longrightarrow> (port_succ ^^ k) base \<in> used)" using q(2) by auto
  then have "next_port_from used base 0 base \<notin> used \<and> next_port_from used base 0 base \<noteq> 0"
    using next_port_from_none [OF base0, of 0 used base] by blast
  then show ?thesis by (auto simp: next_available_port_def used_def base_def Let_def word_gt_0)
qed


section \<open>What the operations keep\<close>

definition config_nodes_ok :: "config \<Rightarrow> bool" where
  "config_nodes_ok c \<longleftrightarrow> distinct (map nc_name (c_nodes c)) \<and> [] \<notin> set (map nc_name (c_nodes c)) \<and>
     (c_mode c = ''multi-port'' \<longrightarrow> distinct (map nc_port (c_nodes c)) \<and> 0 \<notin> set (map nc_port (c_nodes c)))"

datatype node_request = CreateNode node_config | UpdateNode string node_config | DeleteNode string

definition run_request ::
  "(config \<Rightarrow> string option) \<Rightarrow> json_codec \<Rightarrow> bool \<Rightarrow> node_request \<Rightarrow> config option \<Rightarrow> node_op_error option \<times> config option" where
  "run_request save jc ended r cfg =
     (case r of
        CreateNode n \<Rightarrow> (let (res, cfg') = create_node save jc ended n cfg in (case res of Inl e \<Rightarrow> Some e | Inr _ \<Rightarrow> None, cfg'))
      | UpdateNode nm n \<Rightarrow> (let (res, cfg') = update_node save jc ended nm n cfg in (case res of Inl e \<Rightarrow> Some e | Inr _ \<Rightarrow> None, cfg'))
      | DeleteNode nm \<Rightarrow> delete_node save ended nm cfg)"

lemma node_index_Some: "node_index name ns = Some i \<Longrightarrow> i < length ns \<and> nc_name (ns ! i) = name"
  by (induction ns arbitrary: i) (auto split: if_splits)

lemma node_index_None: "node_index name ns = None \<longleftrightarrow> name \<notin> set (map nc_name ns)"
  by (induction ns) auto

lemma apply_credentials_name [simp]: "nc_name (apply_credentials c n) = nc_name n"
  by (simp add: apply_credentials_def)

lemma prepare_node_name:
  assumes "prepare_node jc c node current = Inr n"
  shows "nc_name n \<notin> set (map nc_name (c_nodes c)) \<or> (nc_name n = current \<and> current \<noteq> [])"
  using assms by (auto simp: prepare_node_def Let_def node_index_None split: if_splits simp del: not_None_eq)

lemma prepare_node_named: "prepare_node jc c node current = Inr n \<Longrightarrow> nc_name n \<noteq> []"
  by (auto simp: prepare_node_def Let_def split: if_splits)

lemma prepare_node_multi:
  assumes "prepare_node jc c node current = Inr n" and "c_mode c = ''multi-port''"
  shows "nc_port n = (if nc_port node = 0 then next_available_port c else nc_port node)
    \<and> (nc_port node \<noteq> 0 \<longrightarrow> \<not> port_in_use c (nc_port node) current)"
  using assms by (auto simp: prepare_node_def Let_def split: if_splits)

lemma prepare_node_port:
  assumes "prepare_node jc c node current = Inr n" and "c_mode c = ''multi-port''" and "length (c_nodes c) < 65535"
    and "m \<in> set (c_nodes c)" and "nc_name m \<noteq> current"
  shows "nc_port m \<noteq> nc_port n"
proof (cases "nc_port node = 0")
  case True
  then have "nc_port n \<notin> set (map nc_port (c_nodes c))"
    using prepare_node_multi [OF assms(1,2)] next_available_port_free [OF assms(3)] by simp
  then show ?thesis using assms(4) by (metis image_eqI list.set_map)
next
  case False
  then show ?thesis using prepare_node_multi [OF assms(1,2)] assms(4,5) by (auto simp: port_in_use_def list_ex_iff)
qed

lemma prepare_node_port_set:
  assumes "prepare_node jc c node current = Inr n" and "c_mode c = ''multi-port''" and "length (c_nodes c) < 65535"
  shows "nc_port n \<noteq> 0"
  using assms next_available_port_free [OF assms(3)]
  by (auto simp: prepare_node_def Let_def split: if_splits)

lemma prepared_append:
  assumes ok: "config_nodes_ok c" and len: "length (c_nodes c) < 65535" and prep: "prepare_node jc c node [] = Inr n"
  shows "config_nodes_ok (c\<lparr>c_nodes := c_nodes c @ [n\<lparr>nc_source := src\<rparr>]\<rparr>)"
proof -
  have "nc_name n \<notin> set (map nc_name (c_nodes c))" using prepare_node_name [OF prep] by blast
  moreover have "nc_port n \<noteq> 0 \<and> nc_port n \<notin> set (map nc_port (c_nodes c))" if mode: "c_mode c = ''multi-port''"
  proof -
    have "nc_port m \<noteq> nc_port n" if "m \<in> set (c_nodes c)" for m
      using ok that by (intro prepare_node_port [OF prep mode len that]) (force simp: config_nodes_ok_def)
    then have "nc_port n \<notin> set (map nc_port (c_nodes c))" by (metis imageE list.set_map)
    then show ?thesis using prepare_node_port_set [OF prep mode len] by blast
  qed
  ultimately show ?thesis using ok prepare_node_named [OF prep] by (auto simp: config_nodes_ok_def)
qed

lemma distinct_map_update:
  assumes "distinct (map f xs)" and "i < length xs" and "\<And>m. m \<in> set xs \<Longrightarrow> f m \<noteq> f (xs ! i) \<Longrightarrow> f m \<noteq> f y"
  shows "distinct (map f (xs[i := y]))"
proof -
  have new: "f (xs ! j) \<noteq> f y" if "j < length xs" "j \<noteq> i" for j
    using assms that by (intro assms(3)) (auto simp: distinct_conv_nth)
  then have "f y \<noteq> f (xs ! j)" if "j < length xs" "j \<noteq> i" for j using that by metis
  then show ?thesis using assms(1,2) new by (auto simp: distinct_conv_nth nth_list_update)
qed

lemma other_name:
  assumes "config_nodes_ok c" "i < length (c_nodes c)" "j < length (c_nodes c)" "j \<noteq> i"
  shows "nc_name (c_nodes c ! j) \<noteq> nc_name (c_nodes c ! i)"
  using assms by (auto simp: config_nodes_ok_def distinct_conv_nth)

lemma prepared_update:
  assumes ok: "config_nodes_ok c" and len: "length (c_nodes c) < 65535"
    and idx: "i < length (c_nodes c)" and prep: "prepare_node jc c node (nc_name (c_nodes c ! i)) = Inr n"
  shows "config_nodes_ok (c\<lparr>c_nodes := (c_nodes c)[i := n\<lparr>nc_source := src\<rparr>]\<rparr>)"
proof -
  let ?ns = "(c_nodes c)[i := n\<lparr>nc_source := src\<rparr>]"
  have "nc_name m \<noteq> nc_name n" if "m \<in> set (c_nodes c)" "nc_name m \<noteq> nc_name (c_nodes c ! i)" for m
    using prepare_node_name [OF prep] that by (metis image_eqI list.set_map)
  then have names: "distinct (map nc_name ?ns)" using ok idx by (intro distinct_map_update) (auto simp: config_nodes_ok_def)
  have named: "[] \<notin> set (map nc_name ?ns)"
    using ok prepare_node_named [OF prep] set_update_subset_insert [of "c_nodes c" i "n\<lparr>nc_source := src\<rparr>"]
    by (auto simp: config_nodes_ok_def)
  have "distinct (map nc_port ?ns) \<and> 0 \<notin> set (map nc_port ?ns)" if mode: "c_mode c = ''multi-port''"
  proof -
    have old: "distinct (map nc_port (c_nodes c))" "0 \<notin> set (map nc_port (c_nodes c))"
      using ok mode by (simp_all add: config_nodes_ok_def)
    have "nc_port m \<noteq> nc_port (n\<lparr>nc_source := src\<rparr>)"
      if m: "m \<in> set (c_nodes c)" "nc_port m \<noteq> nc_port (c_nodes c ! i)" for m
    proof -
      obtain j where j: "j < length (c_nodes c)" "m = c_nodes c ! j" using m(1) by (auto simp: in_set_conv_nth)
      then have "nc_name m \<noteq> nc_name (c_nodes c ! i)" using other_name [OF ok idx j(1)] m(2) by auto
      then show ?thesis using prepare_node_port [OF prep mode len m(1)] by simp
    qed
    then have "distinct (map nc_port ?ns)" using old(1) idx by (intro distinct_map_update) auto
    moreover have "0 \<notin> set (map nc_port ?ns)"
      using old(2) prepare_node_port_set [OF prep mode len] set_update_subset_insert [of "c_nodes c" i "n\<lparr>nc_source := src\<rparr>"]
      by auto
    ultimately show ?thesis ..
  qed
  then show ?thesis using names named by (simp add: config_nodes_ok_def)
qed

lemma removed_nodes_ok:
  assumes "config_nodes_ok c"
  shows "config_nodes_ok (c\<lparr>c_nodes := take i (c_nodes c) @ drop (i + 1) (c_nodes c)\<rparr>)"
proof -
  have d: "distinct (map f (take i xs @ drop (Suc i) xs))" if "distinct (map f xs)" for f :: "node_config \<Rightarrow> 'b" and xs
    using that by (simp add: distinct_map [symmetric] take_map [symmetric] drop_map [symmetric] set_take_disj_set_drop_if_distinct)
  show ?thesis using assms by (auto simp: config_nodes_ok_def d simp del: map_append dest: in_set_takeD in_set_dropD)
qed


lemma create_node_ok:
  assumes "config_nodes_ok c" and "length (c_nodes c) < 65535" and "create_node save jc ended node (Some c) = (res, Some c')"
  shows "config_nodes_ok c' \<and> (case res of Inl _ \<Rightarrow> c' = c | Inr n \<Rightarrow> c' = c\<lparr>c_nodes := c_nodes c @ [n]\<rparr>)"
  using assms prepared_append [OF assms(1,2)]
  by (auto simp: create_node_def Let_def split: if_splits sum.splits option.splits)

lemma update_node_ok:
  assumes "config_nodes_ok c" and "length (c_nodes c) < 65535" and "update_node save jc ended name node (Some c) = (res, Some c')"
  shows "config_nodes_ok c' \<and> (case res of Inl _ \<Rightarrow> c' = c | Inr _ \<Rightarrow> length (c_nodes c') = length (c_nodes c))"
proof (cases "ended \<or> node_index (trim_space name) (c_nodes c) = None")
  case False
  then obtain i where i: "node_index (trim_space name) (c_nodes c) = Some i" by auto
  note at = node_index_Some [OF i]
  show ?thesis
  proof (cases "prepare_node jc c node (trim_space name)")
    case (Inr n)
    let ?n = "n\<lparr>nc_source := nc_source (c_nodes c ! i)\<rparr>"
    have "config_nodes_ok (c\<lparr>c_nodes := (c_nodes c)[i := ?n]\<rparr>)"
      using prepared_update [OF assms(1,2), of i jc node n] at Inr by simp
    then show ?thesis using assms False i Inr
      by (cases "save (c\<lparr>c_nodes := (c_nodes c)[i := ?n]\<rparr>)") (auto simp: update_node_def Let_def)
  next
    case (Inl e)
    then have "res = Inl e" "c' = c" using assms False i by (simp_all add: update_node_def Let_def)
    then show ?thesis using assms(1) by simp
  qed
next
  case True
  then show ?thesis using assms by (cases ended) (auto simp: update_node_def Let_def)
qed

lemma delete_node_ok:
  assumes "config_nodes_ok c" and "delete_node save ended name (Some c) = (res, Some c')"
  shows "config_nodes_ok c' \<and> (res \<noteq> None \<longrightarrow> c' = c)"
  using assms removed_nodes_ok [OF assms(1)]
  by (auto simp: delete_node_def Let_def split: if_splits option.splits)

lemma run_request_ok:
  assumes "config_nodes_ok c" and "length (c_nodes c) < 65535" and run: "run_request save jc ended r (Some c) = (res, Some c')"
  shows "config_nodes_ok c' \<and> (res \<noteq> None \<longrightarrow> c' = c)"
proof (cases r)
  case (CreateNode n)
  obtain out where "create_node save jc ended n (Some c) = (out, Some c')" "res = (case out of Inl e \<Rightarrow> Some e | Inr _ \<Rightarrow> None)"
    using run CreateNode by (auto simp: run_request_def split: prod.splits)
  then show ?thesis using create_node_ok [OF assms(1,2)] by (cases out) fastforce+
next
  case (UpdateNode nm n)
  obtain out where "update_node save jc ended nm n (Some c) = (out, Some c')" "res = (case out of Inl e \<Rightarrow> Some e | Inr _ \<Rightarrow> None)"
    using run UpdateNode by (auto simp: run_request_def split: prod.splits)
  then show ?thesis using update_node_ok [OF assms(1,2)] by (cases out) fastforce+
next
  case (DeleteNode nm)
  then show ?thesis using delete_node_ok [OF assms(1)] run by (simp add: run_request_def)
qed

text \<open>What a request that succeeds does to the list of nodes.\<close>

fun edits_nodes :: "node_request \<Rightarrow> node_config list \<Rightarrow> node_config list \<Rightarrow> bool" where
  "edits_nodes (CreateNode n) old new \<longleftrightarrow> (\<exists>m. new = old @ [m] \<and> nc_uri m = trim_space (nc_uri n) \<and> nc_source m = source_inline
     \<and> (nc_port n \<noteq> 0 \<longrightarrow> nc_port m = nc_port n))"
| "edits_nodes (UpdateNode name n) old new \<longleftrightarrow> (\<exists>i m. i < length old \<and> nc_name (old ! i) = trim_space name \<and> new = old[i := m]
     \<and> nc_uri m = trim_space (nc_uri n) \<and> nc_source m = nc_source (old ! i) \<and> (nc_port n \<noteq> 0 \<longrightarrow> nc_port m = nc_port n))"
| "edits_nodes (DeleteNode name) old new \<longleftrightarrow> (\<exists>i. i < length old \<and> nc_name (old ! i) = trim_space name
     \<and> new = take i old @ drop (i + 1) old)"

lemma prepare_node_fields:
  "prepare_node jc c node current = Inr n \<Longrightarrow> nc_uri n = trim_space (nc_uri node) \<and> (nc_port node \<noteq> 0 \<longrightarrow> nc_port n = nc_port node)"
  by (auto simp: prepare_node_def Let_def apply_credentials_def split: if_splits)

lemma run_request_edits:
  assumes "run_request save jc ended r (Some c) = (None, Some c')"
  shows "\<exists>ns. c' = c\<lparr>c_nodes := ns\<rparr> \<and> edits_nodes r (c_nodes c) ns"
proof (cases r)
  case (CreateNode n)
  then obtain n0 where n0: "prepare_node jc c n [] = Inr n0" "c' = c\<lparr>c_nodes := c_nodes c @ [n0\<lparr>nc_source := source_inline\<rparr>]\<rparr>"
    using assms by (auto simp: run_request_def create_node_def Let_def split: if_splits sum.splits option.splits)
  then show ?thesis using CreateNode prepare_node_fields [OF n0(1)] by auto
next
  case (UpdateNode nm n)
  then obtain i n0 where n0: "node_index (trim_space nm) (c_nodes c) = Some i" "prepare_node jc c n (trim_space nm) = Inr n0"
      "c' = c\<lparr>c_nodes := (c_nodes c)[i := n0\<lparr>nc_source := nc_source (c_nodes c ! i)\<rparr>]\<rparr>"
    using assms by (auto simp: run_request_def update_node_def Let_def split: if_splits sum.splits option.splits)
  then show ?thesis using UpdateNode prepare_node_fields [OF n0(2)] node_index_Some [OF n0(1)]
    by (intro exI [of _ "(c_nodes c)[i := n0\<lparr>nc_source := nc_source (c_nodes c ! i)\<rparr>]"]) (auto intro!: exI [of _ i])
next
  case (DeleteNode nm)
  then obtain i where "node_index (trim_space nm) (c_nodes c) = Some i" "c' = c\<lparr>c_nodes := take i (c_nodes c) @ drop (i + 1) (c_nodes c)\<rparr>"
    using assms by (auto simp: run_request_def delete_node_def Let_def split: if_splits option.splits)
  then show ?thesis using DeleteNode node_index_Some [of "trim_space nm" "c_nodes c" i]
    by (intro exI [of _ "take i (c_nodes c) @ drop (i + 1) (c_nodes c)"]) (auto intro!: exI [of _ i])
qed

text \<open>C25: Creating, updating or deleting a node keeps the configured names distinct and set and, in the mode \<open>multi-port\<close>, the ports distinct
  and set (in the mode \<open>hybrid\<close> the code does not look at the port of an edited node). A request that succeeds adds exactly the new
  node at the end, replaces exactly the named one with its origin kept, or removes exactly the named one; a refused request, or
  one whose configuration file could not be written, leaves the configuration as it was.\<close>

theorem node_requests_keep_config:
  assumes "config_nodes_ok c" and "length (c_nodes c) < 65535" and "run_request save jc ended r (Some c) = (res, Some c')"
  shows "distinct (map nc_name (c_nodes c')) \<and> [] \<notin> set (map nc_name (c_nodes c'))
    \<and> (c_mode c = ''multi-port'' \<longrightarrow> distinct (map nc_port (c_nodes c')) \<and> 0 \<notin> set (map nc_port (c_nodes c')))
    \<and> (res \<noteq> None \<longrightarrow> c' = c)
    \<and> (res = None \<longrightarrow> (\<exists>ns. c' = c\<lparr>c_nodes := ns\<rparr> \<and> edits_nodes r (c_nodes c) ns))"
proof -
  have ok: "config_nodes_ok c' \<and> (res \<noteq> None \<longrightarrow> c' = c)" by (rule run_request_ok [OF assms])
  have edited: "\<exists>ns. c' = c\<lparr>c_nodes := ns\<rparr> \<and> edits_nodes r (c_nodes c) ns" if "res = None"
    using run_request_edits assms(3) that by simp
  have "c_mode c' = c_mode c" using ok edited by (cases res) auto
  then show ?thesis using ok edited by (simp add: config_nodes_ok_def)
qed

definition sample_nodes_config :: config where
  "sample_nodes_config = (sample_config [(node_of_uri ''a'' ''x'')\<lparr>nc_port := 65535\<rparr>, (node_of_uri ''b'' ''y'')\<lparr>nc_port := 1\<rparr>])
     \<lparr>c_mode := ''multi-port'', c_multi_port := \<lparr>mp_address = [], mp_base_port = 65535, mp_username = [], mp_password = []\<rparr>\<rparr>"

lemma sample_nodes_facts:
  "config_nodes_ok sample_nodes_config" "length (c_nodes sample_nodes_config) < 65535"
  "map nc_port (c_nodes sample_nodes_config) = [65535, 1]" "map nc_name (c_nodes sample_nodes_config) = [''a'', ''b'']"
  "mp_base_port (c_multi_port sample_nodes_config) = 65535" "c_mode sample_nodes_config = ''multi-port''"
  by (simp_all add: config_nodes_ok_def sample_nodes_config_def sample_config_def node_of_uri_def)

lemma sample_next_port: "next_available_port sample_nodes_config = 2"
  by (simp add: next_available_port_def sample_nodes_facts or_port_def next_port_from.simps)

definition sample_node_request :: node_request where "sample_node_request = CreateNode (node_of_uri '' c '' ''z'')"

lemma sample_prepared:
  "prepare_node no_json sample_nodes_config (node_of_uri '' c '' ''z'') []
    = Inr ((node_of_uri ''c'' ''z'')\<lparr>nc_port := 2\<rparr>)"
proof -
  have "node_index ''c'' (c_nodes sample_nodes_config) = None"
    unfolding node_index_None sample_nodes_facts(4) by simp
  moreover have "mp_username (c_multi_port sample_nodes_config) = []" "mp_password (c_multi_port sample_nodes_config) = []"
    by (simp_all add: sample_nodes_config_def)
  moreover have "trim_space '' c '' = ''c''" "trim_space ''z'' = ''z''" by (simp_all add: trim_space_def is_space_def)
  ultimately show ?thesis
    by (simp add: prepare_node_def Let_def node_of_uri_def sample_nodes_facts(6) sample_next_port apply_credentials_def)
qed

theorem node_requests_keep_config_witness:
  "\<exists>c'. run_request (\<lambda>_. None) no_json False sample_node_request (Some sample_nodes_config) = (None, Some c')
     \<and> distinct (map nc_name (c_nodes c')) \<and> map nc_port (c_nodes c') = [65535, 1, 2]"
proof -
  let ?n = "(node_of_uri ''c'' ''z'')\<lparr>nc_port := 2, nc_source := source_inline\<rparr>"
  let ?c = "sample_nodes_config\<lparr>c_nodes := c_nodes sample_nodes_config @ [?n]\<rparr>"
  have "create_node (\<lambda>_. None) no_json False (node_of_uri '' c '' ''z'') (Some sample_nodes_config) = (Inr ?n, Some ?c)"
    by (simp add: create_node_def sample_prepared Let_def)
  then have run: "run_request (\<lambda>_. None) no_json False sample_node_request (Some sample_nodes_config) = (None, Some ?c)"
    by (simp add: run_request_def sample_node_request_def)
  moreover have "map nc_port (c_nodes ?c) = [65535, 1, 2]" by (simp add: sample_nodes_facts(3))
  moreover note node_requests_keep_config [OF sample_nodes_facts(1,2) run, THEN conjunct1]
  ultimately show ?thesis by (intro exI [of _ ?c] conjI)
qed

text \<open>In the mode \<open>hybrid\<close> every node has a listener too, and a new node is accepted on the port of another.\<close>

lemma hybrid_edit_repeats_a_port:
  "\<exists>c'. run_request (\<lambda>_. None) no_json False (CreateNode ((node_of_uri ''c'' ''z'')\<lparr>nc_port := 1\<rparr>))
       (Some (sample_nodes_config\<lparr>c_mode := ''hybrid''\<rparr>)) = (None, Some c')
     \<and> map nc_port (c_nodes (sample_nodes_config\<lparr>c_mode := ''hybrid''\<rparr>)) = [65535, 1] \<and> map nc_port (c_nodes c') = [65535, 1, 1]"
proof -
  let ?h = "sample_nodes_config\<lparr>c_mode := ''hybrid''\<rparr>"
  let ?n = "(node_of_uri ''c'' ''z'')\<lparr>nc_port := 1\<rparr>"
  have "node_index ''c'' (c_nodes ?h) = None" using sample_nodes_facts(4) by (simp add: node_index_None)
  moreover have "trim_space ''c'' = ''c''" "trim_space ''z'' = ''z''" by (simp_all add: trim_space_def is_space_def)
  ultimately have "prepare_node no_json ?h ?n [] = Inr ?n" by (simp add: prepare_node_def Let_def node_of_uri_def)
  then have "run_request (\<lambda>_. None) no_json False (CreateNode ?n) (Some ?h)
      = (None, Some (?h\<lparr>c_nodes := c_nodes ?h @ [?n\<lparr>nc_source := source_inline\<rparr>]\<rparr>))"
    by (simp add: run_request_def create_node_def Let_def)
  then show ?thesis using sample_nodes_facts(3) by simp
qed

text \<open>The port \<open>nextAvailablePortLocked\<close> hands to a new node is not zero and belongs to no configured node,
  wherever the search starts and although the 16-bit counter wraps, as long as one port is left.\<close>

lemma next_port_is_free:
  assumes "length (c_nodes c) < 65535"
  shows "next_available_port c \<noteq> 0 \<and> next_available_port c \<notin> set (map nc_port (c_nodes c))"
  by (rule next_available_port_free [OF assms])

lemma next_port_is_free_example:
  "next_available_port sample_nodes_config = 2 \<and> next_available_port sample_nodes_config \<noteq> 0
     \<and> next_available_port sample_nodes_config \<notin> set (map nc_port (c_nodes sample_nodes_config))"
  using next_port_is_free [OF sample_nodes_facts(2)] sample_next_port by blast

end
