(* ===== verification/BoxReload.thy ===== *)
theory BoxReload
  imports BoxNodes
begin

text \<open>
  The life cycle of the sing-box instance in \<open>internal/boxmgr/manager.go\<close>: start, reload with retries,
  rollback and close. Every call that leaves the manager advances a step counter, and the environment
  says for each step whether the context has ended and whether creating or starting an instance
  fails, and how. Calls to the other components are recorded as effects in their order. The
  lifecycle lock makes the operations atomic to each other; cancellation from outside is the
  environment's choice at every step.
\<close>

section \<open>Bind errors\<close>

definition bind_tail :: string where "bind_tail = '': bind: address already in use''"

text \<open>After the host: a colon, digits and the fixed tail.\<close>

definition bind_port_at :: "string \<Rightarrow> string option" where
  "bind_port_at s =
     (case s of
        c # r \<Rightarrow>
          (let digits = takeWhile is_digit r
           in if c = CHR '':'' \<and> digits \<noteq> [] \<and> has_prefix (drop (length digits) r) bind_tail then Some digits else None)
      | [] \<Rightarrow> None)"

text \<open>The expression at one position. A host in brackets is tried first, then one without a colon.\<close>

definition bind_host_at :: "string \<Rightarrow> string option" where
  "bind_host_at s =
     (let bracketed = (case index_byte s CHR '']'' of
              Some i \<Rightarrow> if has_prefix s ''['' then bind_port_at (drop (i + 1) s) else None
            | None \<Rightarrow> None);
          host = takeWhile (\<lambda>c. c \<noteq> CHR '':'') s
      in case bracketed of
           Some d \<Rightarrow> Some d
         | None \<Rightarrow> if host \<noteq> [] then bind_port_at (drop (length host) s) else None)"

definition bind_error_at :: "string \<Rightarrow> string option" where
  "bind_error_at s =
     (if has_prefix s ''listen tcp''
      then (let r = drop 10 s; r' = (if has_prefix r ''4'' \<or> has_prefix r ''6'' then drop 1 r else r)
            in if has_prefix r' '' '' then bind_host_at (drop 1 r') else None)
      else None)"

fun find_bind_error :: "string \<Rightarrow> string option" where
  "find_bind_error [] = None"
| "find_bind_error (c # s) =
     (case bind_error_at (c # s) of Some d \<Rightarrow> Some d | None \<Rightarrow> find_bind_error s)"

definition extract_port :: "string \<Rightarrow> 16 word" where
  "extract_port message =
     (case find_bind_error message of
        None \<Rightarrow> 0
      | Some digits \<Rightarrow>
          (let port = digits_value 0 digits in if 0 < port \<and> port \<le> 65535 then of_int port else 0))"

section \<open>Moving one node\<close>

definition reassign_used :: "config \<Rightarrow> 16 word set" where
  "reassign_used c =
     (if c_mode c = ''hybrid'' then {li_port (c_listener c)} else {})
     \<union> (if sk_enabled (c_sticky c)
        then {if sk_port (c_sticky c) = 0 \<and> li_port (c_listener c) < 65535 then li_port (c_listener c) + 1
              else sk_port (c_sticky c)} else {})
     \<union> (if ge_enabled (c_geoip c) then {geoip_router_port c} else {})
     \<union> set (map nc_port (c_nodes c))"

fun port_index :: "16 word \<Rightarrow> node_config list \<Rightarrow> nat option" where
  "port_index port [] = None"
| "port_index port (n # ns) = (if nc_port n = port then Some 0 else map_option Suc (port_index port ns))"

definition reassign_conflicting_port :: "(string \<Rightarrow> 16 word \<Rightarrow> bool) \<Rightarrow> config \<Rightarrow> 16 word \<Rightarrow> config \<times> bool" where
  "reassign_conflicting_port available c conflict =
     (case port_index conflict (c_nodes c) of
        None \<Rightarrow> (c, False)
      | Some idx \<Rightarrow>
          (case next_free (available (or_text (mp_address (c_multi_port c)) ''0.0.0.0'')) (reassign_used c) (uint conflict + 1) of
             None \<Rightarrow> (c, False)
           | Some p \<Rightarrow> (c\<lparr>c_nodes := (c_nodes c)[idx := (c_nodes c ! idx)\<lparr>nc_port := of_int p\<rparr>]\<rparr>, True)))"

section \<open>State and environment\<close>

datatype box_status = Created | Running | Closed

record box =
  b_config :: config
  b_status :: box_status

datatype effect =
    ResetSharedState | ClearNodes | SetServerConfig config | ProbeAll | StartHealthCheck | StartServer | StopMonitor
  | ShutdownServer | ConfigureStore int duration | ClearSessions | StopRouter | StartRouter string "16 word" | CancelBase
  | SavePorts "port_map option"

record manager =
  bm_boxes :: "box list"                       \<comment> \<open>every instance created, by address\<close>
  bm_current :: "nat option"
  bm_cfg :: "config option"
  bm_monitor :: bool
  bm_server :: bool
  bm_router :: "(string \<times> 16 word) option"
  bm_drain_timeout :: duration
  bm_min_available :: int
  bm_base :: bool                              \<comment> \<open>\<open>baseCtx\<close> and \<open>baseCancel\<close> are set\<close>
  bm_closed :: bool
  bm_health_started :: bool
  bm_tick :: nat
  bm_effects :: "effect list"                  \<comment> \<open>newest first\<close>

record box_env =
  e_cancelled :: "nat \<Rightarrow> bool"
  e_create :: "nat \<Rightarrow> config \<Rightarrow> string option"
  e_start :: "nat \<Rightarrow> config \<Rightarrow> string option"
  e_close :: "nat \<Rightarrow> string option"
  e_port_free :: "nat \<Rightarrow> string \<Rightarrow> 16 word \<Rightarrow> bool"
  e_router :: "nat \<Rightarrow> bool"                       \<comment> \<open>the region router can listen\<close>
  e_monitor :: "string option"                 \<comment> \<open>the error of \<open>monitor.NewManager\<close>\<close>
  e_monitor_enabled :: bool
  e_available :: "nat \<Rightarrow> int"                     \<comment> \<open>nodes that passed their first check\<close>
  e_polls :: nat                               \<comment> \<open>polls before the health deadline\<close>
  e_json :: json_codec

datatype box_error =
    CtxEnded | ManagerClosed | NoConfig | NoNewConfig | AlreadyRunning | NotStarted | MonitorInit string
  | CreateError string | StartError string | StartExhausted string | NormalizeError config_error
  | UpdateError string | PersistError string | PersistRollbackError string box_error | CloseError string

definition emit :: "effect \<Rightarrow> manager \<Rightarrow> manager" where
  "emit x s = s\<lparr>bm_effects := x # bm_effects s\<rparr>"

definition advance :: "manager \<Rightarrow> manager" where
  "advance s = s\<lparr>bm_tick := bm_tick s + 1\<rparr>"

text \<open>\<open>ctx.Err()\<close>, and \<open>waitForContext\<close>, which ends early when the context does.\<close>

definition poll_ctx :: "box_env \<Rightarrow> manager \<Rightarrow> bool \<times> manager" where
  "poll_ctx e s = (e_cancelled e (bm_tick s), advance s)"

definition create_instance :: "box_env \<Rightarrow> config \<Rightarrow> manager \<Rightarrow> (string + nat) \<times> manager" where
  "create_instance e c s =
     (case e_create e (bm_tick s) c of
        Some m \<Rightarrow> (Inl m, advance s)
      | None \<Rightarrow> (Inr (length (bm_boxes s)), (advance s)\<lparr>bm_boxes := bm_boxes s @ [\<lparr>b_config = c, b_status = Created\<rparr>]\<rparr>))"

definition set_status :: "nat \<Rightarrow> box_status \<Rightarrow> manager \<Rightarrow> manager" where
  "set_status i st s = s\<lparr>bm_boxes := (bm_boxes s)[i := (bm_boxes s ! i)\<lparr>b_status := st\<rparr>]\<rparr>"

definition start_box :: "box_env \<Rightarrow> nat \<Rightarrow> manager \<Rightarrow> string option \<times> manager" where
  "start_box e i s =
     (case e_start e (bm_tick s) (b_config (bm_boxes s ! i)) of
        Some m \<Rightarrow> (Some m, advance s)
      | None \<Rightarrow> (None, set_status i Running (advance s)))"

definition close_box :: "nat \<Rightarrow> manager \<Rightarrow> manager" where
  "close_box i s = set_status i Closed (advance s)"

definition stop_router :: "manager \<Rightarrow> manager" where
  "stop_router s = (case bm_router s of None \<Rightarrow> s | Some _ \<Rightarrow> emit StopRouter (s\<lparr>bm_router := None\<rparr>))"

definition start_router :: "box_env \<Rightarrow> config \<Rightarrow> manager \<Rightarrow> manager" where
  "start_router e c s0 =
     (let s = stop_router s0; port = geoip_router_port c; listen = or_text (ge_listen (c_geoip c)) (li_address (c_listener c))
      in if e_router e (bm_tick s) then emit (StartRouter listen port) ((advance s)\<lparr>bm_router := Some (listen, port)\<rparr>)
         else advance s)"

definition apply_settings :: "config \<Rightarrow> manager \<Rightarrow> manager" where
  "apply_settings c s =
     (emit (ConfigureStore (max_sessions_or_default (c_sticky c)) (session_ttl_or_default (c_sticky c))) s)
     \<lparr>bm_drain_timeout := (if rf_drain_timeout (c_refresh c) > 0 then rf_drain_timeout (c_refresh c)
        else if bm_drain_timeout s = 0 then 10 * second else bm_drain_timeout s),
      bm_min_available := rf_min_available_nodes (c_refresh c)\<rparr>"

definition clear_registered :: "manager \<Rightarrow> manager" where
  "clear_registered s = (if bm_monitor s then emit ClearNodes s else s)"

definition sync_server :: "config \<Rightarrow> manager \<Rightarrow> manager" where
  "sync_server c s = (if bm_server s then emit (SetServerConfig c) s else s)"

definition probe_all :: "manager \<Rightarrow> manager" where
  "probe_all s = (if bm_monitor s then emit ProbeAll s else s)"

section \<open>Attempts to bring an instance up\<close>

datatype attempt = Up nat | Aborted | CannotCreate string | CannotStart string | OutOfAttempts string

text \<open>The loop of \<open>reloadLocked\<close>: wait on a bind conflict, and move the node only from the sixth attempt on.\<close>

fun reload_attempts :: "box_env \<Rightarrow> nat \<Rightarrow> nat \<Rightarrow> string \<Rightarrow> config \<Rightarrow> manager \<Rightarrow> attempt \<times> config \<times> manager" where
  "reload_attempts e 0 retry msg c s = (OutOfAttempts msg, c, s)"
| "reload_attempts e (Suc left) retry msg c s =
     (let (ended, s1) = poll_ctx e s
      in if ended then (Aborted, c, s1)
         else case create_instance e c s1 of
             (Inl m, s2) \<Rightarrow> (CannotCreate m, c, s2)
           | (Inr i, s2) \<Rightarrow>
               (case start_box e i s2 of
                  (None, s3) \<Rightarrow> (Up i, c, s3)
                | (Some m, s3) \<Rightarrow>
                    (let s4 = close_box i s3
                     in if extract_port m = 0 then (CannotStart m, c, s4)
                        else let (ended', s5) = poll_ctx e s4
                          in if ended' then (Aborted, c, s5)
                             else if retry \<ge> 5
                             then (let (c', moved) = reassign_conflicting_port (e_port_free e (bm_tick s5)) c (extract_port m)
                                   in reload_attempts e left (retry + 1) m c' (if moved then emit ResetSharedState s5 else s5))
                             else reload_attempts e left (retry + 1) m c s5)))"

text \<open>The loop of \<open>Start\<close>, which moves the node at once; the configuration is the manager's own.\<close>

fun start_attempts :: "box_env \<Rightarrow> nat \<Rightarrow> string \<Rightarrow> config \<Rightarrow> manager \<Rightarrow> attempt \<times> config \<times> manager" where
  "start_attempts e 0 msg c s = (OutOfAttempts msg, c, s)"
| "start_attempts e (Suc left) msg c s =
     (let (ended, s1) = poll_ctx e s
      in if ended then (Aborted, c, s1)
         else case create_instance e c s1 of
             (Inl m, s2) \<Rightarrow> (CannotCreate m, c, s2)
           | (Inr i, s2) \<Rightarrow>
               (case start_box e i s2 of
                  (None, s3) \<Rightarrow> (Up i, c, s3)
                | (Some m, s3) \<Rightarrow>
                    (let s4 = close_box i s3
                     in if extract_port m = 0 then (CannotStart m, c, s4)
                        else let (c', moved) = reassign_conflicting_port (e_port_free e (bm_tick s4)) c (extract_port m)
                          in if moved
                             then start_attempts e left m c'
                               (clear_registered (emit ResetSharedState (s4\<lparr>bm_cfg := Some c'\<rparr>)))
                             else (CannotStart m, c, s4))))"

text \<open>The loop of \<open>rollbackToOldConfig\<close>.\<close>

fun rollback_attempts :: "box_env \<Rightarrow> nat \<Rightarrow> config \<Rightarrow> manager \<Rightarrow> attempt \<times> manager" where
  "rollback_attempts e 0 c s = (OutOfAttempts [], s)"
| "rollback_attempts e (Suc left) c s =
     (let (ended, s1) = poll_ctx e s
      in if ended then (Aborted, s1)
         else case create_instance e c s1 of
             (Inl m, s2) \<Rightarrow> (CannotCreate m, s2)
           | (Inr i, s2) \<Rightarrow>
               (case start_box e i s2 of
                  (None, s3) \<Rightarrow> (Up i, s3)
                | (Some m, s3) \<Rightarrow>
                    (let s4 = close_box i s3; (ended', s5) = poll_ctx e s4
                     in if ended' then (Aborted, s5) else rollback_attempts e left c s5)))"

section \<open>Reload\<close>

definition rollback_to_old_config :: "box_env \<Rightarrow> config option \<Rightarrow> manager \<Rightarrow> manager" where
  "rollback_to_old_config e old s =
     (let (ended, s1) = poll_ctx e s
      in case old of
           None \<Rightarrow> s1
         | Some c \<Rightarrow>
             if ended then s1
             else (case rollback_attempts e 5 c (clear_registered (emit ResetSharedState s1)) of
                     (Up i, s2) \<Rightarrow>
                       (let (ended', s3) = poll_ctx e s2
                        in if ended' then close_box i s3
                           else let s4 = sync_server c (s3\<lparr>bm_current := Some i, bm_cfg := Some c\<rparr>);
                                    s5 = (if ge_enabled (c_geoip c) then start_router e c s4 else s4)
                             in probe_all s5)
                   | (_, s2) \<Rightarrow> s2))"

text \<open>The old instance is closed before the new one is created, so that its ports are released.\<close>

definition release_old :: "manager \<Rightarrow> manager" where
  "release_old s =
     (case bm_current s of
        None \<Rightarrow> s
      | Some i \<Rightarrow> stop_router (close_box i (s\<lparr>bm_current := None\<rparr>)))"

definition commit_reload :: "box_env \<Rightarrow> nat \<Rightarrow> config \<Rightarrow> manager \<Rightarrow> manager" where
  "commit_reload e i c s =
     (let s1 = (apply_settings c s)\<lparr>bm_current := Some i, bm_cfg := Some c\<rparr>;
          s2 = probe_all (sync_server c s1)
      in if ge_enabled (c_geoip c) then start_router e c s2 else stop_router s2)"

definition reload_locked :: "box_env \<Rightarrow> config option \<Rightarrow> manager \<Rightarrow> box_error option \<times> manager" where
  "reload_locked e new s0 =
     (case new of
        None \<Rightarrow> (Some NoNewConfig, s0)
      | Some c \<Rightarrow>
          if bm_closed s0 then (Some ManagerClosed, s0)
          else if bm_current s0 = None then (Some NotStarted, s0)
          else let (ended, s1) = poll_ctx e s0
            in if bm_base s0 \<and> ended then (Some CtxEnded, s1)
               else let old = bm_cfg s1; (ended', s2) = poll_ctx e (release_old s1)
                 in if ended' then (Some CtxEnded, s2)
                    else (case reload_attempts e 10 0 [] c (clear_registered (emit ResetSharedState s2)) of
                            (Aborted, _, s3) \<Rightarrow> (Some CtxEnded, s3)
                          | (CannotCreate m, _, s3) \<Rightarrow> (Some (CreateError m), rollback_to_old_config e old s3)
                          | (CannotStart m, _, s3) \<Rightarrow> (Some (StartError m), rollback_to_old_config e old s3)
                          | (OutOfAttempts m, _, s3) \<Rightarrow> (Some (StartExhausted m), rollback_to_old_config e old s3)
                          | (Up i, c', s3) \<Rightarrow>
                              (let (ended'', s4) = poll_ctx e s3
                               in if ended'' then (Some CtxEnded, close_box i s4)
                                  else (None, commit_reload e i c' s4))))"

definition reload_with_port_map :: "box_env \<Rightarrow> config option \<Rightarrow> port_map \<Rightarrow> manager \<Rightarrow> box_error option \<times> manager" where
  "reload_with_port_map e new pm s =
     (case new of
        None \<Rightarrow> (Some NoNewConfig, s)
      | Some c0 \<Rightarrow>
          (case normalize_with_port_map (e_port_free e (bm_tick s)) (e_json e) pm c0 of
             Inl err \<Rightarrow> (Some (NormalizeError err), advance s)
           | Inr c \<Rightarrow>
               (case reload_locked e (Some c) (advance s) of
                  (Some err, s1) \<Rightarrow> (Some err, s1)
                | (None, s1) \<Rightarrow> (None, emit (SavePorts (port_map_to_save (e_json e) (the (bm_cfg s1)))) s1))))"

definition trigger_reload :: "box_env \<Rightarrow> bool \<Rightarrow> manager \<Rightarrow> box_error option \<times> manager" where
  "trigger_reload e ended s =
     (if ended then (Some CtxEnded, s)
      else case bm_cfg s of
          None \<Rightarrow> (Some NoConfig, s)
        | Some c \<Rightarrow> reload_with_port_map e (Some c) (build_port_map (e_json e) c) s)"

definition reload_with_current_config ::
  "box_env \<Rightarrow> (config \<Rightarrow> string + config) \<Rightarrow> (config \<Rightarrow> string option) \<Rightarrow> manager \<Rightarrow> box_error option \<times> manager" where
  "reload_with_current_config e update persist s =
     (if bm_closed s then (Some ManagerClosed, s)
      else case bm_cfg s of
          None \<Rightarrow> (Some NoConfig, s)
        | Some old \<Rightarrow>
            if bm_current s = None then (Some NotStarted, s)
            else case update old of
                Inl m \<Rightarrow> (Some (UpdateError m), s)
              | Inr c0 \<Rightarrow>
                  (case normalize_with_port_map (e_port_free e (bm_tick s)) (e_json e) (build_port_map (e_json e) old) c0 of
                     Inl err \<Rightarrow> (Some (NormalizeError err), advance s)
                   | Inr c \<Rightarrow>
                       (case reload_locked e (Some c) (advance s) of
                          (Some err, s1) \<Rightarrow> (Some err, s1)
                        | (None, s1) \<Rightarrow>
                            (case persist (the (bm_cfg s1)) of
                               Some m \<Rightarrow>
                                 (case reload_locked e (Some old) s1 of
                                    (Some err, s2) \<Rightarrow> (Some (PersistRollbackError m err), s2)
                                  | (None, s2) \<Rightarrow> (Some (PersistError m), s2))
                             | None \<Rightarrow> (None, emit (SavePorts (port_map_to_save (e_json e) (the (bm_cfg s1)))) s1)))))"

section \<open>Start and close\<close>

definition close_components :: "box_env \<Rightarrow> manager \<Rightarrow> box_error option \<times> manager" where
  "close_components e s =
     (let s1 = s\<lparr>bm_current := None, bm_server := False, bm_monitor := False, bm_router := None,
                bm_health_started := False, bm_base := False\<rparr>;
          s2 = (if bm_base s then emit CancelBase s1 else s1);
          s3 = (if bm_monitor s then emit StopMonitor s2 else s2);
          (err, s4) = (case bm_current s of None \<Rightarrow> (None, s3) | Some i \<Rightarrow> (e_close e (bm_tick s3), close_box i s3));
          s5 = (if bm_server s then emit ShutdownServer s4 else s4);
          s6 = (if bm_router s \<noteq> None then emit StopRouter s5 else s5)
      in (map_option CloseError err, emit ClearSessions s6))"

definition close_manager :: "box_env \<Rightarrow> manager \<Rightarrow> box_error option \<times> manager" where
  "close_manager e s =
     (let s1 = s\<lparr>bm_closed := True\<rparr>; s2 = (if bm_base s then emit CancelBase s1 else s1) in close_components e s2)"

definition ensure_monitor :: "box_env \<Rightarrow> manager \<Rightarrow> box_error option \<times> manager" where
  "ensure_monitor e s =
     (if bm_monitor s then (None, s)
      else case e_monitor e of
          Some m \<Rightarrow> (Some (MonitorInit m), s)
        | None \<Rightarrow>
            (let s1 = s\<lparr>bm_monitor := True\<rparr>
             in if e_monitor_enabled e
                then (let s2 = s1\<lparr>bm_server := True\<rparr>;
                          s3 = (case bm_cfg s of Some c \<Rightarrow> emit (SetServerConfig c) s2 | None \<Rightarrow> s2)
                      in (None, if bm_server s then s3 else emit StartServer s3))
                else (None, s1)))"

text \<open>\<open>waitForHealthCheck\<close>: \<open>None\<close> when enough nodes are up, otherwise whether the context ended.\<close>

fun wait_for_health :: "box_env \<Rightarrow> nat \<Rightarrow> manager \<Rightarrow> bool option \<times> manager" where
  "wait_for_health e 0 s =
     (if e_available e (bm_tick s) \<ge> bm_min_available s then (None, advance s) else (Some False, advance s))"
| "wait_for_health e (Suc polls) s =
     (if e_available e (bm_tick s) \<ge> bm_min_available s then (None, advance s)
      else let (ended, s1) = poll_ctx e (advance s)
        in if ended then (Some True, s1) else wait_for_health e polls s1)"

text \<open>The rest of \<open>Start\<close> once the instance runs; the wait can fail only where it must, so its result does
  not matter beyond the context.\<close>

definition finish_start :: "box_env \<Rightarrow> nat \<Rightarrow> config \<Rightarrow> manager \<Rightarrow> box_error option \<times> manager" where
  "finish_start e i c s =
     (let s1 = s\<lparr>bm_current := Some i\<rparr>;
          s2 = (if bm_monitor s1 \<and> \<not> bm_health_started s1 then emit StartHealthCheck (s1\<lparr>bm_health_started := True\<rparr>) else s1);
          (failed, s3) = (if rf_min_available_nodes (c_refresh c) > 0 \<and> bm_min_available s2 > 0
            then wait_for_health e (e_polls e) s2 else (None, s2));
          (ended, s4) = poll_ctx e s3
      in if ended then (Some CtxEnded, s4)
         else let s5 = (if ge_enabled (c_geoip c) then start_router e c s4 else s4); (ended', s6) = poll_ctx e s5
           in (if ended' then Some CtxEnded else None, s6))"

definition start_body :: "box_env \<Rightarrow> config \<Rightarrow> manager \<Rightarrow> box_error option \<times> manager" where
  "start_body e c s =
     (case ensure_monitor e s of
        (Some err, s1) \<Rightarrow> (Some err, s1)
      | (None, s1) \<Rightarrow>
          (case start_attempts e 10 [] c s1 of
             (Aborted, _, s2) \<Rightarrow> (Some CtxEnded, s2)
           | (CannotCreate m, _, s2) \<Rightarrow> (Some (CreateError m), s2)
           | (CannotStart m, _, s2) \<Rightarrow> (Some (StartError m), s2)
           | (OutOfAttempts m, _, s2) \<Rightarrow> (Some (StartExhausted m), s2)
           | (Up i, c', s2) \<Rightarrow>
               (let (ended, s3) = poll_ctx e s2
                in if ended then (Some CtxEnded, close_box i s3) else finish_start e i c' s3)))"

definition start_manager :: "box_env \<Rightarrow> manager \<Rightarrow> box_error option \<times> manager" where
  "start_manager e s0 =
     (let (ended, s) = poll_ctx e s0
      in if ended then (Some CtxEnded, s)
         else if bm_closed s then (Some ManagerClosed, s)
         else case bm_cfg s of
             None \<Rightarrow> (Some NoConfig, s)
           | Some c \<Rightarrow>
               if bm_current s \<noteq> None then (Some AlreadyRunning, s)
               else case start_body e c ((apply_settings c s)\<lparr>bm_base := True\<rparr>) of
                   (None, s1) \<Rightarrow> (None, s1)
                 | (Some err, s1) \<Rightarrow> (Some err, snd (close_components e s1)))"


section \<open>The new manager\<close>

definition new_box_manager :: "config option \<Rightarrow> manager" where
  "new_box_manager cfg =
     (let s0 = \<lparr>bm_boxes = [], bm_current = None, bm_cfg = cfg, bm_monitor = False, bm_server = False, bm_router = None,
                bm_drain_timeout = 0, bm_min_available = 0, bm_base = False, bm_closed = False,
                bm_health_started = False, bm_tick = 0, bm_effects = []\<rparr>;
          s = (case cfg of None \<Rightarrow> s0 | Some c \<Rightarrow> apply_settings c s0)
      in if bm_drain_timeout s \<le> 0 then s\<lparr>bm_drain_timeout := 10 * second\<rparr> else s)"

end
