(* ===== verification/BoxFacts.thy ===== *)
theory BoxFacts
  imports BoxReload
begin

text \<open>
  What the life cycle guarantees: at most one instance is live and it is the current one, a failed
  reload leaves the old configuration in force, ports move only after repeated conflicts, and a
  closed manager stays closed.
\<close>

section \<open>Live instances\<close>

definition all_closed :: "manager \<Rightarrow> bool" where
  "all_closed s \<longleftrightarrow> list_all (\<lambda>b. b_status b = Closed) (bm_boxes s)"

text \<open>The instance at \<open>i\<close> runs the configuration \<open>c\<close> and every other one is closed.\<close>

definition only_live :: "nat \<Rightarrow> config \<Rightarrow> manager \<Rightarrow> bool" where
  "only_live i c s \<longleftrightarrow> i < length (bm_boxes s) \<and> bm_boxes s ! i = \<lparr>b_config = c, b_status = Running\<rparr>
     \<and> (\<forall>j<length (bm_boxes s). j \<noteq> i \<longrightarrow> b_status (bm_boxes s ! j) = Closed)"

definition box_inv :: "manager \<Rightarrow> bool" where
  "box_inv s \<longleftrightarrow>
     (case bm_current s of
        None \<Rightarrow> all_closed s
      | Some i \<Rightarrow> bm_cfg s \<noteq> None \<and> only_live i (b_config (bm_boxes s ! i)) s)"

lemma emit_simps [simp]:
  "bm_boxes (emit x s) = bm_boxes s" "bm_current (emit x s) = bm_current s" "bm_cfg (emit x s) = bm_cfg s"
  "bm_closed (emit x s) = bm_closed s" "bm_tick (emit x s) = bm_tick s" "bm_base (emit x s) = bm_base s"
  "bm_monitor (emit x s) = bm_monitor s" "bm_server (emit x s) = bm_server s"
  by (simp_all add: emit_def)

lemma advance_simps [simp]:
  "bm_boxes (advance s) = bm_boxes s" "bm_current (advance s) = bm_current s" "bm_cfg (advance s) = bm_cfg s"
  "bm_closed (advance s) = bm_closed s" "bm_base (advance s) = bm_base s" "bm_tick (advance s) = bm_tick s + 1"
  by (simp_all add: advance_def)

lemma ops_boxes [simp]:
  "bm_boxes (stop_router s) = bm_boxes s" "bm_current (stop_router s) = bm_current s" "bm_cfg (stop_router s) = bm_cfg s"
  "bm_boxes (start_router e c s) = bm_boxes s" "bm_current (start_router e c s) = bm_current s" "bm_cfg (start_router e c s) = bm_cfg s"
  "bm_boxes (clear_registered s) = bm_boxes s" "bm_current (clear_registered s) = bm_current s" "bm_cfg (clear_registered s) = bm_cfg s"
  "bm_boxes (sync_server c s) = bm_boxes s" "bm_current (sync_server c s) = bm_current s" "bm_cfg (sync_server c s) = bm_cfg s"
  "bm_boxes (probe_all s) = bm_boxes s" "bm_current (probe_all s) = bm_current s" "bm_cfg (probe_all s) = bm_cfg s"
  "bm_boxes (apply_settings c s) = bm_boxes s" "bm_current (apply_settings c s) = bm_current s" "bm_cfg (apply_settings c s) = bm_cfg s"
  "bm_closed (stop_router s) = bm_closed s" "bm_closed (start_router e c s) = bm_closed s" "bm_closed (clear_registered s) = bm_closed s"
  "bm_closed (sync_server c s) = bm_closed s" "bm_closed (probe_all s) = bm_closed s" "bm_closed (apply_settings c s) = bm_closed s"
  by (simp_all add: stop_router_def start_router_def clear_registered_def sync_server_def probe_all_def
      apply_settings_def Let_def split: option.split)

lemma poll_ctx_simps [simp]: "snd (poll_ctx e s) = advance s" "fst (poll_ctx e s) = e_cancelled e (bm_tick s)"
  by (simp_all add: poll_ctx_def)

lemma all_closed_cong: "bm_boxes t = bm_boxes s \<Longrightarrow> all_closed t = all_closed s"
  by (simp add: all_closed_def)

lemma only_live_cong: "bm_boxes t = bm_boxes s \<Longrightarrow> only_live i c t = only_live i c s"
  by (simp add: only_live_def)

section \<open>One attempt\<close>

text \<open>What creating, starting and closing one instance does when every earlier one is closed.\<close>

lemma create_ok:
  "create_instance e c s = (Inr i, s2) \<Longrightarrow>
     i = length (bm_boxes s) \<and> s2 = (advance s)\<lparr>bm_boxes := bm_boxes s @ [\<lparr>b_config = c, b_status = Created\<rparr>]\<rparr>"
  by (auto simp: create_instance_def split: option.splits)

lemma create_failed: "create_instance e c s = (Inl m, s2) \<Longrightarrow> s2 = advance s"
  by (auto simp: create_instance_def split: option.splits)

text \<open>The trial state: a fresh instance after closed ones.\<close>

definition trial :: "nat \<Rightarrow> config \<Rightarrow> box_status \<Rightarrow> manager \<Rightarrow> bool" where
  "trial i c st s \<longleftrightarrow> i < length (bm_boxes s) \<and> bm_boxes s ! i = \<lparr>b_config = c, b_status = st\<rparr>
     \<and> (\<forall>j<length (bm_boxes s). j \<noteq> i \<longrightarrow> b_status (bm_boxes s ! j) = Closed)"

lemma trial_created:
  "all_closed s \<Longrightarrow> trial (length (bm_boxes s)) c Created ((advance s)\<lparr>bm_boxes := bm_boxes s @ [\<lparr>b_config = c, b_status = Created\<rparr>]\<rparr>)"
  by (auto simp: trial_def all_closed_def nth_append list_all_length)

lemma trial_set_status: "trial i c st s \<Longrightarrow> trial i c st' (set_status i st' s)"
  by (auto simp: trial_def set_status_def)

lemma trial_running: "trial i c Running s = only_live i c s"
  by (simp add: trial_def only_live_def)

lemma trial_closed: "trial i c Closed s \<Longrightarrow> all_closed s"
  by (auto simp: trial_def all_closed_def list_all_length)

lemma trial_advance [simp]: "trial i c st (advance s) = trial i c st s"
  by (simp add: trial_def)

lemma set_status_simps [simp]:
  "bm_current (set_status i st s) = bm_current s" "bm_cfg (set_status i st s) = bm_cfg s" "bm_closed (set_status i st s) = bm_closed s"
  "bm_tick (set_status i st s) = bm_tick s"
  by (simp_all add: set_status_def)

lemma close_trial: "trial i c st s \<Longrightarrow> all_closed (close_box i s)"
  unfolding close_box_def by (rule trial_closed) (rule trial_set_status, simp)

lemma close_box_simps [simp]:
  "bm_current (close_box i s) = bm_current s" "bm_cfg (close_box i s) = bm_cfg s" "bm_closed (close_box i s) = bm_closed s"
  "bm_tick (close_box i s) = bm_tick s + 1"
  by (simp_all add: close_box_def)

lemma start_box_trial:
  assumes "start_box e i s = (r, s')" and "trial i c Created s"
  shows "case r of None \<Rightarrow> only_live i c s' | Some _ \<Rightarrow> trial i c Created s'"
proof (cases "e_start e (bm_tick s) (b_config (bm_boxes s ! i))")
  case None
  then have "r = None" "s' = set_status i Running (advance s)" using assms(1) by (simp_all add: start_box_def)
  then show ?thesis using assms(2) by (simp add: trial_running [symmetric] trial_set_status)
next
  case (Some m)
  then have "r = Some m" "s' = advance s" using assms(1) by (simp_all add: start_box_def)
  then show ?thesis using assms(2) by simp
qed

text \<open>What a loop of attempts leaves: nothing live, or the instance it reports.\<close>

definition attempt_left :: "attempt \<Rightarrow> config \<Rightarrow> manager \<Rightarrow> manager \<Rightarrow> bool" where
  "attempt_left r c s s' \<longleftrightarrow> bm_current s' = bm_current s \<and> bm_closed s' = bm_closed s \<and>
     (case r of Up i \<Rightarrow> only_live i c s' | _ \<Rightarrow> all_closed s')"

text \<open>One round: create and start; on a failed start the instance is closed again.\<close>

lemma one_round:
  assumes idle: "all_closed s" and create: "create_instance e c s = (Inr i, s2)" and start: "start_box e i s2 = (r, s3)"
  shows "case r of None \<Rightarrow> only_live i c s3 | Some _ \<Rightarrow> all_closed (close_box i s3)"
    and "bm_current s3 = bm_current s" and "bm_cfg s3 = bm_cfg s" and "bm_closed s3 = bm_closed s"
proof -
  have s2: "trial i c Created s2" "bm_current s2 = bm_current s" "bm_cfg s2 = bm_cfg s" "bm_closed s2 = bm_closed s"
    using create_ok [OF create] trial_created [OF idle, of c] by simp_all
  show "case r of None \<Rightarrow> only_live i c s3 | Some _ \<Rightarrow> all_closed (close_box i s3)"
    using start_box_trial [OF start s2(1)] close_trial by (auto split: option.split_asm option.split)
  show "bm_current s3 = bm_current s" "bm_cfg s3 = bm_cfg s" "bm_closed s3 = bm_closed s"
    using start s2(2-4) by (auto simp: start_box_def split: option.splits)
qed

lemma reload_attempts_left:
  "all_closed s \<Longrightarrow> reload_attempts e left retry msg c s = (r, c', s') \<Longrightarrow> attempt_left r c' s s' \<and> bm_cfg s' = bm_cfg s"
proof (induction left arbitrary: retry msg c s)
  case (Suc left)
  show ?case
  proof (cases "e_cancelled e (bm_tick s)")
    case True
    then show ?thesis using Suc.prems by (auto simp: poll_ctx_def attempt_left_def all_closed_def)
  next
    case False
    obtain cr s2 where cr: "create_instance e c (advance s) = (cr, s2)" by fastforce
    show ?thesis
    proof (cases cr)
      case (Inl m)
      then show ?thesis using Suc.prems False cr create_failed [of e c "advance s" m s2]
        by (auto simp: poll_ctx_def attempt_left_def all_closed_def)
    next
      case (Inr i)
      obtain st s3 where st: "start_box e i s2 = (st, s3)" by fastforce
      have idle: "all_closed (advance s)" using Suc.prems(1) by (simp add: all_closed_def)
      note round = one_round [OF idle cr [unfolded Inr] st]
      show ?thesis
      proof (cases st)
        case None
        then show ?thesis using Suc.prems(2) False cr st Inr round by (auto simp: poll_ctx_def attempt_left_def)
      next
        case (Some m)
        let ?s4 = "close_box i s3"
        have closed: "all_closed ?s4" using round(1) Some by simp
        show ?thesis
        proof (cases "extract_port m = 0 \<or> e_cancelled e (bm_tick ?s4)")
          case True
          then show ?thesis using Suc.prems(2) False cr st Inr Some closed round
            by (auto simp: poll_ctx_def attempt_left_def all_closed_def Let_def split: if_splits)
        next
          case go: False
          let ?s5 = "advance ?s4"
          let ?re = "reassign_conflicting_port (e_port_free e (bm_tick ?s5)) c (extract_port m)"
          define c1 where "c1 = (if retry \<ge> 5 then fst ?re else c)"
          define t where "t = (if retry \<ge> 5 \<and> snd ?re then emit ResetSharedState ?s5 else ?s5)"
          have rest: "reload_attempts e left (retry + 1) m c1 t = (r, c', s')"
            using Suc.prems(2) False cr st Inr Some go
            by (auto simp: poll_ctx_def Let_def c1_def t_def split: prod.splits if_splits)
          have t: "all_closed t" "bm_current t = bm_current s" "bm_cfg t = bm_cfg s" "bm_closed t = bm_closed s"
            using closed round by (simp_all add: t_def all_closed_def)
          show ?thesis using Suc.IH [OF t(1) rest] t by (simp add: attempt_left_def)
        qed
      qed
    qed
  qed
qed (auto simp: attempt_left_def)


lemma rollback_attempts_left:
  "all_closed s \<Longrightarrow> rollback_attempts e left c s = (r, s') \<Longrightarrow> attempt_left r c s s' \<and> bm_cfg s' = bm_cfg s"
proof (induction left arbitrary: s)
  case (Suc left)
  show ?case
  proof (cases "e_cancelled e (bm_tick s)")
    case True
    then show ?thesis using Suc.prems by (auto simp: poll_ctx_def attempt_left_def all_closed_def)
  next
    case False
    obtain cr s2 where cr: "create_instance e c (advance s) = (cr, s2)" by fastforce
    show ?thesis
    proof (cases cr)
      case (Inl m)
      then show ?thesis using Suc.prems False cr create_failed [of e c "advance s" m s2]
        by (auto simp: poll_ctx_def attempt_left_def all_closed_def)
    next
      case (Inr i)
      obtain st s3 where st: "start_box e i s2 = (st, s3)" by fastforce
      have idle: "all_closed (advance s)" using Suc.prems(1) by (simp add: all_closed_def)
      note round = one_round [OF idle cr [unfolded Inr] st]
      show ?thesis
      proof (cases st)
        case None
        then show ?thesis using Suc.prems(2) False cr st Inr round by (auto simp: poll_ctx_def attempt_left_def)
      next
        case (Some m)
        let ?s4 = "close_box i s3"
        have closed: "all_closed (advance ?s4)" using round(1) Some by (simp add: all_closed_def)
        show ?thesis
          using Suc.IH [OF closed] Suc.prems(2) False cr st Inr Some closed round
          by (auto simp: poll_ctx_def attempt_left_def Let_def split: if_splits)
      qed
    qed
  qed
qed (auto simp: attempt_left_def)

lemma start_attempts_left:
  "all_closed s \<Longrightarrow> bm_cfg s = Some c \<Longrightarrow> start_attempts e left msg c s = (r, c', s') \<Longrightarrow>
     attempt_left r c' s s' \<and> bm_cfg s' = Some c'"
proof (induction left arbitrary: msg c s)
  case (Suc left)
  show ?case
  proof (cases "e_cancelled e (bm_tick s)")
    case True
    then show ?thesis using Suc.prems by (auto simp: poll_ctx_def attempt_left_def all_closed_def)
  next
    case False
    obtain cr s2 where cr: "create_instance e c (advance s) = (cr, s2)" by fastforce
    show ?thesis
    proof (cases cr)
      case (Inl m)
      then show ?thesis using Suc.prems False cr create_failed [of e c "advance s" m s2]
        by (auto simp: poll_ctx_def attempt_left_def all_closed_def)
    next
      case (Inr i)
      obtain st s3 where st: "start_box e i s2 = (st, s3)" by fastforce
      have idle: "all_closed (advance s)" using Suc.prems(1) by (simp add: all_closed_def)
      note round = one_round [OF idle cr [unfolded Inr] st]
      show ?thesis
      proof (cases st)
        case None
        then show ?thesis using Suc.prems(2,3) False cr st Inr round by (auto simp: poll_ctx_def attempt_left_def)
      next
        case (Some m)
        let ?s4 = "close_box i s3"
        have closed: "all_closed ?s4" using round(1) Some by simp
        let ?re = "reassign_conflicting_port (e_port_free e (bm_tick ?s4)) c (extract_port m)"
        show ?thesis
        proof (cases "extract_port m = 0 \<or> \<not> snd ?re")
          case True
          then show ?thesis using Suc.prems(2,3) False cr st Inr Some closed round
            by (auto simp: poll_ctx_def attempt_left_def Let_def split: if_splits prod.splits)
        next
          case go: False
          define t where "t = clear_registered (emit ResetSharedState (?s4\<lparr>bm_cfg := Some (fst ?re)\<rparr>))"
          have rest: "start_attempts e left m (fst ?re) t = (r, c', s')"
            using Suc.prems(3) False cr st Inr Some go by (auto simp: poll_ctx_def Let_def t_def split: prod.splits)
          have t: "all_closed t" "bm_current t = bm_current s" "bm_cfg t = Some (fst ?re)" "bm_closed t = bm_closed s"
            using closed round by (simp_all add: t_def all_closed_def)
          show ?thesis using Suc.IH [OF t(1,3) rest] t by (simp add: attempt_left_def)
        qed
      qed
    qed
  qed
qed (auto simp: attempt_left_def)

section \<open>Reload\<close>

lemma close_live: "only_live i c s \<Longrightarrow> all_closed (close_box i s)"
  by (rule close_trial) (simp only: trial_running [symmetric])

lemma live_config: "only_live i c s \<Longrightarrow> b_config (bm_boxes s ! i) = c"
  by (simp add: only_live_def)

lemma release_old_closed:
  assumes "box_inv s"
  shows "all_closed (release_old s) \<and> bm_current (release_old s) = None \<and> bm_cfg (release_old s) = bm_cfg s
    \<and> bm_closed (release_old s) = bm_closed s"
proof (cases "bm_current s")
  case None
  then show ?thesis using assms by (simp add: release_old_def box_inv_def)
next
  case (Some i)
  let ?t = "s\<lparr>bm_current := None\<rparr>"
  have "only_live i (b_config (bm_boxes s ! i)) ?t" using assms Some by (simp add: box_inv_def only_live_def)
  from close_live [OF this] have "all_closed (stop_router (close_box i ?t))" by (simp add: all_closed_def)
  then show ?thesis using Some by (simp add: release_old_def)
qed

text \<open>What a call leaves when it does not go through: the configuration, and an instance of it or none.\<close>

definition fell_back :: "manager \<Rightarrow> config option \<Rightarrow> bool" where
  "fell_back s old \<longleftrightarrow> bm_cfg s = old \<and>
     (case bm_current s of None \<Rightarrow> all_closed s | Some i \<Rightarrow> (\<exists>c. old = Some c \<and> only_live i c s))"

lemma fell_back_inv: "fell_back s old \<Longrightarrow> box_inv s"
  by (auto simp: fell_back_def box_inv_def live_config split: option.splits)

lemma rollback_falls_back:
  assumes idle: "all_closed s" "bm_current s = None" "bm_cfg s = old"
  shows "fell_back (rollback_to_old_config e old s) old \<and> bm_closed (rollback_to_old_config e old s) = bm_closed s"
proof (cases "old = None \<or> e_cancelled e (bm_tick s)")
  case True
  then show ?thesis using idle
    by (auto simp: rollback_to_old_config_def poll_ctx_def fell_back_def all_closed_def split: option.split)
next
  case False
  then obtain c where c: "old = Some c" and go: "\<not> e_cancelled e (bm_tick s)" by auto
  let ?s1 = "clear_registered (emit ResetSharedState (advance s))"
  obtain r s2 where r: "rollback_attempts e 5 c ?s1 = (r, s2)" by fastforce
  have s1: "all_closed ?s1" using idle(1) by (simp add: all_closed_def)
  have left: "attempt_left r c ?s1 s2" "bm_cfg s2 = old"
    using rollback_attempts_left [OF s1 r] idle(3) by simp_all
  then have cur: "bm_current s2 = None" "bm_closed s2 = bm_closed s" using idle(2) by (simp_all add: attempt_left_def)
  show ?thesis
  proof (cases r)
    case (Up i)
    then have live: "only_live i c s2" using left(1) by (simp add: attempt_left_def)
    show ?thesis
    proof (cases "e_cancelled e (bm_tick s2)")
      case True
      have "all_closed (close_box i (advance s2))" using live by (intro close_live) (simp add: only_live_def)
      then show ?thesis using c go r Up True cur left(2)
        by (simp add: rollback_to_old_config_def poll_ctx_def fell_back_def)
    next
      case False
      then show ?thesis using c go r Up cur left(2) live
        by (simp add: rollback_to_old_config_def poll_ctx_def fell_back_def Let_def only_live_def)
    qed
  qed (use c go r cur left in \<open>simp_all add: rollback_to_old_config_def poll_ctx_def fell_back_def attempt_left_def\<close>)
qed

definition reload_left :: "box_error option \<Rightarrow> manager \<Rightarrow> manager \<Rightarrow> bool" where
  "reload_left res s s' \<longleftrightarrow> bm_closed s' = bm_closed s \<and>
     (case res of
        None \<Rightarrow> \<not> bm_closed s \<and> (\<exists>i c. bm_current s' = Some i \<and> bm_cfg s' = Some c \<and> only_live i c s')
      | Some _ \<Rightarrow> fell_back s' (bm_cfg s) \<and> bm_current s \<noteq> None
          \<or> bm_boxes s' = bm_boxes s \<and> bm_current s' = bm_current s \<and> bm_cfg s' = bm_cfg s)"

lemma reload_locked_left:
  assumes inv: "box_inv s" and run: "reload_locked e new s = (res, s')"
  shows "reload_left res s s'"
proof (cases "new = None \<or> bm_closed s \<or> bm_current s = None \<or> bm_base s \<and> e_cancelled e (bm_tick s)")
  case True
  then show ?thesis using run
    by (auto simp: reload_locked_def reload_left_def poll_ctx_def split: option.splits if_splits)
next
  case False
  then obtain c k where c: "new = Some c" and k: "bm_current s = Some k" by auto
  let ?r = "release_old (advance s)"
  have open_: "\<not> bm_closed s" using False by blast
  have begun: "\<not> (bm_base s \<and> e_cancelled e (bm_tick s))" using False by blast
  have "box_inv (advance s)" using inv by (simp add: box_inv_def all_closed_def only_live_def split: option.splits)
  note rel = release_old_closed [OF this]
  let ?t = "clear_registered (emit ResetSharedState (advance ?r))"
  have t: "all_closed ?t" "bm_current ?t = None" "bm_cfg ?t = bm_cfg s" "bm_closed ?t = bm_closed s"
    using rel by (simp_all add: all_closed_def)
  show ?thesis
  proof (cases "e_cancelled e (bm_tick ?r)")
    case True
    then have "res = Some CtxEnded" "s' = advance ?r"
      using run c k open_ begun True by (simp_all add: reload_locked_def poll_ctx_def Let_def)
    then show ?thesis using rel k by (simp add: reload_left_def fell_back_def all_closed_def)
  next
    case go: False
    obtain a c' s3 where a: "reload_attempts e 10 0 [] c ?t = (a, c', s3)" by (metis prod_cases3)
    have left: "attempt_left a c' ?t s3" "bm_cfg s3 = bm_cfg s" using reload_attempts_left [OF t(1) a] t(3) by simp_all
    then have cur: "bm_current s3 = None" "bm_closed s3 = bm_closed s" using t(2,4) by (simp_all add: attempt_left_def)
    have rolled: "fell_back (rollback_to_old_config e (bm_cfg s) s3) (bm_cfg s)
        \<and> bm_closed (rollback_to_old_config e (bm_cfg s) s3) = bm_closed s" if "all_closed s3"
      using rollback_falls_back [OF that cur(1) left(2), of e] cur(2) by simp
    show ?thesis
    proof (cases a)
      case (Up i)
      then have live: "only_live i c' s3" using left(1) by (simp add: attempt_left_def)
      show ?thesis
      proof (cases "e_cancelled e (bm_tick s3)")
        case True
        then have "res = Some CtxEnded" "s' = close_box i (advance s3)"
          using run c k open_ begun go a Up by (simp_all add: reload_locked_def poll_ctx_def Let_def)
        moreover have "all_closed (close_box i (advance s3))" using live by (intro close_live) (simp add: only_live_def)
        ultimately show ?thesis using cur left(2) k by (simp add: reload_left_def fell_back_def)
      next
        case alive: False
        then have "res = None" "s' = commit_reload e i c' (advance s3)"
          using run c k open_ begun go a Up by (simp_all add: reload_locked_def poll_ctx_def Let_def)
        then show ?thesis using cur live open_
          by (simp add: reload_left_def commit_reload_def Let_def only_live_def)
      qed
    next
      case Aborted
      then have "res = Some CtxEnded" "s' = s3"
        using run c k open_ begun go a Aborted by (simp_all add: reload_locked_def poll_ctx_def Let_def)
      then show ?thesis using Aborted left cur k by (simp add: reload_left_def fell_back_def attempt_left_def)
    qed (use run c k open_ begun go a left(1) rolled in
        \<open>auto simp: reload_locked_def poll_ctx_def Let_def reload_left_def attempt_left_def\<close>)
  qed
qed


lemma live_inv: "bm_current s = Some i \<Longrightarrow> bm_cfg s = Some c \<Longrightarrow> only_live i c s \<Longrightarrow> box_inv s"
  by (simp add: box_inv_def live_config)

lemma closed_inv: "all_closed s \<Longrightarrow> bm_current s = None \<Longrightarrow> box_inv s"
  by (simp add: box_inv_def)

lemma same_inv:
  "box_inv s \<Longrightarrow> bm_boxes s' = bm_boxes s \<Longrightarrow> bm_current s' = bm_current s \<Longrightarrow> bm_cfg s' = bm_cfg s \<Longrightarrow> box_inv s'"
  by (simp add: box_inv_def all_closed_def only_live_def split: option.splits)

lemma reload_left_inv:
  assumes "box_inv s" and "reload_left res s s'"
  shows "box_inv s'"
proof (cases res)
  case None
  then show ?thesis using assms(2) live_inv by (auto simp: reload_left_def)
next
  case (Some err)
  then consider "fell_back s' (bm_cfg s)" | "bm_boxes s' = bm_boxes s" "bm_current s' = bm_current s" "bm_cfg s' = bm_cfg s"
    using assms(2) by (auto simp: reload_left_def)
  then show ?thesis by cases (rule fell_back_inv same_inv [OF assms(1)], assumption+)+
qed

section \<open>Close and start\<close>

lemma close_components_left:
  assumes "box_inv s"
  shows "all_closed (snd (close_components e s)) \<and> bm_current (snd (close_components e s)) = None
    \<and> bm_cfg (snd (close_components e s)) = bm_cfg s \<and> bm_closed (snd (close_components e s)) = bm_closed s"
proof (cases "bm_current s")
  case None
  then have "all_closed s" using assms by (simp add: box_inv_def)
  then show ?thesis using None by (simp add: close_components_def Let_def all_closed_def)
next
  case (Some i)
  then have live: "only_live i (b_config (bm_boxes s ! i)) s" using assms by (simp add: box_inv_def)
  have "all_closed (close_box i t)" if "bm_boxes t = bm_boxes s" for t
    using live close_live [of i _ t] only_live_cong [OF that] by blast
  then show ?thesis using Some by (simp add: close_components_def Let_def all_closed_def)
qed

lemma close_manager_left:
  assumes "box_inv s"
  shows "all_closed (snd (close_manager e s)) \<and> bm_current (snd (close_manager e s)) = None
    \<and> bm_cfg (snd (close_manager e s)) = bm_cfg s \<and> bm_closed (snd (close_manager e s))"
proof -
  let ?t = "if bm_base s then emit CancelBase (s\<lparr>bm_closed := True\<rparr>) else s\<lparr>bm_closed := True\<rparr>"
  have "box_inv ?t" using assms by (simp add: box_inv_def all_closed_def only_live_def split: option.splits)
  from close_components_left [OF this, of e] show ?thesis by (simp add: close_manager_def Let_def)
qed

lemma ensure_monitor_left:
  "ensure_monitor e s = (r, s') \<Longrightarrow>
     bm_boxes s' = bm_boxes s \<and> bm_current s' = bm_current s \<and> bm_cfg s' = bm_cfg s \<and> bm_closed s' = bm_closed s"
  by (auto simp: ensure_monitor_def Let_def split: option.splits if_splits)

lemma wait_for_health_left:
  "wait_for_health e n s = (r, s') \<Longrightarrow>
     bm_boxes s' = bm_boxes s \<and> bm_current s' = bm_current s \<and> bm_cfg s' = bm_cfg s \<and> bm_closed s' = bm_closed s"
proof (induction e n s rule: wait_for_health.induct)
  case (2 e n s)
  then show ?case by (auto simp: poll_ctx_def split: if_splits)
qed (auto split: if_splits)

lemma finish_start_left:
  assumes live: "only_live i c s" and cfg: "bm_cfg s = Some c" and run: "finish_start e i c s = (r, s')"
  shows "bm_current s' = Some i \<and> bm_cfg s' = Some c \<and> only_live i c s' \<and> bm_closed s' = bm_closed s"
proof -
  let ?s1 = "s\<lparr>bm_current := Some i\<rparr>"
  define s2 where "s2 = (if bm_monitor ?s1 \<and> \<not> bm_health_started ?s1 then emit StartHealthCheck (?s1\<lparr>bm_health_started := True\<rparr>) else ?s1)"
  obtain f s3 where s3: "(if rf_min_available_nodes (c_refresh c) > 0 \<and> bm_min_available s2 > 0
      then wait_for_health e (e_polls e) s2 else (None, s2)) = (f, s3)" by fastforce
  have s2: "bm_boxes s2 = bm_boxes s" "bm_current s2 = Some i" "bm_cfg s2 = Some c" "bm_closed s2 = bm_closed s"
    using cfg by (simp_all add: s2_def)
  have "bm_boxes s3 = bm_boxes s2 \<and> bm_current s3 = bm_current s2 \<and> bm_cfg s3 = bm_cfg s2 \<and> bm_closed s3 = bm_closed s2"
    using s3 wait_for_health_left [of e "e_polls e" s2 f s3] by (cases "rf_min_available_nodes (c_refresh c) > 0 \<and> bm_min_available s2 > 0") auto
  then have s3': "bm_boxes s3 = bm_boxes s" "bm_current s3 = Some i" "bm_cfg s3 = Some c" "bm_closed s3 = bm_closed s"
    using s2 by simp_all
  have "finish_start e i c s = (let (ended, s4) = poll_ctx e s3
      in if ended then (Some CtxEnded, s4)
         else let s5 = (if ge_enabled (c_geoip c) then start_router e c s4 else s4); (ended', s6) = poll_ctx e s5
           in (if ended' then Some CtxEnded else None, s6))"
    using s3 unfolding finish_start_def s2_def [symmetric] Let_def by simp
  then have "bm_boxes s' = bm_boxes s3" "bm_current s' = bm_current s3" "bm_cfg s' = bm_cfg s3" "bm_closed s' = bm_closed s3"
    using run by (auto simp: poll_ctx_def Let_def split: if_splits)
  then show ?thesis using s3' live by (simp add: only_live_def)
qed

definition start_left :: "box_error option \<Rightarrow> manager \<Rightarrow> manager \<Rightarrow> bool" where
  "start_left res s s' \<longleftrightarrow> bm_closed s' = bm_closed s \<and>
     (case res of
        None \<Rightarrow> \<not> bm_closed s \<and> (\<exists>i c. bm_current s' = Some i \<and> bm_cfg s' = Some c \<and> only_live i c s')
      | Some _ \<Rightarrow> all_closed s' \<and> bm_current s' = None \<and> bm_cfg s \<noteq> None
          \<or> bm_boxes s' = bm_boxes s \<and> bm_current s' = bm_current s \<and> bm_cfg s' = bm_cfg s)"

lemma start_body_left:
  assumes idle: "all_closed s" "bm_current s = None" "bm_cfg s = Some c" and run: "start_body e c s = (r, s')"
  shows "box_inv s' \<and> bm_closed s' = bm_closed s
    \<and> (r = None \<longrightarrow> (\<exists>i c'. bm_current s' = Some i \<and> bm_cfg s' = Some c' \<and> only_live i c' s'))"
proof -
  obtain m s1 where m: "ensure_monitor e s = (m, s1)" by fastforce
  note mon = ensure_monitor_left [OF m]
  then have s1: "all_closed s1" "bm_current s1 = None" "bm_cfg s1 = Some c" "bm_closed s1 = bm_closed s"
    using idle by (simp_all add: all_closed_def)
  show ?thesis
  proof (cases m)
    case (Some err)
    then have "r = Some err" "s' = s1" using run m by (simp_all add: start_body_def)
    then show ?thesis using s1 by (simp add: box_inv_def)
  next
    case None
    obtain a c' s2 where a: "start_attempts e 10 [] c s1 = (a, c', s2)" by (metis prod_cases3)
    have left: "attempt_left a c' s1 s2" "bm_cfg s2 = Some c'" using start_attempts_left [OF s1(1,3) a] by simp_all
    then have cur: "bm_current s2 = None" "bm_closed s2 = bm_closed s" using s1 by (simp_all add: attempt_left_def)
    show ?thesis
    proof (cases a)
      case (Up i)
      then have live: "only_live i c' (advance s2)" using left(1) by (simp add: attempt_left_def only_live_def)
      show ?thesis
      proof (cases "e_cancelled e (bm_tick s2)")
        case True
        then show ?thesis using run m None a Up cur close_live [OF live]
          by (auto simp: start_body_def poll_ctx_def box_inv_def)
      next
        case False
        then have "finish_start e i c' (advance s2) = (r, s')"
          using run m None a Up by (simp add: start_body_def poll_ctx_def)
        from finish_start_left [OF live _ this] show ?thesis
          using left(2) cur(2) by (auto simp: box_inv_def live_config)
      qed
    qed (use run m None a left cur in \<open>auto simp: start_body_def attempt_left_def box_inv_def\<close>)
  qed
qed

lemma start_manager_left:
  assumes inv: "box_inv s" and run: "start_manager e s = (r, s')"
  shows "start_left r s s'"
proof (cases "e_cancelled e (bm_tick s) \<or> bm_closed s \<or> bm_cfg s = None \<or> bm_current s \<noteq> None")
  case True
  then show ?thesis using run
    by (auto simp: start_manager_def poll_ctx_def start_left_def split: option.splits if_splits)
next
  case False
  then obtain c where c: "bm_cfg s = Some c" and cur: "bm_current s = None" and open_: "\<not> bm_closed s"
    and go: "\<not> e_cancelled e (bm_tick s)" by auto
  let ?t = "(apply_settings c (advance s))\<lparr>bm_base := True\<rparr>"
  obtain r1 s1 where body: "start_body e c ?t = (r1, s1)" by fastforce
  have t: "all_closed ?t" "bm_current ?t = None" "bm_cfg ?t = Some c"
    using inv c cur by (simp_all add: box_inv_def all_closed_def)
  note left = start_body_left [OF t body]
  show ?thesis
  proof (cases r1)
    case None
    then have "r = None" "s' = s1" using run go open_ c cur body by (simp_all add: start_manager_def poll_ctx_def)
    then show ?thesis using left None open_ by (simp add: start_left_def)
  next
    case (Some err)
    then have "r = Some err" "s' = snd (close_components e s1)"
      using run go open_ c cur body by (simp_all add: start_manager_def poll_ctx_def)
    then show ?thesis using close_components_left [of s1 e] left open_ c by (simp add: start_left_def)
  qed
qed

lemma start_left_inv:
  assumes "box_inv s" and "start_left res s s'"
  shows "box_inv s'"
proof (cases res)
  case None
  then show ?thesis using assms(2) live_inv by (auto simp: start_left_def)
next
  case (Some err)
  then consider "all_closed s'" "bm_current s' = None"
    | "bm_boxes s' = bm_boxes s" "bm_current s' = bm_current s" "bm_cfg s' = bm_cfg s"
    using assms(2) by (auto simp: start_left_def)
  then show ?thesis by cases (rule closed_inv same_inv [OF assms(1)], assumption+)+
qed

end
