(* ===== verification/BoxLife.thy ===== *)
theory BoxLife
  imports BoxFacts
begin

text \<open>
  The life cycle as a whole: the abstract machine it refines, sequences of requests, what a reload
  does to the ports and what a failed one leaves behind.
\<close>

section \<open>Requests\<close>

datatype box_request =
    Start | Reload "config option" | ReloadPorts "config option" port_map | Trigger bool
  | Transact "config \<Rightarrow> string + config" "config \<Rightarrow> string option"
  | Nodes node_request "config \<Rightarrow> string option" bool | Shutdown

datatype box_answer = Done | Failed box_error | NodeRefused node_op_error

definition answer_of :: "box_error option \<Rightarrow> box_answer" where
  "answer_of res = (case res of None \<Rightarrow> Done | Some err \<Rightarrow> Failed err)"

definition answer_box :: "box_env \<Rightarrow> box_request \<Rightarrow> manager \<Rightarrow> box_answer \<times> manager" where
  "answer_box e r s =
     (case r of
        Start \<Rightarrow> apfst answer_of (start_manager e s)
      | Reload new \<Rightarrow> apfst answer_of (reload_locked e new s)
      | ReloadPorts new pm \<Rightarrow> apfst answer_of (reload_with_port_map e new pm s)
      | Trigger ended \<Rightarrow> apfst answer_of (trigger_reload e ended s)
      | Transact update persist \<Rightarrow> apfst answer_of (reload_with_current_config e update persist s)
      | Nodes q save ended \<Rightarrow>
          (let (res, cfg) = run_request save (e_json e) ended q (bm_cfg s)
           in (case res of None \<Rightarrow> Done | Some err \<Rightarrow> NodeRefused err, s\<lparr>bm_cfg := cfg\<rparr>))
      | Shutdown \<Rightarrow> apfst answer_of (close_manager e s))"

definition run_box :: "box_env \<Rightarrow> box_request \<Rightarrow> manager \<Rightarrow> manager" where
  "run_box e r s = snd (answer_box e r s)"

section \<open>Ports during a reload\<close>

definition same_but_ports :: "config \<Rightarrow> config \<Rightarrow> bool" where
  "same_but_ports c c' \<longleftrightarrow> c'\<lparr>c_nodes := []\<rparr> = c\<lparr>c_nodes := []\<rparr>
     \<and> map (\<lambda>n. n\<lparr>nc_port := 0\<rparr>) (c_nodes c') = map (\<lambda>n. n\<lparr>nc_port := 0\<rparr>) (c_nodes c)"

lemma same_but_ports_refl [simp]: "same_but_ports c c"
  by (simp add: same_but_ports_def)

lemma same_but_ports_trans: "same_but_ports c d \<Longrightarrow> same_but_ports d f \<Longrightarrow> same_but_ports c f"
  by (simp add: same_but_ports_def)

lemma port_index_bound: "port_index p ns = Some i \<Longrightarrow> i < length ns \<and> nc_port (ns ! i) = p"
  by (induction ns arbitrary: i) (auto split: if_splits)

lemma reassign_same: "same_but_ports c (fst (reassign_conflicting_port av c p))"
  using port_index_bound [of p "c_nodes c"]
  by (auto simp: reassign_conflicting_port_def same_but_ports_def map_update list_update_same_conv split: option.split)

lemma length_set_status [simp]: "length (bm_boxes (set_status i st s)) = length (bm_boxes s)"
  by (simp add: set_status_def)

lemma length_close_box [simp]: "length (bm_boxes (close_box i s)) = length (bm_boxes s)"
  by (simp add: close_box_def)

lemma length_start_box: "start_box e i s = (r, s') \<Longrightarrow> length (bm_boxes s') = length (bm_boxes s)"
  by (auto simp: start_box_def split: option.splits)

definition came_up :: "attempt \<Rightarrow> nat" where
  "came_up r = (case r of Up _ \<Rightarrow> 1 | _ \<Rightarrow> 0)"

lemma reload_attempts_ports:
  "reload_attempts e left retry msg c s = (r, c', s') \<Longrightarrow>
     same_but_ports c c' \<and> length (bm_boxes s) + came_up r \<le> length (bm_boxes s')
     \<and> (c' = c \<or> length (bm_boxes s) + 6 + came_up r \<le> length (bm_boxes s') + retry)"
proof (induction left arbitrary: retry msg c s)
  case (Suc left)
  show ?case
  proof (cases "e_cancelled e (bm_tick s)")
    case True
    then show ?thesis using Suc.prems by (auto simp: poll_ctx_def came_up_def)
  next
    case False
    obtain cr s2 where cr: "create_instance e c (advance s) = (cr, s2)" by fastforce
    show ?thesis
    proof (cases cr)
      case (Inl m)
      then show ?thesis using Suc.prems False cr create_failed [of e c "advance s" m s2]
        by (auto simp: poll_ctx_def came_up_def)
    next
      case (Inr i)
      obtain st s3 where st: "start_box e i s2 = (st, s3)" by fastforce
      have len: "length (bm_boxes s3) = length (bm_boxes s) + 1"
        using length_start_box [OF st] create_ok [OF cr [unfolded Inr]] by simp
      show ?thesis
      proof (cases st)
        case None
        then show ?thesis using Suc.prems False cr st Inr len by (auto simp: poll_ctx_def came_up_def)
      next
        case (Some m)
        let ?s4 = "close_box i s3"
        show ?thesis
        proof (cases "extract_port m = 0 \<or> e_cancelled e (bm_tick ?s4)")
          case True
          then show ?thesis using Suc.prems False cr st Inr Some len
            by (auto simp: poll_ctx_def came_up_def Let_def split: if_splits)
        next
          case go: False
          let ?s5 = "advance ?s4"
          let ?re = "reassign_conflicting_port (e_port_free e (bm_tick ?s5)) c (extract_port m)"
          define c1 where "c1 = (if retry \<ge> 5 then fst ?re else c)"
          define t where "t = (if retry \<ge> 5 \<and> snd ?re then emit ResetSharedState ?s5 else ?s5)"
          have rest: "reload_attempts e left (retry + 1) m c1 t = (r, c', s')"
            using Suc.prems False cr st Inr Some go
            by (auto simp: poll_ctx_def Let_def c1_def t_def split: prod.splits if_splits)
          have t: "length (bm_boxes t) = length (bm_boxes s) + 1" using len by (simp add: t_def)
          note IH = Suc.IH [OF rest]
          have "same_but_ports c c1" using reassign_same by (simp add: c1_def)
          then have same: "same_but_ports c c'" using IH same_but_ports_trans by blast
          show ?thesis
          proof (cases "retry \<ge> 5")
            case True
            then show ?thesis using IH t same by simp
          next
            case early: False
            then have "c1 = c" by (simp add: c1_def)
            then show ?thesis using IH t same by auto
          qed
        qed
      qed
    qed
  qed
qed (auto simp: came_up_def)


lemma length_release_old [simp]: "length (bm_boxes (release_old s)) = length (bm_boxes s)"
  by (simp add: release_old_def split: option.split)

lemma reload_success:
  assumes "reload_locked e (Some c) s = (None, s')"
  obtains i c' s3 where "reload_attempts e 10 0 [] c
      (clear_registered (emit ResetSharedState (advance (release_old (advance s))))) = (Up i, c', s3)"
    and "s' = commit_reload e i c' (advance s3)"
  using assms by (auto simp: reload_locked_def poll_ctx_def Let_def split: if_splits prod.splits attempt.splits)

section \<open>The abstract machine\<close>

text \<open>What clients can see: whether the manager was closed, the configuration it holds and the one that
  is being served.\<close>

record life =
  lf_closed :: bool
  lf_config :: "config option"
  lf_serving :: "config option"

text \<open>What the environment allows: no context ends; a configuration may come up; it comes up at the first attempt.\<close>

definition alive :: "box_env \<Rightarrow> bool" where
  "alive e \<longleftrightarrow> (\<forall>t. \<not> e_cancelled e t)"

definition accepts :: "box_env \<Rightarrow> config \<Rightarrow> bool" where
  "accepts e c \<longleftrightarrow> (\<exists>t. e_create e t c = None) \<and> (\<exists>t. e_start e t c = None)"

definition dependable :: "box_env \<Rightarrow> config \<Rightarrow> bool" where
  "dependable e c \<longleftrightarrow> alive e \<and> (\<forall>t. e_create e t c = None) \<and> (\<forall>t. e_start e t c = None) \<and> e_monitor e = None"

text \<open>The configuration that a request asks for, given the held one and the ports that are free at the time.\<close>

definition normalized :: "box_env \<Rightarrow> nat \<Rightarrow> port_map \<Rightarrow> config \<Rightarrow> config option" where
  "normalized e t pm c = (case normalize_with_port_map (e_port_free e t) (e_json e) pm c of Inl _ \<Rightarrow> None | Inr c' \<Rightarrow> Some c')"

fun asked :: "box_env \<Rightarrow> nat \<Rightarrow> box_request \<Rightarrow> config option \<Rightarrow> config option" where
  "asked e t (Reload new) held = new"
| "asked e t (ReloadPorts new pm) held = Option.bind new (normalized e t pm)"
| "asked e t (Trigger ended) held = (if ended then None else Option.bind held (\<lambda>c. normalized e t (build_port_map (e_json e) c) c))"
| "asked e t (Transact update persist) held =
     Option.bind held (\<lambda>old. case update old of Inl _ \<Rightarrow> None | Inr c \<Rightarrow> normalized e t (build_port_map (e_json e) old) c)"
| "asked e t r held = None"

text \<open>The request also writes the new configuration, and may fail to.\<close>

fun write_error :: "box_request \<Rightarrow> config \<Rightarrow> string option" where
  "write_error (Transact update persist) c = persist c"
| "write_error r c = None"

text \<open>A reload to \<open>c\<close>. It succeeds only with a configuration the environment accepts, and must succeed when \<open>c\<close> is dependable; it is
  refused without effect only when nothing runs, the manager is closed or a context ends; a failure brings the held
  configuration back, and must bring it back when that one is dependable.\<close>

definition reload_outcome :: "box_env \<Rightarrow> config \<Rightarrow> box_error option \<Rightarrow> life \<Rightarrow> life \<Rightarrow> bool" where
  "reload_outcome e c res l l' \<longleftrightarrow>
     (case res of
        None \<Rightarrow> \<not> lf_closed l \<and> lf_serving l \<noteq> None
          \<and> (\<exists>c'. same_but_ports c c' \<and> accepts e c' \<and> l' = l\<lparr>lf_config := Some c', lf_serving := Some c'\<rparr>)
      | Some _ \<Rightarrow>
          (lf_closed l \<or> lf_serving l = None \<or> \<not> alive e) \<and> l' = l
          \<or> \<not> lf_closed l \<and> lf_serving l \<noteq> None \<and> \<not> dependable e c
            \<and> (\<exists>old. lf_config l = Some old \<and> (accepts e old \<and> l' = l\<lparr>lf_serving := Some old\<rparr>
                 \<or> \<not> dependable e old \<and> l' = l\<lparr>lf_serving := None\<rparr>)))"

inductive life_step :: "box_env \<Rightarrow> box_request \<Rightarrow> box_answer \<Rightarrow> life \<Rightarrow> life \<Rightarrow> bool" for e where
  comes_up: "\<not> lf_closed l \<Longrightarrow> lf_serving l = None \<Longrightarrow> lf_config l = Some c \<Longrightarrow> same_but_ports c c' \<Longrightarrow> accepts e c' \<Longrightarrow>
     life_step e Start Done l (l\<lparr>lf_config := Some c', lf_serving := Some c'\<rparr>)"
| stays_down: "\<not> lf_closed l \<Longrightarrow> lf_serving l = None \<Longrightarrow> lf_config l = Some c \<Longrightarrow> same_but_ports c c' \<Longrightarrow> \<not> dependable e c \<Longrightarrow>
     life_step e Start (Failed err) l (l\<lparr>lf_config := Some c'\<rparr>)"
| no_start: "lf_closed l \<or> lf_serving l \<noteq> None \<or> lf_config l = None \<or> \<not> alive e \<Longrightarrow> life_step e Start (Failed err) l l"
| nothing_asked: "r \<noteq> Start \<Longrightarrow> r \<noteq> Shutdown \<Longrightarrow> (\<And>q save ended. r \<noteq> Nodes q save ended) \<Longrightarrow> asked e t r (lf_config l) = None \<Longrightarrow>
     life_step e r (Failed err) l l"
| reloads: "asked e t r (lf_config l) = Some c \<Longrightarrow> reload_outcome e c res l l' \<Longrightarrow>
     (res = None \<Longrightarrow> write_error r (the (lf_config l')) = None) \<Longrightarrow> life_step e r (answer_of res) l l'"
| undone: "asked e t r (lf_config l) = Some c \<Longrightarrow> reload_outcome e c None l m \<Longrightarrow> write_error r (the (lf_config m)) = Some msg \<Longrightarrow>
     lf_config l = Some old \<Longrightarrow> reload_outcome e old res m l' \<Longrightarrow>
     life_step e r (Failed (case res of None \<Rightarrow> PersistError msg | Some err \<Rightarrow> PersistRollbackError msg err)) l l'"
| edits: "run_request save (e_json e) ended q (lf_config l) = (res, cfg) \<Longrightarrow>
     life_step e (Nodes q save ended) (case res of None \<Rightarrow> Done | Some err \<Rightarrow> NodeRefused err) l (l\<lparr>lf_config := cfg\<rparr>)"
| shuts: "life_step e Shutdown a l (l\<lparr>lf_closed := True, lf_serving := None\<rparr>)"

text \<open>A run of the machine: requests in their environments, each with the answer it got.\<close>

inductive life_run :: "(box_env \<times> box_request \<times> box_answer) list \<Rightarrow> life \<Rightarrow> life \<Rightarrow> bool" where
  ends: "life_run [] l l"
| goes: "life_step e r a l m \<Longrightarrow> life_run tr m n \<Longrightarrow> life_run ((e, r, a) # tr) l n"

inductive_cases life_runE [elim!]: "life_run ((e, r, a) # tr) l n"

definition life_of :: "manager \<Rightarrow> life" where
  "life_of s = \<lparr>lf_closed = bm_closed s, lf_config = bm_cfg s,
     lf_serving = map_option (\<lambda>i. b_config (bm_boxes s ! i)) (bm_current s)\<rparr>"

lemma life_of_simps [simp]:
  "lf_closed (life_of s) = bm_closed s" "lf_config (life_of s) = bm_cfg s" "lf_serving (life_of s) = None \<longleftrightarrow> bm_current s = None"
  by (simp_all add: life_of_def)

lemma life_of_cong:
  "bm_boxes t = bm_boxes s \<Longrightarrow> bm_current t = bm_current s \<Longrightarrow> bm_cfg t = bm_cfg s \<Longrightarrow> bm_closed t = bm_closed s
    \<Longrightarrow> life_of t = life_of s"
  by (simp add: life_of_def)

lemma life_live:
  "bm_current s = Some i \<Longrightarrow> bm_cfg s = Some c \<Longrightarrow> only_live i c s \<Longrightarrow>
     life_of s = \<lparr>lf_closed = bm_closed s, lf_config = Some c, lf_serving = Some c\<rparr>"
  by (simp add: life_of_def live_config)

lemma life_down: "bm_current t = None \<Longrightarrow> bm_cfg t = bm_cfg s \<Longrightarrow> bm_closed t = bm_closed s \<Longrightarrow> life_of t = (life_of s)\<lparr>lf_serving := None\<rparr>"
  by (simp add: life_of_def)

section \<open>Attempts\<close>

lemma accepted_round:
  assumes "create_instance e c s = (Inr i, s2)" and "start_box e i s2 = (None, s3)"
  shows "accepts e c"
proof -
  have "e_create e (bm_tick s) c = None" "bm_boxes s2 ! i = \<lparr>b_config = c, b_status = Created\<rparr>"
    using assms(1) create_ok [OF assms(1)] by (auto simp: create_instance_def nth_append split: option.splits)
  moreover have "e_start e (bm_tick s2) (b_config (bm_boxes s2 ! i)) = None" using assms(2) by (auto simp: start_box_def split: option.splits)
  ultimately show ?thesis by (auto simp: accepts_def)
qed

lemma reload_attempts_accepted: "reload_attempts e left retry msg c s = (Up i, c', s') \<Longrightarrow> accepts e c'"
  by (induction left arbitrary: retry msg c s)
    (auto simp: poll_ctx_def Let_def accepted_round split: if_splits prod.splits sum.splits option.splits)

lemma start_attempts_accepted: "start_attempts e left msg c s = (Up i, c', s') \<Longrightarrow> accepts e c'"
  by (induction left arbitrary: msg c s)
    (auto simp: poll_ctx_def Let_def accepted_round split: if_splits prod.splits sum.splits option.splits)

lemma rollback_attempts_accepted: "rollback_attempts e left c s = (Up i, s') \<Longrightarrow> accepts e c"
  by (induction left arbitrary: s)
    (auto simp: poll_ctx_def Let_def accepted_round split: if_splits prod.splits sum.splits option.splits)

lemma dependable_round:
  assumes "dependable e c"
  shows "\<exists>s2 s3. create_instance e c s = (Inr (length (bm_boxes s)), s2) \<and> start_box e (length (bm_boxes s)) s2 = (None, s3)"
  using assms by (simp add: dependable_def create_instance_def start_box_def)

lemma reload_attempts_dependable:
  assumes "dependable e c" shows "\<exists>i s'. reload_attempts e (Suc n) retry msg c s = (Up i, c, s')"
proof -
  have "\<not> e_cancelled e t" for t using assms by (simp add: dependable_def alive_def)
  moreover obtain s2 s3 where "create_instance e c (advance s) = (Inr (length (bm_boxes (advance s))), s2)"
    "start_box e (length (bm_boxes (advance s))) s2 = (None, s3)" using dependable_round [OF assms] by blast
  ultimately show ?thesis by (simp add: poll_ctx_def)
qed

lemma start_attempts_dependable:
  assumes "dependable e c" shows "\<exists>i s'. start_attempts e (Suc n) msg c s = (Up i, c, s')"
proof -
  have "\<not> e_cancelled e t" for t using assms by (simp add: dependable_def alive_def)
  moreover obtain s2 s3 where "create_instance e c (advance s) = (Inr (length (bm_boxes (advance s))), s2)"
    "start_box e (length (bm_boxes (advance s))) s2 = (None, s3)" using dependable_round [OF assms] by blast
  ultimately show ?thesis by (simp add: poll_ctx_def)
qed

lemma start_attempts_ports: "start_attempts e left msg c s = (r, c', s') \<Longrightarrow> same_but_ports c c'"
proof (induction left arbitrary: msg c s)
  case (Suc left)
  have "same_but_ports c c'" if "start_attempts e left m (fst (reassign_conflicting_port av c p)) t = (r, c', s')" for m av p t
    using same_but_ports_trans [OF reassign_same Suc.IH [OF that]] .
  then show ?case using Suc.prems
    by (auto simp: poll_ctx_def Let_def split: if_splits prod.splits sum.splits option.splits) (metis fst_conv)
qed simp

lemma five: "(5 :: nat) = Suc 4" and ten: "(10 :: nat) = Suc 9"
  by simp_all

lemma reload_not_aborted:
  "(\<And>t. \<not> e_cancelled e t) \<Longrightarrow> fst (reload_attempts e left retry msg c s) \<noteq> Aborted"
proof (induction left arbitrary: retry msg c s)
  case (Suc left)
  then show ?case by (simp add: poll_ctx_def Let_def split: prod.split sum.split option.split)
qed simp

lemma rollback_comes_up:
  assumes "\<And>t. \<not> e_cancelled e t" "\<And>t. e_create e t c = None" "\<And>t. e_start e t c = None"
  shows "bm_current (rollback_to_old_config e (Some c) s) \<noteq> None"
proof -
  have "\<exists>i s'. rollback_attempts e (Suc n) c t = (Up i, s')" for n t
    using assms by (simp add: poll_ctx_def create_instance_def start_box_def)
  then obtain i s' where "rollback_attempts e 5 c (clear_registered (emit ResetSharedState (advance s))) = (Up i, s')"
    unfolding five by blast
  then show ?thesis using assms(1) by (simp add: rollback_to_old_config_def poll_ctx_def Let_def)
qed

lemma rollback_accepted:
  assumes "all_closed s" "bm_current s = None" "bm_current (rollback_to_old_config e (Some c) s) \<noteq> None"
  shows "accepts e c"
proof -
  let ?t = "clear_registered (emit ResetSharedState (advance s))"
  obtain a s2 where a: "rollback_attempts e 5 c ?t = (a, s2)" by fastforce
  have t: "all_closed ?t" using assms(1) by (simp add: all_closed_def)
  have "bm_current s2 = None" using rollback_attempts_left [OF t a] assms(2) by (simp add: attempt_left_def)
  then have "\<exists>i. a = Up i" using assms(2,3) a
    by (cases a) (auto simp: rollback_to_old_config_def poll_ctx_def split: if_splits)
  then show ?thesis using a rollback_attempts_accepted by blast
qed

section \<open>A reload as a step\<close>

lemma reload_cases:
  assumes inv: "box_inv s" and run: "reload_locked e (Some c) s = (res, s')" and go: "\<not> bm_closed s" "bm_current s = Some k"
  obtains (early) "\<not> alive e" "res \<noteq> None" "s' = advance s"
    | (dropped) "\<not> alive e" "res \<noteq> None" "bm_current s' = None" "bm_cfg s' = bm_cfg s" "bm_closed s' = bm_closed s"
    | (rolled) a c' s3 where "reload_attempts e 10 0 [] c (clear_registered (emit ResetSharedState (advance (release_old (advance s))))) = (a, c', s3)"
        "\<nexists>i. a = Up i" "res \<noteq> None" "all_closed s3" "bm_current s3 = None" "bm_cfg s3 = bm_cfg s" "bm_closed s3 = bm_closed s"
        "s' = rollback_to_old_config e (bm_cfg s) s3"
    | (committed) i c' s3 where "reload_attempts e 10 0 [] c (clear_registered (emit ResetSharedState (advance (release_old (advance s))))) = (Up i, c', s3)"
        "res = None" "only_live i c' s3" "bm_closed s3 = bm_closed s" "s' = commit_reload e i c' (advance s3)"
proof -
  let ?r = "release_old (advance s)"
  let ?t = "clear_registered (emit ResetSharedState (advance ?r))"
  have gone: "\<not> alive e" if "e_cancelled e t" for t using that by (auto simp: alive_def)
  have "box_inv (advance s)" by (rule same_inv [OF inv]) simp_all
  note rel = release_old_closed [OF this]
  have t: "all_closed ?t" "bm_current ?t = None" "bm_cfg ?t = bm_cfg s" "bm_closed ?t = bm_closed s"
    using rel by (simp_all add: all_closed_def)
  obtain a c' s3 where a: "reload_attempts e 10 0 [] c ?t = (a, c', s3)" by (metis prod_cases3)
  have left: "attempt_left a c' ?t s3" "bm_cfg s3 = bm_cfg s" using reload_attempts_left [OF t(1) a] t(3) by simp_all
  then have cur: "bm_current s3 = None" "bm_closed s3 = bm_closed s" using t(2,4) by (simp_all add: attempt_left_def)
  show thesis
  proof (cases "bm_base s \<and> e_cancelled e (bm_tick s)")
    case True
    then have "res = Some CtxEnded" "s' = advance s" using run go by (simp_all add: reload_locked_def poll_ctx_def)
    then show thesis using early gone True by blast
  next
    case begun: False
    show thesis
    proof (cases "e_cancelled e (bm_tick ?r)")
      case True
      then have "res = Some CtxEnded" "s' = advance ?r"
        using run go begun by (simp_all add: reload_locked_def poll_ctx_def Let_def)
      then show thesis using gone [OF True] rel by (intro dropped) simp_all
    next
      case free: False
      have run': "(res, s') = (case (a, c', s3) of
          (Aborted, _, s3) \<Rightarrow> (Some CtxEnded, s3)
        | (CannotCreate m, _, s3) \<Rightarrow> (Some (CreateError m), rollback_to_old_config e (bm_cfg s) s3)
        | (CannotStart m, _, s3) \<Rightarrow> (Some (StartError m), rollback_to_old_config e (bm_cfg s) s3)
        | (OutOfAttempts m, _, s3) \<Rightarrow> (Some (StartExhausted m), rollback_to_old_config e (bm_cfg s) s3)
        | (Up i, c', s3) \<Rightarrow> (if e_cancelled e (bm_tick s3) then (Some CtxEnded, close_box i (advance s3))
            else (None, commit_reload e i c' (advance s3))))"
        using run go begun free a by (cases a) (auto simp: reload_locked_def poll_ctx_def Let_def)
      show thesis
      proof (cases a)
        case (Up i)
        have live: "only_live i c' s3" using left(1) Up by (simp add: attempt_left_def)
        show thesis
        proof (cases "e_cancelled e (bm_tick s3)")
          case True
          then have "res = Some CtxEnded" "s' = close_box i (advance s3)" using run' Up by simp_all
          then show thesis using gone [OF True] cur left(2) by (intro dropped) simp_all
        next
          case False
          then have "res = None" "s' = commit_reload e i c' (advance s3)" using run' Up by simp_all
          then show thesis using committed a Up live cur(2) by blast
        qed
      next
        case Aborted
        have "res = Some CtxEnded" "s' = s3" using run' Aborted by simp_all
        moreover have "\<not> alive e" using reload_not_aborted [of e 10 0 "[]" c ?t] a Aborted by (auto simp: alive_def)
        ultimately show thesis using cur left(2) by (intro dropped) simp_all
      qed (use run' a left cur in \<open>auto simp: attempt_left_def intro!: rolled\<close>)
    qed
  qed
qed

lemma reload_life:
  assumes inv: "box_inv s" and run: "reload_locked e (Some c) s = (res, s')"
  shows "reload_outcome e c res (life_of s) (life_of s')"
proof (cases "bm_closed s \<or> bm_current s = None")
  case True
  then have "res \<noteq> None" "s' = s" using run by (auto simp: reload_locked_def split: if_splits)
  then show ?thesis using True by (auto simp: reload_outcome_def)
next
  case False
  then obtain k where go: "\<not> bm_closed s" "bm_current s = Some k" by auto
  then obtain old where old: "bm_cfg s = Some old" using inv by (auto simp: box_inv_def)
  have dep: "dependable e d \<Longrightarrow> alive e" for d by (simp add: dependable_def)
  show ?thesis using inv run go
  proof (cases rule: reload_cases)
    case early
    then show ?thesis using life_of_cong [of s' s] by (auto simp: reload_outcome_def)
  next
    case dropped
    then have "\<not> dependable e c" "\<not> dependable e old" using dep by blast+
    then show ?thesis using life_down [OF dropped(3-5)] go old dropped(2) by (auto simp: reload_outcome_def)
  next
    case (rolled a c' s3)
    have "\<not> dependable e c"
    proof
      assume "dependable e c"
      then obtain i t where "reload_attempts e 10 0 [] c (clear_registered (emit ResetSharedState (advance (release_old (advance s))))) = (Up i, c, t)"
        using reload_attempts_dependable [of e c 9 0 "[]"] unfolding ten by blast
      then show False using rolled(1,2) by simp
    qed
    moreover have fell: "fell_back s' (bm_cfg s)" "bm_closed s' = bm_closed s"
      using rollback_falls_back [OF rolled(4,5,6), of e] rolled(7,8) by simp_all
    moreover have "accepts e old \<and> life_of s' = (life_of s)\<lparr>lf_serving := Some old\<rparr>
        \<or> \<not> dependable e old \<and> life_of s' = (life_of s)\<lparr>lf_serving := None\<rparr>"
    proof (cases "bm_current s'")
      case None
      have "\<not> dependable e old" using None rollback_comes_up [of e old s3] rolled(8) old by (auto simp: dependable_def alive_def)
      moreover have "life_of s' = (life_of s)\<lparr>lf_serving := None\<rparr>" using None fell by (intro life_down) (simp_all add: fell_back_def)
      ultimately show ?thesis by simp
    next
      case (Some i)
      then have "only_live i old s'" "bm_cfg s' = Some old" using fell(1) old by (auto simp: fell_back_def)
      then have "life_of s' = (life_of s)\<lparr>lf_serving := Some old\<rparr>" using life_live [OF Some] fell(2) old by (simp add: life_of_def)
      moreover have "accepts e old" using rollback_accepted [OF rolled(4,5)] Some rolled(8) old by simp
      ultimately show ?thesis by simp
    qed
    ultimately show ?thesis using go old rolled(3) by (auto simp: reload_outcome_def)
  next
    case (committed i c' s3)
    have "same_but_ports c c'" using reload_attempts_ports [OF committed(1)] by blast
    moreover have "accepts e c'" using reload_attempts_accepted [OF committed(1)] .
    moreover have "bm_current s' = Some i" "bm_cfg s' = Some c'" "only_live i c' s'" "bm_closed s' = bm_closed s"
      using committed(3-5) by (simp_all add: commit_reload_def Let_def only_live_def)
    then have "life_of s' = (life_of s)\<lparr>lf_config := Some c', lf_serving := Some c'\<rparr>"
      using life_live [of s' i c'] by (simp add: life_of_def)
    ultimately show ?thesis using go committed(2) by (auto simp: reload_outcome_def)
  qed
qed

section \<open>Every request is a step\<close>

definition good_step :: "box_env \<Rightarrow> box_request \<Rightarrow> box_answer \<times> manager \<Rightarrow> manager \<Rightarrow> bool" where
  "good_step e r out s \<longleftrightarrow> box_inv (snd out) \<and> life_step e r (fst out) (life_of s) (life_of (snd out))"

definition is_reload :: "box_request \<Rightarrow> bool" where
  "is_reload r \<longleftrightarrow> r \<noteq> Start \<and> r \<noteq> Shutdown \<and> (\<forall>q save ended. r \<noteq> Nodes q save ended)"

lemma good_unasked:
  "box_inv s \<Longrightarrow> is_reload r \<Longrightarrow> asked e t r (bm_cfg s) = None \<Longrightarrow> life_of s' = life_of s \<Longrightarrow> box_inv s' \<Longrightarrow> good_step e r (Failed err, s') s"
  using nothing_asked [of r e t "life_of s" err] by (simp add: good_step_def is_reload_def)

lemma reload_keeps_inv: "box_inv s \<Longrightarrow> reload_locked e new s = (res, s') \<Longrightarrow> box_inv s'"
  using reload_locked_left reload_left_inv by blast

lemma advance_inv: "box_inv s \<Longrightarrow> box_inv (advance s)"
  by (rule same_inv) simp_all

lemma advance_life [simp]: "life_of (advance s) = life_of s" "life_of (emit x s) = life_of s"
  by (rule life_of_cong; simp)+

lemma emit_inv: "box_inv s \<Longrightarrow> box_inv (emit x s)"
  by (rule same_inv) simp_all

lemma good_reload:
  assumes "box_inv s"
  shows "good_step e (Reload new) (apfst answer_of (reload_locked e new s)) s"
proof (cases new)
  case None
  then show ?thesis using good_unasked [OF assms, of "Reload new" e 0 s] assms
    by (simp add: reload_locked_def answer_of_def is_reload_def)
next
  case (Some c)
  obtain res s' where r: "reload_locked e (Some c) s = (res, s')" by fastforce
  have "life_step e (Reload new) (answer_of res) (life_of s) (life_of s')"
    by (rule reloads [OF _ reload_life [OF assms r]]) (simp_all add: Some)
  then show ?thesis using Some r reload_keeps_inv [OF assms r] by (simp add: good_step_def)
qed

text \<open>A reload of a normalised configuration, and saving its ports.\<close>

lemma good_normalized:
  assumes inv: "box_inv s" and r: "is_reload r" "\<And>c. write_error r c = None"
    and ask: "asked e (bm_tick s) r (bm_cfg s) = normalized e (bm_tick s) pm c0"
  shows "good_step e r (apfst answer_of (reload_with_port_map e (Some c0) pm s)) s"
proof (cases "normalize_with_port_map (e_port_free e (bm_tick s)) (e_json e) pm c0")
  case (Inl err)
  then show ?thesis using good_unasked [OF inv r(1), of e "bm_tick s" "advance s"] ask advance_inv [OF inv]
    by (simp add: reload_with_port_map_def normalized_def answer_of_def)
next
  case (Inr c)
  obtain res s1 where l: "reload_locked e (Some c) (advance s) = (res, s1)" by fastforce
  have "life_step e r (answer_of res) (life_of s) (life_of s1)"
    using reloads [of e "bm_tick s" r "life_of s" c res "life_of s1"] reload_life [OF advance_inv [OF inv] l] ask Inr r(2)
    by (simp add: normalized_def)
  then show ?thesis using Inr l reload_keeps_inv [OF advance_inv [OF inv] l] emit_inv
    by (cases res) (simp_all add: reload_with_port_map_def good_step_def answer_of_def)
qed

lemma good_port_reload:
  assumes "box_inv s"
  shows "good_step e (ReloadPorts new pm) (apfst answer_of (reload_with_port_map e new pm s)) s"
proof (cases new)
  case None
  then show ?thesis using good_unasked [OF assms, of "ReloadPorts new pm" e 0 s] assms
    by (simp add: reload_with_port_map_def answer_of_def is_reload_def)
next
  case (Some c)
  then show ?thesis using good_normalized [OF assms, of "ReloadPorts new pm" e pm c] by (simp add: is_reload_def)
qed

lemma good_trigger:
  assumes "box_inv s"
  shows "good_step e (Trigger ended) (apfst answer_of (trigger_reload e ended s)) s"
proof (cases "ended \<or> bm_cfg s = None")
  case True
  then show ?thesis using good_unasked [OF assms, of "Trigger ended" e 0 s] assms
    by (auto simp: trigger_reload_def answer_of_def is_reload_def split: option.split)
next
  case False
  then obtain c where "bm_cfg s = Some c" "\<not> ended" by auto
  then show ?thesis using good_normalized [OF assms, of "Trigger ended" e "build_port_map (e_json e) c" c]
    by (simp add: is_reload_def trigger_reload_def)
qed

lemma good_transaction:
  assumes inv: "box_inv s"
  shows "good_step e (Transact update persist) (apfst answer_of (reload_with_current_config e update persist s)) s"
proof -
  let ?r = "Transact update persist"
  have r: "is_reload ?r" by (simp add: is_reload_def)
  note adv = advance_inv [OF inv]
  show ?thesis
  proof (cases "asked e (bm_tick s) ?r (bm_cfg s)")
    case None
    have "\<exists>err s'. reload_with_current_config e update persist s = (Some err, s') \<and> (s' = s \<or> s' = advance s)"
      using None by (auto simp: reload_with_current_config_def normalized_def split: option.splits sum.splits)
    then show ?thesis using good_unasked [OF inv r None] inv adv by (auto simp: answer_of_def)
  next
    case (Some c)
    then obtain old where held: "bm_cfg s = Some old" by (cases "bm_cfg s") auto
    then obtain c0 where "update old = Inr c0" using Some by (cases "update old") auto
    then have old: "bm_cfg s = Some old" "update old = Inr c0"
      "normalize_with_port_map (e_port_free e (bm_tick s)) (e_json e) (build_port_map (e_json e) old) c0 = Inr c"
      using held Some by (auto simp: normalized_def split: sum.splits)
    obtain res s1 where l: "reload_locked e (Some c) (advance s) = (res, s1)" by fastforce
    have out: "reload_outcome e c res (life_of s) (life_of s1)" using reload_life [OF adv l] by simp
    note inv1 = reload_keeps_inv [OF adv l]
    show ?thesis
    proof (cases "bm_closed s \<or> bm_current s = None")
      case True
      then have "reload_outcome e c (Some err) (life_of s) (life_of s)" for err by (auto simp: reload_outcome_def)
      then have "life_step e ?r (answer_of (Some err)) (life_of s) (life_of s)" for err
        using reloads [of e "bm_tick s" ?r "life_of s" c "Some err"] Some by simp
      then show ?thesis using True inv old(1)
        by (auto simp: reload_with_current_config_def good_step_def split: option.split)
    next
      case False
      then obtain k where go: "\<not> bm_closed s" "bm_current s = Some k" by auto
      show ?thesis
      proof (cases res)
        case err: (Some err)
        have "life_step e ?r (answer_of res) (life_of s) (life_of s1)"
          using reloads [OF _ out, of "bm_tick s" ?r] Some err by simp
        then show ?thesis using go old l err inv1 by (simp add: reload_with_current_config_def good_step_def)
      next
        case None
        show ?thesis
        proof (cases "persist (the (bm_cfg s1))")
          case None
          have "life_step e ?r (answer_of res) (life_of s) (life_of s1)"
            using reloads [OF _ out, of "bm_tick s" ?r] Some None by simp
          then show ?thesis using go old l None \<open>res = None\<close> inv1 emit_inv
            by (simp add: reload_with_current_config_def good_step_def)
        next
          case msg: (Some msg)
          obtain res2 s2 where l2: "reload_locked e (Some old) s1 = (res2, s2)" by fastforce
          have "life_step e ?r (Failed (case res2 of None \<Rightarrow> PersistError msg | Some err \<Rightarrow> PersistRollbackError msg err)) (life_of s) (life_of s2)"
            using undone [of e "bm_tick s" ?r "life_of s" c "life_of s1" msg old res2 "life_of s2"] Some out None msg old(1)
              reload_life [OF inv1 l2] by simp
          then show ?thesis using go old l None msg l2 reload_keeps_inv [OF inv1 l2]
            by (cases res2) (simp_all add: reload_with_current_config_def good_step_def answer_of_def)
        qed
      qed
    qed
  qed
qed

lemma edit_stays_config: "cfg \<noteq> None \<Longrightarrow> snd (run_request save jc ended q cfg) \<noteq> None"
  by (auto simp: run_request_def create_node_def update_node_def delete_node_def Let_def
      split: node_request.split prod.split option.split sum.split if_splits)

lemma good_edit:
  assumes inv: "box_inv s"
  shows "good_step e (Nodes q save ended) (answer_box e (Nodes q save ended) s) s"
proof -
  obtain res cfg where run: "run_request save (e_json e) ended q (bm_cfg s) = (res, cfg)" by fastforce
  have "bm_cfg s \<noteq> None \<Longrightarrow> cfg \<noteq> None" using edit_stays_config [of "bm_cfg s" save "e_json e" ended q] run by simp
  then have "box_inv (s\<lparr>bm_cfg := cfg\<rparr>)"
    using inv by (simp add: box_inv_def all_closed_def only_live_def split: option.splits)
  moreover have "life_step e (Nodes q save ended) (case res of None \<Rightarrow> Done | Some err \<Rightarrow> NodeRefused err) (life_of s)
      ((life_of s)\<lparr>lf_config := cfg\<rparr>)" using run by (intro edits) simp
  ultimately show ?thesis using run by (simp add: good_step_def answer_box_def life_of_def)
qed

lemma good_close:
  assumes inv: "box_inv s"
  shows "good_step e Shutdown (apfst answer_of (close_manager e s)) s"
proof -
  let ?t = "snd (close_manager e s)"
  note left = close_manager_left [OF inv, of e]
  have "life_of ?t = (life_of s)\<lparr>lf_closed := True, lf_serving := None\<rparr>" using left by (simp add: life_of_def)
  then have "life_step e Shutdown a (life_of s) (life_of ?t)" for a using shuts by metis
  moreover have "box_inv ?t" using left closed_inv by blast
  ultimately show ?thesis by (simp add: good_step_def)
qed

lemma finish_start_alive: "alive e \<Longrightarrow> fst (finish_start e i c s) = None"
  by (simp add: finish_start_def alive_def poll_ctx_def Let_def split: prod.split)

lemma start_body_outcome:
  assumes idle: "all_closed s" "bm_current s = None" "bm_cfg s = Some c" and run: "start_body e c s = (r, s')"
  shows "\<exists>c'. bm_cfg s' = Some c' \<and> same_but_ports c c' \<and> (r = None \<longrightarrow> accepts e c') \<and> (dependable e c \<longrightarrow> r = None)"
proof -
  obtain m s1 where m: "ensure_monitor e s = (m, s1)" by fastforce
  note mon = ensure_monitor_left [OF m]
  then have s1: "all_closed s1" "bm_current s1 = None" "bm_cfg s1 = Some c" using idle by (simp_all add: all_closed_def)
  show ?thesis
  proof (cases m)
    case (Some err)
    then have "r = Some err" "s' = s1" using run m by (simp_all add: start_body_def)
    moreover have "\<not> dependable e c" using m Some by (auto simp: ensure_monitor_def dependable_def Let_def split: if_splits)
    ultimately show ?thesis using s1 by auto
  next
    case None
    obtain a c' s2 where a: "start_attempts e 10 [] c s1 = (a, c', s2)" by (metis prod_cases3)
    have left: "attempt_left a c' s1 s2" "bm_cfg s2 = Some c'" using start_attempts_left [OF s1(1,3) a] by simp_all
    have ports: "same_but_ports c c'" using start_attempts_ports [OF a] .
    have up: "\<exists>i. a = Up i" if "dependable e c"
      using start_attempts_dependable [OF that, of 9 "[]" s1] a unfolding ten [symmetric] by auto
    show ?thesis
    proof (cases a)
      case (Up i)
      then have live: "only_live i c' (advance s2)" using left(1) by (simp add: attempt_left_def only_live_def)
      show ?thesis
      proof (cases "e_cancelled e (bm_tick s2)")
        case True
        then have "r = Some CtxEnded" "s' = close_box i (advance s2)" using run m None a Up by (simp_all add: start_body_def poll_ctx_def)
        moreover have "\<not> dependable e c" using True by (auto simp: dependable_def alive_def)
        ultimately show ?thesis using left(2) ports by simp
      next
        case False
        then have fin: "finish_start e i c' (advance s2) = (r, s')" using run m None a Up by (simp add: start_body_def poll_ctx_def)
        have "bm_cfg s' = Some c'" using finish_start_left [OF live _ fin] left(2) by simp
        moreover have "r = None" if "dependable e c"
          using finish_start_alive [of e i c' "advance s2"] fin that by (simp add: dependable_def)
        ultimately show ?thesis using ports start_attempts_accepted [OF a [unfolded Up]] by blast
      qed
    qed (use run m None a left(2) ports up in \<open>auto simp: start_body_def\<close>)
  qed
qed

lemma good_start:
  assumes inv: "box_inv s"
  shows "good_step e Start (apfst answer_of (start_manager e s)) s"
proof -
  obtain r s' where run: "start_manager e s = (r, s')" by fastforce
  have inv': "box_inv s'" using start_left_inv [OF inv start_manager_left [OF inv run]] .
  have "life_step e Start (answer_of r) (life_of s) (life_of s')"
  proof (cases "e_cancelled e (bm_tick s) \<or> bm_closed s \<or> bm_cfg s = None \<or> bm_current s \<noteq> None")
    case True
    then have "\<exists>err. r = Some err" "s' = advance s"
      using run by (auto simp: start_manager_def poll_ctx_def split: option.splits if_splits)
    moreover have "life_step e Start (Failed err) (life_of s) (life_of s)" for err
      using True by (intro no_start) (auto simp: alive_def)
    ultimately show ?thesis by (auto simp: answer_of_def)
  next
    case False
    then obtain c where c: "bm_cfg s = Some c" and cur: "bm_current s = None" and open_: "\<not> bm_closed s"
      and go: "\<not> e_cancelled e (bm_tick s)" by auto
    let ?t = "(apply_settings c (advance s))\<lparr>bm_base := True\<rparr>"
    obtain r1 s1 where body: "start_body e c ?t = (r1, s1)" by fastforce
    have t: "all_closed ?t" "bm_current ?t = None" "bm_cfg ?t = Some c"
      using inv c cur by (simp_all add: box_inv_def all_closed_def)
    obtain c' where c': "bm_cfg s1 = Some c'" "same_but_ports c c'" "r1 = None \<Longrightarrow> accepts e c'" "dependable e c \<Longrightarrow> r1 = None"
      using start_body_outcome [OF t body] by blast
    note left = start_body_left [OF t body]
    show ?thesis
    proof (cases r1)
      case None
      then have r: "r = None" "s' = s1" using run go open_ c cur body by (simp_all add: start_manager_def poll_ctx_def)
      have "life_of s1 = (life_of s)\<lparr>lf_config := Some c', lf_serving := Some c'\<rparr>"
        using left None c'(1) life_live [of s1] by (auto simp: life_of_def)
      then show ?thesis using r comes_up [of "life_of s" c c' e] c' None open_ cur c by (simp add: answer_of_def)
    next
      case (Some err)
      then have r: "r = Some err" "s' = snd (close_components e s1)"
        using run go open_ c cur body by (simp_all add: start_manager_def poll_ctx_def)
      have "life_of s' = (life_of s)\<lparr>lf_config := Some c'\<rparr>"
        using close_components_left [of s1 e] left c'(1) r(2) cur by (auto simp: life_of_def)
      then show ?thesis using r stays_down [of "life_of s" c c' e err] c' Some open_ cur c by (auto simp: answer_of_def)
    qed
  qed
  then show ?thesis using run inv' by (simp add: good_step_def)
qed

lemma answer_box_good:
  assumes inv: "box_inv s"
  shows "good_step e r (answer_box e r s) s"
proof (cases r)
  case Start
  then show ?thesis using good_start [OF inv] by (simp add: answer_box_def)
next
  case (Reload new)
  then show ?thesis using good_reload [OF inv] by (simp add: answer_box_def)
next
  case (ReloadPorts new pm)
  then show ?thesis using good_port_reload [OF inv] by (simp add: answer_box_def)
next
  case (Trigger ended)
  then show ?thesis using good_trigger [OF inv] by (simp add: answer_box_def)
next
  case (Transact u p)
  then show ?thesis using good_transaction [OF inv] by (simp add: answer_box_def)
next
  case (Nodes q save ended)
  then show ?thesis using good_edit [OF inv] by simp
next
  case Shutdown
  then show ?thesis using good_close [OF inv] by (simp add: answer_box_def)
qed

section \<open>Sequences of requests\<close>

text \<open>Each request runs in an environment of its own choice.\<close>

fun run_requests :: "(box_env \<times> box_request) list \<Rightarrow> manager \<Rightarrow> manager" where
  "run_requests [] s = s"
| "run_requests ((e, r) # rs) s = run_requests rs (run_box e r s)"

text \<open>The requests with the answers they get.\<close>

fun box_trace :: "(box_env \<times> box_request) list \<Rightarrow> manager \<Rightarrow> (box_env \<times> box_request \<times> box_answer) list" where
  "box_trace [] s = []"
| "box_trace ((e, r) # rs) s = (e, r, fst (answer_box e r s)) # box_trace rs (run_box e r s)"

lemma run_requests_append: "run_requests (rs @ qs) s = run_requests qs (run_requests rs s)"
  by (induction rs s rule: run_requests.induct) simp_all

lemma run_requests_good:
  "box_inv s \<Longrightarrow> box_inv (run_requests rs s) \<and> life_run (box_trace rs s) (life_of s) (life_of (run_requests rs s))"
proof (induction rs s rule: run_requests.induct)
  case (2 e r rs s)
  then show ?case using answer_box_good [OF "2.prems", of e r] by (auto simp: good_step_def run_box_def intro: goes)
qed (simp add: ends)

lemmas run_requests_inv = run_requests_good [THEN conjunct1]

lemma new_box_manager_fresh: "bm_boxes (new_box_manager cfg) = []" "bm_current (new_box_manager cfg) = None"
  by (simp_all add: new_box_manager_def Let_def split: option.split)

lemma new_box_manager_inv: "box_inv (new_box_manager cfg)"
  by (simp add: box_inv_def all_closed_def new_box_manager_fresh)

text \<open>C7: The manager refines the abstract machine, request by request and answer by answer, whatever the requests and however instances
  fail and contexts end. A reload that succeeds serves and holds the configuration that was asked for, apart from ports, and only
  one that came up; it must succeed when that one is dependable. A reload that fails brings the held configuration back, and must do
  so when that one is dependable; it has no effect only when nothing runs, the manager is closed or a context ends. A
  transaction whose result cannot be written is undone by a reload to the configuration before it. A node edit changes the held
  configuration only, and after the shutdown nothing is served again.\<close>

theorem manager_refines_life:
  "life_run (box_trace rs (new_box_manager cfg)) \<lparr>lf_closed = False, lf_config = cfg, lf_serving = None\<rparr>
     (life_of (run_requests rs (new_box_manager cfg)))"
proof -
  have "life_of (new_box_manager cfg) = \<lparr>lf_closed = False, lf_config = cfg, lf_serving = None\<rparr>"
    by (simp add: life_of_def new_box_manager_def apply_settings_def emit_def Let_def split: option.split)
  then show ?thesis using run_requests_good [OF new_box_manager_inv, of rs cfg] by simp
qed

text \<open>C8: At any time at most one instance of sing-box is not closed: the current one, and it is running. No
  start, failed attempt, reload or rollback leaks an instance.\<close>

theorem one_live_instance:
  assumes "s = run_requests rs (new_box_manager cfg)" and "i < length (bm_boxes s)"
  shows "(b_status (bm_boxes s ! i) \<noteq> Closed \<longleftrightarrow> bm_current s = Some i)
    \<and> (bm_current s = Some i \<longrightarrow> b_status (bm_boxes s ! i) = Running)
    \<and> (\<forall>j. bm_current s = Some j \<longrightarrow> j < length (bm_boxes s))"
proof -
  have inv: "box_inv s" using run_requests_inv [OF new_box_manager_inv] assms(1) by simp
  show ?thesis
  proof (cases "bm_current s")
    case None
    then have "all_closed s" using inv by (simp add: box_inv_def)
    then show ?thesis using None assms(2) by (simp add: all_closed_def list_all_length)
  next
    case (Some j)
    then have live: "only_live j (b_config (bm_boxes s ! j)) s" using inv by (simp add: box_inv_def)
    then have j: "j < length (bm_boxes s)" "b_status (bm_boxes s ! j) = Running"
      unfolding only_live_def by (blast, metis box.select_convs(2))
    have "i \<noteq> j \<Longrightarrow> b_status (bm_boxes s ! i) = Closed" using live assms(2) unfolding only_live_def by blast
    then show ?thesis using Some j by auto
  qed
qed

lemma closed_life_step: "life_step e r a l l' \<Longrightarrow> lf_closed l \<and> lf_serving l = None \<Longrightarrow> lf_closed l' \<and> lf_serving l' = None"
  by (induction rule: life_step.induct) (auto simp: reload_outcome_def split: option.splits)

lemma closed_life_run: "life_run tr l l' \<Longrightarrow> lf_closed l \<and> lf_serving l = None \<Longrightarrow> lf_closed l' \<and> lf_serving l' = None"
  by (induction rule: life_run.induct) (auto dest: closed_life_step)

text \<open>After \<open>Close\<close> the manager never serves again: whatever is requested afterwards, every instance ever
  created is closed and none becomes current.\<close>

lemma closed_manager_stays_down:
  "let s = run_requests (before @ (e, Shutdown) # after) (new_box_manager cfg)
   in bm_closed s \<and> bm_current s = None \<and> list_all (\<lambda>b. b_status b = Closed) (bm_boxes s)"
proof -
  let ?s = "run_requests before (new_box_manager cfg)"
  let ?t = "snd (close_manager e ?s)"
  let ?u = "run_requests after ?t"
  have inv: "box_inv ?s" using run_requests_inv [OF new_box_manager_inv] by simp
  note shut = close_manager_left [OF inv, of e]
  have "box_inv ?t" using shut closed_inv by simp
  then have good: "box_inv ?u" "life_run (box_trace after ?t) (life_of ?t) (life_of ?u)" using run_requests_good by blast+
  have "lf_closed (life_of ?u) \<and> lf_serving (life_of ?u) = None"
    using closed_life_run [OF good(2)] shut by simp
  then have "bm_closed ?u" "bm_current ?u = None" by (simp_all add: life_of_def)
  moreover have "all_closed ?u" using good(1) calculation(2) by (simp add: box_inv_def)
  ultimately show ?thesis by (simp add: run_requests_append run_box_def answer_box_def all_closed_def)
qed

section \<open>One reload\<close>

text \<open>C9: A reload goes through or changes nothing that lasts: on success the manager holds and serves one and
  the same configuration; on failure it holds the configuration from before, and what runs is that
  configuration, the untouched instance of a refused call, or nothing.\<close>

theorem reload_all_or_nothing:
  assumes "box_inv s" and "reload_locked e new s = (res, s')"
  shows "(res = None \<longrightarrow> (\<exists>i c. bm_current s' = Some i \<and> bm_cfg s' = Some c \<and> only_live i c s'))
    \<and> (res \<noteq> None \<longrightarrow> bm_cfg s' = bm_cfg s \<and>
        (bm_current s' = None \<or> bm_boxes s' = bm_boxes s \<and> bm_current s' = bm_current s
          \<or> (\<exists>i c. bm_current s' = Some i \<and> bm_cfg s = Some c \<and> only_live i c s')))"
  using reload_locked_left [OF assms] by (auto simp: reload_left_def fell_back_def split: option.splits)


lemma reload_locked_run:
  assumes "new = Some c" "\<not> bm_closed s" "bm_current s = Some k" "\<And>t. \<not> e_cancelled e t"
  shows "reload_locked e new s =
    (let s2 = advance (release_old (advance s)) in
     case reload_attempts e 10 0 [] c (clear_registered (emit ResetSharedState s2)) of
       (Aborted, _, s3) \<Rightarrow> (Some CtxEnded, s3)
     | (CannotCreate m, _, s3) \<Rightarrow> (Some (CreateError m), rollback_to_old_config e (bm_cfg s) s3)
     | (CannotStart m, _, s3) \<Rightarrow> (Some (StartError m), rollback_to_old_config e (bm_cfg s) s3)
     | (OutOfAttempts m, _, s3) \<Rightarrow> (Some (StartExhausted m), rollback_to_old_config e (bm_cfg s) s3)
     | (Up i, c', s3) \<Rightarrow> (None, commit_reload e i c' (advance s3)))"
  using assms by (simp add: reload_locked_def poll_ctx_def Let_def split: prod.split attempt.split)

text \<open>C10: A failed reload does not take the service down: as long as the manager is not being shut down and the
  configuration it holds can be started, that configuration is running again when the call returns.\<close>

theorem failed_reload_keeps_serving:
  assumes inv: "box_inv s" and held: "bm_cfg s = Some old" "bm_current s \<noteq> None"
    and alive: "\<And>t. \<not> e_cancelled e t" and ok: "\<And>t. e_create e t old = None" "\<And>t. e_start e t old = None"
    and failed: "reload_locked e (Some c) s = (Some err, s')" and open_: "\<not> bm_closed s"
  shows "\<exists>i. bm_current s' = Some i \<and> only_live i old s'"
proof -
  obtain k where k: "bm_current s = Some k" using held(2) by auto
  let ?t = "clear_registered (emit ResetSharedState (advance (release_old (advance s))))"
  obtain a c' s3 where a: "reload_attempts e 10 0 [] c ?t = (a, c', s3)" by (metis prod_cases3)
  have "a \<noteq> Aborted" using reload_not_aborted [OF alive, of 10 0 "[]" c ?t] a by simp
  then have s': "s' = rollback_to_old_config e (Some old) s3"
    using failed a held(1) reload_locked_run [OF refl open_ k alive, of c] by (cases a) (simp_all add: Let_def)
  then have "bm_current s' \<noteq> None" using rollback_comes_up [OF alive ok] by simp
  moreover have "all_closed ?t" "bm_current ?t = None" "bm_cfg ?t = Some old"
  proof -
    have "box_inv (advance s)" by (rule same_inv [OF inv]) simp_all
    from release_old_closed [OF this] show "all_closed ?t" "bm_current ?t = None" "bm_cfg ?t = Some old"
      using held(1) by (simp_all add: all_closed_def)
  qed
  moreover have "attempt_left a c' ?t s3 \<and> bm_cfg s3 = bm_cfg ?t" using reload_attempts_left [OF calculation(2) a] .
  moreover have "\<not> (\<exists>i. a = Up i)"
    using failed a held(1) reload_locked_run [OF refl open_ k alive, of c] by (cases a) (simp_all add: Let_def)
  ultimately have "all_closed s3" "bm_current s3 = None" "bm_cfg s3 = Some old"
    by (cases a; simp add: attempt_left_def)+
  from rollback_falls_back [OF this, of e] \<open>bm_current s' \<noteq> None\<close> show ?thesis unfolding s' fell_back_def by auto
qed

section \<open>When the held configuration cannot start\<close>

text \<open>The state after a created instance failed to start and was closed.\<close>

definition tried :: "config \<Rightarrow> manager \<Rightarrow> manager" where
  "tried c s = close_box (length (bm_boxes s))
     (advance ((advance (advance s))\<lparr>bm_boxes := bm_boxes s @ [\<lparr>b_config = c, b_status = Created\<rparr>]\<rparr>))"

lemma tried_current [simp]: "bm_current (tried c s) = bm_current s"
  by (simp add: tried_def)

lemma rollback_retries:
  assumes "\<And>t. \<not> e_cancelled e t" "\<And>t. e_create e t c = None" "\<And>t. e_start e t c \<noteq> None"
  shows "rollback_attempts e (Suc n) c s = rollback_attempts e n c (advance (tried c s))"
proof -
  obtain m where "e_start e (bm_tick s + 2) c = Some m" using assms(3) by (metis option.exhaust)
  then show ?thesis using assms(1,2) by (simp add: poll_ctx_def create_instance_def start_box_def Let_def tried_def)
qed

lemma rollback_gives_up:
  assumes "\<And>t. \<not> e_cancelled e t" "\<And>t. e_create e t c = None" "\<And>t. e_start e t c \<noteq> None"
  shows "\<exists>s'. rollback_attempts e n c s = (OutOfAttempts [], s') \<and> bm_current s' = bm_current s"
proof (induction n arbitrary: s)
  case (Suc n)
  show ?case using Suc [of "advance (tried c s)"] unfolding rollback_retries [OF assms] by simp
qed simp

lemma reload_cannot_start:
  assumes "\<And>t. \<not> e_cancelled e t" "\<And>t. e_create e t c = None" "\<And>t. e_start e t c = Some m" "extract_port m = 0"
  shows "reload_attempts e (Suc n) retry msg c s = (CannotStart m, c, tried c s)"
  using assms by (simp add: poll_ctx_def create_instance_def start_box_def Let_def tried_def)

text \<open>After node edits the manager already holds the edited configuration, so this is the one a failed reload
  falls back to, and not the one that was running. When the edit is what prevents the start, the rollback
  fails as well: nothing runs, and every later reload is refused.\<close>

lemma failed_edit_takes_service_down:
  assumes held: "bm_cfg s = Some edited" "bm_current s = Some k" "\<not> bm_closed s"
    and alive: "\<And>t. \<not> e_cancelled e t"
    and env: "\<And>t. e_create e t edited = None" "\<And>t. e_start e t edited = Some m" "extract_port m = 0"
  shows "\<exists>s'. reload_locked e (Some edited) s = (Some (StartError m), s') \<and> bm_current s' = None
    \<and> (\<forall>e' c. fst (reload_locked e' (Some c) s') \<in> {Some NotStarted, Some ManagerClosed})"
proof -
  let ?t = "clear_registered (emit ResetSharedState (advance (release_old (advance s))))"
  have cur: "bm_current ?t = None" using held(2) by (simp add: release_old_def)
  obtain s3 where s3: "reload_attempts e 10 0 [] edited ?t = (CannotStart m, edited, s3)" "bm_current s3 = None"
    unfolding ten reload_cannot_start [OF alive env] using cur by simp
  have "e_start e t edited \<noteq> None" for t using env(2) by simp
  then obtain s4 where s4: "rollback_attempts e 5 edited (clear_registered (emit ResetSharedState (advance s3))) = (OutOfAttempts [], s4)"
    "bm_current s4 = None" using rollback_gives_up [OF alive env(1)] s3(2) by fastforce
  have "reload_locked e (Some edited) s = (Some (StartError m), s4)"
    using s3(1) s4(1) held alive reload_locked_run [OF refl held(3,2) alive, of edited]
    by (simp add: Let_def rollback_to_old_config_def poll_ctx_def)
  then show ?thesis using s4(2) by (auto simp: reload_locked_def)
qed

section \<open>Ports\<close>

text \<open>A reload that succeeds serves the requested nodes, and on the requested ports unless at least six
  attempts in a row failed on a port that another process holds; only then a node may be moved.\<close>

lemma reload_moves_ports_late:
  assumes "reload_locked e (Some c) s = (None, s')"
  shows "\<exists>c'. bm_cfg s' = Some c' \<and> same_but_ports c c' \<and> (c' = c \<or> length (bm_boxes s) + 7 \<le> length (bm_boxes s'))"
proof -
  from reload_success [OF assms] obtain i c' s3
    where run: "reload_attempts e 10 0 [] c (clear_registered (emit ResetSharedState (advance (release_old (advance s))))) = (Up i, c', s3)"
      and s': "s' = commit_reload e i c' (advance s3)" .
  from reload_attempts_ports [OF run]
  have "same_but_ports c c' \<and> (c' = c \<or> length (bm_boxes s) + 7 \<le> length (bm_boxes s3))"
    by (auto simp: came_up_def)
  then show ?thesis unfolding s' by (simp add: commit_reload_def Let_def)
qed

section \<open>Examples\<close>

text \<open>An environment in which a configuration with a node called \<open>bad\<close> cannot be started.\<close>

definition has_bad :: "config \<Rightarrow> bool" where
  "has_bad c \<longleftrightarrow> list_ex (\<lambda>n. nc_name n = ''bad'') (c_nodes c)"

definition sample_env :: box_env where
  "sample_env = \<lparr>e_cancelled = (\<lambda>_. False), e_create = (\<lambda>_ _. None),
     e_start = (\<lambda>_ c. if has_bad c then Some ''permission denied'' else None), e_close = (\<lambda>_. None),
     e_port_free = (\<lambda>_ _ _. True), e_router = (\<lambda>_. True), e_monitor = None, e_monitor_enabled = False,
     e_available = (\<lambda>_. 0), e_polls = 2, e_json = no_json\<rparr>"

definition good_config :: config where "good_config = sample_config [node_of_uri ''a'' ''a'']"
definition bad_config :: config where "bad_config = sample_config [node_of_uri ''a'' ''a'', node_of_uri ''bad'' ''b'']"

definition sample_state :: manager where
  "sample_state = (new_box_manager (Some good_config))
     \<lparr>bm_boxes := [\<lparr>b_config = good_config, b_status = Running\<rparr>], bm_current := Some 0, bm_base := True, bm_monitor := True\<rparr>"

lemma sample_env_simps [simp]:
  "\<not> e_cancelled sample_env t" "e_create sample_env t c = None"
  "e_start sample_env t c = (if has_bad c then Some ''permission denied'' else None)"
  by (simp_all add: sample_env_def)

lemma has_bad_simps [simp]: "\<not> has_bad good_config" "has_bad bad_config"
  by (simp_all add: has_bad_def good_config_def bad_config_def sample_config_def node_of_uri_def)

lemma permission_no_port: "extract_port ''permission denied'' = 0"
  by code_simp

lemma bind_error_port: "extract_port ''start inbound: listen tcp4 0.0.0.0:24282: bind: address already in use'' = 24282"
  by code_simp

lemma sample_state_simps [simp]:
  "bm_boxes sample_state = [\<lparr>b_config = good_config, b_status = Running\<rparr>]" "bm_current sample_state = Some 0"
  "bm_cfg sample_state = Some good_config" "\<not> bm_closed sample_state"
  by (simp_all add: sample_state_def new_box_manager_def Let_def)

lemma sample_state_inv: "box_inv sample_state"
  by (simp add: box_inv_def only_live_def)

lemma sample_reload_fails:
  obtains s' where "reload_locked sample_env (Some bad_config) sample_state = (Some (StartError ''permission denied''), s')"
proof -
  have "reload_attempts sample_env 10 0 [] bad_config s = (CannotStart ''permission denied'', bad_config, tried bad_config s)" for s
    unfolding ten by (rule reload_cannot_start) (simp_all add: permission_no_port)
  then have "fst (reload_locked sample_env (Some bad_config) sample_state) = Some (StartError ''permission denied'')"
    using reload_locked_run [of "Some bad_config" bad_config sample_state 0 sample_env] by (simp add: Let_def)
  then show thesis by (intro that) (rule prod_eqI, simp_all)
qed

theorem one_live_instance_witness:
  "\<exists>s. s = run_requests [(sample_env, Start)] (new_box_manager (Some good_config)) \<and> length (bm_boxes s) = 1
     \<and> (b_status (bm_boxes s ! 0) \<noteq> Closed \<longleftrightarrow> bm_current s = Some 0)"
proof -
  let ?s = "run_requests [(sample_env, Start)] (new_box_manager (Some good_config))"
  have len: "length (bm_boxes ?s) = 1" by code_simp
  then have "0 < length (bm_boxes ?s)" by (simp only:)
  note live = one_live_instance [OF refl this]
  show ?thesis by (intro exI [of _ ?s] conjI refl len live [THEN conjunct1])
qed

theorem reload_all_or_nothing_witness:
  "\<exists>s'. reload_locked sample_env (Some bad_config) sample_state = (Some (StartError ''permission denied''), s')
     \<and> bm_cfg s' = Some good_config"
proof -
  obtain s' where s': "reload_locked sample_env (Some bad_config) sample_state = (Some (StartError ''permission denied''), s')"
    by (rule sample_reload_fails)
  from reload_all_or_nothing [OF sample_state_inv s'] have "bm_cfg s' = Some good_config" by simp
  then show ?thesis using s' by blast
qed

theorem failed_reload_keeps_serving_witness:
  "\<exists>s' i. reload_locked sample_env (Some bad_config) sample_state = (Some (StartError ''permission denied''), s')
     \<and> bm_current s' = Some i \<and> only_live i good_config s'"
proof -
  obtain s' where s': "reload_locked sample_env (Some bad_config) sample_state = (Some (StartError ''permission denied''), s')"
    by (rule sample_reload_fails)
  have "\<exists>i. bm_current s' = Some i \<and> only_live i good_config s'"
    by (rule failed_reload_keeps_serving [OF sample_state_inv _ _ _ _ _ s']) simp_all
  then show ?thesis using s' by blast
qed

lemma reload_moves_ports_late_example:
  "\<exists>s'. reload_locked sample_env (Some good_config) sample_state = (None, s') \<and> bm_cfg s' = Some good_config"
proof -
  have "fst (reload_locked sample_env (Some good_config) sample_state) = None
    \<and> length (bm_boxes (snd (reload_locked sample_env (Some good_config) sample_state))) = 2" by code_simp
  then obtain s' where s': "reload_locked sample_env (Some good_config) sample_state = (None, s')" "length (bm_boxes s') = 2"
    by (metis prod.collapse)
  from reload_moves_ports_late [OF s'(1)] have "bm_cfg s' = Some good_config" using s'(2) by auto
  then show ?thesis using s'(1) by blast
qed

text \<open>The running configuration could be started again, but the rollback tries the edited one.\<close>

lemma edited_rollback_example:
  "\<exists>s'. reload_locked sample_env (Some bad_config) (sample_state\<lparr>bm_cfg := Some bad_config\<rparr>)
       = (Some (StartError ''permission denied''), s') \<and> bm_current s' = None
     \<and> b_config (bm_boxes sample_state ! 0) = good_config \<and> e_start sample_env 0 good_config = None"
  using failed_edit_takes_service_down [of "sample_state\<lparr>bm_cfg := Some bad_config\<rparr>" bad_config 0 sample_env
      "''permission denied''"] permission_no_port by auto

end
