(* ===== verification/GeoRegion.thy ===== *)
theory GeoRegion
  imports ConfigTypes NodeOutbound
begin

text \<open>
  The region of a node, \<open>internal/geoip/geoip.go\<close>: the host of a node URI, the codes of regions, and the lookup with
  its cache of host names. The content of a database and the DNS resolver are parameters. One flight per host
  name resolves a miss (\<open>singleflight\<close>); its phases interleave with updates of the database and with closing.
\<close>

section \<open>Regions\<close>

record region_info =
  rg_code :: string
  rg_country :: string
  rg_iso :: string

definition region_other :: string where "region_other = ''other''"

definition all_regions :: "string list" where
  "all_regions = [''jp'', ''kr'', ''us'', ''hk'', ''tw'', ''sg'', region_other]"

definition unknown_region :: region_info where
  "unknown_region = \<lparr>rg_code = region_other, rg_country = ''Unknown'', rg_iso = []\<rparr>"

definition iso_code_to_region :: "string \<Rightarrow> string" where
  "iso_code_to_region isocode =
     (let c = to_upper isocode
      in if c = ''JP'' then ''jp'' else if c = ''KR'' then ''kr'' else if c = ''US'' then ''us''
         else if c = ''HK'' then ''hk'' else if c = ''TW'' then ''tw'' else if c = ''SG'' then ''sg'' else region_other)"

section \<open>The host of a node URI\<close>

definition url_host_of :: "string \<Rightarrow> string" where
  "url_host_of uri = (case url_parse uri of None \<Rightarrow> [] | Some u \<Rightarrow> url_hostname u)"

text \<open>\<open>encoding/json\<close> reads the field \<open>add\<close>; nothing when the text does not decode.\<close>

definition extract_vmess_host :: "(string \<Rightarrow> string option) \<Rightarrow> string \<Rightarrow> string" where
  "extract_vmess_host json_add uri =
     (case index_of uri ''://'' of
        None \<Rightarrow> []
      | Some idx \<Rightarrow>
          let encoded = drop (idx + 3) uri
          in if encoded = [] then []
             else let payload = cut_before CHR ''#'' encoded
               in case first_decoding [StdEncoding, RawStdEncoding, RawUrlEncoding] payload of
                    Some decoded \<Rightarrow>
                      (case (if decoded = [] then None else json_add decoded) of
                         Some add \<Rightarrow> if add \<noteq> [] then add else url_host_of uri
                       | None \<Rightarrow> url_host_of uri)
                  | None \<Rightarrow> url_host_of uri)"

definition extract_ss_host :: "string \<Rightarrow> string" where
  "extract_ss_host uri = (case ss_parse uri of Inl _ \<Rightarrow> [] | Inr s \<Rightarrow> ss_server s)"

definition extract_host :: "(string \<Rightarrow> string option) \<Rightarrow> string \<Rightarrow> string" where
  "extract_host json_add uri =
     (let lower = to_lower uri
      in if has_prefix lower ''vmess://'' then extract_vmess_host json_add uri
         else if has_prefix lower ''ss://'' \<or> has_prefix lower ''shadowsocks://'' then extract_ss_host uri
         else if has_prefix lower ''ssr://'' then []
         else url_host_of uri)"

section \<open>The database\<close>

type_synonym region_db = "string \<Rightarrow> (string \<times> string) option"   \<comment> \<open>address to ISO code and English name\<close>

definition parse_ip_ok :: "string \<Rightarrow> bool" where
  "parse_ip_ok s \<longleftrightarrow> is_address s \<and> CHR ''%'' \<notin> set s"

definition lookup_ip :: "region_db option \<Rightarrow> string \<Rightarrow> region_info" where
  "lookup_ip db ip =
     (case db of
        None \<Rightarrow> unknown_region
      | Some d \<Rightarrow>
          if \<not> parse_ip_ok ip then unknown_region
          else (case d ip of
                  None \<Rightarrow> unknown_region
                | Some (isocode, country) \<Rightarrow>
                    \<lparr>rg_code = iso_code_to_region isocode, rg_country = or_text country isocode, rg_iso = isocode\<rparr>))"

section \<open>State\<close>

record cached_region =
  cr_info :: region_info
  cr_expires :: instant

record geo_state =
  gl_db :: "region_db option"
  gl_path :: string
  gl_cache :: "(string, cached_region) gomap"
  gl_epoch :: nat
  gl_closed :: bool

definition dns_cache_ttl :: duration where "dns_cache_ttl = 15 * 60 * second"
definition dns_negative_ttl :: duration where "dns_negative_ttl = 60 * second"
definition max_dns_entries :: nat where "max_dns_entries = 4096"

definition geo_enabled :: "geo_state \<Rightarrow> bool" where
  "geo_enabled s \<longleftrightarrow> gl_db s \<noteq> None"

definition cached_host :: "string \<Rightarrow> instant \<Rightarrow> geo_state \<Rightarrow> region_info option" where
  "cached_host host now s =
     (case mget (gl_cache s) host of
        Some c \<Rightarrow> if now < cr_expires c then Some (cr_info c) else None
      | None \<Rightarrow> None)"

text \<open>A full cache loses the first key of an iteration, whichever that is.\<close>

definition cache_host_at_epoch ::
  "string \<Rightarrow> region_info \<Rightarrow> duration \<Rightarrow> nat \<Rightarrow> instant \<Rightarrow> geo_state \<Rightarrow> geo_state" where
  "cache_host_at_epoch host info ttl epoch now s =
     (if gl_epoch s \<noteq> epoch then s
      else let kept = (if length (gl_cache s) \<ge> max_dns_entries then tl (gl_cache s) else gl_cache s)
        in s\<lparr>gl_cache := mput host \<lparr>cr_info = info, cr_expires = now + ttl\<rparr> kept\<rparr>)"

section \<open>A lookup on its own\<close>

text \<open>The address of a host: itself when it is one, otherwise the resolver's first answer.\<close>

definition address_of :: "(string \<Rightarrow> string option) \<Rightarrow> string \<Rightarrow> string option" where
  "address_of resolve host = (if parse_ip_ok host then Some host else resolve host)"

definition lookup_miss :: "(string \<Rightarrow> string option) \<Rightarrow> string \<Rightarrow> instant \<Rightarrow> geo_state \<Rightarrow> region_info \<times> geo_state" where
  "lookup_miss resolve host now s =
     (case address_of resolve host of
        None \<Rightarrow> (unknown_region, cache_host_at_epoch host unknown_region dns_negative_ttl (gl_epoch s) now s)
      | Some a \<Rightarrow> (let info = lookup_ip (gl_db s) a in (info, cache_host_at_epoch host info dns_cache_ttl (gl_epoch s) now s)))"

definition lookup_uri ::
  "(string \<Rightarrow> string option) \<Rightarrow> (string \<Rightarrow> string option) \<Rightarrow> string \<Rightarrow> instant \<Rightarrow> geo_state \<Rightarrow> region_info \<times> geo_state" where
  "lookup_uri json_add resolve uri now s =
     (if \<not> geo_enabled s then (unknown_region, s)
      else let host = extract_host json_add uri
        in if host = [] then (unknown_region, s)
           else let host' = to_lower host
             in case cached_host host' now s of
                  Some info \<Rightarrow> (info, s)
                | None \<Rightarrow> lookup_miss resolve host' now s)"

section \<open>Updates\<close>

text \<open>How far an update gets: the download, opening the file and renaming it can fail.\<close>

datatype download = DownloadFailed | OpenFailed | RenameFailed | Downloaded region_db

datatype update_error = LookupClosed | NoDatabasePath | DownloadError | OpenError | RenameError

definition update_database :: "download \<Rightarrow> geo_state \<Rightarrow> update_error option \<times> geo_state" where
  "update_database d s =
     (if gl_closed s then (Some LookupClosed, s)
      else if gl_path s = [] then (Some NoDatabasePath, s)
      else case d of
          DownloadFailed \<Rightarrow> (Some DownloadError, s)
        | OpenFailed \<Rightarrow> (Some OpenError, s)
        | RenameFailed \<Rightarrow> (Some RenameError, s)
        | Downloaded db \<Rightarrow> (None, s\<lparr>gl_db := Some db, gl_epoch := gl_epoch s + 1, gl_cache := []\<rparr>))"

definition close_lookup :: "geo_state \<Rightarrow> geo_state" where
  "close_lookup s = s\<lparr>gl_closed := True, gl_db := None\<rparr>"

definition new_lookup :: "string \<Rightarrow> region_db option \<Rightarrow> geo_state option" where
  "new_lookup path opened =
     (if path = [] then Some \<lparr>gl_db = None, gl_path = [], gl_cache = [], gl_epoch = 0, gl_closed = False\<rparr>
      else map_option (\<lambda>db. \<lparr>gl_db = Some db, gl_path = path, gl_cache = [], gl_epoch = 0, gl_closed = False\<rparr>) opened)"

section \<open>Flights\<close>

text \<open>A flight after its second look into the cache, with the epoch it read; with an address; with the
  answer of the database.\<close>

datatype flight = Reading | AtEpoch nat | WithAddress string nat | WithRegion region_info nat

record geo_system =
  gs_lookup :: geo_state
  gs_flights :: "(string, flight) gomap"

inductive geo_step :: "geo_system \<Rightarrow> geo_system \<Rightarrow> bool" where
  begin_flight: "geo_enabled (gs_lookup s) \<Longrightarrow> cached_host h now (gs_lookup s) = None \<Longrightarrow> mget (gs_flights s) h = None
    \<Longrightarrow> geo_step s (s\<lparr>gs_flights := mput h Reading (gs_flights s)\<rparr>)"
| found_cached: "mget (gs_flights s) h = Some Reading \<Longrightarrow> cached_host h now (gs_lookup s) = Some info
    \<Longrightarrow> geo_step s (s\<lparr>gs_flights := mdel h (gs_flights s)\<rparr>)"
| read_epoch: "mget (gs_flights s) h = Some Reading
    \<Longrightarrow> geo_step s (s\<lparr>gs_flights := mput h (AtEpoch (gl_epoch (gs_lookup s))) (gs_flights s)\<rparr>)"
| resolved: "mget (gs_flights s) h = Some (AtEpoch e)
    \<Longrightarrow> geo_step s (s\<lparr>gs_flights := mput h (WithAddress a e) (gs_flights s)\<rparr>)"
| unresolved: "mget (gs_flights s) h = Some (AtEpoch e)
    \<Longrightarrow> geo_step s (s\<lparr>gs_lookup := cache_host_at_epoch h unknown_region dns_negative_ttl e now (gs_lookup s),
          gs_flights := mdel h (gs_flights s)\<rparr>)"
| looked_up: "mget (gs_flights s) h = Some (WithAddress a e)
    \<Longrightarrow> geo_step s (s\<lparr>gs_flights := mput h (WithRegion (lookup_ip (gl_db (gs_lookup s)) a) e) (gs_flights s)\<rparr>)"
| landed: "mget (gs_flights s) h = Some (WithRegion info e)
    \<Longrightarrow> geo_step s (s\<lparr>gs_lookup := cache_host_at_epoch h info dns_cache_ttl e now (gs_lookup s),
          gs_flights := mdel h (gs_flights s)\<rparr>)"
| updated: "geo_step s (s\<lparr>gs_lookup := snd (update_database d (gs_lookup s))\<rparr>)"
| closed: "geo_step s (s\<lparr>gs_lookup := close_lookup (gs_lookup s)\<rparr>)"

inductive geo_reachable :: "geo_system \<Rightarrow> bool" where
  start: "new_lookup path opened = Some l \<Longrightarrow> geo_reachable \<lparr>gs_lookup = l, gs_flights = []\<rparr>"
| next_step: "geo_reachable s \<Longrightarrow> geo_step s s' \<Longrightarrow> geo_reachable s'"

end
