(* ===== verification/Assemble.thy ===== *)
theory Assemble
  imports PoolState GeoRegion
begin

text \<open>
  The whole sing-box configuration: \<open>Build\<close> and its helpers in \<open>internal/builder/builder.go\<close>. Options keep
  the fields the code sets. Parameters: the hash of a node key, the region of a node (with the order in
  which the concurrent lookups answer), and the build tag that enables the traffic controller.
\<close>

section \<open>Options\<close>

datatype outbound_body = NodeBody outbound | PoolBody pool_options

record out_entry =
  oe_tag :: string
  oe_body :: outbound_body

record route_rule =
  ru_inbound :: string
  ru_outbound :: string

record inbound_entry =
  ie_type :: string
  ie_tag :: string
  ie_listen :: "string option"
  ie_port :: "16 word"
  ie_users :: "(string \<times> string) list"
  ie_session :: bool

record box_options =
  bo_log_level :: string
  bo_inbounds :: "inbound_entry list"
  bo_outbounds :: "out_entry list"
  bo_rules :: "route_rule list"
  bo_final :: string
  bo_controller :: bool

datatype build_error = NoValidNodes | ModeUnsupported string | BadListenerAddress | BadMultiPortAddress

definition pool_tag :: string where "pool_tag = ''proxy-pool''"
definition mixed_type :: string where "mixed_type = ''mixed''"
definition session_type :: string where "session_type = ''session-mixed''"

section \<open>Nodes\<close>

definition tag_char :: "char \<Rightarrow> bool" where
  "tag_char c \<longleftrightarrow> is_lower c \<or> is_digit c"

fun tag_fields :: "string \<Rightarrow> string \<Rightarrow> string list" where
  "tag_fields acc [] = (if acc = [] then [] else [rev acc])"
| "tag_fields acc (c # s) =
     (if tag_char c then tag_fields (c # acc) s
      else if acc = [] then tag_fields [] s else rev acc # tag_fields [] s)"

definition sanitize_tag :: "string \<Rightarrow> string" where
  "sanitize_tag name = join_with ''-'' (tag_fields [] (trim_space (to_lower name)))"

record build_env =
  be_json :: "string \<Rightarrow> vmess_json option"
  be_duration :: "string \<Rightarrow> duration option"
  be_keys :: json_codec
  be_digest :: "string \<Rightarrow> string"
  be_open_geo :: "string \<Rightarrow> (string \<Rightarrow> region_info) option"   \<comment> \<open>the database at a path, with its lookup\<close>
  be_arrival :: "string list \<Rightarrow> string list"           \<comment> \<open>the order in which lookups answer\<close>
  be_controller :: bool

record built_nodes =
  bn_used :: "(string, int) gomap"
  bn_tags :: "string list"
  bn_outbounds :: "out_entry list"
  bn_metadata :: "(string, member_meta) gomap"

definition choose_tag :: "string \<Rightarrow> built_nodes \<Rightarrow> string \<times> (string, int) gomap" where
  "choose_tag name b =
     (let base = or_text (sanitize_tag name) (''node-'' @ itoa (int (length (bn_tags b)) + 1))
      in case mget (bn_used b) base of
           Some k \<Rightarrow> (base @ ''-'' @ itoa (k + 1), mput base (k + 1) (bn_used b))
         | None \<Rightarrow> (base, mput base 1 (bn_used b)))"

definition node_meta :: "build_env \<Rightarrow> config \<Rightarrow> node_config \<Rightarrow> member_meta" where
  "node_meta env c n =
     \<lparr>mm_identity = be_digest env (node_key (be_keys env) n), mm_name = nc_name n, mm_uri = nc_uri n, mm_mode = c_mode c,
      mm_listen_address = (if per_node_ports c then mp_address (c_multi_port c) else li_address (c_listener c)),
      mm_port = (if per_node_ports c then nc_port n else li_port (c_listener c)),
      mm_region = region_other, mm_country = ''Unknown''\<rparr>"

definition add_node :: "build_env \<Rightarrow> config \<Rightarrow> built_nodes \<Rightarrow> node_config \<Rightarrow> built_nodes" where
  "add_node env c b n =
     (let (tag, used) = choose_tag (nc_name n) b; b1 = b\<lparr>bn_used := used\<rparr>
      in case build_node_outbound (be_json env) (be_duration env) tag (nc_uri n) (c_skip_cert_verify c) of
           Inl _ \<Rightarrow> b1
         | Inr ob \<Rightarrow> b1\<lparr>bn_tags := bn_tags b @ [tag],
                       bn_outbounds := bn_outbounds b @ [\<lparr>oe_tag = tag, oe_body = NodeBody ob\<rparr>],
                       bn_metadata := mput tag (node_meta env c n) (bn_metadata b)\<rparr>)"

definition build_nodes :: "build_env \<Rightarrow> config \<Rightarrow> built_nodes" where
  "build_nodes env c = foldl (add_node env c) \<lparr>bn_used = [], bn_tags = [], bn_outbounds = [], bn_metadata = []\<rparr> (c_nodes c)"

text \<open>The region of every tag, in the order of arrival; the members of each region.\<close>

definition set_region :: "region_info \<Rightarrow> string \<Rightarrow> (string, member_meta) gomap \<Rightarrow> (string, member_meta) gomap" where
  "set_region r tag md =
     (case mget md tag of
        None \<Rightarrow> md
      | Some m \<Rightarrow> mput tag (m\<lparr>mm_region := rg_code r, mm_country := rg_country r\<rparr>) md)"

fun place_regions ::
  "(string \<Rightarrow> region_info) \<Rightarrow> string list \<Rightarrow> (string, member_meta) gomap \<Rightarrow> (string, string list) gomap
    \<Rightarrow> (string, member_meta) gomap \<times> (string, string list) gomap" where
  "place_regions region [] md rm = (md, rm)"
| "place_regions region (tag # tags) md rm =
     (let uri = (case mget md tag of Some m \<Rightarrow> mm_uri m | None \<Rightarrow> []); r = region uri;
          members = (case mget rm (rg_code r) of Some ts \<Rightarrow> ts | None \<Rightarrow> [])
      in place_regions region tags (set_region r tag md) (mput (rg_code r) (members @ [tag]) rm))"

definition geo_lookup :: "build_env \<Rightarrow> config \<Rightarrow> (string \<Rightarrow> region_info) option" where
  "geo_lookup env c =
     (if ge_enabled (c_geoip c) \<and> ge_database_path (c_geoip c) \<noteq> [] then be_open_geo env (ge_database_path (c_geoip c))
      else None)"

definition region_members ::
  "build_env \<Rightarrow> config \<Rightarrow> built_nodes \<Rightarrow> (string, member_meta) gomap \<times> (string, string list) gomap" where
  "region_members env c b =
     (case geo_lookup env c of
        Some region \<Rightarrow> place_regions region (be_arrival env (bn_tags b)) (bn_metadata b) []
      | None \<Rightarrow> (bn_metadata b, [(region_other, bn_tags b)]))"

section \<open>Listeners\<close>

text \<open>\<open>parseAddr\<close>: no address, an address, or an error.\<close>

definition parse_addr :: "string \<Rightarrow> string option option" where
  "parse_addr value =
     (let addr = trim_space value
      in if addr = [] then Some None else if is_address addr then Some (Some addr) else None)"

definition listener_users :: "string \<Rightarrow> string \<Rightarrow> (string \<times> string) list" where
  "listener_users u p = (if u \<noteq> [] then [(u, p)] else [])"

definition build_pool_inbound :: "config \<Rightarrow> inbound_entry option" where
  "build_pool_inbound c =
     (let l = c_listener c; session = li_username l \<noteq> [] \<and> session_routing_enabled (c_sticky c)
      in map_option (\<lambda>addr. \<lparr>ie_type = (if session then session_type else mixed_type), ie_tag = ''http-in'', ie_listen = addr,
           ie_port = li_port l, ie_users = listener_users (li_username l) (li_password l), ie_session = session\<rparr>)
         (parse_addr (li_address l)))"

definition build_sticky_inbound :: "config \<Rightarrow> inbound_entry option" where
  "build_sticky_inbound c =
     (let l = c_listener c
      in map_option (\<lambda>addr. \<lparr>ie_type = mixed_type, ie_tag = ''sticky-in'', ie_listen = addr, ie_port = sk_port (c_sticky c),
           ie_users = listener_users (li_username l) (li_password l), ie_session = False\<rparr>)
         (parse_addr (li_address l)))"

section \<open>Pools\<close>

definition pool_options_of :: "config \<Rightarrow> string \<Rightarrow> string list \<Rightarrow> (string, member_meta) gomap \<Rightarrow> pool_options" where
  "pool_options_of c mode members md =
     (let p = c_pool c
      in \<lparr>po_mode = mode, po_members = members, po_failure_threshold = pl_failure_threshold p,
          po_blacklist_duration = pl_blacklist_duration p, po_transient_cooldown = pl_transient_cooldown p,
          po_rate_limit_cooldown = pl_rate_limit_cooldown p, po_retry_enabled = retry_enabled_or_default p,
          po_blacklist_failed_pin = pl_blacklist_failed_pin p, po_retry_attempts = pl_retry_attempts p,
          po_metadata = md, po_sticky = False, po_session_routing = False\<rparr>)"

definition pool_entry :: "string \<Rightarrow> pool_options \<Rightarrow> out_entry" where
  "pool_entry tag po = \<lparr>oe_tag = tag, oe_body = PoolBody po\<rparr>"

definition sticky_pool_tag :: string where "sticky_pool_tag = pool_tag @ ''-sticky''"

definition main_pool :: "config \<Rightarrow> string list \<Rightarrow> (string, member_meta) gomap \<Rightarrow> out_entry" where
  "main_pool c tags md = pool_entry pool_tag ((pool_options_of c (pl_mode (c_pool c)) tags md)
     \<lparr>po_session_routing := session_routing_enabled (c_sticky c) \<and> li_username (c_listener c) \<noteq> []\<rparr>)"

definition sticky_pool :: "config \<Rightarrow> string list \<Rightarrow> (string, member_meta) gomap \<Rightarrow> out_entry" where
  "sticky_pool c tags md = pool_entry sticky_pool_tag ((pool_options_of c (pl_mode (c_pool c)) tags md)\<lparr>po_sticky := True\<rparr>)"

definition meta_at :: "(string, member_meta) gomap \<Rightarrow> string \<Rightarrow> member_meta" where
  "meta_at md tag = (case mget md tag of Some m \<Rightarrow> m | None \<Rightarrow> no_meta)"

definition node_pool_tag :: "string \<Rightarrow> string" where "node_pool_tag tag = pool_tag @ ''-'' @ tag"
definition node_inbound_tag :: "string \<Rightarrow> string" where "node_inbound_tag tag = ''in-'' @ tag"

definition node_pool :: "config \<Rightarrow> (string, member_meta) gomap \<Rightarrow> string \<Rightarrow> out_entry" where
  "node_pool c md tag = pool_entry (node_pool_tag tag) (pool_options_of c ''sequential'' [tag] [(tag, meta_at md tag)])"

definition node_inbound :: "config \<Rightarrow> string option \<Rightarrow> (string, member_meta) gomap \<Rightarrow> string \<Rightarrow> inbound_entry" where
  "node_inbound c addr md tag =
     \<lparr>ie_type = mixed_type, ie_tag = node_inbound_tag tag, ie_listen = addr, ie_port = mm_port (meta_at md tag),
      ie_users = listener_users (mp_username (c_multi_port c)) (mp_password (c_multi_port c)), ie_session = False\<rparr>"

definition node_rule :: "string \<Rightarrow> route_rule" where
  "node_rule tag = \<lparr>ru_inbound = node_inbound_tag tag, ru_outbound = node_pool_tag tag\<rparr>"

definition region_pool_tag :: "string \<Rightarrow> string" where "region_pool_tag r = ''pool-'' @ r"

definition region_pools :: "config \<Rightarrow> (string, member_meta) gomap \<Rightarrow> (string, string list) gomap \<Rightarrow> out_entry list" where
  "region_pools c md rm =
     concat (map (\<lambda>r. case mget rm r of
         None \<Rightarrow> []
       | Some members \<Rightarrow>
           (if members = [] then []
            else [pool_entry (region_pool_tag r) (pool_options_of c (pl_mode (c_pool c)) members
              (fold (\<lambda>t m. mput t (meta_at md t) m) members []))])) all_regions)"

section \<open>Assembly\<close>

text \<open>The shared entry: its inbounds, pools and rules.\<close>

definition shared_part ::
  "config \<Rightarrow> string list \<Rightarrow> (string, member_meta) gomap
    \<Rightarrow> (inbound_entry list \<times> out_entry list \<times> route_rule list \<times> string) option" where
  "shared_part c tags md =
     (if \<not> shared_listener c then Some ([], [], [], [])
      else case build_pool_inbound c of
          None \<Rightarrow> None
        | Some i \<Rightarrow>
            if \<not> sk_enabled (c_sticky c) then Some ([i], [main_pool c tags md], [], pool_tag)
            else (case build_sticky_inbound c of
                    None \<Rightarrow> None
                  | Some s \<Rightarrow> Some ([i, s], [main_pool c tags md, sticky_pool c tags md],
                      [\<lparr>ru_inbound = ''sticky-in'', ru_outbound = sticky_pool_tag\<rparr>], pool_tag)))"

text \<open>One port per node: its inbounds, pools and rules.\<close>

definition node_part ::
  "config \<Rightarrow> string list \<Rightarrow> (string, member_meta) gomap
    \<Rightarrow> (inbound_entry list \<times> out_entry list \<times> route_rule list) option" where
  "node_part c tags md =
     (if \<not> per_node_ports c then Some ([], [], [])
      else case parse_addr (mp_address (c_multi_port c)) of
          None \<Rightarrow> None
        | Some addr \<Rightarrow> Some (map (node_inbound c addr md) tags, map (node_pool c md) tags, map node_rule tags))"

definition build_options :: "build_env \<Rightarrow> config \<Rightarrow> build_error + box_options" where
  "build_options env c =
     (let b = build_nodes env c; (md, rm) = region_members env c b; tags = bn_tags b
      in if bn_outbounds b = [] then Inl NoValidNodes
         else if \<not> shared_listener c \<and> \<not> per_node_ports c then Inl (ModeUnsupported (c_mode c))
         else case shared_part c tags md of
             None \<Rightarrow> Inl BadListenerAddress
           | Some (i1, o1, r1, final) \<Rightarrow>
               (case node_part c tags md of
                  None \<Rightarrow> Inl BadMultiPortAddress
                | Some (i2, o2, r2) \<Rightarrow>
                    Inr \<lparr>bo_log_level = to_lower (c_log_level c), bo_inbounds = i1 @ i2,
                      bo_outbounds = bn_outbounds b @ o1 @ o2
                        @ (if ge_enabled (c_geoip c) \<and> shared_listener c then region_pools c md rm else []),
                      bo_rules = r1 @ r2, bo_final = final,
                      bo_controller = (be_controller env \<and> management_enabled c)\<rparr>))"

end
