(* ===== verification/BoxCreate.thy ===== *)
theory BoxCreate
  imports Assemble
begin

text \<open>
  \<open>createBox\<close> in \<open>internal/boxmgr/manager.go\<close>: an outbound that sing-box rejects is removed, with the pools
  it leaves empty and the rules that point at them, and the instance is tried again. \<open>box.New\<close> is a
  parameter: at each attempt it accepts the options or answers with the text of an error (a panic is one too).
\<close>

section \<open>The offending outbound\<close>

text \<open>The expression \<open>initialize outbound\[(\d+)\]\<close>: the digits of its leftmost match.\<close>

definition outbound_mark :: string where "outbound_mark = ''initialize outbound[''"

definition bracketed_digits :: "string \<Rightarrow> string option" where
  "bracketed_digits s =
     (let ds = takeWhile is_digit s
      in if ds \<noteq> [] \<and> has_prefix (drop (length ds) s) '']'' then Some ds else None)"

fun match_outbound :: "string \<Rightarrow> string option" where
  "match_outbound [] = None"
| "match_outbound (c # s) =
     (case (if has_prefix (c # s) outbound_mark then bracketed_digits (drop (length outbound_mark) (c # s)) else None) of
        Some ds \<Rightarrow> Some ds
      | None \<Rightarrow> match_outbound s)"

definition failed_index :: "string \<Rightarrow> nat \<Rightarrow> nat option" where
  "failed_index err len =
     (case match_outbound err of
        None \<Rightarrow> None
      | Some ds \<Rightarrow>
          (case atoi ds of
             None \<Rightarrow> None
           | Some i \<Rightarrow> if i < 0 \<or> i \<ge> int len then None else Some (nat i)))"

section \<open>Removing it\<close>

definition without_member :: "string \<Rightarrow> out_entry \<Rightarrow> out_entry" where
  "without_member bad e =
     (case oe_body e of
        NodeBody _ \<Rightarrow> e
      | PoolBody po \<Rightarrow> e\<lparr>oe_body := PoolBody (po\<lparr>po_members := filter (\<lambda>t. t \<noteq> bad) (po_members po),
          po_metadata := mdel bad (po_metadata po)\<rparr>)\<rparr>)"

definition empty_pool :: "out_entry \<Rightarrow> bool" where
  "empty_pool e = (case oe_body e of NodeBody _ \<Rightarrow> False | PoolBody po \<Rightarrow> po_members po = [])"

definition prune_outbound :: "nat \<Rightarrow> box_options \<Rightarrow> box_options" where
  "prune_outbound idx opts =
     (let bad = oe_tag (bo_outbounds opts ! idx);
          rest = map (without_member bad) (take idx (bo_outbounds opts) @ drop (idx + 1) (bo_outbounds opts));
          removed = insert bad (oe_tag ` set (filter empty_pool rest))
      in opts\<lparr>bo_outbounds := filter (\<lambda>e. \<not> empty_pool e) rest,
              bo_rules := filter (\<lambda>r. ru_outbound r \<notin> removed) (bo_rules opts)\<rparr>)"

section \<open>The attempts\<close>

datatype create_error = NilConfiguration | NoMonitorManager | BuildFailed build_error | CreateFailed string | TooManyInvalid

fun create_attempts ::
  "(nat \<Rightarrow> box_options \<Rightarrow> string option) \<Rightarrow> nat \<Rightarrow> nat \<Rightarrow> box_options \<Rightarrow> create_error + box_options" where
  "create_attempts box_new 0 attempt opts = Inl TooManyInvalid"
| "create_attempts box_new (Suc left) attempt opts =
     (case box_new attempt opts of
        None \<Rightarrow> Inr opts
      | Some err \<Rightarrow>
          (case failed_index err (length (bo_outbounds opts)) of
             None \<Rightarrow> Inl (CreateFailed err)
           | Some idx \<Rightarrow> create_attempts box_new left (attempt + 1) (prune_outbound idx opts)))"

definition max_retries :: "config \<Rightarrow> nat" where
  "max_retries c = length (c_nodes c) * 3 + 50"

definition create_box ::
  "build_env \<Rightarrow> (nat \<Rightarrow> box_options \<Rightarrow> string option) \<Rightarrow> bool \<Rightarrow> config option \<Rightarrow> create_error + box_options" where
  "create_box env box_new monitor cfg =
     (case cfg of
        None \<Rightarrow> Inl NilConfiguration
      | Some c \<Rightarrow>
          if \<not> monitor then Inl NoMonitorManager
          else case build_options env c of
              Inl e \<Rightarrow> Inl (BuildFailed e)
            | Inr opts \<Rightarrow> create_attempts box_new (max_retries c + 1) 0 opts)"

section \<open>Each attempt leaves usable options\<close>

definition node_tags :: "box_options \<Rightarrow> string set" where
  "node_tags opts = {oe_tag e | e. e \<in> set (bo_outbounds opts) \<and> (\<exists>ob. oe_body e = NodeBody ob)}"

definition entry_usable :: "string set \<Rightarrow> out_entry \<Rightarrow> bool" where
  "entry_usable tags e =
     (case oe_body e of NodeBody _ \<Rightarrow> True | PoolBody po \<Rightarrow> po_members po \<noteq> [] \<and> set (po_members po) \<subseteq> tags)"

text \<open>Usable options: no pool is empty, every member of a pool is an outbound, and so is the target of
  every rule.\<close>

definition options_usable :: "box_options \<Rightarrow> bool" where
  "options_usable opts \<longleftrightarrow>
     (\<forall>e\<in>set (bo_outbounds opts). entry_usable (node_tags opts) e)
     \<and> ru_outbound ` set (bo_rules opts) \<subseteq> oe_tag ` set (bo_outbounds opts)"

lemma without_member_tag [simp]: "oe_tag (without_member bad e) = oe_tag e"
  by (simp add: without_member_def split: outbound_body.splits)

lemma without_member_node: "oe_body e = NodeBody ob \<Longrightarrow> without_member bad e = e"
  by (simp add: without_member_def)

lemma empty_pool_node: "oe_body e = NodeBody ob \<Longrightarrow> \<not> empty_pool e"
  by (simp add: empty_pool_def)

lemma set_split_nth: "i < length xs \<Longrightarrow> set xs = insert (xs ! i) (set (take i xs @ drop (i + 1) xs))"
  by (subst id_take_nth_drop) auto

lemma prune_list:
  "bo_outbounds (prune_outbound i opts) = filter (\<lambda>e. \<not> empty_pool e)
     (map (without_member (oe_tag (bo_outbounds opts ! i))) (take i (bo_outbounds opts) @ drop (i + 1) (bo_outbounds opts)))"
  by (simp add: prune_outbound_def Let_def)

lemma prune_outbounds:
  "set (bo_outbounds (prune_outbound i opts)) =
     {e'. \<exists>e \<in> set (take i (bo_outbounds opts) @ drop (i + 1) (bo_outbounds opts)).
        e' = without_member (oe_tag (bo_outbounds opts ! i)) e \<and> \<not> empty_pool e'}"
  by (auto simp: prune_outbound_def Let_def)

lemma prune_kept:
  assumes "e \<in> set (take i (bo_outbounds opts) @ drop (i + 1) (bo_outbounds opts))"
    and "\<not> empty_pool (without_member (oe_tag (bo_outbounds opts ! i)) e)"
  shows "without_member (oe_tag (bo_outbounds opts ! i)) e \<in> set (bo_outbounds (prune_outbound i opts))"
  unfolding prune_outbounds using assms by blast

lemma prune_keeps_nodes:
  assumes "i < length (bo_outbounds opts)"
  shows "node_tags opts - {oe_tag (bo_outbounds opts ! i)} \<subseteq> node_tags (prune_outbound i opts)"
proof
  fix t
  assume t: "t \<in> node_tags opts - {oe_tag (bo_outbounds opts ! i)}"
  then obtain e ob where e: "e \<in> set (bo_outbounds opts)" "oe_body e = NodeBody ob" "oe_tag e = t"
    by (auto simp: node_tags_def)
  have "e \<in> set (take i (bo_outbounds opts) @ drop (i + 1) (bo_outbounds opts))"
    using e t set_split_nth [OF assms] by auto
  then have "e \<in> set (bo_outbounds (prune_outbound i opts))"
    using prune_kept [of e i opts] without_member_node [OF e(2)] empty_pool_node [OF e(2)] by simp
  then show "t \<in> node_tags (prune_outbound i opts)" unfolding node_tags_def using e by blast
qed

lemma prune_usable_entry:
  assumes "entry_usable tags e" and "e' = without_member bad e" and "\<not> empty_pool e'"
  shows "entry_usable (tags - {bad}) e'"
  using assms by (auto simp: entry_usable_def without_member_def empty_pool_def split: outbound_body.splits)

lemma entry_usable_mono: "entry_usable tags e \<Longrightarrow> tags \<subseteq> tags' \<Longrightarrow> entry_usable tags' e"
  by (auto simp: entry_usable_def split: outbound_body.splits)

lemma prune_rules:
  assumes i: "i < length (bo_outbounds opts)" and r: "r \<in> set (bo_rules (prune_outbound i opts))"
    and target: "ru_outbound r \<in> oe_tag ` set (bo_outbounds opts)"
  shows "ru_outbound r \<in> oe_tag ` set (bo_outbounds (prune_outbound i opts))"
proof -
  let ?bad = "oe_tag (bo_outbounds opts ! i)"
  let ?rest = "take i (bo_outbounds opts) @ drop (i + 1) (bo_outbounds opts)"
  have kept: "ru_outbound r \<noteq> ?bad"
    "ru_outbound r \<notin> oe_tag ` set (filter empty_pool (map (without_member ?bad) ?rest))"
    using r by (auto simp: prune_outbound_def Let_def)
  obtain e where e: "e \<in> set (bo_outbounds opts)" "oe_tag e = ru_outbound r" using target by force
  have "e \<in> set ?rest" using e kept(1) set_split_nth [OF i] by auto
  moreover from this have "\<not> empty_pool (without_member ?bad e)" using kept(2) e(2) by force
  ultimately have "without_member ?bad e \<in> set (bo_outbounds (prune_outbound i opts))"
    by (rule prune_kept)
  then show ?thesis using e(2) by (metis imageI without_member_tag)
qed

lemma prune_usable:
  assumes "options_usable opts" and i: "i < length (bo_outbounds opts)"
  shows "options_usable (prune_outbound i opts)"
proof -
  let ?bad = "oe_tag (bo_outbounds opts ! i)"
  have "entry_usable (node_tags (prune_outbound i opts)) e'" if mem: "e' \<in> set (bo_outbounds (prune_outbound i opts))" for e'
  proof -
    obtain e where e: "e \<in> set (bo_outbounds opts)" "e' = without_member ?bad e" "\<not> empty_pool e'"
    proof -
      obtain e where e: "e \<in> set (take i (bo_outbounds opts) @ drop (i + 1) (bo_outbounds opts))"
        "e' = without_member ?bad e" "\<not> empty_pool e'"
        using mem unfolding prune_outbounds mem_Collect_eq by (elim bexE conjE)
      have "e \<in> set (bo_outbounds opts)" unfolding set_split_nth [OF i] using e(1) by (rule insertI2)
      then show thesis using e(2,3) by (rule that)
    qed
    have "entry_usable (node_tags opts - {?bad}) e'"
      using assms(1) e by (intro prune_usable_entry) (auto simp: options_usable_def)
    then show ?thesis by (rule entry_usable_mono [OF _ prune_keeps_nodes [OF i]])
  qed
  moreover have "ru_outbound r \<in> oe_tag ` set (bo_outbounds (prune_outbound i opts))"
    if "r \<in> set (bo_rules (prune_outbound i opts))" for r
  proof (rule prune_rules [OF i that])
    have "r \<in> set (bo_rules opts)" using that by (simp add: prune_outbound_def Let_def)
    then show "ru_outbound r \<in> oe_tag ` set (bo_outbounds opts)" using assms(1) by (auto simp: options_usable_def)
  qed
  ultimately show ?thesis by (auto simp: options_usable_def)
qed

lemma failed_index_bound: "failed_index err len = Some i \<Longrightarrow> i < len"
  by (auto simp: failed_index_def split: option.splits if_splits)

lemma create_attempts_usable:
  "create_attempts box_new left attempt opts = Inr opts' \<Longrightarrow> options_usable opts \<Longrightarrow> options_usable opts'"
proof (induction box_new left attempt opts rule: create_attempts.induct)
  case (2 box_new left attempt opts)
  then show ?case
    by (auto split: option.splits intro: prune_usable failed_index_bound)
qed simp

section \<open>The attempts are enough\<close>

lemma prune_shrinks:
  assumes "i < length (bo_outbounds opts)"
  shows "length (bo_outbounds (prune_outbound i opts)) < length (bo_outbounds opts)"
proof -
  let ?rest = "take i (bo_outbounds opts) @ drop (i + 1) (bo_outbounds opts)"
  have "length (bo_outbounds (prune_outbound i opts)) \<le> length ?rest"
    unfolding prune_list by (rule order_trans [OF length_filter_le]) (simp only: length_map order_refl)
  also have "\<dots> < length (bo_outbounds opts)" using assms by simp
  finally show ?thesis .
qed

lemma create_attempts_end:
  "length (bo_outbounds opts) < left \<Longrightarrow> create_attempts box_new left attempt opts \<noteq> Inl TooManyInvalid"
proof (induction box_new left attempt opts rule: create_attempts.induct)
  case (2 box_new left attempt opts)
  show ?case
  proof (cases "box_new attempt opts")
    case (Some err)
    show ?thesis
    proof (cases "failed_index err (length (bo_outbounds opts))")
      case (Some idx)
      then have "length (bo_outbounds (prune_outbound idx opts)) < left"
        using prune_shrinks [OF failed_index_bound] 2(2) by (meson less_Suc_eq_le order_less_le_trans)
      then show ?thesis using 2(1) \<open>box_new attempt opts = Some err\<close> Some by simp
    qed (simp add: \<open>box_new attempt opts = Some err\<close>)
  qed simp
qed simp

end
