(* ===== verification/AssembleFacts.thy ===== *)
theory AssembleFacts
  imports BoxCreate PortFacts "HOL-Library.Sublist"
begin

text \<open>
  What the assembled sing-box configuration guarantees: pools and rules only name outbounds that exist,
  the retries of \<open>createBox\<close> are enough, and no two listeners share a port when the names of the nodes
  cannot be confused.
\<close>

section \<open>The nodes that were built\<close>

definition start_nodes :: built_nodes where
  "start_nodes = \<lparr>bn_used = [], bn_tags = [], bn_outbounds = [], bn_metadata = []\<rparr>"

lemma build_nodes_start: "build_nodes env c = foldl (add_node env c) start_nodes (c_nodes c)"
  by (simp add: build_nodes_def start_nodes_def)

definition nodes_ok :: "built_nodes \<Rightarrow> bool" where
  "nodes_ok b \<longleftrightarrow> map oe_tag (bn_outbounds b) = bn_tags b
     \<and> (\<forall>e\<in>set (bn_outbounds b). \<exists>ob. oe_body e = NodeBody ob) \<and> mkeys (bn_metadata b) = set (bn_tags b)"

lemma add_node_ok: "nodes_ok b \<Longrightarrow> nodes_ok (add_node env c b n)"
  by (auto simp: nodes_ok_def add_node_def Let_def split: prod.splits sum.splits)

lemma build_nodes_ok: "nodes_ok (build_nodes env c)"
proof -
  have "nodes_ok b \<Longrightarrow> nodes_ok (foldl (add_node env c) b ns)" for b ns
    by (induction ns arbitrary: b) (simp_all add: add_node_ok)
  moreover have "nodes_ok start_nodes" by (simp add: nodes_ok_def start_nodes_def)
  ultimately show ?thesis unfolding build_nodes_start by blast
qed

lemma add_node_length: "length (bn_tags (add_node env c b n)) \<le> length (bn_tags b) + 1"
  by (auto simp: add_node_def Let_def split: prod.splits sum.splits)

lemma build_nodes_length: "length (bn_tags (build_nodes env c)) \<le> length (c_nodes c)"
proof -
  have "length (bn_tags (foldl (add_node env c) b ns)) \<le> length (bn_tags b) + length ns" for b ns
  proof (induction ns arbitrary: b)
    case (Cons n ns)
    show ?case using Cons [of "add_node env c b n"] add_node_length [of env c b n] by simp
  qed simp
  from this [of start_nodes "c_nodes c"] show ?thesis unfolding build_nodes_start by (simp add: start_nodes_def)
qed

section \<open>The regions\<close>

definition region_map_ok :: "string set \<Rightarrow> (string, string list) gomap \<Rightarrow> bool" where
  "region_map_ok tags rm \<longleftrightarrow> (\<forall>r ts. mget rm r = Some ts \<longrightarrow> set ts \<subseteq> tags)"

lemma region_map_ok_mput: "region_map_ok tags rm \<Longrightarrow> set ts \<subseteq> tags \<Longrightarrow> region_map_ok tags (mput r ts rm)"
  by (simp add: region_map_ok_def mget_mput)

lemma region_map_ok_get:
  "region_map_ok tags rm \<Longrightarrow> set (case mget rm r of Some ts \<Rightarrow> ts | None \<Rightarrow> []) \<subseteq> tags"
  by (cases "mget rm r") (auto simp: region_map_ok_def)

lemma place_regions_ok:
  "region_map_ok tags rm \<Longrightarrow> set ts \<subseteq> tags \<Longrightarrow> region_map_ok tags (snd (place_regions region ts md rm))"
proof (induction region ts md rm rule: place_regions.induct)
  case (2 region tag ts md rm)
  have "set ((case mget rm r of Some ts \<Rightarrow> ts | None \<Rightarrow> []) @ [tag]) \<subseteq> tags" for r
    using region_map_ok_get [OF 2(2)] 2(3) by simp
  then show ?case
    unfolding place_regions.simps Let_def using 2(3) by (intro 2(1) [OF refl refl refl] region_map_ok_mput [OF 2(2)]) simp_all
qed simp

lemma set_region_port: "mm_port (meta_at (set_region r tag md) t) = mm_port (meta_at md t)"
  by (auto simp: set_region_def meta_at_def mget_mput split: option.splits)

lemma place_regions_port: "mm_port (meta_at (fst (place_regions region ts md rm)) t) = mm_port (meta_at md t)"
  by (induction region ts md rm rule: place_regions.induct) (simp_all add: Let_def set_region_port)

lemma region_members_port: "mm_port (meta_at (fst (region_members env c b)) t) = mm_port (meta_at (bn_metadata b) t)"
  by (simp add: region_members_def place_regions_port split: option.splits)

text \<open>The order in which the lookups answer contains no tag that was not asked for.\<close>

definition arrival_ok :: "build_env \<Rightarrow> bool" where
  "arrival_ok env \<longleftrightarrow> (\<forall>ts. mset (be_arrival env ts) = mset ts)"

lemma region_members_ok:
  assumes "arrival_ok env" and "region_members env c b = (md, rm)"
  shows "region_map_ok (set (bn_tags b)) rm"
proof (cases "geo_lookup env c")
  case None
  then show ?thesis using assms(2) by (auto simp: region_members_def region_map_ok_def split: if_splits)
next
  case (Some region)
  have "set (be_arrival env (bn_tags b)) = set (bn_tags b)"
    using assms(1) by (metis arrival_ok_def set_mset_mset)
  then show ?thesis
    using assms(2) Some place_regions_ok [of "set (bn_tags b)" "[]" "be_arrival env (bn_tags b)" region "bn_metadata b"]
    by (simp add: region_members_def region_map_ok_def)
qed

section \<open>The parts of the options\<close>

lemma pool_options_of_members [simp]: "po_members (pool_options_of c mode members md) = members"
  by (simp add: pool_options_of_def Let_def)

lemma region_pools_usable:
  assumes "region_map_ok tags rm" and "e \<in> set (region_pools c md rm)"
  shows "entry_usable tags e"
  using assms by (fastforce simp: region_pools_def region_map_ok_def entry_usable_def pool_entry_def 
      split: option.splits if_splits)

lemma node_pool_usable: "t \<in> tags \<Longrightarrow> entry_usable tags (node_pool c md t)"
  by (simp add: node_pool_def entry_usable_def pool_entry_def)

lemma shared_pool_usable:
  assumes "shared_part c ts md = Some (i, o1, r, final)" and "ts \<noteq> []" and "e \<in> set o1"
  shows "entry_usable (set ts) e"
  using assms by (auto simp: shared_part_def main_pool_def sticky_pool_def entry_usable_def pool_entry_def
      split: if_splits option.splits)

lemma shared_part_rules:
  assumes "shared_part c ts md = Some (i, o1, r, final)"
  shows "ru_outbound ` set r \<subseteq> oe_tag ` set o1" and "ru_inbound ` set r \<subseteq> ie_tag ` set i"
    and "final = [] \<or> final \<in> oe_tag ` set o1"
  using assms by (auto simp: shared_part_def sticky_pool_def main_pool_def pool_entry_def build_sticky_inbound_def
      Let_def split: if_splits option.splits)

lemma node_part_rules:
  assumes "node_part c ts md = Some (i, o2, r)"
  shows "ru_outbound ` set r \<subseteq> oe_tag ` set o2" and "ru_inbound ` set r \<subseteq> ie_tag ` set i"
  using assms by (auto simp: node_part_def node_pool_def pool_entry_def node_rule_def node_inbound_def image_image
      split: if_splits option.splits)

lemma node_part_usable:
  assumes "node_part c ts md = Some (i, o2, r)" and "e \<in> set o2"
  shows "entry_usable (set ts) e"
  using assms node_pool_usable by (auto simp: node_part_def split: if_splits option.splits)

lemma build_optionsE:
  assumes "build_options env c = Inr opts"
  obtains md rm i1 o1 r1 final i2 o2 r2 where
    "region_members env c (build_nodes env c) = (md, rm)" "bn_outbounds (build_nodes env c) \<noteq> []"
    "shared_listener c \<or> per_node_ports c"
    "shared_part c (bn_tags (build_nodes env c)) md = Some (i1, o1, r1, final)"
    "node_part c (bn_tags (build_nodes env c)) md = Some (i2, o2, r2)"
    "bo_inbounds opts = i1 @ i2" "bo_rules opts = r1 @ r2" "bo_final opts = final"
    "bo_outbounds opts = bn_outbounds (build_nodes env c) @ o1 @ o2
       @ (if ge_enabled (c_geoip c) \<and> shared_listener c then region_pools c md rm else [])"
  using assms by (auto simp: build_options_def Let_def split: prod.splits if_splits option.splits)

lemma built_tags_are_nodes:
  assumes "set (bn_outbounds b) \<subseteq> set (bo_outbounds opts)" and "nodes_ok b"
  shows "set (bn_tags b) \<subseteq> node_tags opts"
proof
  fix t
  assume "t \<in> set (bn_tags b)"
  then obtain e where "e \<in> set (bn_outbounds b)" "oe_tag e = t"
    using assms(2) by (metis (no_types, lifting) imageE list.set_map nodes_ok_def)
  then show "t \<in> node_tags opts" using assms unfolding node_tags_def nodes_ok_def by blast
qed

lemma build_usable:
  assumes "arrival_ok env" and "build_options env c = Inr opts"
  shows "options_usable opts" and "bo_final opts = [] \<or> bo_final opts \<in> oe_tag ` set (bo_outbounds opts)"
    and "ru_inbound ` set (bo_rules opts) \<subseteq> ie_tag ` set (bo_inbounds opts)"
proof -
  let ?b = "build_nodes env c"
  from assms(2) obtain md rm i1 o1 r1 final i2 o2 r2 where
    *: "region_members env c ?b = (md, rm)" "bn_outbounds ?b \<noteq> []"
    "shared_listener c \<or> per_node_ports c"
    "shared_part c (bn_tags ?b) md = Some (i1, o1, r1, final)"
    "node_part c (bn_tags ?b) md = Some (i2, o2, r2)"
    "bo_inbounds opts = i1 @ i2" "bo_rules opts = r1 @ r2" "bo_final opts = final"
    "bo_outbounds opts = bn_outbounds ?b @ o1 @ o2
       @ (if ge_enabled (c_geoip c) \<and> shared_listener c then region_pools c md rm else [])"
    by (rule build_optionsE)
  have ok: "nodes_ok ?b" by (rule build_nodes_ok)
  have tags: "bn_tags ?b \<noteq> []" using ok *(2) unfolding nodes_ok_def by (metis map_is_Nil_conv)
  have sub: "set (bn_tags ?b) \<subseteq> node_tags opts" by (rule built_tags_are_nodes [OF _ ok]) (simp add: *(9))
  have "entry_usable (node_tags opts) e" if "e \<in> set (bo_outbounds opts)" for e
  proof (rule entry_usable_mono [OF _ sub])
    show "entry_usable (set (bn_tags ?b)) e"
      using that ok shared_pool_usable [OF *(4) tags] node_part_usable [OF *(5)]
        region_pools_usable [OF region_members_ok [OF assms(1) *(1)]]
      unfolding *(9) nodes_ok_def by (auto simp: entry_usable_def split: if_splits)
  qed
  then show "options_usable opts"
    using shared_part_rules(1) [OF *(4)] node_part_rules(1) [OF *(5)] unfolding options_usable_def *(7,9) by auto
  show "bo_final opts = [] \<or> bo_final opts \<in> oe_tag ` set (bo_outbounds opts)"
    using shared_part_rules(3) [OF *(4)] unfolding *(8,9) by auto
  show "ru_inbound ` set (bo_rules opts) \<subseteq> ie_tag ` set (bo_inbounds opts)"
    using shared_part_rules(2) [OF *(4)] node_part_rules(2) [OF *(5)] unfolding *(6,7) by auto
qed

section \<open>The retries suffice\<close>

lemma region_pools_length: "length (region_pools c md rm) \<le> 7"
proof -
  have "length (concat (map f xs)) \<le> length xs" if "\<And>x. length (f x) \<le> 1" for f :: "string \<Rightarrow> out_entry list" and xs
  proof (induction xs)
    case (Cons x xs)
    then show ?case using that [of x] by simp
  qed simp
  then have "length (region_pools c md rm) \<le> length all_regions"
    unfolding region_pools_def by (auto split: option.splits)
  then show ?thesis by (simp add: all_regions_def)
qed

lemma build_options_length:
  assumes "build_options env c = Inr opts"
  shows "length (bo_outbounds opts) \<le> 2 * length (c_nodes c) + 9"
proof -
  let ?b = "build_nodes env c"
  from assms obtain md rm i1 o1 r1 final i2 o2 r2 where
    *: "shared_part c (bn_tags ?b) md = Some (i1, o1, r1, final)"
    "node_part c (bn_tags ?b) md = Some (i2, o2, r2)"
    "bo_outbounds opts = bn_outbounds ?b @ o1 @ o2
       @ (if ge_enabled (c_geoip c) \<and> shared_listener c then region_pools c md rm else [])"
    by (rule build_optionsE)
  have "length o1 \<le> 2" using *(1) by (auto simp: shared_part_def split: if_splits option.splits)
  moreover have "length o2 \<le> length (bn_tags ?b)"
    using *(2) by (auto simp: node_part_def split: if_splits option.splits)
  moreover have "length (bn_outbounds ?b) = length (bn_tags ?b)"
    using build_nodes_ok [of env c] by (metis length_map nodes_ok_def)
  ultimately show ?thesis
    unfolding *(3) using build_nodes_length [of env c] region_pools_length [of c md rm] by simp
qed

text \<open>C23: The retry limit of \<open>createBox\<close> is never what ends it: it builds at most 2n + 9 outbounds for n nodes
  and every attempt removes at least one, so the 3n + 51 attempts end in an instance or an error of
  sing-box.\<close>

theorem create_box_attempts_suffice: "create_box env box_new monitor cfg \<noteq> Inl TooManyInvalid"
proof -
  have "create_attempts box_new (max_retries c + 1) 0 opts \<noteq> Inl TooManyInvalid"
    if "build_options env c = Inr opts" for c opts
    using build_options_length [OF that] by (intro create_attempts_end) (simp add: max_retries_def)
  then show ?thesis by (auto simp only: create_box_def split: option.splits sum.splits if_splits)
qed

lemma create_attempts_inbounds:
  "create_attempts box_new left attempt opts = Inr opts' \<Longrightarrow> bo_inbounds opts' = bo_inbounds opts
     \<and> set (bo_rules opts') \<subseteq> set (bo_rules opts)"
proof (induction box_new left attempt opts rule: create_attempts.induct)
  case (2 box_new left attempt opts)
  have pr: "bo_inbounds (prune_outbound i opts) = bo_inbounds opts"
    "set (bo_rules (prune_outbound i opts)) \<subseteq> set (bo_rules opts)" for i
    by (auto simp: prune_outbound_def Let_def)
  show ?case
  proof (cases "box_new attempt opts")
    case None
    then show ?thesis using 2(2) by simp
  next
    case (Some err)
    then obtain idx where idx: "failed_index err (length (bo_outbounds opts)) = Some idx"
      "create_attempts box_new left (attempt + 1) (prune_outbound idx opts) = Inr opts'"
      using 2(2) by (auto split: option.splits)
    show ?thesis using 2(1) [OF Some idx] pr [of idx] by auto
  qed
qed simp

text \<open>C22: An instance that \<open>createBox\<close> returns, after however many rejected outbounds, was made from options
  without an empty pool, in which every member of a pool and the target of every rule is an outbound and
  every rule belongs to a listener.\<close>

theorem created_box_is_usable:
  assumes "arrival_ok env" and "create_box env box_new monitor cfg = Inr opts"
  shows "options_usable opts \<and> ru_inbound ` set (bo_rules opts) \<subseteq> ie_tag ` set (bo_inbounds opts)"
proof -
  obtain c o0 where o0: "build_options env c = Inr o0" "create_attempts box_new (max_retries c + 1) 0 o0 = Inr opts"
    using assms(2) by (auto simp only: create_box_def split: option.splits sum.splits if_splits)
  show ?thesis
    using create_attempts_usable [OF o0(2)] create_attempts_inbounds [OF o0(2)] build_usable [OF assms(1) o0(1)] by auto
qed

section \<open>Names that cannot be confused\<close>

text \<open>A tag that repeats gets a counter. The counter of one name must not be the end of another name.\<close>

definition numbered_from :: "string \<Rightarrow> string \<Rightarrow> bool" where
  "numbered_from base t \<longleftrightarrow> has_prefix t (base @ ''-'') \<and> list_all is_digit (drop (length base + 1) t)"

definition names_clear :: "config \<Rightarrow> bool" where
  "names_clear c \<longleftrightarrow> (\<forall>n\<in>set (c_nodes c). sanitize_tag (nc_name n) \<noteq> []
     \<and> (\<forall>m\<in>set (c_nodes c). \<not> numbered_from (sanitize_tag (nc_name m)) (sanitize_tag (nc_name n))))"

lemma numbered_from_itoa: "0 \<le> k \<Longrightarrow> numbered_from base (base @ ''-'' @ itoa k)"
  using itoa_digits [of k] by (auto simp: numbered_from_def has_prefix_iff list_all_iff)

lemma itoa_inject:
  assumes "0 \<le> j" and "0 \<le> k" and "itoa j = itoa k"
  shows "j = k"
proof -
  have "nat_digits (nat j) = nat_digits (nat k)" using assms unfolding itoa_def by simp
  then have "int (nat j) = int (nat k)" unfolding digits_value_nat_digits [symmetric] by (rule arg_cong)
  then show ?thesis using assms(1,2) by simp
qed

lemma numbered_tag_inject:
  assumes "0 \<le> j" and "0 \<le> k" and eq: "base @ ''-'' @ itoa j = base' @ ''-'' @ itoa k"
  shows "base = base' \<and> j = k"
proof -
  have d: "CHR ''-'' \<notin> set (itoa j)" "CHR ''-'' \<notin> set (itoa k)"
    using itoa_digits [OF assms(1)] itoa_digits [OF assms(2)] not_digit_chars(1) by blast+
  have "rev (itoa j) @ CHR ''-'' # rev base = rev (itoa k) @ CHR ''-'' # rev base'"
    using arg_cong [OF eq, of rev] by simp
  then have "cut_byte CHR ''-'' (rev (itoa j) @ CHR ''-'' # rev base) = cut_byte CHR ''-'' (rev (itoa k) @ CHR ''-'' # rev base')"
    by (rule arg_cong)
  then have "rev (itoa j) = rev (itoa k) \<and> rev base = rev base'"
    using d cut_byte_append [of "CHR ''-''" "rev (itoa j)" "rev base"] cut_byte_append [of "CHR ''-''" "rev (itoa k)" "rev base'"]
    by (metis prod.inject set_rev)
  then show ?thesis using itoa_inject [OF assms(1,2)] by simp
qed

section \<open>The tags of the nodes\<close>

text \<open>While the nodes are built: counters belong to names that occurred, every tag is a name or a name
  with a counter already given out, no tag repeats, and the tags' ports are those of the nodes in order.\<close>

definition counted :: "string \<Rightarrow> int \<Rightarrow> string \<Rightarrow> bool" where
  "counted base k t \<longleftrightarrow> t = base \<or> (\<exists>j. 2 \<le> j \<and> j \<le> k \<and> t = base @ ''-'' @ itoa j)"

definition tag_known :: "(string, int) gomap \<Rightarrow> string \<Rightarrow> bool" where
  "tag_known used t \<longleftrightarrow> (\<exists>base k. mget used base = Some k \<and> counted base k t)"

lemma counted_mono: "counted base k t \<Longrightarrow> k \<le> k' \<Longrightarrow> counted base k' t"
  unfolding counted_def using order_trans [of _ k k'] by blast

lemma tag_known_mput:
  assumes "tag_known used t" and "\<And>k. mget used base = Some k \<Longrightarrow> k \<le> k'"
  shows "tag_known (mput base k' used) t"
proof -
  obtain b k where b: "mget used b = Some k" "counted b k t" using assms(1) unfolding tag_known_def by blast
  show ?thesis
  proof (cases "b = base")
    case True
    then have "counted base k' t" using b assms(2) counted_mono by blast
    then show ?thesis unfolding tag_known_def by (intro exI [of _ base] exI [of _ k']) (simp add: mget_mput)
  next
    case False
    then show ?thesis unfolding tag_known_def using b by (intro exI [of _ b] exI [of _ k]) (simp add: mget_mput)
  qed
qed

definition tags_ok :: "string set \<Rightarrow> node_config list \<Rightarrow> built_nodes \<Rightarrow> bool" where
  "tags_ok bases prev b \<longleftrightarrow>
     (\<forall>base k. mget (bn_used b) base = Some k \<longrightarrow> base \<in> bases \<and> 1 \<le> k)
     \<and> list_all (tag_known (bn_used b)) (bn_tags b) \<and> distinct (bn_tags b)
     \<and> subseq (map (\<lambda>t. mm_port (meta_at (bn_metadata b) t)) (bn_tags b)) (map nc_port prev)"

definition bases_clear :: "string set \<Rightarrow> bool" where
  "bases_clear bases \<longleftrightarrow> (\<forall>x\<in>bases. \<forall>y\<in>bases. \<not> numbered_from x y)"

lemma bases_clearD: "bases_clear bases \<Longrightarrow> x \<in> bases \<Longrightarrow> x @ ''-'' @ itoa k \<in> bases \<Longrightarrow> \<not> 0 \<le> k"
  using numbered_from_itoa by (auto simp: bases_clear_def)

lemma fresh_tag:
  assumes clear: "bases_clear bases" and base: "sanitize_tag name \<in> bases" "sanitize_tag name \<noteq> []"
    and ok: "\<forall>base k. mget (bn_used b) base = Some k \<longrightarrow> base \<in> bases \<and> 1 \<le> k"
    and choose: "choose_tag name b = (t, used)"
  shows "\<not> tag_known (bn_used b) t" and "tag_known used t"
    and "\<And>u. tag_known (bn_used b) u \<Longrightarrow> tag_known used u"
    and "\<forall>base k. mget used base = Some k \<longrightarrow> base \<in> bases \<and> 1 \<le> k"
proof -
  let ?n = "sanitize_tag name"
  consider (new) "mget (bn_used b) ?n = None" "t = ?n" "used = mput ?n 1 (bn_used b)"
    | (again) k where "mget (bn_used b) ?n = Some k" "t = ?n @ ''-'' @ itoa (k + 1)" "used = mput ?n (k + 1) (bn_used b)"
    using choose base(2) by (auto simp: choose_tag_def or_text_def Let_def split: option.splits)
  then have "\<not> tag_known (bn_used b) t \<and> tag_known used t \<and> (\<forall>u. tag_known (bn_used b) u \<longrightarrow> tag_known used u)
    \<and> (\<forall>base k. mget used base = Some k \<longrightarrow> base \<in> bases \<and> 1 \<le> k)"
  proof cases
    case new
    have "\<not> tag_known (bn_used b) t"
    proof
      assume "tag_known (bn_used b) t"
      then obtain base k where k: "mget (bn_used b) base = Some k" "counted base k ?n"
        unfolding tag_known_def new(2) by blast
      then have "base \<in> bases" "base \<noteq> ?n" using ok new(1) by auto
      then show False using k(2) base(1) bases_clearD [OF clear, of base] unfolding counted_def by fastforce
    qed
    moreover have "tag_known used t" unfolding tag_known_def new(2,3) counted_def
      by (intro exI [of _ ?n] exI [of _ 1]) (simp add: mget_mput)
    ultimately show ?thesis using ok base(1) new(1) tag_known_mput [of "bn_used b" _ ?n 1] unfolding new(3)
      by (auto simp: mget_mput)
  next
    case again
    have k: "1 \<le> k" using ok again(1) by blast
    have "\<not> tag_known (bn_used b) t"
    proof
      assume "tag_known (bn_used b) t"
      then obtain base k' where b: "mget (bn_used b) base = Some k'" "counted base k' t" unfolding tag_known_def by blast
      then consider "t = base" | j where "2 \<le> j" "j \<le> k'" "t = base @ ''-'' @ itoa j" unfolding counted_def by blast
      then show False
      proof cases
        case 1
        then have "?n @ ''-'' @ itoa (k + 1) \<in> bases" using b(1) ok again(2) by metis
        from bases_clearD [OF clear base(1) this] show False using k by simp
      next
        case 2
        then have "?n = base \<and> k + 1 = j" using numbered_tag_inject [of "k + 1" j ?n base] again(2) k by simp
        then show False using 2(2) b(1) again(1) by simp
      qed
    qed
    moreover have "tag_known used t"
      unfolding tag_known_def again(2,3) counted_def using k
      by (intro exI [of _ ?n] exI [of _ "k + 1"] conjI disjI2) (simp_all add: mget_mput)
    moreover have "0 \<le> k" using k by simp
    ultimately show ?thesis using ok base(1) again(1) tag_known_mput [of "bn_used b" _ ?n "k + 1"] unfolding again(3)
      by (auto simp: mget_mput)
  qed
  then show "\<not> tag_known (bn_used b) t" "tag_known used t" "\<And>u. tag_known (bn_used b) u \<Longrightarrow> tag_known used u"
    "\<forall>base k. mget used base = Some k \<longrightarrow> base \<in> bases \<and> 1 \<le> k" by blast+
qed

lemma choose_tag_fields: "add_node env c b n =
  (case choose_tag (nc_name n) b of (t, used) \<Rightarrow>
     (case build_node_outbound (be_json env) (be_duration env) t (nc_uri n) (c_skip_cert_verify c) of
        Inl _ \<Rightarrow> b\<lparr>bn_used := used\<rparr>
      | Inr ob \<Rightarrow> b\<lparr>bn_used := used, bn_tags := bn_tags b @ [t],
          bn_outbounds := bn_outbounds b @ [\<lparr>oe_tag = t, oe_body = NodeBody ob\<rparr>],
          bn_metadata := mput t (node_meta env c n) (bn_metadata b)\<rparr>))"
  by (simp add: add_node_def Let_def split: prod.splits sum.splits)

lemma add_node_tags_ok:
  assumes clear: "bases_clear bases" and base: "sanitize_tag (nc_name n) \<in> bases" "sanitize_tag (nc_name n) \<noteq> []"
    and per: "per_node_ports c" and ok: "tags_ok bases prev b"
  shows "tags_ok bases (prev @ [n]) (add_node env c b n)"
proof -
  obtain t used where ch: "choose_tag (nc_name n) b = (t, used)" by force
  note okD = ok [unfolded tags_ok_def]
  note fresh = fresh_tag [OF clear base _ ch]
  have f: "\<not> tag_known (bn_used b) t" "tag_known used t" "\<And>u. tag_known (bn_used b) u \<Longrightarrow> tag_known used u"
    "\<forall>base k. mget used base = Some k \<longrightarrow> base \<in> bases \<and> 1 \<le> k"
    using fresh okD by blast+
  have new: "t \<notin> set (bn_tags b)" using okD f(1) by (auto simp: list_all_iff)
  have known: "list_all (tag_known used) (bn_tags b)" using okD f(3) by (auto simp: list_all_iff)
  let ?port = "\<lambda>md t. mm_port (meta_at md t)"
  have ports: "subseq (map (?port (bn_metadata b)) (bn_tags b)) (map nc_port prev)" using okD by blast
  show ?thesis
  proof (cases "build_node_outbound (be_json env) (be_duration env) t (nc_uri n) (c_skip_cert_verify c)")
    case (Inl e)
    then show ?thesis
      using okD f(4) known ports by (simp add: choose_tag_fields ch tags_ok_def subseq_rev_drop_many)
  next
    case (Inr ob)
    let ?md = "mput t (node_meta env c n) (bn_metadata b)"
    have "map (?port ?md) (bn_tags b) = map (?port (bn_metadata b)) (bn_tags b)"
      using new by (auto simp: meta_at_def mget_mput)
    moreover have "?port ?md t = nc_port n" using per by (simp add: meta_at_def mget_mput node_meta_def)
    ultimately have "subseq (map (?port ?md) (bn_tags b @ [t])) (map nc_port (prev @ [n]))"
      using ports by (simp add: list_emb_append_mono cong: map_cong)
    then show ?thesis using okD f(2,4) known new Inr by (simp add: choose_tag_fields ch tags_ok_def)
  qed
qed

lemma build_nodes_tags_ok:
  assumes "names_clear c" and "per_node_ports c"
  shows "tags_ok (set (map (sanitize_tag \<circ> nc_name) (c_nodes c))) (c_nodes c) (build_nodes env c)"
proof -
  let ?B = "set (map (sanitize_tag \<circ> nc_name) (c_nodes c))"
  have clear: "bases_clear ?B" using assms(1) by (auto simp: names_clear_def bases_clear_def)
  have "tags_ok ?B (prev @ ns) (foldl (add_node env c) b ns)"
    if "tags_ok ?B prev b" "set ns \<subseteq> set (c_nodes c)" for b ns prev
    using that
  proof (induction ns arbitrary: b prev)
    case (Cons n ns)
    have "sanitize_tag (nc_name n) \<in> ?B" "sanitize_tag (nc_name n) \<noteq> []" using Cons.prems(2) assms(1) by (auto simp: names_clear_def)
    from add_node_tags_ok [OF clear this assms(2) Cons.prems(1)] Cons.IH [of "prev @ [n]"] Cons.prems(2)
    show ?case by simp
  qed simp
  moreover have "tags_ok ?B [] start_nodes" by (simp add: tags_ok_def start_nodes_def)
  ultimately have "tags_ok ?B ([] @ c_nodes c) (foldl (add_node env c) start_nodes (c_nodes c))" by blast
  then show ?thesis unfolding build_nodes_start by simp
qed

section \<open>No two listeners share a port\<close>

lemma subseq_distinct: "subseq xs ys \<Longrightarrow> distinct ys \<Longrightarrow> distinct xs"
  by (auto simp: subseq_conv_nths)

lemma subseq_set_subset: "subseq xs ys \<Longrightarrow> set xs \<subseteq> set ys"
  using set_nths_subset [of ys] by (auto simp: subseq_conv_nths)

lemma sticky_port_set:
  assumes "normalize_with_port_map av jc pm c0 = Inr c" and "sk_enabled (c_sticky c)"
  shows "sk_port (c_sticky c) \<noteq> 0" and "sk_port (c_sticky c) \<noteq> li_port (c_listener c)"
proof -
  obtain d where "finish_config d = Inr c"
    using assms(1) by (auto simp: normalize_with_port_map_def split: sum.splits)
  then have n: "normalize_sticky (normalize_log_config (d\<lparr>c_log_level := or_text (c_log_level d) ''info''\<rparr>)) = Inr c"
    by (simp add: finish_config_def)
  have plus: "p + 1 \<noteq> (0 :: 16 word)" if "p \<noteq> 65535" for p
  proof
    assume "p + 1 = 0"
    then have "p = - 1" by (simp add: eq_neg_iff_add_eq_0)
    then show False using that by simp
  qed
  show "sk_port (c_sticky c) \<noteq> 0" and "sk_port (c_sticky c) \<noteq> li_port (c_listener c)"
    using n assms(2) plus by (auto simp: normalize_sticky_def Let_def split: if_splits option.splits)
qed

definition listener_ports :: "box_options \<Rightarrow> 16 word list" where
  "listener_ports opts = map ie_port (bo_inbounds opts)"

lemma shared_part_ports:
  assumes "shared_part c ts md = Some (i, o1, r, final)"
  shows "map ie_port i = (if \<not> shared_listener c then []
    else if sk_enabled (c_sticky c) then [li_port (c_listener c), sk_port (c_sticky c)] else [li_port (c_listener c)])"
  using assms by (auto simp: shared_part_def build_pool_inbound_def build_sticky_inbound_def Let_def
      split: if_splits option.splits)

lemma node_part_ports:
  assumes "node_part c ts md = Some (i, o2, r)"
  shows "map ie_port i = (if per_node_ports c then map (\<lambda>t. mm_port (meta_at md t)) ts else [])"
  using assms by (auto simp: node_part_def node_inbound_def split: if_splits option.splits)

lemma shared_ports_reserved:
  assumes "normalize_with_port_map av jc pm c0 = Inr c" and "shared_part c ts md = Some (i, o1, r, final)"
  shows "distinct (map ie_port i)" and "set (map ie_port i) \<subseteq> reserved_listener_ports c"
  unfolding shared_part_ports [OF assms(2)] using sticky_port_set [OF assms(1)]
  by (auto simp: reserved_listener_ports_def sticky_reserved_def Let_def)

text \<open>The listeners of the assembled configuration have pairwise different ports, when the configuration
  went through \<open>NormalizeWithPortMap\<close> and no node's name ends in the counter of another's: the shared
  listener, the sticky entry and one listener per node.\<close>

lemma box_listeners_have_own_ports:
  assumes "normalize_with_port_map available jc pm c0 = Inr c" and "names_clear c"
    and "build_options env c = Inr opts"
  shows "distinct (listener_ports opts)"
proof -
  let ?b = "build_nodes env c"
  from assms(3) obtain md rm i1 o1 r1 final i2 o2 r2 where
    *: "region_members env c ?b = (md, rm)"
    "shared_part c (bn_tags ?b) md = Some (i1, o1, r1, final)"
    "node_part c (bn_tags ?b) md = Some (i2, o2, r2)"
    "bo_inbounds opts = i1 @ i2"
    by (rule build_optionsE)
  note shared = shared_ports_reserved [OF assms(1) *(2)]
  show ?thesis
  proof (cases "per_node_ports c")
    case False
    then show ?thesis unfolding listener_ports_def *(4) using shared(1) node_part_ports [OF *(3)] by simp
  next
    case True
    have sep: "ports_separate c" by (rule ports_kept_apart [OF assms(1) True])
    have "map ie_port i2 = map (\<lambda>t. mm_port (meta_at (bn_metadata ?b) t)) (bn_tags ?b)"
      unfolding node_part_ports [OF *(3)] using True region_members_port [of env c ?b] *(1) by simp
    then have sub: "subseq (map ie_port i2) (map nc_port (c_nodes c))"
      using build_nodes_tags_ok [OF assms(2) True, of env] by (simp add: tags_ok_def)
    then have "distinct (map ie_port i2)" using sep subseq_distinct by (auto simp: ports_separate_def)
    moreover have "set (map ie_port i2) \<inter> reserved_listener_ports c = {}"
      using sep subseq_set_subset [OF sub] by (auto simp: ports_separate_def)
    ultimately show ?thesis unfolding listener_ports_def *(4) using shared by auto
  qed
qed

section \<open>Concrete configurations\<close>

definition sample_build :: build_env where
  "sample_build = \<lparr>be_json = (\<lambda>_. None), be_duration = (\<lambda>_. None), be_keys = no_json, be_digest = id,
     be_open_geo = (\<lambda>_. None), be_arrival = id, be_controller = False\<rparr>"

definition named_nodes :: "string list \<Rightarrow> config" where
  "named_nodes names = sample_config (map (\<lambda>(name, i). node_of_uri name (''socks5://h'' @ itoa (int i) @ '':1080''))
     (zip names [1..<length names + 1]))"

definition two_nodes :: config where "two_nodes = named_nodes [''HK 1'', ''JP 1'']"

lemma two_nodes_built:
  "case normalize_with_port_map all_available no_json [] two_nodes of
     Inl _ \<Rightarrow> False
   | Inr c \<Rightarrow> names_clear c \<and> (case build_options sample_build c of
       Inl _ \<Rightarrow> False
     | Inr opts \<Rightarrow> listener_ports opts = [24000, 24001, 24002, 24003]
         \<and> map oe_tag (bo_outbounds opts) = [''hk-1'', ''jp-1'', ''proxy-pool'', ''proxy-pool-sticky'', ''proxy-pool-hk-1'', ''proxy-pool-jp-1''])"
  by code_simp

lemma box_listeners_have_own_ports_example:
  "\<exists>c opts. normalize_with_port_map all_available no_json [] two_nodes = Inr c
     \<and> build_options sample_build c = Inr opts \<and> distinct (listener_ports opts) \<and> length (listener_ports opts) = 4"
proof -
  obtain c opts where c: "normalize_with_port_map all_available no_json [] two_nodes = Inr c" "names_clear c"
    "build_options sample_build c = Inr opts" "listener_ports opts = [24000, 24001, 24002, 24003]"
    using two_nodes_built by (auto split: sum.splits)
  show ?thesis
    by (intro exI [of _ c] exI [of _ opts] conjI c(1,3) box_listeners_have_own_ports [OF c(1-3)]) (simp add: c(4))
qed

text \<open>Without the condition on names two nodes can get one tag: the third node's entry replaces the second's, and
  the two listeners with that tag have one port.\<close>

definition confused_nodes :: config where "confused_nodes = named_nodes [''HK'', ''HK'', ''HK 2'']"

lemma confused_nodes_share_a_port:
  "case normalize_with_port_map all_available no_json [] confused_nodes of
     Inl _ \<Rightarrow> False
   | Inr c \<Rightarrow> ports_separate c \<and> (case build_options sample_build c of
       Inl _ \<Rightarrow> False
     | Inr opts \<Rightarrow> listener_ports opts = [24000, 24001, 24002, 24004, 24004]
         \<and> bn_tags (build_nodes sample_build c) = [''hk'', ''hk-2'', ''hk-2''])"
  by code_simp

text \<open>sing-box rejects the first outbound: its pool and its rule go, its listener stays.\<close>

definition reject_first :: "nat \<Rightarrow> box_options \<Rightarrow> string option" where
  "reject_first attempt opts = (if attempt = 0 then Some ''initialize outbound[0]: bad'' else None)"

lemma rejected_node_keeps_listener:
  "case normalize_with_port_map all_available no_json [] two_nodes of
     Inl _ \<Rightarrow> False
   | Inr c \<Rightarrow> (case create_box sample_build reject_first True (Some c) of
       Inl _ \<Rightarrow> False
     | Inr opts \<Rightarrow> map oe_tag (bo_outbounds opts) = [''jp-1'', ''proxy-pool'', ''proxy-pool-sticky'', ''proxy-pool-jp-1'']
         \<and> map ie_tag (bo_inbounds opts) = [''http-in'', ''sticky-in'', ''in-hk-1'', ''in-jp-1'']
         \<and> map ru_inbound (bo_rules opts) = [''sticky-in'', ''in-jp-1'']
         \<and> bo_final opts = ''proxy-pool'')"
  by code_simp

theorem created_box_is_usable_witness:
  "\<exists>c opts. create_box sample_build reject_first True (Some c) = Inr opts \<and> options_usable opts \<and> length (bo_outbounds opts) = 4"
proof -
  obtain c opts where c: "create_box sample_build reject_first True (Some c) = Inr opts"
    "map oe_tag (bo_outbounds opts) = [''jp-1'', ''proxy-pool'', ''proxy-pool-sticky'', ''proxy-pool-jp-1'']"
    using rejected_node_keeps_listener by (auto split: sum.splits)
  have "arrival_ok sample_build" by (simp add: arrival_ok_def sample_build_def)
  then have "options_usable opts" using created_box_is_usable [OF _ c(1)] by blast
  moreover have "length (bo_outbounds opts) = 4" using arg_cong [OF c(2), of length] by simp
  ultimately show ?thesis using c(1) by blast
qed

end
