(* ===== verification/ProxyAuth.thy ===== *)
theory ProxyAuth
  imports GoText
begin

text \<open>
  Who may use the proxy, and as which session: \<open>internal/routing/auth.go\<close>, \<open>internal/routing/context.go\<close> and
  \<open>authenticate\<close> of \<open>internal/inbound/session/inbound.go\<close>. The two context values a request carries are a
  record. SHA-256 is a parameter, and passwords are compared by their digests as in the code.
\<close>

section \<open>Names\<close>

definition max_session_name_length :: nat where "max_session_name_length = 100"

definition session_char :: "char \<Rightarrow> bool" where
  "session_char c \<longleftrightarrow> is_lower c \<or> is_upper c \<or> is_digit c \<or> c = CHR ''_'' \<or> c = CHR ''-''"

definition valid_session_name :: "string \<Rightarrow> bool" where
  "valid_session_name name \<longleftrightarrow>
     \<not> (length name < 1 \<or> length name > max_session_name_length) \<and> list_all session_char name"

definition parse_username :: "string \<Rightarrow> string \<Rightarrow> string option" where
  "parse_username base input =
     (if base = [] then None
      else if input = base then Some []
      else let prefix = base @ ''.''
        in if \<not> has_prefix input prefix then None
           else let session = trim_prefix input prefix
             in if \<not> valid_session_name session then None else Some session)"

definition verify_proxy_credentials ::
  "(string \<Rightarrow> string) \<Rightarrow> string \<Rightarrow> string \<Rightarrow> string \<Rightarrow> string \<Rightarrow> bool \<Rightarrow> string option" where
  "verify_proxy_credentials digest base password input supplied session_enabled =
     (case parse_username base input of
        None \<Rightarrow> None
      | Some session \<Rightarrow>
          if digest password \<noteq> digest supplied \<or> (\<not> session_enabled \<and> session \<noteq> []) then None else Some session)"

section \<open>Accounts\<close>

record account =
  ac_username :: string
  ac_password :: string

record request_context =
  rx_session :: string                 \<comment> \<open>\<open>SessionFromContext\<close>, empty when there is none\<close>
  rx_user :: "string option"           \<comment> \<open>\<open>auth.UserFromContext\<close>\<close>

definition with_session :: "string \<Rightarrow> request_context \<Rightarrow> request_context" where
  "with_session key ctx = ctx\<lparr>rx_session := key\<rparr>"

definition with_user :: "string \<Rightarrow> request_context \<Rightarrow> request_context" where
  "with_user u ctx = ctx\<lparr>rx_user := Some u\<rparr>"

text \<open>The first loop: the account of exactly this name, with the mark that there is one.\<close>

fun exact_account ::
  "(string \<Rightarrow> string) \<Rightarrow> string \<Rightarrow> string \<Rightarrow> account list \<Rightarrow> bool \<Rightarrow> bool \<times> bool" where
  "exact_account digest username password [] matched = (matched, False)"
| "exact_account digest username password (a # as) matched =
     (if username = ac_username a
      then (case verify_proxy_credentials digest (ac_username a) (ac_password a) username password False of
              Some _ \<Rightarrow> (True, True)
            | None \<Rightarrow> exact_account digest username password as True)
      else exact_account digest username password as matched)"

text \<open>The second loop: an account whose session this name is.\<close>

fun session_account ::
  "(string \<Rightarrow> string) \<Rightarrow> bool \<Rightarrow> string \<Rightarrow> string \<Rightarrow> account list \<Rightarrow> string option" where
  "session_account digest enabled username password [] = None"
| "session_account digest enabled username password (a # as) =
     (case verify_proxy_credentials digest (ac_username a) (ac_password a) username password enabled of
        Some name \<Rightarrow> Some name
      | None \<Rightarrow> session_account digest enabled username password as)"

definition authenticate ::
  "(string \<Rightarrow> string) \<Rightarrow> bool \<Rightarrow> account list \<Rightarrow> request_context \<Rightarrow> string \<Rightarrow> string \<Rightarrow> request_context \<times> bool" where
  "authenticate digest enabled users ctx username password =
     (let (matched, found) = exact_account digest username password users False
      in if found then (with_user username (with_session [] ctx), True)
         else if matched then (ctx, False)
         else case session_account digest enabled username password users of
             Some name \<Rightarrow> (with_user username (if name \<noteq> [] then with_session username ctx else ctx), True)
           | None \<Rightarrow> (ctx, False))"

section \<open>What is accepted\<close>

text \<open>An account name alone, or an account name and a session name.\<close>

definition is_session_of :: "string \<Rightarrow> string \<Rightarrow> bool" where
  "is_session_of base input \<longleftrightarrow> base \<noteq> [] \<and> has_prefix input (base @ ''.'') \<and> valid_session_name (drop (length base + 1) input)"

lemma parse_username_iff:
  "parse_username base input = Some s \<longleftrightarrow> base \<noteq> [] \<and>
     (input = base \<and> s = [] \<or> input = base @ ''.'' @ s \<and> valid_session_name s)"
proof -
  have "trim_prefix (base @ ''.'' @ t) (base @ ''.'') = t" for t
    by (simp add: trim_prefix_def has_prefix_iff)
  then show ?thesis by (auto simp: parse_username_def Let_def has_prefix_iff)
qed

lemma is_session_of_iff: "is_session_of base input \<longleftrightarrow> base \<noteq> [] \<and> (\<exists>s. input = base @ ''.'' @ s \<and> valid_session_name s)"
  by (auto simp: is_session_of_def has_prefix_iff)

lemma verify_iff:
  "verify_proxy_credentials digest base pw u p enabled = Some s \<longleftrightarrow>
    digest pw = digest p \<and> parse_username base u = Some s \<and> (enabled \<or> s = [])"
  by (auto simp: verify_proxy_credentials_def split: option.splits)

definition right_password :: "(string \<Rightarrow> string) \<Rightarrow> account \<Rightarrow> string \<Rightarrow> bool" where
  "right_password digest a p \<longleftrightarrow> digest (ac_password a) = digest p"

text \<open>The session a request gets, as a policy over the accounts: an account's own name wins over a reading as
  another account's session.\<close>

definition granted_session :: "(string \<Rightarrow> string) \<Rightarrow> bool \<Rightarrow> account list \<Rightarrow> string \<Rightarrow> string \<Rightarrow> string option" where
  "granted_session digest enabled users u p =
     (if \<exists>a\<in>set users. ac_username a = u
      then (if u \<noteq> [] \<and> (\<exists>a\<in>set users. ac_username a = u \<and> right_password digest a p) then Some [] else None)
      else if enabled \<and> (\<exists>a\<in>set users. is_session_of (ac_username a) u \<and> right_password digest a p) then Some u
      else None)"

lemma exact_account_iff:
  "exact_account digest u p users m =
    (m \<or> (\<exists>a\<in>set users. ac_username a = u), u \<noteq> [] \<and> (\<exists>a\<in>set users. ac_username a = u \<and> right_password digest a p))"
proof (induction users arbitrary: m)
  case (Cons a as)
  note v = verify_iff [of digest _ "ac_password a" _ p, folded right_password_def] and IH = Cons.IH
  show ?case
  proof (cases "verify_proxy_credentials digest (ac_username a) (ac_password a) u p False")
    case None
    then have "u = ac_username a \<Longrightarrow> u \<noteq> [] \<Longrightarrow> \<not> right_password digest a p"
      using v [of "ac_username a" u False "[]"] by (simp add: parse_username_iff)
    then show ?thesis using None IH by auto
  next
    case (Some s)
    then have "right_password digest a p" "ac_username a \<noteq> []" using v by (simp_all add: parse_username_iff)
    then show ?thesis using Some IH by auto
  qed
qed simp

lemma session_account_iff:
  assumes "\<forall>a\<in>set users. ac_username a \<noteq> u"
  shows "(\<exists>s. session_account digest enabled u p users = Some s) \<longleftrightarrow>
      enabled \<and> (\<exists>a\<in>set users. is_session_of (ac_username a) u \<and> right_password digest a p)"
    and "session_account digest enabled u p users = Some s \<Longrightarrow> s \<noteq> []"
proof -
  have "((\<exists>s. session_account digest enabled u p users = Some s) \<longleftrightarrow>
      enabled \<and> (\<exists>a\<in>set users. is_session_of (ac_username a) u \<and> right_password digest a p))
    \<and> (\<forall>s. session_account digest enabled u p users = Some s \<longrightarrow> s \<noteq> [])"
    using assms
  proof (induction users)
    case (Cons a as)
    note IH = Cons.IH
    have ok: "verify_proxy_credentials digest (ac_username a) (ac_password a) u p enabled = Some s \<longleftrightarrow>
        right_password digest a p \<and> enabled \<and> ac_username a \<noteq> [] \<and> u = ac_username a @ ''.'' @ s \<and> valid_session_name s" for s
      using Cons.prems by (auto simp: verify_iff right_password_def parse_username_iff valid_session_name_def)
    show ?case
    proof (cases "verify_proxy_credentials digest (ac_username a) (ac_password a) u p enabled")
      case None
      then have "\<not> (enabled \<and> is_session_of (ac_username a) u \<and> right_password digest a p)" using ok by (auto simp: is_session_of_iff)
      then show ?thesis using None IH Cons.prems by auto
    next
      case (Some s)
      then have s: "enabled \<and> right_password digest a p \<and> is_session_of (ac_username a) u" "s \<noteq> []"
        using ok by (auto simp: is_session_of_iff valid_session_name_def)
      then show ?thesis using Some by simp
    qed
  qed simp
  then show "(\<exists>s. session_account digest enabled u p users = Some s) \<longleftrightarrow>
      enabled \<and> (\<exists>a\<in>set users. is_session_of (ac_username a) u \<and> right_password digest a p)"
    "session_account digest enabled u p users = Some s \<Longrightarrow> s \<noteq> []" by blast+
qed

lemma authenticate_granted:
  "authenticate digest enabled users ctx u p =
    (case granted_session digest enabled users u p of
       None \<Rightarrow> (ctx, False)
     | Some key \<Rightarrow> (\<lparr>rx_session = key, rx_user = Some u\<rparr>, True))"
proof (cases "\<exists>a\<in>set users. ac_username a = u")
  case True
  then show ?thesis
    by (auto simp: authenticate_def exact_account_iff granted_session_def with_user_def with_session_def)
next
  case False
  then have none: "\<forall>a\<in>set users. ac_username a \<noteq> u" by blast
  show ?thesis
  proof (cases "session_account digest enabled u p users")
    case None
    then have "granted_session digest enabled users u p = None"
      using session_account_iff(1) [OF none, of digest enabled p] False by (auto simp: granted_session_def)
    then show ?thesis using None False by (simp add: authenticate_def exact_account_iff)
  next
    case (Some s)
    then have "granted_session digest enabled users u p = Some u" "s \<noteq> []"
      using session_account_iff [OF none, of digest enabled p] False by (auto simp: granted_session_def)
    then show ?thesis
      using Some False by (simp add: authenticate_def exact_account_iff with_user_def with_session_def)
  qed
qed

text \<open>\<open>authenticate\<close> is this policy: it accepts an account by its exact name and password without a session; only
  a name that is no account is read as account, dot, session name, accepted with the account's password
  when sessions are enabled, and becomes the session key as a whole.\<close>

lemma authenticate_is_the_policy:
  "authenticate digest enabled users ctx u p =
    (case granted_session digest enabled users u p of
       None \<Rightarrow> (ctx, False)
     | Some key \<Rightarrow> (\<lparr>rx_session = key, rx_user = Some u\<rparr>, True))"
  by (rule authenticate_granted)

end
