(* ===== verification/SessionIngress.thy ===== *)
theory SessionIngress
  imports ProxyAuth GoBase64
begin

text \<open>
  The front end of the shared entry, \<open>internal/inbound/session\<close>: the protocols HTTP, SOCKS5 and SOCKS4 up to the
  point where a connection is handed to the router. Wire formats of SOCKS, \<open>http.ReadRequest\<close> and the HTTP
  transport are libraries: what they return on a connection is the input of a handler, and so is whether
  a write succeeds. A handler returns the events on the connection in order, with its two results.
\<close>

section \<open>The header block\<close>

definition max_http_header_bytes :: nat where "max_http_header_bytes = 64 * 1024"

text \<open>The inner loop of \<open>peekHTTPHeaders\<close> over the bytes from \<open>i\<close> on: the end of the block, or the start of
  the line the scan is in.\<close>

function scan_lines :: "string \<Rightarrow> nat \<Rightarrow> nat \<Rightarrow> nat option" where
  "scan_lines data line_start i =
     (if i \<ge> length data then Some line_start
      else if data ! i \<noteq> CHR 0x0A then scan_lines data line_start (i + 1)
      else if i = line_start \<or> (i = line_start + 1 \<and> data ! line_start = CHR 0x0D) then None
      else scan_lines data (i + 1) (i + 1))"
  by pat_completeness auto
termination scan_lines
  by (relation "measure (\<lambda>(data, _, i). length data - i)") auto

declare scan_lines.simps [simp del]

datatype header_result = HeadersComplete | HeadersTooLarge | HeadersCut

text \<open>\<open>Peek\<close> waits for one byte more than was scanned, and fails when the stream ends before; \<open>Buffered\<close> is then
  any number of bytes from there to what has arrived. The oracle says how many.\<close>

definition available_bytes :: "(nat \<Rightarrow> nat) \<Rightarrow> string \<Rightarrow> nat \<Rightarrow> nat" where
  "available_bytes buffered stream scanned = min (max (scanned + 1) (min (buffered scanned) (length stream))) max_http_header_bytes"

function peek_http_headers :: "(nat \<Rightarrow> nat) \<Rightarrow> string \<Rightarrow> nat \<Rightarrow> nat \<Rightarrow> header_result" where
  "peek_http_headers buffered stream scanned line_start =
     (if scanned \<ge> max_http_header_bytes then HeadersTooLarge
      else if length stream < scanned + 1 then HeadersCut
      else let data = take (available_bytes buffered stream scanned) stream
        in case scan_lines data line_start scanned of
             None \<Rightarrow> HeadersComplete
           | Some start \<Rightarrow> peek_http_headers buffered stream (length data) start)"
  by pat_completeness auto
termination peek_http_headers
  by (relation "measure (\<lambda>(_, _, scanned, _). max_http_header_bytes - scanned)")
    (auto simp: available_bytes_def max_http_header_bytes_def)

declare peek_http_headers.simps [simp del]

section \<open>Header maps\<close>

type_synonym headers = "(string, string list) gomap"

definition token_char :: "char \<Rightarrow> bool" where
  "token_char c \<longleftrightarrow> is_lower c \<or> is_upper c \<or> is_digit c
     \<or> c \<in> set [CHR ''!'', CHR ''#'', CHR ''$'', CHR ''%'', CHR ''&'', CHR 0x27, CHR ''*'', CHR ''+'', CHR ''-'', CHR ''.'',
         CHR ''^'', CHR ''_'', CHR 0x60, CHR ''|'', CHR ''~'']"

fun title_case :: "bool \<Rightarrow> string \<Rightarrow> string" where
  "title_case upper [] = []"
| "title_case upper (c # s) =
     (let d = (if upper then upper_char c else lower_char c) in d # title_case (d = CHR ''-'') s)"

text \<open>\<open>textproto.CanonicalMIMEHeaderKey\<close>.\<close>

definition canonical_key :: "string \<Rightarrow> string" where
  "canonical_key s = (if list_all token_char s then title_case True s else s)"

definition header_values :: "headers \<Rightarrow> string \<Rightarrow> string list" where
  "header_values hs k = (case mget hs (canonical_key k) of Some vs \<Rightarrow> vs | None \<Rightarrow> [])"

definition header_get :: "headers \<Rightarrow> string \<Rightarrow> string" where
  "header_get hs k = (case header_values hs k of v # _ \<Rightarrow> v | [] \<Rightarrow> [])"

definition header_del :: "string \<Rightarrow> headers \<Rightarrow> headers" where
  "header_del k hs = mdel (canonical_key k) hs"

definition header_set :: "string \<Rightarrow> string \<Rightarrow> headers \<Rightarrow> headers" where
  "header_set k v hs = mput (canonical_key k) [v] hs"

section \<open>What a proxy changes in a request\<close>

definition connection_tokens :: "headers \<Rightarrow> string list" where
  "connection_tokens hs = map trim_space (split_byte CHR '','' (join_with '','' (header_values hs ''Connection'')))"

definition is_upgrade :: "headers \<Rightarrow> bool" where
  "is_upgrade hs \<longleftrightarrow> header_get hs ''Upgrade'' \<noteq> [] \<and> (\<exists>t\<in>set (connection_tokens hs). equal_fold t ''upgrade'')"

definition hop_headers :: "string list" where
  "hop_headers = [''Proxy-Authorization'', ''Proxy-Authenticate'', ''Proxy-Connection'', ''Keep-Alive'', ''TE'', ''Trailer'',
     ''Transfer-Encoding'']"

definition strip_proxy_headers :: "headers \<Rightarrow> bool \<Rightarrow> headers" where
  "strip_proxy_headers hs upgrade =
     (let named = filter (\<lambda>t. \<not> (upgrade \<and> equal_fold t ''upgrade'')) (connection_tokens hs);
          rest = fold header_del hop_headers (fold header_del named hs)
      in if upgrade then header_set ''Connection'' ''Upgrade'' rest
         else header_del ''Upgrade'' (header_del ''Connection'' rest))"

definition proxy_credentials :: "headers \<Rightarrow> (string \<times> string) option" where
  "proxy_credentials hs =
     (case header_values hs ''Proxy-Authorization'' of
        [v] \<Rightarrow>
          if length v > 2048 then None
          else (case str_fields v of
                  [scheme, text] \<Rightarrow>
                    if \<not> equal_fold scheme ''Basic'' then None
                    else (case b64_decode StdEncoding text of
                            None \<Rightarrow> None
                          | Some decoded \<Rightarrow>
                              let (username, password, ok) = cut_byte CHR '':'' decoded
                              in if ok then Some (username, password) else None)
                | _ \<Rightarrow> None)
      | _ \<Rightarrow> None)"

section \<open>HTTP\<close>

datatype ingress_error =
    TooLargeHeaders | InvalidHeaders | InvalidRequest | AuthenticationFailed | InvalidConnect | InvalidDestination
  | UnsupportedExpectation | ContinueFailed | ForwardingFailed | InvalidUpgrade | WriteFailed
  | InvalidGreeting | NoMethod | UnsupportedCommand | UdpListenFailed | UdpClosed | Cancelled | TlsFailed | ReadFailed

record destination =
  ds_host :: string
  ds_port :: "16 word"

record http_response =
  rp_status :: nat
  rp_headers :: headers
  rp_duplex :: bool              \<comment> \<open>the body can be written to\<close>

record http_request =
  rq_method :: string
  rq_scheme :: string
  rq_host :: string
  rq_headers :: headers
  rq_close :: bool
  rq_http11 :: bool
  rq_body :: bool
  rq_continue_written :: bool    \<comment> \<open>whether the interim response can be written\<close>
  rq_response :: "http_response option"   \<comment> \<open>what \<open>RoundTrip\<close> returns\<close>
  rq_response_written :: bool

datatype ingress_event =
    Reply nat | Continue100 | Tunnel request_context destination | Forward request_context string string headers
  | Switching headers | Respond nat headers bool
  | MethodReply nat | StatusReply bool | CommandReply bool | RouteSocks request_context destination
  | RoutePackets request_context destination | Socks4Rejected

text \<open>What one round of the loop of \<open>handleHTTP\<close> reads.\<close>

datatype incoming = HeaderBlock header_result | BadHeaderRead | RequestEnd | BadRequest | Request http_request

record ingress =
  in_users :: "account list"
  in_session_enabled :: bool
  in_digest :: "string \<Rightarrow> string"
  in_parse :: "string \<Rightarrow> destination"     \<comment> \<open>\<open>M.ParseSocksaddr(...).Unwrap()\<close>\<close>
  in_valid :: "destination \<Rightarrow> bool"

definition sign_in :: "ingress \<Rightarrow> request_context \<Rightarrow> string \<Rightarrow> string \<Rightarrow> request_context \<times> bool" where
  "sign_in h ctx u p = authenticate (in_digest h) (in_session_enabled h) (in_users h) ctx u p"

definition identify :: "ingress \<Rightarrow> request_context \<Rightarrow> headers \<Rightarrow> request_context option" where
  "identify h ctx hs =
     (if in_users h = [] then Some ctx
      else case proxy_credentials hs of
          None \<Rightarrow> None
        | Some (u, p) \<Rightarrow> (case sign_in h ctx u p of (ctx', ok) \<Rightarrow> if ok then Some ctx' else None))"

definition handle_expectation :: "http_request \<Rightarrow> headers \<Rightarrow> ingress_event list \<times> headers \<times> ingress_error option" where
  "handle_expectation r hs =
     (let expect = trim_space (join_with '','' (header_values hs ''Expect''))
      in if expect = [] then ([], header_del ''Expect'' hs, None)
         else if \<not> equal_fold expect ''100-continue'' \<or> \<not> rq_http11 r
         then ([Reply 417], hs, Some UnsupportedExpectation)
         else let hs' = header_del ''Expect'' hs
           in if \<not> rq_body r then ([], hs', None)
              else if \<not> rq_continue_written r then ([], hs', Some ContinueFailed)
              else ([Continue100], hs', None))"

definition forward_http ::
  "request_context \<Rightarrow> http_request \<Rightarrow> headers \<Rightarrow> ingress_event list \<times> ingress_error option" where
  "forward_http ctx r hs =
     (let upgrade = is_upgrade hs;
          sent = Forward ctx (rq_scheme r) (rq_host r) (strip_proxy_headers hs upgrade)
      in case rq_response r of
           None \<Rightarrow> ([sent, Reply 502], Some ForwardingFailed)
         | Some resp \<Rightarrow>
             if rp_status resp = 101 \<and> upgrade
             then (if \<not> rp_duplex resp then ([sent], Some InvalidUpgrade)
                   else if \<not> rq_response_written r then ([sent], Some WriteFailed)
                   else ([sent, Switching (strip_proxy_headers (rp_headers resp) True)], None))
             else if \<not> rq_response_written r then ([sent], Some WriteFailed)
             else ([sent, Respond (rp_status resp) (strip_proxy_headers (rp_headers resp) False) (rq_close r)], None))"

definition connect_destination :: "ingress \<Rightarrow> http_request \<Rightarrow> destination" where
  "connect_destination h r =
     (let d = in_parse h (rq_host r) in if ds_port d = 0 then d\<lparr>ds_port := 443\<rparr> else d)"

text \<open>The result is whether the connection was handed over, and an error. A list that ends is a
  connection that ends.\<close>

fun handle_http ::
  "ingress \<Rightarrow> request_context \<Rightarrow> incoming list \<Rightarrow> ingress_event list \<times> bool \<times> ingress_error option" where
  "handle_http h ctx [] = ([], False, None)"
| "handle_http h ctx (HeaderBlock HeadersTooLarge # rest) = ([Reply 431], False, Some TooLargeHeaders)"
| "handle_http h ctx (HeaderBlock HeadersCut # rest) = ([], False, None)"
| "handle_http h ctx (HeaderBlock HeadersComplete # rest) = handle_http h ctx rest"
| "handle_http h ctx (BadHeaderRead # rest) = ([], False, Some InvalidHeaders)"
| "handle_http h ctx (RequestEnd # rest) = ([], False, None)"
| "handle_http h ctx (BadRequest # rest) = ([], False, Some InvalidRequest)"
| "handle_http h ctx (Request r # rest) =
     (case identify h ctx (rq_headers r) of
        None \<Rightarrow> ([Reply 407], False, Some AuthenticationFailed)
      | Some rctx \<Rightarrow>
          let hs = header_del ''Proxy-Authorization'' (rq_headers r)
          in if rq_method r = ''CONNECT''
             then (let d = connect_destination h r
                   in if \<not> in_valid h d then ([Reply 400], False, Some InvalidConnect)
                      else ([Tunnel rctx d], True, None))
             else if rq_host r = [] \<or> (rq_scheme r \<noteq> ''http'' \<and> rq_scheme r \<noteq> ''https'')
             then ([Reply 400], False, Some InvalidDestination)
             else (case handle_expectation r hs of
                     (es, hs1, Some e) \<Rightarrow> (es, False, Some e)
                   | (es, hs1, None) \<Rightarrow>
                       (case forward_http rctx r hs1 of
                          (fs, Some e) \<Rightarrow> (es @ fs, False, Some e)
                        | (fs, None) \<Rightarrow>
                            if rq_close r \<or> is_upgrade hs1 then (es @ fs, False, None)
                            else (let (gs, owned, err) = handle_http h ctx rest in (es @ fs @ gs, owned, err)))))"

section \<open>SOCKS\<close>

datatype socks_command = SocksConnect | SocksUdp | SocksOther

datatype udp_outcome = NoListener | ReplyLost | NoPacket | FirstPacket destination

record socks5_input =
  s5_methods :: "nat list option"
  s5_method_written :: bool
  s5_credentials :: "(string \<times> string) option"
  s5_status_written :: bool
  s5_request :: "(socks_command \<times> destination) option"
  s5_udp :: udp_outcome

definition handle_udp_associate ::
  "request_context \<Rightarrow> udp_outcome \<Rightarrow> ingress_event list \<times> bool \<times> ingress_error option" where
  "handle_udp_associate ctx u =
     (case u of
        NoListener \<Rightarrow> ([CommandReply False], False, Some UdpListenFailed)
      | ReplyLost \<Rightarrow> ([], False, Some WriteFailed)
      | NoPacket \<Rightarrow> ([CommandReply True], False, Some UdpClosed)
      | FirstPacket d \<Rightarrow> ([CommandReply True, RoutePackets ctx d], True, None))"

definition socks5_command ::
  "request_context \<Rightarrow> socks5_input \<Rightarrow> ingress_event list \<times> bool \<times> ingress_error option" where
  "socks5_command ctx i =
     (case s5_request i of
        None \<Rightarrow> ([], False, Some InvalidRequest)
      | Some (SocksConnect, d) \<Rightarrow> ([RouteSocks ctx d], True, None)
      | Some (SocksUdp, d) \<Rightarrow> handle_udp_associate ctx (s5_udp i)
      | Some (SocksOther, d) \<Rightarrow> ([CommandReply False], False, Some UnsupportedCommand))"

definition before :: "ingress_event list \<Rightarrow> ingress_event list \<times> 'a \<Rightarrow> ingress_event list \<times> 'a" where
  "before es r = (es @ fst r, snd r)"

definition handle_socks5 ::
  "ingress \<Rightarrow> request_context \<Rightarrow> socks5_input \<Rightarrow> ingress_event list \<times> bool \<times> ingress_error option" where
  "handle_socks5 h ctx i =
     (case s5_methods i of
        None \<Rightarrow> ([], False, Some InvalidGreeting)
      | Some methods \<Rightarrow>
          let wanted = (if in_users h \<noteq> [] then 2 else 0)
          in if wanted \<notin> set methods then ([MethodReply 255], False, Some NoMethod)
             else if \<not> s5_method_written i then ([], False, Some WriteFailed)
             else before [MethodReply wanted]
               (if wanted = 0 then socks5_command ctx i
                else case s5_credentials i of
                    None \<Rightarrow> ([StatusReply False], False, Some AuthenticationFailed)
                  | Some (u, p) \<Rightarrow>
                      let (ctx', ok) = sign_in h ctx u p
                      in if \<not> s5_status_written i then ([], False, Some WriteFailed)
                         else if \<not> ok then ([StatusReply False], False, Some AuthenticationFailed)
                         else before [StatusReply True] (socks5_command ctx' i)))"

text \<open>SOCKS4 carries no password, so the empty one is checked.\<close>

record socks4_input =
  s4_version_ok :: bool
  s4_request :: "(bool \<times> string \<times> destination) option"    \<comment> \<open>connect command, user, destination\<close>

definition handle_socks4 ::
  "ingress \<Rightarrow> request_context \<Rightarrow> socks4_input \<Rightarrow> ingress_event list \<times> bool \<times> ingress_error option" where
  "handle_socks4 h ctx i =
     (if \<not> s4_version_ok i then ([], False, Some InvalidGreeting)
      else case s4_request i of
          None \<Rightarrow> ([Socks4Rejected], False, Some InvalidRequest)
        | Some (connect, user, d) \<Rightarrow>
            if \<not> connect then ([Socks4Rejected], False, Some UnsupportedCommand)
            else if in_users h = [] then ([RouteSocks ctx d], True, None)
            else let (ctx', ok) = sign_in h ctx user []
              in if \<not> ok then ([Socks4Rejected], False, Some AuthenticationFailed)
                 else ([RouteSocks ctx' d], True, None))"

section \<open>A connection\<close>

text \<open>The first byte selects the protocol; what the handler for it then reads is its input.\<close>

definition new_connection ::
  "ingress \<Rightarrow> request_context \<Rightarrow> bool \<Rightarrow> bool option \<Rightarrow> char option
    \<Rightarrow> socks4_input \<Rightarrow> socks5_input \<Rightarrow> incoming list \<Rightarrow> ingress_event list \<times> bool \<times> ingress_error option" where
  "new_connection h ctx cancelled tls_ok first in4 in5 requests =
     (if cancelled then ([], False, Some Cancelled)
      else if tls_ok = Some False then ([], False, Some TlsFailed)
      else case first of
          None \<Rightarrow> ([], False, Some ReadFailed)
        | Some c \<Rightarrow>
            if c = CHR 0x04 then handle_socks4 h ctx in4
            else if c = CHR 0x05 then handle_socks5 h ctx in5
            else handle_http h ctx requests)"

section \<open>The UDP association\<close>

text \<open>\<open>clientPacketConn\<close>: addresses of datagrams are an IP and a port; the first accepted one becomes the peer.\<close>

type_synonym udp_address = "string \<times> 16 word"

fun read_from :: "string option \<Rightarrow> udp_address option \<Rightarrow> udp_address list \<Rightarrow> (udp_address \<times> udp_address option \<times> udp_address list) option" where
  "read_from source peer [] = None"
| "read_from source peer (a # as) =
     (if source \<noteq> None \<and> Some (fst a) \<noteq> source then read_from source peer as
      else let p = (case peer of None \<Rightarrow> a | Some p \<Rightarrow> p)
        in if a = p then Some (a, Some p, as) else read_from source (Some p) as)"

text \<open>All datagrams the association delivers.\<close>

fun delivered :: "string option \<Rightarrow> udp_address option \<Rightarrow> udp_address list \<Rightarrow> udp_address list" where
  "delivered source peer [] = []"
| "delivered source peer (a # as) =
     (if source \<noteq> None \<and> Some (fst a) \<noteq> source then delivered source peer as
      else let p = (case peer of None \<Rightarrow> a | Some p \<Rightarrow> p)
        in if a = p then a # delivered source (Some p) as else delivered source (Some p) as)"

section \<open>The tunnel's answer\<close>

datatype tunnel_reply = Established | BadGateway

definition handshake_success :: "bool \<Rightarrow> bool \<times> tunnel_reply list" where
  "handshake_success replied = (if replied then (True, []) else (True, [Established]))"

definition handshake_failure :: "bool \<Rightarrow> bool \<times> tunnel_reply list" where
  "handshake_failure replied = (if replied then (True, []) else (True, [BadGateway]))"

end
