(* ===== verification/IngressFacts.thy ===== *)
theory IngressFacts
  imports SessionIngress "HOL-Library.Sublist"
begin

text \<open>
  What the front end guarantees: the header scan finds the first blank line however the bytes arrive,
  a request is routed as the session its own credentials name and never as another's, and nothing that
  concerns the proxy is forwarded.
\<close>

section \<open>The header scan\<close>

text \<open>A line ends at \<open>i\<close> that has no bytes but a carriage return.\<close>

definition blank_line_at :: "string \<Rightarrow> nat \<Rightarrow> bool" where
  "blank_line_at s i \<longleftrightarrow> s ! i = CHR 0x0A \<and>
     (i = 0 \<or> s ! (i - 1) = CHR 0x0A \<or> (s ! (i - 1) = CHR 0x0D \<and> (i = 1 \<or> s ! (i - 2) = CHR 0x0A)))"

definition in_line :: "string \<Rightarrow> nat \<Rightarrow> nat \<Rightarrow> bool" where
  "in_line s ls i \<longleftrightarrow> ls \<le> i \<and> (ls = 0 \<or> s ! (ls - 1) = CHR 0x0A) \<and> (\<forall>j. ls \<le> j \<and> j < i \<longrightarrow> s ! j \<noteq> CHR 0x0A)"

lemma blank_in_line:
  assumes "in_line s ls i"
  shows "blank_line_at s i \<longleftrightarrow> s ! i = CHR 0x0A \<and> (i = ls \<or> (i = ls + 1 \<and> s ! ls = CHR 0x0D))"
proof
  assume b: "blank_line_at s i"
  have "ls \<le> i" using assms by (simp add: in_line_def)
  then consider "i = ls" | "i = ls + 1" | "ls + 2 \<le> i" by linarith
  then show "s ! i = CHR 0x0A \<and> (i = ls \<or> (i = ls + 1 \<and> s ! ls = CHR 0x0D))"
  proof cases
    case 2
    then have "s ! ls \<noteq> CHR 0x0A" using assms by (auto simp: in_line_def)
    then show ?thesis using b 2 by (auto simp: blank_line_at_def)
  next
    case 3
    then have "s ! (i - 1) \<noteq> CHR 0x0A" "s ! (i - 2) \<noteq> CHR 0x0A" "i \<noteq> 0" "i \<noteq> 1" using assms by (auto simp: in_line_def)
    then show ?thesis using b by (auto simp: blank_line_at_def)
  qed (use b in \<open>auto simp: blank_line_at_def\<close>)
next
  assume "s ! i = CHR 0x0A \<and> (i = ls \<or> (i = ls + 1 \<and> s ! ls = CHR 0x0D))"
  then show "blank_line_at s i" using assms by (auto simp: blank_line_at_def in_line_def)
qed

lemma scan_end: "length d \<le> i \<Longrightarrow> scan_lines d ls i = Some ls"
  by (subst scan_lines.simps) simp

lemma scan_plain: "i < length d \<Longrightarrow> d ! i \<noteq> CHR 0x0A \<Longrightarrow> scan_lines d ls i = scan_lines d ls (i + 1)"
  by (subst scan_lines.simps) simp

lemma scan_blank:
  "i < length d \<Longrightarrow> d ! i = CHR 0x0A \<Longrightarrow> i = ls \<or> (i = ls + 1 \<and> d ! ls = CHR 0x0D) \<Longrightarrow> scan_lines d ls i = None"
  by (subst scan_lines.simps) auto

lemma scan_line:
  "i < length d \<Longrightarrow> d ! i = CHR 0x0A \<Longrightarrow> \<not> (i = ls \<or> (i = ls + 1 \<and> d ! ls = CHR 0x0D))
    \<Longrightarrow> scan_lines d ls i = scan_lines d (i + 1) (i + 1)"
  by (subst scan_lines.simps) auto

lemma from_next: "i < m \<Longrightarrow> (\<exists>j. i \<le> j \<and> j < m \<and> P j) \<longleftrightarrow> P i \<or> (\<exists>j. i + 1 \<le> j \<and> j < m \<and> P j)" for i m :: nat
  by (metis Suc_eq_plus1 Suc_le_eq le_neq_implies_less le_refl less_imp_le)

definition scan_result :: "string \<Rightarrow> nat \<Rightarrow> nat \<Rightarrow> nat option \<Rightarrow> bool" where
  "scan_result s m i r =
     (case r of None \<Rightarrow> \<exists>j. i \<le> j \<and> j < m \<and> blank_line_at s j
      | Some ls \<Rightarrow> \<not> (\<exists>j. i \<le> j \<and> j < m \<and> blank_line_at s j) \<and> in_line s ls m)"

lemma scan_result_next:
  assumes "i < m" and "\<not> blank_line_at s i" and "scan_result s m (i + 1) r"
  shows "scan_result s m i r"
  using assms(3) from_next [OF assms(1), of "blank_line_at s"] assms(2) by (auto simp: scan_result_def split: option.splits)

lemma scan_lines_result:
  assumes "in_line s ls i" and "m \<le> length s" and "i \<le> m" and "d = take m s"
  shows "scan_result s m i (scan_lines d ls i)"
  using assms
proof (induction d ls i rule: scan_lines.induct)
  case (1 d ls i)
  have len: "length d = m" using 1(4,6) by simp
  show ?case
  proof (cases "i < m")
    case False
    then show ?thesis using 1(3,5) by (simp add: scan_end len scan_result_def)
  next
    case True
    have "ls \<le> i" using 1(3) by (simp add: in_line_def)
    then have nth: "d ! i = s ! i" "d ! ls = s ! ls" using 1(6) True by simp_all
    consider (plain) "d ! i \<noteq> CHR 0x0A"
      | (blank) "d ! i = CHR 0x0A" "i = ls \<or> (i = ls + 1 \<and> d ! ls = CHR 0x0D)"
      | (line) "d ! i = CHR 0x0A" "\<not> (i = ls \<or> (i = ls + 1 \<and> d ! ls = CHR 0x0D))" by blast
    then show ?thesis
    proof cases
      case plain
      have "in_line s ls (i + 1)" using 1(3) plain nth by (auto simp: in_line_def less_Suc_eq)
      then have "scan_result s m (i + 1) (scan_lines d ls (i + 1))"
        using 1(1) 1(4,6) True plain len by simp
      then show ?thesis
        using scan_result_next [OF True] scan_plain [of i d ls] plain True nth by (simp add: len blank_line_at_def)
    next
      case blank
      have "blank_line_at s i" using blank_in_line [OF 1(3)] blank nth by simp
      then show ?thesis using scan_blank [of i d ls] blank True by (auto simp: len scan_result_def)
    next
      case line
      have "in_line s (i + 1) (i + 1)" using line nth by (auto simp: in_line_def)
      then have r: "scan_result s m (i + 1) (scan_lines d (i + 1) (i + 1))"
        using 1(2) 1(4,6) True line len by simp
      have "\<not> blank_line_at s i" using blank_in_line [OF 1(3)] line nth by simp
      from scan_result_next [OF True this r] show ?thesis using scan_line [of i d ls] line True len by simp
    qed
  qed
qed

text \<open>The reference: the first 64 KiB that arrive contain a blank line, or are full, or are all there is.\<close>

definition header_block :: "string \<Rightarrow> header_result" where
  "header_block s =
     (if \<exists>i < min (length s) max_http_header_bytes. blank_line_at s i then HeadersComplete
      else if length s < max_http_header_bytes then HeadersCut else HeadersTooLarge)"

lemma peek_from:
  assumes "in_line s ls n" and "n \<le> length s" and "n \<le> max_http_header_bytes" and "\<not> (\<exists>j<n. blank_line_at s j)"
  shows "peek_http_headers buffered s n ls = header_block s"
  using assms
proof (induction buffered s n ls rule: peek_http_headers.induct)
  case (1 buffered s n ls)
  consider (full) "max_http_header_bytes \<le> n" | (cut) "n < max_http_header_bytes" "length s = n"
    | (more) "n < max_http_header_bytes" "n < length s" using 1(3) by linarith
  then show ?case
  proof cases
    case full
    then have "n = max_http_header_bytes" using 1(4) by simp
    then show ?thesis using 1(3,5) by (subst peek_http_headers.simps) (auto simp: header_block_def)
  next
    case cut
    then show ?thesis using 1(5) by (subst peek_http_headers.simps) (auto simp: header_block_def)
  next
    case more
    let ?m = "available_bytes buffered s n"
    have m: "n < ?m" "?m \<le> length s" "?m \<le> max_http_header_bytes" using more by (auto simp: available_bytes_def)
    let ?d = "take ?m s"
    have len: "length ?d = ?m" using m by simp
    have r: "scan_result s ?m n (scan_lines ?d ls n)" using scan_lines_result [OF 1(2) m(2)] m(1) by simp
    have step: "peek_http_headers buffered s n ls = (case scan_lines ?d ls n of None \<Rightarrow> HeadersComplete
        | Some start \<Rightarrow> peek_http_headers buffered s ?m start)"
      using more by (subst peek_http_headers.simps) (simp add: Let_def len del: length_take cong: option.case_cong)
    show ?thesis
    proof (cases "scan_lines ?d ls n")
      case None
      then have "\<exists>i < min (length s) max_http_header_bytes. blank_line_at s i"
        using r m by (auto simp: scan_result_def) (metis le_less_trans less_le_trans min_less_iff_conj order_less_le_trans)
      then show ?thesis using step None by (simp add: header_block_def)
    next
      case (Some start)
      then have s: "in_line s start ?m" "\<not> (\<exists>j. n \<le> j \<and> j < ?m \<and> blank_line_at s j)" using r by (simp_all add: scan_result_def)
      have "\<not> (\<exists>j<?m. blank_line_at s j)" using s(2) 1(5) by (meson not_le)
      then have "peek_http_headers buffered s (length ?d) start = header_block s"
        using 1(1) [OF _ _ refl Some] s(1) m len more by simp
      then show ?thesis using step Some len by simp
    qed
  qed
qed

text \<open>However the bytes of a connection arrive, \<open>peekHTTPHeaders\<close> finds the end of the header block exactly when
  the first 64 KiB contain a blank line; it refuses a longer block and reports a stream that ends before.\<close>

lemma header_scan_ignores_chunks: "peek_http_headers buffered stream 0 0 = header_block stream"
  by (rule peek_from) (simp_all add: in_line_def)

section \<open>Sessions\<close>

text \<open>The context in which an event routes something.\<close>

fun routed_context :: "ingress_event \<Rightarrow> request_context option" where
  "routed_context (Tunnel c _) = Some c"
| "routed_context (Forward c _ _ _) = Some c"
| "routed_context (RouteSocks c _) = Some c"
| "routed_context (RoutePackets c _) = Some c"
| "routed_context _ = None"

definition routed_contexts :: "ingress_event list \<Rightarrow> request_context list" where
  "routed_contexts es = List.map_filter routed_context es"

lemma routed_contexts_simps [simp]:
  "routed_contexts [] = []"
  "routed_contexts (e # es) = (case routed_context e of None \<Rightarrow> routed_contexts es | Some c \<Rightarrow> c # routed_contexts es)"
  "routed_contexts (es @ fs) = routed_contexts es @ routed_contexts fs"
  by (simp_all add: routed_contexts_def List.map_filter_def split: option.splits)

text \<open>The session a request is entitled to: none without accounts, otherwise what the policy grants to the
  credentials in its header.\<close>

definition entitled :: "ingress \<Rightarrow> request_context \<Rightarrow> headers \<Rightarrow> request_context option" where
  "entitled h ctx hs =
     (if in_users h = [] then Some ctx
      else case proxy_credentials hs of
          None \<Rightarrow> None
        | Some (u, p) \<Rightarrow> map_option (\<lambda>key. \<lparr>rx_session = key, rx_user = Some u\<rparr>)
            (granted_session (in_digest h) (in_session_enabled h) (in_users h) u p))"

lemma sign_in_granted: "sign_in h ctx u p =
  (case granted_session (in_digest h) (in_session_enabled h) (in_users h) u p of
     None \<Rightarrow> (ctx, False) | Some key \<Rightarrow> (\<lparr>rx_session = key, rx_user = Some u\<rparr>, True))"
  by (simp add: sign_in_def authenticate_granted)

lemma identify_entitled: "identify h ctx hs = entitled h ctx hs"
  by (auto simp: identify_def entitled_def sign_in_granted split: option.splits)

section \<open>What a connection is served\<close>

text \<open>The requests that can be read, up to the first thing that is not one.\<close>

fun readable :: "incoming list \<Rightarrow> http_request list" where
  "readable (Request r # rest) = r # readable rest"
| "readable (HeaderBlock HeadersComplete # rest) = readable rest"
| "readable _ = []"

definition expectation_text :: "http_request \<Rightarrow> string" where
  "expectation_text r = trim_space (join_with '','' (header_values (rq_headers r) ''Expect''))"

definition expectation_met :: "http_request \<Rightarrow> bool" where
  "expectation_met r \<longleftrightarrow> expectation_text r = []
     \<or> equal_fold (expectation_text r) ''100-continue'' \<and> rq_http11 r \<and> (rq_body r \<longrightarrow> rq_continue_written r)"

text \<open>What makes a request one that is routed, and one after which the connection goes on.\<close>

definition routable :: "ingress \<Rightarrow> request_context \<Rightarrow> http_request \<Rightarrow> bool" where
  "routable h ctx r \<longleftrightarrow> entitled h ctx (rq_headers r) \<noteq> None
     \<and> (if rq_method r = ''CONNECT'' then in_valid h (connect_destination h r)
        else rq_host r \<noteq> [] \<and> rq_scheme r \<in> {''http'', ''https''}
          \<and> expectation_met r)"

definition keeps_open :: "http_request \<Rightarrow> bool" where
  "keeps_open r \<longleftrightarrow> rq_method r \<noteq> ''CONNECT'' \<and> \<not> rq_close r \<and> \<not> is_upgrade (rq_headers r)
     \<and> rq_response r \<noteq> None \<and> rq_response_written r"

definition goes_on :: "ingress \<Rightarrow> request_context \<Rightarrow> http_request \<Rightarrow> bool" where
  "goes_on h ctx r \<longleftrightarrow> routable h ctx r \<and> keeps_open r"

text \<open>The requests that are to be routed: all of them up to the first after which the connection does not go on, and this one
  too if it can be routed itself.\<close>

definition to_serve :: "ingress \<Rightarrow> request_context \<Rightarrow> http_request list \<Rightarrow> http_request list" where
  "to_serve h ctx rs = takeWhile (goes_on h ctx) rs
     @ (case dropWhile (goes_on h ctx) rs of r # _ \<Rightarrow> if routable h ctx r then [r] else [] | [] \<Rightarrow> [])"

lemma to_serve_simps [simp]:
  "to_serve h ctx [] = []"
  "to_serve h ctx (r # rs) = (if routable h ctx r then r # (if keeps_open r then to_serve h ctx rs else []) else [])"
  by (auto simp: to_serve_def goes_on_def)

text \<open>The headers that a forwarded request is to have, name by name.\<close>

definition forwarded_header :: "http_request \<Rightarrow> string \<Rightarrow> string list option" where
  "forwarded_header r k =
     (let hs = rq_headers r; upgrade = is_upgrade hs
      in if k \<in> {''Proxy-Authorization'', ''Proxy-Authenticate'', ''Proxy-Connection'', ''Keep-Alive'', ''Te'', ''Trailer'',
           ''Transfer-Encoding'', ''Expect''} then None
         else if k = ''Connection'' then (if upgrade then Some [''Upgrade''] else None)
         else if k = ''Upgrade'' \<and> \<not> upgrade then None
         else if \<exists>t\<in>set (connection_tokens hs). canonical_key t = k \<and> \<not> (upgrade \<and> equal_fold t ''upgrade'') then None
         else mget hs k)"

text \<open>The event a request is to cause.\<close>

fun routes :: "ingress \<Rightarrow> request_context \<Rightarrow> ingress_event \<Rightarrow> http_request \<Rightarrow> bool" where
  "routes h ctx (Tunnel c d) r \<longleftrightarrow> rq_method r = ''CONNECT'' \<and> entitled h ctx (rq_headers r) = Some c \<and> d = connect_destination h r"
| "routes h ctx (Forward c s d fh) r \<longleftrightarrow> rq_method r \<noteq> ''CONNECT'' \<and> entitled h ctx (rq_headers r) = Some c
     \<and> s = rq_scheme r \<and> d = rq_host r \<and> (\<forall>k. mget fh k = forwarded_header r k)"
| "routes h ctx _ r \<longleftrightarrow> False"

definition routed_events :: "ingress_event list \<Rightarrow> ingress_event list" where
  "routed_events es = filter (\<lambda>e. routed_context e \<noteq> None) es"

lemma routed_events_simps [simp]:
  "routed_events [] = []"
  "routed_events (e # es) = (if routed_context e = None then routed_events es else e # routed_events es)"
  "routed_events (es @ fs) = routed_events es @ routed_events fs"
  by (simp_all add: routed_events_def)

lemma hop_keys: "map canonical_key hop_headers =
    [''Proxy-Authorization'', ''Proxy-Authenticate'', ''Proxy-Connection'', ''Keep-Alive'', ''Te'', ''Trailer'', ''Transfer-Encoding'']"
  by code_simp

lemma plain_keys:
  "canonical_key ''Connection'' = ''Connection''" "canonical_key ''Upgrade'' = ''Upgrade''" "canonical_key ''Expect'' = ''Expect''"
  "canonical_key ''Proxy-Authorization'' = ''Proxy-Authorization''"
  by code_simp+

lemma mget_header_dels: "mget (fold header_del ks hs) k = (if k \<in> canonical_key ` set ks then None else mget hs k)"
  by (induction ks arbitrary: hs) (auto simp: header_del_def mget_mdel)

lemma mget_stripped:
  "mget (strip_proxy_headers hs upgrade) k =
     (if k \<in> {''Proxy-Authorization'', ''Proxy-Authenticate'', ''Proxy-Connection'', ''Keep-Alive'', ''Te'', ''Trailer'', ''Transfer-Encoding''} then None
      else if k = ''Connection'' then (if upgrade then Some [''Upgrade''] else None)
      else if k = ''Upgrade'' \<and> \<not> upgrade then None
      else if \<exists>t\<in>set (connection_tokens hs). canonical_key t = k \<and> \<not> (upgrade \<and> equal_fold t ''upgrade'') then None
      else mget hs k)"
proof -
  have hop: "canonical_key ` set hop_headers =
    {''Proxy-Authorization'', ''Proxy-Authenticate'', ''Proxy-Connection'', ''Keep-Alive'', ''Te'', ''Trailer'', ''Transfer-Encoding''}"
    unfolding set_map [symmetric] hop_keys by simp
  show ?thesis
    by (auto simp: strip_proxy_headers_def Let_def mget_header_dels hop header_set_def header_del_def mget_mput mget_mdel plain_keys)
qed

lemma without_authorization:
  "header_values (header_del ''Proxy-Authorization'' hs) ''Expect'' = header_values hs ''Expect''"
  "connection_tokens (header_del ''Proxy-Authorization'' hs) = connection_tokens hs"
  "is_upgrade (header_del ''Proxy-Authorization'' hs) = is_upgrade hs"
  by (simp_all add: is_upgrade_def header_get_def connection_tokens_def header_values_def header_del_def mget_mdel plain_keys)

lemma without_expect:
  "connection_tokens (header_del ''Expect'' hs) = connection_tokens hs" "is_upgrade (header_del ''Expect'' hs) = is_upgrade hs"
  by (simp_all add: is_upgrade_def header_get_def connection_tokens_def header_values_def header_del_def mget_mdel plain_keys)

definition kept_headers :: "http_request \<Rightarrow> headers" where
  "kept_headers r = header_del ''Expect'' (header_del ''Proxy-Authorization'' (rq_headers r))"

lemma kept_headers_facts:
  "is_upgrade (kept_headers r) = is_upgrade (rq_headers r)" "connection_tokens (kept_headers r) = connection_tokens (rq_headers r)"
  "mget (kept_headers r) k = (if k = ''Expect'' \<or> k = ''Proxy-Authorization'' then None else mget (rq_headers r) k)"
  by (simp_all add: kept_headers_def without_expect without_authorization, simp add: header_del_def mget_mdel plain_keys)

lemma expectation_facts:
  assumes "handle_expectation r (header_del ''Proxy-Authorization'' (rq_headers r)) = (es, hs, ee)"
  shows "routed_events es = []" and "ee = None \<longleftrightarrow> expectation_met r" and "ee = None \<Longrightarrow> hs = kept_headers r"
  using assms unfolding handle_expectation_def without_authorization expectation_text_def [symmetric] kept_headers_def Let_def expectation_met_def
  by (auto split: if_splits)

lemma forwarded_as:
  "mget (strip_proxy_headers (kept_headers r) (is_upgrade (kept_headers r))) k = forwarded_header r k"
  by (auto simp: mget_stripped kept_headers_facts forwarded_header_def Let_def)

lemma forward_http_cases:
  assumes "forward_http c r (kept_headers r) = (fs, fe)"
  shows "routed_events fs = [Forward c (rq_scheme r) (rq_host r) (strip_proxy_headers (kept_headers r) (is_upgrade (kept_headers r)))]"
    and "\<not> is_upgrade (rq_headers r) \<Longrightarrow> fe = None \<longleftrightarrow> rq_response r \<noteq> None \<and> rq_response_written r"
  using assms by (auto simp: forward_http_def Let_def kept_headers_facts split: option.splits if_splits)

lemma handle_http_serves:
  "list_all2 (routes h ctx) (routed_events (fst (handle_http h ctx reqs))) (to_serve h ctx (readable reqs))"
proof (induction h ctx reqs rule: handle_http.induct)
  case (8 h ctx r rest)
  show ?case
  proof (cases "entitled h ctx (rq_headers r)")
    case None
    then show ?thesis by (simp add: identify_entitled routable_def)
  next
    case (Some c)
    show ?thesis
    proof (cases "rq_method r = ''CONNECT''")
      case True
      then show ?thesis using Some by (simp add: identify_entitled routable_def keeps_open_def Let_def)
    next
      case plain: False
      show ?thesis
      proof (cases "rq_host r = [] \<or> (rq_scheme r \<noteq> ''http'' \<and> rq_scheme r \<noteq> ''https'')")
        case True
        then show ?thesis using Some plain by (auto simp: identify_entitled routable_def)
      next
        case ok: False
        show ?thesis
        proof (cases "expectation_met r")
          case False
          obtain es hs ee where ex: "handle_expectation r (header_del ''Proxy-Authorization'' (rq_headers r)) = (es, hs, ee)"
            by (metis prod_cases3)
          then obtain e where "ee = Some e" using expectation_facts(2) [OF ex] False by auto
          then show ?thesis using Some plain ok ex expectation_facts(1) [OF ex] False by (simp add: identify_entitled routable_def)
        next
          case met: True
          then obtain es where ex: "handle_expectation r (header_del ''Proxy-Authorization'' (rq_headers r)) = (es, kept_headers r, None)"
            using expectation_facts [of r] by (metis prod_cases3)
          note es = expectation_facts(1) [OF ex]
          obtain fs fe where "forward_http c r (kept_headers r) = (fs, fe)" by fastforce
          note fw = this forward_http_cases [OF this]
          have this_one: "routable h ctx r"
            "routes h ctx (Forward c (rq_scheme r) (rq_host r) (strip_proxy_headers (kept_headers r) (is_upgrade (kept_headers r)))) r"
            using Some plain ok met by (auto simp: routable_def forwarded_as)
          show ?thesis
          proof (cases "fe = None \<and> \<not> rq_close r \<and> \<not> is_upgrade (rq_headers r)")
            case True
            have "list_all2 (routes h ctx) (routed_events (fst (handle_http h ctx rest))) (to_serve h ctx (readable rest))"
              using 8 Some plain ok ex fw(1) True by (auto simp: identify_entitled kept_headers_facts)
            moreover have "keeps_open r" using fw(3) True plain by (simp add: keeps_open_def)
            ultimately show ?thesis using Some plain ok ex es fw(1,2) True this_one
              by (auto simp: identify_entitled kept_headers_facts Let_def split: prod.splits)
          next
            case False
            then have "\<not> keeps_open r" using fw(3) by (auto simp: keeps_open_def)
            moreover have "fst (handle_http h ctx (Request r # rest)) = es @ fs"
              using Some plain ok ex fw(1) False by (auto simp: identify_entitled kept_headers_facts Let_def split: option.splits)
            ultimately show ?thesis using es fw(2) this_one by simp
          qed
        qed
      qed
    qed
  qed
qed auto

lemma routes_context: "routes h ctx e r \<Longrightarrow> routed_context e = entitled h ctx (rq_headers r)"
  by (cases e) auto

lemma routed_in_own_context:
  "map routed_context (routed_events (fst (handle_http h ctx reqs)))
     = map (\<lambda>r. entitled h ctx (rq_headers r)) (to_serve h ctx (readable reqs))"
  using handle_http_serves [of h ctx reqs] routes_context by (intro nth_equalityI) (auto simp: list_all2_conv_all_nth)



section \<open>Every protocol\<close>

text \<open>The credentials that a client sent on its connection; a SOCKS4 client sends no password.\<close>

definition offered :: "char option \<Rightarrow> socks4_input \<Rightarrow> socks5_input \<Rightarrow> incoming list \<Rightarrow> (string \<times> string) list" where
  "offered first in4 in5 reqs =
     (if first = Some CHR 0x04 then (case s4_request in4 of Some (_, user, _) \<Rightarrow> [(user, [])] | None \<Rightarrow> [])
      else if first = Some CHR 0x05 then (case s5_credentials in5 of Some up \<Rightarrow> [up] | None \<Rightarrow> [])
      else List.map_filter (\<lambda>r. proxy_credentials (rq_headers r)) (readable reqs))"

text \<open>A context that a name and a password open: the account of this name, or the account whose session it names.\<close>

definition opened_by :: "ingress \<Rightarrow> request_context \<Rightarrow> string \<times> string \<Rightarrow> bool" where
  "opened_by h c up \<longleftrightarrow> (case up of (u, p) \<Rightarrow> rx_user c = Some u \<and>
     ((\<exists>a\<in>set (in_users h). ac_username a = u \<and> right_password (in_digest h) a p) \<and> rx_session c = []
      \<or> in_session_enabled h \<and> (\<forall>a\<in>set (in_users h). ac_username a \<noteq> u) \<and> rx_session c = u
        \<and> (\<exists>a\<in>set (in_users h). is_session_of (ac_username a) u \<and> right_password (in_digest h) a p)))"

lemma granted_opened:
  "granted_session (in_digest h) (in_session_enabled h) (in_users h) u p = Some key \<Longrightarrow> opened_by h \<lparr>rx_session = key, rx_user = Some u\<rparr> (u, p)"
  by (auto simp: granted_session_def opened_by_def split: if_splits)

lemma sign_in_opened: "sign_in h ctx u p = (c, True) \<Longrightarrow> opened_by h c (u, p)"
  unfolding sign_in_granted by (auto split: option.splits dest: granted_opened)

lemma entitled_opened:
  "in_users h \<noteq> [] \<Longrightarrow> entitled h ctx hs = Some c \<Longrightarrow> \<exists>up. proxy_credentials hs = Some up \<and> opened_by h c up"
  unfolding entitled_def by (auto split: option.splits dest: granted_opened)

lemma socks5_command_context: "c \<in> set (routed_contexts (fst (socks5_command ctx i))) \<Longrightarrow> c = ctx"
  by (auto simp: socks5_command_def handle_udp_associate_def split: option.splits socks_command.splits udp_outcome.splits)

lemma socks5_contexts:
  assumes "in_users h \<noteq> []" and "c \<in> set (routed_contexts (fst (handle_socks5 h ctx i)))"
  shows "\<exists>up. s5_credentials i = Some up \<and> opened_by h c up"
  using assms
  by (auto simp: handle_socks5_def before_def Let_def split: option.splits if_splits prod.splits
      dest!: socks5_command_context dest: sign_in_opened)

lemma socks4_contexts:
  assumes "in_users h \<noteq> []" and "c \<in> set (routed_contexts (fst (handle_socks4 h ctx i)))"
  shows "\<exists>connect u d. s4_request i = Some (connect, u, d) \<and> opened_by h c (u, [])"
  using assms by (auto simp: handle_socks4_def Let_def split: option.splits if_splits prod.splits dest: sign_in_opened)

lemma routed_contexts_events: "map Some (routed_contexts es) = map routed_context (routed_events es)"
  by (induction es) (auto split: option.splits)

lemma set_to_serve: "r \<in> set (to_serve h ctx rs) \<Longrightarrow> r \<in> set rs"
  by (induction rs) (auto split: if_splits)

lemma http_contexts:
  assumes "in_users h \<noteq> []" and "c \<in> set (routed_contexts (fst (handle_http h ctx reqs)))"
  shows "\<exists>r\<in>set (readable reqs). \<exists>up. proxy_credentials (rq_headers r) = Some up \<and> opened_by h c up"
proof -
  have "map Some (routed_contexts (fst (handle_http h ctx reqs)))
      = map (\<lambda>r. entitled h ctx (rq_headers r)) (to_serve h ctx (readable reqs))"
    unfolding routed_contexts_events by (rule routed_in_own_context)
  then have "Some c \<in> set (map (\<lambda>r. entitled h ctx (rq_headers r)) (to_serve h ctx (readable reqs)))"
    using assms(2) by (metis imageI list.set_map)
  then obtain r where r: "r \<in> set (to_serve h ctx (readable reqs))" "Some c = entitled h ctx (rq_headers r)" by auto
  have "r \<in> set (readable reqs)" "entitled h ctx (rq_headers r) = Some c" using set_to_serve [OF r(1)] r(2) by simp_all
  then show ?thesis using entitled_opened [OF assms(1)] by blast
qed

text \<open>C5: With accounts configured, nothing is routed for a client of any protocol unless it sent a name and the password that opens this
  name, and it is routed as the user of that name: without a session when the name is an account, and in the session the name
  spells when it is an account name with a session suffix, no account of its own, and sessions are enabled.\<close>

theorem only_granted_sessions_are_routed:
  assumes "in_users h \<noteq> []"
    and "c \<in> set (routed_contexts (fst (new_connection h ctx cancelled tls first in4 in5 reqs)))"
  shows "\<exists>up\<in>set (offered first in4 in5 reqs). opened_by h c up"
proof (cases first)
  case None
  then show ?thesis using assms(2) by (auto simp: new_connection_def split: if_splits)
next
  case (Some b)
  consider "b = CHR 0x04" "c \<in> set (routed_contexts (fst (handle_socks4 h ctx in4)))"
    | "b = CHR 0x05" "c \<in> set (routed_contexts (fst (handle_socks5 h ctx in5)))"
    | "b \<noteq> CHR 0x04" "b \<noteq> CHR 0x05" "c \<in> set (routed_contexts (fst (handle_http h ctx reqs)))"
    using assms(2) Some by (auto simp: new_connection_def split: if_splits)
  then show ?thesis
  proof cases
    case 1
    then show ?thesis using socks4_contexts [OF assms(1)] Some by (force simp: offered_def)
  next
    case 2
    then show ?thesis using socks5_contexts [OF assms(1)] Some by (force simp: offered_def)
  next
    case 3
    then show ?thesis using http_contexts [OF assms(1) 3(3)] Some by (force simp: offered_def List.map_filter_def)
  qed
qed

section \<open>Forwarded headers\<close>

text \<open>C32: Whatever is forwarded is a request the client sent, at the same place among those to serve, to the same host. It carries none of
  the headers that concern the proxy or the hop (credentials, \<open>TE\<close>, \<open>Transfer-Encoding\<close> and the others listed), none that its own
  \<open>Connection\<close> header named, as \<open>Connection\<close> header nothing or, when it asks for an upgrade, \<open>Upgrade\<close>; every other
  header is as the client sent it.\<close>

theorem forwarded_headers_are_clean:
  assumes "i < length (routed_events (fst (handle_http h ctx reqs)))"
    and "routed_events (fst (handle_http h ctx reqs)) ! i = Forward c s d fh"
  shows "\<exists>r. i < length (to_serve h ctx (readable reqs)) \<and> r = to_serve h ctx (readable reqs) ! i \<and> rq_method r \<noteq> ''CONNECT''
    \<and> s = rq_scheme r \<and> d = rq_host r
    \<and> (\<forall>k. mget fh k =
         (if k \<in> {''Proxy-Authorization'', ''Proxy-Authenticate'', ''Proxy-Connection'', ''Keep-Alive'', ''Te'', ''Trailer'',
             ''Transfer-Encoding'', ''Expect''} then None
          else if k = ''Connection'' then (if is_upgrade (rq_headers r) then Some [''Upgrade''] else None)
          else if k = ''Upgrade'' \<and> \<not> is_upgrade (rq_headers r) then None
          else if \<exists>t\<in>set (connection_tokens (rq_headers r)). canonical_key t = k \<and> \<not> (is_upgrade (rq_headers r) \<and> equal_fold t ''upgrade'')
          then None else mget (rq_headers r) k))"
proof -
  have "i < length (to_serve h ctx (readable reqs))" "routes h ctx (Forward c s d fh) (to_serve h ctx (readable reqs) ! i)"
    using handle_http_serves [of h ctx reqs] assms by (auto simp: list_all2_conv_all_nth)
  then show ?thesis by (intro exI [of _ "to_serve h ctx (readable reqs) ! i"]) (simp add: forwarded_header_def Let_def)
qed

section \<open>UDP and the tunnel's answer\<close>

text \<open>What an association delivers comes from the client's address, and after the first datagram from one port.\<close>

lemma read_from_pins:
  "read_from source peer as = Some (a, peer', rest) \<Longrightarrow> peer' = Some a \<and> (peer = None \<or> peer = Some a) \<and> (source = None \<or> source = Some (fst a))"
  by (induction source peer as rule: read_from.induct) (auto simp: Let_def split: if_splits option.splits)

lemma tunnel_replies_once: "snd (handshake_success (fst (handshake_failure replied))) = []"
  "snd (handshake_failure (fst (handshake_success replied))) = []"
  by (simp_all add: handshake_success_def handshake_failure_def)

section \<open>Concrete connections\<close>

definition sample_ingress :: ingress where
  "sample_ingress = \<lparr>in_users = [\<lparr>ac_username = ''wang'', ac_password = ''pw''\<rparr>, \<lparr>ac_username = ''wang.b'', ac_password = ''p2''\<rparr>],
     in_session_enabled = True, in_digest = id, in_parse = (\<lambda>s. \<lparr>ds_host = s, ds_port = 0\<rparr>), in_valid = (\<lambda>_. True)\<rparr>"

definition no_context :: request_context where "no_context = \<lparr>rx_session = [], rx_user = None\<rparr>"

definition session_request :: http_request where
  "session_request = \<lparr>rq_method = ''GET'', rq_scheme = ''http'', rq_host = ''h'',
     rq_headers = [(''Proxy-Authorization'', [''Basic d2FuZy5hOnB3'']), (''Connection'', [''close, X-Hop'']), (''X-Hop'', [''1'']), (''Te'', [''gzip''])],
     rq_close = True, rq_http11 = True, rq_body = False, rq_continue_written = True, rq_response = None, rq_response_written = True\<rparr>"

lemma session_request_forwarded:
  "handle_http sample_ingress no_context [HeaderBlock HeadersComplete, Request session_request] =
     ([Forward \<lparr>rx_session = ''wang.a'', rx_user = Some ''wang.a''\<rparr> ''http'' ''h'' [], Reply 502], False, Some ForwardingFailed)"
  by code_simp

text \<open>The name of an account is not a session of another, whatever the password.\<close>

lemma account_name_is_no_session:
  "sign_in sample_ingress no_context ''wang.b'' ''pw'' = (no_context, False)"
  "sign_in sample_ingress no_context ''wang.b'' ''p2'' = (\<lparr>rx_session = [], rx_user = Some ''wang.b''\<rparr>, True)"
  by code_simp+

theorem forwarded_headers_are_clean_witness:
  "\<exists>r. r = session_request \<and> mget (rq_headers r) ''X-Hop'' = Some [''1''] \<and> ''h'' = rq_host r"
proof -
  let ?reqs = "[HeaderBlock HeadersComplete, Request session_request]"
  let ?e = "Forward \<lparr>rx_session = ''wang.a'', rx_user = Some ''wang.a''\<rparr> ''http'' ''h'' []"
  have events: "routed_events (fst (handle_http sample_ingress no_context ?reqs)) = [?e]"
    unfolding session_request_forwarded by simp
  have serve: "to_serve sample_ingress no_context (readable ?reqs) = [session_request]" by code_simp
  have "\<exists>r. 0 < length (to_serve sample_ingress no_context (readable ?reqs))
      \<and> r = to_serve sample_ingress no_context (readable ?reqs) ! 0 \<and> ''h'' = rq_host r"
    using forwarded_headers_are_clean [of 0 sample_ingress no_context ?reqs, unfolded events] by auto
  then show ?thesis unfolding serve by (simp add: session_request_def)
qed




definition no_socks4 :: socks4_input where "no_socks4 = \<lparr>s4_version_ok = False, s4_request = None\<rparr>"

definition socks5_session :: socks5_input where
  "socks5_session = \<lparr>s5_methods = Some [0, 2], s5_method_written = True, s5_credentials = Some (''wang.a'', ''pw''),
     s5_status_written = True, s5_request = Some (SocksConnect, \<lparr>ds_host = ''h'', ds_port = 80\<rparr>), s5_udp = NoListener\<rparr>"

lemma socks5_session_routed:
  "new_connection sample_ingress no_context False None (Some CHR 0x05) no_socks4 socks5_session [] =
     ([MethodReply 2, StatusReply True, RouteSocks \<lparr>rx_session = ''wang.a'', rx_user = Some ''wang.a''\<rparr> \<lparr>ds_host = ''h'', ds_port = 80\<rparr>],
      True, None)"
  by code_simp

theorem only_granted_sessions_are_routed_witness:
  "opened_by sample_ingress \<lparr>rx_session = ''wang.a'', rx_user = Some ''wang.a''\<rparr> (''wang.a'', ''pw'')"
proof -
  let ?c = "\<lparr>rx_session = ''wang.a'', rx_user = Some ''wang.a''\<rparr>"
  have "in_users sample_ingress \<noteq> []" by (simp add: sample_ingress_def)
  moreover have "?c \<in> set (routed_contexts (fst (new_connection sample_ingress no_context False None (Some CHR 0x05) no_socks4 socks5_session [])))"
    unfolding socks5_session_routed by simp
  ultimately have "\<exists>up\<in>set (offered (Some CHR 0x05) no_socks4 socks5_session []). opened_by sample_ingress ?c up"
    by (rule only_granted_sessions_are_routed)
  then show ?thesis by (simp add: offered_def socks5_session_def)
qed

end
