(* ===== verification/GeoFacts.thy ===== *)
theory GeoFacts
  imports GeoRegion
begin

text \<open>
  What region lookup guarantees: the cache is bounded and, whatever the interleaving with updates, never
  answers from a replaced database; the host that is looked up is the server that is dialled.
\<close>

section \<open>The cache\<close>

text \<open>A region that is an answer of this database.\<close>

definition answer_of :: "region_db \<Rightarrow> region_info \<Rightarrow> bool" where
  "answer_of d info \<longleftrightarrow> info = unknown_region \<or> (\<exists>a. info = lookup_ip (Some d) a)"

definition cache_fresh :: "geo_state \<Rightarrow> bool" where
  "cache_fresh l \<longleftrightarrow> (\<forall>h c d. mget (gl_cache l) h = Some c \<longrightarrow> gl_db l = Some d \<longrightarrow> answer_of d (cr_info c))"

definition flight_epoch :: "flight \<Rightarrow> nat option" where
  "flight_epoch f = (case f of Reading \<Rightarrow> None | AtEpoch e \<Rightarrow> Some e | WithAddress a e \<Rightarrow> Some e | WithRegion i e \<Rightarrow> Some e)"

definition flight_ok :: "geo_state \<Rightarrow> flight \<Rightarrow> bool" where
  "flight_ok l f \<longleftrightarrow>
     (\<forall>e. flight_epoch f = Some e \<longrightarrow> e \<le> gl_epoch l)
     \<and> (\<forall>info e d. f = WithRegion info e \<longrightarrow> e = gl_epoch l \<longrightarrow> gl_db l = Some d \<longrightarrow> answer_of d info)"

definition geo_inv :: "geo_system \<Rightarrow> bool" where
  "geo_inv s \<longleftrightarrow> gomap_ok (gl_cache (gs_lookup s)) \<and> length (gl_cache (gs_lookup s)) \<le> max_dns_entries
     \<and> cache_fresh (gs_lookup s) \<and> (\<forall>h f. mget (gs_flights s) h = Some f \<longrightarrow> flight_ok (gs_lookup s) f)"

lemma geo_invD:
  assumes "geo_inv s"
  shows "gomap_ok (gl_cache (gs_lookup s))" and "length (gl_cache (gs_lookup s)) \<le> max_dns_entries"
    and "cache_fresh (gs_lookup s)" and "\<And>h f. mget (gs_flights s) h = Some f \<Longrightarrow> flight_ok (gs_lookup s) f"
  using assms by (auto simp: geo_inv_def)

lemma cache_store_fields [simp]:
  "gl_db (cache_host_at_epoch h info ttl e now l) = gl_db l" "gl_epoch (cache_host_at_epoch h info ttl e now l) = gl_epoch l"
  by (simp_all add: cache_host_at_epoch_def Let_def)

lemma mget_tl: "gomap_ok m \<Longrightarrow> mget (tl m) k = Some v \<Longrightarrow> mget m k = Some v"
proof (cases m)
  case (Cons p m')
  assume "gomap_ok m" "mget (tl m) k = Some v"
  then show ?thesis using Cons mget_Some_key [of m' k v] by (cases p) (auto simp: gomap_ok_def)
qed simp

lemma gomap_ok_tl: "gomap_ok m \<Longrightarrow> gomap_ok (tl m)"
  by (cases m) (simp_all add: gomap_ok_def)

lemma cache_store_ok:
  assumes "gomap_ok (gl_cache l)" and "length (gl_cache l) \<le> max_dns_entries" and "cache_fresh l"
    and "\<And>d. e = gl_epoch l \<Longrightarrow> gl_db l = Some d \<Longrightarrow> answer_of d info"
  shows "gomap_ok (gl_cache (cache_host_at_epoch h info ttl e now l))
    \<and> length (gl_cache (cache_host_at_epoch h info ttl e now l)) \<le> max_dns_entries
    \<and> cache_fresh (cache_host_at_epoch h info ttl e now l)"
proof (cases "gl_epoch l = e")
  case True
  let ?kept = "if max_dns_entries \<le> length (gl_cache l) then tl (gl_cache l) else gl_cache l"
  have kept: "gomap_ok ?kept" "length ?kept < max_dns_entries" "\<And>k c. mget ?kept k = Some c \<Longrightarrow> mget (gl_cache l) k = Some c"
    using assms(1,2) gomap_ok_tl mget_tl by (auto simp: max_dns_entries_def split: if_splits)
  have cache: "gl_cache (cache_host_at_epoch h info ttl e now l) = mput h \<lparr>cr_info = info, cr_expires = now + ttl\<rparr> ?kept"
    using True by (simp add: cache_host_at_epoch_def Let_def)
  have "answer_of d (cr_info c)" if "mget (mput h \<lparr>cr_info = info, cr_expires = now + ttl\<rparr> ?kept) k = Some c" "gl_db l = Some d" for k c d
  proof (cases "k = h")
    case True
    then show ?thesis using that assms(4) \<open>gl_epoch l = e\<close> by (auto simp: mget_mput)
  next
    case False
    then show ?thesis using that kept(3) assms(3) by (simp only: mget_mput cache_fresh_def if_False) blast
  qed
  moreover have "length (mput h \<lparr>cr_info = info, cr_expires = now + ttl\<rparr> ?kept) \<le> max_dns_entries"
    using kept(2) length_mput [of h _ ?kept] by simp
  ultimately show ?thesis unfolding cache cache_fresh_def using kept(1) by simp
next
  case False
  then show ?thesis using assms by (simp add: cache_host_at_epoch_def)
qed

lemma geo_inv_store:
  assumes inv: "geo_inv s" and "\<And>d. e = gl_epoch (gs_lookup s) \<Longrightarrow> gl_db (gs_lookup s) = Some d \<Longrightarrow> answer_of d info"
  shows "geo_inv (s\<lparr>gs_lookup := cache_host_at_epoch h info ttl e now (gs_lookup s), gs_flights := mdel h (gs_flights s)\<rparr>)"
proof -
  have f: "flight_ok (cache_host_at_epoch h info ttl e now (gs_lookup s)) f = flight_ok (gs_lookup s) f" for f
    by (simp add: flight_ok_def)
  note store = cache_store_ok [OF geo_invD(1-3) [OF inv] assms(2), of e h ttl now]
  show ?thesis using store geo_invD(4) [OF inv] by (simp add: geo_inv_def mget_mdel f)
qed

lemma geo_inv_flight:
  assumes "geo_inv s" and "flight_ok (gs_lookup s) f"
  shows "geo_inv (s\<lparr>gs_flights := mput h f (gs_flights s)\<rparr>)"
  using assms by (auto simp: geo_inv_def mget_mput)

lemma geo_step_inv: "geo_step s s' \<Longrightarrow> geo_inv s \<Longrightarrow> geo_inv s'"
proof (induction rule: geo_step.induct)
  case (begin_flight s h now)
  then show ?case by (intro geo_inv_flight) (simp_all add: flight_ok_def flight_epoch_def)
next
  case (found_cached s h now info)
  then show ?case by (auto simp: geo_inv_def mget_mdel)
next
  case (read_epoch s h)
  then show ?case by (intro geo_inv_flight) (simp_all add: flight_ok_def flight_epoch_def)
next
  case (resolved s h e a)
  have "flight_ok (gs_lookup s) (AtEpoch e)" by (rule geo_invD(4) [OF resolved(2,1)])
  then show ?case by (intro geo_inv_flight [OF resolved(2)]) (simp add: flight_ok_def flight_epoch_def)
next
  case (unresolved s h e now)
  then show ?case by (intro geo_inv_store) (simp_all add: answer_of_def)
next
  case (looked_up s h a e)
  have "flight_ok (gs_lookup s) (WithAddress a e)" by (rule geo_invD(4) [OF looked_up(2,1)])
  then show ?case by (intro geo_inv_flight [OF looked_up(2)]) (auto simp: flight_ok_def flight_epoch_def answer_of_def)
next
  case (landed s h info e now)
  have "flight_ok (gs_lookup s) (WithRegion info e)" by (rule geo_invD(4) [OF landed(2,1)])
  then show ?case by (intro geo_inv_store [OF landed(2)]) (simp add: flight_ok_def)
next
  case (updated s d)
  have old: "\<And>h f e. mget (gs_flights s) h = Some f \<Longrightarrow> flight_epoch f = Some e \<Longrightarrow> e \<le> gl_epoch (gs_lookup s)"
    using geo_invD(4) [OF updated] by (auto simp: flight_ok_def)
  have fresh: "flight_ok (gs_lookup s\<lparr>gl_db := Some db, gl_epoch := gl_epoch (gs_lookup s) + 1, gl_cache := []\<rparr>) f"
    if "mget (gs_flights s) h = Some f" for h f db
    using old [OF that] by (fastforce simp: flight_ok_def flight_epoch_def)
  show ?case
  proof (cases "snd (update_database d (gs_lookup s)) = gs_lookup s")
    case False
    then obtain db where "snd (update_database d (gs_lookup s)) =
        gs_lookup s\<lparr>gl_db := Some db, gl_epoch := gl_epoch (gs_lookup s) + 1, gl_cache := []\<rparr>"
      by (auto simp: update_database_def split: if_splits download.splits)
    then show ?thesis using fresh by (simp add: geo_inv_def cache_fresh_def)
  qed (use updated in simp)
next
  case (closed s)
  then show ?case by (auto simp: geo_inv_def close_lookup_def cache_fresh_def flight_ok_def)
qed

lemma geo_reachable_inv: "geo_reachable s \<Longrightarrow> geo_inv s"
proof (induction rule: geo_reachable.induct)
  case (start path opened l)
  then show ?case by (auto simp: new_lookup_def geo_inv_def cache_fresh_def max_dns_entries_def split: if_splits)
qed (rule geo_step_inv)

text \<open>In every interleaving of lookups, database updates and the end of the lookup, the cache has at most 4096
  entries, and every region it holds is an answer of the database that is open now: no update lets the
  answer of a replaced database in.\<close>

lemma region_cache_is_fresh:
  assumes "geo_reachable s"
  shows "length (gl_cache (gs_lookup s)) \<le> max_dns_entries \<and> cache_fresh (gs_lookup s)"
  using geo_invD [OF geo_reachable_inv [OF assms]] by blast

section \<open>The host that is looked up\<close>

lemma host_port_server: "host_port u d = Inr (s, p) \<Longrightarrow> s = url_hostname u"
  by (auto simp: host_port_def Let_def split: if_splits option.splits)

lemma hysteria2_host_port_server: "hysteria2_host_port u d = Inr (s, p, ps) \<Longrightarrow> s = url_hostname u"
  by (auto simp: hysteria2_host_port_def Let_def split: if_splits option.splits)

lemma add_transport_tls_server: "add_transport_tls q skip ob = Inr ob' \<Longrightarrow> o_server ob' = o_server ob"
  by (auto simp: add_transport_tls_def Let_def split: sum.splits)

lemma new_outbound_server [simp]: "o_server (new_outbound t s p) = s"
  by (simp add: new_outbound_def)

lemma build_vless_server: "build_vless_options u skip = Inr ob \<Longrightarrow> o_server ob = url_hostname u"
  by (auto simp: build_vless_options_def Let_def split: sum.splits if_splits prod.splits
      dest!: add_transport_tls_server host_port_server)

lemma build_hysteria2_server: "build_hysteria2_options pd u skip = Inr ob \<Longrightarrow> o_server ob = url_hostname u"
  by (auto simp: build_hysteria2_options_def Let_def split: sum.splits if_splits prod.splits
      dest!: hysteria2_host_port_server)

lemma build_trojan_server: "build_trojan_options u skip = Inr ob \<Longrightarrow> o_server ob = url_hostname u"
  by (auto simp: build_trojan_options_def Let_def split: sum.splits if_splits prod.splits dest!: host_port_server)

lemma build_anytls_server: "build_anytls_options u skip = Inr ob \<Longrightarrow> o_server ob = url_hostname u"
  by (auto simp: build_anytls_options_def Let_def split: sum.splits if_splits prod.splits dest!: host_port_server)

lemma build_tuic_server: "build_tuic_options u skip = Inr ob \<Longrightarrow> o_server ob = url_hostname u"
  by (auto simp: build_tuic_options_def Let_def split: sum.splits if_splits prod.splits dest!: host_port_server)

lemma build_socks_server: "build_socks_options u = Inr ob \<Longrightarrow> o_server ob = url_hostname u"
  by (auto simp: build_socks_options_def Let_def split: sum.splits if_splits prod.splits dest!: host_port_server)

lemma build_http_server: "build_http_proxy_options u skip = Inr ob \<Longrightarrow> o_server ob = url_hostname u"
  by (auto simp: build_http_proxy_options_def Let_def split: sum.splits if_splits prod.splits dest!: host_port_server)

lemma build_hysteria_server: "build_hysteria_options u skip = Inr ob \<Longrightarrow> o_server ob = url_hostname u"
  by (auto simp: build_hysteria_options_def Let_def split: sum.splits if_splits prod.splits dest!: host_port_server)

lemma build_shadowsocks_server: "build_shadowsocks_options raw = Inr ob \<Longrightarrow> o_server ob = extract_ss_host raw"
  by (auto simp: build_shadowsocks_options_def extract_ss_host_def Let_def split: sum.splits if_splits)

lemmas build_servers = build_vless_server build_hysteria2_server build_trojan_server build_anytls_server
  build_tuic_server build_socks_server build_http_server build_hysteria_server

lemma build_by_scheme_server:
  assumes "build_by_scheme json pd raw u skip = Inr ob" and "to_lower (u_scheme u) \<notin> {''vmess'', ''ssr'', ''shadowsocksr''}"
  shows "o_server ob = url_hostname u"
  using assms by (auto simp: build_by_scheme_def Let_def split: if_splits dest: build_servers)

text \<open>URIs whose host both sides read from the URL itself.\<close>

definition host_in_url :: "string \<Rightarrow> bool" where
  "host_in_url raw \<longleftrightarrow> \<not> has_prefix (to_lower raw) ''vmess://'' \<and> \<not> has_prefix (to_lower raw) ''ssr://''
     \<and> (case url_parse raw of None \<Rightarrow> False | Some u \<Rightarrow> to_lower (u_scheme u) \<notin> {''vmess'', ''ssr'', ''shadowsocksr''})"

lemma ss_no_vmess: "is_shadowsocks_uri raw \<Longrightarrow> \<not> has_prefix (to_lower raw) ''vmess://''"
  by (auto simp: is_shadowsocks_uri_def has_prefix_iff)

text \<open>The region of a node is looked up under the server its outbound dials: for a Shadowsocks node, and for any
  other whose URI is a URL with a scheme other than VMess and ShadowsocksR, the host that
  \<open>extractHostFromURI\<close> finds is the server \<open>buildNodeOutbound\<close> sets.\<close>

lemma region_host_is_the_server:
  assumes "build_node_outbound json pd tag raw skip = Inr ob" and "is_shadowsocks_uri raw \<or> host_in_url raw"
  shows "extract_host json_add raw = o_server ob"
proof (cases "is_shadowsocks_uri raw")
  case True
  then have "map_sum id (\<lambda>ob. ob\<lparr>o_tag := tag\<rparr>) (build_shadowsocks_options raw) = Inr ob"
    using assms(1) by (simp add: build_node_outbound_def)
  then obtain ob' where "build_shadowsocks_options raw = Inr ob'" "o_server ob = o_server ob'"
    by (cases "build_shadowsocks_options raw") auto
  then show ?thesis
    using True ss_no_vmess [OF True] build_shadowsocks_server
    by (auto simp: extract_host_def Let_def is_shadowsocks_uri_def)
next
  case False
  then obtain u where u: "url_parse raw = Some u" "to_lower (u_scheme u) \<notin> {''vmess'', ''ssr'', ''shadowsocksr''}"
    "\<not> has_prefix (to_lower raw) ''vmess://''" "\<not> has_prefix (to_lower raw) ''ssr://''"
    using assms(2) by (auto simp: host_in_url_def split: option.splits)
  have "map_sum id (\<lambda>ob. ob\<lparr>o_tag := tag\<rparr>) (build_by_scheme json pd raw u skip) = Inr ob"
    using assms(1) False u(1) by (simp add: build_node_outbound_def parse_node_uri_def)
  then obtain ob' where "build_by_scheme json pd raw u skip = Inr ob'" "o_server ob = o_server ob'"
    by (cases "build_by_scheme json pd raw u skip") auto
  then have "o_server ob = url_hostname u" using build_by_scheme_server u(2) by metis
  moreover have "extract_host json_add raw = url_hostname u"
    using False u by (simp add: extract_host_def Let_def is_shadowsocks_uri_def url_host_of_def)
  ultimately show ?thesis by simp
qed

section \<open>Concrete lookups\<close>

lemma region_host_is_the_server_example:
  "\<exists>ob. build_node_outbound (\<lambda>_. None) (\<lambda>_. None) ''t'' ''socks5://h1:1080'' False = Inr ob
     \<and> extract_host (\<lambda>_. None) ''socks5://h1:1080'' = o_server ob \<and> o_server ob = ''h1''"
proof -
  have "case build_node_outbound (\<lambda>_. None) (\<lambda>_. None) ''t'' ''socks5://h1:1080'' False of
      Inl _ \<Rightarrow> False | Inr ob \<Rightarrow> o_server ob = ''h1''" by code_simp
  then obtain ob where ob: "build_node_outbound (\<lambda>_. None) (\<lambda>_. None) ''t'' ''socks5://h1:1080'' False = Inr ob"
    "o_server ob = ''h1''" by (auto split: sum.splits)
  have "host_in_url ''socks5://h1:1080''" by code_simp
  then have "extract_host (\<lambda>_. None) ''socks5://h1:1080'' = o_server ob" by (intro region_host_is_the_server [OF ob(1)] disjI2)
  then show ?thesis using ob by blast
qed

text \<open>A Hysteria2 node with port hopping has an outbound but no host for the lookup.\<close>

lemma hopping_node_has_no_region:
  "extract_host (\<lambda>_. None) ''hysteria2://p@h1:443,5000-6000'' = []"
  "case parse_node_uri ''hysteria2://p@h1:443,5000-6000'' of None \<Rightarrow> False | Some u \<Rightarrow> url_hostname u = ''h1''"
  by code_simp+

definition sample_db :: region_db where "sample_db a = (if a = ''1.1.1.1'' then Some (''jp'', ''Japan'') else None)"

definition sample_lookup :: geo_state where
  "sample_lookup = \<lparr>gl_db = Some sample_db, gl_path = ''g'', gl_cache = [], gl_epoch = 0, gl_closed = False\<rparr>"

text \<open>A lookup that read its epoch before an update and landed after it.\<close>

definition stale_landing :: geo_system where
  "stale_landing = \<lparr>gs_lookup = snd (update_database (Downloaded (\<lambda>_. None)) sample_lookup), gs_flights = []\<rparr>"

lemma stale_landing_reachable: "geo_reachable stale_landing"
proof -
  let ?s0 = "\<lparr>gs_lookup = sample_lookup, gs_flights = []\<rparr>"
  let ?info = "lookup_ip (Some sample_db) ''1.1.1.1''"
  let ?s1 = "?s0\<lparr>gs_flights := [(''h'', Reading)]\<rparr>"
  let ?s2 = "?s0\<lparr>gs_flights := [(''h'', AtEpoch 0)]\<rparr>"
  let ?s3 = "?s0\<lparr>gs_flights := [(''h'', WithAddress ''1.1.1.1'' 0)]\<rparr>"
  let ?s4 = "?s0\<lparr>gs_flights := [(''h'', WithRegion ?info 0)]\<rparr>"
  let ?l5 = "snd (update_database (Downloaded (\<lambda>_. None)) sample_lookup)"
  have "geo_reachable ?s0" by (rule geo_reachable.start [of "''g''" "Some sample_db"]) (simp add: new_lookup_def sample_lookup_def)
  moreover have "geo_step ?s0 ?s1"
    using geo_step.begin_flight [of ?s0 "''h''" 0] by (simp add: geo_enabled_def sample_lookup_def cached_host_def)
  moreover have "geo_step ?s1 ?s2" using geo_step.read_epoch [of ?s1 "''h''"] by (simp add: sample_lookup_def)
  moreover have "geo_step ?s2 ?s3" using geo_step.resolved [of ?s2 "''h''" 0 "''1.1.1.1''"] by simp
  moreover have "geo_step ?s3 ?s4"
    using geo_step.looked_up [of ?s3 "''h''" "''1.1.1.1''" 0] by (simp add: sample_lookup_def)
  moreover have "geo_step ?s4 (?s4\<lparr>gs_lookup := ?l5\<rparr>)"
    using geo_step.updated [of ?s4 "Downloaded (\<lambda>_. None)"] by simp
  moreover have "geo_step (?s4\<lparr>gs_lookup := ?l5\<rparr>) stale_landing"
    using geo_step.landed [of "?s4\<lparr>gs_lookup := ?l5\<rparr>" "''h''" ?info 0 0]
    by (simp add: stale_landing_def cache_host_at_epoch_def update_database_def sample_lookup_def)
  ultimately show ?thesis by (meson geo_reachable.next_step)
qed

lemma region_cache_is_fresh_example: "cache_fresh (gs_lookup stale_landing)"
  using region_cache_is_fresh [OF stale_landing_reachable] by blast

end
