(* ===== verification/GeoRouter.thy ===== *)
theory GeoRouter
  imports GeoRegion SessionIngress GoUrlFacts
begin

text \<open>
  The region router, \<open>internal/geoip/router.go\<close>: an HTTP proxy that sends a request through the pool of the region
  named in a header, in the CONNECT authority or in the path. Dialers and connections are numbers; what
  listening, dialling, hijacking and the transport answer are inputs of the operations.
\<close>

section \<open>State\<close>

record router_config =
  rt_listen :: string
  rt_port :: "16 word"
  rt_username :: string
  rt_password :: string

record region_router =
  rr_cfg :: router_config
  rr_pools :: "(string, nat) gomap"
  rr_global :: "nat option"
  rr_transports :: "nat list"
  rr_server :: bool
  rr_closed :: bool
  rr_tunnels :: "(nat, nat) gomap"

definition new_router :: "router_config \<Rightarrow> region_router" where
  "new_router cfg = \<lparr>rr_cfg = cfg, rr_pools = [], rr_global = None, rr_transports = [], rr_server = False, rr_closed = False,
     rr_tunnels = []\<rparr>"

definition set_pool :: "string \<Rightarrow> nat \<Rightarrow> region_router \<Rightarrow> region_router" where
  "set_pool region d r = r\<lparr>rr_pools := mput region d (rr_pools r), rr_transports := []\<rparr>"

definition set_global_pool :: "nat option \<Rightarrow> region_router \<Rightarrow> region_router" where
  "set_global_pool d r = r\<lparr>rr_global := d, rr_transports := []\<rparr>"

datatype router_error = AlreadyStarted | RouterCancelled | ListenFailed | ShutdownFailed

definition start_router_server :: "bool \<Rightarrow> bool \<Rightarrow> region_router \<Rightarrow> router_error option \<times> region_router" where
  "start_router_server cancelled listen_ok r =
     (if rr_closed r \<or> rr_server r then (Some AlreadyStarted, r)
      else if cancelled then (Some RouterCancelled, r)
      else if \<not> listen_ok then (Some ListenFailed, r)
      else (None, r\<lparr>rr_server := True\<rparr>))"

text \<open>\<open>Stop\<close> closes both ends of every tunnel; the third result lists them.\<close>

definition stop_router_server ::
  "bool \<Rightarrow> region_router \<Rightarrow> router_error option \<times> region_router \<times> (nat \<times> nat) list" where
  "stop_router_server shutdown_ok r =
     (if rr_closed r then (None, r, [])
      else (if rr_server r \<and> \<not> shutdown_ok then Some ShutdownFailed else None,
            r\<lparr>rr_closed := True, rr_transports := []\<rparr>, rr_tunnels r))"

section \<open>Requests\<close>

record router_request =
  rr_method :: string
  rr_host :: string
  rr_url :: url
  rr_headers :: headers

definition region_header :: string where "region_header = ''X-Easyproxy-Region''"

text \<open>The same reading of the header as in the session ingress, against one account.\<close>

definition check_proxy_auth :: "router_config \<Rightarrow> headers \<Rightarrow> bool" where
  "check_proxy_auth cfg hs =
     (case proxy_credentials hs of Some (u, p) \<Rightarrow> u = rt_username cfg \<and> p = rt_password cfg | None \<Rightarrow> False)"

definition drop_region_path :: "string \<Rightarrow> url \<Rightarrow> url" where
  "drop_region_path prefix u =
     (let escaped = escaped_path u
      in u\<lparr>u_path := ''/'' @ trim_prefix (u_path u) prefix,
           u_raw_path := (if has_prefix escaped prefix then ''/'' @ trim_prefix escaped prefix else [])\<rparr>)"

definition in_region_path :: "string \<Rightarrow> string \<Rightarrow> bool" where
  "in_region_path path reg \<longleftrightarrow> has_prefix path (''/'' @ reg @ ''/'') \<or> path = ''/'' @ reg"

definition parse_region_path :: "url \<Rightarrow> string \<times> url" where
  "parse_region_path u =
     (case find (in_region_path (u_path u)) all_regions of
        None \<Rightarrow> ([], u)
      | Some reg \<Rightarrow>
          if has_prefix (u_path u) (''/'' @ reg @ ''/'') then (reg, drop_region_path (''/'' @ reg @ ''/'') u)
          else (reg, u\<lparr>u_path := ''/'', u_raw_path := []\<rparr>))"

definition connect_authority :: "router_request \<Rightarrow> string" where
  "connect_authority q =
     (if u_host (rr_url q) \<noteq> [] \<and> u_path (rr_url q) \<noteq> [] then u_host (rr_url q) @ u_path (rr_url q) else rr_host q)"

definition parse_connect :: "string \<Rightarrow> string \<times> string" where
  "parse_connect host =
     (case find (\<lambda>reg. has_prefix host (reg @ ''/'')) all_regions of
        Some reg \<Rightarrow> (reg, trim_prefix host (reg @ ''/''))
      | None \<Rightarrow> ([], host))"

text \<open>Region, target and the request as it goes on; nothing for a region that does not exist.\<close>

definition parse_region_request :: "router_request \<Rightarrow> (string \<times> string \<times> router_request) option" where
  "parse_region_request q0 =
     (let named = trim_space (header_get (rr_headers q0) region_header);
          q = q0\<lparr>rr_headers := header_del region_header (rr_headers q0)\<rparr>
      in if named \<noteq> []
         then (let region = to_lower named in if region \<in> set all_regions then Some (region, rr_host q, q) else None)
         else if rr_method q = ''CONNECT''
         then (case parse_connect (connect_authority q) of (region, target) \<Rightarrow> Some (region, target, q))
         else (case parse_region_path (rr_url q) of (region, u) \<Rightarrow> Some (region, rr_host q, q\<lparr>rr_url := u\<rparr>)))"

datatype route_result =
    AuthRequired | BadRegion | RouterStopped | NoPool | ConnectVia nat string | ForwardVia nat string router_request

definition select_dialer :: "string \<Rightarrow> region_router \<Rightarrow> nat option" where
  "select_dialer region r =
     (case (if region \<noteq> [] then mget (rr_pools r) region else None) of Some d \<Rightarrow> Some d | None \<Rightarrow> rr_global r)"

definition serve_region :: "region_router \<Rightarrow> router_request \<Rightarrow> route_result" where
  "serve_region r q =
     (if rt_username (rr_cfg r) \<noteq> [] \<and> \<not> check_proxy_auth (rr_cfg r) (rr_headers q) then AuthRequired
      else case parse_region_request q of
          None \<Rightarrow> BadRegion
        | Some (region, target, q') \<Rightarrow>
            if rr_closed r then RouterStopped
            else (case select_dialer region r of
                    None \<Rightarrow> NoPool
                  | Some d \<Rightarrow> if rr_method q' = ''CONNECT'' then ConnectVia d target else ForwardVia d target q'))"

section \<open>Tunnels\<close>

datatype connect_result = DialFailed | NoHijack | TunnelRefused | TunnelOpen

definition open_tunnel ::
  "bool \<Rightarrow> bool \<Rightarrow> nat \<Rightarrow> nat \<Rightarrow> region_router \<Rightarrow> connect_result \<times> region_router" where
  "open_tunnel dial_ok hijack_ok client upstream r =
     (if \<not> dial_ok then (DialFailed, r)
      else if \<not> hijack_ok then (NoHijack, r)
      else if rr_closed r then (TunnelRefused, r)
      else (TunnelOpen, r\<lparr>rr_tunnels := mput client upstream (rr_tunnels r)\<rparr>))"

definition end_tunnel :: "nat \<Rightarrow> region_router \<Rightarrow> region_router" where
  "end_tunnel client r = r\<lparr>rr_tunnels := mdel client (rr_tunnels r)\<rparr>"

section \<open>Forwarding\<close>

definition get_transport :: "nat \<Rightarrow> region_router \<Rightarrow> bool \<times> region_router" where
  "get_transport d r =
     (if rr_closed r then (False, r)
      else if d \<in> set (rr_transports r) then (True, r)
      else (True, r\<lparr>rr_transports := d # rr_transports r\<rparr>))"

definition router_hop_headers :: "string list" where
  "router_hop_headers = [''Connection'', ''Proxy-Connection'', ''Proxy-Authorization'', ''Proxy-Authenticate'', ''Keep-Alive'', ''TE'',
     ''Trailer'', ''Transfer-Encoding'', ''Upgrade'']"

definition remove_hop_headers :: "headers \<Rightarrow> headers" where
  "remove_hop_headers hs =
     fold header_del router_hop_headers
       (fold header_del (concat (map (\<lambda>v. map trim_space (split_byte CHR '','' v)) (header_values hs ''Connection''))) hs)"

datatype forward_result =
    BadUrlScheme | ForwardStopped | RequestFailed router_request | Answered router_request nat headers

text \<open>The transport answers with a status and headers, or fails.\<close>

definition outgoing_request :: "string \<Rightarrow> router_request \<Rightarrow> router_request" where
  "outgoing_request target q =
     (let u = rr_url q;
          u1 = (if u_host u = [] then u\<lparr>u_host := target\<rparr> else u);
          u2 = (if u_scheme u1 = [] then u1\<lparr>u_scheme := ''http''\<rparr> else u1)
      in q\<lparr>rr_url := u2, rr_headers := remove_hop_headers (rr_headers q)\<rparr>)"

definition forward_region ::
  "(router_request \<Rightarrow> (nat \<times> headers) option) \<Rightarrow> nat \<Rightarrow> string \<Rightarrow> router_request \<Rightarrow> region_router
    \<Rightarrow> forward_result \<times> region_router" where
  "forward_region round_trip d target q r =
     (let out = outgoing_request target q
      in if u_scheme (rr_url out) \<noteq> ''http'' \<and> u_scheme (rr_url out) \<noteq> ''https'' then (BadUrlScheme, r)
         else (case get_transport d r of
                 (False, r') \<Rightarrow> (ForwardStopped, r')
               | (True, r') \<Rightarrow>
                   (case round_trip out of
                      None \<Rightarrow> (RequestFailed out, r')
                    | Some (status, hs) \<Rightarrow> (Answered out status (remove_hop_headers hs), r'))))"

section \<open>The path that goes on\<close>

definition plain_path :: "string \<Rightarrow> bool" where
  "plain_path s \<longleftrightarrow> (\<forall>c\<in>set s. \<not> should_escape EncodePath c)"

lemma escape_plain: "plain_path s \<Longrightarrow> url_escape EncodePath (s @ t) = s @ url_escape EncodePath t"
  by (induction s) (simp_all add: plain_path_def url_escape_def escape_char_def)

lemma unescape_plain:
  assumes "plain_path s"
  shows "url_unescape EncodePath (s @ t) = map_option (append s) (url_unescape EncodePath t)"
  using unescape_escape [of EncodePath EncodePath s t] escape_plain [OF assms, of "[]"] by simp

definition valid_path_byte :: "char \<Rightarrow> bool" where
  "valid_path_byte c \<longleftrightarrow> c \<in> set ''!$&()*+,;=:@[]%'' \<or> c = CHR 0x27 \<or> \<not> should_escape EncodePath c"

lemma valid_encoded_bytes: "valid_encoded_path s = list_all valid_path_byte s"
  unfolding valid_encoded_path_def valid_path_byte_def by (rule refl)

lemma valid_encoded_escape: "valid_encoded_path (url_escape EncodePath s)"
proof -
  have "list_all valid_path_byte (escape_char EncodePath c)" for c
    using hex_digits_alnum [OF byte_div_mod(1) [of c]] hex_digits_alnum [OF byte_div_mod(2) [of c]]
    by (auto simp: escape_char_def percent_def should_escape_def valid_path_byte_def)
  then show ?thesis unfolding valid_encoded_bytes url_escape_def by (induction s) simp_all
qed

lemma escaped_path_raw:
  "raw \<noteq> [] \<Longrightarrow> valid_encoded_path raw \<Longrightarrow> url_unescape EncodePath raw = Some path
    \<Longrightarrow> escaped_path (u\<lparr>u_path := path, u_raw_path := raw\<rparr>) = raw"
  by (simp add: escaped_path_def)

lemma drop_region_escaped:
  assumes plain: "plain_path prefix" and path: "has_prefix (u_path u) prefix" and esc: "escaped_path u = prefix @ rest"
    and nostar: "u_path u \<noteq> ''*''"
  shows "escaped_path (drop_region_path prefix u) = ''/'' @ rest"
proof -
  obtain pr where pr: "u_path u = prefix @ pr" using path by (auto simp: has_prefix_iff)
  have un: "url_unescape EncodePath (prefix @ t) = map_option (append prefix) (url_unescape EncodePath t)" for t
    by (rule unescape_plain [OF plain])
  have plain_esc: "url_escape EncodePath (prefix @ t) = prefix @ url_escape EncodePath t" for t
    by (rule escape_plain [OF plain])
  have rest: "valid_encoded_path (''/'' @ rest) \<and> url_unescape EncodePath rest = Some pr"
  proof (cases "u_raw_path u \<noteq> [] \<and> valid_encoded_path (u_raw_path u) \<and> url_unescape EncodePath (u_raw_path u) = Some (u_path u)")
    case True
    then have "u_raw_path u = prefix @ rest" using esc by (simp add: escaped_path_def)
    then have "url_unescape EncodePath rest = Some pr" "valid_encoded_path rest"
      using True un [of rest] pr by (auto simp: valid_encoded_bytes)
    moreover have "valid_path_byte CHR ''/''" by code_simp
    ultimately show ?thesis by (simp add: valid_encoded_bytes)
  next
    case False
    then have "escaped_path u = url_escape EncodePath (u_path u)" using nostar by (simp only: escaped_path_def if_False)
    then have "prefix @ rest = url_escape EncodePath (u_path u)" using esc by simp
    then have "rest = url_escape EncodePath pr" using pr plain_esc [of pr] by simp
    moreover have "valid_path_byte CHR ''/''" by code_simp
    ultimately show ?thesis using valid_encoded_escape [of pr] unescape_escape [of EncodePath EncodePath pr "[]"]
      by (simp add: valid_encoded_bytes)
  qed
  have "plain_path ''/''" by code_simp
  from unescape_plain [OF this, of rest] have "url_unescape EncodePath (''/'' @ rest) = Some (''/'' @ pr)"
    using rest by simp
  moreover have "drop_region_path prefix u = u\<lparr>u_path := ''/'' @ pr, u_raw_path := ''/'' @ rest\<rparr>"
    using pr esc by (simp add: drop_region_path_def Let_def trim_prefix_def has_prefix_iff)
  ultimately show ?thesis using rest by (simp only: escaped_path_raw append_Cons list.distinct simp_thms append_Nil)
qed

end
