(* ===== verification/RouterFacts.thy ===== *)
theory RouterFacts
  imports GeoRouter
begin

text \<open>
  What the region router guarantees: a region in the path is taken off without touching the rest of the
  path, only authorised requests are served, and a stopped router serves nothing and leaves no tunnel open.
\<close>

section \<open>The region in the path\<close>

lemma regions_plain: "\<forall>reg\<in>set all_regions. plain_path (''/'' @ reg @ ''/'')"
  by code_simp

lemma find_region_path:
  assumes "reg \<in> set all_regions"
  shows "find (in_region_path (''/'' @ reg @ ''/'' @ t)) all_regions = Some reg"
proof -
  consider "reg = ''jp''" | "reg = ''kr''" | "reg = ''us''" | "reg = ''hk''" | "reg = ''tw''" | "reg = ''sg''" | "reg = ''other''"
    using assms by (auto simp: all_regions_def region_other_def)
  then show ?thesis by cases (simp_all add: all_regions_def region_other_def in_region_path_def)
qed

lemma parse_region_path_prefix:
  assumes reg: "reg \<in> set all_regions" and path: "has_prefix (u_path u) (''/'' @ reg @ ''/'')"
  shows "parse_region_path u = (reg, drop_region_path (''/'' @ reg @ ''/'') u)"
proof -
  obtain t where "u_path u = ''/'' @ reg @ ''/'' @ t" using path by (auto simp: has_prefix_iff)
  then show ?thesis using find_region_path [OF reg, of t] path by (simp add: parse_region_path_def)
qed

text \<open>A plain request for \<open>/region/rest\<close> without a region header goes to that region as a request for \<open>/rest\<close>: the
  escaped form of the path that is sent on is what followed the region, byte for byte, and nothing else of
  the URL changes.\<close>

lemma region_path_is_transparent:
  assumes "reg \<in> set all_regions" and "has_prefix (u_path (rr_url q)) (''/'' @ reg @ ''/'')"
    and "escaped_path (rr_url q) = ''/'' @ reg @ ''/'' @ rest"
    and "trim_space (header_get (rr_headers q) region_header) = []" and "rr_method q \<noteq> ''CONNECT''"
  shows "\<exists>q'. parse_region_request q = Some (reg, rr_host q, q') \<and> escaped_path (rr_url q') = ''/'' @ rest
    \<and> u_host (rr_url q') = u_host (rr_url q) \<and> u_raw_query (rr_url q') = u_raw_query (rr_url q)"
proof -
  let ?p = "''/'' @ reg @ ''/''"
  have "u_path (rr_url q) \<noteq> ''*''" using assms(2) by (auto simp: has_prefix_iff)
  then have "escaped_path (drop_region_path ?p (rr_url q)) = ''/'' @ rest"
    using regions_plain assms(1-3) by (intro drop_region_escaped) simp_all
  then show ?thesis
    using parse_region_path_prefix [OF assms(1,2)] assms(4,5)
    by (simp add: parse_region_request_def Let_def drop_region_path_def)
qed

section \<open>Who is served\<close>

definition via :: "route_result \<Rightarrow> nat option" where
  "via res = (case res of ConnectVia d _ \<Rightarrow> Some d | ForwardVia d _ _ \<Rightarrow> Some d | _ \<Rightarrow> None)"

text \<open>The router passes a request to a pool only while it is open and, when it has an account, only with exactly
  its name and password; the pool is the one of the region the request names, or the pool of all nodes.\<close>

lemma router_serves_authorised_requests:
  assumes "via (serve_region r q) = Some d"
  shows "\<not> rr_closed r
    \<and> (rt_username (rr_cfg r) \<noteq> [] \<longrightarrow>
        proxy_credentials (rr_headers q) = Some (rt_username (rr_cfg r), rt_password (rr_cfg r)))
    \<and> (\<exists>region target q'. parse_region_request q = Some (region, target, q')
        \<and> (region \<noteq> [] \<and> mget (rr_pools r) region = Some d
           \<or> (region = [] \<or> mget (rr_pools r) region = None) \<and> rr_global r = Some d))"
  using assms
  by (auto simp: serve_region_def via_def check_proxy_auth_def select_dialer_def split: if_splits option.splits prod.splits)

section \<open>After the stop\<close>

datatype router_op =
    SetPoolOp string nat | SetGlobalOp "nat option" | StartOp bool bool | StopOp bool | ServeOp router_request
  | TunnelOp bool bool nat nat | EndTunnelOp nat | TransportOp nat

text \<open>The router after an operation, and whether the operation let traffic through.\<close>

fun router_apply :: "router_op \<Rightarrow> region_router \<Rightarrow> bool \<times> region_router" where
  "router_apply (SetPoolOp reg d) r = (False, set_pool reg d r)"
| "router_apply (SetGlobalOp d) r = (False, set_global_pool d r)"
| "router_apply (StartOp cancelled ok) r = (fst (start_router_server cancelled ok r) = None, snd (start_router_server cancelled ok r))"
| "router_apply (StopOp ok) r = (False, fst (snd (stop_router_server ok r)))"
| "router_apply (ServeOp q) r = (via (serve_region r q) \<noteq> None, r)"
| "router_apply (TunnelOp dial hijack c u) r = (fst (open_tunnel dial hijack c u r) = TunnelOpen, snd (open_tunnel dial hijack c u r))"
| "router_apply (EndTunnelOp c) r = (False, end_tunnel c r)"
| "router_apply (TransportOp d) r = get_transport d r"

fun router_run :: "router_op list \<Rightarrow> region_router \<Rightarrow> bool list \<times> region_router" where
  "router_run [] r = ([], r)"
| "router_run (x # xs) r = (let (ok, r1) = router_apply x r; (oks, r2) = router_run xs r1 in (ok # oks, r2))"

definition quiet :: "nat set \<Rightarrow> region_router \<Rightarrow> bool" where
  "quiet clients r \<longleftrightarrow> rr_closed r \<and> rr_transports r = [] \<and> mkeys (rr_tunnels r) \<subseteq> clients"

lemma quiet_apply: "quiet clients r \<Longrightarrow> \<not> fst (router_apply x r) \<and> quiet clients (snd (router_apply x r))"
  by (cases x) (auto simp: quiet_def set_pool_def set_global_pool_def start_router_server_def stop_router_server_def
      serve_region_def via_def open_tunnel_def end_tunnel_def get_transport_def split: option.splits prod.splits if_splits)

lemma quiet_run: "quiet clients r \<Longrightarrow> (\<forall>ok\<in>set (fst (router_run xs r)). \<not> ok) \<and> quiet clients (snd (router_run xs r))"
proof (induction xs arbitrary: r)
  case (Cons x xs)
  obtain ok r1 where s: "router_apply x r = (ok, r1)" by force
  obtain oks r2 where t: "router_run xs r1 = (oks, r2)" by force
  have "\<not> ok" "quiet clients r1" using quiet_apply [OF Cons.prems, of x] s by simp_all
  then show ?case using Cons.IH [of r1] s t by auto
qed simp

text \<open>After \<open>Stop\<close> the router serves no request, opens no tunnel and hands out no transport, whatever is called in
  whatever order, also \<open>Start\<close>; \<open>Stop\<close> itself closed both ends of every tunnel there was, and the only tunnels
  left are some of those, until their handlers remove them.\<close>

lemma stopped_router_serves_nothing:
  assumes "\<not> rr_closed r" and "stop_router_server ok r = (err, r1, closed_pairs)" and "router_run xs r1 = (oks, r2)"
  shows "closed_pairs = rr_tunnels r \<and> (\<forall>b\<in>set oks. \<not> b) \<and> rr_transports r2 = []
    \<and> mkeys (rr_tunnels r2) \<subseteq> mkeys closed_pairs"
proof -
  have r1: "r1 = r\<lparr>rr_closed := True, rr_transports := []\<rparr>" "closed_pairs = rr_tunnels r"
    using assms(1,2) by (simp_all add: stop_router_server_def)
  then have "quiet (mkeys closed_pairs) r1" by (simp add: quiet_def)
  from quiet_run [OF this, of xs] show ?thesis using assms(3) r1(2) unfolding quiet_def by auto
qed

section \<open>Concrete requests\<close>

definition sample_router :: region_router where
  "sample_router = set_global_pool (Some 0) (set_pool ''jp'' 1
     (new_router \<lparr>rt_listen = [], rt_port = 1221, rt_username = ''u'', rt_password = ''p''\<rparr>))"

definition jp_request :: router_request where
  "jp_request = \<lparr>rr_method = ''GET'', rr_host = ''h'', rr_url = empty_url\<lparr>u_path := ''/jp/a/b'', u_raw_path := ''/jp/a%2Fb''\<rparr>,
     rr_headers = [(''Proxy-Authorization'', [''Basic dTpw''])]\<rparr>"

lemma region_path_is_transparent_example:
  "\<exists>q'. parse_region_request jp_request = Some (''jp'', ''h'', q') \<and> escaped_path (rr_url q') = ''/a%2Fb''"
proof -
  have "''jp'' \<in> set all_regions" "has_prefix (u_path (rr_url jp_request)) (''/'' @ ''jp'' @ ''/'')"
    "escaped_path (rr_url jp_request) = ''/'' @ ''jp'' @ ''/'' @ ''a%2Fb''"
    "trim_space (header_get (rr_headers jp_request) region_header) = []" "rr_method jp_request \<noteq> ''CONNECT''" "rr_host jp_request = ''h''"
    by code_simp+
  from region_path_is_transparent [OF this(1-5)] this(6) show ?thesis by auto
qed

lemma router_serves_authorised_requests_example:
  "proxy_credentials (rr_headers jp_request) = Some (''u'', ''p'')"
proof -
  have "via (serve_region sample_router jp_request) = Some 1" by code_simp
  from router_serves_authorised_requests [OF this] show ?thesis
    by (simp add: sample_router_def set_global_pool_def set_pool_def new_router_def)
qed

lemma stopped_router_serves_nothing_example:
  "\<exists>r1 closed_pairs oks r2. stop_router_server True sample_router = (None, r1, closed_pairs)
     \<and> router_run [StartOp False True, ServeOp jp_request] r1 = (oks, r2) \<and> length oks = 2 \<and> (\<forall>b\<in>set oks. \<not> b)"
proof -
  let ?r1 = "fst (snd (stop_router_server True sample_router))"
  have s: "\<not> rr_closed sample_router" "stop_router_server True sample_router = (None, ?r1, rr_tunnels sample_router)"
    by (simp_all add: sample_router_def set_global_pool_def set_pool_def new_router_def stop_router_server_def)
  obtain oks r2 where run: "router_run [StartOp False True, ServeOp jp_request] ?r1 = (oks, r2)" by force
  have "length oks = 2" using run by (auto split: prod.splits)
  then show ?thesis using stopped_router_serves_nothing [OF s run] s(2) run by blast
qed

end
