(* ===== verification/Subscription.thy ===== *)
theory Subscription
  imports BoxLife
begin

text \<open>
  The subscription manager, \<open>internal/subscription/manager.go\<close>: its worker, the refresh calls that callers share, the
  synchronisation with the settings of the running configuration, and the refresh itself as a transaction of the
  sing-box manager. Downloads, files and SHA-256 are parameters. The manager behind the interface is the
  sing-box manager, so the refresh takes the transactional branch.
\<close>

section \<open>Settings\<close>

record sub_settings =
  ss_urls :: "string list"
  ss_refresh :: refresh_config

definition settings_of :: "config \<Rightarrow> sub_settings" where
  "settings_of c = \<lparr>ss_urls = c_subscriptions c, ss_refresh = c_refresh c\<rparr>"

text \<open>\<open>CurrentSubscriptionConfig\<close> of the sing-box manager.\<close>

definition current_settings :: "manager \<Rightarrow> sub_settings option" where
  "current_settings m = map_option settings_of (bm_cfg m)"

text \<open>\<open>sameSubscriptionConfig\<close>: two configurations that exist, with the same settings.\<close>

definition same_settings :: "sub_settings option \<Rightarrow> sub_settings option \<Rightarrow> bool" where
  "same_settings a b \<longleftrightarrow> a \<noteq> None \<and> b \<noteq> None \<and> a = b"

section \<open>Calls and state\<close>

datatype refresh_error =
    RefreshStopped | NoUrls | SaveFailed string | Superseded | FetchIncomplete | NothingFetched | NewerPublished
  | Transaction box_error

record refresh_call =
  rc_version :: nat
  rc_done :: "refresh_error option option"     \<comment> \<open>open, or closed with its error\<close>

text \<open>The worker: not started, in its \<open>select\<close>, with a call taken from the channel, refreshing with a copy of the
  settings and their version, ended.\<close>

datatype sub_worker = NotStarted | Waiting | Took nat | Refreshing nat sub_settings nat | Ended

record sub_manager =
  sm_base :: sub_settings
  sm_version :: nat
  sm_calls :: "refresh_call list"
  sm_active :: "nat option"
  sm_pending :: "nat option"
  sm_queue :: "nat option"                     \<comment> \<open>the channel \<open>requests\<close>\<close>
  sm_updates :: bool                           \<comment> \<open>the channel \<open>updates\<close> is full\<close>
  sm_stopped :: bool
  sm_timer :: bool
  sm_worker :: sub_worker
  sm_pending_settings :: bool
  sm_baseline :: "sub_settings option"
  sm_refreshing :: bool
  sm_count :: int
  sm_last_error :: "refresh_error option"

definition new_sub_manager :: "config \<Rightarrow> sub_manager" where
  "new_sub_manager c = \<lparr>sm_base = settings_of c, sm_version = 0, sm_calls = [], sm_active = None, sm_pending = None, sm_queue = None,
     sm_updates = False, sm_stopped = False, sm_timer = False, sm_worker = NotStarted, sm_pending_settings = False,
     sm_baseline = None, sm_refreshing = False, sm_count = 0, sm_last_error = None\<rparr>"

section \<open>Operations of callers\<close>

definition start_worker :: "sub_manager \<Rightarrow> sub_manager" where
  "start_worker s = (if sm_worker s = NotStarted then s\<lparr>sm_worker := Waiting\<rparr> else s)"

definition stop_sub :: "sub_manager \<Rightarrow> sub_manager" where
  "stop_sub s = start_worker (s\<lparr>sm_stopped := True\<rparr>)"

text \<open>\<open>syncRuntimeConfig\<close>: the running configuration wins over the private settings, except while an edit that
  the runtime has not seen yet is pending.\<close>

definition sync_runtime :: "sub_settings option \<Rightarrow> sub_manager \<Rightarrow> sub_manager" where
  "sync_runtime current s =
     (if sm_stopped s then s
      else case current of
          None \<Rightarrow> s
        | Some c \<Rightarrow>
            if same_settings current (Some (sm_base s)) then s\<lparr>sm_pending_settings := False, sm_baseline := None\<rparr>
            else if sm_pending_settings s \<and> same_settings current (sm_baseline s) then s
            else s\<lparr>sm_base := c, sm_pending_settings := False, sm_baseline := None, sm_version := sm_version s + 1,
                   sm_updates := True\<rparr>)"

definition edited_settings :: "string list \<Rightarrow> bool \<Rightarrow> duration \<Rightarrow> sub_settings \<Rightarrow> sub_settings" where
  "edited_settings urls enabled interval b =
     (let r = (ss_refresh b)\<lparr>rf_enabled := enabled\<rparr>;
          r1 = (if interval > 0 then r\<lparr>rf_interval := interval\<rparr> else r);
          r2 = (if rf_interval r1 \<le> 0 then r1\<lparr>rf_interval := hour\<rparr> else r1)
      in \<lparr>ss_urls = urls, ss_refresh = r2\<rparr>)"

definition update_config ::
  "string option \<Rightarrow> sub_settings option \<Rightarrow> string list \<Rightarrow> bool \<Rightarrow> duration \<Rightarrow> sub_manager
    \<Rightarrow> refresh_error option \<times> sub_manager" where
  "update_config save current urls enabled interval s =
     (if sm_stopped s then (Some RefreshStopped, s)
      else let candidate = edited_settings urls enabled interval (sm_base s)
        in case save of
             Some m \<Rightarrow> (Some (SaveFailed m), s)
           | None \<Rightarrow> (None, s\<lparr>sm_base := candidate,
               sm_pending_settings := (current \<noteq> None \<and> \<not> same_settings current (Some candidate)), sm_baseline := current,
               sm_version := sm_version s + 1, sm_updates := True\<rparr>))"

datatype request_result = Refused refresh_error | Joined nat | Sent nat | WouldBlock

definition request_refresh :: "sub_settings option \<Rightarrow> sub_manager \<Rightarrow> request_result \<times> sub_manager" where
  "request_refresh current s0 =
     (let s = sync_runtime current (start_worker s0)
      in if sm_stopped s then (Refused RefreshStopped, s)
         else if ss_urls (sm_base s) = [] then (Refused NoUrls, s)
         else case sm_pending s of
             Some c \<Rightarrow> (Joined c, s\<lparr>sm_calls := (sm_calls s)[c := (sm_calls s ! c)\<lparr>rc_version := sm_version s\<rparr>]\<rparr>)
           | None \<Rightarrow>
               (case sm_active s of
                  Some c \<Rightarrow> if rc_version (sm_calls s ! c) = sm_version s then (Joined c, s) else (WouldBlock, s)
                | None \<Rightarrow> (WouldBlock, s)))"

text \<open>The last branch makes a new call and sends it: a send on the full channel would block with the mutex held.\<close>

definition send_call :: "request_result \<times> sub_manager \<Rightarrow> request_result \<times> sub_manager" where
  "send_call r =
     (case r of
        (WouldBlock, s) \<Rightarrow>
          if sm_queue s \<noteq> None then (WouldBlock, s)
          else (let c = length (sm_calls s)
                in (Sent c, s\<lparr>sm_calls := sm_calls s @ [\<lparr>rc_version = sm_version s, rc_done = None\<rparr>], sm_pending := Some c,
                      sm_queue := Some c\<rparr>))
      | _ \<Rightarrow> r)"

definition ask_refresh :: "sub_settings option \<Rightarrow> sub_manager \<Rightarrow> request_result \<times> sub_manager" where
  "ask_refresh current s = send_call (request_refresh current s)"

text \<open>\<open>UpdateConfig\<close>, \<open>UpdateConfigAndRefresh\<close>: the settings are saved, then a refresh is asked for unless no URL is left.\<close>

definition update_and_refresh ::
  "string option \<Rightarrow> sub_settings option \<Rightarrow> sub_settings option \<Rightarrow> string list \<Rightarrow> bool \<Rightarrow> duration \<Rightarrow> sub_manager
    \<Rightarrow> (refresh_error + request_result option) \<times> sub_manager" where
  "update_and_refresh save cur cur' urls enabled interval s =
     (case update_config save cur urls enabled interval s of
        (Some err, s1) \<Rightarrow> (Inl err, s1)
      | (None, s1) \<Rightarrow>
          if urls = [] then (Inr None, start_worker s1)
          else (let (r, s2) = ask_refresh cur' (start_worker s1) in (Inr (Some r), s2)))"

text \<open>How long \<open>RefreshNowContext\<close> waits: a timeout for each batch of downloads, the health check and the drain.\<close>

definition refresh_wait :: "sub_settings \<Rightarrow> duration" where
  "refresh_wait b =
     (let r = ss_refresh b; timeout = or_positive (rf_timeout r) (30 * second);
          concurrency = (if rf_fetch_concurrency r \<le> 0 then 16 else if rf_fetch_concurrency r > 32 then 32 else rf_fetch_concurrency r)
      in (int (length (ss_urls b)) + concurrency - 1) div concurrency * timeout + rf_health_check_timeout r + rf_drain_timeout r)"

section \<open>Steps of the worker\<close>

definition close_call :: "nat \<Rightarrow> refresh_error option \<Rightarrow> sub_manager \<Rightarrow> sub_manager" where
  "close_call c err s = s\<lparr>sm_calls := (sm_calls s)[c := (sm_calls s ! c)\<lparr>rc_done := Some err\<rparr>]\<rparr>"

definition reset_timer :: "sub_settings option \<Rightarrow> sub_manager \<Rightarrow> sub_manager" where
  "reset_timer current s0 =
     (let s = sync_runtime current s0
      in s\<lparr>sm_timer := (\<not> sm_stopped s \<and> rf_enabled (ss_refresh (sm_base s)) \<and> ss_urls (sm_base s) \<noteq> [])\<rparr>)"

definition begin_refresh :: "nat \<Rightarrow> sub_manager \<Rightarrow> sub_manager" where
  "begin_refresh c s = s\<lparr>sm_pending := None, sm_active := Some c,
     sm_calls := (sm_calls s)[c := (sm_calls s ! c)\<lparr>rc_version := sm_version s\<rparr>], sm_refreshing := True,
     sm_worker := Refreshing c (sm_base s) (sm_version s)\<rparr>"

definition finish_refresh :: "nat \<Rightarrow> refresh_error option \<Rightarrow> sub_manager \<Rightarrow> sub_manager" where
  "finish_refresh c err s = (close_call c err s)\<lparr>sm_refreshing := False, sm_count := sm_count s + 1, sm_last_error := err,
     sm_active := None, sm_worker := Waiting\<rparr>"

text \<open>The deferred clean-up when the worker ends.\<close>

definition end_worker :: "sub_manager \<Rightarrow> sub_manager" where
  "end_worker s =
     (let s1 = (case sm_pending s of
            None \<Rightarrow> s
          | Some c \<Rightarrow> (close_call c (Some RefreshStopped) s)\<lparr>sm_pending := None\<rparr>)
      in s1\<lparr>sm_worker := Ended, sm_timer := False\<rparr>)"

definition timer_tick :: "sub_settings option \<Rightarrow> sub_settings option \<Rightarrow> sub_manager \<Rightarrow> sub_manager" where
  "timer_tick cur cur' s0 =
     (let s = sync_runtime cur (s0\<lparr>sm_timer := False\<rparr>)
      in if rf_enabled (ss_refresh (sm_base s)) \<and> ss_urls (sm_base s) \<noteq> [] then snd (ask_refresh cur' s) else reset_timer cur' s)"

inductive sub_step :: "sub_manager \<Rightarrow> sub_manager \<Rightarrow> bool" where
  edit: "sub_step s (snd (update_config save cur urls enabled interval s))"
| asked: "sub_step s (snd (ask_refresh cur s))"
| synced: "sub_step s (sync_runtime cur s)"
| started: "sub_step s (start_worker s)"
| stopped: "sub_step s (stop_sub s)"
| timer: "sm_worker s = Waiting \<Longrightarrow> sm_timer s \<Longrightarrow> sub_step s (timer_tick cur cur' s)"
| changed: "sm_worker s = Waiting \<Longrightarrow> sm_updates s \<Longrightarrow> sub_step s (reset_timer cur (s\<lparr>sm_updates := False\<rparr>))"
| take_call: "sm_worker s = Waiting \<Longrightarrow> sm_queue s = Some c \<Longrightarrow> sub_step s (s\<lparr>sm_queue := None, sm_worker := Took c\<rparr>)"
| run_call: "sm_worker s = Took c \<Longrightarrow> sub_step s (begin_refresh c s)"
| finish: "sm_worker s = Refreshing c b v \<Longrightarrow> sub_step s (finish_refresh c err s)"
| finished_timer: "sm_worker s = Waiting \<Longrightarrow> sub_step s (reset_timer cur s)"
| leave: "sm_worker s = Waiting \<Longrightarrow> sm_stopped s \<Longrightarrow> sub_step s (end_worker s)"

inductive sub_reachable :: "sub_manager \<Rightarrow> bool" where
  fresh: "sub_reachable (new_sub_manager c)"
| further: "sub_reachable s \<Longrightarrow> sub_step s s' \<Longrightarrow> sub_reachable s'"

section \<open>The refresh\<close>

text \<open>What the download of all subscriptions returned: nodes, and how many failed or were empty.\<close>

record fetch_outcome =
  fo_nodes :: "node_config list"
  fo_failed :: nat
  fo_empty :: nat

definition fetch_subscriptions :: "fetch_outcome \<Rightarrow> refresh_error + node_config list" where
  "fetch_subscriptions f = (if fo_failed f > 0 \<or> fo_empty f > 0 then Inl FetchIncomplete else Inr (fo_nodes f))"

definition name_fetched :: "json_codec \<Rightarrow> nat \<Rightarrow> node_config \<Rightarrow> node_config" where
  "name_fetched jc i n0 =
     (let n = n0\<lparr>nc_name := trim_space (nc_name n0), nc_uri := trim_space (nc_uri n0)\<rparr>;
          name = or_text (nc_name n) (extract_node_name jc (nc_uri n))
      in n\<lparr>nc_name := or_text name (''node-'' @ itoa (int i))\<rparr>)"

definition create_config :: "json_codec \<Rightarrow> config \<Rightarrow> node_config list \<Rightarrow> config" where
  "create_config jc base nodes =
     (let kept = filter (\<lambda>n. nc_source n = source_inline) (c_nodes base);
          fetched = map (\<lambda>n. n\<lparr>nc_source := source_subscription\<rparr>) nodes;
          all = kept @ fetched
      in base\<lparr>c_nodes := map (\<lambda>(i, n). name_fetched jc i n) (zip [0..<length all] all)\<rparr>)"

definition nodes_file_path :: "config \<Rightarrow> string" where
  "nodes_file_path c = (if c_nodes_file c \<noteq> [] then c_nodes_file c else path_join (path_dir (c_file_path c)) ''nodes.txt'')"

text \<open>What the refresh reads while it runs: whether the manager was stopped and the version of the settings, after
  the download and inside the transaction; and the outcome of writing the nodes.\<close>

record refresh_input =
  ri_fetch :: fetch_outcome
  ri_ended :: bool
  ri_version :: nat
  ri_ended_inside :: bool
  ri_version_inside :: nat
  ri_write :: "string \<Rightarrow> node_config list \<Rightarrow> string option"

definition refresh_update ::
  "json_codec \<Rightarrow> refresh_input \<Rightarrow> config option \<Rightarrow> sub_settings \<Rightarrow> nat \<Rightarrow> node_config list \<Rightarrow> config \<Rightarrow> string + config" where
  "refresh_update jc i starting cfg version nodes current =
     (if ri_ended_inside i then Inl ''context canceled''
      else if ri_version_inside i \<noteq> version then Inl ''superseded''
      else if \<not> same_settings (Some (settings_of current)) (Some cfg)
          \<and> \<not> same_settings (Some (settings_of current)) (map_option settings_of starting)
      then Inl ''newer settings published''
      else Inr ((create_config jc current nodes)\<lparr>c_subscriptions := ss_urls cfg, c_refresh := ss_refresh cfg\<rparr>))"

definition do_refresh ::
  "box_env \<Rightarrow> refresh_input \<Rightarrow> config option \<Rightarrow> sub_settings \<Rightarrow> nat \<Rightarrow> manager \<Rightarrow> refresh_error option \<times> manager" where
  "do_refresh e i starting cfg version s =
     (case fetch_subscriptions (ri_fetch i) of
        Inl err \<Rightarrow> (Some err, s)
      | Inr nodes \<Rightarrow>
          if nodes = [] then (Some NothingFetched, s)
          else if ri_ended i then (Some RefreshStopped, s)
          else if ri_version i \<noteq> version then (Some Superseded, s)
          else (case reload_with_current_config e (refresh_update (e_json e) i starting cfg version nodes)
                  (\<lambda>c. ri_write i (nodes_file_path c) nodes) s of
                  (Some err, s') \<Rightarrow> (Some (Transaction err), s')
                | (None, s') \<Rightarrow> (None, s')))"

section \<open>The file of nodes\<close>

record node_baseline =
  nb_hash :: string
  nb_time :: instant
  nb_size :: int
  nb_modified :: bool

definition nodes_hash :: "(string \<Rightarrow> string) \<Rightarrow> node_config list \<Rightarrow> string" where
  "nodes_hash digest nodes = digest (join_with [CHR 0x0A] (map nc_uri nodes))"

definition record_refresh ::
  "(string \<Rightarrow> string) \<Rightarrow> (instant \<times> int) option \<Rightarrow> node_config list \<Rightarrow> node_baseline \<Rightarrow> node_baseline" where
  "record_refresh digest stat nodes b =
     (let b1 = b\<lparr>nb_hash := nodes_hash digest nodes\<rparr>;
          b2 = (case stat of Some (t, z) \<Rightarrow> b1\<lparr>nb_time := t, nb_size := z\<rparr> | None \<Rightarrow> b1)
      in b2\<lparr>nb_modified := False\<rparr>)"

text \<open>What \<open>New\<close> records of the nodes a configuration starts with, and the mark set by an edit of the file.\<close>

definition new_baseline :: "(string \<Rightarrow> string) \<Rightarrow> (instant \<times> int) option \<Rightarrow> config \<Rightarrow> node_baseline" where
  "new_baseline digest stat c =
     (let nodes = filter (\<lambda>n. nc_source n = source_subscription) (c_nodes c);
          b = \<lparr>nb_hash = [], nb_time = 0, nb_size = 0, nb_modified = False\<rparr>
      in if nodes = [] then b
         else let b1 = b\<lparr>nb_hash := nodes_hash digest nodes\<rparr>
           in case stat of Some (t, z) \<Rightarrow> b1\<lparr>nb_time := t, nb_size := z\<rparr> | None \<Rightarrow> b1)"

definition mark_nodes_modified :: "node_baseline \<Rightarrow> node_baseline" where
  "mark_nodes_modified b = b\<lparr>nb_modified := True\<rparr>"

text \<open>\<open>CheckNodesModified\<close> copies the baseline, looks at the file without the lock, and writes to the baseline
  of that later moment.\<close>

definition check_nodes_modified ::
  "(string \<Rightarrow> string) \<Rightarrow> (instant \<times> int) option \<Rightarrow> node_config list option \<Rightarrow> node_baseline \<Rightarrow> node_baseline
    \<Rightarrow> bool \<times> node_baseline" where
  "check_nodes_modified digest stat loaded b later =
     (if nb_hash b = [] then (nb_modified b, later)
      else case stat of
          None \<Rightarrow> (True, mark_nodes_modified later)
        | Some (t, z) \<Rightarrow>
            if t = nb_time b \<and> z = nb_size b then (nb_modified b, later)
            else (case loaded of
                    None \<Rightarrow> (nb_modified b, later)
                  | Some nodes \<Rightarrow>
                      let changed = (nodes_hash digest nodes \<noteq> nb_hash b)
                      in if nb_hash later = nb_hash b
                         then (changed, later\<lparr>nb_time := t, nb_size := z, nb_modified := changed\<rparr>)
                         else (nb_modified later, later)))"

end
