(* ===== verification/SubFacts.thy ===== *)
theory SubFacts
  imports Subscription
begin

text \<open>
  What callers of the subscription manager may rely on, whatever the order in which edits, refresh calls, timer
  ticks and the worker's own steps happen: a refresh call never blocks, at most two are open, a caller who joins
  one gets the current settings, and every call is closed. The refresh itself publishes all or nothing.
\<close>

section \<open>The invariant of the calls\<close>

definition open_call :: "sub_manager \<Rightarrow> nat \<Rightarrow> bool" where
  "open_call s c \<longleftrightarrow> c < length (sm_calls s) \<and> rc_done (sm_calls s ! c) = None"

definition sub_inv :: "sub_manager \<Rightarrow> bool" where
  "sub_inv s \<longleftrightarrow>
     (\<forall>c. open_call s c \<longleftrightarrow> sm_pending s = Some c \<or> sm_active s = Some c)
     \<and> (\<forall>c. sm_pending s = Some c \<longrightarrow> sm_active s \<noteq> Some c)
     \<and> (\<forall>c. sm_active s = Some c \<longleftrightarrow> (\<exists>b v. sm_worker s = Refreshing c b v))
     \<and> (sm_worker s \<noteq> Ended \<longrightarrow> (\<forall>c. sm_pending s = Some c \<longleftrightarrow> sm_queue s = Some c \<or> sm_worker s = Took c))
     \<and> (\<forall>c. sm_worker s = Took c \<longrightarrow> sm_queue s = None)
     \<and> (sm_worker s = Ended \<longrightarrow> sm_stopped s \<and> sm_pending s = None)
     \<and> (\<forall>c b v. sm_worker s = Refreshing c b v \<longrightarrow>
          v \<le> sm_version s \<and> (v = sm_version s \<longrightarrow> b = sm_base s) \<and> rc_version (sm_calls s ! c) = v)
     \<and> (sm_worker s = NotStarted \<longrightarrow> sm_calls s = [])"

lemma new_sub_inv: "sub_inv (new_sub_manager c)"
  by (simp add: sub_inv_def new_sub_manager_def open_call_def)

text \<open>Flags that the invariant does not read, and a change of settings.\<close>

lemma sub_inv_flags [simp]:
  "sub_inv (s\<lparr>sm_updates := u\<rparr>) = sub_inv s" "sub_inv (s\<lparr>sm_timer := t\<rparr>) = sub_inv s"
  "sub_inv (s\<lparr>sm_pending_settings := p\<rparr>) = sub_inv s" "sub_inv (s\<lparr>sm_baseline := b\<rparr>) = sub_inv s"
  by (simp_all add: sub_inv_def open_call_def)

lemma sub_inv_settings:
  "sub_inv s \<Longrightarrow> sub_inv (s\<lparr>sm_base := b, sm_pending_settings := p, sm_baseline := d, sm_version := sm_version s + 1, sm_updates := u\<rparr>)"
  by (auto simp: sub_inv_def open_call_def)

lemma sub_inv_sync: "sub_inv s \<Longrightarrow> sub_inv (sync_runtime cur s)"
  by (simp add: sync_runtime_def sub_inv_settings [simplified] split: option.split)

lemma sub_inv_update: "sub_inv s \<Longrightarrow> sub_inv (snd (update_config save cur urls enabled interval s))"
  by (simp add: update_config_def Let_def sub_inv_settings [simplified] split: option.split)

lemma sub_inv_start: "sub_inv s \<Longrightarrow> sub_inv (start_worker s)"
  by (auto simp: start_worker_def sub_inv_def open_call_def)

lemma sub_inv_stop: "sub_inv s \<Longrightarrow> sub_inv (stop_sub s)"
  by (auto simp: stop_sub_def start_worker_def sub_inv_def open_call_def)

lemma sync_runtime_frame [simp]:
  "sm_calls (sync_runtime cur s) = sm_calls s" "sm_pending (sync_runtime cur s) = sm_pending s"
  "sm_active (sync_runtime cur s) = sm_active s" "sm_queue (sync_runtime cur s) = sm_queue s"
  "sm_worker (sync_runtime cur s) = sm_worker s" "sm_stopped (sync_runtime cur s) = sm_stopped s"
  by (simp_all add: sync_runtime_def split: option.split)

lemma start_worker_frame [simp]:
  "sm_worker (start_worker s) \<noteq> NotStarted" "sm_stopped (start_worker s) = sm_stopped s"
  "sm_calls (start_worker s) = sm_calls s" "sm_active (start_worker s) = sm_active s" "sm_pending (start_worker s) = sm_pending s"
  "sm_version (start_worker s) = sm_version s" "sm_base (start_worker s) = sm_base s"
  by (simp_all add: start_worker_def)

definition ready :: "sub_settings option \<Rightarrow> sub_manager \<Rightarrow> sub_manager" where
  "ready cur s = sync_runtime cur (start_worker s)"

lemma ready_inv: "sub_inv s \<Longrightarrow> sub_inv (ready cur s)"
  by (simp add: ready_def sub_inv_sync sub_inv_start)

lemma ready_started: "sm_worker (ready cur s) \<noteq> NotStarted"
  by (simp add: ready_def)

text \<open>The four ways a refresh call can go, once the settings are in step with the runtime.\<close>

lemma ask_cases:
  assumes "sub_inv s"
  obtains (stopped) "sm_stopped (ready cur s)" "ask_refresh cur s = (Refused RefreshStopped, ready cur s)"
  | (no_urls) "ss_urls (sm_base (ready cur s)) = []" "ask_refresh cur s = (Refused NoUrls, ready cur s)"
  | (pending) c where "sm_pending (ready cur s) = Some c"
      "ask_refresh cur s = (Joined c, (ready cur s)\<lparr>sm_calls :=
         (sm_calls (ready cur s))[c := (sm_calls (ready cur s) ! c)\<lparr>rc_version := sm_version (ready cur s)\<rparr>]\<rparr>)"
  | (active) c where "sm_active (ready cur s) = Some c" "rc_version (sm_calls (ready cur s) ! c) = sm_version (ready cur s)"
      "ask_refresh cur s = (Joined c, ready cur s)"
  | (new_call) "\<not> sm_stopped (ready cur s)" "sm_pending (ready cur s) = None" "sm_queue (ready cur s) = None"
      "ask_refresh cur s = (Sent (length (sm_calls (ready cur s))), (ready cur s)\<lparr>
         sm_calls := sm_calls (ready cur s) @ [\<lparr>rc_version = sm_version (ready cur s), rc_done = None\<rparr>],
         sm_pending := Some (length (sm_calls (ready cur s))), sm_queue := Some (length (sm_calls (ready cur s)))\<rparr>)"
proof -
  let ?r = "ready cur s"
  note inv = ready_inv [OF assms, of cur]
  have "sm_queue ?r = None" if "sm_pending ?r = None" "\<not> sm_stopped ?r"
  proof -
    have "sm_worker ?r \<noteq> Ended" using inv that(2) unfolding sub_inv_def by blast
    then show ?thesis using inv that(1) unfolding sub_inv_def by (metis not_None_eq)
  qed
  note queue = this
  have ask: "ask_refresh cur s = send_call
      (if sm_stopped ?r then (Refused RefreshStopped, ?r)
       else if ss_urls (sm_base ?r) = [] then (Refused NoUrls, ?r)
       else case sm_pending ?r of
           Some c \<Rightarrow> (Joined c, ?r\<lparr>sm_calls := (sm_calls ?r)[c := (sm_calls ?r ! c)\<lparr>rc_version := sm_version ?r\<rparr>]\<rparr>)
         | None \<Rightarrow> (case sm_active ?r of
             Some c \<Rightarrow> if rc_version (sm_calls ?r ! c) = sm_version ?r then (Joined c, ?r) else (WouldBlock, ?r)
           | None \<Rightarrow> (WouldBlock, ?r)))"
    by (simp only: ask_refresh_def request_refresh_def ready_def Let_def)
  show thesis
  proof (cases "sm_stopped ?r \<or> ss_urls (sm_base ?r) = []")
    case True
    then show ?thesis using stopped no_urls ask by (cases "sm_stopped ?r") (simp_all add: send_call_def)
  next
    case go: False
    show ?thesis
    proof (cases "sm_pending ?r")
      case (Some c)
      then show ?thesis using pending [of c] ask go by (simp add: send_call_def)
    next
      case None
      note q = queue [OF None]
      show ?thesis
      proof (cases "\<exists>c. sm_active ?r = Some c \<and> rc_version (sm_calls ?r ! c) = sm_version ?r")
        case True
        then show ?thesis using active ask go None by (auto simp: send_call_def)
      next
        case False
        then have "ask_refresh cur s = send_call (WouldBlock, ?r)"
          using ask go None by (auto split: option.split)
        then show ?thesis using new_call go None q by (simp add: send_call_def Let_def)
      qed
    qed
  qed
qed

lemma sub_inv_calls:
  assumes "sub_inv s" and "\<And>d. open_call (s\<lparr>sm_calls := cs\<rparr>) d = open_call s d"
    and "\<And>d b w. sm_worker s = Refreshing d b w \<Longrightarrow> rc_version (cs ! d) = rc_version (sm_calls s ! d)"
    and "sm_calls s = [] \<Longrightarrow> cs = []"
  shows "sub_inv (s\<lparr>sm_calls := cs\<rparr>)"
proof -
  let ?t = "s\<lparr>sm_calls := cs\<rparr>"
  have same: "sm_pending ?t = sm_pending s" "sm_active ?t = sm_active s" "sm_worker ?t = sm_worker s" "sm_queue ?t = sm_queue s"
    "sm_stopped ?t = sm_stopped s" "sm_version ?t = sm_version s" "sm_base ?t = sm_base s" "sm_calls ?t = cs" by simp_all
  note i = assms(1) [unfolded sub_inv_def]
  from i have "v \<le> sm_version s \<and> (v = sm_version s \<longrightarrow> b = sm_base s) \<and> rc_version (sm_calls s ! c) = v"
    if "sm_worker s = Refreshing c b v" for c b v using that by (elim conjE) blast
  then have "v \<le> sm_version s \<and> (v = sm_version s \<longrightarrow> b = sm_base s) \<and> rc_version (cs ! c) = v"
    if "sm_worker s = Refreshing c b v" for c b v using assms(3) [OF that] that by simp
  moreover from i have "sm_worker s = NotStarted \<longrightarrow> cs = []" using assms(4) by (elim conjE) blast
  ultimately show ?thesis using i unfolding sub_inv_def same assms(2)
    by (elim conjE, intro conjI) (assumption | blast)+
qed

lemma sub_inv_rejoin:
  assumes "sub_inv s" and "sm_pending s = Some c"
  shows "sub_inv (s\<lparr>sm_calls := (sm_calls s)[c := (sm_calls s ! c)\<lparr>rc_version := v\<rparr>]\<rparr>)"
proof -
  have "open_call (s\<lparr>sm_calls := (sm_calls s)[c := (sm_calls s ! c)\<lparr>rc_version := v\<rparr>]\<rparr>) d = open_call s d" for d
    by (cases "d = c") (auto simp: open_call_def)
  moreover have "sm_worker s \<noteq> Refreshing c b w" for b w
    using assms unfolding sub_inv_def by blast
  then have "rc_version ((sm_calls s)[c := (sm_calls s ! c)\<lparr>rc_version := v\<rparr>] ! d) = rc_version (sm_calls s ! d)"
    if "sm_worker s = Refreshing d b w" for d b w
    using that by (cases "d = c") auto
  ultimately show ?thesis by (intro sub_inv_calls [OF assms(1)]) simp_all
qed

lemma sub_inv_new_call:
  assumes "sub_inv s" and "sm_pending s = None" and "sm_worker s \<noteq> NotStarted" "\<not> sm_stopped s"
  shows "sub_inv (s\<lparr>sm_calls := sm_calls s @ [\<lparr>rc_version = v, rc_done = None\<rparr>], sm_pending := Some (length (sm_calls s)),
    sm_queue := Some (length (sm_calls s))\<rparr>)" (is "sub_inv ?t")
proof -
  have act: "sm_active s = Some d \<Longrightarrow> d < length (sm_calls s)" for d
    using assms(1) by (auto simp: sub_inv_def open_call_def)
  have "open_call ?t d \<longleftrightarrow> open_call s d \<or> d = length (sm_calls s)" for d
    by (auto simp: open_call_def nth_append less_Suc_eq)
  moreover have "sm_worker s \<noteq> Took d" for d using assms(1,2) by (auto simp: sub_inv_def)
  moreover have "rc_version (sm_calls ?t ! d) = rc_version (sm_calls s ! d)" if "sm_worker s = Refreshing d b w" for d b w
  proof -
    have "sm_active s = Some d" using assms(1) that by (auto simp: sub_inv_def)
    then show ?thesis using act by (simp add: nth_append)
  qed
  moreover have "sm_worker s \<noteq> Ended" using assms(1,4) by (auto simp: sub_inv_def)
  moreover have "sm_active s \<noteq> Some (length (sm_calls s))" using act by blast
  moreover have "\<And>d. open_call s d \<longleftrightarrow> sm_active s = Some d" "\<And>d. sm_active s = Some d \<longleftrightarrow> (\<exists>b v. sm_worker s = Refreshing d b v)"
    "\<And>d b v. sm_worker s = Refreshing d b v \<Longrightarrow> v \<le> sm_version s \<and> (v = sm_version s \<longrightarrow> b = sm_base s) \<and> rc_version (sm_calls s ! d) = v"
    using assms(1,2) by (auto simp: sub_inv_def)
  ultimately show ?thesis using assms(3) unfolding sub_inv_def by auto
qed

lemma sub_inv_ask:
  assumes "sub_inv s" shows "sub_inv (snd (ask_refresh cur s))"
  by (rule ask_cases [OF assms, of cur])
    (simp_all add: ready_inv assms sub_inv_rejoin sub_inv_new_call ready_started)

lemma sub_inv_reset: "sub_inv s \<Longrightarrow> sub_inv (reset_timer cur s)"
  by (simp add: reset_timer_def Let_def sub_inv_sync)

lemma sub_inv_tick: "sub_inv s \<Longrightarrow> sub_inv (timer_tick cur cur' s)"
  by (simp add: timer_tick_def Let_def sub_inv_sync sub_inv_ask sub_inv_reset)

lemma sub_inv_take:
  "sub_inv s \<Longrightarrow> sm_worker s = Waiting \<Longrightarrow> sm_queue s = Some c \<Longrightarrow> sub_inv (s\<lparr>sm_queue := None, sm_worker := Took c\<rparr>)"
  by (auto simp: sub_inv_def open_call_def)

lemma sub_inv_run:
  assumes "sub_inv s" and "sm_worker s = Took c" shows "sub_inv (begin_refresh c s)"
proof -
  have c: "sm_pending s = Some c" "sm_active s = None" "sm_queue s = None" "c < length (sm_calls s)"
    using assms by (auto simp: sub_inv_def open_call_def)
  have "open_call (begin_refresh c s) d = open_call s d" for d
    by (cases "d = c") (auto simp: open_call_def begin_refresh_def)
  then show ?thesis using assms c by (auto simp: sub_inv_def begin_refresh_def)
qed

lemma open_close: "open_call (close_call c err s) d \<longleftrightarrow> open_call s d \<and> d \<noteq> c"
  by (cases "d = c") (auto simp: open_call_def close_call_def)

lemma sub_inv_finish:
  assumes "sub_inv s" and "sm_worker s = Refreshing c b v" shows "sub_inv (finish_refresh c err s)"
proof -
  have c: "sm_active s = Some c" "sm_pending s \<noteq> Some c" using assms by (auto simp: sub_inv_def)
  have "open_call (finish_refresh c err s) d \<longleftrightarrow> open_call s d \<and> d \<noteq> c" for d
    using open_close [of c err s d] by (simp add: open_call_def finish_refresh_def)
  then show ?thesis using assms c by (auto simp: sub_inv_def finish_refresh_def close_call_def)
qed

lemma sub_inv_end:
  assumes "sub_inv s" and "sm_worker s = Waiting" "sm_stopped s" shows "sub_inv (end_worker s)"
proof -
  have "sm_active s = None" using assms by (auto simp: sub_inv_def)
  moreover have "open_call (end_worker s) d \<longleftrightarrow> open_call s d \<and> sm_pending s \<noteq> Some d" for d
    using open_close [of "the (sm_pending s)" "Some RefreshStopped" s d]
    by (cases "sm_pending s") (auto simp: open_call_def end_worker_def)
  ultimately show ?thesis using assms
    by (cases "sm_pending s") (auto simp: sub_inv_def end_worker_def close_call_def)
qed

lemma sub_step_inv: "sub_step s s' \<Longrightarrow> sub_inv s \<Longrightarrow> sub_inv s'"
  by (induction rule: sub_step.induct)
    (simp_all add: sub_inv_update sub_inv_ask sub_inv_sync sub_inv_start sub_inv_stop sub_inv_tick sub_inv_reset
      sub_inv_take sub_inv_run sub_inv_finish sub_inv_end)

lemma reachable_sub_inv: "sub_reachable s \<Longrightarrow> sub_inv s"
  by (induction rule: sub_reachable.induct) (auto intro: new_sub_inv sub_step_inv)

section \<open>What a caller gets\<close>

text \<open>C12: Whatever edits, calls, ticks and refreshes came before, asking for a refresh never blocks on the channel: it
  is refused because the manager was stopped or has no URL, or it returns a call that is still open. A joined or
  new call has not begun, so it will use the settings of that moment or newer ones, or it is the running one and
  uses exactly the current settings.\<close>

theorem callers_get_current_settings:
  assumes "sub_reachable s" and "ask_refresh cur s = (r, s')"
  shows "case r of
      Refused err \<Rightarrow> (err = RefreshStopped \<and> sm_stopped s') \<or> (err = NoUrls \<and> ss_urls (sm_base s') = [])
    | Joined c \<Rightarrow> open_call s' c \<and>
        (sm_pending s' = Some c \<or> sm_worker s' = Refreshing c (sm_base s') (sm_version s'))
    | Sent c \<Rightarrow> open_call s' c \<and> sm_pending s' = Some c \<and> sm_queue s' = Some c
    | WouldBlock \<Rightarrow> False"
proof -
  note inv = reachable_sub_inv [OF assms(1)]
  note ready = ready_inv [OF inv, of cur]
  have s': "sub_inv s'" using sub_inv_ask [OF inv, of cur] assms(2) by simp
  show ?thesis
  proof (rule ask_cases [OF inv, of cur])
    fix c
    assume "sm_pending (ready cur s) = Some c"
      and "ask_refresh cur s = (Joined c, (ready cur s)\<lparr>sm_calls :=
         (sm_calls (ready cur s))[c := (sm_calls (ready cur s) ! c)\<lparr>rc_version := sm_version (ready cur s)\<rparr>]\<rparr>)"
    then have "r = Joined c" "sm_pending s' = Some c" using assms(2) by auto
    then show ?thesis using s' by (simp add: sub_inv_def)
  next
    fix c
    assume a: "sm_active (ready cur s) = Some c" "rc_version (sm_calls (ready cur s) ! c) = sm_version (ready cur s)"
      and "ask_refresh cur s = (Joined c, ready cur s)"
    then have r: "r = Joined c" "s' = ready cur s" using assms(2) by auto
    obtain b v where w: "sm_worker s' = Refreshing c b v" using a(1) s' r(2) unfolding sub_inv_def by blast
    then have "rc_version (sm_calls s' ! c) = v" "v = sm_version s' \<longrightarrow> b = sm_base s'" using s' unfolding sub_inv_def by blast+
    then have "sm_worker s' = Refreshing c (sm_base s') (sm_version s')" using w a(2) r(2) by simp
    moreover have "open_call s' c" using a(1) s' r(2) unfolding sub_inv_def by blast
    ultimately show ?thesis using r(1) by simp
  next
    assume "ask_refresh cur s = (Sent (length (sm_calls (ready cur s))), (ready cur s)\<lparr>
         sm_calls := sm_calls (ready cur s) @ [\<lparr>rc_version = sm_version (ready cur s), rc_done = None\<rparr>],
         sm_pending := Some (length (sm_calls (ready cur s))), sm_queue := Some (length (sm_calls (ready cur s)))\<rparr>)"
    then have "r = Sent (length (sm_calls (ready cur s)))" "sm_pending s' = Some (length (sm_calls (ready cur s)))"
      "sm_queue s' = Some (length (sm_calls (ready cur s)))" using assms(2) by auto
    then show ?thesis using s' by (simp add: sub_inv_def)
  qed (use assms(2) ready in \<open>auto simp: ready_def\<close>)
qed

text \<open>C34: However fast callers edit and ask, at most two refresh calls are open at a time: the running one and one
  that follows it.\<close>

theorem at_most_two_open_calls:
  assumes "sub_reachable s"
  shows "card {c. open_call s c} \<le> 2"
proof -
  have "{c. open_call s c} = set_option (sm_pending s) \<union> set_option (sm_active s)"
    using reachable_sub_inv [OF assms] by (auto simp: sub_inv_def)
  also have "card \<dots> \<le> card (set_option (sm_pending s)) + card (set_option (sm_active s))" by (rule card_Un_le)
  also have "\<dots> \<le> 2" by (cases "sm_pending s"; cases "sm_active s") simp_all
  finally show ?thesis .
qed

text \<open>One move of the worker that serves calls, with the outcome of each refresh given.\<close>

definition serve :: "(nat \<Rightarrow> refresh_error option) \<Rightarrow> sub_manager \<Rightarrow> sub_manager" where
  "serve err s =
     (case sm_worker s of
        Waiting \<Rightarrow> (case sm_queue s of Some c \<Rightarrow> s\<lparr>sm_queue := None, sm_worker := Took c\<rparr> | None \<Rightarrow> s)
      | Took c \<Rightarrow> begin_refresh c s
      | Refreshing c b v \<Rightarrow> finish_refresh c (err c) s
      | _ \<Rightarrow> s)"

lemma serve_step: "serve err s = s \<or> sub_step s (serve err s)"
  by (auto simp: serve_def intro: sub_step.intros split: sub_worker.split option.split)

lemma serve_inv: "sub_inv s \<Longrightarrow> sub_inv (serve err s)"
  using serve_step [of err s] sub_step_inv [of s "serve err s"] by auto

text \<open>Moves that are left until nothing is open.\<close>

definition moves_left :: "sub_manager \<Rightarrow> nat" where
  "moves_left s = (case sm_worker s of Took _ \<Rightarrow> 2 | Refreshing _ _ _ \<Rightarrow> 1 | _ \<Rightarrow> 0)
     + (if sm_worker s \<noteq> Ended \<and> sm_queue s \<noteq> None then 3 else 0)"

lemma idle_queue:
  assumes "sub_inv s" "sm_worker s = NotStarted" shows "sm_queue s = None"
proof -
  have "sm_calls s = []" using assms unfolding sub_inv_def by blast
  then have "\<not> open_call s c" for c by (simp add: open_call_def)
  then have no: "sm_pending s \<noteq> Some c" for c using assms(1) unfolding sub_inv_def by blast
  have "sm_worker s \<noteq> Ended" using assms(2) by simp
  then have "sm_pending s = Some c \<longleftrightarrow> sm_queue s = Some c \<or> sm_worker s = Took c" for c
    using assms(1) unfolding sub_inv_def by blast
  then show ?thesis using no by (cases "sm_queue s") auto
qed

lemma serve_moves: "sub_inv s \<Longrightarrow> moves_left (serve err s) = moves_left s - 1"
  (is "?inv \<Longrightarrow> _")
proof -
  assume inv: ?inv
  have "sm_queue s = None" if "sm_worker s = Took c" for c using inv that unfolding sub_inv_def by blast
  then show ?thesis using idle_queue [OF inv]
    by (cases "sm_worker s"; cases "sm_queue s")
      (simp_all add: serve_def moves_left_def begin_refresh_def finish_refresh_def close_call_def)
qed

lemma serve_many: "sub_inv s \<Longrightarrow> sub_inv ((serve err ^^ n) s) \<and> moves_left ((serve err ^^ n) s) = moves_left s - n"
  by (induction n) (simp_all add: serve_inv serve_moves)

lemma no_moves_no_calls:
  assumes inv: "sub_inv s" and left: "moves_left s = 0" shows "\<not> open_call s c"
proof
  assume "open_call s c"
  then consider "sm_pending s = Some c" | "sm_active s = Some c" using inv unfolding sub_inv_def by blast
  then show False
  proof cases
    case 1
    then have e: "sm_worker s \<noteq> Ended" using inv by (auto simp: sub_inv_def)
    then have "sm_queue s = Some c \<or> sm_worker s = Took c" using inv 1 unfolding sub_inv_def by blast
    then show False using left e by (auto simp: moves_left_def)
  next
    case 2
    then obtain b v where "sm_worker s = Refreshing c b v" using inv unfolding sub_inv_def by blast
    then show False using left by (simp add: moves_left_def)
  qed
qed

lemma moves_bound: "sub_inv s \<Longrightarrow> moves_left s \<le> 4"
  by (cases "sm_worker s") (auto simp: moves_left_def sub_inv_def)

text \<open>C13: No caller waits for ever: from every reachable state, four moves of the worker, that is at most two
  refreshes, close every open call, whatever the refreshes return; and a worker that ended has left none open.\<close>

theorem every_call_is_answered:
  assumes "sub_reachable s"
  shows "\<not> open_call ((serve err ^^ 4) s) c \<and> (sm_worker s = Ended \<longrightarrow> \<not> open_call s c)"
proof -
  note inv = reachable_sub_inv [OF assms]
  have "\<not> open_call ((serve err ^^ 4) s) c"
    using serve_many [OF inv, of 4 err] moves_bound [OF inv] by (intro no_moves_no_calls) simp_all
  moreover have "sm_worker s = Ended \<longrightarrow> \<not> open_call s c" using inv by (auto simp: sub_inv_def)
  ultimately show ?thesis by blast
qed

text \<open>An edit that is accepted is what the next refresh will use, and it is never overwritten by the settings of the
  runtime that were current when it was made.\<close>

lemma same_settings_iff: "same_settings (Some a) (Some b) \<longleftrightarrow> a = b" "\<not> same_settings None x" "\<not> same_settings x None"
  by (simp_all add: same_settings_def)

lemma sync_version: "sm_version s \<le> sm_version (sync_runtime cur s)"
  by (simp add: sync_runtime_def split: option.split)

lemma sync_base_cong:
  "sm_base t = sm_base s \<Longrightarrow> sm_pending_settings t = sm_pending_settings s \<Longrightarrow> sm_baseline t = sm_baseline s
    \<Longrightarrow> sm_stopped t = sm_stopped s \<Longrightarrow> sm_base (sync_runtime cur t) = sm_base (sync_runtime cur s)"
  by (simp add: sync_runtime_def split: option.split)

lemma start_started: "start_worker (start_worker s) = start_worker s"
  by (simp add: start_worker_def)

lemma edit_survives_sync:
  assumes "update_config save cur urls enabled interval s = (None, s1)"
  shows "sm_base (sync_runtime cur s1) = edited_settings urls enabled interval (sm_base s)"
  using assms
  by (cases cur) (auto simp: update_config_def sync_runtime_def Let_def same_settings_iff split: if_splits option.splits)

lemma accepted_edit_refreshed:
  assumes "sub_reachable s" and "update_and_refresh None cur cur urls enabled interval s = (Inr (Some r), s')"
  shows "sm_base s' = edited_settings urls enabled interval (sm_base s) \<and> ss_urls (sm_base s') = urls \<and> urls \<noteq> []
    \<and> (\<exists>c. (r = Joined c \<or> r = Sent c) \<and> sm_pending s' = Some c \<and> open_call s' c)"
proof -
  obtain s1 where s1: "update_config None cur urls enabled interval s = (None, s1)" and urls: "urls \<noteq> []"
    and ask: "ask_refresh cur (start_worker s1) = (r, s')"
    using assms(2) by (auto simp: update_and_refresh_def Let_def split: prod.splits option.splits if_splits)
  let ?t = "start_worker s1" and ?new = "edited_settings urls enabled interval (sm_base s)"
  have alive: "\<not> sm_stopped s1" using s1 by (auto simp: update_config_def Let_def split: if_splits)
  have s1_eq: "s1 = snd (update_config None cur urls enabled interval s)" using s1 by simp
  have inv1: "sub_inv s1" unfolding s1_eq by (rule sub_inv_update [OF reachable_sub_inv [OF assms(1)]])
  then have inv: "sub_inv ?t" by (rule sub_inv_start)
  have pend: "sm_base ?t = sm_base s1" "sm_pending_settings ?t = sm_pending_settings s1" "sm_baseline ?t = sm_baseline s1"
    "sm_version ?t = sm_version s1" by (simp_all add: start_worker_def)
  have vers: "sm_version s1 = sm_version s + 1" "sm_worker s1 = sm_worker s"
    using s1 by (auto simp: update_config_def Let_def split: if_splits)
  have base: "sm_base (ready cur ?t) = ?new"
    using edit_survives_sync [OF s1] sync_base_cong [OF pend(1,2,3), of cur] start_started [of s1]
    by (simp add: ready_def alive)
  have url: "ss_urls ?new = urls" by (simp add: edited_settings_def Let_def)
  have ready_base: "sm_base s' = ?new" and ready_open: "\<exists>c. (r = Joined c \<or> r = Sent c) \<and> sm_pending s' = Some c"
  proof -
    have "sm_base s' = ?new \<and> (\<exists>c. (r = Joined c \<or> r = Sent c) \<and> sm_pending s' = Some c)"
    proof (rule ask_cases [OF inv, of cur])
      fix c assume a: "sm_active (ready cur ?t) = Some c" "rc_version (sm_calls (ready cur ?t) ! c) = sm_version (ready cur ?t)"
      have "sm_calls s1 = sm_calls s" "sm_active s1 = sm_active s"
        using s1 by (auto simp: update_config_def Let_def split: if_splits)
      then have f: "sm_calls (ready cur ?t) = sm_calls s" "sm_active (ready cur ?t) = sm_active s" "sm_version s < sm_version (ready cur ?t)"
        using vers(1) sync_version [of "start_worker ?t" cur] by (simp_all add: ready_def)
      obtain b v where "sm_worker s = Refreshing c b v"
        using a(1) f(2) reachable_sub_inv [OF assms(1)] unfolding sub_inv_def by metis
      then have "rc_version (sm_calls s ! c) \<le> sm_version s"
        using reachable_sub_inv [OF assms(1)] unfolding sub_inv_def by blast
      then show ?thesis using a(2) f(1,3) by simp
    qed (use ask base url urls alive in \<open>auto simp: ready_def\<close>)
    then show "sm_base s' = ?new" "\<exists>c. (r = Joined c \<or> r = Sent c) \<and> sm_pending s' = Some c" by blast+
  qed
  have "sub_inv s'" using sub_inv_ask [OF inv, of cur] ask by simp
  then have "open_call s' c" if "sm_pending s' = Some c" for c using that unfolding sub_inv_def by blast
  moreover obtain c where "r = Joined c \<or> r = Sent c" "sm_pending s' = Some c" using ready_open by auto
  ultimately show ?thesis using ready_base url urls by (intro conjI exI [of _ c]) simp_all
qed

text \<open>The same for every edit that a manager takes, with or without addresses left.\<close>

lemma update_and_refresh_accepted:
  assumes "sub_reachable s" and "\<not> sm_stopped s" and "update_and_refresh None cur cur urls enabled interval s = (res, s')"
  shows "sm_base s' = edited_settings urls enabled interval (sm_base s)" and "urls = [] \<Longrightarrow> res = Inr None"
    and "urls \<noteq> [] \<Longrightarrow> \<exists>c. (res = Inr (Some (Joined c)) \<or> res = Inr (Some (Sent c))) \<and> sm_pending s' = Some c \<and> open_call s' c"
proof -
  have cases: "urls = [] \<and> res = Inr None \<and> sm_base s' = edited_settings urls enabled interval (sm_base s)
      \<or> urls \<noteq> [] \<and> (\<exists>r. res = Inr (Some r))"
    using assms(2,3) by (auto simp: update_and_refresh_def update_config_def Let_def start_worker_def split: if_splits prod.splits)
  then show "sm_base s' = edited_settings urls enabled interval (sm_base s)"
    using accepted_edit_refreshed [OF assms(1)] assms(3) by blast
  show "urls = [] \<Longrightarrow> res = Inr None" using cases by blast
  show "\<exists>c. (res = Inr (Some (Joined c)) \<or> res = Inr (Some (Sent c))) \<and> sm_pending s' = Some c \<and> open_call s' c" if ne: "urls \<noteq> []"
  proof -
    obtain r where r: "res = Inr (Some r)" using cases ne by blast
    show ?thesis using accepted_edit_refreshed [OF assms(1) assms(3) [unfolded r]] r by auto
  qed
qed

text \<open>C33: An accepted edit of the URLs is served: the call that comes with it is open and not yet begun, and it will use
  the edited settings, although the running configuration still has the old ones.\<close>

theorem accepted_edit_is_refreshed:
  assumes "sub_reachable s" and "update_and_refresh None cur cur urls enabled interval s = (Inr (Some r), s')"
  shows "sm_base s' = edited_settings urls enabled interval (sm_base s) \<and> ss_urls (sm_base s') = urls \<and> urls \<noteq> []
    \<and> (\<exists>c. (r = Joined c \<or> r = Sent c) \<and> sm_pending s' = Some c \<and> open_call s' c)"
  by (rule accepted_edit_refreshed [OF assms])

section \<open>What a refresh publishes\<close>

lemma same_ports_settings:
  assumes "same_but_ports c d"
  shows "c_subscriptions d = c_subscriptions c" and "c_refresh d = c_refresh c"
    and "map node_origin (c_nodes d) = map node_origin (c_nodes c)"
proof -
  have e: "d\<lparr>c_nodes := []\<rparr> = c\<lparr>c_nodes := []\<rparr>" and ns: "map (\<lambda>n. n\<lparr>nc_port := 0\<rparr>) (c_nodes d) = map (\<lambda>n. n\<lparr>nc_port := 0\<rparr>) (c_nodes c)"
    using assms by (simp_all add: same_but_ports_def)
  have "c_subscriptions (d\<lparr>c_nodes := []\<rparr>) = c_subscriptions (c\<lparr>c_nodes := []\<rparr>)"
    "c_refresh (d\<lparr>c_nodes := []\<rparr>) = c_refresh (c\<lparr>c_nodes := []\<rparr>)" using e by simp_all
  then show "c_subscriptions d = c_subscriptions c" "c_refresh d = c_refresh c" by simp_all
  have "map (node_origin \<circ> (\<lambda>n. n\<lparr>nc_port := 0\<rparr>)) (c_nodes d) = map (node_origin \<circ> (\<lambda>n. n\<lparr>nc_port := 0\<rparr>)) (c_nodes c)"
    using ns by (simp flip: map_map)
  then show "map node_origin (c_nodes d) = map node_origin (c_nodes c)" by (simp add: comp_def)
qed

lemma reload_installs:
  assumes "reload_locked e (Some c) s = (None, s')"
  obtains c' where "bm_cfg s' = Some c'" and "same_but_ports c c'"
proof -
  from reload_success [OF assms] obtain i c' s3
    where run: "reload_attempts e 10 0 [] c (clear_registered (emit ResetSharedState (advance (release_old (advance s))))) = (Up i, c', s3)"
      and s': "s' = commit_reload e i c' (advance s3)" .
  then show thesis using that [of c'] reload_attempts_ports [OF run] by (simp add: commit_reload_def Let_def)
qed

lemma name_fetched_origin [simp]: "node_origin (name_fetched jc i n) = node_origin n"
  by (simp add: name_fetched_def node_origin_def Let_def)

lemma create_config_origin:
  "map node_origin (c_nodes (create_config jc base nodes)) =
     map node_origin (filter (\<lambda>n. nc_source n = source_inline) (c_nodes base))
     @ map (\<lambda>n. (source_subscription, trim_space (nc_uri n))) nodes"
proof -
  have "map (node_origin \<circ> (\<lambda>(i, n). name_fetched jc i n)) (zip [0..<length xs] xs) = map node_origin xs" for xs
    by (rule nth_equalityI) simp_all
  then have "map node_origin (c_nodes (create_config jc base nodes)) = map node_origin
      (filter (\<lambda>n. nc_source n = source_inline) (c_nodes base) @ map (\<lambda>n. n\<lparr>nc_source := source_subscription\<rparr>) nodes)"
    (is "_ = map node_origin ?all")
  proof -
    have "c_nodes (create_config jc base nodes) = map (\<lambda>(i, n). name_fetched jc i n) (zip [0..<length ?all] ?all)"
      by (simp add: create_config_def Let_def)
    then show ?thesis using \<open>\<And>xs. map (node_origin \<circ> (\<lambda>(i, n). name_fetched jc i n)) (zip [0..<length xs] xs) = map node_origin xs\<close> [of ?all]
      by (simp only: map_map)
  qed
  then show ?thesis by (simp add: node_origin_def)
qed

text \<open>A successful transaction, step by step.\<close>

lemma transaction_success:
  assumes "reload_with_current_config e update persist s = (None, s')"
  obtains old c0 c c' where "bm_cfg s = Some old" and "update old = Inr c0"
    and "normalize_with_port_map (e_port_free e (bm_tick s)) (e_json e) (build_port_map (e_json e) old) c0 = Inr c"
    and "bm_cfg s' = Some c'" and "same_but_ports c c'" and "persist c' = None"
proof -
  from assms obtain old c0 c where a: "bm_cfg s = Some old" "update old = Inr c0"
    "normalize_with_port_map (e_port_free e (bm_tick s)) (e_json e) (build_port_map (e_json e) old) c0 = Inr c"
    by (auto simp: reload_with_current_config_def split: if_splits option.splits sum.splits)
  obtain res s1 where r: "reload_locked e (Some c) (advance s) = (res, s1)" by fastforce
  then have "res = None" "persist (the (bm_cfg s1)) = None" "s' = emit (SavePorts (port_map_to_save (e_json e) (the (bm_cfg s1)))) s1"
    using assms a by (auto simp: reload_with_current_config_def split: if_splits option.splits prod.splits)
  moreover obtain c' where "bm_cfg s1 = Some c'" "same_but_ports c c'"
    using reload_installs [OF r [unfolded \<open>res = None\<close>]] .
  ultimately show thesis using that [OF a, of c'] by simp
qed

text \<open>C11: A refresh that succeeds publishes the settings that callers last asked for and exactly the right nodes: the
  inline nodes of the configuration that was running at that moment, then the fetched nodes. If the settings were
  edited while it downloaded, it publishes nothing.\<close>

theorem refresh_publishes_current_settings:
  assumes "sub_reachable s" and "sm_worker s = Refreshing c b v" and "ri_version_inside i = sm_version s"
    and "do_refresh e i starting b v m = (None, m')"
  shows "\<exists>old new. bm_cfg m = Some old \<and> bm_cfg m' = Some new \<and> b = sm_base s
    \<and> c_subscriptions new = ss_urls (sm_base s) \<and> c_refresh new = default_refresh (ss_refresh (sm_base s))
    \<and> map node_origin (c_nodes new) = map node_origin (filter (\<lambda>n. nc_source n = source_inline) (c_nodes old))
        @ map (\<lambda>n. (source_subscription, trim_space (nc_uri n))) (fo_nodes (ri_fetch i))"
proof -
  have run: "reload_with_current_config e (refresh_update (e_json e) i starting b v (fo_nodes (ri_fetch i)))
      (\<lambda>c. ri_write i (nodes_file_path c) (fo_nodes (ri_fetch i))) m = (None, m')"
    using assms(4) by (auto simp: do_refresh_def fetch_subscriptions_def split: if_splits prod.splits option.splits)
  from transaction_success [OF this] obtain old c0 c1 new
    where old: "bm_cfg m = Some old" "refresh_update (e_json e) i starting b v (fo_nodes (ri_fetch i)) old = Inr c0"
      and norm: "normalize_with_port_map (e_port_free e (bm_tick m)) (e_json e) (build_port_map (e_json e) old) c0 = Inr c1"
      and new: "bm_cfg m' = Some new" "same_but_ports c1 new" by metis
  have upd: "ri_version_inside i = v" "c0 = (create_config (e_json e) old (fo_nodes (ri_fetch i)))
      \<lparr>c_subscriptions := ss_urls b, c_refresh := ss_refresh b\<rparr>"
    using old(2) by (auto simp: refresh_update_def split: if_splits)
  have "v = sm_version s" using upd(1) assms(3) by simp
  then have b: "b = sm_base s" using reachable_sub_inv [OF assms(1)] assms(2) unfolding sub_inv_def by blast
  show ?thesis
    using old(1) new(1) b normalize_settings [OF norm] same_ports_settings [OF new(2)] create_config_origin [of "e_json e" old "fo_nodes (ri_fetch i)"] upd(2)
    by simp
qed

text \<open>A refresh that fails leaves the configuration as it was. Where the nodes could not be written the earlier
  configuration was loaded again, possibly on other ports; only if that rollback failed too may the new one stay.\<close>

lemma failed_refresh_keeps_config:
  assumes "box_inv m" and "do_refresh e i starting b v m = (Some err, m')"
  shows "bm_cfg m' = bm_cfg m
    \<or> (\<exists>msg old new. err = Transaction (PersistError msg) \<and> bm_cfg m = Some old \<and> bm_cfg m' = Some new \<and> same_but_ports old new)
    \<or> (\<exists>msg err'. err = Transaction (PersistRollbackError msg err'))"
proof (cases "m' = m")
  case False
  let ?upd = "refresh_update (e_json e) i starting b v (fo_nodes (ri_fetch i))"
  let ?persist = "\<lambda>c. ri_write i (nodes_file_path c) (fo_nodes (ri_fetch i))"
  obtain err0 where err: "err = Transaction err0" and run: "reload_with_current_config e ?upd ?persist m = (Some err0, m')"
    using assms(2) False by (auto simp: do_refresh_def fetch_subscriptions_def split: if_splits prod.splits option.splits)
  then obtain old c0 where old: "bm_cfg m = Some old" "?upd old = Inr c0" "\<not> bm_closed m" "bm_current m \<noteq> None"
    using False by (auto simp: reload_with_current_config_def split: if_splits option.splits sum.splits)
  show ?thesis
  proof (cases "normalize_with_port_map (e_port_free e (bm_tick m)) (e_json e) (build_port_map (e_json e) old) c0")
    case (Inl x)
    then show ?thesis using run old by (auto simp: reload_with_current_config_def)
  next
    case (Inr c)
    obtain res s1 where r: "reload_locked e (Some c) (advance m) = (res, s1)" by fastforce
    show ?thesis
    proof (cases res)
      case (Some x)
      have "box_inv (advance m)" using same_inv [OF assms(1), of "advance m"] by simp
      from reload_locked_left [OF this r] have "bm_cfg s1 = bm_cfg m"
        using Some by (auto simp: reload_left_def fell_back_def)
      then show ?thesis using run old Inr r Some by (auto simp: reload_with_current_config_def)
    next
      case None
      obtain res2 s2 where r2: "reload_locked e (Some old) s1 = (res2, s2)" by fastforce
      obtain msg where msg: "?persist (the (bm_cfg s1)) = Some msg"
        using run old Inr r None by (auto simp: reload_with_current_config_def split: option.splits)
      show ?thesis
      proof (cases res2)
        case (Some x)
        then show ?thesis using run old Inr r None r2 msg err by (auto simp: reload_with_current_config_def)
      next
        case up: None
        obtain new where "bm_cfg s2 = Some new" "same_but_ports old new" using reload_installs [OF r2 [unfolded up]] .
        then show ?thesis using run old Inr r None r2 msg err up by (auto simp: reload_with_current_config_def)
      qed
    qed
  qed
qed simp

section \<open>The file of nodes\<close>

text \<open>A changed file of nodes stays reported as changed through every poll that finds it unchanged since, and a poll
  that read the file before a refresh recorded a new baseline does not overwrite that baseline.\<close>

lemma changed_file_stays_reported:
  assumes "check_nodes_modified digest (Some (t, z)) (Some nodes) b b = (True, b1)" and "nb_hash b \<noteq> []"
    and "(t, z) \<noteq> (nb_time b, nb_size b)"
  shows "check_nodes_modified digest (Some (t, z)) loaded b1 b1 = (True, b1)
    \<and> (nb_hash later \<noteq> nb_hash b \<longrightarrow> check_nodes_modified digest (Some (t, z)) (Some nodes) b later = (nb_modified later, later))
    \<and> fst (check_nodes_modified digest (Some (t', z')) (Some again) (record_refresh digest (Some (t', z')) again b1) later) = False"
proof -
  have "b1 = b\<lparr>nb_time := t, nb_size := z, nb_modified := True\<rparr>"
    using assms by (auto simp: check_nodes_modified_def Let_def)
  then show ?thesis using assms(2,3) by (auto simp: check_nodes_modified_def record_refresh_def Let_def)
qed

section \<open>Examples\<close>

definition demo_config :: config where
  "demo_config = (sample_config [(node_of_uri ''a'' ''a'')\<lparr>nc_source := source_inline\<rparr>])\<lparr>c_subscriptions := [''http://list'']\<rparr>"

definition demo_asked :: sub_manager where
  "demo_asked = snd (ask_refresh None (new_sub_manager demo_config))"

definition demo_running :: sub_manager where
  "demo_running = serve (\<lambda>_. None) (serve (\<lambda>_. None) demo_asked)"

lemma demo_reachable: "sub_reachable demo_asked" "sub_reachable demo_running"
proof -
  show "sub_reachable demo_asked" unfolding demo_asked_def by (rule further [OF fresh [of demo_config] asked])
  then have "sub_reachable (serve err demo_asked)" for err using serve_step [of err demo_asked] by (metis further)
  then show "sub_reachable demo_running"
    unfolding demo_running_def using serve_step [of "\<lambda>_. None" "serve (\<lambda>_. None) demo_asked"] by (metis further)
qed

lemma demo_values: "sm_worker demo_running = Refreshing 0 (settings_of demo_config) 0" "sm_version demo_running = 0"
  "sm_calls demo_running = [\<lparr>rc_version = 0, rc_done = None\<rparr>]"
  by code_simp+

theorem callers_get_current_settings_witness:
  "\<exists>s'. ask_refresh None demo_running = (Joined 0, s') \<and> open_call s' 0 \<and>
     (sm_pending s' = Some 0 \<or> sm_worker s' = Refreshing 0 (sm_base s') (sm_version s'))"
proof -
  have "fst (ask_refresh None demo_running) = Joined 0" by code_simp
  then obtain s' where s': "ask_refresh None demo_running = (Joined 0, s')" by (metis prod.collapse)
  from callers_get_current_settings [OF demo_reachable(2) s'] show ?thesis using s' by simp
qed

theorem accepted_edit_is_refreshed_witness:
  "\<exists>s' c. update_and_refresh None (Some (sm_base demo_running)) (Some (sm_base demo_running)) [''http://new''] True 0 demo_running
     = (Inr (Some (Sent c)), s') \<and> ss_urls (sm_base s') = [''http://new''] \<and> open_call s' c"
proof -
  let ?run = "update_and_refresh None (Some (sm_base demo_running)) (Some (sm_base demo_running)) [''http://new''] True 0 demo_running"
  have "fst ?run = Inr (Some (Sent 1))" by code_simp
  then obtain s' where s': "?run = (Inr (Some (Sent 1)), s')" by (metis prod.collapse)
  from accepted_edit_is_refreshed [OF demo_reachable(2) s'] show ?thesis using s' by auto
qed

theorem at_most_two_open_calls_witness: "card {c. open_call demo_running c} \<le> 2 \<and> sm_active demo_running = Some 0"
proof -
  have "sm_active demo_running = Some 0" by code_simp
  then show ?thesis using at_most_two_open_calls [OF demo_reachable(2)] by simp
qed

theorem every_call_is_answered_witness:
  "open_call demo_asked 0 \<and> \<not> open_call ((serve (\<lambda>_. Some NothingFetched) ^^ 4) demo_asked) 0"
proof -
  have "sm_calls demo_asked = [\<lparr>rc_version = 0, rc_done = None\<rparr>]" by code_simp
  then show ?thesis
    using every_call_is_answered [OF demo_reachable(1), of "\<lambda>_. Some NothingFetched" 0] by (simp add: open_call_def)
qed

definition demo_input :: "string option \<Rightarrow> refresh_input" where
  "demo_input write = \<lparr>ri_fetch = \<lparr>fo_nodes = [node_of_uri [] ''c''], fo_failed = 0, fo_empty = 0\<rparr>, ri_ended = False, ri_version = 0,
     ri_ended_inside = False, ri_version_inside = 0, ri_write = (\<lambda>_ _. write)\<rparr>"

definition demo_manager :: manager where
  "demo_manager = sample_state\<lparr>bm_cfg := Some demo_config\<rparr>"

theorem refresh_publishes_current_settings_witness:
  "\<exists>m' new. do_refresh sample_env (demo_input None) None (settings_of demo_config) 0 demo_manager = (None, m')
     \<and> bm_cfg m' = Some new \<and> c_subscriptions new = [''http://list'']
     \<and> map node_origin (c_nodes new) = [(source_inline, ''a''), (source_subscription, ''c'')]"
proof -
  have "fst (do_refresh sample_env (demo_input None) None (settings_of demo_config) 0 demo_manager) = None" by code_simp
  then obtain m' where m': "do_refresh sample_env (demo_input None) None (settings_of demo_config) 0 demo_manager = (None, m')"
    by (metis prod.collapse)
  have v: "ri_version_inside (demo_input None) = sm_version demo_running" by (simp add: demo_input_def demo_values)
  obtain old new where on: "bm_cfg demo_manager = Some old" "bm_cfg m' = Some new" "settings_of demo_config = sm_base demo_running"
    "c_subscriptions new = ss_urls (sm_base demo_running)"
    "map node_origin (c_nodes new) = map node_origin (filter (\<lambda>n. nc_source n = source_inline) (c_nodes old))
        @ map (\<lambda>n. (source_subscription, trim_space (nc_uri n))) (fo_nodes (ri_fetch (demo_input None)))"
    using refresh_publishes_current_settings [OF demo_reachable(2) demo_values(1) v m'] by metis
  have old: "old = demo_config" using on(1) by (simp add: demo_manager_def)
  have "c_subscriptions new = [''http://list'']" using on(4) by (simp flip: on(3)) (simp add: settings_of_def demo_config_def)
  moreover have "map node_origin (c_nodes new) = [(source_inline, ''a''), (source_subscription, ''c'')]"
    unfolding on(5) old by code_simp
  ultimately show ?thesis using m' on(2) by (intro exI [of _ m'] exI [of _ new] conjI)
qed

lemma failed_refresh_keeps_config_example:
  "\<exists>m' new. do_refresh sample_env (demo_input (Some ''disk full'')) None (settings_of good_config) 0 sample_state
     = (Some (Transaction (PersistError ''disk full'')), m') \<and> bm_cfg m' = Some new \<and> same_but_ports good_config new"
proof -
  have "fst (do_refresh sample_env (demo_input (Some ''disk full'')) None (settings_of good_config) 0 sample_state)
    = Some (Transaction (PersistError ''disk full''))" by code_simp
  then obtain m' where m': "do_refresh sample_env (demo_input (Some ''disk full'')) None (settings_of good_config) 0 sample_state
    = (Some (Transaction (PersistError ''disk full'')), m')" by (metis prod.collapse)
  from failed_refresh_keeps_config [OF sample_state_inv this] have "\<exists>new. bm_cfg m' = Some new \<and> same_but_ports good_config new"
    by auto
  then show ?thesis using m' by blast
qed

definition demo_baseline :: node_baseline where
  "demo_baseline = \<lparr>nb_hash = ''a'', nb_time = 5, nb_size = 1, nb_modified = False\<rparr>"

lemma changed_file_stays_reported_example:
  "\<exists>b. check_nodes_modified id (Some (6, 1)) (Some [node_of_uri [] ''b'']) demo_baseline demo_baseline = (True, b)
     \<and> check_nodes_modified id (Some (6, 1)) None b b = (True, b)"
proof -
  have "fst (check_nodes_modified id (Some (6, 1)) (Some [node_of_uri [] ''b'']) demo_baseline demo_baseline)" by code_simp
  then obtain b where b: "check_nodes_modified id (Some (6, 1)) (Some [node_of_uri [] ''b'']) demo_baseline demo_baseline = (True, b)"
    by (metis prod.collapse)
  show ?thesis using changed_file_stays_reported [OF b] b by (auto simp: demo_baseline_def)
qed

end
