(* ===== verification/MgmtAuth.thy ===== *)
theory MgmtAuth
  imports GoUrl
begin

text \<open>
  Who may use the management API: \<open>withAuth\<close>, \<open>handleAuth\<close> and the login sessions of \<open>internal/monitor/server.go\<close>.
  A login reads the password, checks what the client sent, and later creates the session under the lock; a
  change of the password may come in between. SHA-256, the random token and the decoded body are parameters.
\<close>

section \<open>Requests\<close>

record mgmt_request =
  mr_method :: string
  mr_fetch_site :: string                      \<comment> \<open>the header \<open>Sec-Fetch-Site\<close>, empty when missing\<close>
  mr_origin :: string
  mr_host :: string
  mr_authorization :: string
  mr_cookie :: "string option"                 \<comment> \<open>the cookie \<open>session_token\<close>\<close>

definition same_origin_mutation :: "mgmt_request \<Rightarrow> bool" where
  "same_origin_mutation r \<longleftrightarrow>
     (if mr_method r = ''GET'' \<or> mr_method r = ''HEAD'' \<or> mr_method r = ''OPTIONS'' then True
      else if mr_fetch_site r = ''cross-site'' then False
      else if mr_origin r = [] then True
      else case url_parse (mr_origin r) of
          None \<Rightarrow> False
        | Some u \<Rightarrow> (u_scheme u = ''http'' \<or> u_scheme u = ''https'') \<and> equal_fold (u_host u) (mr_host r))"

definition request_session_token :: "mgmt_request \<Rightarrow> string" where
  "request_session_token r =
     (let cookie = (case mr_cookie r of Some v \<Rightarrow> v | None \<Rightarrow> [])
      in if mr_authorization r \<noteq> []
         then (let (scheme, token, found) = cut_byte CHR '' '' (mr_authorization r)
               in if equal_fold scheme ''Bearer'' then (if found then token else []) else cookie)
         else cookie)"

section \<open>Login sessions\<close>

record login_session =
  ls_created :: instant
  ls_expires :: instant

record auth_state =
  au_password :: string
  au_sessions :: "(string, login_session) gomap"

definition session_life :: duration where "session_life = 24 * hour"
definition max_login_sessions :: nat where "max_login_sessions = 1024"

definition set_password :: "string \<Rightarrow> auth_state \<Rightarrow> bool \<times> auth_state" where
  "set_password p s = (if p = au_password s then (False, s) else (True, s\<lparr>au_password := p, au_sessions := []\<rparr>))"

text \<open>The search for the oldest session while the map is swept. Go visits a map in any order; the order here is that
  of the list, which decides between sessions created at the same instant.\<close>

fun oldest_session :: "string \<Rightarrow> instant \<Rightarrow> (string, login_session) gomap \<Rightarrow> string" where
  "oldest_session t at [] = t"
| "oldest_session t at ((k, x) # m) =
     (if t = [] \<or> ls_created x < at then oldest_session k (ls_created x) m else oldest_session t at m)"

definition create_session :: "string \<Rightarrow> instant \<Rightarrow> auth_state \<Rightarrow> auth_state" where
  "create_session token now s =
     (let kept = filter (\<lambda>(_, x). now < ls_expires x) (au_sessions s);
          room = (if length kept \<ge> max_login_sessions then mdel (oldest_session [] 0 kept) kept else kept)
      in s\<lparr>au_sessions := mput token \<lparr>ls_created = now, ls_expires = now + session_life\<rparr> room\<rparr>)"

definition validate_session :: "instant \<Rightarrow> string \<Rightarrow> auth_state \<Rightarrow> bool \<times> auth_state" where
  "validate_session now token s =
     (case mget (au_sessions s) token of
        None \<Rightarrow> (False, s)
      | Some x \<Rightarrow> if \<not> now < ls_expires x then (False, s\<lparr>au_sessions := mdel token (au_sessions s)\<rparr>) else (True, s))"

definition cleanup_expired_sessions :: "instant \<Rightarrow> auth_state \<Rightarrow> auth_state" where
  "cleanup_expired_sessions now s = s\<lparr>au_sessions := filter (\<lambda>(_, x). \<not> now > ls_expires x) (au_sessions s)\<rparr>"

definition logout :: "string \<Rightarrow> auth_state \<Rightarrow> auth_state" where
  "logout token s = s\<lparr>au_sessions := mdel token (au_sessions s)\<rparr>"

section \<open>Handlers\<close>

datatype gate = CrossSite | Unauthorized | Passed

definition with_auth :: "instant \<Rightarrow> mgmt_request \<Rightarrow> auth_state \<Rightarrow> gate \<times> auth_state" where
  "with_auth now r s =
     (if \<not> same_origin_mutation r then (CrossSite, s)
      else if au_password s = [] then (Passed, s)
      else let (ok, s') = validate_session now (request_session_token r) s in (if ok then Passed else Unauthorized, s'))"

datatype auth_reply =
    AuthCrossSite | LoggedOut | MethodNotAllowed | AuthStatus bool bool | BadRequest | ClientGone | WrongPassword
  | PasswordChanged | ServerError | LoggedIn string

text \<open>\<open>secureCompareStrings\<close> compares digests.\<close>

definition secure_compare :: "(string \<Rightarrow> string) \<Rightarrow> string \<Rightarrow> string \<Rightarrow> bool" where
  "secure_compare digest a b \<longleftrightarrow> digest a = digest b"

text \<open>\<open>handleAuth\<close> until the password is checked: a reply, or the password under which the login goes on. The body
  is \<open>None\<close> when it does not decode; \<open>gone\<close> says that the client left while a failed login was delayed.\<close>

definition auth_begin ::
  "(string \<Rightarrow> string) \<Rightarrow> instant \<Rightarrow> mgmt_request \<Rightarrow> string option \<Rightarrow> bool \<Rightarrow> auth_state \<Rightarrow> (auth_reply + string) \<times> auth_state" where
  "auth_begin digest now r body gone s =
     (if \<not> same_origin_mutation r then (Inl AuthCrossSite, s)
      else if mr_method r = ''DELETE'' then (Inl LoggedOut, logout (request_session_token r) s)
      else if mr_method r \<noteq> ''GET'' \<and> mr_method r \<noteq> ''POST'' then (Inl MethodNotAllowed, s)
      else if au_password s = [] then (Inl (AuthStatus True True), s)
      else if mr_method r = ''GET''
      then (let (ok, s') = validate_session now (request_session_token r) s in (Inl (AuthStatus False ok), s'))
      else case body of
          None \<Rightarrow> (Inl BadRequest, s)
        | Some supplied \<Rightarrow>
            if \<not> secure_compare digest supplied (au_password s) then (Inl (if gone then ClientGone else WrongPassword), s)
            else (Inr (au_password s), s))"

text \<open>The rest of a login; \<open>token\<close> is \<open>None\<close> when the random source fails.\<close>

definition auth_finish :: "string \<Rightarrow> string option \<Rightarrow> instant \<Rightarrow> auth_state \<Rightarrow> auth_reply \<times> auth_state" where
  "auth_finish password token now s =
     (if password \<noteq> au_password s then (PasswordChanged, s)
      else case token of
          None \<Rightarrow> (ServerError, s)
        | Some t \<Rightarrow> (LoggedIn t, create_session t now s))"

section \<open>The server under way\<close>

text \<open>The logins that have passed the check and not yet created their session, by the password they read.\<close>

record auth_system =
  ay_state :: auth_state
  ay_logins :: "string list"

text \<open>What happened, newest first: a client sent a password that was accepted against the second one, a session was
  created, the password was set, a token was logged out.\<close>

datatype auth_event = Accepted string string | Minted string instant | PasswordSet string | TokenDropped string

inductive auth_run :: "(string \<Rightarrow> string) \<Rightarrow> string \<Rightarrow> auth_event list \<Rightarrow> auth_system \<Rightarrow> bool" for digest initial where
  fresh: "auth_run digest initial [] \<lparr>ay_state = \<lparr>au_password = initial, au_sessions = []\<rparr>, ay_logins = []\<rparr>"
| accepted: "auth_run digest initial es y \<Longrightarrow> auth_begin digest now r (Some supplied) gone (ay_state y) = (Inr p, s) \<Longrightarrow>
    auth_run digest initial (Accepted supplied p # es) \<lparr>ay_state = s, ay_logins = p # ay_logins y\<rparr>"
| answered: "auth_run digest initial es y \<Longrightarrow> auth_begin digest now r body gone (ay_state y) = (Inl reply, s) \<Longrightarrow>
    auth_run digest initial ((if reply = LoggedOut then [TokenDropped (request_session_token r)] else []) @ es)
      (y\<lparr>ay_state := s\<rparr>)"
| finished: "auth_run digest initial es y \<Longrightarrow> i < length (ay_logins y) \<Longrightarrow>
    auth_finish (ay_logins y ! i) token now (ay_state y) = (reply, s) \<Longrightarrow>
    auth_run digest initial ((case reply of LoggedIn t \<Rightarrow> [Minted t now] | _ \<Rightarrow> []) @ es)
      \<lparr>ay_state = s, ay_logins = take i (ay_logins y) @ drop (i + 1) (ay_logins y)\<rparr>"
| gated: "auth_run digest initial es y \<Longrightarrow> with_auth now r (ay_state y) = (g, s) \<Longrightarrow>
    auth_run digest initial es (y\<lparr>ay_state := s\<rparr>)"
| cleaned: "auth_run digest initial es y \<Longrightarrow>
    auth_run digest initial es (y\<lparr>ay_state := cleanup_expired_sessions now (ay_state y)\<rparr>)"
| changed: "auth_run digest initial es y \<Longrightarrow> set_password p (ay_state y) = (b, s) \<Longrightarrow>
    auth_run digest initial ((if b then [PasswordSet p] else []) @ es) (y\<lparr>ay_state := s\<rparr>)"

section \<open>Bounded and well formed\<close>

definition sessions_ok :: "auth_state \<Rightarrow> bool" where
  "sessions_ok s \<longleftrightarrow> gomap_ok (au_sessions s) \<and> length (au_sessions s) \<le> max_login_sessions"

lemma oldest_session_in: "oldest_session t at m \<in> insert t (mkeys m)"
proof (induction m arbitrary: t at)
  case (Cons p m)
  obtain k x where p: "p = (k, x)" by (cases p)
  show ?case using Cons.IH [of k "ls_created x"] Cons.IH [of t at] p by auto
qed simp

lemma oldest_session_found: "m \<noteq> [] \<Longrightarrow> oldest_session [] 0 m \<in> mkeys m"
  using oldest_session_in by (cases m) (auto, fastforce)

lemma create_session_ok: "sessions_ok s \<Longrightarrow> sessions_ok (create_session token now s)"
proof -
  assume ok: "sessions_ok s"
  let ?kept = "filter (\<lambda>(_, x). now < ls_expires x) (au_sessions s)"
  let ?room = "if length ?kept \<ge> max_login_sessions then mdel (oldest_session [] 0 ?kept) ?kept else ?kept"
  have kept: "gomap_ok ?kept" "length ?kept \<le> max_login_sessions"
    using ok by (auto simp: sessions_ok_def intro: le_trans length_filter_le)
  have "?kept \<noteq> []" if "length ?kept \<ge> max_login_sessions" using that by (auto simp: max_login_sessions_def)
  then have "length ?room < max_login_sessions"
    using kept oldest_session_found [of ?kept] by (auto simp: length_mdel max_login_sessions_def)
  then show ?thesis using kept(1) by (simp add: create_session_def sessions_ok_def Let_def length_mput)
qed

lemma validate_session_ok: "sessions_ok s \<Longrightarrow> sessions_ok (snd (validate_session now token s))"
  by (auto simp: validate_session_def sessions_ok_def length_mdel split: option.split)

lemma with_auth_state:
  "snd (with_auth now r s) = s \<or> snd (with_auth now r s) = snd (validate_session now (request_session_token r) s)"
  by (auto simp: with_auth_def split: prod.split)

lemma auth_begin_state:
  "snd (auth_begin digest now r body gone s) \<in>
     {s, logout (request_session_token r) s, snd (validate_session now (request_session_token r) s)}"
  by (auto simp: auth_begin_def split: prod.split option.split)

lemma logout_ok: "sessions_ok s \<Longrightarrow> sessions_ok (logout token s)"
  by (auto simp: logout_def sessions_ok_def length_mdel)

lemma auth_run_ok: "auth_run digest initial es y \<Longrightarrow> sessions_ok (ay_state y)"
proof (induction rule: auth_run.induct)
  case (accepted es y now r supplied gone p s)
  then show ?case using auth_begin_state [of digest now r "Some supplied" gone "ay_state y"] validate_session_ok logout_ok by auto
next
  case (answered es y now r body gone reply s)
  then show ?case using auth_begin_state [of digest now r body gone "ay_state y"] validate_session_ok logout_ok by auto
next
  case (finished es y i token now reply s)
  then show ?case using create_session_ok by (auto simp: auth_finish_def split: if_splits option.splits)
next
  case (gated es y now r g s)
  then show ?case using with_auth_state [of now r "ay_state y"] validate_session_ok by auto
next
  case (cleaned es y now)
  then show ?case by (auto simp: cleanup_expired_sessions_def sessions_ok_def intro: le_trans length_filter_le)
next
  case (changed es y p b s)
  then show ?case by (auto simp: set_password_def sessions_ok_def split: if_splits)
qed (simp add: sessions_ok_def)

text \<open>However many clients log in, at most 1024 login sessions are kept, each under its own token.\<close>

lemma login_sessions_bounded:
  assumes "auth_run digest initial es y"
  shows "length (au_sessions (ay_state y)) \<le> 1024 \<and> distinct (map fst (au_sessions (ay_state y)))"
  using auth_run_ok [OF assms] by (simp add: sessions_ok_def gomap_ok_def max_login_sessions_def)

section \<open>What a session proves\<close>

definition minted_under :: "(string \<Rightarrow> string) \<Rightarrow> auth_event list \<Rightarrow> string \<Rightarrow> string \<Rightarrow> instant \<Rightarrow> bool" where
  "minted_under digest es pw token at \<longleftrightarrow>
     (\<exists>post pre supplied. es = post @ Minted token at # pre \<and> Accepted supplied pw \<in> set pre \<and> digest supplied = digest pw
        \<and> (\<forall>p. PasswordSet p \<notin> set post) \<and> TokenDropped token \<notin> set post)"

definition sessions_backed :: "(string \<Rightarrow> string) \<Rightarrow> auth_event list \<Rightarrow> auth_state \<Rightarrow> bool" where
  "sessions_backed digest es s \<longleftrightarrow> (\<forall>t x. mget (au_sessions s) t = Some x \<longrightarrow>
     minted_under digest es (au_password s) t (ls_created x) \<and> ls_expires x = ls_created x + session_life)"

definition logins_backed :: "(string \<Rightarrow> string) \<Rightarrow> auth_event list \<Rightarrow> string list \<Rightarrow> bool" where
  "logins_backed digest es ps \<longleftrightarrow> (\<forall>p\<in>set ps. \<exists>supplied. Accepted supplied p \<in> set es \<and> digest supplied = digest p)"

lemma minted_under_later:
  assumes "minted_under digest es pw token at" and "\<And>p. e \<noteq> PasswordSet p" and "e \<noteq> TokenDropped token"
  shows "minted_under digest (e # es) pw token at"
proof -
  obtain post pre supplied where *: "es = post @ Minted token at # pre" "Accepted supplied pw \<in> set pre" "digest supplied = digest pw"
    "\<forall>p. PasswordSet p \<notin> set post" "TokenDropped token \<notin> set post"
    using assms(1) by (auto simp: minted_under_def)
  then have "e # es = (e # post) @ Minted token at # pre" "\<forall>p. PasswordSet p \<notin> set (e # post)" "TokenDropped token \<notin> set (e # post)"
    using assms(2,3) by auto
  then show ?thesis using *(2,3) unfolding minted_under_def by blast
qed

text \<open>Sessions that disappear, and events that concern no kept session.\<close>

lemma sessions_backed_fewer:
  assumes "sessions_backed digest es s" and "au_password s' = au_password s"
    and "\<And>t x. mget (au_sessions s') t = Some x \<Longrightarrow> mget (au_sessions s) t = Some x"
  shows "sessions_backed digest es s'"
  using assms by (auto simp: sessions_backed_def)

lemma mget_filter: "gomap_ok m \<Longrightarrow> mget (filter P m) t = Some x \<Longrightarrow> mget m t = Some x"
  using mget_in_set [of m t x] mget_in_set [of "filter P m" t x] by simp

lemma validate_fewer:
  "au_password (snd (validate_session now token s)) = au_password s"
  "mget (au_sessions (snd (validate_session now token s))) t = Some x \<Longrightarrow> mget (au_sessions s) t = Some x"
  by (auto simp: validate_session_def mget_mdel split: option.splits if_splits)

lemma backed_validate: "sessions_backed digest es s \<Longrightarrow> sessions_backed digest es (snd (validate_session now token s))"
  using sessions_backed_fewer validate_fewer by metis

lemma backed_logout: "sessions_backed digest es s \<Longrightarrow> sessions_backed digest (TokenDropped token # es) (logout token s)"
  by (auto simp: sessions_backed_def logout_def mget_mdel intro!: minted_under_later split: if_splits)

lemma backed_create:
  assumes ok: "gomap_ok (au_sessions s)" and "sessions_backed digest es s"
    and "Accepted supplied (au_password s) \<in> set es" "digest supplied = digest (au_password s)"
  shows "sessions_backed digest (Minted token now # es) (create_session token now s)"
  unfolding sessions_backed_def
proof (intro allI impI)
  fix t x assume x: "mget (au_sessions (create_session token now s)) t = Some x"
  have pw: "au_password (create_session token now s) = au_password s" by (simp add: create_session_def Let_def)
  show "minted_under digest (Minted token now # es) (au_password (create_session token now s)) t (ls_created x)
      \<and> ls_expires x = ls_created x + session_life"
  proof (cases "t = token")
    case True
    then have "x = \<lparr>ls_created = now, ls_expires = now + session_life\<rparr>"
      using x by (auto simp: create_session_def Let_def mget_mput)
    moreover have "minted_under digest (Minted token now # es) (au_password s) token now"
      using assms(3,4) by (force simp: minted_under_def)
    ultimately show ?thesis using True pw by simp
  next
    case False
    then have "mget (au_sessions s) t = Some x"
      using x ok by (auto simp: create_session_def Let_def mget_mput mget_mdel dest!: mget_filter split: if_splits)
    then show ?thesis using assms(2) pw minted_under_later by (auto simp: sessions_backed_def)
  qed
qed

lemma auth_run_backed:
  "auth_run digest initial es y \<Longrightarrow> sessions_backed digest es (ay_state y) \<and> logins_backed digest es (ay_logins y)"
proof (induction rule: auth_run.induct)
  case fresh
  then show ?case by (simp add: sessions_backed_def logins_backed_def)
next
  case (accepted es y now r supplied gone p s)
  then have "s = ay_state y" "p = au_password s" "digest supplied = digest p"
    by (auto simp: auth_begin_def secure_compare_def split: if_splits prod.splits)
  moreover have "sessions_backed digest (Accepted supplied p # es) (ay_state y)"
    using accepted.IH minted_under_later by (auto simp: sessions_backed_def)
  ultimately show ?case using accepted.IH by (auto simp: logins_backed_def)
next
  case (answered es y now r body gone reply s)
  have log: "logins_backed digest (e # es) (ay_logins y)" for e using answered.IH by (auto simp: logins_backed_def)
  show ?case
  proof (cases "reply = LoggedOut")
    case True
    then have "s = logout (request_session_token r) (ay_state y)"
      using answered.hyps(2) by (auto simp: auth_begin_def split: if_splits prod.splits option.splits)
    then show ?thesis using backed_logout answered.IH True log by simp
  next
    case False
    then have "s = ay_state y \<or> s = snd (validate_session now (request_session_token r) (ay_state y))"
      using answered.hyps(2) by (auto simp: auth_begin_def split: if_splits prod.splits option.splits)
    then show ?thesis using backed_validate answered.IH False by auto
  qed
next
  case (finished es y i token now reply s)
  have less: "logins_backed digest (d @ es) (take i (ay_logins y) @ drop (i + 1) (ay_logins y))" for d
    using finished.IH by (auto simp: logins_backed_def dest!: in_set_takeD in_set_dropD)
  show ?case
  proof (cases "\<exists>t. reply = LoggedIn t")
    case True
    then obtain t where t: "reply = LoggedIn t" "s = create_session t now (ay_state y)" "ay_logins y ! i = au_password (ay_state y)"
      using finished.hyps(3) by (auto simp: auth_finish_def split: if_splits option.splits)
    obtain supplied where a: "Accepted supplied (au_password (ay_state y)) \<in> set es" "digest supplied = digest (au_password (ay_state y))"
      using finished.IH finished.hyps(2) t(3) nth_mem unfolding logins_backed_def by metis
    have "gomap_ok (au_sessions (ay_state y))" using auth_run_ok [OF finished.hyps(1)] by (simp add: sessions_ok_def)
    then show ?thesis using backed_create [OF _ _ a] finished.IH t less [of "[Minted t now]"] by simp
  next
    case False
    then have "s = ay_state y" using finished.hyps(3) by (auto simp: auth_finish_def split: if_splits option.splits)
    then show ?thesis using finished.IH less [of "[]"] False by (auto split: auth_reply.splits)
  qed
next
  case (gated es y now r g s)
  then show ?case using with_auth_state [of now r "ay_state y"] backed_validate by auto
next
  case (cleaned es y now)
  have "gomap_ok (au_sessions (ay_state y))" using auth_run_ok [OF cleaned.hyps] by (simp add: sessions_ok_def)
  then show ?case using cleaned.IH
    by (auto simp: cleanup_expired_sessions_def intro!: sessions_backed_fewer [of digest es "ay_state y"] dest: mget_filter)
next
  case (changed es y p b s)
  then show ?case by (auto simp: set_password_def sessions_backed_def logins_backed_def split: if_splits)
qed

text \<open>C14: While a password is set, a management handler runs only for a request of the same origin whose token was created
  less than 24 hours ago by a client that presented the present password, with no change of the password and no
  logout of that token since, in every interleaving of logins, logouts, password changes, sweeps and requests.\<close>

theorem handlers_need_the_present_password:
  assumes "auth_run digest initial es y" and "with_auth now r (ay_state y) = (Passed, s')"
    and "au_password (ay_state y) \<noteq> []"
  shows "same_origin_mutation r \<and> (\<exists>at. now < at + session_life \<and>
     minted_under digest es (au_password (ay_state y)) (request_session_token r) at)"
proof -
  have "same_origin_mutation r" and v: "fst (validate_session now (request_session_token r) (ay_state y))"
    using assms(2,3) by (auto simp: with_auth_def split: if_splits prod.splits)
  then obtain x where "mget (au_sessions (ay_state y)) (request_session_token r) = Some x" "now < ls_expires x"
    by (auto simp: validate_session_def split: option.splits if_splits)
  then show ?thesis using auth_run_backed [OF assms(1)] \<open>same_origin_mutation r\<close> by (auto simp: sessions_backed_def)
qed

section \<open>Examples\<close>

definition demo_request :: "string \<Rightarrow> string \<Rightarrow> mgmt_request" where
  "demo_request meth authz = \<lparr>mr_method = meth, mr_fetch_site = [], mr_origin = [], mr_host = ''host'', mr_authorization = authz,
     mr_cookie = None\<rparr>"

lemma demo_login:
  obtains y where "auth_run id ''pw'' [Minted ''t'' 5, Accepted ''pw'' ''pw''] y"
    and "ay_state y = \<lparr>au_password = ''pw'', au_sessions = [(''t'', \<lparr>ls_created = 5, ls_expires = 5 + session_life\<rparr>)]\<rparr>"
proof -
  let ?s = "\<lparr>au_password = ''pw'', au_sessions = []\<rparr>"
  have b: "auth_begin id 1 (demo_request ''POST'' []) (Some ''pw'') False ?s = (Inr ''pw'', ?s)" by code_simp
  have f: "auth_finish ''pw'' (Some ''t'') 5 ?s = (LoggedIn ''t'', \<lparr>au_password = ''pw'',
      au_sessions = [(''t'', \<lparr>ls_created = 5, ls_expires = 5 + session_life\<rparr>)]\<rparr>)" by code_simp
  have "auth_run id ''pw'' [Accepted ''pw'' ''pw''] \<lparr>ay_state = ?s, ay_logins = [''pw'']\<rparr>"
    using auth_run.accepted [OF auth_run.fresh, of id 1 "demo_request ''POST'' []" "''pw''" False "''pw''" "''pw''" ?s] b by simp
  from auth_run.finished [OF this, of 0 "Some ''t''" 5] f show thesis by (intro that) auto
qed

lemma login_sessions_bounded_example:
  "\<exists>es y. auth_run id ''pw'' es y \<and> au_sessions (ay_state y) \<noteq> [] \<and> length (au_sessions (ay_state y)) \<le> 1024"
proof -
  obtain y where y: "auth_run id ''pw'' [Minted ''t'' 5, Accepted ''pw'' ''pw''] y"
    "ay_state y = \<lparr>au_password = ''pw'', au_sessions = [(''t'', \<lparr>ls_created = 5, ls_expires = 5 + session_life\<rparr>)]\<rparr>"
    by (rule demo_login)
  then show ?thesis using login_sessions_bounded [OF y(1)] by (intro exI conjI) auto
qed

theorem handlers_need_the_present_password_witness:
  "\<exists>es y s'. auth_run id ''pw'' es y \<and> with_auth 9 (demo_request ''PUT'' ''Bearer t'') (ay_state y) = (Passed, s')
     \<and> (\<exists>at. 9 < at + session_life \<and> minted_under id es ''pw'' ''t'' at)"
proof -
  obtain y where y: "auth_run id ''pw'' [Minted ''t'' 5, Accepted ''pw'' ''pw''] y"
    "ay_state y = \<lparr>au_password = ''pw'', au_sessions = [(''t'', \<lparr>ls_created = 5, ls_expires = 5 + session_life\<rparr>)]\<rparr>"
    by (rule demo_login)
  have "fst (with_auth 9 (demo_request ''PUT'' ''Bearer t'') (ay_state y)) = Passed" unfolding y(2) by code_simp
  then obtain s' where s': "with_auth 9 (demo_request ''PUT'' ''Bearer t'') (ay_state y) = (Passed, s')" by (metis prod.collapse)
  have tok: "request_session_token (demo_request ''PUT'' ''Bearer t'') = ''t''" by code_simp
  from handlers_need_the_present_password [OF y(1) s']
  have "\<exists>at. 9 < at + session_life \<and> minted_under id [Minted ''t'' 5, Accepted ''pw'' ''pw''] ''pw'' ''t'' at"
    unfolding tok y(2) by simp
  then show ?thesis using y(1) s' by blast
qed

end
