(* ===== verification/ProxyLinks.thy ===== *)
theory ProxyLinks
  imports ProxyAuth GeoRegion SessionStore MonitorManager PortFacts
begin

text \<open>
  The links that the management API hands out: \<open>internal/monitor/proxy_sessions.go\<close> and \<open>handleExport\<close> of
  \<open>internal/monitor/server.go\<close>. A reply is a value that names its branch; messages in prose are left out. The
  decoded body and the query values are parameters.
\<close>

section \<open>Availability\<close>

datatype unavailable = ConfigMissing | ModeWithoutPool | RoutingOff | NoListenerUser | StoreMissing

definition proxy_session_availability :: "config option \<Rightarrow> unavailable option" where
  "proxy_session_availability cfg =
     (case cfg of
        None \<Rightarrow> Some ConfigMissing
      | Some c \<Rightarrow>
          if c_mode c \<noteq> [] \<and> c_mode c \<noteq> ''pool'' \<and> c_mode c \<noteq> ''hybrid'' then Some ModeWithoutPool
          else if \<not> session_routing_enabled (c_sticky c) then Some RoutingOff
          else if li_username (c_listener c) = [] then Some NoListenerUser
          else None)"

section \<open>The sessions\<close>

record session_page =
  sp_reason :: "unavailable option"            \<comment> \<open>\<open>None\<close> when session routing is enabled\<close>
  sp_ttl :: duration
  sp_max :: int
  sp_sessions :: "binding list"

datatype sessions_reply = SessionPage session_page | SessionsCleared nat | SessionsNoStore | SessionsMethod

text \<open>The store does its own locking, so listing and clearing are two operations.\<close>

definition handle_proxy_sessions ::
  "string \<Rightarrow> instant \<Rightarrow> config option \<Rightarrow> session_store option \<Rightarrow> (sessions_reply \<times> session_store option) option" where
  "handle_proxy_sessions meth now cfg store =
     (if meth = ''GET'' then
        (let reason0 = proxy_session_availability cfg;
             reason = (if store = None \<and> reason0 = None then Some StoreMissing else reason0);
             page = (\<lambda>bs. SessionPage \<lparr>sp_reason = reason,
               sp_ttl = (case cfg of Some c \<Rightarrow> session_ttl_or_default (c_sticky c) | None \<Rightarrow> default_session_ttl),
               sp_max = (case cfg of Some c \<Rightarrow> max_sessions_or_default (c_sticky c) | None \<Rightarrow> default_max_sessions),
               sp_sessions = bs\<rparr>)
         in case store of
              None \<Rightarrow> Some (page [], None)
            | Some s \<Rightarrow> map_option (\<lambda>(bs, s'). (page bs, Some s')) (list_bindings now s))
      else if meth = ''DELETE'' then
        (case store of
           None \<Rightarrow> Some (SessionsNoStore, None)
         | Some s \<Rightarrow> map_option (\<lambda>(bs, s'). (SessionsCleared (length bs), Some (clear_store s'))) (list_bindings now s))
      else Some (SessionsMethod, store))"

datatype item_reply = ItemMethod | ItemBadId | ItemNoStore | ItemNotFound | ItemDeleted

definition handle_proxy_session_item ::
  "string \<Rightarrow> string \<Rightarrow> instant \<Rightarrow> session_store option \<Rightarrow> (item_reply \<times> session_store option) option" where
  "handle_proxy_session_item meth path now store =
     (if meth \<noteq> ''DELETE'' then Some (ItemMethod, store)
      else let escaped = trim_prefix path ''/api/proxy-sessions/''
        in case url_unescape EncodePathSegment escaped of
             None \<Rightarrow> Some (ItemBadId, store)
           | Some key \<Rightarrow>
               if key = [] \<or> CHR ''/'' \<in> set escaped then Some (ItemBadId, store)
               else case store of
                   None \<Rightarrow> Some (ItemNoStore, None)
                 | Some s \<Rightarrow> map_option (\<lambda>(ok, s'). (if ok then ItemDeleted else ItemNotFound, Some s')) (delete_binding key now s))"

section \<open>The host of a link\<close>

text \<open>\<open>netip.Addr.IsUnspecified\<close>: an address all of whose digits are zero.\<close>

definition is_unspecified :: "string \<Rightarrow> bool" where
  "is_unspecified s \<longleftrightarrow> is_address s \<and> set s \<subseteq> set ''0:.''"

text \<open>The bytes that rule a name out: \<open>:[]% /\@?#\<close>, tab, carriage return and newline.\<close>

definition link_host_stops :: "char set" where
  "link_host_stops = set '':[]% /@?#'' \<union> {CHR 0x5C, CHR 0x09, CHR 0x0D, CHR 0x0A}"

definition link_candidate :: "string \<Rightarrow> string option" where
  "link_candidate candidate =
     (let h0 = trim_space candidate
      in if h0 = [] then None
         else let h1 = (case split_host_port h0 of Some (h, _) \<Rightarrow> h | None \<Rightarrow> h0);
                  h = (if has_prefix h1 ''['' \<and> has_suffix h1 '']'' then drop 1 (butlast h1) else h1)
           in if is_address h then (if \<not> is_unspecified h then Some h else None)
              else if h \<noteq> [] \<and> list_all (\<lambda>c. c \<notin> link_host_stops) h then Some h
              else None)"

definition proxy_link_host :: "string \<Rightarrow> string \<Rightarrow> string" where
  "proxy_link_host external host =
     (case link_candidate external of
        Some h \<Rightarrow> h
      | None \<Rightarrow> (case link_candidate host of Some h \<Rightarrow> h | None \<Rightarrow> ''127.0.0.1''))"

section \<open>One session link\<close>

record session_link =
  lk_url :: string
  lk_masked :: string
  lk_username :: string
  lk_session :: string
  lk_scheme :: string
  lk_enabled :: bool

datatype link_reply =
    LinkMethod | LinkBadBody | LinkBadScheme | LinkBadSession | LinkNoConfig | LinkNoPool | LinkUnavailable unavailable
  | LinkNoStore | LinkNoPort | LinkTooLong | Link session_link

definition proxy_url :: "string \<Rightarrow> string \<Rightarrow> 16 word \<Rightarrow> string \<Rightarrow> string \<Rightarrow> url" where
  "proxy_url scheme host port user pw =
     node_url scheme (if user \<noteq> [] then Some (url_user_password user pw) else None)
       (join_host_port host (itoa (uint port))) [] []"

definition handle_proxy_session_links ::
  "string \<Rightarrow> (string \<times> string) option \<Rightarrow> string \<Rightarrow> config option \<Rightarrow> bool \<Rightarrow> link_reply" where
  "handle_proxy_session_links meth body host cfg has_store =
     (if meth \<noteq> ''POST'' then LinkMethod
      else case body of
          None \<Rightarrow> LinkBadBody
        | Some (session, scheme0) \<Rightarrow>
            let scheme = (if scheme0 = [] then ''http'' else scheme0)
            in if scheme \<noteq> ''http'' \<and> scheme \<noteq> ''socks5'' then LinkBadScheme
               else if session \<noteq> [] \<and> \<not> valid_session_name session then LinkBadSession
               else case cfg of
                   None \<Rightarrow> LinkNoConfig
                 | Some c \<Rightarrow>
                     if c_mode c \<noteq> [] \<and> c_mode c \<noteq> ''pool'' \<and> c_mode c \<noteq> ''hybrid'' then LinkNoPool
                     else (case (session \<noteq> [], proxy_session_availability cfg) of
                         (True, Some reason) \<Rightarrow> LinkUnavailable reason
                       | (_, reason) \<Rightarrow>
                           if \<not> has_store \<and> session \<noteq> [] then LinkNoStore
                           else if li_port (c_listener c) = 0 then LinkNoPort
                           else let user = li_username (c_listener c) @ (if session \<noteq> [] then ''.'' @ session else []);
                                    pw = li_password (c_listener c)
                             in if scheme = ''socks5'' \<and> (length user > 255 \<or> length pw > 255) then LinkTooLong
                                else let h = proxy_link_host (c_external_ip c) host; p = li_port (c_listener c)
                                  in Link \<lparr>lk_url = url_string (proxy_url scheme h p user pw),
                                       lk_masked = url_string (proxy_url scheme h p user ''********''),
                                       lk_username = user, lk_session = session, lk_scheme = scheme,
                                       lk_enabled = (has_store \<and> reason = None)\<rparr>))"

section \<open>The export\<close>

datatype export_line = PoolHeading | RegionHeading "string list" | NodeHeading | Uri string

text \<open>A URI is listed once: \<open>seen\<close> holds the URIs among the lines.\<close>

definition append_uri :: "string \<Rightarrow> export_line list \<Rightarrow> export_line list" where
  "append_uri u ls = (if Uri u \<in> set ls then ls else ls @ [Uri u])"

definition append_proxy_schemes ::
  "string \<Rightarrow> (string \<Rightarrow> string) \<Rightarrow> string \<Rightarrow> 16 word \<Rightarrow> string \<Rightarrow> string \<Rightarrow> export_line list \<Rightarrow> export_line list" where
  "append_proxy_schemes scheme host_for addr port user pw ls =
     (let l1 = (if scheme = ''http'' \<or> scheme = ''all'' then append_uri (url_string (proxy_url ''http'' (host_for addr) port user pw)) ls else ls)
      in if scheme = ''socks5'' \<or> scheme = ''all'' then append_uri (url_string (proxy_url ''socks5'' (host_for addr) port user pw)) l1
         else l1)"

record export_source =
  xs_config :: "config option"                 \<comment> \<open>\<open>cfgSrc\<close>\<close>
  xs_external_ip :: string                     \<comment> \<open>the fields of the monitor's own configuration\<close>
  xs_username :: string
  xs_password :: string

datatype export_reply = ExportMethod | ExportBadScheme | Export bool "export_line list"

definition export_host :: "string \<Rightarrow> string \<Rightarrow> string \<Rightarrow> string" where
  "export_host external host addr = (if external \<noteq> [] then proxy_link_host external host else proxy_link_host addr host)"

definition node_credentials :: "export_source \<Rightarrow> string \<times> string" where
  "node_credentials x =
     (case xs_config x of
        None \<Rightarrow> (xs_username x, xs_password x)
      | Some c \<Rightarrow>
          if per_node_ports c then (mp_username (c_multi_port c), mp_password (c_multi_port c))
          else (li_username (c_listener c), li_password (c_listener c)))"

definition export_pool :: "string \<Rightarrow> (string \<Rightarrow> string) \<Rightarrow> config \<Rightarrow> export_line list \<Rightarrow> export_line list" where
  "export_pool scheme host_for c ls =
     (let l = c_listener c
      in if (c_mode c = ''pool'' \<or> c_mode c = ''hybrid'') \<and> li_port l > 0
         then append_proxy_schemes scheme host_for (li_address l) (li_port l) (li_username l) (li_password l) (ls @ [PoolHeading])
         else ls)"

definition export_region :: "(string \<Rightarrow> string) \<Rightarrow> config \<Rightarrow> export_line list \<Rightarrow> export_line list" where
  "export_region host_for c ls =
     (let g = c_geoip c
      in if ge_enabled g \<and> ge_port g > 0
         then append_uri (url_string (proxy_url ''http'' (host_for (ge_listen g)) (ge_port g)
                (li_username (c_listener c)) (li_password (c_listener c))))
              (ls @ [RegionHeading (map (\<lambda>r. ''/'' @ r @ ''/'') (filter (\<lambda>r. r \<noteq> region_other) all_regions))])
         else ls)"

fun export_nodes ::
  "string \<Rightarrow> (string \<Rightarrow> string) \<Rightarrow> string \<Rightarrow> string \<Rightarrow> node_info list \<Rightarrow> export_line list \<Rightarrow> export_line list" where
  "export_nodes scheme host_for user pw [] ls = ls"
| "export_nodes scheme host_for user pw (n # ns) ls =
     export_nodes scheme host_for user pw ns
       (if ni_listen_address n = [] \<or> ni_port n = 0 then ls
        else append_proxy_schemes scheme host_for (ni_listen_address n) (ni_port n) user pw ls)"

definition export_lines :: "string \<Rightarrow> string \<Rightarrow> node_info list \<Rightarrow> export_source \<Rightarrow> export_line list" where
  "export_lines scheme host nodes x =
     (let external = (case xs_config x of Some c \<Rightarrow> c_external_ip c | None \<Rightarrow> xs_external_ip x);
          mode = (case xs_config x of Some c \<Rightarrow> c_mode c | None \<Rightarrow> []);
          host_for = export_host external host;
          shared = (case xs_config x of Some c \<Rightarrow> export_region host_for c (export_pool scheme host_for c []) | None \<Rightarrow> []);
          headed = (if nodes \<noteq> [] \<and> (mode = ''hybrid'' \<or> mode = ''multi-port'' \<or> mode = []) then shared @ [NodeHeading] else shared)
      in export_nodes scheme host_for (fst (node_credentials x)) (snd (node_credentials x)) nodes headed)"

text \<open>The whole handler; \<open>raw_scheme\<close> and \<open>raw_all\<close> are the query values. The flag of the reply tells whether all
  nodes were asked for.\<close>

definition handle_export ::
  "string \<Rightarrow> string \<Rightarrow> string \<Rightarrow> string \<Rightarrow> instant \<Rightarrow> monitor \<Rightarrow> export_source \<Rightarrow> export_reply" where
  "handle_export meth raw_scheme raw_all host now m x =
     (if meth \<noteq> ''GET'' then ExportMethod
      else let scheme = or_text (to_lower (trim_space raw_scheme)) ''http''
        in if scheme \<noteq> ''http'' \<and> scheme \<noteq> ''socks5'' \<and> scheme \<noteq> ''all'' then ExportBadScheme
           else let include_all = to_lower (trim_space raw_all) \<in> {''1'', ''true'', ''yes''}
             in Export include_all (export_lines scheme host (map sn_info (snapshot_filtered (\<not> include_all) now m)) x))"

section \<open>Hosts\<close>

lemma link_candidate_specified:
  "link_candidate s = Some h \<Longrightarrow> h \<noteq> [] \<and> \<not> is_unspecified h \<and> (is_address h \<or> (\<forall>c\<in>set h. c \<notin> link_host_stops))"
proof -
  assume "link_candidate s = Some h"
  then have *: "is_address h \<and> \<not> is_unspecified h \<or> h \<noteq> [] \<and> \<not> is_address h \<and> (\<forall>c\<in>set h. c \<notin> link_host_stops)"
    by (auto simp: link_candidate_def Let_def list_all_iff split: if_splits option.splits)
  moreover have "\<not> is_address []" by (simp add: is_address_def is_ipv4_def is_ip_literal6_def)
  ultimately show ?thesis by (auto simp: is_unspecified_def)
qed

lemma loopback_host: "is_address ''127.0.0.1''" "\<not> is_unspecified ''127.0.0.1''"
  by code_simp+

lemma proxy_link_host_specified: "proxy_link_host ext host \<noteq> [] \<and> \<not> is_unspecified (proxy_link_host ext host)"
  using link_candidate_specified loopback_host by (auto simp: proxy_link_host_def split: option.split)

section \<open>What a link is worth\<close>

lemma proxy_url_parses:
  assumes "plain_scheme scheme" and "good_server h"
  shows "url_parse (url_string (proxy_url scheme h port user pw)) = Some (proxy_url scheme h port user pw)"
    and "url_hostname (proxy_url scheme h port user pw) = h"
    and "url_port (proxy_url scheme h port user pw) = itoa (uint port)"
proof -
  have dig: "list_all is_digit (itoa (uint port))" by (auto simp: list_all_iff intro: itoa_digits)
  have "join_host_port h (itoa (uint port)) \<noteq> []" by (simp add: join_host_port_def)
  then show "url_parse (url_string (proxy_url scheme h port user pw)) = Some (proxy_url scheme h port user pw)"
    unfolding proxy_url_def by (intro url_parse_node parse_host_join assms dig) simp_all
  show "url_hostname (proxy_url scheme h port user pw) = h" "url_port (proxy_url scheme h port user pw) = itoa (uint port)"
    using split_url_host_join [OF assms(2) dig] by (simp_all add: url_hostname_def url_port_def proxy_url_def)
qed

lemma proxy_url_user:
  "user \<noteq> [] \<Longrightarrow> user_name (u_user (proxy_url scheme h port user pw)) = user \<and>
     fst (user_password (u_user (proxy_url scheme h port user pw))) = pw"
  by (simp add: proxy_url_def user_name_def user_password_def url_user_password_def)

lemma link_schemes_plain: "plain_scheme ''http''" "plain_scheme ''socks5''"
  by code_simp+

lemma link_replyD:
  assumes "handle_proxy_session_links meth (Some (session, scheme0)) host (Some c) has_store = Link k" and "session \<noteq> []"
  shows "lk_scheme k \<in> {''http'', ''socks5''}" and "valid_session_name session" and "proxy_session_availability (Some c) = None"
    and "lk_username k = li_username (c_listener c) @ ''.'' @ session"
    and "lk_url k = url_string (proxy_url (lk_scheme k) (proxy_link_host (c_external_ip c) host) (li_port (c_listener c)) (lk_username k)
          (li_password (c_listener c)))"
    and "lk_masked k = url_string (proxy_url (lk_scheme k) (proxy_link_host (c_external_ip c) host) (li_port (c_listener c)) (lk_username k)
          ''********'')"
    and "has_store \<and> lk_enabled k"
proof -
  have "(lk_scheme k = ''http'' \<or> lk_scheme k = ''socks5'') \<and> valid_session_name session \<and> proxy_session_availability (Some c) = None
    \<and> lk_username k = li_username (c_listener c) @ ''.'' @ session
    \<and> lk_url k = url_string (proxy_url (lk_scheme k) (proxy_link_host (c_external_ip c) host) (li_port (c_listener c)) (lk_username k)
          (li_password (c_listener c)))
    \<and> lk_masked k = url_string (proxy_url (lk_scheme k) (proxy_link_host (c_external_ip c) host) (li_port (c_listener c)) (lk_username k)
          ''********'')
    \<and> has_store \<and> lk_enabled k"
    using assms unfolding handle_proxy_session_links_def Let_def
    by (simp split: if_split_asm option.split_asm) (elim disjE; auto)+
  then show "lk_scheme k \<in> {''http'', ''socks5''}" and "valid_session_name session" and "proxy_session_availability (Some c) = None"
    and "lk_username k = li_username (c_listener c) @ ''.'' @ session"
    and "lk_url k = url_string (proxy_url (lk_scheme k) (proxy_link_host (c_external_ip c) host) (li_port (c_listener c)) (lk_username k)
          (li_password (c_listener c)))"
    and "lk_masked k = url_string (proxy_url (lk_scheme k) (proxy_link_host (c_external_ip c) host) (li_port (c_listener c)) (lk_username k)
          ''********'')"
    and "has_store \<and> lk_enabled k" by blast+
qed

lemma session_accepted:
  assumes "base \<noteq> []" and "valid_session_name session"
  shows "authenticate digest True [\<lparr>ac_username = base, ac_password = pw\<rparr>] ctx (base @ ''.'' @ session) pw =
    (with_user (base @ ''.'' @ session) (with_session (base @ ''.'' @ session) ctx), True)"
proof -
  have "session \<noteq> []" using assms(2) by (auto simp: valid_session_name_def)
  have "parse_username base (base @ ''.'' @ session) = Some session" using assms by (simp add: parse_username_iff)
  then show ?thesis using \<open>session \<noteq> []\<close> by (simp add: authenticate_def verify_proxy_credentials_def)
qed

text \<open>C35: A session link works: a client that parses it reaches the host and port of the shared listener, and the user name
  and password in it are accepted there, for exactly the session the link was made for. The masked form differs
  from it in the password alone.\<close>

theorem session_link_opens_its_session:
  assumes "handle_proxy_session_links meth (Some (session, scheme0)) host (Some c) has_store = Link k" and "session \<noteq> []"
    and "good_server (proxy_link_host (c_external_ip c) host)"
  shows "\<exists>u. url_parse (lk_url k) = Some u \<and> url_hostname u = proxy_link_host (c_external_ip c) host
    \<and> url_port u = itoa (uint (li_port (c_listener c)))
    \<and> authenticate digest (session_routing_enabled (c_sticky c))
        [\<lparr>ac_username = li_username (c_listener c), ac_password = li_password (c_listener c)\<rparr>] ctx
        (user_name (u_user u)) (fst (user_password (u_user u)))
      = (with_user (lk_username k) (with_session (li_username (c_listener c) @ ''.'' @ session) ctx), True)
    \<and> url_parse (lk_masked k) = Some (u\<lparr>u_user := Some (url_user_password (lk_username k) ''********'')\<rparr>)"
proof -
  note d = link_replyD [OF assms(1,2)]
  let ?h = "proxy_link_host (c_external_ip c) host" and ?p = "li_port (c_listener c)"
  let ?u = "proxy_url (lk_scheme k) ?h ?p (lk_username k) (li_password (c_listener c))"
  have sch: "plain_scheme (lk_scheme k)" using d(1) link_schemes_plain by auto
  note parses = proxy_url_parses [OF sch assms(3)]
  have base: "li_username (c_listener c) \<noteq> []" and on: "session_routing_enabled (c_sticky c)"
    using d(3) by (auto simp: proxy_session_availability_def split: if_splits)
  have user: "lk_username k \<noteq> []" using d(4) base by simp
  have "url_parse (lk_masked k) = Some (?u\<lparr>u_user := Some (url_user_password (lk_username k) ''********'')\<rparr>)"
    unfolding d(6) parses(1) using user by (simp add: proxy_url_def node_url_def empty_url_def)
  then show ?thesis using parses [of ?p "lk_username k" "li_password (c_listener c)"] proxy_url_user [OF user] session_accepted [OF base d(2)] d(4,5) on
    by (intro exI [of _ ?u]) simp
qed

section \<open>What the export holds\<close>

definition scheme_uris :: "string \<Rightarrow> (string \<Rightarrow> string) \<Rightarrow> string \<Rightarrow> 16 word \<Rightarrow> string \<Rightarrow> string \<Rightarrow> string set" where
  "scheme_uris scheme host_for addr port user pw =
     {url_string (proxy_url s (host_for addr) port user pw) | s. s \<in> {''http'', ''socks5''} \<and> (scheme = s \<or> scheme = ''all'')}"

definition uris :: "export_line list \<Rightarrow> string set" where
  "uris ls = {u. Uri u \<in> set ls}"

definition once :: "export_line list \<Rightarrow> bool" where
  "once ls \<longleftrightarrow> (\<forall>u. count_list ls (Uri u) \<le> 1)"

lemma append_uri_facts [simp]:
  "uris (append_uri u ls) = insert u (uris ls)" "once ls \<Longrightarrow> once (append_uri u ls)"
  by (auto simp: append_uri_def uris_def once_def count_list_0_iff)

lemma heading_facts [simp]:
  "uris (ls @ [PoolHeading]) = uris ls" "uris (ls @ [RegionHeading rs]) = uris ls" "uris (ls @ [NodeHeading]) = uris ls"
  "once (ls @ [PoolHeading]) = once ls" "once (ls @ [RegionHeading rs]) = once ls" "once (ls @ [NodeHeading]) = once ls"
  "uris [] = {}" "once []"
  by (auto simp: uris_def once_def)

lemma append_schemes_facts [simp]:
  "uris (append_proxy_schemes scheme host_for addr port user pw ls) = uris ls \<union> scheme_uris scheme host_for addr port user pw"
  "once ls \<Longrightarrow> once (append_proxy_schemes scheme host_for addr port user pw ls)"
  by (auto simp: append_proxy_schemes_def scheme_uris_def Let_def)

lemma export_nodes_facts:
  "uris (export_nodes scheme host_for user pw ns ls) = uris ls \<union>
     (\<Union>n\<in>{n\<in>set ns. ni_listen_address n \<noteq> [] \<and> ni_port n \<noteq> 0}. scheme_uris scheme host_for (ni_listen_address n) (ni_port n) user pw)"
  "once ls \<Longrightarrow> once (export_nodes scheme host_for user pw ns ls)"
  by (induction ns arbitrary: ls) auto

definition pool_uris :: "string \<Rightarrow> (string \<Rightarrow> string) \<Rightarrow> config \<Rightarrow> string set" where
  "pool_uris scheme host_for c =
     (if (c_mode c = ''pool'' \<or> c_mode c = ''hybrid'') \<and> li_port (c_listener c) > 0
      then scheme_uris scheme host_for (li_address (c_listener c)) (li_port (c_listener c)) (li_username (c_listener c)) (li_password (c_listener c))
      else {})"

definition region_uris :: "(string \<Rightarrow> string) \<Rightarrow> config \<Rightarrow> string set" where
  "region_uris host_for c =
     (if ge_enabled (c_geoip c) \<and> ge_port (c_geoip c) > 0
      then {url_string (proxy_url ''http'' (host_for (ge_listen (c_geoip c))) (ge_port (c_geoip c)) (li_username (c_listener c)) (li_password (c_listener c)))}
      else {})"

lemma export_shared_facts:
  "uris (export_pool scheme host_for c ls) = uris ls \<union> pool_uris scheme host_for c"
  "uris (export_region host_for c ls) = uris ls \<union> region_uris host_for c"
  "once ls \<Longrightarrow> once (export_pool scheme host_for c ls)" "once ls \<Longrightarrow> once (export_region host_for c ls)"
  by (auto simp: export_pool_def export_region_def pool_uris_def region_uris_def Let_def)

text \<open>C37: The export lists each entry point once: the shared entry and the region router with the credentials of the
  listener, and each node that is checked, available and not banned (or every node, when all were asked for), if
  it has a listener of its own, with the per-node credentials; nothing else is listed, and never a wildcard address.\<close>

theorem export_lists_entries_once:
  assumes "handle_export meth raw_scheme raw_all host now m \<lparr>xs_config = Some c, xs_external_ip = e, xs_username = un, xs_password = up\<rparr>
      = Export include_all ls"
    and "scheme = or_text (to_lower (trim_space raw_scheme)) ''http''"
    and "host_for = export_host (c_external_ip c) host"
    and "(user, pw) = (if per_node_ports c then (mp_username (c_multi_port c), mp_password (c_multi_port c))
        else (li_username (c_listener c), li_password (c_listener c)))"
  shows "once ls \<and> uris ls = pool_uris scheme host_for c \<union> region_uris host_for c \<union>
      (\<Union>n\<in>{sn_info s | s. s \<in> set (snapshot_filtered (\<not> include_all) now m) \<and> ni_listen_address (sn_info s) \<noteq> [] \<and> ni_port (sn_info s) \<noteq> 0}.
         scheme_uris scheme host_for (ni_listen_address n) (ni_port n) user pw)
    \<and> (\<forall>addr. host_for addr \<noteq> [] \<and> \<not> is_unspecified (host_for addr))"
proof -
  let ?x = "\<lparr>xs_config = Some c, xs_external_ip = e, xs_username = un, xs_password = up\<rparr>"
  let ?nodes = "map sn_info (snapshot_filtered (\<not> include_all) now m)"
  have cred: "fst (node_credentials ?x) = user" "snd (node_credentials ?x) = pw"
    using assms(4) by (simp_all add: node_credentials_def split: if_splits)
  have ls: "ls = export_lines scheme host ?nodes ?x"
    using assms(1) unfolding handle_export_def assms(2) Let_def 
    by (auto simp only: export_reply.inject export_reply.distinct split: if_split_asm)
  have "once ls" and "uris ls = pool_uris scheme host_for c \<union> region_uris host_for c \<union>
      (\<Union>n\<in>{n\<in>set ?nodes. ni_listen_address n \<noteq> [] \<and> ni_port n \<noteq> 0}. scheme_uris scheme host_for (ni_listen_address n) (ni_port n) user pw)"
    unfolding ls export_lines_def cred Let_def
    by (simp_all add: export_nodes_facts export_shared_facts assms(3) del: set_map)
  moreover have "host_for addr \<noteq> [] \<and> \<not> is_unspecified (host_for addr)" for addr
    using proxy_link_host_specified by (simp add: assms(3) export_host_def)
  moreover have "{n\<in>set ?nodes. ni_listen_address n \<noteq> [] \<and> ni_port n \<noteq> 0} =
      {sn_info s | s. s \<in> set (snapshot_filtered (\<not> include_all) now m) \<and> ni_listen_address (sn_info s) \<noteq> [] \<and> ni_port (sn_info s) \<noteq> 0}"
    by auto
  ultimately show ?thesis by simp
qed

section \<open>Examples\<close>

definition link_config :: config where
  "link_config = (sample_config [])\<lparr>c_listener := \<lparr>li_address = ''0.0.0.0'', li_port = 2323, li_username = ''user'', li_password = ''p@ss''\<rparr>\<rparr>"

lemma link_host_example: "proxy_link_host (c_external_ip link_config) ''10.0.0.1:9091'' = ''10.0.0.1''" "good_server ''10.0.0.1''"
  by code_simp+

theorem session_link_opens_its_session_witness:
  "\<exists>k u. handle_proxy_session_links ''POST'' (Some (''work'', [])) ''10.0.0.1:9091'' (Some link_config) True = Link k
     \<and> url_parse (lk_url k) = Some u \<and> url_hostname u = ''10.0.0.1''
     \<and> snd (authenticate id True [\<lparr>ac_username = ''user'', ac_password = ''p@ss''\<rparr>] \<lparr>rx_session = [], rx_user = None\<rparr>
          (user_name (u_user u)) (fst (user_password (u_user u))))"
proof -
  let ?r = "handle_proxy_session_links ''POST'' (Some (''work'', [])) ''10.0.0.1:9091'' (Some link_config) True"
  have "valid_session_name ''work''" "proxy_session_availability (Some link_config) = None" "c_mode link_config = ''hybrid''"
    "li_port (c_listener link_config) = 2323"
    by code_simp+
  then obtain k where k: "?r = Link k" by (simp add: handle_proxy_session_links_def Let_def)
  have host: "good_server (proxy_link_host (c_external_ip link_config) ''10.0.0.1:9091'')" unfolding link_host_example(1) by (rule link_host_example)
  have vals: "li_username (c_listener link_config) = ''user''" "li_password (c_listener link_config) = ''p@ss''"
    "session_routing_enabled (c_sticky link_config)"
    by (simp_all add: link_config_def sample_config_def session_routing_enabled_def)
  from session_link_opens_its_session [OF k _ host, of id "\<lparr>rx_session = [], rx_user = None\<rparr>"]
  obtain u where "url_parse (lk_url k) = Some u" "url_hostname u = ''10.0.0.1''"
    "snd (authenticate id True [\<lparr>ac_username = ''user'', ac_password = ''p@ss''\<rparr>] \<lparr>rx_session = [], rx_user = None\<rparr>
          (user_name (u_user u)) (fst (user_password (u_user u))))"
    by (auto simp: link_host_example(1) vals)
  then show ?thesis using k by blast
qed

definition link_monitor :: monitor where
  "link_monitor = snd (register_node \<lparr>ni_tag = ''a'', ni_name = ''a'', ni_uri = ''a'', ni_mode = [], ni_listen_address = ''0.0.0.0'', ni_port = 24000,
     ni_region = [], ni_country = []\<rparr> (new_manager [] False 0))"

theorem export_lists_entries_once_witness:
  "\<exists>ls. handle_export ''GET'' [] ''1'' ''10.0.0.1:9091'' 0 link_monitor
       \<lparr>xs_config = Some link_config, xs_external_ip = [], xs_username = [], xs_password = []\<rparr> = Export True ls
     \<and> once ls \<and> url_string (proxy_url ''http'' ''10.0.0.1'' 2323 ''user'' ''p@ss'') \<in> uris ls"
proof -
  let ?x = "\<lparr>xs_config = Some link_config, xs_external_ip = [], xs_username = [], xs_password = []\<rparr>"
  have q: "to_lower (trim_space []) = []" "to_lower (trim_space ''1'') = ''1''" by code_simp+
  have run: "handle_export ''GET'' [] ''1'' ''10.0.0.1:9091'' 0 link_monitor ?x
      = Export True (export_lines ''http'' ''10.0.0.1:9091'' (map sn_info (snapshot_filtered False 0 link_monitor)) ?x)"
    by (simp add: handle_export_def Let_def q or_text_def)
  let ?ls = "export_lines ''http'' ''10.0.0.1:9091'' (map sn_info (snapshot_filtered False 0 link_monitor)) ?x"
  let ?h = "export_host (c_external_ip link_config) ''10.0.0.1:9091''"
  have cred: "(''u'', ''p'') = (if per_node_ports link_config then (mp_username (c_multi_port link_config), mp_password (c_multi_port link_config))
        else (li_username (c_listener link_config), li_password (c_listener link_config)))" by code_simp
  have "''http'' = or_text (to_lower (trim_space [])) ''http''" by (simp add: q or_text_def)
  from export_lists_entries_once [OF run this refl cred]
  have once: "once ?ls" and sub: "pool_uris ''http'' ?h link_config \<subseteq> uris ?ls" by auto
  have h: "?h ''0.0.0.0'' = ''10.0.0.1''" by code_simp
  have "url_string (proxy_url ''http'' (?h ''0.0.0.0'') 2323 ''user'' ''p@ss'') \<in> pool_uris ''http'' ?h link_config"
    by (auto simp: pool_uris_def scheme_uris_def link_config_def sample_config_def)
  then have "url_string (proxy_url ''http'' ''10.0.0.1'' 2323 ''user'' ''p@ss'') \<in> uris ?ls" using sub unfolding h by blast
  then show ?thesis using run once by (intro exI [of _ ?ls] conjI)
qed

end
