(* ===== verification/ConfigLoad.thy ===== *)
theory ConfigLoad
  imports PortFacts
begin

text \<open>
  Loading the configuration: \<open>Load\<close>, \<open>normalize\<close>, \<open>FetchSubscriptionNodes\<close> and the choice between fetched and cached
  nodes in \<open>internal/config/config.go\<close>. The decoded YAML file, HTTP answers, the file of nodes and the saved ports
  are parameters, and so is the order in which the concurrent downloads end.
\<close>

section \<open>Downloads\<close>

definition max_subscription_body :: int where "max_subscription_body = 10 * 1024 * 1024"

record source =
  so_get :: "string \<Rightarrow> (int \<times> string) option"       \<comment> \<open>status and body, or no answer\<close>
  so_yaml :: "string \<Rightarrow> clash_proxy option list option"
  so_json :: json_codec

definition fetch_subscription :: "source \<Rightarrow> string \<Rightarrow> node_config list option" where
  "fetch_subscription so sub_url =
     (case url_parse sub_url of
        None \<Rightarrow> None
      | Some u \<Rightarrow>
          if u_scheme u \<noteq> ''http'' \<and> u_scheme u \<noteq> ''https'' then None
          else if u_host u = [] then None
          else case so_get so sub_url of
              None \<Rightarrow> None
            | Some (status, body) \<Rightarrow>
                if status \<noteq> 200 then None
                else if int (length body) > max_subscription_body then None
                else parse_subscription_content (so_yaml so) body)"

text \<open>What \<open>LastError\<close> tells of: the download of an address, or the context that ended.\<close>

datatype fetch_failure = Download_failed string | Fetch_ended

record fetch_stats =
  fs_requested :: nat
  fs_unique :: nat
  fs_deduped_urls :: nat
  fs_successful :: nat
  fs_failed :: nat
  fs_empty :: nat
  fs_nodes :: nat
  fs_deduped_nodes :: nat
  fs_last_error :: "fetch_failure option"

text \<open>The results are collected in the order in which the workers deliver them. A context that ends early leaves URLs
  out of that order, and they count as failed.\<close>

definition fetch_subscription_nodes ::
  "source \<Rightarrow> string list \<Rightarrow> bool \<Rightarrow> string list \<Rightarrow> node_config list \<times> fetch_stats" where
  "fetch_subscription_nodes so order ended urls =
     (let (unique, dup) = dedupe_subscription_urls urls;
          stats = \<lparr>fs_requested = length urls, fs_unique = length unique, fs_deduped_urls = dup, fs_successful = 0,
            fs_failed = 0, fs_empty = 0, fs_nodes = 0, fs_deduped_nodes = 0,
            fs_last_error = None\<rparr>
      in if unique = [] then ([], stats)
         else let results = map (fetch_subscription so) order;
                  missing = length unique - length order;
                  nodes = concat (map (\<lambda>r. case r of Some ns \<Rightarrow> ns | None \<Rightarrow> []) results);
                  failed = filter (\<lambda>u. fetch_subscription so u = None) order;
                  last_error = (if ended \<and> 0 < missing then Some Fetch_ended
                    else if failed = [] then None else Some (Download_failed (last failed)));
                  (kept, dropped) = dedupe_nodes_by_key (so_json so) nodes
           in (kept, stats\<lparr>fs_successful := length (filter (\<lambda>r. r \<noteq> None \<and> r \<noteq> Some []) results),
                 fs_failed := length (filter (\<lambda>r. r = None) results) + (if ended then missing else 0),
                 fs_empty := length (filter (\<lambda>r. r = Some []) results),
                 fs_nodes := length nodes, fs_deduped_nodes := dropped,
                 fs_last_error := last_error\<rparr>))"

text \<open>\<open>shouldUseCachedSubscriptionNodes\<close>; no cache is the error of reading it.\<close>

definition use_cached :: "node_config list \<Rightarrow> node_config list option \<Rightarrow> fetch_stats \<Rightarrow> bool" where
  "use_cached fetched cached stats =
     (case cached of
        None \<Rightarrow> False
      | Some ns \<Rightarrow>
          if ns = [] then False
          else if fetched = [] then True
          else fs_failed stats > 0 \<and> length fetched < length ns)"

section \<open>The nodes of a configuration\<close>

record load_env =
  le_source :: source
  le_order :: "string list \<Rightarrow> string list"
  le_nodes_file :: "string \<Rightarrow> node_config list option"
  le_available :: "string \<Rightarrow> 16 word \<Rightarrow> bool"
  le_saved :: port_map

definition mark_source :: "string \<Rightarrow> node_config list \<Rightarrow> node_config list" where
  "mark_source src ns = map (\<lambda>n. n\<lparr>nc_source := src\<rparr>) ns"

text \<open>The nodes of the file that is named, unless there are subscriptions.\<close>

definition add_file_nodes :: "load_env \<Rightarrow> config \<Rightarrow> config_error + config" where
  "add_file_nodes e c =
     (if c_nodes_file c \<noteq> [] \<and> c_subscriptions c = []
      then (case le_nodes_file e (c_nodes_file c) of
              None \<Rightarrow> Inl (NodesFileError (c_nodes_file c))
            | Some ns \<Rightarrow> Inr (c\<lparr>c_nodes := c_nodes c @ mark_source source_file ns\<rparr>))
      else Inr c)"

text \<open>The nodes of the subscriptions, and what is written to the file of nodes.\<close>

definition add_subscription_nodes :: "load_env \<Rightarrow> config \<Rightarrow> config \<times> (string \<times> node_config list) option" where
  "add_subscription_nodes e c0 =
     (if c_subscriptions c0 = [] then (c0, None)
      else let path = or_text (c_nodes_file c0) (path_join (path_dir (c_file_path c0)) ''nodes.txt'');
               c = c0\<lparr>c_nodes_file := path\<rparr>;
               cached = le_nodes_file e path;
               unique = fst (dedupe_subscription_urls (c_subscriptions c));
               (fetched, stats) = fetch_subscription_nodes (le_source e) (le_order e unique) False (c_subscriptions c);
               fresh = mark_source source_subscription fetched
        in if use_cached fetched cached stats
           then (c\<lparr>c_nodes := c_nodes c @ mark_source source_subscription (the cached)\<rparr>, None)
           else (c\<lparr>c_nodes := c_nodes c @ fresh\<rparr>, if fresh \<noteq> [] then Some (path, fresh) else None))"

section \<open>Provisional ports\<close>

fun provisional_ports ::
  "json_codec \<Rightarrow> config \<Rightarrow> 16 word set \<Rightarrow> int \<Rightarrow> nat \<Rightarrow> node_config list \<Rightarrow> config_error + node_config list" where
  "provisional_ports jc c reserved cursor idx [] = Inr []"
| "provisional_ports jc c reserved cursor idx (n0 # ns) =
     (case tidy_node jc idx n0 of
        Inl err \<Rightarrow> Inl err
      | Inr n \<Rightarrow>
          let (n', cursor') =
            (if nc_port n = 0 \<and> per_node_ports c
             then (case next_free (\<lambda>_. True) reserved cursor of
                     Some p \<Rightarrow> (n\<lparr>nc_port := of_int p\<rparr>, p + 1)
                   | None \<Rightarrow> (n, 65536))
             else if nc_port n = 0 \<and> cursor \<le> 65535 then (n\<lparr>nc_port := of_int cursor\<rparr>, cursor + 1)
             else (n, cursor))
          in map_sum id (\<lambda>ms. apply_credentials c n' # ms) (provisional_ports jc c reserved cursor' (idx + 1) ns))"

text \<open>In hybrid mode a node on the port of the shared listener moves.\<close>

fun leave_pool_port ::
  "(16 word \<Rightarrow> bool) \<Rightarrow> 16 word \<Rightarrow> 16 word set \<Rightarrow> node_config list \<Rightarrow> config_error + node_config list" where
  "leave_pool_port available pool used [] = Inr []"
| "leave_pool_port available pool used (n # ns) =
     (if nc_port n = pool
      then (case next_free available used (uint pool + 1) of
              None \<Rightarrow> Inl (NoPorts pool)
            | Some p \<Rightarrow> map_sum id (\<lambda>ms. n\<lparr>nc_port := of_int p\<rparr> # ms) (leave_pool_port available pool (insert (of_int p) used) ns))
      else map_sum id (\<lambda>ms. n # ms) (leave_pool_port available pool used ns))"

definition avoid_pool_port :: "load_env \<Rightarrow> config \<Rightarrow> config_error + config" where
  "avoid_pool_port e c =
     (if c_mode c = ''hybrid''
      then map_sum id (\<lambda>ns. c\<lparr>c_nodes := ns\<rparr>)
        (leave_pool_port (le_available e (mp_address (c_multi_port c))) (li_port (c_listener c))
           (reserved_listener_ports c \<union> set (map nc_port (c_nodes c))) (c_nodes c))
      else Inr c)"

section \<open>Loading\<close>

text \<open>The ports of \<open>normalize\<close>, once all nodes are there.\<close>

definition normalize_ports :: "load_env \<Rightarrow> config \<Rightarrow> config_error + config" where
  "normalize_ports e c =
     (if c_nodes c = [] then Inl NoNodes
      else case provisional_ports (so_json (le_source e)) c (reserved_listener_ports c) (uint (mp_base_port (c_multi_port c))) 0 (c_nodes c) of
          Inl err \<Rightarrow> Inl err
        | Inr ns \<Rightarrow>
            (case avoid_pool_port e (normalize_log_config (c\<lparr>c_nodes := ns, c_log_level := or_text (c_log_level c) ''info''\<rparr>)) of
               Inl err \<Rightarrow> Inl err
             | Inr c' \<Rightarrow> normalize_sticky c'))"

definition normalize_loaded :: "load_env \<Rightarrow> config \<Rightarrow> config_error + config \<times> (string \<times> node_config list) option" where
  "normalize_loaded e c0 =
     (case apply_defaults c0 of
        Inl err \<Rightarrow> Inl err
      | Inr c \<Rightarrow>
          (case add_file_nodes e (c\<lparr>c_nodes := mark_source source_inline (c_nodes c)\<rparr>) of
             Inl err \<Rightarrow> Inl err
           | Inr c1 \<Rightarrow>
               (let (c2, written) = add_subscription_nodes e c1
                in map_sum id (\<lambda>c3. (c3, written)) (normalize_ports e c2))))"

definition explicit_ports :: "config \<Rightarrow> bool list" where
  "explicit_ports c = map (\<lambda>n. nc_port n > 0) (c_nodes c)"

definition load_config ::
  "load_env \<Rightarrow> string \<Rightarrow> config \<Rightarrow> config_error + config \<times> (string \<times> node_config list) option \<times> port_map option" where
  "load_config e path decoded =
     (let c0 = decoded\<lparr>c_file_path := path\<rparr>;
          c1 = (if c_nodes_file c0 \<noteq> [] \<and> \<not> path_is_abs (c_nodes_file c0)
                then c0\<lparr>c_nodes_file := path_join (path_dir path) (c_nodes_file c0)\<rparr> else c0)
      in case normalize_loaded e c1 of
           Inl err \<Rightarrow> Inl err
         | Inr (c2, written) \<Rightarrow>
             (case apply_persisted_ports (le_available e) (so_json (le_source e)) (le_saved e) (explicit_ports decoded) c2 of
                Inl err \<Rightarrow> Inl err
              | Inr (c3, ports) \<Rightarrow> Inr (c3, written, ports)))"

section \<open>The order of the downloads\<close>

definition dedupe_key :: "json_codec \<Rightarrow> node_config \<Rightarrow> string" where
  "dedupe_key jc n0 = (let n = n0\<lparr>nc_uri := trim_space (nc_uri n0)\<rparr> in if node_key jc n = [] then nc_uri n else node_key jc n)"

definition dedupe_keys :: "json_codec \<Rightarrow> node_config list \<Rightarrow> string set" where
  "dedupe_keys jc ns = dedupe_key jc ` {n\<in>set ns. trim_space (nc_uri n) \<noteq> []}"

lemma dedupe_key_trimmed [simp]: "dedupe_key jc (n\<lparr>nc_uri := trim_space (nc_uri n)\<rparr>) = dedupe_key jc n"
  by (simp add: dedupe_key_def Let_def)

lemma dedupe_nodes_from_facts:
  "dedupe_nodes_from jc seen ns = (out, k) \<Longrightarrow>
     length out + k = length ns \<and> distinct (map (dedupe_key jc) out) \<and> set (map (dedupe_key jc) out) = dedupe_keys jc ns - seen"
proof (induction ns arbitrary: seen out k)
  case (Cons n ns)
  let ?m = "n\<lparr>nc_uri := trim_space (nc_uri n)\<rparr>"
  consider "trim_space (nc_uri n) = []" | "trim_space (nc_uri n) \<noteq> []" "dedupe_key jc n \<in> seen"
    | "trim_space (nc_uri n) \<noteq> []" "dedupe_key jc n \<notin> seen" by blast
  then show ?case
  proof cases
    case 1
    then obtain k' where "dedupe_nodes_from jc seen ns = (out, k')" "k = k' + 1" using Cons.prems by (auto split: prod.splits)
    then show ?thesis using Cons.IH 1 by (fastforce simp: dedupe_keys_def)
  next
    case 2
    then obtain k' where "dedupe_nodes_from jc seen ns = (out, k')" "k = k' + 1"
      using Cons.prems by (auto simp: dedupe_key_def Let_def split: prod.splits)
    moreover have "dedupe_keys jc (n # ns) - seen = dedupe_keys jc ns - seen" using 2 by (auto simp: dedupe_keys_def)
    ultimately show ?thesis using Cons.IH by fastforce
  next
    case 3
    then obtain out' where o: "dedupe_nodes_from jc (insert (dedupe_key jc n) seen) ns = (out', k)" "out = ?m # out'"
      using Cons.prems by (auto simp: dedupe_key_def Let_def split: prod.splits)
    have "dedupe_keys jc (n # ns) - seen = insert (dedupe_key jc n) (dedupe_keys jc ns - insert (dedupe_key jc n) seen)"
      using 3 by (auto simp: dedupe_keys_def)
    then show ?thesis using Cons.IH [OF o(1)] o(2) by auto
  qed
qed (simp add: dedupe_keys_def)

lemma dedupe_by_key_facts:
  assumes "dedupe_nodes_by_key jc ns = (out, k)"
  shows "length out + k = length ns" and "distinct (map (dedupe_key jc) out)"
    and "2 \<le> length ns \<Longrightarrow> set (map (dedupe_key jc) out) = dedupe_keys jc ns" and "length ns < 2 \<Longrightarrow> out = ns \<and> k = 0"
proof -
  have "length out + k = length ns \<and> distinct (map (dedupe_key jc) out)"
  proof (cases "length ns < 2")
    case True
    then show ?thesis using assms by (cases ns) (auto simp: dedupe_nodes_by_key_def)
  next
    case False
    then show ?thesis using assms dedupe_nodes_from_facts [of jc "{}" ns out k] by (simp add: dedupe_nodes_by_key_def)
  qed
  then show "length out + k = length ns" "distinct (map (dedupe_key jc) out)" by simp_all
  show "2 \<le> length ns \<Longrightarrow> set (map (dedupe_key jc) out) = dedupe_keys jc ns" "length ns < 2 \<Longrightarrow> out = ns \<and> k = 0"
    using assms dedupe_nodes_from_facts [of jc "{}" ns out k] by (simp_all add: dedupe_nodes_by_key_def split: if_splits)
qed

text \<open>Lists with the same elements in another order lose the same number of duplicates and keep the same keys.\<close>

lemma dedupe_by_key_reordered:
  assumes "dedupe_nodes_by_key jc ns = (out, k)" and "dedupe_nodes_by_key jc ns' = (out', k')" and perm: "mset ns = mset ns'"
  shows "mset (map (dedupe_key jc) out) = mset (map (dedupe_key jc) out') \<and> k = k'"
proof -
  note f = dedupe_by_key_facts [OF assms(1)] and g = dedupe_by_key_facts [OF assms(2)]
  have len: "length ns = length ns'" using perm mset_eq_length by blast
  show ?thesis
  proof (cases "length ns < 2")
    case True
    have "ns = ns'"
    proof (cases ns)
      case (Cons n rest)
      then have "rest = []" using True by simp
      then show ?thesis using perm Cons by simp
    qed (use perm in simp)
    then show ?thesis using assms by simp
  next
    case False
    have "dedupe_keys jc ns = dedupe_keys jc ns'" using mset_eq_setD [OF perm] by (simp add: dedupe_keys_def)
    then have same: "set (map (dedupe_key jc) out) = set (map (dedupe_key jc) out')" using f(3) g(3) False len by simp
    then have "mset (map (dedupe_key jc) out) = mset (map (dedupe_key jc) out')"
      using f(2) g(2) set_eq_iff_mset_eq_distinct by blast
    moreover have "length out = length out'" using calculation by (metis length_map mset_eq_length)
    ultimately show ?thesis using f(1) g(1) len by simp
  qed
qed

lemma mset_concat_perm:
  assumes "mset xs = mset ys" shows "mset (concat (map f xs)) = mset (concat (map f ys))"
proof -
  have "mset (concat (map f zs)) = sum_mset (image_mset (mset \<circ> f) (mset zs))" for zs
    by (induction zs) simp_all
  then show ?thesis using assms by simp
qed

lemma length_filter_perm:
  assumes "mset xs = mset ys" shows "length (filter P (map f xs)) = length (filter P (map f ys))"
proof -
  have "length (filter P (map f zs)) = size (filter_mset P (image_mset f (mset zs)))" for zs
    by (metis mset_filter mset_map size_mset)
  then show ?thesis using assms by simp
qed

text \<open>The nodes that the downloads deliver, and a node as the deduplication writes it. A kept node is the first one
  delivered with its identity.\<close>

definition delivered :: "source \<Rightarrow> string list \<Rightarrow> node_config list" where
  "delivered so order = concat (map (\<lambda>u. case fetch_subscription so u of Some ns \<Rightarrow> ns | None \<Rightarrow> []) order)"

definition trimmed_node :: "node_config \<Rightarrow> node_config" where
  "trimmed_node n = n\<lparr>nc_uri := trim_space (nc_uri n)\<rparr>"

lemma dedupe_key_of_trimmed [simp]: "dedupe_key jc (trimmed_node n) = dedupe_key jc n"
  by (simp add: trimmed_node_def)

lemma dedupe_nodes_from_first:
  assumes "dedupe_nodes_from jc seen ns = (out, k)" and "n \<in> set out"
  shows "dedupe_key jc n \<notin> seen
    \<and> (\<exists>m. find (\<lambda>m. trim_space (nc_uri m) \<noteq> [] \<and> dedupe_key jc m = dedupe_key jc n) ns = Some m \<and> n = trimmed_node m)"
  using assms
proof (induction ns arbitrary: seen out k)
  case (Cons x ns)
  consider "trim_space (nc_uri x) = []" | "trim_space (nc_uri x) \<noteq> []" "dedupe_key jc x \<in> seen"
    | "trim_space (nc_uri x) \<noteq> []" "dedupe_key jc x \<notin> seen" by blast
  then show ?case
  proof cases
    case 1
    then obtain k' where "dedupe_nodes_from jc seen ns = (out, k')" using Cons.prems by (auto split: prod.splits)
    then show ?thesis using Cons.IH Cons.prems(2) 1 by fastforce
  next
    case 2
    then obtain k' where "dedupe_nodes_from jc seen ns = (out, k')"
      using Cons.prems by (auto simp: dedupe_key_def Let_def split: prod.splits)
    then show ?thesis using Cons.IH Cons.prems(2) 2 by fastforce
  next
    case 3
    then obtain out' where o: "dedupe_nodes_from jc (insert (dedupe_key jc x) seen) ns = (out', k)" "out = trimmed_node x # out'"
      using Cons.prems by (auto simp: dedupe_key_def trimmed_node_def Let_def split: prod.splits)
    show ?thesis
    proof (cases "n = trimmed_node x")
      case False
      then have "n \<in> set out'" using o(2) Cons.prems(2) by simp
      then show ?thesis using Cons.IH [OF o(1)] by auto
    qed (use 3 in simp)
  qed
qed simp

lemma dedupe_by_key_first:
  assumes "dedupe_nodes_by_key jc ns = (out, k)" and "n \<in> set out"
  shows "\<exists>m\<in>set ns. dedupe_key jc m = dedupe_key jc n \<and> trimmed_node n = trimmed_node m"
proof (cases "length ns < 2")
  case False
  then have "dedupe_nodes_from jc {} ns = (out, k)" using assms(1) by (simp add: dedupe_nodes_by_key_def)
  from dedupe_nodes_from_first [OF this assms(2)] obtain m where
    "find (\<lambda>m. trim_space (nc_uri m) \<noteq> [] \<and> dedupe_key jc m = dedupe_key jc n) ns = Some m" "n = trimmed_node m" by blast
  then show ?thesis by (intro bexI [of _ m]) (auto simp: find_Some_iff trimmed_node_def)
qed (use assms dedupe_by_key_facts(4) [OF assms(1)] in blast)

lemma kept_nodes_determined:
  assumes "mset (map key xs) = mset (map key ys)" and "distinct (map key xs)" and "\<And>x. key (g x) = key x"
    and "\<And>x. x \<in> set xs \<Longrightarrow> \<exists>m\<in>A. key m = key x \<and> g x = g m" and "\<And>y. y \<in> set ys \<Longrightarrow> \<exists>m\<in>A. key m = key y \<and> g y = g m"
    and "\<forall>m\<in>A. \<forall>m'\<in>A. key m = key m' \<longrightarrow> g m = g m'"
  shows "mset (map g xs) = mset (map g ys)"
proof -
  have keys: "set (map key xs) = set (map key ys)" using assms(1) mset_eq_setD by blast
  have dist: "distinct (map key ys)" using assms(1,2) mset_eq_imp_distinct_iff by blast
  have inj: "distinct (map g zs)" if "distinct (map key zs)" for zs
    using that assms(3) by (metis distinct_map inj_on_def)
  have one: "g x = g y" if "x \<in> set xs" "y \<in> set ys" "key x = key y" for x y
    using assms(4) [OF that(1)] assms(5) [OF that(2)] that(3) assms(6) by metis
  have "set (map g xs) = set (map g ys)"
  proof (intro set_eqI iffI)
    fix z assume "z \<in> set (map g xs)"
    then obtain x where x: "x \<in> set xs" "z = g x" by auto
    moreover obtain y where "y \<in> set ys" "key x = key y" using keys x(1) by (auto simp: set_eq_iff image_iff)
    ultimately show "z \<in> set (map g ys)" using one by auto
  next
    fix z assume "z \<in> set (map g ys)"
    then obtain y where y: "y \<in> set ys" "z = g y" by auto
    moreover obtain x where "x \<in> set xs" "key x = key y" using keys y(1) by (metis (no_types, lifting) imageE image_eqI set_map)
    ultimately have "x \<in> set xs" "z = g x" using one [of x y] by simp_all
    then show "z \<in> set (map g xs)" by simp
  qed
  then show ?thesis using inj [OF assms(2)] inj [OF dist] set_eq_iff_mset_eq_distinct by blast
qed

text \<open>C17: The order in which the downloads end decides neither the identities of the fetched nodes, each of which is kept
  once, nor any count, nor whether an error is reported. It may decide only which of several writings of one identity
  is kept, where the node stands and which failure is reported last: each kept node is a delivered one, and when no
  identity is delivered in two writings the kept nodes are the same.\<close>

theorem arrival_order_keeps_identities:
  assumes "mset order = mset order'" and "fetch_subscription_nodes so order ended urls = (ns, st)"
    and "fetch_subscription_nodes so order' ended urls = (ns', st')"
  shows "st\<lparr>fs_last_error := None\<rparr> = st'\<lparr>fs_last_error := None\<rparr> \<and> (fs_last_error st = None \<longleftrightarrow> fs_last_error st' = None)
    \<and> mset (map (dedupe_key (so_json so)) ns) = mset (map (dedupe_key (so_json so)) ns') \<and> distinct (map (dedupe_key (so_json so)) ns)
    \<and> (\<forall>n\<in>set ns. \<exists>m\<in>set (delivered so order). dedupe_key (so_json so) m = dedupe_key (so_json so) n \<and> trimmed_node n = trimmed_node m)
    \<and> ((\<forall>m\<in>set (delivered so order). \<forall>m'\<in>set (delivered so order). dedupe_key (so_json so) m = dedupe_key (so_json so) m'
          \<longrightarrow> trimmed_node m = trimmed_node m') \<longrightarrow> mset (map trimmed_node ns) = mset (map trimmed_node ns'))"
proof (cases "fst (dedupe_subscription_urls urls) = []")
  case True
  then show ?thesis using assms(2,3) by (auto simp: fetch_subscription_nodes_def Let_def split: prod.splits)
next
  case False
  let ?f = "fetch_subscription so" and ?g = "\<lambda>r. case r of Some ns \<Rightarrow> ns | None \<Rightarrow> []"
  let ?all = "\<lambda>us. concat (map ?g (map ?f us))"
  have deliv: "delivered so us = ?all us" for us by (simp add: delivered_def comp_def)
  obtain out k where d: "dedupe_nodes_by_key (so_json so) (?all order) = (out, k)" by fastforce
  obtain out' k' where d': "dedupe_nodes_by_key (so_json so) (?all order') = (out', k')" by fastforce
  have all: "mset (?all order) = mset (?all order')"
    using mset_concat_perm [OF assms(1), of "?g \<circ> ?f"] by (simp only: map_map)
  note same = dedupe_by_key_reordered [OF d d' all]
  have len: "length order = length order'" "length (?all order) = length (?all order')"
    using assms(1) all mset_eq_length by blast+
  have failed: "(filter (\<lambda>u. ?f u = None) order = []) \<longleftrightarrow> (filter (\<lambda>u. ?f u = None) order' = [])"
    using mset_eq_setD [OF assms(1)] by (simp add: filter_empty_conv)
  note counts = length_filter_perm [OF assms(1), of _ ?f]
  obtain unique dup where u: "dedupe_subscription_urls urls = (unique, dup)" by fastforce
  have kept: "ns = out" "ns' = out'" using assms(2,3) False d d' u by (auto simp: fetch_subscription_nodes_def Let_def)
  have stats: "st\<lparr>fs_last_error := None\<rparr> = st'\<lparr>fs_last_error := None\<rparr>"
    using assms(2,3) False d d' u same len counts [of "\<lambda>r. r = None"] counts [of "\<lambda>r. r = Some []"]
      counts [of "\<lambda>r. r \<noteq> None \<and> r \<noteq> Some []"]
    by (auto simp: fetch_subscription_nodes_def Let_def)
  have last_error: "fs_last_error (snd (fetch_subscription_nodes so us ended urls)) = (if ended \<and> 0 < length unique - length us then Some Fetch_ended
      else if filter (\<lambda>u. ?f u = None) us = [] then None else Some (Download_failed (last (filter (\<lambda>u. ?f u = None) us))))" for us
    using False u by (simp add: fetch_subscription_nodes_def Let_def split: prod.split)
  have errors: "fs_last_error st = None \<longleftrightarrow> fs_last_error st' = None"
    using last_error [of order] last_error [of order'] assms(2,3) len failed by (simp split: if_splits)
  have from_first: "\<exists>m\<in>set (delivered so order). dedupe_key (so_json so) m = dedupe_key (so_json so) n \<and> trimmed_node n = trimmed_node m"
    if "n \<in> set ns" for n using dedupe_by_key_first [OF d] that kept deliv by simp
  have from_other: "\<exists>m\<in>set (delivered so order). dedupe_key (so_json so) m = dedupe_key (so_json so) n \<and> trimmed_node n = trimmed_node m"
    if "n \<in> set ns'" for n using dedupe_by_key_first [OF d'] that kept deliv mset_eq_setD [OF all] by simp
  have keys: "mset (map (dedupe_key (so_json so)) ns) = mset (map (dedupe_key (so_json so)) ns')" "distinct (map (dedupe_key (so_json so)) ns)"
    using same kept dedupe_by_key_facts(2) [OF d] by simp_all
  note nodes = kept_nodes_determined [where g = trimmed_node, OF keys dedupe_key_of_trimmed from_first from_other]
  show ?thesis using stats errors keys from_first nodes by blast
qed

section \<open>Ports and nodes after loading\<close>

lemma provisional_keeps:
  "provisional_ports jc c reserved cur idx ns = Inr ms \<Longrightarrow>
     list_all2 (\<lambda>n m. node_origin m = node_origin n \<and> (nc_port n \<noteq> 0 \<longrightarrow> nc_port m = nc_port n)) ns ms"
proof (induction ns arbitrary: cur idx ms)
  case (Cons n0 ns)
  then obtain n where n: "tidy_node jc idx n0 = Inr n" by (auto split: sum.splits)
  have same: "node_origin n = node_origin n0" "nc_port n = nc_port n0"
    using tidy_node_origin [OF n] tidy_node_facts [OF n] by simp_all
  obtain n' cur' where step: "(if nc_port n = 0 \<and> per_node_ports c
       then (case next_free (\<lambda>_. True) reserved cur of Some p \<Rightarrow> (n\<lparr>nc_port := of_int p\<rparr>, p + 1) | None \<Rightarrow> (n, 65536))
       else if nc_port n = 0 \<and> cur \<le> 65535 then (n\<lparr>nc_port := of_int cur\<rparr>, cur + 1) else (n, cur)) = (n', cur')"
    by fastforce
  then have n': "node_origin n' = node_origin n" "nc_port n \<noteq> 0 \<longrightarrow> nc_port n' = nc_port n"
    by (auto split: if_splits option.splits)
  obtain ms' where "provisional_ports jc c reserved cur' (idx + 1) ns = Inr ms'" "ms = apply_credentials c n' # ms'"
    using Cons.prems n step by (auto simp: map_sum_def split: sum.splits)
  then show ?case using Cons.IH n' same by simp
qed simp

lemma leave_pool_keeps:
  "leave_pool_port av pool used ns = Inr ms \<Longrightarrow>
     list_all2 (\<lambda>n m. node_origin m = node_origin n \<and> (nc_port n \<noteq> pool \<longrightarrow> nc_port m = nc_port n)) ns ms"
  by (induction ns arbitrary: used ms) (auto simp: map_sum_def split: if_splits option.splits sum.splits)

definition kept_except :: "config \<Rightarrow> node_config \<Rightarrow> node_config \<Rightarrow> bool" where
  "kept_except c n m \<longleftrightarrow> node_origin m = node_origin n \<and>
     (nc_port n \<noteq> 0 \<and> \<not> (c_mode c = ''hybrid'' \<and> nc_port n = li_port (c_listener c)) \<longrightarrow> nc_port m = nc_port n)"

lemma normalize_ports_kept:
  assumes "normalize_ports e c = Inr c'"
  shows "list_all2 (kept_except c) (c_nodes c) (c_nodes c')" and "c_mode c' = c_mode c"
    and "c_nodes_file c' = c_nodes_file c"
proof -
  obtain ns where ns: "provisional_ports (so_json (le_source e)) c (reserved_listener_ports c)
      (uint (mp_base_port (c_multi_port c))) 0 (c_nodes c) = Inr ns"
    using assms by (auto simp: normalize_ports_def split: if_splits sum.splits)
  let ?d = "normalize_log_config (c\<lparr>c_nodes := ns, c_log_level := or_text (c_log_level c) ''info''\<rparr>)"
  have d: "c_nodes ?d = ns" "c_mode ?d = c_mode c" "c_listener ?d = c_listener c" "c_nodes_file ?d = c_nodes_file c"
    by (simp_all add: normalize_log_config_def Let_def)
  obtain d' where d': "avoid_pool_port e ?d = Inr d'" "normalize_sticky d' = Inr c'"
    using assms ns by (auto simp: normalize_ports_def split: if_splits sum.splits)
  note f = normalize_sticky_facts [OF d'(2)]
  have nf: "c_nodes_file c' = c_nodes_file d'" using d'(2) by (auto simp: normalize_sticky_def Let_def split: if_splits option.splits)
  have mid: "list_all2 (\<lambda>n m. node_origin m = node_origin n \<and> (\<not> (c_mode c = ''hybrid'' \<and> nc_port n = li_port (c_listener c)) \<longrightarrow> nc_port m = nc_port n)) ns (c_nodes d')
      \<and> c_mode d' = c_mode c \<and> c_nodes_file d' = c_nodes_file c"
  proof (cases "c_mode c = ''hybrid''")
    case True
    then obtain ms where "leave_pool_port (le_available e (mp_address (c_multi_port ?d))) (li_port (c_listener ?d))
        (reserved_listener_ports ?d \<union> set (map nc_port (c_nodes ?d))) (c_nodes ?d) = Inr ms" "d' = ?d\<lparr>c_nodes := ms\<rparr>"
      using d'(1) d(2) unfolding avoid_pool_port_def by (auto simp: map_sum_def split: sum.splits if_splits)
    then show ?thesis using leave_pool_keeps d True by fastforce
  next
    case False
    then have "d' = ?d" using d'(1) d(2) by (simp add: avoid_pool_port_def)
    then show ?thesis using d False by (auto intro: list_all2_refl)
  qed
  have "list_all2 (kept_except c) (c_nodes c) (c_nodes d')"
    using provisional_keeps [OF ns] mid by (auto simp: list_all2_conv_all_nth kept_except_def)
  then show "list_all2 (kept_except c) (c_nodes c) (c_nodes c')" "c_mode c' = c_mode c" "c_nodes_file c' = c_nodes_file c"
    using f mid nf by simp_all
qed

lemma clear_provisional_facts:
  "clear_provisional jc ex ns saved = (ns', s) \<Longrightarrow>
     map node_origin ns' = map node_origin ns \<and> (\<forall>K. mget saved K = None \<longrightarrow> mget s K = None)
     \<and> (\<forall>k. k < length ex \<and> k < length ns \<and> ex ! k \<longrightarrow> ns' ! k = ns ! k \<and> mget s (node_key jc (ns ! k)) = None)"
proof (induction ns arbitrary: ex saved ns' s)
  case (Cons n ns)
  let ?e = "ex \<noteq> [] \<and> hd ex" and ?saved = "if ex \<noteq> [] \<and> hd ex then mdel (node_key jc n) saved else saved"
  obtain ms where r: "clear_provisional jc (tl ex) ns ?saved = (ms, s)" and ns': "ns' = (if ?e then n else n\<lparr>nc_port := 0\<rparr>) # ms"
    using Cons.prems by (auto simp: Let_def split: prod.splits)
  note IH = Cons.IH [OF r]
  have none: "\<forall>K. mget saved K = None \<longrightarrow> mget s K = None" using IH by (auto simp: mget_mdel split: if_splits)
  have head: "mget s (node_key jc n) = None" if ?e using IH that by (auto simp: mget_mdel)
  have "ns' ! k = (n # ns) ! k \<and> mget s (node_key jc ((n # ns) ! k)) = None" if "k < length ex" "k < length (n # ns)" "ex ! k" for k
  proof (cases k)
    case 0
    then have ?e using that by (cases ex) auto
    then show ?thesis using ns' head 0 by simp
  next
    case (Suc j)
    then have "j < length (tl ex)" "j < length ns" "tl ex ! j" using that by (auto simp: nth_tl)
    then show ?thesis using IH ns' Suc by simp
  qed
  then show ?case using IH none ns' by auto
qed simp

lemma preserve_unsaved:
  "preserve_ports jc True pm i used ns = Inr (ms, u) \<Longrightarrow> k < length ns \<Longrightarrow> mget pm (node_key jc (ns ! k)) = None \<Longrightarrow>
     nc_port (fst (ms ! k)) = nc_port (ns ! k)"
proof (induction ns arbitrary: i used ms u k)
  case (Cons n0 ns)
  from preserve_portsE [OF Cons.prems(1)] obtain n m used' ms'
    where *: "tidy_node jc i n0 = Inr n" "preserve_node jc True pm used n = (m, used')"
      "preserve_ports jc True pm (i + 1) used' ns = Inr (ms', u)" "ms = m # ms'" by metis
  have n: "node_key jc n = node_key jc n0" "nc_port n = nc_port n0" using tidy_node_facts [OF *(1)] by (auto intro: node_key_cong)
  show ?case
  proof (cases k)
    case 0
    then show ?thesis using Cons.prems(3) n *(2,4) by (auto simp: preserve_node_def)
  next
    case (Suc j)
    then show ?thesis using Cons.IH [OF *(3), of j] Cons.prems(2,3) *(4) by simp
  qed
qed simp

lemma load_configE:
  assumes "load_config e path decoded = Inr (c, written, ports)"
  obtains c0 c1 c2 c3 where "apply_defaults c0 = Inr c1" and "c_nodes c0 = c_nodes decoded" and "c_subscriptions c0 = c_subscriptions decoded"
    and "c_listener c0 = c_listener decoded"
    and "add_file_nodes e (c1\<lparr>c_nodes := mark_source source_inline (c_nodes c1)\<rparr>) = Inr c2"
    and "normalize_ports e (fst (add_subscription_nodes e c2)) = Inr c3" and "written = snd (add_subscription_nodes e c2)"
    and "apply_persisted_ports (le_available e) (so_json (le_source e)) (le_saved e) (explicit_ports decoded) c3 = Inr (c, ports)"
proof -
  define c0 where "c0 = (if c_nodes_file decoded \<noteq> [] \<and> \<not> path_is_abs (c_nodes_file decoded)
      then decoded\<lparr>c_file_path := path, c_nodes_file := path_join (path_dir path) (c_nodes_file decoded)\<rparr> else decoded\<lparr>c_file_path := path\<rparr>)"
  have c0: "c_nodes c0 = c_nodes decoded" "c_subscriptions c0 = c_subscriptions decoded" "c_listener c0 = c_listener decoded" by (simp_all add: c0_def)
  have "load_config e path decoded = (case normalize_loaded e c0 of
           Inl err \<Rightarrow> Inl err
         | Inr (c2, written) \<Rightarrow>
             (case apply_persisted_ports (le_available e) (so_json (le_source e)) (le_saved e) (explicit_ports decoded) c2 of
                Inl err \<Rightarrow> Inl err
              | Inr (c3, ports) \<Rightarrow> Inr (c3, written, ports)))"
    by (simp add: load_config_def c0_def)
  then obtain c3 where n: "normalize_loaded e c0 = Inr (c3, written)"
    and a: "apply_persisted_ports (le_available e) (so_json (le_source e)) (le_saved e) (explicit_ports decoded) c3 = Inr (c, ports)"
    using assms by (auto split: sum.splits prod.splits)
  from n obtain c1 c2 where "apply_defaults c0 = Inr c1" "add_file_nodes e (c1\<lparr>c_nodes := mark_source source_inline (c_nodes c1)\<rparr>) = Inr c2"
    "normalize_ports e (fst (add_subscription_nodes e c2)) = Inr c3" "written = snd (add_subscription_nodes e c2)"
    by (auto simp: normalize_loaded_def map_sum_def split: sum.splits prod.splits)
  then show thesis using that c0 a by blast
qed

lemma apply_defaults_listener:
  "apply_defaults c = Inr d \<Longrightarrow> li_port (c_listener d) = or_port (li_port (c_listener c)) 2323 \<and> c_nodes_file d = c_nodes_file c"
  by (auto simp: apply_defaults_def Let_def split: if_splits option.splits)

lemma add_file_nodes_facts:
  assumes "add_file_nodes e c = Inr d"
  shows "\<exists>extra. c_nodes d = c_nodes c @ extra" and "c_listener d = c_listener c" and "c_subscriptions d = c_subscriptions c"
    and "c_subscriptions c \<noteq> [] \<Longrightarrow> d = c"
  using assms by (auto simp: add_file_nodes_def split: if_splits option.splits)

lemma add_subscription_nodes_facts:
  "\<exists>extra. c_nodes (fst (add_subscription_nodes e c)) = c_nodes c @ extra"
  "c_listener (fst (add_subscription_nodes e c)) = c_listener c"
  by (auto simp: add_subscription_nodes_def Let_def split: prod.splits)

lemma nth_mark_source: "k < length ns \<Longrightarrow> mark_source src ns ! k = (ns ! k)\<lparr>nc_source := src\<rparr>"
  by (simp add: mark_source_def)

lemma length_mark_source [simp]: "length (mark_source src ns) = length ns"
  by (simp add: mark_source_def)

lemma normalize_nodes_file:
  assumes "normalize_with_port_map av jc pm c0 = Inr c"
  shows "c_nodes_file c = c_nodes_file c0"
proof -
  obtain d out where d: "apply_defaults c0 = Inr d" and fin: "finish_config (d\<lparr>c_nodes := out\<rparr>) = Inr c"
    using assms by (auto simp: normalize_with_port_map_def split: sum.splits)
  have "c_nodes_file y = c_nodes_file x" if "normalize_sticky x = Inr y" for x y
    using that by (auto simp: normalize_sticky_def Let_def split: if_splits option.splits)
  from this [OF fin [unfolded finish_config_def]] show ?thesis
    using apply_defaults_listener [OF d] by (simp add: normalize_log_config_def Let_def)
qed

lemma apply_persistedE:
  assumes "apply_persisted_ports av jc saved ex c0 = Inr (c, ports)"
  obtains (pool) "\<not> per_node_ports c0" "c = c0"
  | (per_node) pm nodes saved' where "per_node_ports c0" "clear_provisional jc ex (c_nodes c0) pm = (nodes, saved')"
      "normalize_with_port_map av jc saved' (c0\<lparr>c_nodes := nodes\<rparr>) = Inr c"
  using assms by (auto simp: apply_persisted_ports_def Let_def split: if_splits prod.splits sum.splits)

text \<open>C18: A port that the configuration file names for a node is its port after loading, whatever was saved for that node
  or another; only the port of the shared listener is not available in hybrid mode. And no two listeners share a
  port then: a conflict is an error of loading.\<close>

theorem explicit_port_wins:
  assumes "load_config e path decoded = Inr (c, written, ports)" and "per_node_ports c" and "k < length (c_nodes decoded)"
    and "nc_port (c_nodes decoded ! k) \<noteq> 0" and "nc_port (c_nodes decoded ! k) \<noteq> or_port (li_port (c_listener decoded)) 2323"
  shows "nc_port (c_nodes c ! k) = nc_port (c_nodes decoded ! k) \<and> ports_separate c"
proof -
  let ?jc = "so_json (le_source e)" and ?p = "nc_port (c_nodes decoded ! k)"
  from load_configE [OF assms(1)] obtain c0 c1 c2 c3 where d: "apply_defaults c0 = Inr c1" "c_nodes c0 = c_nodes decoded" "c_listener c0 = c_listener decoded"
    and ff: "add_file_nodes e (c1\<lparr>c_nodes := mark_source source_inline (c_nodes c1)\<rparr>) = Inr c2"
    and norm: "normalize_ports e (fst (add_subscription_nodes e c2)) = Inr c3"
    and pers: "apply_persisted_ports (le_available e) ?jc (le_saved e) (explicit_ports decoded) c3 = Inr (c, ports)" by metis
  let ?c = "fst (add_subscription_nodes e c2)"
  have c1: "c_nodes c1 = c_nodes decoded" "li_port (c_listener c1) = or_port (li_port (c_listener decoded)) 2323"
    using apply_defaults_facts(3) [OF d(1)] apply_defaults_listener [OF d(1)] d(2,3) by simp_all
  obtain x1 where x1: "c_nodes c2 = mark_source source_inline (c_nodes decoded) @ x1" using add_file_nodes_facts(1) [OF ff] c1 by auto
  obtain x2 where x2: "c_nodes ?c = c_nodes c2 @ x2" using add_subscription_nodes_facts(1) by blast
  have k: "k < length (c_nodes ?c)" "nc_port (c_nodes ?c ! k) = ?p"
    using x1 x2 assms(3) nth_mark_source [OF assms(3)] by (auto simp: nth_append)
  have "li_port (c_listener ?c) = or_port (li_port (c_listener decoded)) 2323"
    using add_subscription_nodes_facts(2) [of e c2] add_file_nodes_facts(2) [OF ff] c1 by simp
  moreover have "kept_except ?c (c_nodes ?c ! k) (c_nodes c3 ! k)"
    using list_all2_nthD [OF normalize_ports_kept(1) [OF norm] k(1)] .
  ultimately have k3: "nc_port (c_nodes c3 ! k) = ?p" using k(2) assms(4,5) by (simp add: kept_except_def)
  have len3: "k < length (c_nodes c3)" using list_all2_lengthD [OF normalize_ports_kept(1) [OF norm]] k(1) by simp
  have ex: "k < length (explicit_ports decoded)" "explicit_ports decoded ! k"
    using assms(3,4) by (simp_all add: explicit_ports_def word_gt_0)
  from pers show ?thesis
  proof (cases rule: apply_persistedE)
    case pool
    then show ?thesis using assms(2) by simp
  next
    case (per_node pm nodes saved')
    note cl = clear_provisional_facts [OF per_node(2)]
    then have nk: "nodes ! k = c_nodes c3 ! k" "mget saved' (node_key ?jc (nodes ! k)) = None" using ex len3 by auto
    have "length nodes = length (c_nodes c3)" using cl by (metis length_map)
    then have lenn: "k < length nodes" using len3 by simp
    obtain dd out where *: "apply_defaults (c3\<lparr>c_nodes := nodes\<rparr>) = Inr dd" "assign_ports (le_available e) ?jc saved' dd = Inr out"
      "c_nodes c = out" "c_mode c = c_mode dd" using normalizeE [OF per_node(3)] by metis
    have nd: "c_nodes dd = nodes" using apply_defaults_facts(3) [OF *(1)] by simp
    have "per_node_ports dd" using assms(2) *(4) by (simp add: per_node_ports_def)
    then obtain ms u where pres: "preserve_ports ?jc True saved' 0 (reserved_listener_ports dd) (c_nodes dd) = Inr (ms, u)"
      and rel: "list_all2 (\<lambda>n m. nc_uri m = nc_uri n \<and> (nc_port n \<noteq> 0 \<longrightarrow> nc_port m = nc_port n)) (map fst ms) out"
      using assign_ports_passes [OF *(2) _ apply_defaults_facts(2) [OF *(1)]] by blast
    have "nc_port (fst (ms ! k)) = ?p" using preserve_unsaved [OF pres, of k] nd lenn nk k3 by simp
    moreover have "k < length ms" using preserve_ports_length [OF pres] nd lenn by simp
    ultimately have "nc_port (out ! k) = ?p" using list_all2_nthD [OF rel, of k] assms(4) by simp
    then show ?thesis using *(3) ports_kept_apart [OF per_node(3) assms(2)] by simp
  qed
qed

lemma kept_origins: "list_all2 (kept_except c) ns ms \<Longrightarrow> map node_origin ms = map node_origin ns"
  by (induction rule: list_all2_induct) (simp_all add: kept_except_def)

lemma mark_origins: "map node_origin (mark_source src ns) = map (\<lambda>n. (src, trim_space (nc_uri n))) ns"
  by (simp add: mark_source_def node_origin_def)

lemma fetch_all_failed:
  assumes "\<forall>u\<in>set order. fetch_subscription so u = None"
  shows "fst (fetch_subscription_nodes so order ended urls) = []"
proof -
  have none: "concat (map (case_option [] (\<lambda>ns. ns) \<circ> fetch_subscription so) order) = []"
    using assms by (induction order) auto
  show ?thesis by (auto simp only: fetch_subscription_nodes_def Let_def map_map none split: prod.split) (auto simp: dedupe_nodes_by_key_def)
qed

text \<open>C36: A start without network keeps the nodes: when no subscription can be fetched and the file of nodes holds some,
  loading uses exactly those, after the inline nodes, and leaves the file alone.\<close>

theorem dead_subscriptions_keep_cached_nodes:
  assumes "load_config e path decoded = Inr (c, written, ports)" and "c_subscriptions decoded \<noteq> []"
    and "\<forall>u\<in>set (le_order e (fst (dedupe_subscription_urls (c_subscriptions decoded)))). fetch_subscription (le_source e) u = None"
    and "le_nodes_file e (c_nodes_file c) = Some cached" and "cached \<noteq> []"
  shows "written = None \<and> map node_origin (c_nodes c) = map (\<lambda>n. (source_inline, trim_space (nc_uri n))) (c_nodes decoded)
    @ map (\<lambda>n. (source_subscription, trim_space (nc_uri n))) cached"
proof -
  let ?jc = "so_json (le_source e)"
  from load_configE [OF assms(1)] obtain c0 c1 c2 c3 where d: "apply_defaults c0 = Inr c1" "c_nodes c0 = c_nodes decoded" "c_subscriptions c0 = c_subscriptions decoded"
    and ff: "add_file_nodes e (c1\<lparr>c_nodes := mark_source source_inline (c_nodes c1)\<rparr>) = Inr c2"
    and norm: "normalize_ports e (fst (add_subscription_nodes e c2)) = Inr c3" and wr: "written = snd (add_subscription_nodes e c2)"
    and pers: "apply_persisted_ports (le_available e) ?jc (le_saved e) (explicit_ports decoded) c3 = Inr (c, ports)" by metis
  note d1 = apply_defaults_settings [OF d(1)]
  have subs: "c_subscriptions c2 = c_subscriptions decoded" "c_nodes c2 = mark_source source_inline (c_nodes decoded)"
    using add_file_nodes_facts(3,4) [OF ff] assms(2) d d1 by simp_all
  let ?s = "fst (add_subscription_nodes e c2)"
  have tail: "map node_origin (c_nodes c) = map node_origin (c_nodes ?s) \<and> c_nodes_file c = c_nodes_file ?s"
    using pers
  proof (cases rule: apply_persistedE)
    case pool
    then show ?thesis using kept_origins [OF normalize_ports_kept(1) [OF norm]] normalize_ports_kept(3) [OF norm] by simp
  next
    case (per_node pm nodes saved')
    then show ?thesis
      using clear_provisional_facts [OF per_node(2)] normalize_settings(3) [OF per_node(3)] normalize_nodes_file [OF per_node(3)]
        kept_origins [OF normalize_ports_kept(1) [OF norm]] normalize_ports_kept(3) [OF norm] by simp
  qed
  define npath where "npath = or_text (c_nodes_file c2) (path_join (path_dir (c_file_path c2)) ''nodes.txt'')"
  have "c_nodes_file ?s = npath"
    using assms(2) subs(1) by (auto simp: add_subscription_nodes_def Let_def npath_def split: prod.split)
  then have cached: "le_nodes_file e npath = Some cached" using assms(4) tail by simp
  obtain fetched st where f: "fetch_subscription_nodes (le_source e) (le_order e (fst (dedupe_subscription_urls (c_subscriptions c2)))) False (c_subscriptions c2)
      = (fetched, st)" by fastforce
  have "fetched = []" using fetch_all_failed [OF assms(3), of False "c_subscriptions decoded"] f subs(1) by simp
  then have "add_subscription_nodes e c2 = (c2\<lparr>c_nodes_file := npath, c_nodes := c_nodes c2 @ mark_source source_subscription cached\<rparr>, None)"
    using assms(2,5) subs(1) f cached by (simp add: add_subscription_nodes_def Let_def use_cached_def flip: npath_def)
  then show ?thesis using tail wr subs(2) by (simp add: mark_origins)
qed

section \<open>Examples\<close>

definition demo_source :: source where
  "demo_source = \<lparr>so_get = (\<lambda>u. if u = ''http://a'' then Some (200, ''socks5://h1:1080'')
       else if u = ''http://b'' then Some (200, ''socks5://h2:1080'') else None), so_yaml = (\<lambda>_. None), so_json = no_json\<rparr>"

definition demo_env :: load_env where
  "demo_env = \<lparr>le_source = demo_source, le_order = id, le_nodes_file = (\<lambda>_. Some [node_of_uri [] ''c'']),
     le_available = (\<lambda>_ _. True), le_saved = [(''a'', 24001)]\<rparr>"

text \<open>Two addresses of different nodes and a third that always fails; the kept nodes are the same in both orders.\<close>

theorem arrival_order_keeps_identities_witness:
  "\<exists>ns st ns' st'. fetch_subscription_nodes demo_source [''http://a'', ''http://b'', ''ftp://x''] False [''http://a'', ''http://b'', ''ftp://x''] = (ns, st)
     \<and> fetch_subscription_nodes demo_source [''ftp://x'', ''http://b'', ''http://a''] False [''http://a'', ''http://b'', ''ftp://x''] = (ns', st')
     \<and> length ns = 2 \<and> mset (map trimmed_node ns) = mset (map trimmed_node ns') \<and> fs_last_error st' \<noteq> None"
proof -
  let ?us = "[''http://a'', ''http://b'', ''ftp://x'']" and ?vs = "[''ftp://x'', ''http://b'', ''http://a'']"
  obtain ns st where a: "fetch_subscription_nodes demo_source ?us False ?us = (ns, st)" by fastforce
  obtain ns' st' where b: "fetch_subscription_nodes demo_source ?vs False ?us = (ns', st')" by fastforce
  have "length (fst (fetch_subscription_nodes demo_source ?us False ?us)) = 2" by code_simp
  then have len: "length ns = 2" using a by simp
  have "fs_last_error (snd (fetch_subscription_nodes demo_source ?us False ?us)) \<noteq> None" by code_simp
  then have err: "fs_last_error st \<noteq> None" using a by simp
  have "list_all (\<lambda>m. list_all (\<lambda>m'. dedupe_key (so_json demo_source) m = dedupe_key (so_json demo_source) m' \<longrightarrow> trimmed_node m = trimmed_node m')
      (delivered demo_source ?us)) (delivered demo_source ?us)" by code_simp
  then have once: "\<forall>m\<in>set (delivered demo_source ?us). \<forall>m'\<in>set (delivered demo_source ?us).
      dedupe_key (so_json demo_source) m = dedupe_key (so_json demo_source) m' \<longrightarrow> trimmed_node m = trimmed_node m'"
    by (simp only: list_all_iff)
  have perm: "mset ?us = mset ?vs" by simp
  note r = arrival_order_keeps_identities [OF perm a b]
  have "mset (map trimmed_node ns) = mset (map trimmed_node ns')" using r once by blast
  moreover have "fs_last_error st' \<noteq> None" using r err by blast
  ultimately show ?thesis using a b len by blast
qed

definition demo_decoded :: config where
  "demo_decoded = sample_config [(node_of_uri [] ''a'')\<lparr>nc_port := 24005\<rparr>]"

theorem explicit_port_wins_witness:
  "\<exists>c written ports. load_config demo_env [] demo_decoded = Inr (c, written, ports) \<and> nc_port (c_nodes c ! 0) = 24005"
proof -
  have "case load_config demo_env [] demo_decoded of Inl _ \<Rightarrow> False | Inr (c, _, _) \<Rightarrow> per_node_ports c" by code_simp
  then obtain c written ports where c: "load_config demo_env [] demo_decoded = Inr (c, written, ports)" "per_node_ports c"
    by (auto split: sum.splits prod.splits)
  have n: "0 < length (c_nodes demo_decoded)" "nc_port (c_nodes demo_decoded ! 0) = 24005" "li_port (c_listener demo_decoded) = 24000"
    by (simp_all add: demo_decoded_def sample_config_def)
  show ?thesis using explicit_port_wins [OF c n(1)] c(1) n by (auto simp: or_port_def)
qed

definition demo_offline :: config where
  "demo_offline = (sample_config [node_of_uri [] ''a''])\<lparr>c_subscriptions := [''ftp://list'']\<rparr>"

theorem dead_subscriptions_keep_cached_nodes_witness:
  "\<exists>c ports. load_config demo_env [] demo_offline = Inr (c, None, ports)
     \<and> map node_origin (c_nodes c) = [(source_inline, ''a''), (source_subscription, ''c'')]"
proof -
  have "case load_config demo_env [] demo_offline of Inl _ \<Rightarrow> False | Inr _ \<Rightarrow> True" by code_simp
  then obtain c written ports where c: "load_config demo_env [] demo_offline = Inr (c, written, ports)"
    by (auto split: sum.splits)
  have subs: "c_subscriptions demo_offline = [''ftp://list'']" by (simp add: demo_offline_def)
  have failed: "\<forall>u\<in>set (le_order demo_env (fst (dedupe_subscription_urls (c_subscriptions demo_offline)))). fetch_subscription (le_source demo_env) u = None"
    unfolding subs by code_simp
  have file_nodes: "le_nodes_file demo_env (c_nodes_file c) = Some [node_of_uri [] ''c'']" by (simp add: demo_env_def)
  have dead: "written = None \<and> map node_origin (c_nodes c) = map (\<lambda>n. (source_inline, trim_space (nc_uri n))) (c_nodes demo_offline)
      @ map (\<lambda>n. (source_subscription, trim_space (nc_uri n))) [node_of_uri [] ''c'']"
    by (rule dead_subscriptions_keep_cached_nodes [OF c _ failed file_nodes]) (simp_all add: subs)
  moreover have "map (\<lambda>n. (source_inline, trim_space (nc_uri n))) (c_nodes demo_offline)
      @ map (\<lambda>n. (source_subscription, trim_space (nc_uri n))) [node_of_uri [] ''c''] = [(source_inline, ''a''), (source_subscription, ''c'')]"
    by code_simp
  ultimately show ?thesis using c by auto
qed

end
