(* ===== verification/SettingsEdit.thy ===== *)
theory SettingsEdit
  imports MgmtAuth ConfigTypes SessionStore SubFacts
begin

text \<open>
  The settings of the management UI: \<open>handleSettings\<close>, \<open>handleSubscriptionConfig\<close> and \<open>SetConfig\<close> in
  \<open>internal/monitor/server.go\<close>, with \<open>SettingsSnapshot\<close> and the saving operations of \<open>internal/config/config.go\<close>.
  The configuration file is the configuration it decodes to; \<open>time.ParseDuration\<close> is a parameter.
\<close>

section \<open>Snapshots and the file\<close>

definition zero_refresh :: refresh_config where
  "zero_refresh = \<lparr>rf_enabled = False, rf_interval = 0, rf_timeout = 0, rf_health_check_timeout = 0, rf_drain_timeout = 0,
     rf_min_available_nodes = 0, rf_fetch_concurrency = 0\<rparr>"

definition settings_snapshot :: "config \<Rightarrow> config" where
  "settings_snapshot c = c\<lparr>c_refresh := zero_refresh, c_nodes := [], c_nodes_file := [], c_subscriptions := [],
     c_log_level := []\<rparr>"

text \<open>The fields that the settings own, copied into a configuration.\<close>

definition copy_settings :: "config \<Rightarrow> config \<Rightarrow> config" where
  "copy_settings c saved = saved\<lparr>c_external_ip := c_external_ip c, c_skip_cert_verify := c_skip_cert_verify c,
     c_log := c_log c, c_geoip := c_geoip c, c_mode := c_mode c, c_listener := c_listener c, c_multi_port := c_multi_port c,
     c_pool := c_pool c, c_sticky := c_sticky c, c_management := c_management c\<rparr>"

definition copy_subscriptions :: "config \<Rightarrow> config \<Rightarrow> config" where
  "copy_subscriptions c saved = saved\<lparr>c_subscriptions := c_subscriptions c, c_refresh := c_refresh c\<rparr>"

text \<open>What the file at the path of the configuration decodes to, if it can be read, and whether writing succeeds. A write
  that fails leaves the file as it was.\<close>

record config_file =
  cf_content :: "config option"
  cf_writable :: bool

datatype save_error = NoPath | Invalid config_error | FileError

definition update_config_file :: "(config \<Rightarrow> config) \<Rightarrow> config_file \<Rightarrow> save_error option \<times> config_file" where
  "update_config_file update f =
     (case cf_content f of
        None \<Rightarrow> (Some FileError, f)
      | Some saved \<Rightarrow> if cf_writable f then (None, f\<lparr>cf_content := Some (update saved)\<rparr>) else (Some FileError, f))"

definition save_settings :: "bool \<Rightarrow> config \<Rightarrow> config_file \<Rightarrow> save_error option \<times> config_file" where
  "save_settings include_subscriptions c f =
     (if c_file_path c = [] then (Some NoPath, f)
      else update_config_file (\<lambda>saved. copy_settings c (if include_subscriptions then copy_subscriptions c saved else saved)) f)"

definition save_management_settings :: "config \<Rightarrow> config_file \<Rightarrow> save_error option \<times> config_file" where
  "save_management_settings c f =
     (case validate_management_settings c of Some e \<Rightarrow> (Some (Invalid e), f) | None \<Rightarrow> save_settings False c f)"

definition save_subscription_settings :: "config \<Rightarrow> config_file \<Rightarrow> save_error option \<times> config_file" where
  "save_subscription_settings c f =
     (if c_file_path c = [] then (Some NoPath, f) else update_config_file (copy_subscriptions c) f)"

section \<open>The server\<close>

record server =
  sv_auth :: auth_state
  sv_external_ip :: string
  sv_probe_target :: string
  sv_skip_cert_verify :: bool
  sv_proxy_username :: string
  sv_proxy_password :: string
  sv_config :: "config option"
  sv_file :: config_file
  sv_store :: "session_store option"


section \<open>Edits\<close>

record pool_edit =
  ple_mode :: string
  ple_failure_threshold :: int
  ple_blacklist_duration :: string
  ple_transient_cooldown :: string
  ple_rate_limit_cooldown :: string
  ple_blacklist_failed_pin :: "bool option"

record sticky_edit =
  ste_enabled :: "bool option"
  ste_port :: "16 word option"
  ste_session_enabled :: "bool option"
  ste_session_ttl :: "string option"
  ste_max_sessions :: "int option"

record management_edit =
  mge_listen :: string
  mge_password :: string
  mge_probe_concurrency :: int

record log_edit =
  lge_output :: string
  lge_max_size :: int
  lge_max_backups :: int
  lge_max_age :: int
  lge_compress :: bool

record geoip_edit =
  gpe_enabled :: bool
  gpe_database_path :: string
  gpe_listen :: string
  gpe_port :: "16 word"
  gpe_auto_update_enabled :: bool
  gpe_auto_update_interval :: string

record settings_edit =
  ed_external_ip :: "string option"
  ed_probe_target :: "string option"
  ed_skip_cert_verify :: "bool option"
  ed_mode :: string
  ed_listener :: "listener_config option"
  ed_multi_port :: "multi_port_config option"
  ed_pool :: "pool_edit option"
  ed_sticky :: "sticky_edit option"
  ed_management :: "management_edit option"
  ed_log :: "log_edit option"
  ed_geoip :: "geoip_edit option"

datatype bad_edit = BadPoolDuration string | BadProbeConcurrency | BadLogRotation | BadGeoInterval | BadSessionTtl | BadMaxSessions

type_synonym parse_duration = "string \<Rightarrow> int option"

definition positive_or_empty :: "parse_duration \<Rightarrow> string \<Rightarrow> bool" where
  "positive_or_empty pd v \<longleftrightarrow> v = [] \<or> (case pd v of Some d \<Rightarrow> d > 0 | None \<Rightarrow> False)"

definition bad_pool_duration :: "parse_duration \<Rightarrow> pool_edit \<Rightarrow> string option" where
  "bad_pool_duration pd e = map_option fst (find (\<lambda>(_, v). \<not> positive_or_empty pd v)
     [(''pool.blacklist_duration'', ple_blacklist_duration e), (''pool.transient_cooldown'', ple_transient_cooldown e),
      (''pool.rate_limit_cooldown'', ple_rate_limit_cooldown e)])"

text \<open>The interval an edit sets: 0 keeps the old one; an explicit zero is 24 hours while updates are off.\<close>

definition geo_update_interval :: "parse_duration \<Rightarrow> geoip_edit \<Rightarrow> int option" where
  "geo_update_interval pd e =
     (if gpe_auto_update_interval e = [] then Some 0
      else case pd (gpe_auto_update_interval e) of
          None \<Rightarrow> None
        | Some d \<Rightarrow> if d < 0 \<or> (d = 0 \<and> gpe_auto_update_enabled e) then None else Some (if d = 0 then 24 * hour else d))"

definition session_ttl_edit :: "parse_duration \<Rightarrow> string \<Rightarrow> int option" where
  "session_ttl_edit pd v =
     (case pd v of Some d \<Rightarrow> if d \<le> 0 \<or> d > max_session_ttl then None else Some d | None \<Rightarrow> None)"

definition check_edit :: "parse_duration \<Rightarrow> settings_edit \<Rightarrow> bad_edit option" where
  "check_edit pd e =
     (case (case ed_pool e of Some p \<Rightarrow> bad_pool_duration pd p | None \<Rightarrow> None) of
        Some name \<Rightarrow> Some (BadPoolDuration name)
      | None \<Rightarrow>
          if (case ed_management e of Some m \<Rightarrow> mge_probe_concurrency m < 0 | None \<Rightarrow> False) then Some BadProbeConcurrency
          else if (case ed_log e of Some l \<Rightarrow> lge_max_size l < 0 \<or> lge_max_backups l < 0 \<or> lge_max_age l < 0 | None \<Rightarrow> False)
          then Some BadLogRotation
          else if (case ed_geoip e of Some g \<Rightarrow> geo_update_interval pd g = None | None \<Rightarrow> False) then Some BadGeoInterval
          else (case ed_sticky e of
              None \<Rightarrow> None
            | Some k \<Rightarrow>
                if (case ste_session_ttl k of Some v \<Rightarrow> session_ttl_edit pd v = None | None \<Rightarrow> False) then Some BadSessionTtl
                else if (case ste_max_sessions k of Some n \<Rightarrow> n < 1 \<or> n > max_session_capacity | None \<Rightarrow> False)
                then Some BadMaxSessions else None))"

section \<open>Applying an edit\<close>

definition edit_pool :: "parse_duration \<Rightarrow> pool_edit \<Rightarrow> pool_config \<Rightarrow> pool_config" where
  "edit_pool pd e p = p\<lparr>pl_mode := ple_mode e, pl_failure_threshold := ple_failure_threshold e,
     pl_blacklist_failed_pin := (case ple_blacklist_failed_pin e of Some b \<Rightarrow> Some b | None \<Rightarrow> pl_blacklist_failed_pin p),
     pl_blacklist_duration := (if ple_blacklist_duration e \<noteq> []
       then (case pd (ple_blacklist_duration e) of Some d \<Rightarrow> d | None \<Rightarrow> pl_blacklist_duration p) else pl_blacklist_duration p),
     pl_transient_cooldown := (case pd (ple_transient_cooldown e) of
       Some d \<Rightarrow> if d > 0 then d else pl_transient_cooldown p | None \<Rightarrow> pl_transient_cooldown p),
     pl_rate_limit_cooldown := (case pd (ple_rate_limit_cooldown e) of
       Some d \<Rightarrow> if d > 0 then d else pl_rate_limit_cooldown p | None \<Rightarrow> pl_rate_limit_cooldown p)\<rparr>"

definition edit_sticky :: "parse_duration \<Rightarrow> sticky_edit \<Rightarrow> sticky_config \<Rightarrow> sticky_config" where
  "edit_sticky pd e k = k\<lparr>sk_enabled := (case ste_enabled e of Some b \<Rightarrow> b | None \<Rightarrow> sk_enabled k),
     sk_port := (case ste_port e of Some p \<Rightarrow> p | None \<Rightarrow> sk_port k),
     sk_session_enabled := (case ste_session_enabled e of Some b \<Rightarrow> Some b | None \<Rightarrow> sk_session_enabled k),
     sk_session_ttl := (case ste_session_ttl e of
       Some v \<Rightarrow> (case session_ttl_edit pd v of Some d \<Rightarrow> d | None \<Rightarrow> 0) | None \<Rightarrow> sk_session_ttl k),
     sk_max_sessions := (case ste_max_sessions e of Some n \<Rightarrow> n | None \<Rightarrow> sk_max_sessions k)\<rparr>"

definition edit_management :: "management_edit \<Rightarrow> management_config \<Rightarrow> management_config" where
  "edit_management e m = m\<lparr>mg_listen := mge_listen e, mg_password := mge_password e,
     mg_probe_concurrency := (if mge_probe_concurrency e > 0 then mge_probe_concurrency e else mg_probe_concurrency m)\<rparr>"

definition edit_log :: "log_edit \<Rightarrow> log_config \<Rightarrow> log_config" where
  "edit_log e l = l\<lparr>lg_output := lge_output e,
     lg_max_size := (if lge_max_size e > 0 then lge_max_size e else lg_max_size l),
     lg_max_backups := (if lge_max_backups e > 0 then lge_max_backups e else lg_max_backups l),
     lg_max_age := (if lge_max_age e > 0 then lge_max_age e else lg_max_age l), lg_compress := lge_compress e\<rparr>"

definition edit_geoip :: "parse_duration \<Rightarrow> geoip_edit \<Rightarrow> geoip_config \<Rightarrow> geoip_config" where
  "edit_geoip pd e g =
     (let interval = (case geo_update_interval pd e of Some d \<Rightarrow> d | None \<Rightarrow> 0)
      in g\<lparr>ge_enabled := gpe_enabled e,
           ge_database_path := (if gpe_enabled e \<and> gpe_database_path e = [] then ''./GeoLite2-Country.mmdb'' else gpe_database_path e),
           ge_listen := gpe_listen e, ge_port := gpe_port e, ge_auto_update_enabled := gpe_auto_update_enabled e,
           ge_auto_update_interval := (if interval > 0 then interval
             else if ge_auto_update_interval g \<le> 0 then 24 * hour else ge_auto_update_interval g)\<rparr>)"

definition edit_probe :: "settings_edit \<Rightarrow> management_config \<Rightarrow> management_config" where
  "edit_probe e m = (case ed_probe_target e of Some t \<Rightarrow> m\<lparr>mg_probe_target := trim_space t\<rparr> | None \<Rightarrow> m)"

definition apply_edit :: "parse_duration \<Rightarrow> settings_edit \<Rightarrow> config \<Rightarrow> config" where
  "apply_edit pd e c = c\<lparr>
     c_external_ip := (case ed_external_ip e of Some t \<Rightarrow> trim_space t | None \<Rightarrow> c_external_ip c),
     c_skip_cert_verify := (case ed_skip_cert_verify e of Some b \<Rightarrow> b | None \<Rightarrow> c_skip_cert_verify c),
     c_mode := (if ed_mode e \<noteq> [] then ed_mode e else c_mode c),
     c_listener := (case ed_listener e of Some l \<Rightarrow> l | None \<Rightarrow> c_listener c),
     c_multi_port := (case ed_multi_port e of Some l \<Rightarrow> l | None \<Rightarrow> c_multi_port c),
     c_pool := (case ed_pool e of Some p \<Rightarrow> edit_pool pd p (c_pool c) | None \<Rightarrow> c_pool c),
     c_sticky := (case ed_sticky e of Some k \<Rightarrow> edit_sticky pd k (c_sticky c) | None \<Rightarrow> c_sticky c),
     c_management := (case ed_management e of
       Some m \<Rightarrow> edit_management m (edit_probe e (c_management c)) | None \<Rightarrow> edit_probe e (c_management c)),
     c_log := (case ed_log e of Some l \<Rightarrow> edit_log l (c_log c) | None \<Rightarrow> c_log c),
     c_geoip := (case ed_geoip e of Some g \<Rightarrow> edit_geoip pd g (c_geoip c) | None \<Rightarrow> c_geoip c)\<rparr>"

section \<open>Saving the settings\<close>

datatype settings_reply =
    SettingsBody | SettingsRefused bad_edit | SettingsNoConfig | SettingsInvalid config_error | SettingsNotSaved save_error
  | SettingsSaved string string bool bool

text \<open>What a save publishes in the running configuration, in the server's own copies, and in the routing store. \<open>None\<close>
  only when the limits cannot be applied to the store.\<close>

definition publish_settings :: "instant \<Rightarrow> config \<Rightarrow> config_file \<Rightarrow> server \<Rightarrow> (bool \<times> server) option" where
  "publish_settings now c f s =
     (let (changed, auth) = set_password (mg_password (c_management c)) (sv_auth s);
          s' = s\<lparr>sv_auth := auth, sv_config := map_option (copy_settings c) (sv_config s), sv_file := f,
            sv_external_ip := c_external_ip c, sv_probe_target := mg_probe_target (c_management c),
            sv_skip_cert_verify := c_skip_cert_verify c\<rparr>
      in case sv_store s of
           None \<Rightarrow> Some (changed, s')
         | Some st \<Rightarrow> map_option (\<lambda>st'. (changed, s'\<lparr>sv_store := Some st'\<rparr>))
             (configure (max_sessions_or_default (c_sticky c)) (session_ttl_or_default (c_sticky c)) now st))"

definition handle_settings_put ::
  "parse_duration \<Rightarrow> instant \<Rightarrow> settings_edit option \<Rightarrow> server \<Rightarrow> (settings_reply \<times> server) option" where
  "handle_settings_put pd now body s =
     (case body of
        None \<Rightarrow> Some (SettingsBody, s)
      | Some e \<Rightarrow>
          (case check_edit pd e of
             Some b \<Rightarrow> Some (SettingsRefused b, s)
           | None \<Rightarrow>
               (case sv_config s of
                  None \<Rightarrow> Some (SettingsNoConfig, s)
                | Some live \<Rightarrow>
                    let c = apply_edit pd e (settings_snapshot live)
                    in case validate_management_settings c of
                         Some err \<Rightarrow> Some (SettingsInvalid err, s)
                       | None \<Rightarrow>
                           (case save_management_settings c (sv_file s) of
                              (Some err, f) \<Rightarrow> Some (SettingsNotSaved err, s\<lparr>sv_file := f\<rparr>)
                            | (None, f) \<Rightarrow> map_option (\<lambda>(changed, s'). (SettingsSaved (c_external_ip c)
                                (mg_probe_target (c_management c)) (c_skip_cert_verify c) changed, s')) (publish_settings now c f s)))))"

section \<open>Reading the settings\<close>

record settings_view =
  vw_external_ip :: string
  vw_probe_target :: string
  vw_skip_cert_verify :: bool
  vw_log :: log_config
  vw_mode :: string
  vw_listener :: listener_config
  vw_multi_port :: multi_port_config
  vw_pool :: pool_edit
  vw_sticky :: sticky_edit
  vw_management :: management_edit
  vw_geoip :: geoip_edit

text \<open>The reply to a GET while a configuration is bound; \<open>ds\<close> is \<open>Duration.String\<close>.\<close>

definition settings_page :: "(int \<Rightarrow> string) \<Rightarrow> config \<Rightarrow> server \<Rightarrow> settings_view" where
  "settings_page ds c s = \<lparr>vw_external_ip = sv_external_ip s, vw_probe_target = sv_probe_target s,
     vw_skip_cert_verify = sv_skip_cert_verify s, vw_log = c_log c, vw_mode = c_mode c, vw_listener = c_listener c,
     vw_multi_port = c_multi_port c,
     vw_pool = \<lparr>ple_mode = pl_mode (c_pool c), ple_failure_threshold = pl_failure_threshold (c_pool c),
       ple_blacklist_duration = ds (pl_blacklist_duration (c_pool c)), ple_transient_cooldown = ds (pl_transient_cooldown (c_pool c)),
       ple_rate_limit_cooldown = ds (pl_rate_limit_cooldown (c_pool c)),
       ple_blacklist_failed_pin = Some (blacklist_failed_pin_or_default (c_pool c))\<rparr>,
     vw_sticky = \<lparr>ste_enabled = Some (sk_enabled (c_sticky c)), ste_port = Some (sk_port (c_sticky c)),
       ste_session_enabled = Some (session_routing_enabled (c_sticky c)),
       ste_session_ttl = Some (ds (session_ttl_or_default (c_sticky c))),
       ste_max_sessions = Some (max_sessions_or_default (c_sticky c))\<rparr>,
     vw_management = \<lparr>mge_listen = mg_listen (c_management c), mge_password = mg_password (c_management c),
       mge_probe_concurrency = probe_concurrency_or_default c\<rparr>,
     vw_geoip = \<lparr>gpe_enabled = ge_enabled (c_geoip c), gpe_database_path = ge_database_path (c_geoip c),
       gpe_listen = ge_listen (c_geoip c), gpe_port = ge_port (c_geoip c), gpe_auto_update_enabled = ge_auto_update_enabled (c_geoip c),
       gpe_auto_update_interval = ds (ge_auto_update_interval (c_geoip c))\<rparr>\<rparr>"


section \<open>Subscriptions\<close>

fun clean_urls :: "string set \<Rightarrow> string list \<Rightarrow> string list option" where
  "clean_urls old [] = Some []"
| "clean_urls old (raw # rest) =
     (let u = trim_space raw
      in if u = [] then clean_urls old rest
         else case url_parse u of
             None \<Rightarrow> None
           | Some p \<Rightarrow>
               if (u_scheme p \<noteq> ''http'' \<and> u_scheme p \<noteq> ''https'') \<or> url_hostname p = [] then None
               else if u \<in> old then clean_urls old rest
               else map_option (\<lambda>us. u # us) (clean_urls (insert u old) rest))"

record subscription_edit =
  sue_urls :: "string list"
  sue_enabled :: bool
  sue_interval :: string

datatype subscription_reply =
    SubBody | SubInterval | SubUrl | SubNoConfig | SubNotSaved save_error | SubSaved "string list" bool int

definition five_minutes :: duration where "five_minutes = 300 * second"

definition interval_edit :: "parse_duration \<Rightarrow> string \<Rightarrow> int option" where
  "interval_edit pd v =
     (if v = [] then Some hour else case pd v of Some d \<Rightarrow> if d < five_minutes then None else Some d | None \<Rightarrow> None)"

definition save_subscriptions ::
  "parse_duration \<Rightarrow> subscription_edit option \<Rightarrow> server \<Rightarrow> subscription_reply \<times> server" where
  "save_subscriptions pd body s =
     (case body of
        None \<Rightarrow> (SubBody, s)
      | Some e \<Rightarrow>
          (case interval_edit pd (sue_interval e) of
             None \<Rightarrow> (SubInterval, s)
           | Some interval \<Rightarrow>
               (case clean_urls {} (sue_urls e) of
                  None \<Rightarrow> (SubUrl, s)
                | Some urls \<Rightarrow>
                    (case sv_config s of
                       None \<Rightarrow> (SubNoConfig, s)
                     | Some live \<Rightarrow>
                         let c = (settings_snapshot live)\<lparr>c_subscriptions := urls,
                           c_refresh := (c_refresh live)\<lparr>rf_enabled := sue_enabled e, rf_interval := interval\<rparr>\<rparr>
                         in case save_subscription_settings c (sv_file s) of
                              (Some err, f) \<Rightarrow> (SubNotSaved err, s\<lparr>sv_file := f\<rparr>)
                            | (None, f) \<Rightarrow> (SubSaved urls (sue_enabled e) interval,
                                s\<lparr>sv_file := f, sv_config := Some (copy_subscriptions c live)\<rparr>)))))"

text \<open>The whole PUT: what was saved is handed to the subscription manager, if there is one, which refreshes. \<open>save\<close> is
  the outcome of its own save, \<open>cur\<close> and \<open>cur'\<close> are the running settings when it looks.\<close>

definition handle_subscription_put ::
  "parse_duration \<Rightarrow> string option \<Rightarrow> sub_settings option \<Rightarrow> sub_settings option \<Rightarrow> subscription_edit option
    \<Rightarrow> server \<Rightarrow> sub_manager option
    \<Rightarrow> (subscription_reply \<times> (refresh_error + request_result option) option) \<times> server \<times> sub_manager option" where
  "handle_subscription_put pd save cur cur' body s sub =
     (case save_subscriptions pd body s of
        (SubSaved urls enabled interval, s') \<Rightarrow>
          (case sub of
             None \<Rightarrow> ((SubSaved urls enabled interval, None), s', None)
           | Some m \<Rightarrow> (let (r, m') = update_and_refresh save cur cur' urls enabled interval m
                        in ((SubSaved urls enabled interval, Some r), s', Some m')))
      | (reply, s') \<Rightarrow> ((reply, None), s', sub))"

section \<open>All or nothing\<close>

lemma copy_settings_simps [simp]:
  "c_nodes (copy_settings c d) = c_nodes d" "c_subscriptions (copy_settings c d) = c_subscriptions d"
  "c_refresh (copy_settings c d) = c_refresh d" "c_nodes_file (copy_settings c d) = c_nodes_file d"
  "c_log_level (copy_settings c d) = c_log_level d" "c_file_path (copy_settings c d) = c_file_path d"
  "c_external_ip (copy_settings c d) = c_external_ip c" "c_skip_cert_verify (copy_settings c d) = c_skip_cert_verify c"
  "c_mode (copy_settings c d) = c_mode c" "c_management (copy_settings c d) = c_management c"
  "c_sticky (copy_settings c d) = c_sticky c" "c_pool (copy_settings c d) = c_pool c"
  "c_listener (copy_settings c d) = c_listener c" "c_multi_port (copy_settings c d) = c_multi_port c"
  "c_log (copy_settings c d) = c_log c" "c_geoip (copy_settings c d) = c_geoip c"
  "copy_settings (copy_settings c d) e = copy_settings c e" "copy_settings c (copy_settings d e) = copy_settings c e"
  "settings_snapshot (copy_settings c d) = copy_settings c (settings_snapshot d)" "copy_settings c c = c"
  by (simp_all add: copy_settings_def settings_snapshot_def)

lemma copy_subscriptions_simps [simp]:
  "c_nodes (copy_subscriptions c d) = c_nodes d" "c_subscriptions (copy_subscriptions c d) = c_subscriptions c"
  "c_refresh (copy_subscriptions c d) = c_refresh c" "copy_settings (copy_subscriptions c d) e = copy_settings d e"
  "settings_snapshot (copy_subscriptions c d) = settings_snapshot d"
  by (simp_all add: copy_subscriptions_def copy_settings_def settings_snapshot_def)

lemma validate_copy [simp]: "validate_management_settings (copy_settings c d) = validate_management_settings c"
  by (simp only: validate_management_settings_def first_bad_address_def copy_settings_simps)

lemma update_config_fileD:
  assumes "update_config_file u f = (r, f')"
  shows "r = None \<longleftrightarrow> cf_content f \<noteq> None \<and> cf_writable f" and "r \<noteq> None \<Longrightarrow> f' = f"
    and "r = None \<Longrightarrow> cf_content f' = map_option u (cf_content f) \<and> cf_writable f' = cf_writable f"
  using assms by (auto simp: update_config_file_def split: option.splits if_splits)

lemma save_management_settingsD:
  assumes "save_management_settings c f = (r, f')"
  shows "r \<noteq> None \<Longrightarrow> f' = f"
    and "r = None \<Longrightarrow> cf_content f \<noteq> None \<and> cf_content f' = map_option (copy_settings c) (cf_content f) \<and> validate_management_settings c = None"
  using assms by (auto simp: save_management_settings_def save_settings_def split: option.splits if_splits dest: update_config_fileD)

lemma save_subscription_settingsD:
  assumes "save_subscription_settings c f = (r, f')"
  shows "r \<noteq> None \<Longrightarrow> f' = f" and "r = None \<Longrightarrow> cf_content f \<noteq> None \<and> cf_content f' = map_option (copy_subscriptions c) (cf_content f)"
  using assms by (auto simp: save_subscription_settings_def split: if_splits dest: update_config_fileD)

lemma configure_limits:
  assumes "store_wf st"
  shows "\<exists>st'. configure m ttl now st = Some st' \<and> store_wf st' \<and> store_bounded st'
    \<and> st_max st' = (if m \<le> 0 then default_max_bindings else m) \<and> st_ttl st' = (if ttl \<le> 0 then default_idle_ttl else ttl)"
  using configure_ok [OF assms, of m ttl now] by (auto simp: configure_keep [OF assms] keep_def retime_def)

definition store_ready :: "server \<Rightarrow> bool" where
  "store_ready s \<longleftrightarrow> (\<forall>st. sv_store s = Some st \<longrightarrow> store_wf st)"

definition store_follows :: "config \<Rightarrow> server \<Rightarrow> bool" where
  "store_follows c s \<longleftrightarrow> (\<forall>st. sv_store s = Some st \<longrightarrow> store_wf st \<and> store_bounded st
     \<and> st_max st = max_sessions_or_default (c_sticky c) \<and> st_ttl st = session_ttl_or_default (c_sticky c))"

lemma limits_positive: "0 < max_sessions_or_default k" "0 < session_ttl_or_default k"
  by (auto simp: max_sessions_or_default_def session_ttl_or_default_def default_max_sessions_def default_session_ttl_def
      time_units)

lemma publish_settings_works:
  assumes "store_ready s"
  obtains changed s' where "publish_settings now c f s = Some (changed, s')" and "store_follows c s'"
    "sv_config s' = map_option (copy_settings c) (sv_config s)" "sv_file s' = f" "sv_external_ip s' = c_external_ip c"
    "sv_probe_target s' = mg_probe_target (c_management c)" "sv_skip_cert_verify s' = c_skip_cert_verify c"
    "set_password (mg_password (c_management c)) (sv_auth s) = (changed, sv_auth s')"
    "sv_store s' = None \<longleftrightarrow> sv_store s = None"
proof (cases "sv_store s")
  case None
  obtain ch au where p: "set_password (mg_password (c_management c)) (sv_auth s) = (ch, au)" by (cases "set_password (mg_password (c_management c)) (sv_auth s)")
  show ?thesis by (rule that) (auto simp: publish_settings_def p None store_follows_def)
next
  case (Some st)
  obtain ch au where p: "set_password (mg_password (c_management c)) (sv_auth s) = (ch, au)" by (cases "set_password (mg_password (c_management c)) (sv_auth s)")
  obtain st' where "configure (max_sessions_or_default (c_sticky c)) (session_ttl_or_default (c_sticky c)) now st = Some st'"
    "store_wf st'" "store_bounded st'" "st_max st' = max_sessions_or_default (c_sticky c)" "st_ttl st' = session_ttl_or_default (c_sticky c)"
    using configure_limits [of st "max_sessions_or_default (c_sticky c)" "session_ttl_or_default (c_sticky c)" now] assms Some
      limits_positive [of "c_sticky c"] by (auto simp: store_ready_def)
  then show ?thesis by (intro that) (auto simp: publish_settings_def p Some store_follows_def)
qed

text \<open>C15: Saving the settings is all or nothing. Every reply but the successful one leaves the running configuration, the
  file, the password, the logins and the routing store as they were. A successful one leaves the same valid settings
  in memory and in the file, takes nodes and subscriptions from neither to the other, and gives the session store its new limits.\<close>

theorem settings_all_or_nothing:
  assumes "store_ready s"
  shows "\<exists>reply s'. handle_settings_put pd now body s = Some (reply, s') \<and>
    (if \<exists>ip t b ch. reply = SettingsSaved ip t b ch
     then \<exists>live saved live' saved'. sv_config s = Some live \<and> cf_content (sv_file s) = Some saved
       \<and> sv_config s' = Some live' \<and> cf_content (sv_file s') = Some saved'
       \<and> copy_settings live' saved' = saved' \<and> validate_management_settings live' = None
       \<and> copy_settings live live' = live \<and> copy_settings saved saved' = saved
       \<and> au_password (sv_auth s') = mg_password (c_management live') \<and> store_follows live' s'
     else s' = s)"
proof (cases body)
  case None
  then show ?thesis by (simp add: handle_settings_put_def)
next
  case (Some e)
  show ?thesis
  proof (cases "check_edit pd e")
    case ok: None
    show ?thesis
    proof (cases "sv_config s")
      case None
      then show ?thesis using Some ok by (simp add: handle_settings_put_def)
    next
      case live: (Some live)
      define c where "c = apply_edit pd e (settings_snapshot live)"
      obtain r f where r: "save_management_settings c (sv_file s) = (r, f)" by (cases "save_management_settings c (sv_file s)")
      note saved = save_management_settingsD [OF r]
      show ?thesis
      proof (cases "validate_management_settings c = None \<and> r = None")
        case False
        then show ?thesis using Some ok live r saved(1)
          by (auto simp: handle_settings_put_def c_def [symmetric] Let_def split: option.splits)
      next
        case True
        obtain ch s' where p: "publish_settings now c f s = Some (ch, s')" "store_follows c s'" "sv_config s' = map_option (copy_settings c) (sv_config s)"
          "sv_file s' = f" "set_password (mg_password (c_management c)) (sv_auth s) = (ch, sv_auth s')"
          by (rule publish_settings_works [OF assms])
        have pw: "au_password (sv_auth s') = mg_password (c_management c)" using arg_cong [OF p(5), of "\<lambda>x. au_password (snd x)"] by (simp add: set_password_def split: if_split_asm)
        obtain old where old: "cf_content (sv_file s) = Some old" "cf_content f = Some (copy_settings c old)" using saved(2) True by auto
        have reply: "handle_settings_put pd now body s = Some (SettingsSaved (c_external_ip c) (mg_probe_target (c_management c)) (c_skip_cert_verify c) ch, s')"
          using Some ok live r True p(1) by (simp add: handle_settings_put_def c_def [symmetric] Let_def)
        show ?thesis unfolding reply
          by (rule exI, rule exI, rule conjI [OF refl])
            (use live old p True pw in \<open>auto simp: store_follows_def\<close>)
      qed
    qed
  next
    case (Some b)
    then show ?thesis using \<open>body = Some e\<close> by (simp add: handle_settings_put_def)
  qed
qed

section \<open>The server over time\<close>







section \<open>Reading and saving back\<close>

text \<open>The edit that sends every value back as it was read.\<close>

definition view_edit :: "settings_view \<Rightarrow> settings_edit" where
  "view_edit v = \<lparr>ed_external_ip = Some (vw_external_ip v), ed_probe_target = Some (vw_probe_target v),
     ed_skip_cert_verify = Some (vw_skip_cert_verify v), ed_mode = vw_mode v, ed_listener = Some (vw_listener v),
     ed_multi_port = Some (vw_multi_port v), ed_pool = Some (vw_pool v), ed_sticky = Some (vw_sticky v),
     ed_management = Some (vw_management v),
     ed_log = Some \<lparr>lge_output = lg_output (vw_log v), lge_max_size = lg_max_size (vw_log v), lge_max_backups = lg_max_backups (vw_log v),
       lge_max_age = lg_max_age (vw_log v), lge_compress = lg_compress (vw_log v)\<rparr>,
     ed_geoip = Some (vw_geoip v)\<rparr>"

text \<open>\<open>time.ParseDuration\<close> reads what \<open>Duration.String\<close> prints, which is never empty, for all durations of 64 bits.\<close>

definition durations_parse :: "parse_duration \<Rightarrow> (int \<Rightarrow> string) \<Rightarrow> bool" where
  "durations_parse pd ds \<longleftrightarrow> (\<forall>d. 0 \<le> d \<and> d < 2 ^ 63 \<longrightarrow> pd (ds d) = Some d \<and> ds d \<noteq> [])"

definition lasting :: "duration \<Rightarrow> bool" where
  "lasting d \<longleftrightarrow> 0 < d \<and> d < 2 ^ 63"

text \<open>What loading guarantees of the settings: the durations of the pool and the limits of log rotation are set. It sets no
  interval for updates of the GeoIP database and trims no text.\<close>

definition settings_loaded :: "config \<Rightarrow> bool" where
  "settings_loaded c \<longleftrightarrow> lasting (pl_blacklist_duration (c_pool c)) \<and> lasting (pl_transient_cooldown (c_pool c))
     \<and> lasting (pl_rate_limit_cooldown (c_pool c))
     \<and> lg_max_size (c_log c) > 0 \<and> lg_max_backups (c_log c) > 0 \<and> lg_max_age (c_log c) > 0"

lemma loading_sets_settings:
  assumes "apply_defaults c0 = Inr c"
    and "pl_blacklist_duration (c_pool c0) < 2 ^ 63" "pl_transient_cooldown (c_pool c0) < 2 ^ 63" "pl_rate_limit_cooldown (c_pool c0) < 2 ^ 63"
  shows "settings_loaded (normalize_log_config c)"
proof -
  obtain mode where pool: "c_pool c = default_pool mode (c_pool c0)"
    using assms(1) by (auto simp: apply_defaults_def Let_def split: if_splits option.splits)
  have positive: "0 < or_positive v d" "v < b \<Longrightarrow> d < b \<Longrightarrow> or_positive v d < b" if "0 < d" for v d b :: int
    using that by (simp_all add: or_positive_def)
  show ?thesis
    using assms(2-4) by (simp add: settings_loaded_def pool default_pool_def normalize_log_config_def lasting_def Let_def positive time_units)
qed


lemma settings_page_snapshot [simp]: "settings_page ds (settings_snapshot c) s = settings_page ds c s"
  by (simp add: settings_page_def settings_snapshot_def probe_concurrency_or_default_def)







lemma probe_concurrency_positive: "0 < probe_concurrency_or_default c" "probe_concurrency_or_default c \<le> 1024"
  by (simp_all add: probe_concurrency_or_default_def Let_def)



text \<open>With updates on and no interval in the file, the page shows the interval 0, and no save of what it shows is accepted.\<close>

lemma unset_interval_blocks_saving:
  assumes "durations_parse pd ds" "settings_loaded c" "validate_management_settings c = None"
    and "ge_auto_update_enabled (c_geoip c)" "ge_auto_update_interval (c_geoip c) = 0"
  shows "check_edit pd (view_edit (settings_page ds c s)) = Some BadGeoInterval"
  using assms(1,2,4,5) probe_concurrency_positive [of c]
  by (simp add: check_edit_def view_edit_def settings_page_def bad_pool_duration_def positive_or_empty_def durations_parse_def
      settings_loaded_def geo_update_interval_def lasting_def)








section \<open>Accepted subscriptions\<close>

lemma clean_urls_sound:
  assumes "clean_urls old raws = Some us"
  shows "distinct us \<and> set us \<inter> old = {} \<and> set us = (trim_space ` set raws) - {[]} - old
    \<and> (\<forall>u\<in>set us. \<exists>p. url_parse u = Some p \<and> (u_scheme p = ''http'' \<or> u_scheme p = ''https'') \<and> url_hostname p \<noteq> [])"
  using assms
proof (induction raws arbitrary: old us)
  case (Cons r raws)
  show ?case
  proof (cases "trim_space r = [] \<or> trim_space r \<in> old")
    case True
    then have "clean_urls old raws = Some us" using Cons.prems by (auto simp: Let_def split: option.splits if_splits)
    from Cons.IH [OF this] show ?thesis using True by auto
  next
    case False
    then obtain p vs where p: "url_parse (trim_space r) = Some p" "u_scheme p = ''http'' \<or> u_scheme p = ''https''" "url_hostname p \<noteq> []"
      and vs: "clean_urls (insert (trim_space r) old) raws = Some vs" "us = trim_space r # vs"
      using Cons.prems by (auto simp: Let_def split: option.splits if_splits)
    from Cons.IH [OF vs(1)] show ?thesis using False p vs(2) by auto
  qed
qed simp

text \<open>C16: Subscriptions that are accepted are clean and reach everyone. The addresses are the trimmed ones of the request, each once, all HTTP
  or HTTPS with a host. Memory, file and the subscription manager as the request leaves it hold the same ones with the same
  interval of at least five minutes, nodes and settings stay as they were, and when an address is left a refresh call
  is open that has not begun and will use them. A refused request changes nothing anywhere.\<close>

theorem accepted_subscriptions_reach_everyone:
  assumes "handle_subscription_put pd None cur cur body s (Some m) = ((reply, refresh), s', Some m')" and "sub_reachable m" and "\<not> sm_stopped m"
  shows "case reply of SubSaved urls enabled interval \<Rightarrow>
      distinct urls \<and> (\<exists>e. body = Some e \<and> set urls = trim_space ` set (sue_urls e) - {[]} \<and> enabled = sue_enabled e)
    \<and> (\<forall>u\<in>set urls. \<exists>p. url_parse u = Some p \<and> (u_scheme p = ''http'' \<or> u_scheme p = ''https'') \<and> url_hostname p \<noteq> [])
    \<and> interval \<ge> five_minutes
    \<and> (\<exists>live saved live' saved'. sv_config s = Some live \<and> cf_content (sv_file s) = Some saved
        \<and> sv_config s' = Some live' \<and> cf_content (sv_file s') = Some saved'
        \<and> settings_of live' = settings_of saved' \<and> ss_urls (settings_of live') = urls \<and> rf_interval (ss_refresh (settings_of live')) = interval
        \<and> rf_enabled (ss_refresh (settings_of live')) = enabled
        \<and> copy_subscriptions live live' = live \<and> copy_subscriptions saved saved' = saved)
    \<and> ss_urls (sm_base m') = urls \<and> rf_interval (ss_refresh (sm_base m')) = interval \<and> rf_enabled (ss_refresh (sm_base m')) = enabled
    \<and> (urls = [] \<longrightarrow> refresh = Some (Inr None))
    \<and> (urls \<noteq> [] \<longrightarrow> (\<exists>c. (refresh = Some (Inr (Some (Joined c))) \<or> refresh = Some (Inr (Some (Sent c))))
        \<and> sm_pending m' = Some c \<and> open_call m' c))
    | _ \<Rightarrow> s' = s \<and> m' = m \<and> refresh = None"
proof -
  obtain r s1 where r: "save_subscriptions pd body s = (r, s1)" by (cases "save_subscriptions pd body s")
  show ?thesis
  proof (cases "\<exists>urls enabled interval. r = SubSaved urls enabled interval")
    case False
    then have "reply = r \<and> s' = s1 \<and> m' = m \<and> refresh = None" using assms(1) r
      by (cases r) (auto simp: handle_subscription_put_def)
    moreover have "s1 = s" using r False
      by (auto simp: save_subscriptions_def Let_def split: option.splits prod.splits dest!: save_subscription_settingsD(1))
    ultimately show ?thesis using False by (cases r) auto
  next
    case True
    then obtain urls enabled interval where k: "r = SubSaved urls enabled interval" by blast
    obtain ref m2 where u: "update_and_refresh None cur cur urls enabled interval m = (ref, m2)"
      by (cases "update_and_refresh None cur cur urls enabled interval m")
    have res: "reply = SubSaved urls enabled interval" "s' = s1" "m' = m2" "refresh = Some ref"
      using assms(1) r k u by (simp_all add: handle_subscription_put_def)
    obtain e live f where e: "body = Some e" "interval_edit pd (sue_interval e) = Some interval" "clean_urls {} (sue_urls e) = Some urls"
      "sv_config s = Some live" "sue_enabled e = enabled" and c: "save_subscription_settings ((settings_snapshot live)\<lparr>c_subscriptions := urls,
          c_refresh := (c_refresh live)\<lparr>rf_enabled := enabled, rf_interval := interval\<rparr>\<rparr>) (sv_file s) = (None, f)"
      and s1: "s1 = s\<lparr>sv_file := f, sv_config := Some (copy_subscriptions ((settings_snapshot live)\<lparr>c_subscriptions := urls,
          c_refresh := (c_refresh live)\<lparr>rf_enabled := enabled, rf_interval := interval\<rparr>\<rparr>) live)\<rparr>"
      using r k by (auto simp: save_subscriptions_def Let_def split: option.splits prod.splits)
    have i: "five_minutes \<le> interval" "0 < interval" using e(2)
      by (auto simp: interval_edit_def five_minutes_def time_units split: if_splits option.splits)
    note handed = update_and_refresh_accepted [OF assms(2,3) u]
    have base: "ss_urls (sm_base m2) = urls" "rf_interval (ss_refresh (sm_base m2)) = interval" "rf_enabled (ss_refresh (sm_base m2)) = enabled"
      using handed(1) i(2) by (simp_all add: edited_settings_def Let_def)
    obtain saved where saved: "cf_content (sv_file s) = Some saved" "cf_content f = Some (copy_subscriptions ((settings_snapshot live)\<lparr>c_subscriptions := urls,
          c_refresh := (c_refresh live)\<lparr>rf_enabled := enabled, rf_interval := interval\<rparr>\<rparr>) saved)"
      using save_subscription_settingsD(2) [OF c] by auto
    show ?thesis using clean_urls_sound [OF e(3)] e(1,4,5) i(1) base handed(2,3) saved
      by (simp add: res s1 settings_of_def) (simp add: copy_subscriptions_def)
  qed
qed

section \<open>Examples\<close>

definition demo_pd :: parse_duration where "demo_pd v = atoi (take (length v - 2) v)"


definition demo_live :: config where
  "demo_live = (sample_config [node_of_uri ''one'' ''trojan://one@a:1''])\<lparr>c_file_path := ''/etc/proxies.yaml'', c_external_ip := '' 192.0.2.1'',
     c_pool := (c_pool (sample_config []))\<lparr>pl_blacklist_duration := 24 * hour, pl_transient_cooldown := 60 * second,
       pl_rate_limit_cooldown := 60 * second\<rparr>,
     c_management := (c_management (sample_config []))\<lparr>mg_probe_target := ''example.org:80'', mg_password := ''secret''\<rparr>,
     c_log := (c_log (sample_config []))\<lparr>lg_max_size := 50, lg_max_backups := 3, lg_max_age := 7\<rparr>,
     c_geoip := (c_geoip (sample_config []))\<lparr>ge_auto_update_interval := 0\<rparr>\<rparr>"

definition demo_server :: server where
  "demo_server = \<lparr>sv_auth = \<lparr>au_password = ''secret'', au_sessions = [(''t'', \<lparr>ls_created = 0, ls_expires = session_life\<rparr>)]\<rparr>,
     sv_external_ip = '' 192.0.2.1'', sv_probe_target = ''example.org:80'', sv_skip_cert_verify = False, sv_proxy_username = [],
     sv_proxy_password = [], sv_config = Some demo_live, sv_file = \<lparr>cf_content = Some demo_live, cf_writable = True\<rparr>,
     sv_store = Some empty_store\<rparr>"

lemma demo_server_ready: "store_ready demo_server"
  by (simp add: store_ready_def demo_server_def empty_store_wf)



definition demo_settings_edit :: settings_edit where
  "demo_settings_edit = \<lparr>ed_external_ip = Some '' 192.0.2.9 '', ed_probe_target = None, ed_skip_cert_verify = None, ed_mode = ''pool'',
     ed_listener = None, ed_multi_port = None, ed_pool = None,
     ed_sticky = Some \<lparr>ste_enabled = Some True, ste_port = Some 4000, ste_session_enabled = None, ste_session_ttl = None, ste_max_sessions = Some 5\<rparr>,
     ed_management = None, ed_log = None, ed_geoip = None\<rparr>"

theorem settings_all_or_nothing_witness:
  "\<exists>reply s'. handle_settings_put demo_pd 0 (Some demo_settings_edit) demo_server = Some (reply, s')
     \<and> (\<exists>live'. sv_config s' = Some live' \<and> c_external_ip live' = ''192.0.2.9'' \<and> validate_management_settings live' = None)"
proof -
  obtain reply s' where r: "handle_settings_put demo_pd 0 (Some demo_settings_edit) demo_server = Some (reply, s')"
    and body: "(\<exists>ip t b ch. reply = SettingsSaved ip t b ch) \<Longrightarrow> \<exists>live'. sv_config s' = Some live' \<and> validate_management_settings live' = None"
    using settings_all_or_nothing [OF demo_server_ready, of demo_pd 0 "Some demo_settings_edit"] by (auto split: if_split_asm)
  have f: "fst (the (handle_settings_put demo_pd 0 (Some demo_settings_edit) demo_server)) =
      SettingsSaved ''192.0.2.9'' ''example.org:80'' False False"
    "map_option c_external_ip (sv_config (snd (the (handle_settings_put demo_pd 0 (Some demo_settings_edit) demo_server)))) = Some ''192.0.2.9''"
    by code_simp+
  have saved: "reply = SettingsSaved ''192.0.2.9'' ''example.org:80'' False False" using r f(1) by simp
  then obtain live' where "sv_config s' = Some live'" "validate_management_settings live' = None" using body by blast
  then show ?thesis using r f(2) by simp
qed


definition demo_subscription_edit :: subscription_edit where
  "demo_subscription_edit = \<lparr>sue_urls = ['' https://a.example/s '', [], ''http://b/x'', ''https://a.example/s''], sue_enabled = True,
     sue_interval = []\<rparr>"

theorem accepted_subscriptions_reach_everyone_witness:
  "\<exists>refresh s' m'. handle_subscription_put demo_pd None None None (Some demo_subscription_edit) demo_server
       (Some (new_sub_manager demo_live)) = ((SubSaved [''https://a.example/s'', ''http://b/x''] True hour, refresh), s', Some m')
     \<and> ss_urls (sm_base m') = [''https://a.example/s'', ''http://b/x''] \<and> (\<exists>c. sm_pending m' = Some c \<and> open_call m' c)
     \<and> (\<exists>live' saved'. sv_config s' = Some live' \<and> cf_content (sv_file s') = Some saved' \<and> settings_of live' = settings_of saved')"
proof -
  let ?put = "handle_subscription_put demo_pd None None None (Some demo_subscription_edit) demo_server (Some (new_sub_manager demo_live))"
  obtain reply refresh s' sub' where r: "?put = ((reply, refresh), s', sub')" by (metis prod.exhaust)
  have f: "fst (fst ?put) = SubSaved [''https://a.example/s'', ''http://b/x''] True hour" "snd (snd ?put) \<noteq> None"
    by code_simp+
  then obtain m' where m': "sub' = Some m'" "reply = SubSaved [''https://a.example/s'', ''http://b/x''] True hour" using r by auto
  have open_manager: "\<not> sm_stopped (new_sub_manager demo_live)" by (simp add: new_sub_manager_def)
  from accepted_subscriptions_reach_everyone [OF r [unfolded m'] fresh open_manager]
  show ?thesis unfolding r m' by auto
qed

end
