(* ===== verification/ProbeError.thy ===== *)
theory ProbeError
  imports GoUrlFacts
begin

text \<open>
  How a failed probe is reported (\<open>internal/monitor/probe_error.go\<close>): the category of the error and the
  line for the log. The Chinese summaries are a function of the category and a parameter here.
\<close>

definition node_brief :: "string \<Rightarrow> string" where
  "node_brief uri =
     (if uri = [] then []
      else case url_parse uri of
          None \<Rightarrow> []
        | Some u \<Rightarrow>
            if u_scheme u = [] \<or> url_hostname u = [] then []
            else if url_port u \<noteq> [] then u_scheme u @ ''@'' @ url_hostname u @ '':'' @ url_port u
            else u_scheme u @ ''@'' @ url_hostname u)"

datatype probe_category =
    NoError | AddrInvalid | TransportHandshake | TlsFailed | ProtoMismatch | DialTimeout | DialRefused | DialNoRoute
  | DialReset | DialFailed | ReadTimeout | ConnReset | Cancelled | OtherError

definition category_code :: "probe_category \<Rightarrow> string" where
  "category_code c = (case c of
       NoError \<Rightarrow> [] | AddrInvalid \<Rightarrow> ''addr_invalid'' | TransportHandshake \<Rightarrow> ''transport_handshake'' | TlsFailed \<Rightarrow> ''tls_failed''
     | ProtoMismatch \<Rightarrow> ''proto_mismatch'' | DialTimeout \<Rightarrow> ''dial_timeout'' | DialRefused \<Rightarrow> ''dial_refused''
     | DialNoRoute \<Rightarrow> ''dial_no_route'' | DialReset \<Rightarrow> ''dial_reset'' | DialFailed \<Rightarrow> ''dial_failed'' | ReadTimeout \<Rightarrow> ''read_timeout''
     | ConnReset \<Rightarrow> ''conn_reset'' | Cancelled \<Rightarrow> ''cancelled'' | OtherError \<Rightarrow> ''other'')"

definition holds_text :: "string \<Rightarrow> string \<Rightarrow> bool" where
  "holds_text s t \<longleftrightarrow> index_of s t \<noteq> None"

definition classify_probe_error :: "string option \<Rightarrow> probe_category" where
  "classify_probe_error err =
     (case err of
        None \<Rightarrow> NoError
      | Some s \<Rightarrow>
          if holds_text s ''127.127.127.1'' then AddrInvalid
          else if holds_text s ''http-upgrade'' \<or> holds_text s ''httpupgrade'' \<or> holds_text s ''unexpected status''
            \<or> holds_text s ''unexpected HTTP'' \<or> holds_text s ''v2ray-'' then TransportHandshake
          else if holds_text s ''tls:'' \<or> holds_text s ''handshake'' \<or> holds_text s ''certificate'' then TlsFailed
          else if holds_text s ''unknown version'' \<or> holds_text s ''malformed'' then ProtoMismatch
          else if holds_text s ''dial tcp'' \<or> holds_text s ''dial udp''
          then (if holds_text s ''i/o timeout'' \<or> holds_text s ''timeout'' then DialTimeout
                else if holds_text s ''connection refused'' then DialRefused
                else if holds_text s ''no route to host'' then DialNoRoute
                else if holds_text s ''connection reset'' then DialReset
                else DialFailed)
          else if holds_text s ''i/o timeout'' \<or> holds_text s ''deadline exceeded'' then ReadTimeout
          else if holds_text s ''EOF'' \<or> holds_text s ''reset by peer'' \<or> holds_text s ''broken pipe''
            \<or> holds_text s ''connection reset'' then ConnReset
          else if holds_text s ''context canceled'' then Cancelled
          else OtherError)"

definition format_probe_failure :: "(probe_category \<Rightarrow> string) \<Rightarrow> string \<Rightarrow> string \<Rightarrow> string \<Rightarrow> string" where
  "format_probe_failure summary tag uri err =
     (let brief = node_brief uri; c = classify_probe_error (Some err)
      in tag @ (if brief \<noteq> [] then '' ['' @ brief @ '']'' else []) @ '' ('' @ category_code c @ '') '' @ summary c @ '' | '' @ err)"

section \<open>Categories\<close>

lemma category_code_inj: "category_code c = category_code d \<Longrightarrow> c = d"
  by (cases c; cases d) (simp_all add: category_code_def)

text \<open>A probe whose deadline passed is the node's fault: it is never reported as cancelled.\<close>

lemma deadline_is_no_cancellation:
  "holds_text s ''deadline exceeded'' \<Longrightarrow> classify_probe_error (Some s) \<noteq> Cancelled \<and> classify_probe_error (Some s) \<noteq> OtherError"
  by (simp add: classify_probe_error_def)

section \<open>What the log shows of a node\<close>

text \<open>A line of the log does not depend on the credentials of the node: for a URI with user information, query and name,
  what is shown is the scheme, the server and the port alone.\<close>

lemma log_line_hides_credentials:
  assumes "plain_scheme sc" and "good_server h"
    and "list_all (\<lambda>c. \<not> is_ctl c \<and> c \<noteq> CHR ''#'' \<and> c \<noteq> CHR ''?'') q"
  shows "node_brief (url_string (node_url sc us (join_host_port h (itoa (uint (port :: 16 word)))) q f))
      = sc @ ''@'' @ h @ '':'' @ itoa (uint port)"
proof -
  have dig: "list_all is_digit (itoa (uint port))" by (auto simp: list_all_iff intro: itoa_digits)
  let ?u = "node_url sc us (join_host_port h (itoa (uint port))) q f"
  have sc0: "sc \<noteq> []" and h0: "h \<noteq> []" using assms(1,2) by (auto simp: plain_scheme_def good_server_def)
  have "url_parse (url_string ?u) = Some ?u"
    by (intro url_parse_node parse_host_join assms(1,2) dig) (use assms(3) in \<open>auto simp: join_host_port_def list_all_iff\<close>)
  moreover have "url_string ?u \<noteq> []" using sc0 by (subst url_string_node) (auto simp: join_host_port_def)
  moreover have "url_hostname ?u = h" "url_port ?u = itoa (uint port)"
    using split_url_host_join [OF assms(2) dig] by (simp_all add: url_hostname_def url_port_def)
  ultimately show ?thesis using sc0 h0 by (simp add: node_brief_def)
qed

lemma log_line_hides_credentials_example:
  "node_brief (url_string (node_url ''trojan'' (Some (url_user ''secret'')) (join_host_port ''a.example'' (itoa (uint (443 :: 16 word))))
     ''sni=b'' ''name'')) = ''trojan@a.example:443''"
proof -
  have p: "plain_scheme ''trojan''" "good_server ''a.example''" by code_simp+
  have q: "list_all (\<lambda>c. \<not> is_ctl c \<and> c \<noteq> CHR ''#'' \<and> c \<noteq> CHR ''?'') ''sni=b''" by code_simp
  have i: "''trojan'' @ ''@'' @ ''a.example'' @ '':'' @ itoa (uint (443 :: 16 word)) = ''trojan@a.example:443''" by code_simp
  show ?thesis using log_line_hides_credentials [where us = "Some (url_user ''secret'')" and port = 443 and f = "''name''", OF p q] unfolding i .
qed

text \<open>The links that hold everything in one Base64 text do parse, with that text as the host: the comment of \<open>nodeBrief\<close>
  says they do not, and the credentials of such a node are in the log.\<close>

lemma vmess_link_is_logged:
  "node_brief ''vmess://eyJpZCI6InNlY3JldCJ9'' = ''vmess@eyJpZCI6InNlY3JldCJ9''"
  by code_simp

lemma dial_deadline_is_dial_failed:
  "classify_probe_error (Some ''dial tcp 192.0.2.1:443: context deadline exceeded'') = DialFailed"
  by code_simp

end
