(* ===== verification/ProbeRuns.thy ===== *)
theory ProbeRuns
  imports MonitorManager
begin

text \<open>
  Probing nodes (\<open>internal/monitor/manager.go\<close>): the run that all callers of one node share, what a caller makes of
  its result, and the gate in front of sweeps. Callers are interleaved at the points where the code holds the
  mutex of the entry, so a result may be applied long after it was computed.
\<close>

section \<open>One node\<close>

record probe_wait =
  pw_run :: nat
  pw_started :: bool

record probe_return =
  rt_latency :: duration
  rt_error :: "probe_error option"
  rt_authoritative :: bool
  rt_generation :: "64 word"

text \<open>The entry with the runs made so far, the callers that wait, the answers that callers hold, and the answers that
  were applied, in order.\<close>

record probing =
  pg_entry :: entry
  pg_runs :: "probe_run list"
  pg_waits :: "probe_wait list"
  pg_returned :: "probe_return list"
  pg_written :: "probe_return list"

datatype wait_start = ContextEnded | ProbeUnavailable | Waits probe_wait

text \<open>\<open>waitProbe\<close> until it waits: a caller joins the run under way or starts one.\<close>

definition begin_wait :: "bool \<Rightarrow> probing \<Rightarrow> wait_start \<times> probing" where
  "begin_wait ended p =
     (if ended then (ContextEnded, p)
      else if e_probe (pg_entry p) = None then (ProbeUnavailable, p)
      else case e_probe_run (pg_entry p) of
          Some r \<Rightarrow> (let w = \<lparr>pw_run = r, pw_started = False\<rparr> in (Waits w, p\<lparr>pg_waits := pg_waits p @ [w]\<rparr>))
        | None \<Rightarrow>
            (let g = e_probe_generation (pg_entry p) + 1; r = length (pg_runs p); w = \<lparr>pw_run = r, pw_started = True\<rparr>
             in (Waits w, p\<lparr>pg_entry := (pg_entry p)\<lparr>e_probe_generation := g, e_probe_run := Some r\<rparr>,
                  pg_runs := pg_runs p @ [\<lparr>pr_generation = g, pr_result = None\<rparr>], pg_waits := pg_waits p @ [w]\<rparr>)))"

text \<open>The goroutine of a run ends.\<close>

definition end_run :: "nat \<Rightarrow> duration \<times> probe_error option \<Rightarrow> probing \<Rightarrow> probing" where
  "end_run r res p = p\<lparr>pg_runs := (pg_runs p)[r := (pg_runs p ! r)\<lparr>pr_result := Some res\<rparr>],
     pg_entry := (if e_probe_run (pg_entry p) = Some r then (pg_entry p)\<lparr>e_probe_run := None\<rparr> else pg_entry p)\<rparr>"

text \<open>The end of \<open>waitProbe\<close>. Both branches of its \<open>select\<close> agree once the caller's context has ended; \<open>None\<close> means that it still waits.\<close>

definition end_wait :: "probe_error option \<Rightarrow> probe_wait \<Rightarrow> probing \<Rightarrow> probe_return option" where
  "end_wait ctx_err w p =
     (let run = pg_runs p ! pw_run w
      in case ctx_err of
           Some e \<Rightarrow> Some \<lparr>rt_latency = 0, rt_error = Some e, rt_authoritative = pw_started w, rt_generation = pr_generation run\<rparr>
         | None \<Rightarrow> map_option (\<lambda>(l, e). \<lparr>rt_latency = l, rt_error = e, rt_authoritative = True, rt_generation = pr_generation run\<rparr>)
             (pr_result run))"

definition apply_probe_result :: "instant \<Rightarrow> probe_return \<Rightarrow> entry \<Rightarrow> bool \<times> entry" where
  "apply_probe_result now rt e =
     (if rt_generation rt \<noteq> e_probe_generation e then (False, e)
      else (True, case rt_error rt of
          Some err \<Rightarrow> e\<lparr>e_initial_check_done := True, e_last_error := er_text err, e_last_fail := now, e_available := False\<rparr>
        | None \<Rightarrow> e\<lparr>e_initial_check_done := True, e_last_ok := now, e_last_error := [], e_last_probe := rt_latency rt, e_available := True\<rparr>))"

text \<open>A cancelled caller says nothing about the node.\<close>

definition counts_for_health :: "probe_return \<Rightarrow> bool" where
  "counts_for_health rt \<longleftrightarrow> rt_authoritative rt \<and> (case rt_error rt of Some e \<Rightarrow> \<not> er_canceled e | None \<Rightarrow> True)"

definition settle :: "instant \<Rightarrow> probe_return \<Rightarrow> probing \<Rightarrow> probing" where
  "settle now rt p =
     (if \<not> counts_for_health rt then p
      else let (applied, e) = apply_probe_result now rt (pg_entry p)
        in p\<lparr>pg_entry := e, pg_written := (if applied then pg_written p @ [rt] else pg_written p)\<rparr>)"

text \<open>What \<open>Probe\<close> returns to a manual caller.\<close>

definition probe_reply :: "probe_return \<Rightarrow> probe_error + duration" where
  "probe_reply rt = (case rt_error rt of Some e \<Rightarrow> Inl e | None \<Rightarrow> Inr (rt_latency rt))"

text \<open>The operations of others on the entry leave its run and its generation alone.\<close>

inductive probe_steps :: "entry \<Rightarrow> probing \<Rightarrow> bool" for start where
  pr_start: "e_probe_run start = None \<Longrightarrow> e_probe_generation start = 0 \<Longrightarrow>
     probe_steps start \<lparr>pg_entry = start, pg_runs = [], pg_waits = [], pg_returned = [], pg_written = []\<rparr>"
| pr_call: "probe_steps start p \<Longrightarrow> probe_steps start (snd (begin_wait ended p))"
| pr_ended: "probe_steps start p \<Longrightarrow> r < length (pg_runs p) \<Longrightarrow> pr_result (pg_runs p ! r) = None \<Longrightarrow> probe_steps start (end_run r res p)"
| pr_return: "probe_steps start p \<Longrightarrow> w \<in> set (pg_waits p) \<Longrightarrow> end_wait ctx_err w p = Some rt \<Longrightarrow>
     probe_steps start (p\<lparr>pg_waits := remove1 w (pg_waits p), pg_returned := pg_returned p @ [rt]\<rparr>)"
| pr_settle: "probe_steps start p \<Longrightarrow> rt \<in> set (pg_returned p) \<Longrightarrow>
     probe_steps start (settle now rt (p\<lparr>pg_returned := remove1 rt (pg_returned p)\<rparr>))"
| pr_traffic: "probe_steps start p \<Longrightarrow> e_probe_run e = e_probe_run (pg_entry p) \<Longrightarrow>
     e_probe_generation e = e_probe_generation (pg_entry p) \<Longrightarrow> probe_steps start (p\<lparr>pg_entry := e\<rparr>)"

section \<open>Invariant\<close>

text \<open>Where an answer comes from: the result of a run, or the end of its caller's context.\<close>

definition backed :: "probe_run list \<Rightarrow> probe_return \<Rightarrow> bool" where
  "backed runs rt \<longleftrightarrow> (\<exists>r<length runs. rt_generation rt = pr_generation (runs ! r)
     \<and> (rt_error rt = None \<longrightarrow> pr_result (runs ! r) = Some (rt_latency rt, None)))"

definition probe_inv :: "probing \<Rightarrow> bool" where
  "probe_inv p \<longleftrightarrow>
     (\<forall>r<length (pg_runs p). pr_generation (pg_runs p ! r) = of_nat (Suc r))
     \<and> e_probe_generation (pg_entry p) = of_nat (length (pg_runs p))
     \<and> (\<forall>r<length (pg_runs p). pr_result (pg_runs p ! r) = None \<longleftrightarrow> e_probe_run (pg_entry p) = Some r)
     \<and> (\<forall>r. e_probe_run (pg_entry p) = Some r \<longrightarrow> r < length (pg_runs p))
     \<and> (\<forall>w\<in>set (pg_waits p). pw_run w < length (pg_runs p))
     \<and> (\<forall>rt\<in>set (pg_returned p). backed (pg_runs p) rt)
     \<and> (\<forall>rt\<in>set (pg_written p). backed (pg_runs p) rt)"

lemma unfinished_run:
  "probe_inv p \<Longrightarrow> r < length (pg_runs p) \<Longrightarrow> pr_result (pg_runs p ! r) = None \<Longrightarrow> e_probe_run (pg_entry p) = Some r"
  by (simp add: probe_inv_def)

lemma backed_append: "backed runs rt \<Longrightarrow> backed (runs @ [x]) rt"
  unfolding backed_def by (metis length_append_singleton less_Suc_eq nth_append)

lemma backed_end_run:
  assumes "backed runs rt" "r < length runs" "pr_result (runs ! r) = None"
  shows "backed (runs[r := (runs ! r)\<lparr>pr_result := Some res\<rparr>]) rt"
proof -
  obtain k where k: "k < length runs" "rt_generation rt = pr_generation (runs ! k)"
    "rt_error rt = None \<longrightarrow> pr_result (runs ! k) = Some (rt_latency rt, None)" using assms(1) by (auto simp: backed_def)
  show ?thesis unfolding backed_def
    by (rule exI [of _ k]) (use k assms(2,3) in \<open>cases "k = r"; auto\<close>)
qed

lemma begin_wait_inv:
  assumes "probe_inv p" shows "probe_inv (snd (begin_wait ended p))"
proof (cases "ended \<or> e_probe (pg_entry p) = None")
  case True
  then show ?thesis using assms by (auto simp: begin_wait_def)
next
  case False
  show ?thesis
  proof (cases "e_probe_run (pg_entry p)")
    case (Some r)
    then show ?thesis using False assms by (auto simp: begin_wait_def probe_inv_def Let_def)
  next
    case None
    let ?p = "snd (begin_wait ended p)"
    have p: "pg_runs ?p = pg_runs p @ [\<lparr>pr_generation = of_nat (Suc (length (pg_runs p))), pr_result = None\<rparr>]"
      "e_probe_run (pg_entry ?p) = Some (length (pg_runs p))" "e_probe_generation (pg_entry ?p) = of_nat (Suc (length (pg_runs p)))"
      "pg_waits ?p = pg_waits p @ [\<lparr>pw_run = length (pg_runs p), pw_started = True\<rparr>]" "pg_returned ?p = pg_returned p"
      "pg_written ?p = pg_written p"
      using False None assms by (simp_all add: begin_wait_def Let_def probe_inv_def add.commute)
    show ?thesis unfolding probe_inv_def p
      using assms None by (auto simp: probe_inv_def nth_append less_Suc_eq backed_append)
  qed
qed

lemma end_run_inv:
  assumes "probe_inv p" "r < length (pg_runs p)" "pr_result (pg_runs p ! r) = None"
  shows "probe_inv (end_run r res p)"
proof -
  have run: "e_probe_run (pg_entry p) = Some r" using assms by (auto simp: probe_inv_def)
  then show ?thesis using assms
    by (auto simp: probe_inv_def end_run_def nth_list_update backed_end_run)
qed

lemma end_wait_backed:
  assumes "pw_run w < length (pg_runs p)" "end_wait ctx_err w p = Some rt"
  shows "backed (pg_runs p) rt"
  unfolding backed_def by (rule exI [of _ "pw_run w"]) (use assms in \<open>auto simp: end_wait_def Let_def split: option.splits\<close>)

lemma settle_frame:
  "e_probe_run (pg_entry (settle now rt p)) = e_probe_run (pg_entry p)"
  "e_probe_generation (pg_entry (settle now rt p)) = e_probe_generation (pg_entry p)"
  "pg_runs (settle now rt p) = pg_runs p" "pg_waits (settle now rt p) = pg_waits p" "pg_returned (settle now rt p) = pg_returned p"
  "pg_written (settle now rt p) = (if counts_for_health rt \<and> rt_generation rt = e_probe_generation (pg_entry p)
     then pg_written p @ [rt] else pg_written p)"
  by (auto simp: settle_def apply_probe_result_def Let_def split: option.splits)

lemma probe_steps_inv: "probe_steps start p \<Longrightarrow> probe_inv p"
proof (induction rule: probe_steps.induct)
  case (pr_start)
  then show ?case by (simp add: probe_inv_def)
next
  case (pr_return p w ctx_err rt)
  then have "pw_run w < length (pg_runs p)" by (simp add: probe_inv_def)
  then have "backed (pg_runs p) rt" using end_wait_backed pr_return.hyps(3) by blast
  then show ?case using pr_return.IH by (auto simp: probe_inv_def dest: notin_set_remove1)
next
  case (pr_settle p rt now)
  then show ?case by (auto simp: probe_inv_def settle_frame dest: notin_set_remove1)
next
  case (pr_call p ended)
  then show ?case by (intro begin_wait_inv)
next
  case (pr_ended p r res)
  then show ?case by (intro end_run_inv)
next
  case (pr_traffic p e)
  then show ?case by (simp add: probe_inv_def)
qed

section \<open>Order of the results\<close>

lemma backed_generation:
  assumes "probe_inv p" "length (pg_runs p) < 2 ^ 64" "backed (pg_runs p) rt"
  shows "unat (rt_generation rt) \<le> length (pg_runs p)"
proof -
  obtain r where "r < length (pg_runs p)" "rt_generation rt = of_nat (Suc r)"
    using assms(1,3) by (auto simp: backed_def probe_inv_def)
  then show ?thesis using assms(2) by (simp add: unat_of_nat take_bit_nat_eq_self del: of_nat_Suc)
qed

lemma written_in_order:
  "probe_steps start p \<Longrightarrow> length (pg_runs p) < 2 ^ 64 \<Longrightarrow> sorted (map (\<lambda>rt. unat (rt_generation rt)) (pg_written p))"
proof (induction rule: probe_steps.induct)
  case (pr_call p ended)
  have "pg_written (snd (begin_wait ended p)) = pg_written p" "length (pg_runs p) \<le> length (pg_runs (snd (begin_wait ended p)))"
    by (auto simp: begin_wait_def Let_def split: option.splits)
  then show ?case using pr_call by simp
next
  case (pr_settle p rt now)
  have inv: "probe_inv p" using probe_steps_inv pr_settle.hyps(1) .
  have bound: "length (pg_runs p) < 2 ^ 64" using pr_settle.prems by (simp add: settle_frame)
  have "unat (rt_generation rt) = length (pg_runs p)" if "rt_generation rt = e_probe_generation (pg_entry p)"
    using that inv bound by (simp add: probe_inv_def unat_of_nat take_bit_nat_eq_self)
  moreover have "\<forall>w\<in>set (pg_written p). unat (rt_generation w) \<le> length (pg_runs p)"
    using inv backed_generation [OF inv bound] by (auto simp: probe_inv_def)
  ultimately show ?case using pr_settle.IH [OF bound] by (auto simp: settle_frame sorted_append)
qed (auto simp: end_run_def)

text \<open>The part of an entry that a probe does not touch, and the answers that may speak for the node: of the newest run,
  from the caller that started it or from the run itself, and not of a cancelled caller.\<close>

definition besides_health :: "entry \<Rightarrow> entry" where
  "besides_health e = e\<lparr>e_initial_check_done := False, e_available := False, e_last_error := [], e_last_probe := 0,
     e_last_ok := 0, e_last_fail := 0\<rparr>"

definition speaks_for_node :: "probing \<Rightarrow> probe_return \<Rightarrow> bool" where
  "speaks_for_node p rt \<longleftrightarrow> rt_authoritative rt \<and> (\<forall>e. rt_error rt = Some e \<longrightarrow> \<not> er_canceled e) \<and> unat (rt_generation rt) = length (pg_runs p)"

lemma settled_health:
  assumes "probe_inv p" and "length (pg_runs p) < 2 ^ 64" and "rt \<in> set (pg_returned p)"
  shows "\<not> speaks_for_node p rt \<Longrightarrow> pg_entry (settle now rt p) = pg_entry p"
    and "speaks_for_node p rt \<Longrightarrow> pg_entry (settle now rt p) = (case rt_error rt of
        Some err \<Rightarrow> (pg_entry p)\<lparr>e_initial_check_done := True, e_last_error := er_text err, e_last_fail := now, e_available := False\<rparr>
      | None \<Rightarrow> (pg_entry p)\<lparr>e_initial_check_done := True, e_last_ok := now, e_last_error := [], e_last_probe := rt_latency rt, e_available := True\<rparr>)"
    and "speaks_for_node p rt \<Longrightarrow> rt_error rt = None \<Longrightarrow> pg_runs p \<noteq> [] \<and> pr_result (last (pg_runs p)) = Some (rt_latency rt, None)"
proof -
  have gen: "e_probe_generation (pg_entry p) = of_nat (length (pg_runs p))" using assms(1) by (simp add: probe_inv_def)
  have "unat (of_nat (length (pg_runs p)) :: 64 word) = length (pg_runs p)"
    using assms(2) by (simp add: unat_of_nat take_bit_nat_eq_self)
  then have "rt_generation rt = e_probe_generation (pg_entry p) \<longleftrightarrow> unat (rt_generation rt) = length (pg_runs p)"
    unfolding gen word_unat_eq_iff by simp
  then have speaks: "speaks_for_node p rt \<longleftrightarrow> counts_for_health rt \<and> rt_generation rt = e_probe_generation (pg_entry p)"
    by (auto simp: speaks_for_node_def counts_for_health_def split: option.splits)
  show "\<not> speaks_for_node p rt \<Longrightarrow> pg_entry (settle now rt p) = pg_entry p"
    using speaks by (auto simp: settle_def apply_probe_result_def)
  show "speaks_for_node p rt \<Longrightarrow> pg_entry (settle now rt p) = (case rt_error rt of
        Some err \<Rightarrow> (pg_entry p)\<lparr>e_initial_check_done := True, e_last_error := er_text err, e_last_fail := now, e_available := False\<rparr>
      | None \<Rightarrow> (pg_entry p)\<lparr>e_initial_check_done := True, e_last_ok := now, e_last_error := [], e_last_probe := rt_latency rt, e_available := True\<rparr>)"
    using speaks by (simp add: settle_def apply_probe_result_def)
  assume a: "speaks_for_node p rt" "rt_error rt = None"
  have "backed (pg_runs p) rt" using assms(1,3) by (simp add: probe_inv_def)
  then obtain r where r: "r < length (pg_runs p)" "rt_generation rt = pr_generation (pg_runs p ! r)"
    "pr_result (pg_runs p ! r) = Some (rt_latency rt, None)" using a(2) by (auto simp: backed_def)
  then have "unat (rt_generation rt) = Suc r"
    using assms(1,2) by (simp add: probe_inv_def unat_of_nat take_bit_nat_eq_self del: of_nat_Suc)
  then have "length (pg_runs p) = Suc r" using a(1) by (simp add: speaks_for_node_def)
  then show "pg_runs p \<noteq> [] \<and> pr_result (last (pg_runs p)) = Some (rt_latency rt, None)"
    using r(3) by (cases "pg_runs p = []") (simp_all add: last_conv_nth)
qed

text \<open>C19: However callers join a run, give up, are cancelled or are late, the results that reach the health of a node come in the order of
  their runs: an older run never overwrites a newer one, and at most one run is under way. Settling the answer that a
  caller holds touches the node exactly when the answer is of the newest run, not only that of a joined caller that gave up, and not
  that of a cancelled one. Then the node counts as checked; on success it is available, with the latency with which the
  newest run ended, and without an error; on a failure it is not available, has the text of the error, and keeps its
  last latency. Nothing else of the node changes.\<close>

theorem probe_results_in_order:
  assumes "probe_steps start p" and "length (pg_runs p) < 2 ^ 64"
  shows "sorted (map (\<lambda>rt. unat (rt_generation rt)) (pg_written p))
    \<and> (\<forall>rt\<in>set (pg_written p). \<exists>r<length (pg_runs p). unat (rt_generation rt) = Suc r
         \<and> (rt_error rt = None \<longrightarrow> pr_result (pg_runs p ! r) = Some (rt_latency rt, None)))
    \<and> (\<forall>r r'. r < length (pg_runs p) \<and> r' < length (pg_runs p) \<and> pr_result (pg_runs p ! r) = None
         \<and> pr_result (pg_runs p ! r') = None \<longrightarrow> r = r')
    \<and> (\<forall>rt\<in>set (pg_returned p). \<forall>now. let e = pg_entry p; e' = pg_entry (settle now rt p) in
         if speaks_for_node p rt
         then e_initial_check_done e' \<and> (e_available e' \<longleftrightarrow> rt_error rt = None) \<and> besides_health e' = besides_health e
           \<and> (case rt_error rt of
                None \<Rightarrow> pr_result (last (pg_runs p)) = Some (e_last_probe e', None) \<and> e_last_error e' = [] \<and> e_last_ok e' = now
                  \<and> e_last_fail e' = e_last_fail e
              | Some err \<Rightarrow> e_last_probe e' = e_last_probe e \<and> e_last_error e' = er_text err \<and> e_last_fail e' = now
                  \<and> e_last_ok e' = e_last_ok e)
         else e' = e)"
proof (intro conjI ballI allI impI)
  have inv: "probe_inv p" using probe_steps_inv assms(1) .
  show "sorted (map (\<lambda>rt. unat (rt_generation rt)) (pg_written p))" using written_in_order assms .
  fix rt assume "rt \<in> set (pg_written p)"
  then have "backed (pg_runs p) rt" using inv by (simp add: probe_inv_def)
  then obtain r where r: "r < length (pg_runs p)" "rt_generation rt = pr_generation (pg_runs p ! r)"
    "rt_error rt = None \<longrightarrow> pr_result (pg_runs p ! r) = Some (rt_latency rt, None)" by (auto simp: backed_def)
  then have "unat (rt_generation rt) = Suc r"
    using inv assms(2) by (simp add: probe_inv_def unat_of_nat take_bit_nat_eq_self del: of_nat_Suc)
  then show "\<exists>r<length (pg_runs p). unat (rt_generation rt) = Suc r
      \<and> (rt_error rt = None \<longrightarrow> pr_result (pg_runs p ! r) = Some (rt_latency rt, None))" using r(1,3)
    by (intro exI [of _ r]) simp
next
  fix r r' assume "r < length (pg_runs p) \<and> r' < length (pg_runs p) \<and> pr_result (pg_runs p ! r) = None \<and> pr_result (pg_runs p ! r') = None"
  then have "e_probe_run (pg_entry p) = Some r" "e_probe_run (pg_entry p) = Some r'"
    using unfinished_run [OF probe_steps_inv [OF assms(1)]] by simp_all
  then show "r = r'" by simp
next
  fix rt now assume rt: "rt \<in> set (pg_returned p)"
  note settled = settled_health [OF probe_steps_inv [OF assms(1)] assms(2) rt]
  show "let e = pg_entry p; e' = pg_entry (settle now rt p) in
         if speaks_for_node p rt
         then e_initial_check_done e' \<and> (e_available e' \<longleftrightarrow> rt_error rt = None) \<and> besides_health e' = besides_health e
           \<and> (case rt_error rt of
                None \<Rightarrow> pr_result (last (pg_runs p)) = Some (e_last_probe e', None) \<and> e_last_error e' = [] \<and> e_last_ok e' = now
                  \<and> e_last_fail e' = e_last_fail e
              | Some err \<Rightarrow> e_last_probe e' = e_last_probe e \<and> e_last_error e' = er_text err \<and> e_last_fail e' = now
                  \<and> e_last_ok e' = e_last_ok e)
         else e' = e"
    using settled by (cases "speaks_for_node p rt"; cases "rt_error rt") (simp_all add: besides_health_def)
qed

text \<open>A caller that joined a run and ends early never touches the health of the node.\<close>

lemma joined_caller_is_harmless:
  "\<not> pw_started w \<Longrightarrow> end_wait (Some e) w p = Some rt \<Longrightarrow> settle now rt q = q"
  by (auto simp: end_wait_def settle_def counts_for_health_def Let_def)

section \<open>Sweeps\<close>

record sweep_gate =
  sg_running :: bool
  sg_rerun :: bool

datatype trigger = Ignored | Coalesced | Sweeps

text \<open>The two critical sections of \<open>probeAllNodes\<close>: on entry, and after each sweep, where the answer says whether another one follows.\<close>

definition enter_gate :: "bool \<Rightarrow> sweep_gate \<Rightarrow> trigger \<times> sweep_gate" where
  "enter_gate stopped g =
     (if stopped then (Ignored, g)
      else if sg_running g then (Coalesced, g\<lparr>sg_rerun := True\<rparr>)
      else (Sweeps, g\<lparr>sg_running := True\<rparr>))"

definition leave_gate :: "bool \<Rightarrow> sweep_gate \<Rightarrow> bool \<times> sweep_gate" where
  "leave_gate stopped g =
     (if sg_rerun g \<and> \<not> stopped then (True, g\<lparr>sg_rerun := False\<rparr>)
      else (False, g\<lparr>sg_rerun := False, sg_running := False\<rparr>))"

text \<open>Goroutines that sweep, and the triggers that came while the present sweep was under way.\<close>

record sweeping =
  sw_gate :: sweep_gate
  sw_active :: nat
  sw_waiting :: nat
  sw_stopped :: bool

inductive sweep_steps :: "sweeping \<Rightarrow> bool" where
  sw_start: "sweep_steps \<lparr>sw_gate = \<lparr>sg_running = False, sg_rerun = False\<rparr>, sw_active = 0, sw_waiting = 0, sw_stopped = False\<rparr>"
| sw_ignored: "sweep_steps y \<Longrightarrow> enter_gate (sw_stopped y) (sw_gate y) = (Ignored, g) \<Longrightarrow> sweep_steps (y\<lparr>sw_gate := g\<rparr>)"
| sw_coalesced: "sweep_steps y \<Longrightarrow> enter_gate (sw_stopped y) (sw_gate y) = (Coalesced, g) \<Longrightarrow>
     sweep_steps (y\<lparr>sw_gate := g, sw_waiting := sw_waiting y + 1\<rparr>)"
| sw_begins: "sweep_steps y \<Longrightarrow> enter_gate (sw_stopped y) (sw_gate y) = (Sweeps, g) \<Longrightarrow>
     sweep_steps (y\<lparr>sw_gate := g, sw_active := sw_active y + 1\<rparr>)"
| sw_again: "sweep_steps y \<Longrightarrow> 0 < sw_active y \<Longrightarrow> leave_gate (sw_stopped y) (sw_gate y) = (True, g) \<Longrightarrow>
     sweep_steps (y\<lparr>sw_gate := g, sw_waiting := 0\<rparr>)"
| sw_ends: "sweep_steps y \<Longrightarrow> 0 < sw_active y \<Longrightarrow> leave_gate (sw_stopped y) (sw_gate y) = (False, g) \<Longrightarrow>
     sweep_steps (y\<lparr>sw_gate := g, sw_active := sw_active y - 1\<rparr>)"
| sw_stop: "sweep_steps y \<Longrightarrow> sweep_steps (y\<lparr>sw_stopped := True\<rparr>)"

lemma sweep_inv:
  "sweep_steps y \<Longrightarrow> sw_active y = (if sg_running (sw_gate y) then 1 else 0)
     \<and> (sg_rerun (sw_gate y) \<longrightarrow> sg_running (sw_gate y)) \<and> (0 < sw_waiting y \<and> \<not> sw_stopped y \<longrightarrow> sg_rerun (sw_gate y))"
  by (induction rule: sweep_steps.induct) (auto simp: enter_gate_def leave_gate_def split: if_splits)

text \<open>C40: At most one sweep runs at a time, and no trigger is lost: while triggers wait that came during the present sweep, that sweep is under way
  and another one follows it, unless the monitor is stopped.\<close>

theorem no_sweep_trigger_is_lost:
  assumes "sweep_steps y"
  shows "sw_active y \<le> 1 \<and> (0 < sw_waiting y \<and> \<not> sw_stopped y \<longrightarrow> sw_active y = 1 \<and> fst (leave_gate False (sw_gate y)))"
  using sweep_inv [OF assms] by (auto simp: leave_gate_def)

theorem no_sweep_trigger_is_lost_witness:
  "\<exists>y. sweep_steps y \<and> sw_waiting y = 1 \<and> sw_active y = 1 \<and> fst (leave_gate False (sw_gate y))"
proof -
  let ?y = "\<lparr>sw_gate = \<lparr>sg_running = True, sg_rerun = True\<rparr>, sw_active = 1, sw_waiting = 1, sw_stopped = False\<rparr>"
  have s1: "sweep_steps \<lparr>sw_gate = \<lparr>sg_running = True, sg_rerun = False\<rparr>, sw_active = 1, sw_waiting = 0, sw_stopped = False\<rparr>"
    using sw_begins [OF sw_start] by (simp add: enter_gate_def)
  have s2: "sweep_steps ?y" using sw_coalesced [OF s1] by (simp add: enter_gate_def)
  show ?thesis using no_sweep_trigger_is_lost [OF s2] s2 by (intro exI [of _ ?y]) simp
qed

section \<open>The counters of a sweep\<close>

datatype node_outcome = NodeSkipped | NodeOk | NodeFailed

text \<open>One node in a sweep: without a probe it counts as available, otherwise the answer decides.\<close>

definition sweep_node :: "instant \<Rightarrow> probe_return option \<Rightarrow> entry \<Rightarrow> node_outcome \<times> entry" where
  "sweep_node now answer e =
     (case answer of
        None \<Rightarrow> (NodeOk, mark_initial_check_done True e)
      | Some rt \<Rightarrow>
          if \<not> counts_for_health rt then (NodeSkipped, e)
          else (let (applied, e') = apply_probe_result now rt e
                in (if \<not> applied then NodeSkipped else if rt_error rt = None then NodeOk else NodeFailed, e')))"

record sweep_progress =
  sp_active :: bool
  sp_total :: int
  sp_done :: int
  sp_ok :: int
  sp_fail :: int

definition begin_progress :: "nat \<Rightarrow> sweep_progress" where
  "begin_progress n = \<lparr>sp_active = True, sp_total = int n, sp_done = 0, sp_ok = 0, sp_fail = 0\<rparr>"

definition count_node :: "node_outcome \<Rightarrow> sweep_progress \<Rightarrow> sweep_progress" where
  "count_node r s =
     (let s' = (case r of NodeSkipped \<Rightarrow> s | NodeOk \<Rightarrow> s\<lparr>sp_ok := sp_ok s + 1\<rparr> | NodeFailed \<Rightarrow> s\<lparr>sp_fail := sp_fail s + 1\<rparr>)
      in s'\<lparr>sp_done := sp_done s' + 1\<rparr>)"

lemma count_nodes:
  "let s' = fold count_node rs s in sp_total s' = sp_total s \<and> sp_done s' = sp_done s + int (length rs)
     \<and> sp_ok s' = sp_ok s + int (length (filter (\<lambda>r. r = NodeOk) rs)) \<and> sp_fail s' = sp_fail s + int (length (filter (\<lambda>r. r = NodeFailed) rs))"
proof (induction rs arbitrary: s)
  case (Cons r rs)
  then show ?case by (cases r) (auto simp: count_node_def Let_def)
qed simp

text \<open>When every node was counted, in any order, the progress is complete and the counts depend only on the outcomes.\<close>

lemma sweep_counts_add_up:
  assumes "mset rs = mset rs'"
  shows "fold count_node rs (begin_progress (length rs)) = fold count_node rs' (begin_progress (length rs'))"
    and "sp_done (fold count_node rs (begin_progress (length rs))) = sp_total (fold count_node rs (begin_progress (length rs)))"
    and "sp_ok (fold count_node rs (begin_progress (length rs))) + sp_fail (fold count_node rs (begin_progress (length rs)))
      \<le> sp_done (fold count_node rs (begin_progress (length rs)))"
proof -
  have active: "sp_active (fold count_node qs s) = sp_active s" for qs s
    by (induction qs arbitrary: s) (auto simp: count_node_def Let_def split: node_outcome.splits)
  have len: "length rs = length rs'" using assms mset_eq_length by blast
  have filt: "length (filter P rs) = length (filter P rs')" for P
    using assms by (metis mset_filter size_mset)
  note c = count_nodes [unfolded Let_def]
  show "fold count_node rs (begin_progress (length rs)) = fold count_node rs' (begin_progress (length rs'))"
    by (rule sweep_progress.equality) (simp_all add: c active len filt begin_progress_def)
  show "sp_done (fold count_node rs (begin_progress (length rs))) = sp_total (fold count_node rs (begin_progress (length rs)))"
    by (simp add: c begin_progress_def)
  have "length (filter (\<lambda>r. r = NodeOk) rs) + length (filter (\<lambda>r. r = NodeFailed) rs) \<le> length rs" by (induction rs) auto
  then show "sp_ok (fold count_node rs (begin_progress (length rs))) + sp_fail (fold count_node rs (begin_progress (length rs)))
      \<le> sp_done (fold count_node rs (begin_progress (length rs)))" by (simp add: c begin_progress_def)
qed

section \<open>Example\<close>

text \<open>A starter gives up, the run ends later, a new run succeeds: the late answer of the first is dropped.\<close>

definition probe_demo :: entry where
  "probe_demo = (new_entry (sample_info ''a'' ''A''))\<lparr>e_probe := Some (ProbeMember 0 0)\<rparr>"

theorem probe_results_in_order_witness:
  "\<exists>p. probe_steps probe_demo p \<and> length (pg_runs p) = 1 \<and> map rt_latency (pg_written p) = [7]
     \<and> sorted (map (\<lambda>rt. unat (rt_generation rt)) (pg_written p))
     \<and> (\<exists>q rt. probe_steps probe_demo q \<and> rt \<in> set (pg_returned q) \<and> e_available (pg_entry (settle 9 rt q)) \<and> e_last_probe (pg_entry (settle 9 rt q)) = 7)"
proof -
  let ?p0 = "\<lparr>pg_entry = probe_demo, pg_runs = [], pg_waits = [], pg_returned = [], pg_written = []\<rparr>"
  let ?p1 = "snd (begin_wait False ?p0)"
  let ?p2 = "end_run 0 (7, None) ?p1"
  let ?w = "\<lparr>pw_run = 0, pw_started = True\<rparr>"
  let ?rt = "\<lparr>rt_latency = 7, rt_error = None, rt_authoritative = True, rt_generation = 1\<rparr>"
  have s0: "probe_steps probe_demo ?p0" by (rule pr_start) (simp_all add: probe_demo_def new_entry_def)
  have s1: "probe_steps probe_demo ?p1" by (rule pr_call [OF s0])
  have p1: "pg_runs ?p1 = [\<lparr>pr_generation = 1, pr_result = None\<rparr>]" "pg_waits ?p1 = [?w]" "pg_returned ?p1 = []" "pg_written ?p1 = []"
    "e_probe_run (pg_entry ?p1) = Some 0" "e_probe_generation (pg_entry ?p1) = 1"
    by (simp_all add: begin_wait_def probe_demo_def new_entry_def Let_def)
  have s2: "probe_steps probe_demo ?p2" by (rule pr_ended [OF s1]) (simp_all add: p1)
  have p2: "pg_runs ?p2 = [\<lparr>pr_generation = 1, pr_result = Some (7, None)\<rparr>]" "pg_waits ?p2 = [?w]" "pg_returned ?p2 = []" "pg_written ?p2 = []"
    "e_probe_generation (pg_entry ?p2) = 1"
    by (simp_all add: end_run_def p1)
  let ?p3 = "?p2\<lparr>pg_waits := remove1 ?w (pg_waits ?p2), pg_returned := pg_returned ?p2 @ [?rt]\<rparr>"
  have s3: "probe_steps probe_demo ?p3" by (rule pr_return [OF s2, where ctx_err = None]) (simp_all add: p2 end_wait_def)
  let ?p4 = "settle 0 ?rt (?p3\<lparr>pg_returned := remove1 ?rt (pg_returned ?p3)\<rparr>)"
  have s4: "probe_steps probe_demo ?p4" by (rule pr_settle [OF s3]) (simp add: p2)
  have p4: "pg_runs ?p4 = pg_runs ?p2" "pg_written ?p4 = [?rt]"
    by (simp_all add: settle_frame p2 counts_for_health_def)
  have len: "length (pg_runs ?p4) = 1" by (subst p4(1)) (simp add: p2)
  have lat: "map rt_latency (pg_written ?p4) = [7]" by (subst p4(2)) simp
  have ordered: "sorted (map (\<lambda>rt. unat (rt_generation rt)) (pg_written ?p4))"
    by (rule probe_results_in_order [OF s4, THEN conjunct1]) (subst len, simp)
  have r3: "?rt \<in> set (pg_returned ?p3)" "pg_runs ?p3 = [\<lparr>pr_generation = 1, pr_result = Some (7, None)\<rparr>]" by (simp_all add: p2)
  have "length (pg_runs ?p3) < 2 ^ 64" unfolding r3(2) by simp
  note health = probe_results_in_order [OF s3 this, THEN conjunct2, THEN conjunct2, THEN conjunct2, rule_format, OF r3(1), of 9]
  have "speaks_for_node ?p3 ?rt" unfolding speaks_for_node_def r3(2) by simp
  then have "e_available (pg_entry (settle 9 ?rt ?p3)) \<and> e_last_probe (pg_entry (settle 9 ?rt ?p3)) = 7"
    using health unfolding r3(2) Let_def by simp
  then have applied: "\<exists>q rt. probe_steps probe_demo q \<and> rt \<in> set (pg_returned q) \<and> e_available (pg_entry (settle 9 rt q))
      \<and> e_last_probe (pg_entry (settle 9 rt q)) = 7"
    by (intro exI [of _ ?p3] exI [of _ ?rt] conjI s3 r3(1)) simp_all
  show ?thesis by (rule exI [of _ ?p4]) (rule conjI [OF s4 conjI [OF len conjI [OF lat conjI [OF ordered applied]]]])
qed

end
