(* ===== verification/NodeApi.thy ===== *)
theory NodeApi
  imports NodeHealth ProbeRuns BoxLife
begin

text \<open>
  The node endpoints of \<open>internal/monitor/server.go\<close>: the dashboard (\<open>handleNodes\<close>, \<open>handleDebug\<close>), the actions on one node
  (\<open>handleNodeAction\<close>), the editing of configured nodes (\<open>handleConfigNodes\<close>, \<open>handleConfigNodeItem\<close>) and the reload.
  Bodies are given decoded; \<open>time.ParseDuration\<close> and the answer of a probe are parameters.
\<close>

section \<open>The dashboard\<close>

definition count_key :: "string \<Rightarrow> (string, nat) gomap \<Rightarrow> (string, nat) gomap" where
  "count_key k m = mput k (case mget m k of Some n \<Rightarrow> Suc n | None \<Rightarrow> 1) m"

definition snapshot_region :: "snapshot \<Rightarrow> string" where
  "snapshot_region s = (if ni_region (sn_info s) = [] then ''other'' else ni_region (sn_info s))"

definition snapshot_healthy :: "snapshot \<Rightarrow> bool" where
  "snapshot_healthy s \<longleftrightarrow> sn_initial_check_done s \<and> sn_available s \<and> \<not> sn_blacklisted s"

record nodes_page =
  np_nodes :: "snapshot list"
  np_total :: nat
  np_regions :: "(string, nat) gomap"
  np_healthy :: "(string, nat) gomap"
  np_sweep :: sweep_progress

definition handle_nodes :: "string \<Rightarrow> instant \<Rightarrow> sweep_progress \<Rightarrow> monitor \<Rightarrow> nodes_page option" where
  "handle_nodes meth now progress m =
     (if meth \<noteq> ''GET'' then None
      else let all = snapshot_filtered False now m
        in Some \<lparr>np_nodes = all, np_total = length all,
             np_regions = fold (\<lambda>s. count_key (snapshot_region s)) all [],
             np_healthy = fold (\<lambda>s h. if snapshot_healthy s then count_key (snapshot_region s) h else h) all [],
             np_sweep = progress\<rparr>)"

text \<open>The totals of \<open>handleDebug\<close>; the success rate is their quotient in percent.\<close>

definition handle_debug :: "string \<Rightarrow> instant \<Rightarrow> monitor \<Rightarrow> (snapshot list \<times> int \<times> int) option" where
  "handle_debug meth now m =
     (if meth \<noteq> ''GET'' then None
      else let all = snapshot_filtered False now m
        in Some (all, sum_list (map (\<lambda>s. sn_success_count s + sn_failure_count s) all), sum_list (map sn_success_count all)))"

lemma mget_count_key [simp]: "mget (count_key k m) j = (if j = k then Some (case mget m k of Some n \<Rightarrow> Suc n | None \<Rightarrow> 1) else mget m j)"
  by (simp add: count_key_def mget_mput)

lemma count_fold:
  "mget (fold (\<lambda>s h. if P s then count_key (f s) h else h) xs m) k =
     (if \<exists>s\<in>set xs. P s \<and> f s = k
      then Some (length (filter (\<lambda>s. P s \<and> f s = k) xs) + (case mget m k of Some n \<Rightarrow> n | None \<Rightarrow> 0)) else mget m k)"
proof (induction xs arbitrary: m)
  case (Cons x xs)
  show ?case
  proof (cases "P x \<and> f x = k")
    case True
    then show ?thesis using Cons.IH [of "count_key (f x) m"] by (auto simp: filter_empty_conv split: option.splits)
  next
    case False
    then have "mget (if P x then count_key (f x) m else m) k = mget m k" by auto
    then show ?thesis using Cons.IH [of "if P x then count_key (f x) m else m"] False by auto
  qed
qed simp

text \<open>The statistics of a region are the nodes of that region, and no region has more healthy nodes than nodes.\<close>

lemma region_statistics:
  assumes "handle_nodes meth now progress m = Some page"
  shows "mget (np_regions page) r = (let n = length (filter (\<lambda>s. snapshot_region s = r) (np_nodes page)) in if n = 0 then None else Some n)"
    and "mget (np_healthy page) r = Some n \<Longrightarrow> \<exists>k\<ge>n. mget (np_regions page) r = Some k"
proof -
  have p: "np_regions page = fold (\<lambda>s. count_key (snapshot_region s)) (np_nodes page) []"
    "np_healthy page = fold (\<lambda>s h. if snapshot_healthy s then count_key (snapshot_region s) h else h) (np_nodes page) []"
    using assms by (auto simp: handle_nodes_def Let_def split: if_splits)
  have regions: "mget (np_regions page) r = (if \<exists>s\<in>set (np_nodes page). snapshot_region s = r
      then Some (length (filter (\<lambda>s. snapshot_region s = r) (np_nodes page))) else None)" for r
    unfolding p using count_fold [of "\<lambda>_. True" snapshot_region "np_nodes page" "[]" r] by simp
  show "mget (np_regions page) r = (let n = length (filter (\<lambda>s. snapshot_region s = r) (np_nodes page)) in if n = 0 then None else Some n)"
    unfolding regions by (auto simp: Let_def filter_empty_conv)
  assume "mget (np_healthy page) r = Some n"
  then have h: "\<exists>s\<in>set (np_nodes page). snapshot_healthy s \<and> snapshot_region s = r"
    and n: "n = length (filter (\<lambda>s. snapshot_healthy s \<and> snapshot_region s = r) (np_nodes page))"
    unfolding p using count_fold [of snapshot_healthy snapshot_region "np_nodes page" "[]" r] by (auto split: if_splits)
  have "length (filter (\<lambda>s. snapshot_healthy s \<and> snapshot_region s = r) xs) \<le> length (filter (\<lambda>s. snapshot_region s = r) xs)" for xs
    by (induction xs) auto
  then show "\<exists>k\<ge>n. mget (np_regions page) r = Some k" using h n by (auto simp: regions)
qed

section \<open>Actions on a node\<close>

datatype action_reply =
    ActionBadPath | ActionUnknown | ActionMethod | ActionFailed manager_error | Released | BanBody | BanDuration | Banned int
  | ProbeFailed string | Probed int

definition action_path :: "string \<Rightarrow> string \<times> string" where
  "action_path path =
     (case split_byte CHR ''/'' (trim_prefix path ''/api/nodes/'') of
        [] \<Rightarrow> ([], [])
      | [t] \<Rightarrow> (t, [])
      | t # a # _ \<Rightarrow> (t, a))"

text \<open>The body of a ban: absent, undecodable, or its duration.\<close>

datatype ban_body = NoBody | Undecodable | Asked string

definition ban_duration :: "(string \<Rightarrow> int option) \<Rightarrow> string \<Rightarrow> int option" where
  "ban_duration pd v = (if v = [] then Some (24 * hour) else case pd v of Some d \<Rightarrow> if d \<le> 0 then None else Some d | None \<Rightarrow> None)"

definition probe_ms :: "duration \<Rightarrow> int" where
  "probe_ms d = (if milliseconds d = 0 \<and> d > 0 then 1 else milliseconds d)"

definition handle_node_action ::
  "(string \<Rightarrow> int option) \<Rightarrow> instant \<Rightarrow> (string + duration) \<Rightarrow> string \<Rightarrow> string \<Rightarrow> ban_body \<Rightarrow> world \<Rightarrow> action_reply \<times> world" where
  "handle_node_action pd now answer meth path body w =
     (let (tag, action) = action_path path
      in if tag = [] then (ActionBadPath, w)
         else if action \<notin> {''probe'', ''release'', ''blacklist''} then (ActionUnknown, w)
         else if meth \<noteq> ''POST'' then (ActionMethod, w)
         else if action = ''probe''
         then ((case answer of Inl err \<Rightarrow> ProbeFailed err | Inr d \<Rightarrow> Probed (probe_ms d)), w)
         else if action = ''release''
         then (case manager_release tag w of Inl err \<Rightarrow> (ActionFailed err, w) | Inr w' \<Rightarrow> (Released, w'))
         else (case body of
             Undecodable \<Rightarrow> (BanBody, w)
           | _ \<Rightarrow> (case ban_duration pd (case body of Asked v \<Rightarrow> v | _ \<Rightarrow> []) of
                 None \<Rightarrow> (BanDuration, w)
               | Some d \<Rightarrow> (case manager_manual_blacklist tag d now w of
                     Inl err \<Rightarrow> (ActionFailed err, w) | Inr w' \<Rightarrow> (Banned d, w')))))"

text \<open>A node as the pool registers it: its shared state and its monitor entry, with the callbacks the pool has set.\<close>

definition registered :: "string \<Rightarrow> nat \<Rightarrow> nat \<Rightarrow> world \<Rightarrow> bool" where
  "registered tag a e w \<longleftrightarrow> mget (w_shared w) tag = Some a \<and> h_entry (w_health w a) = Some e
     \<and> mget (m_nodes (w_mon w)) tag = Some e \<and> e_blacklist_fn (m_entries (w_mon w) e) = Some tag
     \<and> e_release (m_entries (w_mon w) e) \<in> {Some (ReleaseTag tag), Some (ReleaseShared (Some a))}"

lemma action_path_plain:
  assumes "CHR ''/'' \<notin> set tag" and "CHR ''/'' \<notin> set action"
  shows "action_path (''/api/nodes/'' @ tag @ ''/'' @ action) = (tag, action)"
proof -
  have "split_byte CHR ''/'' (tag @ CHR ''/'' # action) = [tag, action]"
    using assms by (simp add: split_byte_append split_byte_absent)
  moreover have "trim_prefix (x @ t) x = t" for x t by (simp add: trim_prefix_def)
  ultimately show ?thesis by (simp only: action_path_def) simp
qed

lemma registered_ban:
  fixes d :: duration and now :: instant
  assumes "registered tag a e w"
  defines "w' \<equiv> (upd_health a (health_manual_blacklist d now) w)
    \<lparr>w_mon := upd_entry e (blacklist_until (now + d)) (w_mon (upd_health a (health_manual_blacklist d now) w))\<rparr>"
  shows "manager_manual_blacklist tag d now w = Inr w'" and "registered tag a e w'"
    and "w_health w' a = health_manual_blacklist d now (w_health w a)"
    and "m_entries (w_mon w') e = blacklist_until (now + d) (m_entries (w_mon w) e)"
    and "\<And>b. b \<noteq> a \<Longrightarrow> w_health w' b = w_health w b" and "\<And>f. f \<noteq> e \<Longrightarrow> m_entries (w_mon w') f = m_entries (w_mon w) f"
proof -
  show "manager_manual_blacklist tag d now w = Inr w'"
    using assms(1) by (simp add: registered_def manager_manual_blacklist_def find_entry_def blacklist_shared_member_def
        lookup_shared_state_def w'_def)
  show "registered tag a e w'"
    using assms(1) by (simp add: registered_def w'_def upd_health_def upd_entry_def health_manual_blacklist_def blacklist_until_def)
qed (simp_all add: w'_def upd_health_def upd_entry_def)

lemma registered_release:
  assumes "registered tag a e w"
  shows "manager_release tag w = Inr (shared_force_release a w)" and "w_health (shared_force_release a w) a = health_clear (w_health w a)"
    and "m_entries (w_mon (shared_force_release a w)) e = clear_blacklist (m_entries (w_mon w) e)"
  using assms by (auto simp: registered_def manager_release_def find_entry_def run_release_def release_shared_member_def
      lookup_shared_state_def shared_force_release_def notify_def upd_health_def upd_entry_def health_clear_def)

text \<open>Nothing but the health at \<open>a\<close> and the ban shown by the monitor entry \<open>e\<close> changes.\<close>

definition changes_only :: "nat \<Rightarrow> nat \<Rightarrow> world \<Rightarrow> world \<Rightarrow> bool" where
  "changes_only a e w w' \<longleftrightarrow> w' = w\<lparr>w_health := (w_health w)(a := w_health w' a),
     w_mon := (w_mon w)\<lparr>m_entries := (m_entries (w_mon w))(e := (m_entries (w_mon w) e)
       \<lparr>e_blacklist := e_blacklist (m_entries (w_mon w') e), e_until := e_until (m_entries (w_mon w') e)\<rparr>)\<rparr>\<rparr>"

lemma ban_changes_only:
  "changes_only a e w ((upd_health a (health_manual_blacklist d now) w)
    \<lparr>w_mon := upd_entry e (blacklist_until u) (w_mon (upd_health a (health_manual_blacklist d now) w))\<rparr>)"
  by (simp add: changes_only_def upd_health_def upd_entry_def blacklist_until_def)

lemma release_changes_only:
  "h_entry (w_health w a) = Some e \<Longrightarrow> changes_only a e w (shared_force_release a w)"
  by (simp add: changes_only_def shared_force_release_def notify_def upd_health_def upd_entry_def clear_blacklist_def health_clear_def)

text \<open>C39: What an operator asks for takes effect, in the pool and on the dashboard, and on that node alone. A ban through the API lasts exactly
  the asked time, 24 hours when none is named: the pool holds the node for banned before that end and not from then on, and the
  dashboard shows the same, with that end. A release through the API ends the ban at once. Both change nothing but the
  health and the shown ban of this node.\<close>

theorem operator_actions_take_effect:
  assumes "registered tag a e w" and "tag \<noteq> []" and "CHR ''/'' \<notin> set tag" and "zero_time < now"
    and "if v = [] then d = 24 * hour else pd v = Some d \<and> 0 < d"
  shows "\<exists>w1 w2. handle_node_action pd now answer ''POST'' (''/api/nodes/'' @ tag @ ''/blacklist'') (Asked v) w = (Banned d, w1)
    \<and> (\<forall>t. (fst (shared_is_blacklisted t a w1) \<longleftrightarrow> t < now + d) \<and> (sn_blacklisted (entry_snapshot t (m_entries (w_mon w1) e)) \<longleftrightarrow> t < now + d)
        \<and> sn_blacklisted_until (entry_snapshot t (m_entries (w_mon w1) e)) = now + d)
    \<and> changes_only a e w w1
    \<and> handle_node_action pd later answer ''POST'' (''/api/nodes/'' @ tag @ ''/release'') NoBody w1 = (Released, w2)
    \<and> (\<forall>t. \<not> fst (shared_is_blacklisted t a w2) \<and> \<not> sn_blacklisted (entry_snapshot t (m_entries (w_mon w2) e)))
    \<and> changes_only a e w1 w2"
proof -
  let ?w1 = "(upd_health a (health_manual_blacklist d now) w)
    \<lparr>w_mon := upd_entry e (blacklist_until (now + d)) (w_mon (upd_health a (health_manual_blacklist d now) w))\<rparr>"
  note ban = registered_ban [where d = d and now = now, OF assms(1)]
    and rel = registered_release [OF registered_ban(2) [where d = d and now = now, OF assms(1)]]
  have asked: "ban_duration pd v = Some d" "0 < d" using assms(5) by (auto simp: ban_duration_def time_units split: if_splits)
  have path: "action_path (''/api/nodes/'' @ tag @ ''/blacklist'') = (tag, ''blacklist'')" "action_path (''/api/nodes/'' @ tag @ ''/release'') = (tag, ''release'')"
    using action_path_plain [OF assms(3), of "''blacklist''"] action_path_plain [OF assms(3), of "''release''"] by simp_all
  have r1: "handle_node_action pd now answer ''POST'' (''/api/nodes/'' @ tag @ ''/blacklist'') (Asked v) w = (Banned d, ?w1)"
    unfolding handle_node_action_def path using assms(2) asked(1) ban(1) by simp
  have r2: "handle_node_action pd later answer ''POST'' (''/api/nodes/'' @ tag @ ''/release'') NoBody ?w1 = (Released, shared_force_release a ?w1)"
    unfolding handle_node_action_def path using assms(2) rel(1) by simp
  have "now + d \<noteq> zero_time" using assms(4) asked(2) by simp
  then have banned: "(fst (shared_is_blacklisted t a ?w1) \<longleftrightarrow> t < now + d) \<and> (sn_blacklisted (entry_snapshot t (m_entries (w_mon ?w1) e)) \<longleftrightarrow> t < now + d)
      \<and> sn_blacklisted_until (entry_snapshot t (m_entries (w_mon ?w1) e)) = now + d" for t
    unfolding shared_is_blacklisted_def ban(3,4)
    by (simp add: health_is_blacklisted_def health_manual_blacklist_def entry_snapshot_def blacklist_until_def Let_def)
  have free: "\<not> fst (shared_is_blacklisted t a (shared_force_release a ?w1))
      \<and> \<not> sn_blacklisted (entry_snapshot t (m_entries (w_mon (shared_force_release a ?w1)) e))" for t
    unfolding shared_is_blacklisted_def rel(2,3)
    by (simp add: health_is_blacklisted_def health_clear_def entry_snapshot_def clear_blacklist_def Let_def)
  have "h_entry (w_health ?w1 a) = Some e" using ban(2) by (simp add: registered_def)
  then have frame: "changes_only a e w ?w1" "changes_only a e ?w1 (shared_force_release a ?w1)"
    by (simp_all only: ban_changes_only release_changes_only)
  show ?thesis
    by (rule exI [of _ ?w1], rule exI [of _ "shared_force_release a ?w1"]) (intro conjI allI r1 r2 banned [THEN conjunct1] banned [THEN conjunct2, THEN conjunct1]
        banned [THEN conjunct2, THEN conjunct2] free [THEN conjunct1] free [THEN conjunct2] frame)
qed

section \<open>Configured nodes\<close>

record node_payload =
  py_name :: string
  py_uri :: string
  py_port :: "16 word"
  py_username :: string
  py_password :: string

definition payload_config :: "node_payload \<Rightarrow> node_config" where
  "payload_config p = \<lparr>nc_name = py_name p, nc_uri = py_uri p, nc_port = py_port p, nc_username = py_username p,
     nc_password = py_password p, nc_source = []\<rparr>"

definition node_error_status :: "node_op_error \<Rightarrow> int" where
  "node_error_status err = (case err of
       node_op_error.NodeNotFound \<Rightarrow> 404
     | NameConflict _ \<Rightarrow> 400 | PortConflict _ \<Rightarrow> 400 | InvalidNode \<Rightarrow> 400
     | _ \<Rightarrow> 500)"

datatype config_reply = NodeList "node_config list" | NodeSaved node_config | NodeDeleted | Status int

text \<open>The manager of nodes is the one of \<open>BoxNodes\<close>; \<open>None\<close> when none is set.\<close>

definition handle_config_nodes ::
  "(config \<Rightarrow> string option) \<Rightarrow> json_codec \<Rightarrow> bool \<Rightarrow> string \<Rightarrow> node_payload option \<Rightarrow> config option option
    \<Rightarrow> config_reply \<times> config option option" where
  "handle_config_nodes save jc ended meth body mgr =
     (case mgr of
        None \<Rightarrow> (Status 503, None)
      | Some cfg \<Rightarrow>
          if meth = ''GET''
          then ((case list_config_nodes cfg of Inl err \<Rightarrow> Status (node_error_status err) | Inr ns \<Rightarrow> NodeList ns), mgr)
          else if meth = ''POST''
          then (case body of
              None \<Rightarrow> (Status 400, mgr)
            | Some p \<Rightarrow> (case create_node save jc ended (payload_config p) cfg of
                  (Inl err, cfg') \<Rightarrow> (Status (node_error_status err), Some cfg')
                | (Inr n, cfg') \<Rightarrow> (NodeSaved n, Some cfg')))
          else (Status 405, mgr))"

definition handle_config_node_item ::
  "(config \<Rightarrow> string option) \<Rightarrow> json_codec \<Rightarrow> bool \<Rightarrow> string \<Rightarrow> string \<Rightarrow> node_payload option \<Rightarrow> config option option
    \<Rightarrow> config_reply \<times> config option option" where
  "handle_config_node_item save jc ended meth raw_path body mgr =
     (case mgr of
        None \<Rightarrow> (Status 503, None)
      | Some cfg \<Rightarrow>
          (case path_unescape (trim_prefix raw_path ''/api/nodes/config/'') of
             None \<Rightarrow> (Status 400, mgr)
           | Some name \<Rightarrow>
               if name = [] then (Status 400, mgr)
               else if meth = ''PUT''
               then (case body of
                   None \<Rightarrow> (Status 400, mgr)
                 | Some p \<Rightarrow> (case update_node save jc ended name (payload_config p) cfg of
                       (Inl err, cfg') \<Rightarrow> (Status (node_error_status err), Some cfg')
                     | (Inr n, cfg') \<Rightarrow> (NodeSaved n, Some cfg')))
               else if meth = ''DELETE''
               then (case delete_node save ended name cfg of
                   (Some err, cfg') \<Rightarrow> (Status (node_error_status err), Some cfg')
                 | (None, cfg') \<Rightarrow> (NodeDeleted, Some cfg'))
               else (Status 405, mgr)))"

datatype reload_reply = ReloadMethod | ReloadNoManager | ReloadFailed box_error | Reloaded

definition handle_reload :: "box_env \<Rightarrow> bool \<Rightarrow> string \<Rightarrow> manager option \<Rightarrow> reload_reply \<times> manager option" where
  "handle_reload env ended meth mgr =
     (if meth \<noteq> ''POST'' then (ReloadMethod, mgr)
      else case mgr of
          None \<Rightarrow> (ReloadNoManager, mgr)
        | Some m \<Rightarrow> (case trigger_reload env ended m of
              (Some err, m') \<Rightarrow> (ReloadFailed err, Some m') | (None, m') \<Rightarrow> (Reloaded, Some m')))"

text \<open>A reply other than a saved or deleted node leaves the configuration as it was, and the invariant of the nodes holds
  after every request.\<close>

lemma config_requests:
  assumes "config_nodes_ok c" "length (c_nodes c) < 65535"
    and "handle_config_nodes save jc ended meth body (Some (Some c)) = (reply, Some (Some c'))
       \<or> handle_config_node_item save jc ended meth path body (Some (Some c)) = (reply, Some (Some c'))"
  shows "config_nodes_ok c' \<and> ((\<exists>n. reply = NodeSaved n) \<or> reply = NodeDeleted \<or> c' = c)"
proof -
  have create: "config_nodes_ok c2 \<and> ((\<exists>n. res = Inr n) \<or> c2 = c)"
    if "create_node save jc ended n (Some c) = (res, Some c2)" for n res c2
    using run_request_ok [OF assms(1,2), of save jc ended "CreateNode n"] that by (cases res) (auto simp: run_request_def)
  have update: "config_nodes_ok c2 \<and> ((\<exists>n. res = Inr n) \<or> c2 = c)"
    if "update_node save jc ended nm n (Some c) = (res, Some c2)" for nm n res c2
    using run_request_ok [OF assms(1,2), of save jc ended "UpdateNode nm n"] that by (cases res) (auto simp: run_request_def)
  have delete: "config_nodes_ok c2 \<and> (res = None \<or> c2 = c)" if "delete_node save ended nm (Some c) = (res, Some c2)" for nm res c2
    using run_request_ok [OF assms(1,2), of save jc ended "DeleteNode nm"] that by (cases res) (auto simp: run_request_def)
  show ?thesis using assms(3)
  proof
    assume "handle_config_nodes save jc ended meth body (Some (Some c)) = (reply, Some (Some c'))"
    then show ?thesis using assms(1)
      by (auto simp: handle_config_nodes_def dest!: create split: if_splits option.splits prod.splits sum.splits)
  next
    assume "handle_config_node_item save jc ended meth path body (Some (Some c)) = (reply, Some (Some c'))"
    then show ?thesis using assms(1)
      by (auto simp: handle_config_node_item_def dest!: update delete split: if_splits option.splits prod.splits sum.splits)
  qed
qed

section \<open>Example\<close>

definition api_world :: world where
  "api_world = \<lparr>w_mon = (new_manager [] False 0)\<lparr>m_entries := (\<lambda>_. (new_entry (sample_info ''n1'' ''N''))\<lparr>e_release := Some (ReleaseTag ''n1''),
       e_blacklist_fn := Some ''n1''\<rparr>), m_nodes := [(''n1'', 0)], m_next := 1\<rparr>,
     w_shared = [(''n1'', 0)], w_health = (\<lambda>_. new_health\<lparr>h_entry := Some 0\<rparr>), w_next = 1, w_dialers = []\<rparr>"

lemma api_world_registered: "registered ''n1'' 0 0 api_world"
  by (simp add: registered_def api_world_def)

theorem operator_actions_take_effect_witness:
  "\<exists>w1. handle_node_action (\<lambda>_. Some 50) 10 (Inl []) ''POST'' ''/api/nodes/n1/blacklist'' (Asked ''50ns'') api_world = (Banned 50, w1)
     \<and> fst (shared_is_blacklisted 59 0 w1) \<and> \<not> fst (shared_is_blacklisted 60 0 w1)"
proof -
  have past: "zero_time < 10" by (simp add: zero_time_def)
  have d: "if ''50ns'' = [] then 50 = 24 * hour else (\<lambda>_. Some (50 :: duration)) ''50ns'' = Some 50 \<and> (0 :: duration) < 50" by simp
  obtain w1 where "handle_node_action (\<lambda>_. Some 50) 10 (Inl []) ''POST'' (''/api/nodes/'' @ ''n1'' @ ''/blacklist'') (Asked ''50ns'') api_world
      = (Banned 50, w1)" "\<forall>t. fst (shared_is_blacklisted t 0 w1) \<longleftrightarrow> t < 10 + 50"
    using operator_actions_take_effect [OF api_world_registered _ _ past d, of "Inl []" 20] by auto
  then show ?thesis by (intro exI [of _ w1]) simp
qed

end
