(* ===== verification/FileLock.thy ===== *)
theory FileLock
  imports Prelude
begin

text \<open>
  Writing the configuration and the node file: \<open>internal/config/persistence.go\<close>. The first part is \<open>write\<close> and
  \<open>writeInPlace\<close>, what the destination holds after each system call. The second part is \<open>withPathWriteLock\<close> and
  \<open>readFileWithLock\<close> among several processes: inodes, their locks, the sidecar lock, and renames that change the inode behind
  the path. The mutex of one process only restricts the order of its own writers. Two rare cases are left out: a file that an
  in-place write creates, and a restoration that fails too.
\<close>

section \<open>Writing\<close>

datatype io_result = Fine | Denied | Broken         \<comment> \<open>\<open>Denied\<close>: \<open>EBUSY\<close> or a permission\<close>

datatype stat_result = Missing | Regular bool | NotRegular | StatBroken   \<comment> \<open>a regular file, writable or not\<close>

record write_env =
  we_stat :: stat_result
  we_temp :: io_result
  we_chmod :: bool
  we_write :: bool
  we_sync :: bool
  we_close :: bool
  we_rename :: io_result
  we_backup :: bool
  we_in_place :: bool
  we_restore :: bool

text \<open>What a reader would find: the content before, the new one, or a part of either.\<close>

datatype visible = Old | New | Torn

definition write_in_place :: "write_env \<Rightarrow> bool \<times> visible list" where
  "write_in_place e =
     (if \<not> we_backup e then (False, [Old])
      else if we_in_place e then (True, [Old, Torn, New])
      else (False, [Old, Torn, if we_restore e then Old else Torn]))"

definition write_file :: "bool \<Rightarrow> write_env \<Rightarrow> bool \<times> visible list" where
  "write_file force_in_place e =
     (if we_stat e \<in> {NotRegular, Regular False, StatBroken} then (False, [Old])
      else if force_in_place then write_in_place e
      else if we_temp e = Denied then write_in_place e
      else if we_temp e = Broken then (False, [Old])
      else if \<not> we_chmod e \<or> \<not> we_write e \<or> \<not> we_sync e \<or> \<not> we_close e then (False, [Old])
      else (case we_rename e of
          Fine \<Rightarrow> (True, [Old, New])
        | Denied \<Rightarrow> write_in_place e
        | Broken \<Rightarrow> (False, [Old])))"

text \<open>A write in place happens only where the directory does not let a file be replaced.\<close>

definition replaceable :: "bool \<Rightarrow> write_env \<Rightarrow> bool" where
  "replaceable force_in_place e \<longleftrightarrow> \<not> force_in_place \<and> we_temp e \<noteq> Denied \<and> we_rename e \<noteq> Denied"

lemma write_file_outcome:
  "write_file f e = (ok, trace) \<Longrightarrow> trace \<noteq> [] \<and> (ok \<longrightarrow> last trace = New)
     \<and> (\<not> ok \<and> we_restore e \<longrightarrow> last trace = Old) \<and> (replaceable f e \<longrightarrow> Torn \<notin> set trace \<and> (\<not> ok \<longrightarrow> last trace = Old))"
  by (auto simp: write_file_def write_in_place_def replaceable_def split: if_splits io_result.splits)

section \<open>Locks\<close>

text \<open>An agent is a writer with a sidecar lock, a writer that cannot have one and writes in place, or a reader.\<close>

datatype agent_kind = Sidecar | InPlace | Reader

datatype 'c phase =
    Idle
  | Ready                                          \<comment> \<open>in the loop, no file open\<close>
  | Opened nat                                     \<comment> \<open>an inode is open\<close>
  | Holding nat                                    \<comment> \<open>and locked\<close>
  | Acting "nat option" "'c option"                \<comment> \<open>the inode is the current one, or there is no file; what was read\<close>
  | Writing nat 'c "'c option" "'c option \<Rightarrow> 'c"    \<comment> \<open>in place: the backup, what was read, the update\<close>
  | Finished "nat option"

record 'c file_system =
  fi_path :: "nat option"                      \<comment> \<open>the inode behind the path\<close>
  fi_content :: "nat \<Rightarrow> 'c option"             \<comment> \<open>\<open>None\<close> while a write in place is under way\<close>
  fi_locks :: "nat \<Rightarrow> nat option"              \<comment> \<open>the agent that holds the lock of an inode\<close>
  fi_sidecar :: "nat option"
  fi_next :: nat
  fi_phase :: "nat \<Rightarrow> 'c phase"
  fi_log :: "('c option \<Rightarrow> 'c) list"           \<comment> \<open>the updates that were committed\<close>

definition set_phase :: "nat \<Rightarrow> 'c phase \<Rightarrow> 'c file_system \<Rightarrow> 'c file_system" where
  "set_phase a ph s = s\<lparr>fi_phase := (fi_phase s)(a := ph)\<rparr>"

definition unlock :: "nat option \<Rightarrow> 'c file_system \<Rightarrow> 'c file_system" where
  "unlock i s = (case i of None \<Rightarrow> s | Some k \<Rightarrow> s\<lparr>fi_locks := (fi_locks s)(k := None)\<rparr>)"

definition current_content :: "'c file_system \<Rightarrow> 'c option" where
  "current_content s = (case fi_path s of None \<Rightarrow> None | Some i \<Rightarrow> fi_content s i)"

text \<open>Starting point: a file with a content, or none.\<close>

definition initial_files :: "'c option \<Rightarrow> 'c file_system" where
  "initial_files c = \<lparr>fi_path = (if c = None then None else Some 0), fi_content = (\<lambda>_. c), fi_locks = (\<lambda>_. None), fi_sidecar = None,
     fi_next = (if c = None then 0 else 1), fi_phase = (\<lambda>_. Idle), fi_log = []\<rparr>"

text \<open>A writer renames a new file over the path (only with a sidecar lock), or writes in place and, if that fails, puts the backup
  back. It may also give up before it opens the file, or leave without a write.\<close>

inductive file_steps :: "(nat \<Rightarrow> agent_kind) \<Rightarrow> 'c option \<Rightarrow> 'c file_system \<Rightarrow> bool" for kind c0 where
  fs_start: "file_steps kind c0 (initial_files c0)"
| fs_sidecar: "file_steps kind c0 s \<Longrightarrow> kind a = Sidecar \<Longrightarrow> fi_phase s a = Idle \<Longrightarrow> fi_sidecar s = None \<Longrightarrow>
     file_steps kind c0 (set_phase a Ready (s\<lparr>fi_sidecar := Some a\<rparr>))"
| fs_enter: "file_steps kind c0 s \<Longrightarrow> kind a \<noteq> Sidecar \<Longrightarrow> fi_phase s a = Idle \<Longrightarrow> file_steps kind c0 (set_phase a Ready s)"
| fs_open: "file_steps kind c0 s \<Longrightarrow> fi_phase s a = Ready \<Longrightarrow> fi_path s = Some i \<Longrightarrow> file_steps kind c0 (set_phase a (Opened i) s)"
| fs_absent: "file_steps kind c0 s \<Longrightarrow> fi_phase s a = Ready \<Longrightarrow> fi_path s = None \<Longrightarrow> kind a = Sidecar \<Longrightarrow>
     file_steps kind c0 (set_phase a (Acting None None) s)"
| fs_fail: "file_steps kind c0 s \<Longrightarrow> fi_phase s a = Ready \<Longrightarrow> file_steps kind c0 (set_phase a (Finished None) s)"
| fs_lock: "file_steps kind c0 s \<Longrightarrow> fi_phase s a = Opened i \<Longrightarrow> fi_locks s i = None \<Longrightarrow>
     file_steps kind c0 (set_phase a (Holding i) (s\<lparr>fi_locks := (fi_locks s)(i := Some a)\<rparr>))"
| fs_checked: "file_steps kind c0 s \<Longrightarrow> fi_phase s a = Holding i \<Longrightarrow> kind a \<noteq> Reader \<Longrightarrow> fi_path s = Some i \<Longrightarrow>
     file_steps kind c0 (set_phase a (Acting (Some i) (fi_content s i)) s)"
| fs_retry: "file_steps kind c0 s \<Longrightarrow> fi_phase s a = Holding i \<Longrightarrow> kind a \<noteq> Reader \<Longrightarrow> fi_path s \<noteq> Some i \<Longrightarrow>
     file_steps kind c0 (set_phase a Ready (unlock (Some i) s))"
| fs_rename: "file_steps kind c0 s \<Longrightarrow> fi_phase s a = Acting i b \<Longrightarrow> kind a = Sidecar \<Longrightarrow>
     file_steps kind c0 (set_phase a (Finished i) (s\<lparr>fi_path := Some (fi_next s), fi_next := Suc (fi_next s),
       fi_content := (fi_content s)(fi_next s := Some (u b)), fi_log := fi_log s @ [u]\<rparr>))"
| fs_tear: "file_steps kind c0 s \<Longrightarrow> fi_phase s a = Acting (Some i) b \<Longrightarrow> fi_content s i = Some old \<Longrightarrow>
     file_steps kind c0 (set_phase a (Writing i old b u) (s\<lparr>fi_content := (fi_content s)(i := None)\<rparr>))"
| fs_whole: "file_steps kind c0 s \<Longrightarrow> fi_phase s a = Writing i old b u \<Longrightarrow>
     file_steps kind c0 (set_phase a (Finished (Some i)) (s\<lparr>fi_content := (fi_content s)(i := Some (u b)), fi_log := fi_log s @ [u]\<rparr>))"
| fs_restore: "file_steps kind c0 s \<Longrightarrow> fi_phase s a = Writing i old b u \<Longrightarrow>
     file_steps kind c0 (set_phase a (Finished (Some i)) (s\<lparr>fi_content := (fi_content s)(i := Some old)\<rparr>))"
| fs_read: "file_steps kind c0 s \<Longrightarrow> fi_phase s a = Holding i \<Longrightarrow> kind a = Reader \<Longrightarrow> file_steps kind c0 (set_phase a (Finished (Some i)) s)"
| fs_skip: "file_steps kind c0 s \<Longrightarrow> fi_phase s a = Acting i b \<Longrightarrow> file_steps kind c0 (set_phase a (Finished i) s)"
| fs_leave: "file_steps kind c0 s \<Longrightarrow> fi_phase s a = Finished i \<Longrightarrow>
     file_steps kind c0 (set_phase a Idle (unlock i (s\<lparr>fi_sidecar := (if fi_sidecar s = Some a then None else fi_sidecar s)\<rparr>)))"

section \<open>Who holds what\<close>

fun holds :: "'c phase \<Rightarrow> nat option" where
  "holds (Holding i) = Some i"
| "holds (Acting i b) = i"
| "holds (Writing i old b u) = Some i"
| "holds (Finished i) = i"
| "holds ph = None"

fun claims :: "'c phase \<Rightarrow> (nat option \<times> 'c option) option" where
  "claims (Acting i b) = Some (i, b)"
| "claims (Writing i old b u) = Some (Some i, b)"
| "claims ph = None"

fun writing :: "'c phase \<Rightarrow> (nat \<times> 'c \<times> 'c option \<times> ('c option \<Rightarrow> 'c)) option" where
  "writing (Writing i old b u) = Some (i, old, b, u)"
| "writing ph = None"

lemma set_phase_simps [simp]:
  "fi_path (set_phase a ph s) = fi_path s" "fi_content (set_phase a ph s) = fi_content s" "fi_locks (set_phase a ph s) = fi_locks s"
  "fi_sidecar (set_phase a ph s) = fi_sidecar s" "fi_next (set_phase a ph s) = fi_next s" "fi_log (set_phase a ph s) = fi_log s"
  "fi_phase (set_phase a ph s) = (fi_phase s)(a := ph)"
  by (simp_all add: set_phase_def)

lemma unlock_simps [simp]:
  "fi_path (unlock i s) = fi_path s" "fi_content (unlock i s) = fi_content s" "fi_sidecar (unlock i s) = fi_sidecar s"
  "fi_next (unlock i s) = fi_next s" "fi_log (unlock i s) = fi_log s" "fi_phase (unlock i s) = fi_phase s"
  "fi_locks (unlock i s) k = (if i = Some k then None else fi_locks s k)"
  by (simp_all add: unlock_def split: option.split)

lemma initial_files_simps [simp]:
  "fi_phase (initial_files c) a = Idle" "fi_locks (initial_files c) i = None" "fi_sidecar (initial_files c) = None" "fi_log (initial_files c) = []"
  "fi_content (initial_files c) i = c" "fi_path (initial_files c) = (if c = None then None else Some 0)"
  "fi_next (initial_files c) = (if c = None then 0 else 1)"
  by (simp_all add: initial_files_def)

lemma locks_held: "file_steps kind c0 s \<Longrightarrow> fi_locks s i = Some a \<longleftrightarrow> holds (fi_phase s a) = Some i"
proof (induction arbitrary: i a rule: file_steps.induct)
  case (fs_lock s b k)
  show ?case using fs_lock.IH [of i a] fs_lock.IH [of k a] fs_lock.hyps by (cases "a = b"; cases "i = k") auto
next
  case (fs_retry s b k)
  show ?case using fs_retry.IH [of i a] fs_retry.IH [of k a] fs_retry.IH [of k b] fs_retry.hyps by (cases "a = b"; cases "i = k") auto
next
  case (fs_leave s b k)
  show ?case
  proof (cases k)
    case (Some j)
    then show ?thesis using fs_leave.IH [of i a] fs_leave.IH [of j a] fs_leave.IH [of j b] fs_leave.hyps by (cases "a = b"; cases "i = j") auto
  qed (use fs_leave.IH [of i a] fs_leave.hyps in auto)
qed (auto split: if_splits)

lemma sidecar_held: "file_steps kind c0 s \<Longrightarrow> fi_sidecar s = Some a \<longleftrightarrow> kind a = Sidecar \<and> fi_phase s a \<noteq> Idle"
proof (induction arbitrary: a rule: file_steps.induct)
  case (fs_leave s b i)
  show ?case
  proof (cases "a = b")
    case False
    have "\<not> (kind a = Sidecar \<and> fi_phase s a \<noteq> Idle)" if "fi_sidecar s = Some b"
      using that False fs_leave.IH [of a] by simp
    then show ?thesis using False fs_leave.IH [of a] by (cases "fi_sidecar s = Some b") simp_all
  qed (simp split: if_split)
qed (auto split: if_splits)

lemma claim_kinds:
  "file_steps kind c0 s \<Longrightarrow> claims (fi_phase s a) = Some (j, b) \<Longrightarrow> kind a \<noteq> Reader \<and> (j = None \<longrightarrow> kind a = Sidecar)"
  by (induction arbitrary: a j b rule: file_steps.induct) (auto split: if_splits)

fun names :: "'c phase \<Rightarrow> nat option" where
  "names (Opened i) = Some i"
| "names ph = holds ph"

lemma inode_old:
  "file_steps kind c0 s \<Longrightarrow> (\<forall>i. fi_path s = Some i \<longrightarrow> i < fi_next s) \<and> (names (fi_phase s a) = Some i \<longrightarrow> i < fi_next s)"
proof (induction arbitrary: a i rule: file_steps.induct)
  case (fs_rename s a' j b u)
  then show ?case using fs_rename.IH [of a' i] fs_rename.IH [of a i] by (cases j) (auto intro: less_SucI)
next
  case (fs_tear s a' j b old u)
  then show ?case using fs_tear.IH [of a' i] fs_tear.IH [of a i] by auto
next
  case (fs_whole s a' j old b u)
  then show ?case using fs_whole.IH [of a' i] fs_whole.IH [of a i] by auto
next
  case (fs_restore s a' j old b u)
  then show ?case using fs_restore.IH [of a' i] fs_restore.IH [of a i] by auto
next
  case (fs_read s a' j)
  then show ?case using fs_read.IH [of a' i] fs_read.IH [of a i] by auto
next
  case (fs_skip s a' j b)
  then show ?case using fs_skip.IH [of a' i] fs_skip.IH [of a i] by (cases j) auto
next
  case (fs_lock s a' j)
  then show ?case using fs_lock.IH [of a' i] fs_lock.IH [of a i] by auto
next
  case (fs_checked s a' j)
  then show ?case using fs_checked.IH [of a' i] fs_checked.IH [of a i] by auto
qed (auto split: if_splits)

lemma claims_holds: "claims ph = Some (Some i, b) \<Longrightarrow> holds ph = Some i"
  by (cases ph) auto

lemma same_claim:
  assumes "file_steps kind c0 s" and "claims (fi_phase s a) = Some (j, b)" and "claims (fi_phase s a') = Some (j, b')"
  shows "a = a'"
proof (cases j)
  case (Some i)
  then show ?thesis using assms(2,3) claims_holds locks_held [OF assms(1)] by (metis option.inject)
next
  case None
  then have "fi_sidecar s = Some a" "fi_sidecar s = Some a'"
    using assms(2,3) claim_kinds [OF assms(1)] sidecar_held [OF assms(1)] by fastforce+
  then show ?thesis by simp
qed

lemma claims_current: "file_steps kind c0 s \<Longrightarrow> claims (fi_phase s a) = Some (j, b) \<Longrightarrow> fi_path s = j"
proof (induction arbitrary: a j b rule: file_steps.induct)
  case (fs_rename s a' i b' u)
  have "claims (fi_phase s a') = Some (i, b')" using fs_rename by simp
  moreover have "a \<noteq> a'" and other: "claims (fi_phase s a) = Some (j, b)" using fs_rename.prems by (auto split: if_splits)
  moreover have "fi_path s = j" "fi_path s = i" using fs_rename.IH other calculation(1) by blast+
  ultimately have False using same_claim [OF fs_rename.hyps(1)] by metis
  then show ?case ..
next
  case (fs_tear s a' i b' old u)
  then show ?case using fs_tear.IH [of a' "Some i" b'] fs_tear.IH [of a j b] by (auto split: if_splits)
qed (auto split: if_splits)

lemma one_writer:
  assumes "file_steps kind c0 s" "claims (fi_phase s a) = Some x" "claims (fi_phase s a') = Some x'"
  shows "a = a'"
  using same_claim [OF assms(1)] claims_current [OF assms(1)] assms(2,3) by (metis prod.exhaust)

section \<open>What the file holds\<close>

definition logged :: "'c option \<Rightarrow> ('c option \<Rightarrow> 'c) list \<Rightarrow> 'c option" where
  "logged c0 us = foldl (\<lambda>c u. Some (u c)) c0 us"

lemma logged_simps [simp]: "logged c [] = c" "logged c (us @ [u]) = Some (u (logged c us))"
  by (simp_all add: logged_def)

lemma writing_claims: "writing ph = Some (i, old, b, u) \<Longrightarrow> claims ph = Some (Some i, b)"
  by (cases ph) auto

definition content_inv :: "'c option \<Rightarrow> 'c file_system \<Rightarrow> bool" where
  "content_inv c0 s \<longleftrightarrow> (\<forall>a j b. claims (fi_phase s a) = Some (j, b) \<longrightarrow> b = logged c0 (fi_log s))
     \<and> (\<forall>a i old b u. writing (fi_phase s a) = Some (i, old, b, u) \<longrightarrow> b = Some old)
     \<and> ((\<forall>a. writing (fi_phase s a) = None) \<longrightarrow> current_content s = logged c0 (fi_log s))
     \<and> (\<forall>i. i < fi_next s \<and> fi_content s i = None \<longrightarrow> (\<exists>a old b u. writing (fi_phase s a) = Some (i, old, b, u)))"

lemma content_inv_frame:
  assumes "content_inv c0 s" and "\<And>b. claims (fi_phase s' b) = claims (fi_phase s b)" and "\<And>b. writing (fi_phase s' b) = writing (fi_phase s b)"
    and "fi_content s' = fi_content s" "fi_path s' = fi_path s" "fi_next s' = fi_next s" "fi_log s' = fi_log s"
  shows "content_inv c0 s'"
  using assms(1) unfolding content_inv_def current_content_def assms(2-7) .

text \<open>A writer that passed the check alone decides the content: no other claims, none is writing.\<close>

lemma alone:
  assumes "file_steps kind c0 s" "claims (fi_phase s a) = Some x" "b \<noteq> a"
  shows "claims (fi_phase s b) = None" and "writing (fi_phase s b) = None"
proof -
  show c: "claims (fi_phase s b) = None" using one_writer [OF assms(1,2)] assms(3) by (cases "claims (fi_phase s b)") auto
  show "writing (fi_phase s b) = None" using c by (cases "fi_phase s b") auto
qed

lemma not_written:
  assumes "file_steps kind c0 s" and "fi_phase s a = Holding i" and "fi_path s = Some i"
  shows "writing (fi_phase s b) = None"
proof (cases "writing (fi_phase s b)")
  case (Some w)
  obtain k old v u where w: "w = (k, old, v, u)" by (cases w)
  have "claims (fi_phase s b) = Some (Some k, v)" by (rule writing_claims [of _ k old v u]) (simp add: Some w)
  then have "holds (fi_phase s b) = Some k" "k = i" using claims_holds claims_current [OF assms(1)] assms(3) by (fastforce, fastforce)
  then have "a = b" using locks_held [OF assms(1)] assms(2) by (metis holds.simps(1) option.inject)
  then show ?thesis using Some assms(2) by simp
qed

lemma current_content_set_phase [simp]: "current_content (set_phase a ph s) = current_content s"
  by (simp add: current_content_def split: option.split)

lemma content_inv_absent:
  assumes "file_steps kind c0 s" "content_inv c0 s" "fi_phase s a = Ready" "fi_path s = None"
  shows "content_inv c0 (set_phase a (Acting None None) s)"
proof -
  have none: "writing (fi_phase s b) = None" for b
  proof (cases "writing (fi_phase s b)")
    case (Some w)
    obtain k old v u where w: "w = (k, old, v, u)" by (cases w)
    have "claims (fi_phase s b) = Some (Some k, v)" by (rule writing_claims [of _ k old v u]) (simp add: Some w)
    then show ?thesis using claims_current [OF assms(1)] assms(4) by fastforce
  qed
  then have "logged c0 (fi_log s) = None" using assms(2,4) by (simp add: content_inv_def current_content_def)
  then show ?thesis using assms(2) none by (auto simp: content_inv_def)
qed

lemma content_inv_checked:
  assumes "file_steps kind c0 s" "content_inv c0 s" "fi_phase s a = Holding i" "fi_path s = Some i"
  shows "content_inv c0 (set_phase a (Acting (Some i) (fi_content s i)) s)"
proof -
  note none = not_written [OF assms(1,3,4)]
  then have "fi_content s i = logged c0 (fi_log s)" using assms(2,4) by (simp add: content_inv_def current_content_def)
  then show ?thesis using assms(2) none by (auto simp: content_inv_def)
qed

lemma content_inv_done:
  assumes "content_inv c0 s" "fi_phase s a = Acting i b"
  shows "content_inv c0 (set_phase a (Finished i) s)"
proof -
  have w: "writing (((fi_phase s)(a := Finished i)) x) = writing (fi_phase s x)" for x using assms(2) by simp
  have c: "claims (((fi_phase s)(a := Finished i)) x) = Some y \<Longrightarrow> claims (fi_phase s x) = Some y" for x y
    by (simp split: if_splits)
  note inv = assms(1) [unfolded content_inv_def]
  have "\<forall>x j v. claims (((fi_phase s)(a := Finished i)) x) = Some (j, v) \<longrightarrow> v = logged c0 (fi_log s)"
    using inv [THEN conjunct1] c by blast
  then show ?thesis unfolding content_inv_def set_phase_simps current_content_set_phase w
    using inv [THEN conjunct2] by (rule conjI)
qed

lemma content_inv_rename:
  assumes "file_steps kind c0 s" "content_inv c0 s" "fi_phase s a = Acting i b"
  shows "content_inv c0 (set_phase a (Finished i) (s\<lparr>fi_path := Some (fi_next s), fi_next := Suc (fi_next s),
       fi_content := (fi_content s)(fi_next s := Some (u b)), fi_log := fi_log s @ [u]\<rparr>))"
proof -
  have c: "claims (fi_phase s a) = Some (i, b)" "writing (fi_phase s a) = None" using assms(3) by simp_all
  have "b = logged c0 (fi_log s)" using assms(2) c(1) by (auto simp: content_inv_def)
  moreover have "writing (fi_phase s b') = None" for b' using alone(2) [OF assms(1) c(1)] c(2) by (cases "b' = a") auto
  moreover have "claims (fi_phase s b') = None" if "b' \<noteq> a" for b' using alone(1) [OF assms(1) c(1) that] .
  ultimately show ?thesis using assms(2) by (auto simp: content_inv_def current_content_def less_Suc_eq)
qed

lemma content_inv_tear:
  assumes "file_steps kind c0 s" "content_inv c0 s" "fi_phase s a = Acting (Some i) b" "fi_content s i = Some old"
  shows "content_inv c0 (set_phase a (Writing i old b u) (s\<lparr>fi_content := (fi_content s)(i := None)\<rparr>))"
proof -
  have c: "claims (fi_phase s a) = Some (Some i, b)" "writing (fi_phase s a) = None" using assms(3) by simp_all
  have log: "b = logged c0 (fi_log s)" using assms(2) c(1) by (auto simp: content_inv_def)
  have none: "writing (fi_phase s b') = None" for b' using alone(2) [OF assms(1) c(1)] c(2) by (cases "b' = a") auto
  have "fi_path s = Some i" using claims_current [OF assms(1) c(1)] .
  then have "logged c0 (fi_log s) = Some old" using assms(2,4) none by (simp add: content_inv_def current_content_def)
  then show ?thesis using assms(2) log none alone(1) [OF assms(1) c(1)] by (auto simp: content_inv_def current_content_def)
qed

lemma content_inv_end:
  assumes "file_steps kind c0 s" "content_inv c0 s" "fi_phase s a = Writing i old b u"
  shows "content_inv c0 (set_phase a (Finished (Some i)) (s\<lparr>fi_content := (fi_content s)(i := Some (u b)), fi_log := fi_log s @ [u]\<rparr>))"
    and "content_inv c0 (set_phase a (Finished (Some i)) (s\<lparr>fi_content := (fi_content s)(i := Some old)\<rparr>))"
proof -
  have c: "claims (fi_phase s a) = Some (Some i, b)" "writing (fi_phase s a) = Some (i, old, b, u)" using assms(3) by simp_all
  have "b = logged c0 (fi_log s)" "b = Some old" using assms(2) c unfolding content_inv_def by blast+
  then have log: "logged c0 (fi_log s) = Some old" "b = Some old" by simp_all
  have path: "fi_path s = Some i" using claims_current [OF assms(1) c(1)] .
  note others = alone [OF assms(1) c(1)]
  have torn: "fi_content s k \<noteq> None" if "k < fi_next s" "k \<noteq> i" for k
  proof
    assume "fi_content s k = None"
    then obtain d od bd ud where d: "writing (fi_phase s d) = Some (k, od, bd, ud)" using assms(2) \<open>k < fi_next s\<close> unfolding content_inv_def by blast
    then have "d = a" using others(2) [of d] by (cases "d = a") auto
    then show False using d c(2) \<open>k \<noteq> i\<close> by simp
  qed
  show "content_inv c0 (set_phase a (Finished (Some i)) (s\<lparr>fi_content := (fi_content s)(i := Some (u b)), fi_log := fi_log s @ [u]\<rparr>))"
    "content_inv c0 (set_phase a (Finished (Some i)) (s\<lparr>fi_content := (fi_content s)(i := Some old)\<rparr>))"
    using log path others torn by (auto simp: content_inv_def current_content_def)
qed

lemma content_inv_holds: "file_steps kind c0 s \<Longrightarrow> content_inv c0 s"
proof (induction rule: file_steps.induct)
  case fs_start
  then show ?case by (auto simp: content_inv_def current_content_def split: if_splits)
next
  case (fs_absent s a)
  then show ?case by (intro content_inv_absent)
next
  case (fs_checked s a i)
  then show ?case by (intro content_inv_checked)
next
  case (fs_skip s a i b)
  then show ?case using content_inv_done by blast
next
  case (fs_rename s a i b u)
  then show ?case by (intro content_inv_rename)
next
  case (fs_tear s a i b old u)
  then show ?case by (intro content_inv_tear)
next
  case (fs_whole s a i old b u)
  then show ?case by (intro content_inv_end(1))
next
  case (fs_restore s a i old b u)
  then show ?case by (intro content_inv_end(2))
qed (rule content_inv_frame, assumption, auto)+

section \<open>No update is lost\<close>

text \<open>C20: Concurrent writers of one file, with and without a sidecar lock, in whatever order they open, lock, check, replace and leave: at most one is
  past the check, the file holds the updates of all writers in the order of their commits, each applied to the result of the
  one before, and a reader that holds the lock finds a complete content.\<close>

theorem no_update_is_lost:
  assumes "file_steps kind c0 s"
  shows "(\<forall>a b x y. claims (fi_phase s a) = Some x \<and> claims (fi_phase s b) = Some y \<longrightarrow> a = b)
    \<and> ((\<forall>a. writing (fi_phase s a) = None) \<longrightarrow> current_content s = foldl (\<lambda>c u. Some (u c)) c0 (fi_log s))
    \<and> (\<forall>a i. kind a = Reader \<and> fi_phase s a = Holding i \<longrightarrow> fi_content s i \<noteq> None)"
proof (intro conjI allI impI)
  note inv = content_inv_holds [OF assms]
  show "a = b" if "claims (fi_phase s a) = Some x \<and> claims (fi_phase s b) = Some y" for a b x y
    using one_writer [OF assms] that by blast
  show "current_content s = foldl (\<lambda>c u. Some (u c)) c0 (fi_log s)" if "\<forall>a. writing (fi_phase s a) = None"
    using inv that by (simp add: content_inv_def logged_def)
  show "fi_content s i \<noteq> None" if "kind a = Reader \<and> fi_phase s a = Holding i" for a i
  proof
    assume "fi_content s i = None"
    moreover have "i < fi_next s" using inode_old [OF assms, of a i] that by simp
    ultimately obtain d od bd ud where d: "writing (fi_phase s d) = Some (i, od, bd, ud)" using inv unfolding content_inv_def by blast
    have "claims (fi_phase s d) = Some (Some i, bd)" by (rule writing_claims [of _ i od bd ud]) (rule d)
  then have "holds (fi_phase s d) = Some i" by (rule claims_holds)
    then have "a = d" using locks_held [OF assms] that by (metis holds.simps(1) option.inject)
    then show False using d that by simp
  qed
qed

definition demo_kind :: "nat \<Rightarrow> agent_kind" where "demo_kind a = (if a = 0 then Sidecar else InPlace)"

theorem no_update_is_lost_witness:
  "\<exists>s. file_steps demo_kind (Some (0 :: int)) s \<and> length (fi_log s) = 1 \<and> current_content s = Some 1"
proof -
  let ?u = "\<lambda>c. case c of Some n \<Rightarrow> n + 1 | None \<Rightarrow> 0"
  let ?s0 = "initial_files (Some (0 :: int))"
  let ?s1 = "set_phase 0 Ready (?s0\<lparr>fi_sidecar := Some 0\<rparr>)"
  let ?s2 = "set_phase 0 (Opened 0) ?s1"
  let ?s3 = "set_phase 0 (Holding 0) (?s2\<lparr>fi_locks := (fi_locks ?s2)(0 := Some 0)\<rparr>)"
  let ?s4 = "set_phase 0 (Acting (Some 0) (fi_content ?s3 0)) ?s3"
  let ?s5 = "set_phase 0 (Finished (Some 0)) (?s4\<lparr>fi_path := Some (fi_next ?s4), fi_next := Suc (fi_next ?s4),
       fi_content := (fi_content ?s4)(fi_next ?s4 := Some (?u (Some 0))), fi_log := fi_log ?s4 @ [?u]\<rparr>)"
  have s1: "file_steps demo_kind (Some 0) ?s1" by (rule fs_sidecar [OF fs_start]) (simp_all add: demo_kind_def)
  have s2: "file_steps demo_kind (Some 0) ?s2" by (rule fs_open [OF s1]) simp_all
  have s3: "file_steps demo_kind (Some 0) ?s3" by (rule fs_lock [OF s2]) simp_all
  have s4: "file_steps demo_kind (Some 0) ?s4" by (rule fs_checked [OF s3]) (simp_all add: demo_kind_def)
  have s5: "file_steps demo_kind (Some 0) ?s5" by (rule fs_rename [OF s4]) (simp_all add: demo_kind_def)
  have "\<forall>a. writing (fi_phase ?s5 a) = None" by simp
  then have "current_content ?s5 = foldl (\<lambda>c u. Some (u c)) (Some 0) (fi_log ?s5)" using no_update_is_lost [OF s5] by blast
  also have "\<dots> = Some 1" by simp
  finally have "current_content ?s5 = Some 1" .
  moreover have "length (fi_log ?s5) = 1" by simp
  ultimately show ?thesis using s5 by (intro exI [of _ ?s5] conjI)
qed

end
