(* ===== verification/GeoUpdate.thy ===== *)
theory GeoUpdate
  imports GeoRegion
begin

text \<open>
  The database file of the region lookup (\<open>internal/geoip/geoip.go\<close>): \<open>EnsureDatabase\<close>, \<open>validateMMDB\<close>,
  \<open>downloadDatabaseContext\<close> and what \<open>Update\<close> does with the file. The answer of the HTTP server, the results of the
  file operations and \<open>geoip2.Open\<close> are parameters.
\<close>

definition max_database_bytes :: nat where "max_database_bytes = 64 * 1024 * 1024"
definition mmdb_tail :: nat where "mmdb_tail = 8192"

type_synonym mmdb_open = "string \<Rightarrow> region_db option"

definition validate_mmdb :: "mmdb_open \<Rightarrow> string \<Rightarrow> bool" where
  "validate_mmdb opens content \<longleftrightarrow> 1024 \<le> length content
     \<and> index_of (drop (length content - min mmdb_tail (length content)) content) ''MaxMind.com'' \<noteq> None \<and> opens content \<noteq> None"

section \<open>Downloading\<close>

text \<open>An answer: its status, its announced length (not positive when unknown), its body, and whether reading it succeeded.\<close>

record http_answer =
  ha_status :: int
  ha_length :: int
  ha_body :: string
  ha_complete :: bool

record disk_env =
  de_directory :: bool
  de_temp :: bool
  de_sync :: bool
  de_close :: bool
  de_rename :: bool

datatype download_fault =
    DirectoryFault | NoAnswer | BadStatus | TooLarge | TempFault | ReadFault | Incomplete | SyncFault | CloseFault | InvalidDatabase
  | ReplaceFault

definition download_database :: "mmdb_open \<Rightarrow> disk_env \<Rightarrow> http_answer option \<Rightarrow> download_fault + string" where
  "download_database opens e answer =
     (if \<not> de_directory e then Inl DirectoryFault
      else case answer of
          None \<Rightarrow> Inl NoAnswer
        | Some a \<Rightarrow>
            if ha_status a \<noteq> 200 then Inl BadStatus
            else if ha_length a > int max_database_bytes then Inl TooLarge
            else if \<not> de_temp e then Inl TempFault
            else let copied = take (max_database_bytes + 1) (ha_body a)
              in if \<not> ha_complete a then Inl ReadFault
                 else if length copied > max_database_bytes then Inl TooLarge
                 else if ha_length a > 0 \<and> int (length copied) < ha_length a then Inl Incomplete
                 else if \<not> de_sync e then Inl SyncFault
                 else if \<not> de_close e then Inl CloseFault
                 else if \<not> validate_mmdb opens copied then Inl InvalidDatabase
                 else if \<not> de_rename e then Inl ReplaceFault
                 else Inr copied)"

section \<open>The file\<close>

datatype database_file = Absent | NotAFile | Unreadable | Content string

datatype ensure_error = PathNotFile | StatFault | DownloadFault download_fault

definition ensure_database ::
  "mmdb_open \<Rightarrow> disk_env \<Rightarrow> http_answer option \<Rightarrow> string \<Rightarrow> database_file \<Rightarrow> ensure_error option \<times> database_file" where
  "ensure_database opens e answer path f =
     (if path = [] then (None, f)
      else case f of
          NotAFile \<Rightarrow> (Some PathNotFile, f)
        | Unreadable \<Rightarrow> (Some StatFault, f)
        | _ \<Rightarrow> if (case f of Content c \<Rightarrow> c \<noteq> [] | _ \<Rightarrow> False) then (None, f)
               else (case download_database opens e answer of
                   Inl err \<Rightarrow> (Some (DownloadFault err), f) | Inr c \<Rightarrow> (None, Content c)))"

text \<open>\<open>Update\<close>: the staging file, the download into it, opening it, and the rename over the database. \<open>reopens\<close> says whether the second
  open of the downloaded content succeeds.\<close>

record stage_env =
  sg_temp :: bool
  sg_download :: disk_env
  sg_reopens :: bool
  sg_replaced :: bool

definition staged :: "mmdb_open \<Rightarrow> stage_env \<Rightarrow> http_answer option \<Rightarrow> download \<times> string" where
  "staged opens e answer =
     (if \<not> sg_temp e then (DownloadFailed, [])
      else case download_database opens (sg_download e) answer of
          Inl _ \<Rightarrow> (DownloadFailed, [])
        | Inr c \<Rightarrow>
            (case (if sg_reopens e then opens c else None) of
               None \<Rightarrow> (OpenFailed, c)
             | Some db \<Rightarrow> if sg_replaced e then (Downloaded db, c) else (RenameFailed, c)))"

definition update_with_file ::
  "mmdb_open \<Rightarrow> stage_env \<Rightarrow> http_answer option \<Rightarrow> geo_state \<times> database_file \<Rightarrow> update_error option \<times> geo_state \<times> database_file" where
  "update_with_file opens e answer x =
     (let (d, c) = staged opens e answer; (r, s') = update_database d (fst x)
      in (r, s', if r = None then Content c else snd x))"

section \<open>A working database is kept\<close>

lemma download_databaseD:
  assumes "download_database opens e answer = Inr c"
  shows "validate_mmdb opens c" and "length c \<le> max_database_bytes"
    and "\<exists>a. answer = Some a \<and> ha_status a = 200 \<and> ha_complete a \<and> c = ha_body a \<and> (ha_length a > 0 \<longrightarrow> ha_length a \<le> int (length c))"
proof -
  obtain a where a: "answer = Some a" "ha_status a = 200" "ha_complete a" "c = take (max_database_bytes + 1) (ha_body a)"
    "length c \<le> max_database_bytes" "ha_length a > 0 \<longrightarrow> ha_length a \<le> int (length c)" "validate_mmdb opens c"
    using assms by (auto simp: download_database_def Let_def not_less split: option.splits if_split_asm simp del: length_take)
  show "validate_mmdb opens c" "length c \<le> max_database_bytes" by fact+
  have "c = ha_body a" using a(4,5) by simp
  then show "\<exists>a. answer = Some a \<and> ha_status a = 200 \<and> ha_complete a \<and> c = ha_body a \<and> (ha_length a > 0 \<longrightarrow> ha_length a \<le> int (length c))"
    using a by blast
qed

text \<open>An update that fails for any reason leaves the reader, the cache and the file as they were. One that succeeds put a complete,
  valid database of bounded size in the file, the reader uses exactly that one, and nothing cached from the old one is left.\<close>

lemma bad_download_keeps_database:
  assumes "update_with_file opens e answer (s, f) = (r, s', f')"
  shows "(r \<noteq> None \<longrightarrow> s' = s \<and> f' = f)
    \<and> (r = None \<longrightarrow> (\<exists>c. f' = Content c \<and> validate_mmdb opens c \<and> length c \<le> max_database_bytes \<and> gl_db s' = opens c
         \<and> gl_cache s' = [] \<and> gl_epoch s' = gl_epoch s + 1))"
proof -
  obtain d c where d: "staged opens e answer = (d, c)" by (cases "staged opens e answer")
  have db: "validate_mmdb opens c \<and> length c \<le> max_database_bytes \<and> opens c = Some db" if "d = Downloaded db" for db
    using d that download_databaseD by (auto simp: staged_def split: if_splits sum.splits option.splits)
  show ?thesis using assms d db
    by (cases d) (auto simp: update_with_file_def update_database_def split: if_splits)
qed

lemma ensure_keeps_content: "ensure_database opens e answer path (Content c) = (r, f) \<Longrightarrow> c \<noteq> [] \<Longrightarrow> r = None \<and> f = Content c"
  by (auto simp: ensure_database_def split: if_splits)

end
