(* ===== verification/Spec2Isabelle.thy ===== *)
theory Spec2Isabelle
  imports LogRing PoolSafety NodeIdentity BoxLife AssembleFacts IngressFacts GeoFacts RouterFacts SubFacts
    MgmtAuth ProxyLinks ConfigLoad SettingsEdit ProbeError NodeApi FileLock GeoUpdate
begin

text \<open>
  A verification development for easy_proxies, a Go program that turns subscriptions and lists of proxy
  nodes into a sing-box instance with a shared entry, one entry per node, sticky sessions, health checks
  and a management UI.

  \<^bold>\<open>The program.\<close> \<open>cmd/easy_proxies\<close> and \<open>internal/app\<close> load the configuration (\<open>internal/config\<close>), create the
  manager of the sing-box instance (\<open>internal/boxmgr\<close>), the monitor (\<open>internal/monitor\<close>) and the subscription
  manager (\<open>internal/subscription\<close>). The manager asks \<open>internal/builder\<close> for the options of an instance: an outbound
  per node, pools over them, listeners and rules. While the instance runs, a connection arrives at a listener,
  reaches a pool (\<open>internal/outbound/pool\<close>), which picks a member by mode, health and session binding, dials it and
  reports the outcome. The health of a node (\<open>shared_state.go\<close>) is shared by all pools it is in and read by the
  monitor; named sessions (\<open>internal/routing/store.go\<close>) are shared by all connections. An edit or a refresh makes the
  manager reload: it closes the old instance, starts the new one, and restores the old configuration when that fails.

  \<^bold>\<open>Theories and sources.\<close>
  \<^item> \<open>Prelude\<close>: instants, durations, Go maps (association lists without repeated keys), strings as byte lists,
    shared facts and the collections \<open>wf_intros\<close> and \<open>op_defs\<close>.
  \<^item> \<open>LogRing\<close> (\<open>internal/monitor/logbuffer.go\<close>): the ring buffer refines the list of the last lines.
  \<^item> \<open>SessionStore\<close>, \<open>SessionGates\<close> (\<open>internal/routing/store.go\<close>): bindings with their expiry, capacity and LRU
    eviction; leases, gates and tokens. \<open>SessionStore\<close> is the sequential store, \<open>SessionGates\<close> a step relation in which
    clients interleave at the points where the code releases its mutex.
  \<^item> \<open>MonitorEntry\<close>, \<open>MonitorManager\<close> (\<open>internal/monitor/manager.go\<close>): counters, timeline and registration of nodes,
    snapshots for the dashboard.
  \<^item> \<open>NodeHealth\<close> (\<open>internal/outbound/pool/shared_state.go\<close>): bans, cooldowns, thresholds, classification of failures.
  \<^item> \<open>PoolState\<close>, \<open>PoolSelect\<close>, \<open>PoolPick\<close>, \<open>PoolDial\<close>, \<open>PoolSafety\<close> (\<open>pool.go\<close>, \<open>dialer_registry.go\<close>): options and state of
    a pool, selection, what a pick returns, dialling with retries, and the properties of whole dials.
  \<^item> \<open>GoText\<close>, \<open>GoBase64\<close>, \<open>GoUrl\<close>, \<open>GoUrlFacts\<close>: the parts of Go's \<open>strings\<close>, \<open>strconv\<close>, \<open>encoding/base64\<close> and
    \<open>net/url\<close> that the URI code uses, each with the facts the round trips need.
  \<^item> \<open>SsUri\<close> (\<open>internal/ssuri/ssuri.go\<close>), \<open>ClashUri\<close> (the conversion half of \<open>internal/config/config.go\<close>), \<open>NodeOutbound\<close>
    (the URI half of \<open>internal/builder/builder.go\<close>): node URIs are parsed, printed from Clash entries, and turned into the
    options of an outbound. \<open>NodeRoundTrip\<close>, \<open>SsrRoundTrip\<close>, \<open>NodeIdentity\<close>: what survives from entry to outbound.
  \<^item> \<open>NodeKey\<close>, \<open>ConfigTypes\<close>, \<open>PortPlan\<close>, \<open>PortFacts\<close> (\<open>internal/config\<close>): the identity of a node, the configuration with
    its defaults and validation, the assignment of ports in three passes, and what it guarantees across reloads.
  \<^item> \<open>ConfigLoad\<close> (\<open>Load\<close>, \<open>normalize\<close>, \<open>FetchSubscriptionNodes\<close> in \<open>internal/config/config.go\<close>) and \<open>FileLock\<close>
    (\<open>internal/config/persistence.go\<close>): how a configuration comes from its file, its subscriptions and the cached nodes;
    how files are locked, replaced and written in place while other processes do the same.
  \<^item> \<open>BoxNodes\<close>, \<open>BoxReload\<close>, \<open>BoxFacts\<close>, \<open>BoxLife\<close> (\<open>internal/boxmgr/manager.go\<close>): node edits, start, reload, rollback and
    close; the invariant of the instances; the abstract life cycle they refine.
  \<^item> \<open>Assemble\<close> (\<open>Build\<close> in \<open>internal/builder/builder.go\<close>), \<open>BoxCreate\<close> (\<open>createBox\<close>), \<open>AssembleFacts\<close>: the whole sing-box
    configuration, the removal of rejected outbounds, and the listeners' ports.
  \<^item> \<open>ProxyAuth\<close>, \<open>SessionIngress\<close>, \<open>IngressFacts\<close> (\<open>internal/routing/auth.go\<close>, \<open>internal/routing/context.go\<close>,
    \<open>internal/inbound/session\<close>): who may use the proxy as which session, and the HTTP, SOCKS5 and SOCKS4 front end up to the
    point where a request is routed.
  \<^item> \<open>GeoRegion\<close>, \<open>GeoUpdate\<close>, \<open>GeoFacts\<close> (\<open>internal/geoip/geoip.go\<close>): the region of a node with its cache and shared
    lookups, and the database file; \<open>GeoRouter\<close>, \<open>RouterFacts\<close> (\<open>internal/geoip/router.go\<close>): the proxy that picks a pool by region.
  \<^item> \<open>Subscription\<close>, \<open>SubFacts\<close> (\<open>internal/subscription/manager.go\<close>): the worker, shared refresh calls, edits of the
    settings, and the refresh as a transaction of the sing-box manager.
  \<^item> \<open>MgmtAuth\<close>, \<open>ProxyLinks\<close>, \<open>SettingsEdit\<close>, \<open>NodeApi\<close> (\<open>internal/monitor/server.go\<close>, \<open>internal/monitor/proxy_sessions.go\<close>):
    the handlers of the management API, namely logins and the gate before every handler, named sessions and the links to them, the
    settings, and the dashboard with its actions and node edits.
  \<^item> \<open>ProbeRuns\<close> (\<open>internal/monitor/manager.go\<close>), \<open>ProbeError\<close> (\<open>internal/monitor/probe_error.go\<close>): the probe of a node that all
    callers share, sweeps over all nodes, and how a failure is classified and logged.

  \<^bold>\<open>How state and operations correspond.\<close> A struct is a record with the fields the code reads, an operation a function
  from the old record to the result and the new record, composed as the code composes its calls; a pointer that may be
  nil is an option, and a pointer shared by several owners (the health of a node, a monitor entry) is an index into a
  list that all of them read. A handler of the management API is a function from the decoded request to a reply, a value that
  names the branch taken, and the new state. What runs concurrently is an inductive step relation whose steps are the
  critical sections of the code: session leases, region lookups, refresh calls, probe runs, sweeps and file locks. Ports are 16-bit words and the round-robin counter a 32-bit word, so both wrap as in Go.
  Errors are values of a sum or an option; every early return is a branch.

  \<^bold>\<open>What the lemmas show.\<close> For each component there is an invariant that every operation preserves (\<open>store_ok\<close>, \<open>box_inv\<close>,
  \<open>ports_separate\<close>, \<open>options_usable\<close>, \<open>sub_inv\<close>, \<open>geo_inv\<close> and others) and the result of each operation branch by branch.
  Abstract specifications are refined by the log ring (last lines), the life cycle (an abstract machine of commits, restorations,
  outages, edits and the shutdown) and the session store (scan of all bindings against the ordered prune). Round trips connect
  printed and parsed URIs, the session links and the credentials they carry, the settings page and the settings it saves. The step
  relations have invariants by rule induction: leases exclude each other, at most one process is past the check of a file, probe
  results are written in the order of their runs, no trigger of a sweep and no refresh call is lost. Interfaces are locales,
  interpreted on the model's definitions in the component that provides them; properties rest on the interpreted facts.

  \<^bold>\<open>Bounds and termination.\<close> All recursion is structural or has a measure; nothing runs on fuel that could hide a missing
  result. The search for a free port counts up to 65536, the search of \<open>next_port_from\<close> visits each of the 65535 ports
  once. A reload tries 10 times and a rollback 5 times as in the code. \<open>createBox\<close> tries 3n + 51 times for n nodes; it is
  proved that this limit is never reached. The code's own bounds are kept: 64 KiB of header, 4096 cached host names, 1024 login
  sessions, a database of 64 MiB. That at most two refresh calls are open at a time is proved, not assumed.

  \<^bold>\<open>Modelling choices.\<close>
  \<^item> A method reads the clock once; instants are unbounded integers.
  \<^item> Upper and lower case and white space are those of ASCII; a tag or a mode that Go would fold by Unicode rules is outside
    the model.
  \<^item> A callback that the pool hands to its connections (release of a token, of a lease, of a connection count) is a value of
    a datatype, applied by one function.
  \<^item> Notification of waiters is one step; a waiter that gives up and a waiter that is woken are separate steps.
  \<^item> The life cycle runs under \<open>lifecycleMu\<close> and \<open>reloadMu\<close>, so its operations are sequential. The answers of sing-box, of the
    operating system and of the caller's context are read from an environment by position in time.
  \<^item> A Go map is a list, and the order in which a range visits it is the order of that list; where the code sorts or the order
    cannot matter, this is proved or follows from the sort. The order in which concurrent downloads end is a parameter.
  \<^item> The configuration file is the configuration it decodes to. A refresh of the subscriptions takes the branch for a manager with
    transactions, which is the only manager of the program. A restoration after a failed write in place is taken to succeed.
  \<^item> Parameters stand for code outside the repository: JSON and YAML decoders, \<open>time.ParseDuration\<close>, SHA-256 and random tokens,
    the sing-box library, SOCKS wire formats and the HTTP client, port probes, the content of a GeoIP database, DNS, files, and
    the order in which concurrent lookups answer. Hypotheses on them are named (such as \<open>arrival_ok\<close>) and each is met by a concrete
    instance in a witness.

  \<^bold>\<open>Not modelled.\<close> Of \<open>internal/monitor/server.go\<close>: the streams of server-sent events (batch probe, traffic), the log page, the
  status page of the subscriptions and the start of the HTTP server. Of \<open>pool.go\<close>: the health probe over a connection
  (\<open>httpProbe\<close>, \<open>upgradeProbeConn\<close>, \<open>probeMember\<close>). Further, \<open>internal/app\<close> and \<open>cmd/easy_proxies\<close> (wiring and signals), byte
  relays, YAML encoding, the transport of downloads, the system calls behind file locks, \<open>SaveNodes\<close> (nothing calls it), console
  output and the embedded web assets: they are input and output around the modelled decisions, or calls into libraries.
\<close>

end
